(* ===== verification/Grades.thy ===== *)
theory Grades
  imports Main
begin

text \<open>
  The two axes a finding is graded on and the level they combine to: \<open>versionVerdict\<close> and
  \<open>versionGrade\<close> of \<open>internal/match/versions.go\<close>, \<open>identityGrade\<close> of \<open>internal/match/identity.go\<close>,
  \<open>Confidence\<close> and \<open>Result\<close> of \<open>internal/match/match.go\<close>. The code compares the grades with \<open>>\<close> on the
  integers behind the constants, so each grade type is made a \<open>linorder\<close> by its constant's value.
\<close>

datatype versionVerdict = vNotInRange | vInRange | vUndecided

datatype versionGrade = vgUndecidable | vgUnbounded | vgPattern | vgLiteral | vgGeneric | vgOrdered

datatype identityGrade = idNone | idWeak | idModerate | idStrong | idExact

datatype Confidence = Possible | Probable | Confirmed

datatype Result = NoMatch | Match | Undecidable | Suppressed

definition versionGrade_String :: "versionGrade \<Rightarrow> string" where
  "versionGrade_String g = (case g of
       vgOrdered \<Rightarrow> ''ordered'' | vgGeneric \<Rightarrow> ''generic'' | vgLiteral \<Rightarrow> ''literal''
     | vgPattern \<Rightarrow> ''pattern'' | vgUnbounded \<Rightarrow> ''unbounded'' | vgUndecidable \<Rightarrow> ''undecidable'')"

definition identityGrade_String :: "identityGrade \<Rightarrow> string" where
  "identityGrade_String g = (case g of
       idExact \<Rightarrow> ''exact'' | idStrong \<Rightarrow> ''strong'' | idModerate \<Rightarrow> ''moderate'' | idWeak \<Rightarrow> ''weak''
     | idNone \<Rightarrow> ''none'')"

definition Result_String :: "Result \<Rightarrow> string" where
  "Result_String r = (case r of
       NoMatch \<Rightarrow> ''NoMatch'' | Match \<Rightarrow> ''Match'' | Undecidable \<Rightarrow> ''Undecidable''
     | Suppressed \<Rightarrow> ''Suppressed'')"

section \<open>Orders\<close>

definition versionGrade_rank :: "versionGrade \<Rightarrow> nat" where
  "versionGrade_rank g = (case g of
       vgUndecidable \<Rightarrow> 0 | vgUnbounded \<Rightarrow> 1 | vgPattern \<Rightarrow> 2 | vgLiteral \<Rightarrow> 3 | vgGeneric \<Rightarrow> 4
     | vgOrdered \<Rightarrow> 5)"

definition identityGrade_rank :: "identityGrade \<Rightarrow> nat" where
  "identityGrade_rank g = (case g of
       idNone \<Rightarrow> 0 | idWeak \<Rightarrow> 1 | idModerate \<Rightarrow> 2 | idStrong \<Rightarrow> 3 | idExact \<Rightarrow> 4)"

text \<open>\<open>confidenceRank\<close> of \<open>internal/scan/scan.go\<close> counts from the strongest level.\<close>

definition confidenceRank :: "Confidence \<Rightarrow> nat" where
  "confidenceRank c = (case c of Confirmed \<Rightarrow> 0 | Probable \<Rightarrow> 1 | Possible \<Rightarrow> 2)"

instantiation versionGrade :: linorder
begin

definition less_eq_versionGrade :: "versionGrade \<Rightarrow> versionGrade \<Rightarrow> bool" where
  "less_eq_versionGrade a b \<longleftrightarrow> versionGrade_rank a \<le> versionGrade_rank b"

definition less_versionGrade :: "versionGrade \<Rightarrow> versionGrade \<Rightarrow> bool" where
  "less_versionGrade a b \<longleftrightarrow> versionGrade_rank a < versionGrade_rank b"

instance
  by standard
    (auto simp: less_eq_versionGrade_def less_versionGrade_def versionGrade_rank_def
      split: versionGrade.splits)

end

instantiation identityGrade :: linorder
begin

definition less_eq_identityGrade :: "identityGrade \<Rightarrow> identityGrade \<Rightarrow> bool" where
  "less_eq_identityGrade a b \<longleftrightarrow> identityGrade_rank a \<le> identityGrade_rank b"

definition less_identityGrade :: "identityGrade \<Rightarrow> identityGrade \<Rightarrow> bool" where
  "less_identityGrade a b \<longleftrightarrow> identityGrade_rank a < identityGrade_rank b"

instance
  by standard
    (auto simp: less_eq_identityGrade_def less_identityGrade_def identityGrade_rank_def
      split: identityGrade.splits)

end

instantiation Confidence :: linorder
begin

definition less_eq_Confidence :: "Confidence \<Rightarrow> Confidence \<Rightarrow> bool" where
  "less_eq_Confidence a b \<longleftrightarrow> confidenceRank b \<le> confidenceRank a"

definition less_Confidence :: "Confidence \<Rightarrow> Confidence \<Rightarrow> bool" where
  "less_Confidence a b \<longleftrightarrow> confidenceRank b < confidenceRank a"

instance
  by standard
    (auto simp: less_eq_Confidence_def less_Confidence_def confidenceRank_def split: Confidence.splits)

end

text \<open>\<open>stronger\<close> and \<open>atLeast\<close> of \<open>internal/scan/scan.go\<close> are the strict and the weak order.\<close>

definition stronger :: "Confidence \<Rightarrow> Confidence \<Rightarrow> bool" where
  "stronger a b \<longleftrightarrow> confidenceRank a < confidenceRank b"

definition at_least :: "Confidence \<Rightarrow> Confidence \<Rightarrow> bool" where
  "at_least got minimum \<longleftrightarrow> confidenceRank got \<le> confidenceRank minimum"

lemma stronger_less: "stronger a b \<longleftrightarrow> b < a"
  by (simp add: stronger_def less_Confidence_def)

lemma at_least_le: "at_least a b \<longleftrightarrow> b \<le> a"
  by (simp add: at_least_def less_eq_Confidence_def)

lemma Confidence_order [simp]: "Possible \<le> c" "c \<le> Confirmed" "Possible < Probable" "Probable < Confirmed"
  by (cases c; simp add: less_eq_Confidence_def confidenceRank_def less_Confidence_def)+

lemma vg_order [simp]: "vgUndecidable \<le> g" "g \<le> vgOrdered"
  by (cases g; simp add: less_eq_versionGrade_def versionGrade_rank_def)+

text \<open>\<open>id.grade--\<close> on a grade above the weakest positive one.\<close>

definition grade_down :: "identityGrade \<Rightarrow> identityGrade" where
  "grade_down g = (case g of
       idExact \<Rightarrow> idStrong | idStrong \<Rightarrow> idModerate | idModerate \<Rightarrow> idWeak | idWeak \<Rightarrow> idNone
     | idNone \<Rightarrow> idNone)"

lemma id_order [simp]:
  "idWeak < g \<longleftrightarrow> g \<in> {idModerate, idStrong, idExact}"
  by (cases g) (simp_all add: less_identityGrade_def identityGrade_rank_def)

end
