(* ===== verification/Prelude.thy ===== *)
theory Prelude
  imports Main "HOL-Library.Char_ord"
begin

text \<open>
  The prelude of the development: the byte strings of Go and the handful of functions of
  Go's \<open>strings\<close> package the modelled code calls, with the lemmas the component theories share.

  A Go string is a sequence of bytes and an Isabelle \<open>char\<close> is a byte, so a Go string is an
  Isabelle \<open>string\<close> and \<open>len\<close> is \<open>length\<close>. A loop with an index into a string is modelled as a
  recursion on the remaining suffix: \<open>i < len(s)\<close> reads \<open>s \<noteq> []\<close> and \<open>s[i]\<close> reads \<open>hd s\<close>, so no
  access is ever out of range.

  The functions of \<open>strings\<close> that depend on Unicode tables (\<open>TrimSpace\<close>, \<open>ToLower\<close>, \<open>ToUpper\<close>,
  \<open>EqualFold\<close>) are modelled on ASCII text, where they act byte by byte; a byte above 127 is left
  alone and is no space.

  The collection \<open>go_string\<close> gathers the characteristic equations of these functions.
\<close>

named_theorems go_string

section \<open>Characters\<close>

definition byte :: "char \<Rightarrow> int" where
  "byte c = int (of_char c)"

lemma byte_nonneg [simp]: "0 \<le> byte c"
  by (simp add: byte_def)

lemma byte_inj [simp]: "byte c = byte d \<longleftrightarrow> c = d"
  by (simp add: byte_def)

lemma byte_mono: "c < d \<longleftrightarrow> byte c < byte d"
  by (simp add: byte_def less_char_def)

definition ascii_upper :: "char \<Rightarrow> bool" where
  "ascii_upper c \<longleftrightarrow> CHR ''A'' \<le> c \<and> c \<le> CHR ''Z''"

definition ascii_lower :: "char \<Rightarrow> bool" where
  "ascii_lower c \<longleftrightarrow> CHR ''a'' \<le> c \<and> c \<le> CHR ''z''"

definition lower_char :: "char \<Rightarrow> char" where
  "lower_char c = (if ascii_upper c then char_of (of_char c + 32 :: nat) else c)"

definition upper_char :: "char \<Rightarrow> char" where
  "upper_char c = (if ascii_lower c then char_of (of_char c - 32 :: nat) else c)"

text \<open>\<open>unicode.IsSpace\<close> on ASCII: tab, line feed, vertical tab, form feed, carriage return, space.\<close>

definition is_space :: "char \<Rightarrow> bool" where
  "is_space c \<longleftrightarrow> c = CHR '' '' \<or> (CHR 0x09 \<le> c \<and> c \<le> CHR 0x0D)"

section \<open>The strings package\<close>

definition to_lower :: "string \<Rightarrow> string" where
  "to_lower s = map lower_char s"

definition to_upper :: "string \<Rightarrow> string" where
  "to_upper s = map upper_char s"

definition equal_fold :: "string \<Rightarrow> string \<Rightarrow> bool" where
  "equal_fold a b \<longleftrightarrow> to_lower a = to_lower b"

definition trim_left :: "string \<Rightarrow> string" where
  "trim_left s = dropWhile is_space s"

definition trim_right :: "string \<Rightarrow> string" where
  "trim_right s = rev (dropWhile is_space (rev s))"

definition trim_space :: "string \<Rightarrow> string" where
  "trim_space s = trim_right (trim_left s)"

definition has_prefix :: "string \<Rightarrow> string \<Rightarrow> bool" where
  "has_prefix s p \<longleftrightarrow> take (length p) s = p"

definition has_suffix :: "string \<Rightarrow> string \<Rightarrow> bool" where
  "has_suffix s p \<longleftrightarrow> has_prefix (rev s) (rev p)"

definition trim_prefix :: "string \<Rightarrow> string \<Rightarrow> string" where
  "trim_prefix s p = (if has_prefix s p then drop (length p) s else s)"

text \<open>\<open>strings.CutSuffix\<close>: the text before the suffix, if the suffix is there.\<close>

definition cut_suffix :: "string \<Rightarrow> string \<Rightarrow> string option" where
  "cut_suffix s p = (if has_suffix s p then Some (take (length s - length p) s) else None)"

text \<open>
  \<open>strings.IndexByte\<close> and \<open>strings.LastIndexByte\<close>, each with the two slices the code takes around
  the hit: \<open>Some (s[:i], s[i+1:])\<close>, or \<open>None\<close> for an index of -1.
\<close>

definition split_first :: "char \<Rightarrow> string \<Rightarrow> (string \<times> string) option" where
  "split_first c s =
     (if c \<in> set s then Some (takeWhile (\<lambda>x. x \<noteq> c) s, tl (dropWhile (\<lambda>x. x \<noteq> c) s)) else None)"

definition split_last :: "char \<Rightarrow> string \<Rightarrow> (string \<times> string) option" where
  "split_last c s =
     (if c \<in> set s
      then Some (rev (tl (dropWhile (\<lambda>x. x \<noteq> c) (rev s))), rev (takeWhile (\<lambda>x. x \<noteq> c) (rev s)))
      else None)"

text \<open>\<open>strings.Cut\<close> at a one byte separator, the found flag included.\<close>

definition cut :: "char \<Rightarrow> string \<Rightarrow> string \<times> string \<times> bool" where
  "cut c s = (case split_first c s of Some (h, t) \<Rightarrow> (h, t, True) | None \<Rightarrow> (s, [], False))"

text \<open>\<open>strings.Split\<close> at a one byte separator and \<open>strings.Join\<close>.\<close>

fun split :: "char \<Rightarrow> string \<Rightarrow> string list" where
  "split c [] = [[]]"
| "split c (x # xs) =
     (if x = c then [] # split c xs
      else (case split c xs of [] \<Rightarrow> [[x]] | h # t \<Rightarrow> (x # h) # t))"

fun join :: "string \<Rightarrow> string list \<Rightarrow> string" where
  "join sep [] = []"
| "join sep [x] = x"
| "join sep (x # y # ys) = x @ sep @ join sep (y # ys)"

text \<open>\<open>strings.Compare\<close>: bytewise lexicographic, a proper prefix first.\<close>

fun str_compare :: "string \<Rightarrow> string \<Rightarrow> int" where
  "str_compare [] [] = 0"
| "str_compare [] (y # ys) = -1"
| "str_compare (x # xs) [] = 1"
| "str_compare (x # xs) (y # ys) =
     (if x < y then -1 else if y < x then 1 else str_compare xs ys)"

section \<open>Lemmas the components share\<close>

lemma to_lower_simps [simp, go_string]:
  "to_lower [] = []" "to_lower (c # s) = lower_char c # to_lower s"
  by (simp_all add: to_lower_def)

lemma lower_char_upper: "ascii_upper c \<Longrightarrow> ascii_lower (lower_char c)"
  by (simp add: ascii_upper_def ascii_lower_def lower_char_def less_eq_char_def)

lemma lower_char_other: "lower_char c = d \<Longrightarrow> \<not> ascii_lower d \<Longrightarrow> c = d"
  using lower_char_upper [of c] by (auto simp: lower_char_def split: if_splits)

lemma lower_upper [simp]: "lower_char (upper_char c) = lower_char c" "lower_char (lower_char c) = lower_char c"
  "upper_char (lower_char c) = upper_char c" "upper_char (upper_char c) = upper_char c"
  by (auto simp: lower_char_def upper_char_def ascii_upper_def ascii_lower_def less_eq_char_def)

lemma fold_case [simp]: "to_lower (to_upper s) = to_lower s" "to_lower (to_lower s) = to_lower s"
  "to_upper (to_lower s) = to_upper s" "to_upper (to_upper s) = to_upper s"
  by (simp_all add: to_lower_def to_upper_def)

lemma to_lower_append: "to_lower (a @ b) = to_lower a @ to_lower b"
  by (simp add: to_lower_def)

lemma to_lower_Nil_iff [simp]: "to_lower s = [] \<longleftrightarrow> s = []" "[] = to_lower s \<longleftrightarrow> s = []"
  by (auto simp: to_lower_def)

lemma length_to_lower [simp]: "length (to_lower s) = length s"
  by (simp add: to_lower_def)

lemma equal_fold_refl [simp]: "equal_fold s s"
  by (simp add: equal_fold_def)

lemma equal_fold_sym: "equal_fold a b \<longleftrightarrow> equal_fold b a"
  by (auto simp: equal_fold_def)

lemma equal_fold_trans: "equal_fold a b \<Longrightarrow> equal_fold b c \<Longrightarrow> equal_fold a c"
  by (simp add: equal_fold_def)

lemma join_Cons: "join sep (x # xs) = x @ (if xs = [] then [] else sep @ join sep xs)"
  by (cases xs) simp_all

lemma join_chars: "c \<in> set (join sep ps) \<Longrightarrow> c \<in> set sep \<or> (\<exists>p \<in> set ps. c \<in> set p)"
  by (induction sep ps rule: join.induct) auto

lemma last_join: "ps \<noteq> [] \<Longrightarrow> last ps \<noteq> [] \<Longrightarrow> join sep ps \<noteq> [] \<and> last (join sep ps) = last (last ps)"
  by (induction sep ps rule: join.induct) (auto simp: last_append)

lemma split_nonempty [simp]: "split c s \<noteq> []"
  by (cases s) (auto split: list.splits)

lemma join_split: "join [c] (split c s) = s"
proof (induction s)
  case (Cons x xs)
  then show ?case by (cases "split c xs") (auto, (cases "tl (split c xs)"; auto)+)
qed simp

lemma split_pieces_free: "p \<in> set (split c s) \<Longrightarrow> c \<notin> set p"
  by (induction s arbitrary: p) (auto split: if_splits list.splits)

lemma split_no_sep: "c \<notin> set s \<Longrightarrow> split c s = [s]"
  by (induction s) auto

lemma split_append_sep: "c \<notin> set h \<Longrightarrow> split c (h @ c # t) = h # split c t"
  by (induction h) auto

lemma split_join:
  assumes "ps \<noteq> []" and "\<forall>p \<in> set ps. c \<notin> set p"
  shows "split c (join [c] ps) = ps"
  using assms by (induction "[c]" ps rule: join.induct) (auto simp: split_no_sep split_append_sep)

lemma dropWhile_length_le: "length (dropWhile P xs) \<le> length xs"
  by (induction xs) auto

lemma dropWhile_length_less: "xs \<noteq> [] \<Longrightarrow> P (hd xs) \<Longrightarrow> length (dropWhile P xs) < length xs"
  by (cases xs) (auto simp: less_Suc_eq_le dropWhile_length_le)

lemma list_all_whiles: "list_all P s \<Longrightarrow> takeWhile P s = s \<and> dropWhile P s = []"
  by (induction s) auto

lemma takeWhile_stop: "\<not> P y \<Longrightarrow> takeWhile P (xs @ y # ys) = takeWhile P xs"
  by (induction xs) auto

lemma dropWhile_stop: "\<not> P y \<Longrightarrow> dropWhile P (xs @ y # ys) = dropWhile P xs @ y # ys"
  by (induction xs) auto

lemma hd_dropWhile_not: "dropWhile P xs \<noteq> [] \<Longrightarrow> \<not> P (hd (dropWhile P xs))"
  by (rule hd_dropWhile)

lemma trim_left_idem [simp]: "trim_left (trim_left s) = trim_left s"
  by (simp add: trim_left_def dropWhile_idem)

lemma trim_right_idem [simp]: "trim_right (trim_right s) = trim_right s"
  by (simp add: trim_right_def dropWhile_idem)

lemma dropWhile_keep_last: "\<not> P x \<Longrightarrow> dropWhile P (xs @ [x]) = dropWhile P xs @ [x]"
  by (induction xs) auto

lemma trim_left_trim_right: "trim_left (trim_right s) = trim_right (trim_left s)"
proof (cases "dropWhile is_space s")
  case Nil
  then have "\<forall>c \<in> set s. is_space c" by (simp add: dropWhile_eq_Nil_conv)
  then show ?thesis by (simp add: trim_left_def trim_right_def dropWhile_eq_Nil_conv [THEN iffD2])
next
  case (Cons x xs)
  define sp where "sp = takeWhile is_space s"
  have s: "s = sp @ x # xs" unfolding sp_def using Cons by (metis takeWhile_dropWhile_id)
  have nx: "\<not> is_space x" using Cons by (metis hd_dropWhile list.distinct(1) list.sel(1))
  have sp: "\<forall>c \<in> set sp. is_space c" unfolding sp_def by (auto dest: set_takeWhileD)
  have r': "dropWhile is_space (rev (x # xs)) = dropWhile is_space (rev xs) @ [x]"
    using nx dropWhile_keep_last [of is_space x "rev xs"] by simp
  have "dropWhile is_space (rev (x # xs) @ rev sp) = dropWhile is_space (rev (x # xs)) @ rev sp"
    using nx by (intro dropWhile_append1 [of x]) auto
  then have r: "dropWhile is_space (rev s) = dropWhile is_space (rev (x # xs)) @ rev sp"
    using s by simp
  have "trim_right s = sp @ x # rev (dropWhile is_space (rev xs))"
    using r r' by (simp add: trim_right_def)
  moreover have "trim_right (trim_left s) = x # rev (dropWhile is_space (rev xs))"
    using Cons r' by (simp add: trim_right_def trim_left_def)
  ultimately show ?thesis using sp nx by (simp add: trim_left_def dropWhile_append2)
qed

lemma trim_space_idem [simp]: "trim_space (trim_space s) = trim_space s"
  by (simp add: trim_space_def trim_left_trim_right)

lemma trim_space_plain:
  assumes "s \<noteq> []" "\<not> is_space (hd s)" "\<not> is_space (last s)"
  shows "trim_space s = s"
proof -
  have "trim_left s = s" using assms(1,2) by (cases s) (auto simp: trim_left_def)
  moreover have "trim_right s = s"
    using assms(1,3) by (cases s rule: rev_cases) (auto simp: trim_right_def)
  ultimately show ?thesis by (simp add: trim_space_def)
qed

lemma trim_space_Nil [simp, go_string]: "trim_space [] = []"
  by (simp add: trim_space_def trim_left_def trim_right_def)

lemma is_space_case [simp]: "is_space (lower_char c) = is_space c"
proof (cases "ascii_upper c")
  case True
  with lower_char_upper [OF this] show ?thesis
    by (auto simp: is_space_def ascii_upper_def ascii_lower_def less_eq_char_def)
qed (simp add: lower_char_def)

lemma trim_space_lower: "trim_space (to_lower s) = to_lower (trim_space s)"
  by (simp add: trim_space_def trim_left_def trim_right_def to_lower_def dropWhile_map rev_map comp_def)

lemma length_trim_space: "length (trim_space s) \<le> length s"
  by (metis trim_space_def trim_right_def trim_left_def length_rev dropWhile_length_le order_trans)

lemma split_first_Some: "split_first c s = Some (h, t) \<Longrightarrow> s = h @ c # t \<and> c \<notin> set h"
proof -
  assume a: "split_first c s = Some (h, t)"
  then have c: "c \<in> set s" and h: "h = takeWhile (\<lambda>x. x \<noteq> c) s"
    and t: "t = tl (dropWhile (\<lambda>x. x \<noteq> c) s)" by (auto simp: split_first_def split: if_splits)
  have "dropWhile (\<lambda>x. x \<noteq> c) s \<noteq> []" using c by (auto simp: dropWhile_eq_Nil_conv)
  with hd_dropWhile [of "\<lambda>x. x \<noteq> c" s] t have "dropWhile (\<lambda>x. x \<noteq> c) s = c # t"
    by (cases "dropWhile (\<lambda>x. x \<noteq> c) s") auto
  then have "s = h @ c # t" using h takeWhile_dropWhile_id [of "\<lambda>x. x \<noteq> c" s] by simp
  moreover have "c \<notin> set h" using h by (auto dest: set_takeWhileD)
  ultimately show ?thesis ..
qed

lemma split_first_append: "c \<notin> set h \<Longrightarrow> split_first c (h @ c # t) = Some (h, t)"
proof -
  assume c: "c \<notin> set h"
  then have "\<forall>x \<in> set h. x \<noteq> c" by auto
  then have "takeWhile (\<lambda>x. x \<noteq> c) (h @ c # t) = h" "dropWhile (\<lambda>x. x \<noteq> c) (h @ c # t) = c # t"
    by (simp_all add: takeWhile_append2 dropWhile_append2)
  then show ?thesis by (simp add: split_first_def)
qed

lemma split_first_None [simp]: "split_first c s = None \<longleftrightarrow> c \<notin> set s"
  by (simp add: split_first_def)

lemma split_absent [simp]:
  "c \<notin> set s \<Longrightarrow> split_first c s = None" "c \<notin> set s \<Longrightarrow> split_last c s = None"
  by (simp_all add: split_first_def split_last_def)

lemma split_last_conv:
  "split_last c s = map_option (\<lambda>(h, t). (rev t, rev h)) (split_first c (rev s))"
  by (simp add: split_last_def split_first_def)

lemma split_last_Some: "split_last c s = Some (h, t) \<Longrightarrow> s = h @ c # t \<and> c \<notin> set t"
proof -
  assume "split_last c s = Some (h, t)"
  then have "split_first c (rev s) = Some (rev t, rev h)" by (auto simp: split_last_conv)
  then have "rev s = rev t @ c # rev h \<and> c \<notin> set (rev t)" by (rule split_first_Some)
  then have "rev (rev s) = rev (rev t @ c # rev h)" and "c \<notin> set t" by simp_all
  then show ?thesis by simp
qed

lemma split_last_append: "c \<notin> set t \<Longrightarrow> split_last c (h @ c # t) = Some (h, t)"
  using split_first_append [of c "rev t" "rev h"] by (simp add: split_last_conv)

lemma split_last_None [simp]: "split_last c s = None \<longleftrightarrow> c \<notin> set s"
  by (simp add: split_last_def)

lemma map_filter_mem: "y \<in> set (List.map_filter f xs) \<longleftrightarrow> (\<exists>x \<in> set xs. f x = Some y)"
  by (induction xs) (auto simp: List.map_filter_simps split: option.splits)

end
