(* ===== verification/Three_Way.thy ===== *)
theory Three_Way
  imports Prelude
begin

text \<open>
  The interface every comparator of \<open>internal/version\<close> offers to the code that evaluates a range:
  a function returning -1, 0 or +1 that swaps its sign with its arguments and is transitive.
  The locale \<open>three_way\<close> states the contract; its lemmas are what a client may rely on (an answer of
  0 is a congruence, the order is total, a window between two bounds is convex). The rest of the
  theory builds comparators from comparators the way the code does: a first difference decides
  (\<open>then_cmp\<close>), two lists are walked side by side with a pad for the shorter one (\<open>lexpad\<close>), an
  absent value sorts below a stated one (\<open>opt_cmp\<close>), or a key is compared.
\<close>

section \<open>The contract\<close>

locale three_way =
  fixes cmp :: "'a \<Rightarrow> 'a \<Rightarrow> int"
  assumes cmp_range: "cmp a b \<in> {-1, 0, 1}"
    and cmp_swap: "cmp b a = - cmp a b"
    and cmp_trans: "cmp a b \<le> 0 \<Longrightarrow> cmp b c \<le> 0 \<Longrightarrow> cmp a c \<le> 0"
begin

lemma cmp_refl: "cmp a a = 0"
  using cmp_swap [of a a] by simp

lemma cmp_total: "cmp a b \<le> 0 \<or> cmp b a \<le> 0"
  using cmp_swap [of a b] by linarith

lemma cmp_sgn: "sgn (cmp a b) = cmp a b"
  using cmp_range [of a b] by auto

lemma cmp_eq_swap: "cmp a b = 0 \<longleftrightarrow> cmp b a = 0"
  using cmp_swap [of a b] by simp

lemma cmp_ge_trans: "0 \<le> cmp a b \<Longrightarrow> 0 \<le> cmp b c \<Longrightarrow> 0 \<le> cmp a c"
  using cmp_trans [of c b a] cmp_swap [of a b] cmp_swap [of b c] cmp_swap [of a c] by linarith

lemma cmp_le_less_trans: "cmp a b \<le> 0 \<Longrightarrow> cmp b c < 0 \<Longrightarrow> cmp a c < 0"
  using cmp_trans [of a b c] cmp_trans [of c a b] cmp_swap [of a c] cmp_swap [of b c]
  by linarith

lemma cmp_less_le_trans: "cmp a b < 0 \<Longrightarrow> cmp b c \<le> 0 \<Longrightarrow> cmp a c < 0"
  using cmp_trans [of a b c] cmp_trans [of b c a] cmp_swap [of a c] cmp_swap [of a b]
  by linarith

lemma cmp_eq_cong_left: "cmp a b = 0 \<Longrightarrow> cmp a c = cmp b c"
proof -
  assume ab: "cmp a b = 0"
  then have ba: "cmp b a = 0" by (simp add: cmp_eq_swap)
  have "cmp a c \<le> 0 \<longleftrightarrow> cmp b c \<le> 0" using ab ba cmp_trans [of a b c] cmp_trans [of b a c] by auto
  moreover have "cmp a c < 0 \<longleftrightarrow> cmp b c < 0"
    using ab ba cmp_le_less_trans [of a b c] cmp_le_less_trans [of b a c] by auto
  ultimately show ?thesis using cmp_range [of a c] cmp_range [of b c] by auto
qed

lemma cmp_eq_cong_right: "cmp b c = 0 \<Longrightarrow> cmp a b = cmp a c"
  using cmp_eq_cong_left [of b c a] cmp_swap by metis

lemma cmp_eq_trans: "cmp a b = 0 \<Longrightarrow> cmp b c = 0 \<Longrightarrow> cmp a c = 0"
  using cmp_eq_cong_left [of a b c] by simp

text \<open>The set between an inclusive lower and an exclusive upper bound is convex.\<close>

lemma cmp_convex:
  assumes "0 \<le> cmp u lo" "cmp v up < 0" "cmp u w \<le> 0" "cmp w v \<le> 0"
  shows "0 \<le> cmp w lo \<and> cmp w up < 0"
proof
  show "0 \<le> cmp w lo" using assms cmp_ge_trans [of w u lo] cmp_swap [of u w] by simp
  show "cmp w up < 0" using assms cmp_le_less_trans by blast
qed

end

section \<open>Building comparators\<close>

text \<open>Go's idiom \<open>if n := f(a, b); n != 0 { return n }; return g(a, b)\<close>.\<close>

definition then_cmp :: "int \<Rightarrow> int \<Rightarrow> int" where
  "then_cmp n m = (if n \<noteq> 0 then n else m)"

lemma then_cmp_simps [simp]:
  "then_cmp 0 m = m" "n \<noteq> 0 \<Longrightarrow> then_cmp n m = n" "then_cmp n 0 = n"
  by (simp_all add: then_cmp_def)

lemma then_cmp_assoc: "then_cmp (then_cmp a b) c = then_cmp a (then_cmp b c)"
  by (simp add: then_cmp_def)

lemma then_cmp_uminus: "then_cmp (- n) (- m) = - then_cmp n m"
  by (simp add: then_cmp_def)

lemma then_cmp_eq_0: "then_cmp n m = 0 \<longleftrightarrow> n = 0 \<and> m = 0"
  by (simp add: then_cmp_def)

context three_way
begin

lemma then_cmp_le:
  assumes "then_cmp (cmp a b) m \<le> 0" "then_cmp (cmp b c) n \<le> 0"
    and "m \<le> 0 \<Longrightarrow> n \<le> 0 \<Longrightarrow> k \<le> 0"
  shows "then_cmp (cmp a c) k \<le> 0"
proof -
  consider "cmp a b < 0" "cmp b c \<le> 0" | "cmp a b = 0" "cmp b c < 0"
    | "cmp a b = 0" "cmp b c = 0" "m \<le> 0" "n \<le> 0"
    using assms(1,2) by (auto simp: then_cmp_def split: if_splits)
  then show ?thesis
  proof cases
    case 1
    then have "cmp a c < 0" by (rule cmp_less_le_trans)
    then show ?thesis by simp
  next
    case 2
    then have "cmp a c < 0" using cmp_eq_cong_left [of a b c] by simp
    then show ?thesis by simp
  next
    case 3
    then have "cmp a c = 0" using cmp_eq_trans by blast
    with 3 assms(3) show ?thesis by simp
  qed
qed

end

lemma three_way_key: "three_way c \<Longrightarrow> three_way (\<lambda>a b. c (k a) (k b))"
  unfolding three_way_def by blast

lemma three_way_eqI: "(\<And>a b. f a b = g a b) \<Longrightarrow> three_way g \<Longrightarrow> three_way f"
proof -
  assume "\<And>a b. f a b = g a b" and g: "three_way g"
  then have "f = g" by (intro ext)
  with g show ?thesis by simp
qed

lemma three_way_then:
  assumes "three_way f" and "three_way g"
  shows "three_way (\<lambda>a b. then_cmp (f a b) (g a b))"
proof
  fix a b c
  show "then_cmp (f a b) (g a b) \<in> {-1, 0, 1}"
    using three_way.cmp_range [OF assms(1), of a b] three_way.cmp_range [OF assms(2), of a b]
    by (auto simp: then_cmp_def)
  show "then_cmp (f b a) (g b a) = - then_cmp (f a b) (g a b)"
    using three_way.cmp_swap [OF assms(1), of b a] three_way.cmp_swap [OF assms(2), of b a]
    by (simp add: then_cmp_uminus)
  assume "then_cmp (f a b) (g a b) \<le> 0" "then_cmp (f b c) (g b c) \<le> 0"
  then show "then_cmp (f a c) (g a c) \<le> 0"
    by (rule three_way.then_cmp_le [OF assms(1)]) (rule three_way.cmp_trans [OF assms(2)])
qed

text \<open>Integers, and a value that may be absent, the absent one below every stated one.\<close>

definition int_cmp :: "int \<Rightarrow> int \<Rightarrow> int" where
  "int_cmp a b = sgn (a - b)"

lemma int_cmp_simps [simp]:
  "int_cmp a a = 0" "a < b \<Longrightarrow> int_cmp a b = -1" "b < a \<Longrightarrow> int_cmp a b = 1"
  by (simp_all add: int_cmp_def)

lemma three_way_int_cmp: "three_way int_cmp"
  by unfold_locales (auto simp: int_cmp_def sgn_if split: if_splits)

interpretation int_order: three_way int_cmp
  by (rule three_way_int_cmp)

fun opt_cmp :: "('a \<Rightarrow> 'a \<Rightarrow> int) \<Rightarrow> 'a option \<Rightarrow> 'a option \<Rightarrow> int" where
  "opt_cmp c None None = 0"
| "opt_cmp c None (Some y) = -1"
| "opt_cmp c (Some x) None = 1"
| "opt_cmp c (Some x) (Some y) = c x y"

lemma three_way_opt_cmp:
  assumes "three_way c"
  shows "three_way (opt_cmp c)"
proof
  note [simp] = three_way.cmp_range [OF assms, simplified]
  fix a b d
  show "opt_cmp c a b \<in> {-1, 0, 1}" by (cases a; cases b) auto
  show "opt_cmp c b a = - opt_cmp c a b"
    by (cases a; cases b) (auto intro: three_way.cmp_swap [OF assms])
  show "opt_cmp c a b \<le> 0 \<Longrightarrow> opt_cmp c b d \<le> 0 \<Longrightarrow> opt_cmp c a d \<le> 0"
    by (cases a; cases b; cases d) (auto intro: three_way.cmp_trans [OF assms])
qed

text \<open>
  Two lists walked side by side, the shorter one read as \<open>z\<close> past its end: the shape of Go's
  \<open>for i := 0; i < len(a) || i < len(b); i++\<close>.
\<close>

fun lexpad :: "('a \<Rightarrow> 'a \<Rightarrow> int) \<Rightarrow> 'a \<Rightarrow> 'a list \<Rightarrow> 'a list \<Rightarrow> int" where
  "lexpad c z [] [] = 0"
| "lexpad c z (x # xs) [] = then_cmp (c x z) (lexpad c z xs [])"
| "lexpad c z [] (y # ys) = then_cmp (c z y) (lexpad c z [] ys)"
| "lexpad c z (x # xs) (y # ys) = then_cmp (c x y) (lexpad c z xs ys)"

definition hd_or :: "'a \<Rightarrow> 'a list \<Rightarrow> 'a" where
  "hd_or z xs = (case xs of [] \<Rightarrow> z | x # _ \<Rightarrow> x)"

lemma hd_or_simps [simp]: "hd_or z [] = z" "hd_or z (x # xs) = x"
  by (simp_all add: hd_or_def)

lemma lexpad_step:
  assumes "three_way c"
  shows "lexpad c z xs ys = then_cmp (c (hd_or z xs) (hd_or z ys)) (lexpad c z (tl xs) (tl ys))"
  by (cases xs; cases ys) (simp_all add: three_way.cmp_refl [OF assms])

lemma lexpad_le_trans:
  assumes c: "three_way c"
  shows "lexpad c z xs ys \<le> 0 \<Longrightarrow> lexpad c z ys ws \<le> 0 \<Longrightarrow> lexpad c z xs ws \<le> 0"
proof (induction "length xs + length ys + length ws" arbitrary: xs ys ws rule: less_induct)
  case less
  show ?case
  proof (cases "xs = [] \<and> ys = [] \<and> ws = []")
    case True
    then show ?thesis by simp
  next
    case False
    then have l: "length (tl xs) + length (tl ys) + length (tl ws)
        < length xs + length ys + length ws"
      by (cases xs; cases ys; cases ws) auto
    from less.prems show ?thesis
      unfolding lexpad_step [OF c, of z xs] lexpad_step [OF c, of z ys]
      by (rule three_way.then_cmp_le [OF c]) (rule less.hyps [OF l])
  qed
qed

lemma three_way_lexpad:
  assumes c: "three_way c"
  shows "three_way (lexpad c z)"
proof
  fix xs ys ws
  show "lexpad c z xs ys \<in> {-1, 0, 1}"
    using three_way.cmp_range [OF c]
    by (induction c z xs ys rule: lexpad.induct) (auto simp: then_cmp_def)
  show "lexpad c z ys xs = - lexpad c z xs ys"
    using c
  proof (induction c z xs ys rule: lexpad.induct)
    case (2 c z x xs)
    then show ?case using three_way.cmp_swap [of c z x] by (simp add: then_cmp_uminus)
  next
    case (3 c z y ys)
    then show ?case using three_way.cmp_swap [of c y z] by (simp add: then_cmp_uminus)
  next
    case (4 c z x xs y ys)
    then show ?case using three_way.cmp_swap [of c y x] by (simp add: then_cmp_uminus)
  qed simp
  show "lexpad c z xs ys \<le> 0 \<Longrightarrow> lexpad c z ys ws \<le> 0 \<Longrightarrow> lexpad c z xs ws \<le> 0"
    by (rule lexpad_le_trans [OF c])
qed

text \<open>Two lists walked side by side where the one that ends first is the smaller.\<close>

definition lexlist :: "('a \<Rightarrow> 'a \<Rightarrow> int) \<Rightarrow> 'a list \<Rightarrow> 'a list \<Rightarrow> int" where
  "lexlist c xs ys = lexpad (opt_cmp c) None (map Some xs) (map Some ys)"

lemma lexlist_simps [simp]:
  "lexlist c [] [] = 0"
  "lexlist c (x # xs) [] = 1"
  "lexlist c [] (y # ys) = -1"
  "lexlist c (x # xs) (y # ys) = then_cmp (c x y) (lexlist c xs ys)"
  by (simp_all add: lexlist_def)

lemma three_way_lexlist:
  assumes "three_way c"
  shows "three_way (lexlist c)"
  unfolding lexlist_def
  by (rule three_way_key [OF three_way_lexpad [OF three_way_opt_cmp [OF assms]]])

text \<open>\<open>strings.Compare\<close> keeps the contract.\<close>

lemma str_compare_lexlist: "str_compare a b = lexlist (\<lambda>c d. int_cmp (byte c) (byte d)) a b"
  by (induction a b rule: str_compare.induct) (auto simp: byte_mono int_cmp_def)

lemma three_way_str_compare: "three_way str_compare"
  by (rule three_way_eqI [OF str_compare_lexlist])
    (rule three_way_lexlist [OF three_way_key [OF three_way_int_cmp]])

interpretation str_order: three_way str_compare
  by (rule three_way_str_compare)

lemma str_compare_eq_0 [simp]: "str_compare a b = 0 \<longleftrightarrow> a = b"
  by (induction a b rule: str_compare.induct) auto

lemma str_compare_refl [simp]: "str_compare a a = 0"
  by simp

end
