(* ===== verification/Tokens.thy ===== *)
theory Tokens
  imports Three_Way
begin

text \<open>
  \<open>internal/version/tokens.go\<close>: the byte classes, the tokenizer that splits a version into digit and
  letter runs, and the comparison of two digit runs as text. \<open>isAllDigits\<close> of \<open>semver.go\<close> is here
  because every scheme uses it. The lemmas show that comparing digit runs as text is comparing the
  numbers they spell, whatever their size, and that the comparison keeps the \<open>three_way\<close> contract.
\<close>

section \<open>Byte classes\<close>

definition isDigit :: "char \<Rightarrow> bool" where
  "isDigit c \<longleftrightarrow> CHR ''0'' \<le> c \<and> c \<le> CHR ''9''"

definition isLetter :: "char \<Rightarrow> bool" where
  "isLetter c \<longleftrightarrow> (CHR ''a'' \<le> c \<and> c \<le> CHR ''z'') \<or> (CHR ''A'' \<le> c \<and> c \<le> CHR ''Z'')"

definition isAlnum :: "char \<Rightarrow> bool" where
  "isAlnum c \<longleftrightarrow> isDigit c \<or> isLetter c"

definition sign :: "int \<Rightarrow> int" where
  "sign n = (if n < 0 then -1 else if 0 < n then 1 else 0)"

definition isAllDigits :: "string \<Rightarrow> bool" where
  "isAllDigits s \<longleftrightarrow> s \<noteq> [] \<and> list_all isDigit s"

section \<open>Tokens\<close>

datatype tokenKind = TokenNumeric | TokenAlpha

record token =
  tkind :: tokenKind
  ttext :: string
  tsep :: char \<comment> \<open>the punctuation byte before the run, NUL for none\<close>

text \<open>
  \<open>tokenize\<close>: the loop over \<open>i\<close> is the recursion on the suffix, \<open>s\<close> the separator seen last. A
  second punctuation byte overwrites the first, and trailing punctuation leaves no token.
\<close>

function tokenize_from :: "char \<Rightarrow> string \<Rightarrow> token list" where
  "tokenize_from p [] = []"
| "tokenize_from p (c # cs) =
     (if isDigit c then
        \<lparr>tkind = TokenNumeric, ttext = takeWhile isDigit (c # cs), tsep = p\<rparr>
          # tokenize_from CHR 0x00 (dropWhile isDigit (c # cs))
      else if isLetter c then
        \<lparr>tkind = TokenAlpha, ttext = takeWhile isLetter (c # cs), tsep = p\<rparr>
          # tokenize_from CHR 0x00 (dropWhile isLetter (c # cs))
      else tokenize_from c cs)"
  by pat_completeness auto
termination
  by (relation "measure (\<lambda>(p, s). length s)") (auto simp: less_Suc_eq_le dropWhile_length_le)

definition tokenize :: "string \<Rightarrow> token list" where
  "tokenize s = tokenize_from CHR 0x00 s"

definition stripV :: "string \<Rightarrow> string" where
  "stripV s = (case s of
       c # d # r \<Rightarrow> if (c = CHR ''v'' \<or> c = CHR ''V'') \<and> isDigit d then d # r else s
     | _ \<Rightarrow> s)"

section \<open>Digit runs compared as text\<close>

fun trimZeroes :: "string \<Rightarrow> string" where
  "trimZeroes (c # d # s) = (if c = CHR ''0'' then trimZeroes (d # s) else c # d # s)"
| "trimZeroes s = s"

definition compareNumericText :: "string \<Rightarrow> string \<Rightarrow> int" where
  "compareNumericText a b =
     (let a = trimZeroes a; b = trimZeroes b
      in if length a \<noteq> length b then (if length a < length b then -1 else 1)
         else sign (str_compare a b))"

section \<open>Lemmas\<close>

lemma sign_sgn: "sign n = sgn n"
  by (simp add: sign_def sgn_if)

lemma sign_range [simp]: "sign n \<in> {-1, 0, 1}"
  by (simp add: sign_def)

lemma sign_consts [simp]: "sign 0 = 0" "sign 1 = 1" "sign (-1) = -1"
  by (simp_all add: sign_def)

lemma sign_uminus [simp]: "sign (- n) = - sign n"
  by (simp add: sign_def)

lemma sign_diff_swap: "sign (b - a) = - sign (a - b)"
  by (simp add: sign_def)

lemma sign_eq_0 [simp]: "sign n = 0 \<longleftrightarrow> n = 0"
  by (simp add: sign_def)

lemma sign_sign [simp]: "sign (sign n) = sign n"
  by (simp add: sign_def)

lemma sign_int_cmp [simp]: "sign (int_cmp a b) = int_cmp a b"
  by (simp add: sign_sgn int_order.cmp_sgn)

lemma sign_str_compare [simp]: "sign (str_compare a b) = str_compare a b"
  by (simp add: sign_sgn str_order.cmp_sgn)

lemma isDigit_not_isLetter: "isDigit c \<Longrightarrow> \<not> isLetter c"
  by (auto simp: isDigit_def isLetter_def less_eq_char_def)

lemma isDigit_byte: "isDigit c \<longleftrightarrow> 48 \<le> byte c \<and> byte c \<le> 57"
  by (auto simp: isDigit_def byte_def less_eq_char_def)

lemma isAllDigits_simps [simp]:
  "\<not> isAllDigits []" "isAllDigits (c # s) \<longleftrightarrow> isDigit c \<and> list_all isDigit s"
  by (simp_all add: isAllDigits_def)

lemma isAllDigits_takeWhile: "s \<noteq> [] \<Longrightarrow> isDigit (hd s) \<Longrightarrow> isAllDigits (takeWhile isDigit s)"
  by (cases s) (auto simp: list_all_iff dest: set_takeWhileD)

lemma digits_no_dot: "isAllDigits d \<Longrightarrow> CHR ''.'' \<notin> set d"
  by (auto simp: isAllDigits_def list_all_iff isDigit_def)

text \<open>The number a digit run spells.\<close>

definition numval :: "string \<Rightarrow> int" where
  "numval s = foldl (\<lambda>n c. 10 * n + (byte c - 48)) 0 s"

lemma numval_Nil [simp]: "numval [] = 0"
  by (simp add: numval_def)

lemma numval_snoc [simp]: "numval (s @ [c]) = 10 * numval s + (byte c - 48)"
  by (simp add: numval_def)

lemma numval_Cons: "numval (c # s) = (byte c - 48) * 10 ^ length s + numval s"
  by (induction s rule: rev_induct) (simp_all add: algebra_simps numval_def)

lemma numval_bounds: "list_all isDigit s \<Longrightarrow> 0 \<le> numval s \<and> numval s < 10 ^ length s"
  by (induction s rule: rev_induct) (auto simp: isDigit_byte)

lemma numval_lower:
  assumes "list_all isDigit (c # s)" "c \<noteq> CHR ''0''"
  shows "10 ^ length s \<le> numval (c # s)"
proof -
  have "byte c \<noteq> byte CHR ''0''" using assms(2) by simp
  then have "byte c \<noteq> 48" by (simp add: byte_def)
  then have "1 \<le> byte c - 48" using assms(1) by (simp add: isDigit_byte)
  then have "1 * 10 ^ length s \<le> (byte c - 48) * 10 ^ length s"
    by (rule mult_right_mono) simp
  moreover have "0 \<le> numval s" using assms(1) numval_bounds [of s] by simp
  ultimately show ?thesis unfolding numval_Cons by linarith
qed

lemma trimZeroes_digits: "list_all isDigit s \<Longrightarrow> list_all isDigit (trimZeroes s)"
  by (induction s rule: trimZeroes.induct) auto

lemma numval_trimZeroes [simp]: "numval (trimZeroes s) = numval s"
  by (induction s rule: trimZeroes.induct) (auto simp: numval_Cons byte_def)

lemma trimZeroes_Nil [simp]: "trimZeroes s = [] \<longleftrightarrow> s = []"
  by (induction s rule: trimZeroes.induct) auto

lemma trimZeroes_idem [simp]: "trimZeroes (trimZeroes s) = trimZeroes s"
  by (induction s rule: trimZeroes.induct) auto

lemma trimZeroes_hd: "2 \<le> length (trimZeroes s) \<Longrightarrow> hd (trimZeroes s) \<noteq> CHR ''0''"
  by (induction s rule: trimZeroes.induct) auto

lemma str_compare_numval:
  assumes "length a = length b" "list_all isDigit a" "list_all isDigit b"
  shows "str_compare a b = sgn (numval a - numval b)"
  using assms
proof (induction a b rule: list_induct2)
  case (Cons x xs y ys)
  have step: "numval (x # xs) < numval (y # ys)"
    if "byte x < byte y" "list_all isDigit (x # xs)" "list_all isDigit (y # ys)"
      "length xs = length ys" for x y xs ys
  proof -
    have "(byte x - 48) * 10 ^ length xs + 10 ^ length xs \<le> (byte y - 48) * 10 ^ length xs"
      using that(1) mult_right_mono [of "byte x - 48 + 1" "byte y - 48" "10 ^ length xs"]
      by (simp add: algebra_simps)
    then show ?thesis using that numval_bounds [of xs] numval_bounds [of ys]
      by (simp add: numval_Cons)
  qed
  show ?case
    using Cons step [of x y xs ys] step [of y x ys xs]
    by (auto simp: byte_mono numval_Cons)
qed simp

lemma compareNumericText_numval:
  assumes "isAllDigits a" "isAllDigits b"
  shows "compareNumericText a b = sgn (numval a - numval b)"
proof -
  have less: "numval a < numval b"
    if "length (trimZeroes a) < length (trimZeroes b)" "isAllDigits a" "isAllDigits b" for a b
  proof -
    have "length (trimZeroes b) \<noteq> 0" using that(1) by linarith
    then obtain c r where b: "trimZeroes b = c # r"
      unfolding length_0_conv neq_Nil_conv by blast
    have "trimZeroes a \<noteq> []" using that(2) by (auto simp: isAllDigits_def)
    then have "2 \<le> length (trimZeroes b)" using that(1) by (cases "trimZeroes a") auto
    then have "c \<noteq> CHR ''0''" using trimZeroes_hd [of b] b by simp
    moreover have "list_all isDigit (c # r)"
      using that(3) trimZeroes_digits [of b] b by (simp add: isAllDigits_def)
    ultimately have "10 ^ length r \<le> numval b" using numval_lower [of c r] b numval_trimZeroes [of b]
      by simp
    moreover have "numval a < 10 ^ length (trimZeroes a)"
      using numval_bounds [of "trimZeroes a"] trimZeroes_digits [of a] that(2)
      by (simp add: isAllDigits_def)
    moreover have "(10::int) ^ length (trimZeroes a) \<le> 10 ^ length r"
      using that(1) b by (intro power_increasing) auto
    ultimately show ?thesis by linarith
  qed
  show ?thesis
  proof (cases "length (trimZeroes a) = length (trimZeroes b)")
    case True
    then show ?thesis
      using assms str_compare_numval [of "trimZeroes a" "trimZeroes b"]
      by (simp add: compareNumericText_def Let_def isAllDigits_def trimZeroes_digits sign_sgn)
  next
    case False
    then show ?thesis using assms less [of a b] less [of b a]
      by (auto simp: compareNumericText_def Let_def)
  qed
qed

lemma compareNumericText_key:
  "compareNumericText a b =
     then_cmp (int_cmp (int (length (trimZeroes a))) (int (length (trimZeroes b))))
       (str_compare (trimZeroes a) (trimZeroes b))"
  by (simp add: compareNumericText_def Let_def then_cmp_def int_cmp_def sgn_if)

lemma three_way_compareNumericText: "three_way compareNumericText"
  by (rule three_way_eqI [OF compareNumericText_key])
    (rule three_way_then [OF three_way_key [OF three_way_int_cmp]
        three_way_key [OF three_way_str_compare]])

interpretation num_order: three_way compareNumericText
  by (rule three_way_compareNumericText)

lemma compareNumericText_refl [simp]: "compareNumericText a a = 0"
  by (rule num_order.cmp_refl)

lemma compareNumericText_eq_0: "compareNumericText a b = 0 \<longleftrightarrow> trimZeroes a = trimZeroes b"
  by (auto simp: compareNumericText_key then_cmp_eq_0 int_cmp_def)

section \<open>The tokenizer reads every run\<close>

lemma isAlnum_run [simp]: "isDigit c \<Longrightarrow> isAlnum c" "isLetter c \<Longrightarrow> isAlnum c"
  by (simp_all add: isAlnum_def)

lemma takeWhile_run: "list_all P (takeWhile P s)"
  by (induction s) auto

lemma tokenize_from_text: "t \<in> set (tokenize_from p s) \<Longrightarrow>
    (tkind t = TokenNumeric \<longrightarrow> isAllDigits (ttext t)) \<and>
    (tkind t = TokenAlpha \<longrightarrow> ttext t \<noteq> [] \<and> list_all isLetter (ttext t))"
proof (induction p s rule: tokenize_from.induct)
  case (2 p c cs)
  consider "isDigit c" | "\<not> isDigit c" "isLetter c" | "\<not> isDigit c" "\<not> isLetter c" by blast
  then show ?case
    using "2.prems" "2.IH" by cases (auto simp: takeWhile_run)
qed simp

text \<open>Every alphanumeric byte of the input is in exactly one token, in order.\<close>

lemma takeWhile_filter: "(\<And>c. P c \<Longrightarrow> Q c) \<Longrightarrow>
    filter Q s = takeWhile P s @ filter Q (dropWhile P s)"
  by (induction s) auto

lemma concat_tokenize_from: "concat (map ttext (tokenize_from p s)) = filter isAlnum s"
proof (induction p s rule: tokenize_from.induct)
  case (2 p c cs)
  consider "isDigit c" | "\<not> isDigit c" "isLetter c" | "\<not> isDigit c" "\<not> isLetter c" by blast
  then show ?case
  proof cases
    case 1
    then show ?thesis
      using "2.IH"(1) takeWhile_filter [of isDigit isAlnum "c # cs"] by simp
  next
    case 2
    then show ?thesis
      using "2.IH"(2) takeWhile_filter [of isLetter isAlnum "c # cs"] by simp
  next
    case 3
    then show ?thesis using "2.IH"(3) by (simp add: isAlnum_def)
  qed
qed simp

end
