(* ===== verification/Purl.thy ===== *)
theory Purl
  imports Tokens
begin

text \<open>
  \<open>internal/match/purl.go\<close>: a package URL split into the parts the scanner needs and its canonical
  form. \<open>url.PathUnescape\<close> of Go's \<open>net/url\<close> is modelled from its documentation: every \<open>%\<close> must
  introduce two hexadecimal digits, and a text where one does not is an error, on which the code keeps
  the text. Shown: the name rules are idempotent, and the canonical form sees neither the version nor
  the qualifiers nor the subpath.
\<close>

record purl =
  p_Type :: string
  p_Namespace :: string
  p_Name :: string
  p_Version :: string
  p_Epoch :: string
  p_Distro :: string
  p_Canonical :: string

section \<open>Percent encoding\<close>

definition unhex :: "char \<Rightarrow> nat option" where
  "unhex c =
     (let n = of_char c :: nat in
      if isDigit c then Some (n - 48)
      else if CHR ''a'' \<le> c \<and> c \<le> CHR ''f'' then Some (n - 87)
      else if CHR ''A'' \<le> c \<and> c \<le> CHR ''F'' then Some (n - 55)
      else None)"

fun path_unescape :: "string \<Rightarrow> string option" where
  "path_unescape [] = Some []"
| "path_unescape (c # s) =
     (if c = CHR ''%'' then
        (case s of
           a # b # t \<Rightarrow>
             (case (unhex a, unhex b) of
                (Some x, Some y) \<Rightarrow> map_option ((#) (char_of (16 * x + y))) (path_unescape t)
              | _ \<Rightarrow> None)
         | _ \<Rightarrow> None)
      else map_option ((#) c) (path_unescape s))"

definition unescape :: "string \<Rightarrow> string" where
  "unescape s = (case path_unescape s of Some t \<Rightarrow> t | None \<Rightarrow> s)"

section \<open>Name rules\<close>

definition pep_sep :: "char \<Rightarrow> bool" where
  "pep_sep c \<longleftrightarrow> c = CHR ''-'' \<or> c = CHR ''_'' \<or> c = CHR ''.''"

fun pep503_loop :: "bool \<Rightarrow> string \<Rightarrow> string" where
  "pep503_loop dash [] = (if dash then ''-'' else [])"
| "pep503_loop dash (r # s) =
     (if pep_sep r then pep503_loop True s
      else (if dash then CHR ''-'' # r # pep503_loop False s else r # pep503_loop False s))"

definition pep503 :: "string \<Rightarrow> string" where
  "pep503 name = pep503_loop False (to_lower name)"

definition lowercase_types :: "string list" where
  "lowercase_types =
     [''npm'', ''composer'', ''hex'', ''pub'', ''opam'', ''githubactions'', ''nuget'',
      ''deb'', ''rpm'', ''apk'', ''alpm'', ''generic'', ''docker'', ''oci'', ''conan'', ''bitnami'']"

definition canonicalPURLName :: "string \<Rightarrow> string \<Rightarrow> string \<Rightarrow> string \<times> string" where
  "canonicalPURLName typ namespace name =
     (if typ = ''pypi'' then (to_lower namespace, pep503 name)
      else if typ \<in> set lowercase_types then (to_lower namespace, to_lower name)
      else if typ = ''golang'' then
        (case cut CHR ''/'' namespace of
           (host, rest, ok) \<Rightarrow>
             ((if ok then to_lower host @ ''/'' @ rest else to_lower host), name))
      else (namespace, name))"

section \<open>Parsing\<close>

text \<open>One round of the loop over the qualifiers, on \<open>(epoch, distro)\<close>.\<close>

definition qualifier_step :: "string \<Rightarrow> string \<times> string \<Rightarrow> string \<times> string" where
  "qualifier_step q st =
     (case (cut CHR ''='' q, st) of
        ((k, v, ok), (epoch, distro)) \<Rightarrow>
          if \<not> ok then st
          else
            let key = to_lower (trim_space k) in
            if key = ''epoch'' then (unescape v, distro)
            else if key = ''distro'' then (epoch, unescape v)
            else st)"

text \<open>The path without version and qualifiers, split into its segments.\<close>

definition purl_build :: "string \<Rightarrow> string \<Rightarrow> string \<Rightarrow> purl option" where
  "purl_build path version quals =
     (let segs = filter (\<lambda>s. s \<noteq> []) (split CHR ''/'' path) in
      if length segs < 2 then None
      else
        let typ = to_lower (hd segs);
            name = unescape (last segs);
            namespace = (if 2 < length segs then join ''/'' (map unescape (butlast (tl segs))) else [])
        in if name = [] then None
           else
             let (epoch, distro) = fold qualifier_step (split CHR ''&'' quals) ([], []);
                 (ns, nm) = canonicalPURLName typ namespace name
             in Some \<lparr>p_Type = typ, p_Namespace = ns, p_Name = nm, p_Version = version,
                  p_Epoch = epoch, p_Distro = distro,
                  p_Canonical = ''pkg:'' @ typ @ (if ns \<noteq> [] then ''/'' @ ns else []) @ ''/'' @ nm\<rparr>)"

text \<open>\<open>rest\<close> is the text after the scheme; the subpath goes first, then qualifiers, then version.\<close>

definition purl_rest :: "string \<Rightarrow> purl option" where
  "purl_rest rest0 =
     (let rest1 = (case split_first CHR ''#'' rest0 of None \<Rightarrow> rest0 | Some (h, _) \<Rightarrow> h);
          (rest2, quals) = (case split_first CHR ''?'' rest1 of None \<Rightarrow> (rest1, []) | Some (h, t) \<Rightarrow> (h, t));
          (path, version) =
            (case split_last CHR ''@'' rest2 of
               None \<Rightarrow> (rest2, [])
             | Some (h, t) \<Rightarrow> if CHR ''/'' \<notin> set t then (h, unescape t) else (rest2, []))
      in purl_build path version quals)"

definition parsePURL :: "string \<Rightarrow> purl option" where
  "parsePURL s0 =
     (let s = trim_space s0 in
      if length s < 4 \<or> \<not> equal_fold (take 4 s) ''pkg:'' then None
      else purl_rest (dropWhile (\<lambda>c. c = CHR ''/'') (drop 4 s)))"

section \<open>The name rules are idempotent\<close>

lemma lower_char_fix: "pep_sep (lower_char c) = pep_sep c"
proof (cases "ascii_upper c")
  case True
  with lower_char_upper [OF this] show ?thesis
    by (auto simp: pep_sep_def ascii_upper_def ascii_lower_def less_eq_char_def)
qed (simp add: lower_char_def)

lemma lower_dash [simp]: "lower_char CHR ''-'' = CHR ''-''"
  by (simp add: lower_char_def ascii_upper_def less_eq_char_def)

lemma pep503_loop_lower: "to_lower s = s \<Longrightarrow> to_lower (pep503_loop d s) = pep503_loop d s"
  by (induction d s rule: pep503_loop.induct) auto

text \<open>In the result a dash stands alone and every other byte is no separator.\<close>

lemma pep503_loop_idem:
  "pep503_loop False (pep503_loop False s) = pep503_loop False s \<and>
   pep503_loop False (pep503_loop True s) = pep503_loop True s"
proof (induction s)
  case Nil
  show ?case by (simp add: pep_sep_def)
next
  case (Cons r s)
  have "pep503_loop True (r # x) = CHR ''-'' # r # pep503_loop False x" if "\<not> pep_sep r" for x
    using that by simp
  then show ?case using Cons by (auto simp: pep_sep_def)
qed

lemma pep503_idem [simp]: "pep503 (pep503 n) = pep503 n"
  using pep503_loop_lower [of "to_lower n" False] pep503_loop_idem [of "to_lower n"] by (simp add: pep503_def)

lemma canonicalPURLName_idem:
  assumes "canonicalPURLName typ ns nm = (ns', nm')"
  shows "canonicalPURLName typ ns' nm' = (ns', nm')"
proof (cases "typ = ''golang''")
  case True
  obtain host rest ok where c: "cut CHR ''/'' ns = (host, rest, ok)" by (metis prod_cases3)
  have h: "CHR ''/'' \<notin> set host" "\<not> ok \<Longrightarrow> ns = host"
    using c by (auto simp: cut_def split: option.splits dest: split_first_Some)
  have "CHR ''/'' \<notin> set (to_lower host)"
    using h(1) by (auto simp: to_lower_def ascii_lower_def less_eq_char_def dest: lower_char_other [OF sym])
  then have "cut CHR ''/'' (to_lower host @ ''/'' @ rest) = (to_lower host, rest, True)"
    "cut CHR ''/'' (to_lower host) = (to_lower host, [], False)"
    by (simp_all add: cut_def split_first_append)
  moreover have "typ \<notin> set lowercase_types" using True by (simp add: lowercase_types_def)
  ultimately show ?thesis using assms c True by (auto simp: canonicalPURLName_def)
next
  case False
  then show ?thesis using assms by (auto simp: canonicalPURLName_def split: if_splits)
qed

section \<open>What the canonical form does not see\<close>

lemma purl_build_canonical:
  "map_option p_Canonical (purl_build path v q) = map_option p_Canonical (purl_build path v' q')"
  by (auto simp: purl_build_def Let_def split: prod.splits)

lemma purl_rest_canonical:
  assumes "CHR ''#'' \<notin> set b" "CHR ''?'' \<notin> set b" "CHR ''@'' \<notin> set b"
    and "set v \<inter> {CHR ''#'', CHR ''?'', CHR ''@'', CHR ''/''} = {}" "CHR ''#'' \<notin> set q"
  shows "map_option p_Canonical (purl_rest (b @ ''@'' @ v @ ''?'' @ q @ ''#'' @ sub))
    = map_option p_Canonical (purl_rest b)"
proof -
  let ?s = "b @ ''@'' @ v @ ''?'' @ q @ ''#'' @ sub"
  have "split_first CHR ''#'' ?s = Some (b @ ''@'' @ v @ ''?'' @ q, sub)"
    using split_first_append [of "CHR ''#''" "b @ ''@'' @ v @ ''?'' @ q" sub] assms by auto
  moreover have "split_first CHR ''?'' (b @ ''@'' @ v @ ''?'' @ q) = Some (b @ ''@'' @ v, q)"
    using split_first_append [of "CHR ''?''" "b @ ''@'' @ v" q] assms by auto
  moreover have "split_last CHR ''@'' (b @ ''@'' @ v) = Some (b, v)"
    using split_last_append [of "CHR ''@''" v b] assms by auto
  moreover have "CHR ''/'' \<notin> set v" using assms by auto
  ultimately have "purl_rest ?s = purl_build b (unescape v) q" by (simp add: purl_rest_def)
  moreover have "purl_rest b = purl_build b [] []" using assms by (simp add: purl_rest_def)
  ultimately show ?thesis using purl_build_canonical by metis
qed

lemma parsePURL_canonical:
  assumes base: "trim_space b = b" "4 \<le> length b"
    and "CHR ''#'' \<notin> set b" "CHR ''?'' \<notin> set b" "CHR ''@'' \<notin> set b"
    and "set v \<inter> {CHR ''#'', CHR ''?'', CHR ''@'', CHR ''/''} = {}" "CHR ''#'' \<notin> set q"
    and "trim_space (b @ ''@'' @ v @ ''?'' @ q @ ''#'' @ sub) = b @ ''@'' @ v @ ''?'' @ q @ ''#'' @ sub"
  shows "map_option p_Canonical (parsePURL (b @ ''@'' @ v @ ''?'' @ q @ ''#'' @ sub))
    = map_option p_Canonical (parsePURL b)"
proof -
  let ?x = "v @ ''?'' @ q @ ''#'' @ sub" and ?sl = "\<lambda>c. c = CHR ''/''"
  have d: "dropWhile ?sl (drop 4 (b @ ''@'' @ ?x)) = dropWhile ?sl (drop 4 b) @ ''@'' @ ?x"
    using base(2) dropWhile_stop [of ?sl "CHR ''@''" "drop 4 b" ?x] by simp
  have sub: "set (dropWhile ?sl (drop 4 b)) \<subseteq> set b"
    using set_dropWhileD set_drop_subset by fastforce
  have "map_option p_Canonical (purl_rest (dropWhile ?sl (drop 4 b) @ ''@'' @ ?x))
      = map_option p_Canonical (purl_rest (dropWhile ?sl (drop 4 b)))"
    using sub assms(3-7) by (intro purl_rest_canonical) auto
  then show ?thesis using base d assms(8) by (auto simp: parsePURL_def Let_def)
qed

end
