(* ===== verification/Cpe.thy ===== *)
theory Cpe
  imports Purl
begin

text \<open>
  \<open>internal/match/cpe.go\<close>: the CPE 2.3 name in its two bindings, the relation of one stored attribute to
  the component's, the wildcard matcher and the CPE channel over a row's configurations. Text is
  matched byte by byte, which is rune by rune on ASCII. Shown: splitting honours the quoting and is
  undone by joining, a written name is read back, the channel is satisfied exactly when one stored
  configuration admits the component, and a pattern without wildcards matches what it spells.
\<close>

record cpeAttrs =
  cpe_part :: string
  cpe_vendor :: string
  cpe_product :: string
  cpe_version :: string
  cpe_update :: string
  cpe_edition :: string
  cpe_language :: string
  cpe_swEdition :: string
  cpe_targetSW :: string
  cpe_targetHW :: string
  cpe_other :: string

section \<open>Quoting\<close>

text \<open>\<open>splitEscaped\<close>: a backslash keeps the next byte in the field; a last one is an ordinary byte.\<close>

fun splitEscaped :: "char \<Rightarrow> string \<Rightarrow> string list" where
  "splitEscaped sep [] = [[]]"
| "splitEscaped sep [c] = (if c = sep then [[], []] else [[c]])"
| "splitEscaped sep (c # d # s) =
     (if c = CHR 0x5C then
        (case splitEscaped sep s of [] \<Rightarrow> [[c, d]] | h # t \<Rightarrow> (c # d # h) # t)
      else if c = sep then [] # splitEscaped sep (d # s)
      else (case splitEscaped sep (d # s) of [] \<Rightarrow> [[c]] | h # t \<Rightarrow> (c # h) # t))"

fun unquoteCPE :: "string \<Rightarrow> string" where
  "unquoteCPE (c # d # s) = (if c = CHR 0x5C then d # unquoteCPE s else c # unquoteCPE (d # s))"
| "unquoteCPE s = s"

fun hasWildcard :: "string \<Rightarrow> bool" where
  "hasWildcard [] = False"
| "hasWildcard (c # s) =
     (if c = CHR 0x5C then (case s of [] \<Rightarrow> False | d # t \<Rightarrow> hasWildcard t)
      else c = CHR ''*'' \<or> c = CHR ''?'' \<or> hasWildcard s)"

datatype globToken = Literal char | Single | Run

text \<open>The loop of \<open>globMatch\<close> that builds the tokens, \<open>esc\<close> set after a backslash.\<close>

fun glob_tokens :: "bool \<Rightarrow> string \<Rightarrow> globToken list" where
  "glob_tokens esc [] = []"
| "glob_tokens esc (r # s) =
     (if esc then Literal r # glob_tokens False s
      else if r = CHR 0x5C then glob_tokens True s
      else if r = CHR ''?'' then Single # glob_tokens False s
      else if r = CHR ''*'' then Run # glob_tokens False s
      else Literal r # glob_tokens False s)"

fun globAt :: "globToken list \<Rightarrow> string \<Rightarrow> bool" where
  "globAt [] s = (s = [])"
| "globAt (Run # ts) s = list_ex (\<lambda>i. globAt ts (drop i s)) [0..<Suc (length s)]"
| "globAt (Single # ts) s = (s \<noteq> [] \<and> globAt ts (tl s))"
| "globAt (Literal r # ts) s = (s \<noteq> [] \<and> hd s = r \<and> globAt ts (tl s))"

definition globMatch :: "string \<Rightarrow> string \<Rightarrow> bool" where
  "globMatch pattern val = globAt (glob_tokens False (to_lower pattern)) (to_lower val)"

section \<open>Parsing\<close>

definition cpe_map :: "(string \<Rightarrow> string) \<Rightarrow> cpeAttrs \<Rightarrow> cpeAttrs" where
  "cpe_map f a =
     \<lparr>cpe_part = f (cpe_part a), cpe_vendor = f (cpe_vendor a), cpe_product = f (cpe_product a),
      cpe_version = f (cpe_version a), cpe_update = f (cpe_update a), cpe_edition = f (cpe_edition a),
      cpe_language = f (cpe_language a), cpe_swEdition = f (cpe_swEdition a),
      cpe_targetSW = f (cpe_targetSW a), cpe_targetHW = f (cpe_targetHW a), cpe_other = f (cpe_other a)\<rparr>"

definition any_if_empty :: "string \<Rightarrow> string" where
  "any_if_empty v = (if trim_space v = [] then ''*'' else trim_space v)"

definition normalized :: "cpeAttrs \<Rightarrow> cpeAttrs" where
  "normalized a = cpe_map any_if_empty a"

text \<open>\<open>cpeAttrs{}\<close>, the zero value, and a list padded with empty strings to a length.\<close>

definition empty_cpe :: cpeAttrs where
  "empty_cpe = \<lparr>cpe_part = [], cpe_vendor = [], cpe_product = [], cpe_version = [], cpe_update = [],
     cpe_edition = [], cpe_language = [], cpe_swEdition = [], cpe_targetSW = [], cpe_targetHW = [],
     cpe_other = []\<rparr>"

definition pad :: "nat \<Rightarrow> string list \<Rightarrow> string list" where
  "pad n f = f @ replicate (n - length f) []"

definition parse_formatted :: "string \<Rightarrow> cpeAttrs option" where
  "parse_formatted s =
     (let f = splitEscaped CHR '':'' s in
      if length f \<noteq> 13 then None
      else Some (normalized
        \<lparr>cpe_part = f ! 2, cpe_vendor = f ! 3, cpe_product = f ! 4, cpe_version = f ! 5,
         cpe_update = f ! 6, cpe_edition = f ! 7, cpe_language = f ! 8, cpe_swEdition = f ! 9,
         cpe_targetSW = f ! 10, cpe_targetHW = f ! 11, cpe_other = f ! 12\<rparr>))"

definition parse_uri :: "string \<Rightarrow> cpeAttrs" where
  "parse_uri s =
     (let f = pad 7 (split CHR '':'' (drop 5 s));
          a = empty_cpe\<lparr>cpe_part := f ! 0, cpe_vendor := f ! 1, cpe_product := f ! 2,
                cpe_version := f ! 3, cpe_update := f ! 4, cpe_edition := f ! 5, cpe_language := f ! 6\<rparr>;
          b = (if has_prefix (cpe_edition a) ''~'' then
                 (let p = pad 6 (split CHR ''~'' (cpe_edition a)) in
                  a\<lparr>cpe_edition := p ! 1, cpe_swEdition := p ! 2, cpe_targetSW := p ! 3,
                    cpe_targetHW := p ! 4, cpe_other := p ! 5\<rparr>)
               else a)
      in normalized (cpe_map unescape b))"

definition parseCPE :: "string \<Rightarrow> cpeAttrs option" where
  "parseCPE s0 =
     (let s = trim_space s0 in
      if 8 \<le> length s \<and> equal_fold (take 8 s) ''cpe:2.3:'' then parse_formatted s
      else if 5 \<le> length s \<and> equal_fold (take 5 s) ''cpe:/'' then Some (parse_uri s)
      else None)"

section \<open>The channel\<close>

datatype cpeRelation = cpeSatisfied | cpeDisjoint | cpeUnproven

definition cpeAttrRelation :: "string \<Rightarrow> string \<Rightarrow> cpeRelation" where
  "cpeAttrRelation row inst =
     (if row = ''*'' then cpeSatisfied
      else if row = ''-'' then (if inst = ''-'' then cpeSatisfied else cpeDisjoint)
      else if inst = ''*'' then cpeUnproven
      else if inst = ''-'' then cpeDisjoint
      else if hasWildcard row then (if globMatch row (unquoteCPE inst) then cpeSatisfied else cpeDisjoint)
      else if equal_fold (unquoteCPE row) (unquoteCPE inst) then cpeSatisfied
      else cpeDisjoint)"

record discreteVersion =
  dv_value :: string
  dv_unproven :: "string list"

record cpeChannel =
  ch_relation :: cpeRelation
  ch_unproven :: "string list"
  ch_versions :: "discreteVersion list"
  ch_patterns :: "discreteVersion list"

text \<open>The condition an attribute states, and its relation to the component's attribute.\<close>

definition cpe_conditions :: "cpeAttrs \<Rightarrow> cpeAttrs \<Rightarrow> bool \<Rightarrow> (string \<times> cpeRelation) list" where
  "cpe_conditions row inst withUpdate =
     map (\<lambda>(name, get). (name @ ''='' @ unquoteCPE (get row), cpeAttrRelation (get row) (get inst)))
       ([(''edition'', cpe_edition), (''language'', cpe_language), (''sw_edition'', cpe_swEdition),
         (''target_sw'', cpe_targetSW), (''target_hw'', cpe_targetHW), (''other'', cpe_other)]
        @ (if withUpdate then [(''update'', cpe_update)] else []))"

definition cpeConstraints :: "cpeAttrs \<Rightarrow> cpeAttrs \<Rightarrow> bool \<Rightarrow> string list \<times> string" where
  "cpeConstraints row inst withUpdate =
     (let cs = cpe_conditions row inst withUpdate in
      (map fst (filter (\<lambda>(_, rel). rel = cpeUnproven) cs),
       (case filter (\<lambda>(_, rel). rel = cpeDisjoint) cs of [] \<Rightarrow> [] | (name, _) # _ \<Rightarrow> name)))"

definition version_stated :: "cpeAttrs \<Rightarrow> bool" where
  "version_stated row \<longleftrightarrow> cpe_version row \<noteq> ''*'' \<and> cpe_version row \<noteq> ''-''"

definition stated_version :: "cpeAttrs \<Rightarrow> string" where
  "stated_version row =
     cpe_version row @
     (if cpe_update row \<noteq> ''*'' \<and> cpe_update row \<noteq> ''-'' then ''-'' @ cpe_update row else [])"

definition carrierConstraints :: "string \<Rightarrow> string \<Rightarrow> (string list \<times> string) option" where
  "carrierConstraints carrier componentCPE =
     (case parseCPE carrier of
        None \<Rightarrow> None
      | Some row \<Rightarrow>
          (let inst = (case parseCPE componentCPE of Some c \<Rightarrow> c | None \<Rightarrow> normalized empty_cpe)
           in Some (cpeConstraints row inst (\<not> version_stated row))))"

text \<open>The loop state of \<open>matchCPEs\<close>.\<close>

record cpe_state =
  st_unproven :: "string list"
  st_versions :: "discreteVersion list"
  st_patterns :: "discreteVersion list"
  st_determinate :: bool
  st_matched :: bool

definition identity_relations :: "cpeAttrs \<Rightarrow> cpeAttrs \<Rightarrow> cpeRelation list" where
  "identity_relations row inst =
     [cpeAttrRelation (cpe_part row) (cpe_part inst), cpeAttrRelation (cpe_vendor row) (cpe_vendor inst),
      cpeAttrRelation (cpe_product row) (cpe_product inst)]"

definition keep_match :: "cpeAttrs \<Rightarrow> string list \<Rightarrow> cpe_state \<Rightarrow> cpe_state" where
  "keep_match row unproven st =
     st\<lparr>st_versions := st_versions st @
          (if version_stated row \<and> \<not> hasWildcard (stated_version row) \<and> unquoteCPE (stated_version row) \<noteq> []
           then [\<lparr>dv_value = unquoteCPE (stated_version row), dv_unproven = unproven\<rparr>] else []),
        st_patterns := st_patterns st @
          (if version_stated row \<and> hasWildcard (stated_version row)
           then [\<lparr>dv_value = stated_version row, dv_unproven = unproven\<rparr>] else []),
        st_unproven := (if \<not> st_matched st \<or> length unproven < length (st_unproven st)
                        then unproven else st_unproven st),
        st_matched := True\<rparr>"

definition match_step :: "cpeAttrs \<Rightarrow> string \<Rightarrow> cpe_state \<Rightarrow> cpe_state" where
  "match_step inst raw st =
     (case parseCPE raw of
        None \<Rightarrow> st
      | Some row \<Rightarrow>
          if cpe_product row = ''*'' \<or> cpe_vendor row = ''*'' then st
          else
            let rels = identity_relations row inst in
            if list_ex (\<lambda>r. r \<noteq> cpeSatisfied) rels
            then st\<lparr>st_determinate := st_determinate st \<or> cpeDisjoint \<in> set rels\<rparr>
            else
              let st1 = st\<lparr>st_determinate := True\<rparr>;
                  (unproven, disjoint) = cpeConstraints row inst (\<not> version_stated row)
              in if disjoint \<noteq> [] then st1 else keep_match row unproven st1)"

definition cpe_start :: cpe_state where
  "cpe_start = \<lparr>st_unproven = [], st_versions = [], st_patterns = [], st_determinate = False, st_matched = False\<rparr>"

definition matchCPEs :: "string \<Rightarrow> string list \<Rightarrow> cpeChannel" where
  "matchCPEs componentCPE rowCPEs =
     (case parseCPE componentCPE of
        None \<Rightarrow> \<lparr>ch_relation = cpeUnproven, ch_unproven = [], ch_versions = [], ch_patterns = []\<rparr>
      | Some inst \<Rightarrow>
          let st = fold (match_step inst) rowCPEs cpe_start in
          \<lparr>ch_relation = (if st_matched st then cpeSatisfied
                          else if st_determinate st then cpeDisjoint else cpeUnproven),
           ch_unproven = st_unproven st, ch_versions = st_versions st, ch_patterns = st_patterns st\<rparr>)"

section \<open>Splitting and joining\<close>

lemma splitEscaped_nonempty [simp]: "splitEscaped sep s \<noteq> []"
  by (induction sep s rule: splitEscaped.induct) (auto split: list.splits)

lemma join_splitEscaped: "join [sep] (splitEscaped sep s) = s"
proof (induction sep s rule: splitEscaped.induct)
  case (3 sep c d s)
  show ?case
  proof (cases "c = CHR 0x5C")
    case True
    then obtain h t where "splitEscaped sep s = h # t" by (cases "splitEscaped sep s") auto
    with "3.IH"(1) True show ?thesis by (auto simp: join_Cons split: if_splits)
  next
    case False
    obtain h t where "splitEscaped sep (d # s) = h # t" by (cases "splitEscaped sep (d # s)") auto
    with "3.IH"(2,3) False show ?thesis by (auto simp: join_Cons split: if_splits)
  qed
qed (auto simp: join_Cons)

text \<open>A field that is closed under the quoting: no bare separator and no backslash left open.\<close>

fun closed_field :: "char \<Rightarrow> string \<Rightarrow> bool" where
  "closed_field sep [] = True"
| "closed_field sep (c # s) =
     (if c = CHR 0x5C then (case s of [] \<Rightarrow> False | d # t \<Rightarrow> closed_field sep t)
      else c \<noteq> sep \<and> closed_field sep s)"

lemma splitEscaped_sep: "sep \<noteq> CHR 0x5C \<Longrightarrow> splitEscaped sep (sep # x) = [] # splitEscaped sep x"
  by (cases x) auto

lemma splitEscaped_closed:
  "sep \<noteq> CHR 0x5C \<Longrightarrow> closed_field sep f \<Longrightarrow>
     splitEscaped sep f = [f] \<and> splitEscaped sep (f @ sep # s) = f # splitEscaped sep s"
proof (induction sep f rule: closed_field.induct)
  case (1 sep)
  then show ?case by (simp add: splitEscaped_sep)
next
  case (2 sep c f)
  then show ?case by (cases f) (auto simp: splitEscaped_sep split: if_splits)
qed

lemma splitEscaped_join:
  assumes "sep \<noteq> CHR 0x5C" "fs \<noteq> []" "list_all (closed_field sep) fs"
  shows "splitEscaped sep (join [sep] fs) = fs"
  using assms(2,3)
proof (induction fs)
  case (Cons f fs)
  then show ?case using splitEscaped_closed [OF assms(1), of f] by (auto simp: join_Cons)
qed simp

section \<open>A written name is read back\<close>

definition cpe_fields :: "cpeAttrs \<Rightarrow> string list" where
  "cpe_fields a = [cpe_part a, cpe_vendor a, cpe_product a, cpe_version a, cpe_update a, cpe_edition a,
     cpe_language a, cpe_swEdition a, cpe_targetSW a, cpe_targetHW a, cpe_other a]"

definition format_cpe :: "cpeAttrs \<Rightarrow> string" where
  "format_cpe a = join '':'' ([''cpe'', ''2.3''] @ cpe_fields a)"

definition well_formed_cpe :: "cpeAttrs \<Rightarrow> bool" where
  "well_formed_cpe a \<longleftrightarrow> list_all (\<lambda>f. f \<noteq> [] \<and> trim_space f = f \<and> closed_field CHR '':'' f) (cpe_fields a)"

lemma normalized_fixed: "well_formed_cpe a \<Longrightarrow> normalized a = a"
  by (simp add: well_formed_cpe_def cpe_fields_def normalized_def cpe_map_def any_if_empty_def)

lemma trim_space_last: "f \<noteq> [] \<Longrightarrow> trim_space f = f \<Longrightarrow> \<not> is_space (last f)"
proof -
  assume f: "f \<noteq> []" "trim_space f = f"
  have "trim_right f = f" using f(2) trim_right_idem [of "trim_left f"] by (simp add: trim_space_def)
  then have "dropWhile is_space (rev f) = rev f" by (simp add: trim_right_def rev_swap)
  with f(1) hd_dropWhile [of is_space "rev f"] show ?thesis by (simp add: hd_rev)
qed

lemma parseCPE_format:
  assumes "well_formed_cpe a"
  shows "parseCPE (format_cpe a) = Some a"
proof -
  let ?s = "format_cpe a" and ?fs = "[''cpe'', ''2.3''] @ cpe_fields a"
  have cl: "list_all (closed_field CHR '':'') ?fs"
    using assms by (auto simp: well_formed_cpe_def list_all_iff)
  have f: "splitEscaped CHR '':'' ?s = ?fs"
    unfolding format_cpe_def by (rule splitEscaped_join [OF _ _ cl]) simp_all
  have start: "?s = ''cpe:2.3:'' @ join '':'' (cpe_fields a)"
    by (simp add: format_cpe_def cpe_fields_def)
  have "\<not> is_space (last (last ?fs))" "last ?fs \<noteq> []"
    using assms trim_space_last [of "cpe_other a"] by (auto simp: well_formed_cpe_def cpe_fields_def)
  moreover have "last ?s = last (last ?fs)"
    using last_join [of ?fs "'':''"] \<open>last ?fs \<noteq> []\<close> by (simp add: format_cpe_def)
  ultimately have ns: "\<not> is_space (last ?s)" by simp
  have "trim_space ?s = ?s"
    by (rule trim_space_plain [OF _ _ ns]) (simp_all add: start is_space_def less_eq_char_def)
  moreover have "8 \<le> length ?s \<and> equal_fold (take 8 ?s) ''cpe:2.3:''" by (simp add: start)
  moreover have "parse_formatted ?s = Some (normalized a)"
    unfolding parse_formatted_def f by (cases a) (simp add: cpe_fields_def Let_def)
  ultimately show ?thesis using normalized_fixed [OF assms] by (simp add: parseCPE_def)
qed

section \<open>The channel\<close>

text \<open>What one stored configuration says about the component.\<close>

definition cpe_names :: "cpeAttrs \<Rightarrow> string \<Rightarrow> bool" where
  "cpe_names inst raw \<longleftrightarrow> (\<exists>row. parseCPE raw = Some row \<and> cpe_product row \<noteq> ''*'' \<and> cpe_vendor row \<noteq> ''*''
     \<and> (\<forall>r \<in> set (identity_relations row inst). r = cpeSatisfied))"

definition cpe_admits :: "cpeAttrs \<Rightarrow> string \<Rightarrow> bool" where
  "cpe_admits inst raw \<longleftrightarrow> cpe_names inst raw
     \<and> (\<exists>row. parseCPE raw = Some row \<and> snd (cpeConstraints row inst (\<not> version_stated row)) = [])"

definition cpe_rules_out :: "cpeAttrs \<Rightarrow> string \<Rightarrow> bool" where
  "cpe_rules_out inst raw \<longleftrightarrow> (\<exists>row. parseCPE raw = Some row \<and> cpe_product row \<noteq> ''*'' \<and> cpe_vendor row \<noteq> ''*''
     \<and> cpeDisjoint \<in> set (identity_relations row inst))"

lemma match_step_flags:
  "st_matched (match_step inst raw st) = (st_matched st \<or> cpe_admits inst raw)"
  "st_determinate (match_step inst raw st) = (st_determinate st \<or> cpe_names inst raw \<or> cpe_rules_out inst raw)"
  by (auto simp: match_step_def cpe_names_def cpe_admits_def cpe_rules_out_def keep_match_def Let_def list_ex_iff
      split: option.splits prod.splits if_splits)

lemma fold_match_step_flags:
  "st_matched (fold (match_step inst) rows st) = (st_matched st \<or> (\<exists>raw \<in> set rows. cpe_admits inst raw))"
  "st_determinate (fold (match_step inst) rows st)
    = (st_determinate st \<or> (\<exists>raw \<in> set rows. cpe_names inst raw \<or> cpe_rules_out inst raw))"
  by (induction rows arbitrary: st) (auto simp: match_step_flags)

lemma matchCPEs_relation:
  assumes "parseCPE c = Some inst"
  shows "ch_relation (matchCPEs c rows) =
    (if \<exists>raw \<in> set rows. cpe_admits inst raw then cpeSatisfied
     else if \<exists>raw \<in> set rows. cpe_names inst raw \<or> cpe_rules_out inst raw then cpeDisjoint
     else cpeUnproven)"
  using assms by (simp add: matchCPEs_def fold_match_step_flags cpe_start_def Let_def)

text \<open>The conditions kept are those of a configuration that admits the component.\<close>

lemma fold_match_step_unproven:
  "st_matched (fold (match_step inst) rows st) \<Longrightarrow>
     (st_matched st \<and> st_unproven (fold (match_step inst) rows st) = st_unproven st)
     \<or> (\<exists>raw row. raw \<in> set rows \<and> parseCPE raw = Some row \<and> cpe_admits inst raw
          \<and> st_unproven (fold (match_step inst) rows st) = fst (cpeConstraints row inst (\<not> version_stated row)))"
proof (induction rows arbitrary: st)
  case (Cons raw rows)
  let ?st = "match_step inst raw st"
  have one: "st_matched ?st \<Longrightarrow> (st_matched st \<and> st_unproven ?st = st_unproven st)
      \<or> (\<exists>row. parseCPE raw = Some row \<and> cpe_admits inst raw
          \<and> st_unproven ?st = fst (cpeConstraints row inst (\<not> version_stated row)))"
    by (auto simp: match_step_def cpe_names_def cpe_admits_def keep_match_def Let_def list_ex_iff
        split: option.splits prod.splits if_splits)
  from Cons.IH [of ?st] Cons.prems consider
      "st_matched ?st" "st_unproven (fold (match_step inst) rows ?st) = st_unproven ?st"
    | raw' row where "raw' \<in> set rows" "parseCPE raw' = Some row" "cpe_admits inst raw'"
        "st_unproven (fold (match_step inst) rows ?st) = fst (cpeConstraints row inst (\<not> version_stated row))"
    by auto
  then show ?case
  proof cases
    case 1
    with one [OF 1(1)] show ?thesis by (metis fold_simps(2) list.set_intros(1))
  next
    case 2
    then show ?thesis by (metis fold_simps(2) list.set_intros(2))
  qed
qed auto

lemma matchCPEs_wildcard_row:
  assumes "\<forall>raw \<in> set rows. \<forall>row. parseCPE raw = Some row \<longrightarrow> cpe_product row = ''*'' \<or> cpe_vendor row = ''*''"
  shows "ch_relation (matchCPEs c rows) = cpeUnproven"
proof (cases "parseCPE c")
  case None
  then show ?thesis by (simp add: matchCPEs_def)
next
  case (Some inst)
  have "\<not> cpe_names inst raw" "\<not> cpe_rules_out inst raw" "\<not> cpe_admits inst raw" if "raw \<in> set rows" for raw
    using assms that by (auto simp: cpe_names_def cpe_rules_out_def cpe_admits_def)
  then show ?thesis using matchCPEs_relation [OF Some, of rows] by auto
qed

section \<open>Patterns\<close>

definition plain_text :: "string \<Rightarrow> bool" where
  "plain_text s \<longleftrightarrow> set s \<inter> {CHR 0x5C, CHR ''*'', CHR ''?''} = {}"

lemma lower_char_plain: "c \<in> {CHR 0x5C, CHR ''*'', CHR ''?''} \<Longrightarrow> lower_char d = c \<Longrightarrow> d = c"
  by (rule lower_char_other) (auto simp: ascii_lower_def less_eq_char_def)

lemma plain_text_lower: "plain_text s \<Longrightarrow> plain_text (to_lower s)"
proof -
  assume p: "plain_text s"
  have False if c: "c \<in> set (to_lower s)" "c \<in> {CHR 0x5C, CHR ''*'', CHR ''?''}" for c
  proof -
    obtain d where d: "d \<in> set s" "lower_char d = c" using c(1) by (auto simp: to_lower_def)
    have "d = c" using lower_char_plain [OF c(2) d(2)] .
    with d(1) p c(2) show False unfolding plain_text_def by blast
  qed
  then show ?thesis unfolding plain_text_def by blast
qed

lemma glob_tokens_plain: "plain_text p \<Longrightarrow> glob_tokens False (p @ s) = map Literal p @ glob_tokens False s"
  by (induction p) (auto simp: plain_text_def)

lemma globAt_literals: "globAt (map Literal p @ ts) s \<longleftrightarrow> (\<exists>t. s = p @ t \<and> globAt ts t)"
proof (induction p arbitrary: s)
  case (Cons c p)
  then show ?case by (cases s) auto
qed simp

lemma globAt_run_end: "globAt [Run] s"
  by (auto simp: list_ex_iff intro!: bexI [of _ "length s"])

lemma globMatch_plain: "plain_text p \<Longrightarrow> globMatch p v = equal_fold p v"
  using glob_tokens_plain [OF plain_text_lower, of p "[]"] globAt_literals [of "to_lower p" "[]" "to_lower v"]
  by (auto simp: globMatch_def equal_fold_def)

lemma globMatch_prefix:
  assumes "plain_text p"
  shows "globMatch (p @ ''*'') v = has_prefix (to_lower v) (to_lower p)"
proof -
  have star: "lower_char CHR ''*'' = CHR ''*''" by (simp add: lower_char_def ascii_upper_def less_eq_char_def)
  have "glob_tokens False (to_lower (p @ ''*'')) = map Literal (to_lower p) @ [Run]"
    using glob_tokens_plain [OF plain_text_lower [OF assms], of "''*''"] by (simp add: to_lower_append star)
  then have "globMatch (p @ ''*'') v \<longleftrightarrow> (\<exists>t. to_lower v = to_lower p @ t)"
    using globAt_literals globAt_run_end by (simp add: globMatch_def)
  also have "\<dots> \<longleftrightarrow> has_prefix (to_lower v) (to_lower p)"
    by (auto simp: has_prefix_def) (metis append_take_drop_id length_to_lower)
  finally show ?thesis .
qed

end
