(* ===== verification/Sentinel.thy ===== *)
theory Sentinel
  imports Tokens
begin

text \<open>
  \<open>internal/version/sentinel.go\<close> and the operand guards of \<open>internal/version/version.go\<close>: the
  schemes, the certainty grade, the cleaning of an operand, the placeholder classes and the guard
  against commit hashes. \<open>unusable\<close> is the gate every operand passes before a comparator sees it.

  A \<open>Scheme\<close> is a Go string type with nine constants; the model is their enumeration.
\<close>

datatype Scheme = Semver | Debian | RPM | Alpine | Maven | Python | Go | Generic | Opaque

definition Ordered :: "Scheme \<Rightarrow> bool" where
  "Ordered s = (case s of Opaque \<Rightarrow> False | _ \<Rightarrow> True)"

datatype Certainty = Exact | Heuristic

definition weakest :: "Certainty \<Rightarrow> Certainty \<Rightarrow> Certainty" where
  "weakest a b = (if a = Heuristic \<or> b = Heuristic then Heuristic else Exact)"

text \<open>
  \<open>clean\<close>: surrounding space goes, and paired quotes around what is left, as long as there are any.
\<close>

definition paired_quotes :: "string \<Rightarrow> bool" where
  "paired_quotes s \<longleftrightarrow> 2 \<le> length s \<and>
     ((hd s = CHR 0x22 \<and> last s = CHR 0x22) \<or> (hd s = CHR 0x27 \<and> last s = CHR 0x27))"

function clean_from :: "string \<Rightarrow> string" where
  "clean_from s = (if paired_quotes s then clean_from (trim_space (butlast (tl s))) else s)"
  by pat_completeness auto
termination
proof (relation "measure length")
  fix s :: string
  assume "paired_quotes s"
  then have "length (butlast (tl s)) < length s" by (auto simp: paired_quotes_def)
  then show "(trim_space (butlast (tl s)), s) \<in> measure length"
    using length_trim_space [of "butlast (tl s)"] by simp
qed simp

declare clean_from.simps [simp del]

definition clean :: "string \<Rightarrow> string" where
  "clean s = clean_from (trim_space s)"

datatype Sentinel = NotSentinel | SentinelEmpty | SentinelAll | SentinelUnknown | SentinelZero

definition sentinel_String :: "Sentinel \<Rightarrow> string" where
  "sentinel_String s = (case s of
       SentinelEmpty \<Rightarrow> ''empty''
     | SentinelAll \<Rightarrow> ''all-versions''
     | SentinelUnknown \<Rightarrow> ''unknown-version''
     | SentinelZero \<Rightarrow> ''zero''
     | NotSentinel \<Rightarrow> ''not-a-sentinel'')"

definition ClassifySentinel :: "string \<Rightarrow> Sentinel" where
  "ClassifySentinel s =
     (let t = to_lower (clean s) in
      if t = [] then SentinelEmpty
      else if t \<in> {''*'', ''-'', ''any'', ''all'', ''all versions''} then SentinelAll
      else if t \<in> {''unspecified'', ''unknown'', ''n/a'', ''na'', ''none'', ''not applicable''}
      then SentinelUnknown
      else if t = ''0'' then SentinelZero
      else NotSentinel)"

definition hex_letter :: "char \<Rightarrow> bool" where
  "hex_letter c \<longleftrightarrow> (CHR ''a'' \<le> c \<and> c \<le> CHR ''f'') \<or> (CHR ''A'' \<le> c \<and> c \<le> CHR ''F'')"

definition LooksLikeCommit :: "string \<Rightarrow> bool" where
  "LooksLikeCommit s =
     (let s = clean s in
      if length s < 7 \<or> 64 < length s then False
      else if \<not> list_all (\<lambda>c. isDigit c \<or> hex_letter c) s then False
      else list_ex hex_letter s \<or> 32 \<le> length s)"

text \<open>\<open>unusable\<close>: the reason an operand can never be ordered, \<open>None\<close> where it can.\<close>

definition unusable :: "string \<Rightarrow> string option" where
  "unusable s =
     (let k = ClassifySentinel s in
      if k = SentinelEmpty then Some ''is empty''
      else if k = SentinelAll \<or> k = SentinelUnknown
      then Some (''is the '' @ sentinel_String k @ '' sentinel, which is not a version'')
      else if LooksLikeCommit s
      then Some ''looks like a commit hash, which has no order against a version''
      else None)"

section \<open>Lemmas\<close>

lemma weakest_simps [simp]:
  "weakest Heuristic c = Heuristic" "weakest c Heuristic = Heuristic" "weakest Exact c = c"
  "weakest c Exact = c"
  by (cases c; simp add: weakest_def)+

lemma weakest_commute: "weakest a b = weakest b a"
  by (auto simp: weakest_def)

lemma weakest_assoc: "weakest (weakest a b) c = weakest a (weakest b c)"
  by (auto simp: weakest_def)

lemma weakest_Exact: "weakest a b = Exact \<longleftrightarrow> a = Exact \<and> b = Exact"
  by (cases a; cases b) auto

lemma clean_from_fixed: "\<not> paired_quotes s \<Longrightarrow> clean_from s = s"
  by (subst clean_from.simps) simp

lemma clean_from_done: "\<not> paired_quotes (clean_from s)"
proof (induction s rule: clean_from.induct)
  case (1 s)
  then show ?case by (cases "paired_quotes s") (auto simp: clean_from.simps [of s])
qed

lemma clean_from_trim: "trim_space s = s \<Longrightarrow> trim_space (clean_from s) = clean_from s"
proof (induction s rule: clean_from.induct)
  case (1 s)
  then show ?case by (cases "paired_quotes s") (auto simp: clean_from.simps [of s])
qed

lemma trim_space_clean [simp]: "trim_space (clean s) = clean s"
  unfolding clean_def by (rule clean_from_trim) simp

lemma clean_idem [simp]: "clean (clean s) = clean s"
proof -
  have "clean (clean s) = clean_from (clean s)" by (simp add: clean_def [of "clean s"])
  also have "\<dots> = clean s" unfolding clean_def [of s] by (rule clean_from_fixed) (rule clean_from_done)
  finally show ?thesis .
qed

lemma ClassifySentinel_clean [simp]: "ClassifySentinel (clean s) = ClassifySentinel s"
  by (simp add: ClassifySentinel_def)

lemma LooksLikeCommit_clean [simp]: "LooksLikeCommit (clean s) = LooksLikeCommit s"
  by (simp add: LooksLikeCommit_def)

lemma unusable_clean [simp]: "unusable (clean s) = unusable s"
  by (simp add: unusable_def)

lemma unusable_None: "unusable s = None \<longleftrightarrow>
    ClassifySentinel s \<in> {NotSentinel, SentinelZero} \<and> \<not> LooksLikeCommit s"
  by (cases "ClassifySentinel s") (auto simp: unusable_def Let_def)

lemma clean_plain:
  assumes "s \<noteq> []" "\<not> is_space (hd s)" "\<not> is_space (last s)" "hd s \<notin> {CHR 0x22, CHR 0x27}"
  shows "clean s = s"
proof -
  have "trim_space s = s" using assms(1-3) by (rule trim_space_plain)
  moreover have "\<not> paired_quotes s" using assms(4) by (auto simp: paired_quotes_def)
  ultimately show ?thesis by (simp add: clean_def clean_from.simps [of s])
qed

end
