(* ===== verification/Scheme_Table.thy ===== *)
theory Scheme_Table
  imports Sentinel
begin

text \<open>
  \<open>internal/version/scheme.go\<close>: from the range type and the ecosystem an advisory declares to the
  ordering its versions are compared under. A Go map read for presence is \<open>map_of\<close> on the list of its
  entries. The lemmas say which declaration wins and that the qualifier of an ecosystem only
  matters for a re-issuer or an unknown name.
\<close>

definition rangeTypeSchemes :: "(string \<times> Scheme) list" where
  "rangeTypeSchemes =
    [(''SEMVER'', Semver), (''NPM'', Semver), (''NODE'', Semver), (''CARGO'', Semver),
    (''NUGET'', Semver), (''DEBIAN'', Debian), (''DEB'', Debian), (''DPKG'', Debian),
    (''RPM'', RPM), (''NEVRA'', RPM), (''EVR'', RPM), (''APK'', Alpine), (''ALPINE'', Alpine),
    (''MAVEN'', Maven), (''PYTHON'', Python), (''PYPI'', Python), (''PEP440'', Python),
    (''GO'', Go), (''GOLANG'', Go), (''GIT'', Opaque), (''ORIGINAL_COMMIT_FOR_FIX'', Opaque),
    (''COMMIT'', Opaque), (''SHA'', Opaque), (''REVISION_ID'', Opaque)]"

definition ecosystemSchemes :: "(string \<times> Scheme) list" where
  "ecosystemSchemes =
    [(''debian'', Debian), (''ubuntu'', Debian), (''opam'', Debian), (''red hat'', RPM),
    (''redhat'', RPM), (''rhel'', RPM), (''rocky linux'', RPM), (''rocky'', RPM),
    (''almalinux'', RPM), (''alma'', RPM), (''suse'', RPM), (''opensuse'', RPM), (''sles'', RPM),
    (''mageia'', RPM), (''openeuler'', RPM), (''azure linux'', RPM), (''mariner'', RPM),
    (''cbl-mariner'', RPM), (''oracle linux'', RPM), (''centos'', RPM), (''fedora'', RPM),
    (''amazon linux'', RPM), (''photon'', RPM), (''openanolis'', RPM), (''anolis'', RPM),
    (''alpine'', Alpine), (''wolfi'', Alpine), (''chainguard'', Alpine), (''alpaquita'', Alpine),
    (''bellsoft hardened containers'', Alpine), (''npm'', Semver), (''crates.io'', Semver),
    (''cratesio'', Semver), (''rust'', Semver), (''nuget'', Semver), (''pub'', Semver),
    (''hex'', Semver), (''erlang'', Semver), (''swifturl'', Semver), (''swift'', Semver),
    (''github actions'', Semver), (''actions'', Semver), (''julia'', Semver),
    (''vscode'', Semver), (''packagist'', Semver), (''composer'', Semver), (''rubygems'', Semver),
    (''linux'', Semver), (''maven'', Maven), (''pypi'', Python), (''pip'', Python), (''go'', Go),
    (''golang'', Go), (''cran'', Generic), (''hackage'', Generic), (''ghc'', Generic),
    (''android'', Generic), (''gsd'', Generic), (''uvi'', Generic), (''bitnami'', Generic),
    (''minimos'', Generic), (''echo'', Generic), (''root'', Generic), (''cleanstart'', Generic),
    (''tuxcare'', Generic), (''git'', Opaque), (''oss-fuzz'', Opaque)]"

definition reissuers :: "string list" where
  "reissuers = [''tuxcare'', ''root'', ''bitnami'', ''minimos'', ''echo'', ''cleanstart'']"

text \<open>\<open>strings.ToLower(strings.TrimSpace(s))\<close>, the form every table of the code is keyed by.\<close>

definition fold_key :: "string \<Rightarrow> string" where
  "fold_key s = to_lower (trim_space s)"

definition ecosystemKey :: "string \<Rightarrow> string" where
  "ecosystemKey ecosystem =
     (let (head, rest, _) = cut CHR '':'' ecosystem;
          key = fold_key head
      in if map_of ecosystemSchemes key \<noteq> None \<and> key \<notin> set reissuers then key
         else
           let (first, _, _) = cut CHR '':'' rest;
               alt = fold_key first
           in if alt \<noteq> [] \<and> map_of ecosystemSchemes alt \<noteq> None then alt else key)"

definition SchemeFor :: "string \<Rightarrow> string \<Rightarrow> Scheme" where
  "SchemeFor rangeType ecosystem =
     (case map_of rangeTypeSchemes (to_upper (trim_space rangeType)) of
        Some s \<Rightarrow> s
      | None \<Rightarrow>
          (case map_of ecosystemSchemes (ecosystemKey ecosystem) of
             Some s \<Rightarrow> s
           | None \<Rightarrow> Generic))"

definition purlTypeEcosystems :: "(string \<times> string) list" where
  "purlTypeEcosystems =
    [(''deb'', ''Debian''), (''rpm'', ''Red Hat''), (''apk'', ''Alpine''), (''npm'', ''npm''),
    (''maven'', ''Maven''), (''pypi'', ''PyPI''), (''golang'', ''Go''), (''gem'', ''RubyGems''),
    (''cargo'', ''crates.io''), (''nuget'', ''NuGet''), (''composer'', ''Packagist''),
    (''hex'', ''Hex''), (''pub'', ''Pub''), (''cran'', ''CRAN''), (''swift'', ''SwiftURL''),
    (''hackage'', ''Hackage''), (''github'', ''GitHub Actions'')]"

definition EcosystemForPURLType :: "string \<Rightarrow> string" where
  "EcosystemForPURLType purlType =
     (case map_of purlTypeEcosystems (fold_key purlType) of Some e \<Rightarrow> e | None \<Rightarrow> [])"

section \<open>Lemmas\<close>

lemma SchemeFor_type_wins:
  "map_of rangeTypeSchemes (to_upper (trim_space t)) = Some s \<Longrightarrow> SchemeFor t e = s"
  by (simp add: SchemeFor_def)

lemma SchemeFor_silent_type:
  "map_of rangeTypeSchemes (to_upper (trim_space t)) = None \<Longrightarrow>
     SchemeFor t e = (case map_of ecosystemSchemes (ecosystemKey e) of Some s \<Rightarrow> s | None \<Rightarrow> Generic)"
  by (simp add: SchemeFor_def)

lemma cut_append: "c \<notin> set h \<Longrightarrow> cut c (h @ c # t) = (h, t, True)"
  by (simp add: cut_def split_first_append)

lemma cut_absent: "c \<notin> set h \<Longrightarrow> cut c h = (h, [], False)"
  by (simp add: cut_def)

text \<open>A qualifier never overrides a known ecosystem that is not a re-issuer.\<close>

lemma ecosystemKey_qualified:
  assumes "CHR '':'' \<notin> set head" "map_of ecosystemSchemes (fold_key head) \<noteq> None"
    and "fold_key head \<notin> set reissuers"
  shows "ecosystemKey (head @ CHR '':'' # q) = fold_key head"
  using assms by (simp add: ecosystemKey_def cut_append)

text \<open>A re-issuer is overridden by the ecosystem it names, if that is a known one.\<close>

lemma ecosystemKey_reissued:
  assumes "CHR '':'' \<notin> set head" "CHR '':'' \<notin> set owner" "fold_key head \<in> set reissuers"
    and "map_of ecosystemSchemes (fold_key owner) \<noteq> None"
  shows "ecosystemKey (head @ CHR '':'' # owner) = fold_key owner"
proof -
  have "fold_key owner \<noteq> []" using assms(4) by (auto simp: ecosystemSchemes_def)
  then show ?thesis using assms by (simp add: ecosystemKey_def cut_append cut_absent)
qed

text \<open>Every ecosystem a package URL type implies is one the scheme table knows.\<close>

lemma EcosystemForPURLType_known:
  "EcosystemForPURLType t \<noteq> [] \<Longrightarrow>
     map_of ecosystemSchemes (ecosystemKey (EcosystemForPURLType t)) \<noteq> None"
proof -
  assume "EcosystemForPURLType t \<noteq> []"
  then have "EcosystemForPURLType t \<in> set (map snd purlTypeEcosystems)"
    by (auto simp: EcosystemForPURLType_def dest!: map_of_SomeD split: option.splits intro!: image_eqI [of _ snd])
  moreover have "list_all (\<lambda>e. map_of ecosystemSchemes (ecosystemKey e) \<noteq> None) (map snd purlTypeEcosystems)"
    by code_simp
  ultimately show ?thesis unfolding list_all_iff by blast
qed

end
