(* ===== verification/Ecosystem.thy ===== *)
theory Ecosystem
  imports Purl Scheme_Table
begin

text \<open>
  \<open>internal/match/ecosystem.go\<close> and the table \<open>ecosystemOrdering\<close> of \<open>internal/match/versions.go\<close>: the
  spellings of an ecosystem folded onto one family token, the release that qualifies it, and the name
  rules of a family. A Go map of type \<open>map[string]bool\<close> is the list of its keys. Shown: folding is
  idempotent, the published name of a family folds back to it, and every family with an ordering of
  its own resolves to an ordering that is one.
\<close>

definition ecosystemAliases :: "(string \<times> string) list" where
  "ecosystemAliases =
    [(''npm'', ''npm''), (''pypi'', ''pypi''), (''maven'', ''maven''), (''go'', ''go''),
     (''golang'', ''go''), (''cargo'', ''cargo''), (''crates.io'', ''cargo''),
     (''crates'', ''cargo''), (''gem'', ''rubygems''), (''rubygems'', ''rubygems''),
     (''nuget'', ''nuget''), (''composer'', ''packagist''), (''packagist'', ''packagist''),
     (''hex'', ''hex''), (''pub'', ''pub''), (''cran'', ''cran''), (''hackage'', ''hackage''),
     (''swift'', ''swifturl''), (''swifturl'', ''swifturl''), (''opam'', ''opam''),
     (''julia'', ''julia''), (''githubactions'', ''github actions''),
     (''github actions'', ''github actions''), (''github'', ''github actions''),
     (''bitnami'', ''bitnami''), (''debian'', ''debian''), (''ubuntu'', ''ubuntu''),
     (''linuxmint'', ''ubuntu''), (''linux mint'', ''ubuntu''), (''raspbian'', ''debian''),
     (''red hat'', ''redhat''), (''redhat'', ''redhat''), (''rhel'', ''redhat''),
     (''fedora'', ''fedora''), (''centos'', ''centos''), (''rocky linux'', ''rocky''),
     (''rocky'', ''rocky''), (''almalinux'', ''almalinux''), (''alma'', ''almalinux''),
     (''suse'', ''suse''), (''sles'', ''suse''), (''opensuse'', ''opensuse''),
     (''opensuse-leap'', ''opensuse''), (''opensuse leap'', ''opensuse''),
     (''opensuse tumbleweed'', ''opensuse''), (''azure linux'', ''azurelinux''),
     (''azurelinux'', ''azurelinux''), (''mariner'', ''azurelinux''),
     (''cbl-mariner'', ''azurelinux''), (''openeuler'', ''openeuler''), (''mageia'', ''mageia''),
     (''photon os'', ''photon''), (''photon'', ''photon''), (''alpine'', ''alpine''),
     (''wolfi'', ''wolfi''), (''chainguard'', ''chainguard''), (''minimos'', ''minimos''),
     (''alpaquita'', ''alpaquita''), (''echo'', ''echo''), (''root'', ''root''),
     (''cleanstart'', ''cleanstart''), (''bellsoft hardened containers'', ''bellsoft''),
     (''linux'', ''linux''), (''oss-fuzz'', ''oss-fuzz''), (''android'', ''android''),
     (''gsd'', ''gsd''), (''uvi'', ''uvi''), (''vscode'', ''vscode''), (''maven.org'', ''maven'')]"

definition distroFamilies :: "string list" where
  "distroFamilies =
    [''debian'', ''ubuntu'', ''redhat'', ''fedora'', ''centos'', ''rocky'', ''almalinux'',
     ''suse'', ''opensuse'', ''azurelinux'', ''openeuler'', ''mageia'', ''photon'', ''alpine'',
     ''wolfi'', ''chainguard'', ''minimos'', ''alpaquita'', ''echo'', ''root'', ''cleanstart'',
     ''bellsoft'']"

definition losslessEcosystems :: "string list" where
  "losslessEcosystems =
    [''npm'', ''pypi'', ''maven'', ''go'', ''cargo'', ''rubygems'', ''nuget'', ''packagist'',
     ''hex'', ''pub'', ''cran'', ''hackage'', ''swifturl'', ''opam'', ''julia'',
     ''github actions'', ''debian'', ''ubuntu'', ''redhat'', ''fedora'', ''centos'', ''rocky'',
     ''almalinux'', ''suse'', ''opensuse'', ''azurelinux'', ''openeuler'', ''mageia'', ''photon'',
     ''alpine'', ''wolfi'', ''chainguard'', ''minimos'', ''alpaquita'', ''echo'', ''root'',
     ''cleanstart'', ''bellsoft'']"

definition osvNames :: "(string \<times> string) list" where
  "osvNames =
    [(''npm'', ''npm''), (''pypi'', ''PyPI''), (''maven'', ''Maven''), (''go'', ''Go''),
     (''cargo'', ''crates.io''), (''rubygems'', ''RubyGems''), (''nuget'', ''NuGet''),
     (''packagist'', ''Packagist''), (''hex'', ''Hex''), (''pub'', ''Pub''), (''cran'', ''CRAN''),
     (''hackage'', ''Hackage''), (''swifturl'', ''SwiftURL''), (''opam'', ''opam''),
     (''julia'', ''Julia''), (''github actions'', ''GitHub Actions''), (''bitnami'', ''Bitnami''),
     (''debian'', ''Debian''), (''ubuntu'', ''Ubuntu''), (''redhat'', ''Red Hat''),
     (''fedora'', ''Fedora''), (''centos'', ''CentOS''), (''rocky'', ''Rocky Linux''),
     (''almalinux'', ''AlmaLinux''), (''suse'', ''SUSE''), (''opensuse'', ''openSUSE''),
     (''azurelinux'', ''Azure Linux''), (''openeuler'', ''openEuler''), (''mageia'', ''Mageia''),
     (''photon'', ''Photon''), (''alpine'', ''Alpine''), (''wolfi'', ''Wolfi''),
     (''chainguard'', ''Chainguard''), (''minimos'', ''MinimOS''), (''alpaquita'', ''Alpaquita''),
     (''echo'', ''Echo''), (''root'', ''Root''), (''cleanstart'', ''CleanStart''),
     (''bellsoft'', ''BellSoft Hardened Containers''), (''linux'', ''Linux''),
     (''android'', ''Android''), (''oss-fuzz'', ''OSS-Fuzz''), (''gsd'', ''GSD''),
     (''uvi'', ''UVI''), (''vscode'', ''VSCode'')]"

definition ecosystemOrdering :: "string list" where
  "ecosystemOrdering =
    [''debian'', ''ubuntu'', ''redhat'', ''fedora'', ''centos'', ''rocky'', ''almalinux'',
     ''suse'', ''opensuse'', ''azurelinux'', ''openeuler'', ''mageia'', ''photon'', ''alpine'',
     ''wolfi'', ''chainguard'', ''alpaquita'', ''bellsoft'', ''npm'', ''pypi'', ''maven'', ''go'',
     ''cargo'', ''rubygems'', ''nuget'', ''packagist'', ''hex'', ''pub'', ''cran'', ''hackage'',
     ''swifturl'', ''opam'', ''julia'', ''github actions'']"

section \<open>Family and release\<close>

definition ownReleaseNumbering :: "string \<Rightarrow> bool" where
  "ownReleaseNumbering i \<longleftrightarrow> fold_key i = ''linuxmint'' \<or> fold_key i = ''linux mint''"

definition osvRelease :: "string \<Rightarrow> string \<Rightarrow> string" where
  "osvRelease family release =
     (if release = [] \<or> \<not> isDigit (hd release) then release
      else
        let parts = split CHR ''.'' release in
        if family \<in> {''debian'', ''rocky'', ''almalinux'', ''redhat''} then hd parts
        else if family \<in> {''alpine'', ''ubuntu''} \<and> 2 < length parts then hd parts @ ''.'' @ hd (tl parts)
        else release)"

definition foldEcosystem :: "string \<Rightarrow> string" where
  "foldEcosystem s0 =
     (let s = fold_key s0 in
      if s = [] then []
      else (case map_of ecosystemAliases s of Some canon \<Rightarrow> canon | None \<Rightarrow> s))"

definition normalizeRelease :: "string \<Rightarrow> string" where
  "normalizeRelease s0 =
     (let s = fold_key s0 in
      if 1 < length s \<and> hd s = CHR ''v'' \<and> isDigit (hd (tl s)) then tl s else s)"

definition splitEcosystem :: "string \<Rightarrow> string \<times> string" where
  "splitEcosystem s0 =
     (let s = trim_space s0 in
      if s = [] then ([], [])
      else
        let (head, rest, _) = cut CHR '':'' s;
            family = foldEcosystem head;
            (first, _, _) = cut CHR '':'' rest;
            release = normalizeRelease (if ownReleaseNumbering head then [] else first)
        in (family,
            if family = ''redhat'' then
              (if has_prefix release ''rhel_'' then trim_prefix release ''rhel_''
               else if has_prefix release ''rhel-'' then trim_prefix release ''rhel-''
               else release)
            else release))"

definition purlEcosystem :: "purl \<Rightarrow> string \<times> string" where
  "purlEcosystem p =
     (let (family, own1) =
            (if p_Type p \<in> {''deb'', ''rpm'', ''apk'', ''alpm''}
             then (foldEcosystem (p_Namespace p), ownReleaseNumbering (p_Namespace p))
             else (foldEcosystem (p_Type p), False));
          (release, own2) =
            (if p_Distro p \<noteq> [] then
               (let (rest, own) =
                      (case split_last CHR ''-'' (p_Distro p) of
                         None \<Rightarrow> (p_Distro p, own1)
                       | Some (h, t) \<Rightarrow>
                           (let fam = foldEcosystem h in
                            if fam \<noteq> [] \<and> fam = family then (t, own1 \<or> ownReleaseNumbering h)
                            else (p_Distro p, own1)))
                in (osvRelease family (normalizeRelease rest), own))
             else ([], own1))
      in (family, if own2 then [] else release))"

section \<open>Names\<close>

definition lowercase_families :: "string list" where
  "lowercase_families =
    [''npm'', ''packagist'', ''hex'', ''pub'', ''opam'', ''nuget'', ''github actions'',
     ''bitnami'', ''debian'', ''ubuntu'', ''redhat'', ''fedora'', ''centos'', ''rocky'',
     ''almalinux'', ''suse'', ''opensuse'', ''azurelinux'', ''openeuler'', ''mageia'', ''photon'',
     ''alpine'', ''wolfi'', ''chainguard'', ''minimos'', ''alpaquita'', ''echo'', ''root'',
     ''cleanstart'', ''bellsoft'']"

definition ecosystemName :: "string \<Rightarrow> string \<Rightarrow> string" where
  "ecosystemName family name0 =
     (let name = trim_space name0 in
      if family = ''pypi'' then pep503 name
      else if family \<in> set lowercase_families then to_lower name
      else name)"

definition osvEcosystemName :: "string \<Rightarrow> string" where
  "osvEcosystemName family = (case map_of osvNames family of Some name \<Rightarrow> name | None \<Rightarrow> family)"

section \<open>Lemmas\<close>

lemma fold_key_idem [simp]: "fold_key (fold_key s) = fold_key s"
  by (simp add: fold_key_def trim_space_lower)

lemma map_of_snd: "map_of xs k = Some v \<Longrightarrow> v \<in> set (map snd xs)"
  by (auto dest!: map_of_SomeD intro: rev_image_eqI)

lemma alias_tokens:
  "list_all (\<lambda>canon. foldEcosystem canon = canon) (map snd ecosystemAliases)"
  by code_simp

lemma foldEcosystem_idem: "foldEcosystem (foldEcosystem s) = foldEcosystem s"
proof (cases "map_of ecosystemAliases (fold_key s)")
  case None
  then have "foldEcosystem s = fold_key s" by (simp add: foldEcosystem_def Let_def)
  then show ?thesis by (simp add: foldEcosystem_def)
next
  case (Some canon)
  then have "foldEcosystem s = canon \<or> foldEcosystem s = []" by (simp add: foldEcosystem_def Let_def)
  moreover have "foldEcosystem canon = canon" using map_of_snd [OF Some] alias_tokens unfolding list_all_iff by blast
  ultimately show ?thesis by (auto simp: foldEcosystem_def [of "[]"] fold_key_def)
qed

lemma osvNames_fold: "list_all (\<lambda>(f, name). splitEcosystem name = (f, [])) osvNames"
  by code_simp

lemma osvEcosystemName_fold:
  assumes "map_of osvNames f \<noteq> None"
  shows "splitEcosystem (osvEcosystemName f) = (f, [])"
proof -
  obtain name where n: "map_of osvNames f = Some name" using assms by blast
  then have "(f, name) \<in> set osvNames" by (rule map_of_SomeD)
  then have "splitEcosystem name = (f, [])" using osvNames_fold unfolding list_all_iff by blast
  then show ?thesis by (simp add: osvEcosystemName_def n)
qed

lemma ecosystemOrdering_schemes:
  "list_all (\<lambda>f. map_of osvNames f \<noteq> None
      \<and> map_of ecosystemSchemes (ecosystemKey (osvEcosystemName f)) \<noteq> None
      \<and> Ordered (SchemeFor [] (osvEcosystemName f))) ecosystemOrdering"
  by code_simp

lemma distro_lossless: "set distroFamilies \<subseteq> set losslessEcosystems"
proof -
  have "list_all (\<lambda>f. f \<in> set losslessEcosystems) distroFamilies" by code_simp
  then show ?thesis unfolding list_all_iff by blast
qed

end
