(* ===== verification/Regexp.thy ===== *)
theory Regexp
  imports Prelude
begin

text \<open>
  The fragment of Go's \<open>regexp\<close> package that \<open>internal/version/python.go\<close> uses: an anchored
  expression with named groups, matched leftmost first. \<open>rmatch\<close> lists every way to match a prefix in
  the order of preference (the first alternative first, a repetition as long as it can be), which is
  the order Go's documentation promises for submatches; \<open>find_submatch\<close> takes the first that reaches
  the end of the text. The theory shows that \<open>rmatch\<close> lists exactly the matches of the declarative
  relation \<open>rmatches\<close>, and what a captured group can hold.
\<close>

datatype regexp =
    Cls "char \<Rightarrow> bool"
  | Eps
  | Seq regexp regexp
  | Alt regexp regexp
  | Opt regexp
  | Star regexp
  | Group string regexp

type_synonym captures = "(string \<times> string) list"

definition Plus :: "regexp \<Rightarrow> regexp" where
  "Plus r = Seq r (Star r)"

definition Seqs :: "regexp list \<Rightarrow> regexp" where
  "Seqs rs = foldr Seq rs Eps"

text \<open>A literal under the flag \<open>(?i)\<close>, and a choice of literals.\<close>

definition Lit :: "string \<Rightarrow> regexp" where
  "Lit w = Seqs (map (\<lambda>c. Cls (\<lambda>d. lower_char d = c)) w)"

fun Alts :: "string list \<Rightarrow> regexp" where
  "Alts [] = Cls (\<lambda>_. False)"
| "Alts [w] = Lit w"
| "Alts (w # ws) = Alt (Lit w) (Alts ws)"

text \<open>A greedy repetition: every round consumes a byte, so the length of the text bounds the rounds.\<close>

fun iterate :: "(string \<Rightarrow> captures \<Rightarrow> (string \<times> captures) list) \<Rightarrow> nat \<Rightarrow> string \<Rightarrow> captures
    \<Rightarrow> (string \<times> captures) list" where
  "iterate m 0 s e = [(s, e)]"
| "iterate m (Suc n) s e =
     concat (map (\<lambda>(t, f). if length t < length s then iterate m n t f else []) (m s e)) @ [(s, e)]"

primrec rmatch :: "regexp \<Rightarrow> string \<Rightarrow> captures \<Rightarrow> (string \<times> captures) list" where
  "rmatch (Cls p) s e = (case s of [] \<Rightarrow> [] | c # t \<Rightarrow> if p c then [(t, e)] else [])"
| "rmatch Eps s e = [(s, e)]"
| "rmatch (Seq a b) s e = concat (map (\<lambda>(t, f). rmatch b t f) (rmatch a s e))"
| "rmatch (Alt a b) s e = rmatch a s e @ rmatch b s e"
| "rmatch (Opt a) s e = rmatch a s e @ [(s, e)]"
| "rmatch (Star a) s e = iterate (rmatch a) (length s) s e"
| "rmatch (Group n a) s e =
     map (\<lambda>(t, f). (t, (n, take (length s - length t) s) # f)) (rmatch a s e)"

definition find_submatch :: "regexp \<Rightarrow> string \<Rightarrow> captures option" where
  "find_submatch r s = map_option snd (List.find (\<lambda>(t, e). t = []) (rmatch r s []))"

text \<open>The text of a named group, empty when the group took no part in the match.\<close>

definition group_text :: "captures \<Rightarrow> string \<Rightarrow> string" where
  "group_text e n = (case map_of e n of None \<Rightarrow> [] | Some x \<Rightarrow> x)"

section \<open>The declarative reading\<close>

inductive rmatches :: "regexp \<Rightarrow> string \<Rightarrow> captures \<Rightarrow> bool" where
  cls: "p c \<Longrightarrow> rmatches (Cls p) [c] []"
| eps: "rmatches Eps [] []"
| seq: "rmatches a v g \<Longrightarrow> rmatches b w h \<Longrightarrow> rmatches (Seq a b) (v @ w) (h @ g)"
| alt1: "rmatches a v g \<Longrightarrow> rmatches (Alt a b) v g"
| alt2: "rmatches b v g \<Longrightarrow> rmatches (Alt a b) v g"
| opt1: "rmatches a v g \<Longrightarrow> rmatches (Opt a) v g"
| opt2: "rmatches (Opt a) [] []"
| star1: "rmatches (Star a) [] []"
| star2: "rmatches a v g \<Longrightarrow> v \<noteq> [] \<Longrightarrow> rmatches (Star a) w h \<Longrightarrow> rmatches (Star a) (v @ w) (h @ g)"
| group: "rmatches a v g \<Longrightarrow> rmatches (Group n a) v ((n, v) # g)"

inductive_simps rmatches_simps [simp]:
  "rmatches (Cls p) w g" "rmatches Eps w g" "rmatches (Alt a b) w g" "rmatches (Opt a) w g"
  "rmatches (Group n a) w g"

inductive_simps rmatches_Seq: "rmatches (Seq a b) w g"

inductive_cases rmatches_StarE: "rmatches (Star a) w g"

definition lists_matches :: "(string \<Rightarrow> captures \<Rightarrow> (string \<times> captures) list) \<Rightarrow> regexp \<Rightarrow> bool" where
  "lists_matches m r \<longleftrightarrow>
     (\<forall>s e t f. (t, f) \<in> set (m s e) \<longleftrightarrow> (\<exists>w g. s = w @ t \<and> f = g @ e \<and> rmatches r w g))"

lemma iterate_sound:
  assumes "lists_matches m r"
  shows "(t, f) \<in> set (iterate m n s e) \<Longrightarrow> \<exists>w g. s = w @ t \<and> f = g @ e \<and> rmatches (Star r) w g"
proof (induction n arbitrary: s e)
  case 0
  then show ?case using star1 [of r] by auto
next
  case (Suc n)
  from Suc.prems consider "t = s \<and> f = e"
    | t' f' where "(t', f') \<in> set (m s e)" "length t' < length s" "(t, f) \<in> set (iterate m n t' f')"
    by (auto split: if_splits)
  then show ?case
  proof cases
    case 1
    then show ?thesis using star1 [of r] by auto
  next
    case 2
    obtain v g where v: "s = v @ t'" "f' = g @ e" "rmatches r v g"
      using 2(1) assms by (auto simp: lists_matches_def)
    obtain w h where w: "t' = w @ t" "f = h @ f'" "rmatches (Star r) w h" using Suc.IH [OF 2(3)] by blast
    have "v \<noteq> []" using 2(2) v(1) by auto
    then show ?thesis using star2 [OF v(3) _ w(3)] v w by auto
  qed
qed

lemma iterate_complete:
  assumes "lists_matches m r"
  shows "rmatches R w g \<Longrightarrow> R = Star r \<Longrightarrow> length w \<le> n \<Longrightarrow> (t, g @ e) \<in> set (iterate m n (w @ t) e)"
proof (induction arbitrary: n e rule: rmatches.induct)
  case (star1 a)
  then show ?case by (cases n) auto
next
  case (star2 a v g w h)
  then obtain k where n: "n = Suc k" by (cases n) auto
  have "(w @ t, g @ e) \<in> set (m (v @ w @ t) e)" using star2 assms by (auto simp: lists_matches_def)
  moreover have "(t, h @ g @ e) \<in> set (iterate m k (w @ t) (g @ e))"
    using star2 n by (intro star2.IH(2)) (auto simp: neq_Nil_conv)
  ultimately show ?case using star2(2) n by (auto simp: Bex_def intro!: exI [of _ "w @ t"] exI [of _ "g @ e"])
qed auto

lemma rmatch_lists_matches: "lists_matches (rmatch r) r"
proof (induction r)
  case (Cls p)
  show ?case by (auto simp: lists_matches_def split: list.splits)
next
  case Eps
  show ?case by (auto simp: lists_matches_def)
next
  case (Seq a b)
  then show ?case unfolding lists_matches_def rmatches_Seq by (auto simp: Bex_def) metis+
next
  case (Alt a b)
  then show ?case unfolding lists_matches_def by auto
next
  case (Opt a)
  then show ?case unfolding lists_matches_def by auto
next
  case (Star a)
  show ?case unfolding lists_matches_def rmatch.simps
  proof (intro allI iffI)
    fix s e t f
    assume "(t, f) \<in> set (iterate (rmatch a) (length s) s e)"
    then show "\<exists>w g. s = w @ t \<and> f = g @ e \<and> rmatches (Star a) w g" by (rule iterate_sound [OF Star.IH])
  next
    fix s e t f
    assume "\<exists>w g. s = w @ t \<and> f = g @ e \<and> rmatches (Star a) w g"
    then obtain w g where w: "s = w @ t" "f = g @ e" "rmatches (Star a) w g" by blast
    show "(t, f) \<in> set (iterate (rmatch a) (length s) s e)"
      using iterate_complete [OF Star.IH w(3) refl, of "length s" t e] w by simp
  qed
next
  case (Group n a)
  then show ?case unfolding lists_matches_def by (auto simp: image_iff Bex_def)
qed

lemma rmatch_rmatches:
  "(t, f) \<in> set (rmatch r s e) \<longleftrightarrow> (\<exists>w g. s = w @ t \<and> f = g @ e \<and> rmatches r w g)"
  using rmatch_lists_matches [of r] by (simp add: lists_matches_def)

lemma find_submatch_rmatches: "find_submatch r s = Some e \<Longrightarrow> rmatches r s e"
proof -
  assume "find_submatch r s = Some e"
  then obtain t where t: "List.find (\<lambda>(t, e). t = []) (rmatch r s []) = Some (t, e)"
    by (auto simp: find_submatch_def)
  then have "(t, e) \<in> set (rmatch r s [])" "t = []" by (fastforce simp: find_Some_iff in_set_conv_nth)+
  then show ?thesis using rmatch_rmatches [of t e r s "[]"] by simp
qed

lemma find_submatch_None: "find_submatch r s = None \<longleftrightarrow> (\<nexists>e. rmatches r s e)"
  using rmatch_rmatches [of "[]" _ r s "[]"] by (auto simp: find_submatch_def find_None_iff)

section \<open>Literals\<close>

lemma rmatches_Seq_Cls:
  "rmatches (Seq (Cls p) b) w g \<longleftrightarrow> (\<exists>d u. w = d # u \<and> p d \<and> rmatches b u g)"
proof
  assume "rmatches (Seq (Cls p) b) w g"
  then show "\<exists>d u. w = d # u \<and> p d \<and> rmatches b u g" by (auto simp: rmatches_Seq)
next
  assume "\<exists>d u. w = d # u \<and> p d \<and> rmatches b u g"
  then obtain d u where "w = [d] @ u" "g = g @ []" "rmatches (Cls p) [d] []" "rmatches b u g" by auto
  then show "rmatches (Seq (Cls p) b) w g" using seq by metis
qed

lemma Lit_Cons: "Lit (c # x) = Seq (Cls (\<lambda>d. lower_char d = c)) (Lit x)"
  by (simp add: Lit_def Seqs_def)

lemma rmatches_Lit: "rmatches (Lit x) w g \<longleftrightarrow> to_lower w = x \<and> g = []"
proof (induction x arbitrary: w g)
  case Nil
  then show ?case by (simp add: Lit_def Seqs_def to_lower_def)
next
  case (Cons c x)
  then show ?case by (cases w) (auto simp: Lit_Cons rmatches_Seq_Cls)
qed

lemma rmatches_Alts: "ws \<noteq> [] \<Longrightarrow> rmatches (Alts ws) w g \<longleftrightarrow> to_lower w \<in> set ws \<and> g = []"
  by (induction ws rule: Alts.induct) (auto simp: rmatches_Lit)

section \<open>What a group can hold\<close>

fun groups :: "regexp \<Rightarrow> (string \<times> regexp) list" where
  "groups (Seq a b) = groups a @ groups b"
| "groups (Alt a b) = groups a @ groups b"
| "groups (Opt a) = groups a"
| "groups (Star a) = groups a"
| "groups (Group n a) = (n, a) # groups a"
| "groups _ = []"

lemma group_matches:
  "rmatches r w g \<Longrightarrow> (n, x) \<in> set g \<Longrightarrow> \<exists>a h. (n, a) \<in> set (groups r) \<and> rmatches a x h"
  by (induction arbitrary: n x rule: rmatches.induct) (auto, blast+)

text \<open>The groups every match sets.\<close>

fun always :: "string \<Rightarrow> regexp \<Rightarrow> bool" where
  "always n (Seq a b) = (always n a \<or> always n b)"
| "always n (Alt a b) = (always n a \<and> always n b)"
| "always n (Group m a) = (n = m \<or> always n a)"
| "always n _ = False"

lemma always_set: "rmatches r w g \<Longrightarrow> always n r \<Longrightarrow> n \<in> fst ` set g"
  by (induction rule: rmatches.induct) (auto simp: image_Un)

lemma group_text_matches:
  assumes "rmatches r w g" "group_text g n \<noteq> [] \<or> always n r"
  shows "\<exists>a h. (n, a) \<in> set (groups r) \<and> rmatches a (group_text g n) h"
proof -
  have "map_of g n \<noteq> None" using assms(2) always_set [OF assms(1), of n]
    by (cases "map_of g n") (auto simp: group_text_def map_of_eq_None_iff)
  then obtain x where x: "map_of g n = Some x" by blast
  show ?thesis using group_matches [OF assms(1) map_of_SomeD [OF x]] x by (simp add: group_text_def)
qed

end
