(* ===== verification/Model.thy ===== *)
theory Model
  imports Complex_Main Regexp Tokens "HOL-Library.List_Lexorder"
begin

text \<open>
  \<open>internal/model/model.go\<close>: the product-status vocabulary, the version window, the identifier
  namespaces and the choice of the identifier a merged record is filed under. Go compares strings
  bytewise, which is the lexicographic order of \<open>List_Lexorder\<close> on characters. A score is a
  \<open>float64\<close> in the code; it is only compared with the edges of the bands, so a rational number stands
  for it (a NaN is not modelled).

  The records the code only fills and serialises (\<open>Severity\<close>, \<open>Reference\<close>, \<open>SSVC\<close>, \<open>KEV\<close>, \<open>EPSS\<close>)
  and \<open>ParseTime\<close>, which hands its text to the \<open>time\<close> package, are not modelled.
\<close>

section \<open>Statuses and windows\<close>

datatype Status =
    StatusAffected | StatusNotAffected | StatusFixed | StatusUnderInvestigation | StatusConditional

definition Statuses :: "Status list" where
  "Statuses = [StatusAffected, StatusNotAffected, StatusFixed, StatusUnderInvestigation, StatusConditional]"

definition status_text :: "Status \<Rightarrow> string" where
  "status_text s = (case s of
       StatusAffected \<Rightarrow> ''affected''
     | StatusNotAffected \<Rightarrow> ''not_affected''
     | StatusFixed \<Rightarrow> ''fixed''
     | StatusUnderInvestigation \<Rightarrow> ''under_investigation''
     | StatusConditional \<Rightarrow> ''conditional'')"

text \<open>
  \<open>NormalizeStatus\<close>; the empty string of the code is \<open>None\<close>. The spaces are replaced before the text
  is trimmed, as the code does.
\<close>

definition underscored :: "string \<Rightarrow> string" where
  "underscored s = map (\<lambda>c. if c = CHR '' '' then CHR ''_'' else c) s"

definition NormalizeStatus :: "string \<Rightarrow> Status option" where
  "NormalizeStatus s =
     (let t = to_lower (trim_space (underscored s)) in
      if t \<in> {''affected'', ''known_affected'', ''vulnerable''} then Some StatusAffected
      else if t \<in> {''not_affected'', ''unaffected'', ''known_not_affected'', ''not_vulnerable''}
      then Some StatusNotAffected
      else if t \<in> {''fixed'', ''first_fixed'', ''patched'', ''resolved''} then Some StatusFixed
      else if t \<in> {''under_investigation'', ''investigating'', ''unknown''} then Some StatusUnderInvestigation
      else if t = ''conditional'' then Some StatusConditional
      else None)"

record VersionRange =
  Introduced :: string
  Fixed :: string
  LastAffected :: string
  RangeType :: string
  RangeCPE :: string
  Limit :: string
  Repo :: string

section \<open>Identifiers\<close>

definition re_digit :: regexp where
  "re_digit = Cls isDigit"

definition re_times :: "nat \<Rightarrow> regexp \<Rightarrow> regexp" where
  "re_times n r = Seqs (replicate n r)"

definition ghsa_char :: "char \<Rightarrow> bool" where
  "ghsa_char c \<longleftrightarrow> lower_char c \<in> set ''23456789cfghjmpqrvwx''"

definition cveRe :: regexp where
  "cveRe = Seqs [Lit ''cve-'', re_times 4 re_digit, Lit ''-'', re_times 4 re_digit, Star re_digit]"

definition ghsaRe :: regexp where
  "ghsaRe = Seq (Lit ''ghsa'') (re_times 3 (Seq (Lit ''-'') (re_times 4 (Cls ghsa_char))))"

definition euvdRe :: regexp where
  "euvdRe = Seqs [Lit ''euvd-'', re_times 4 re_digit, Lit ''-'', Plus re_digit]"

definition gcveRe :: regexp where
  "gcveRe = Seqs [Lit ''gcve-'', Plus re_digit, Lit ''-'', re_times 4 re_digit, Lit ''-'', Plus re_digit]"

definition match_string :: "regexp \<Rightarrow> string \<Rightarrow> bool" where
  "match_string r s \<longleftrightarrow> find_submatch r s \<noteq> None"

definition IsCVE :: "string \<Rightarrow> bool" where
  "IsCVE i = match_string cveRe (trim_space i)"

definition IsGHSA :: "string \<Rightarrow> bool" where
  "IsGHSA i = match_string ghsaRe (trim_space i)"

definition IsEUVD :: "string \<Rightarrow> bool" where
  "IsEUVD i = match_string euvdRe (trim_space i)"

definition IsGCVE :: "string \<Rightarrow> bool" where
  "IsGCVE i = match_string gcveRe (trim_space i)"

definition NormalizeID :: "string \<Rightarrow> string" where
  "NormalizeID id0 =
     (let i = trim_space id0; upper = to_upper i in
      if i = [] then []
      else if match_string cveRe i \<or> match_string euvdRe i \<or> match_string gcveRe i then upper
      else if match_string ghsaRe i then ''GHSA-'' @ to_lower (trim_prefix upper ''GHSA-'')
      else i)"

definition IdentifierRank :: "string \<Rightarrow> int" where
  "IdentifierRank i =
     (if IsCVE i then 0 else if IsGHSA i then 1 else if IsEUVD i then 2 else if IsGCVE i then 3 else 4)"

text \<open>The loop of \<open>PickCanonicalID\<close> over \<open>(best, bestRank)\<close>.\<close>

definition pick_step :: "string \<Rightarrow> string \<times> int \<Rightarrow> string \<times> int" where
  "pick_step raw st =
     (case st of (best, bestRank) \<Rightarrow>
        let i = NormalizeID raw; r = IdentifierRank i in
        if i = [] then st
        else if r < bestRank \<or> (r = bestRank \<and> i < best) then (i, r)
        else st)"

definition PickCanonicalID :: "string list \<Rightarrow> string" where
  "PickCanonicalID ids = fst (fold pick_step ids ([], 2 ^ 30))"

text \<open>The loop that keeps what it has not seen, in order: \<open>seen\<close> and \<open>out\<close> hold the same strings.\<close>

definition keep_new :: "string list \<Rightarrow> string list" where
  "keep_new xs = fold (\<lambda>x out. if x = [] \<or> x \<in> set out then out else out @ [x]) xs []"

definition AllIdentifiers :: "string \<Rightarrow> string list \<Rightarrow> string list" where
  "AllIdentifiers vid aliases = sort (keep_new (map NormalizeID (vid # aliases)))"

definition DedupeStrings :: "string list \<Rightarrow> string list" where
  "DedupeStrings xs = sort (keep_new (map trim_space xs))"

section \<open>Ratings\<close>

definition RatingFromScore :: "rat \<Rightarrow> string" where
  "RatingFromScore score =
     (if score \<le> 0 then ''NONE'' else if score < 4 then ''LOW'' else if score < 7 then ''MEDIUM''
      else if score < 9 then ''HIGH'' else ''CRITICAL'')"

definition RatingFromScoreV2 :: "rat \<Rightarrow> string" where
  "RatingFromScoreV2 score =
     (if score \<le> 0 then ''NONE'' else if score < 4 then ''LOW'' else if score < 7 then ''MEDIUM''
      else ''HIGH'')"

definition CVSSTypeFromVector :: "string \<Rightarrow> string" where
  "CVSSTypeFromVector vector =
     (if has_prefix vector ''CVSS:4.0'' then ''CVSS_V4_0''
      else if has_prefix vector ''CVSS:3.1'' then ''CVSS_V3_1''
      else if has_prefix vector ''CVSS:3.0'' then ''CVSS_V3_0''
      else if vector \<noteq> [] \<and> has_prefix vector ''AV:'' then ''CVSS_V2''
      else ''OTHER'')"

section \<open>Lemmas on statuses\<close>

lemma NormalizeStatus_text: "NormalizeStatus (status_text s) = Some s"
  by (cases s; simp only:; code_simp)

lemma Statuses_complete: "set Statuses = UNIV" "distinct Statuses"
  by (auto simp: Statuses_def) (metis Status.exhaust)

text \<open>A space in front of a status is replaced, not trimmed, so the status is not recognised.\<close>

lemma trim_space_leading_underscore: "hd (trim_space (CHR ''_'' # s)) = CHR ''_'' \<and> trim_space (CHR ''_'' # s) \<noteq> []"
proof -
  have "trim_left (CHR ''_'' # s) = CHR ''_'' # s" by (simp add: trim_left_def is_space_def less_eq_char_def)
  moreover have "dropWhile is_space (rev s @ [CHR ''_'']) = dropWhile is_space (rev s) @ [CHR ''_'']"
    by (rule dropWhile_keep_last) (simp add: is_space_def less_eq_char_def)
  ultimately show ?thesis by (simp add: trim_space_def trim_right_def)
qed

lemma NormalizeStatus_leading_space: "NormalizeStatus (CHR '' '' # s) = None"
proof -
  obtain r where "trim_space (CHR ''_'' # underscored s) = CHR ''_'' # r"
    using trim_space_leading_underscore [of "underscored s"] by (metis list.collapse)
  then have "\<exists>r. to_lower (trim_space (underscored (CHR '' '' # s))) = CHR ''_'' # r"
    by (simp add: underscored_def lower_char_def ascii_upper_def less_eq_char_def)
  then show ?thesis by (auto simp: NormalizeStatus_def Let_def)
qed

section \<open>Lemmas on identifiers\<close>

text \<open>The expressions of the identifiers do not see case.\<close>

fun case_blind :: "regexp \<Rightarrow> bool" where
  "case_blind (Cls p) = (\<forall>c. p (upper_char c) = p c \<and> p (lower_char c) = p c)"
| "case_blind Eps = True"
| "case_blind (Seq a b) = (case_blind a \<and> case_blind b)"
| "case_blind (Alt a b) = (case_blind a \<and> case_blind b)"
| "case_blind (Opt a) = case_blind a"
| "case_blind (Star a) = case_blind a"
| "case_blind (Group n a) = False"

lemma case_blind_rmatches:
  assumes "rmatches r w g" "case_blind r" "to_lower v = to_lower w"
  shows "rmatches r v g"
  using assms
proof (induction arbitrary: v rule: rmatches.induct)
  case (cls p c)
  then obtain d where d: "v = [d]" "lower_char d = lower_char c" by (cases v) auto
  have "p (lower_char d) = p d" "p (lower_char c) = p c" using cls.prems(1) by simp_all
  then show ?case using cls.hyps d by simp
next
  case (seq a x g b y h)
  then obtain x' y' where "v = x' @ y'" "to_lower x' = to_lower x" "to_lower y' = to_lower y"
    by (auto simp: to_lower_def map_eq_append_conv)
  then show ?case using seq by (auto intro: rmatches.seq)
next
  case (star2 a x g y h)
  then obtain x' y' where v: "v = x' @ y'" "to_lower x' = to_lower x" "to_lower y' = to_lower y"
    by (auto simp: to_lower_def map_eq_append_conv)
  then have "x' \<noteq> []" using star2.hyps by (auto simp: to_lower_def)
  then show ?case using star2 v by (auto intro: rmatches.star2)
qed (auto simp: to_lower_def intro: rmatches.intros)

lemma match_string_rmatches: "match_string r s \<longleftrightarrow> (\<exists>g. rmatches r s g)"
  unfolding match_string_def using find_submatch_None [of r s] by auto

lemma match_string_case: "case_blind r \<Longrightarrow> to_lower v = to_lower w \<Longrightarrow> match_string r v = match_string r w"
  unfolding match_string_rmatches using case_blind_rmatches by metis

lemma case_blind_Lit: "to_lower x = x \<Longrightarrow> case_blind (Lit x)"
  by (induction x) (auto simp: Lit_def Seqs_def)

lemma isDigit_case [simp]: "isDigit (upper_char c) = isDigit c" "isDigit (lower_char c) = isDigit c"
  by (auto simp: isDigit_def lower_char_def upper_char_def ascii_upper_def ascii_lower_def less_eq_char_def)

lemma case_blind_ids: "case_blind cveRe" "case_blind ghsaRe" "case_blind euvdRe" "case_blind gcveRe"
proof -
  have l: "case_blind (Lit ''cve-'')" "case_blind (Lit ''-'')" "case_blind (Lit ''ghsa'')"
    "case_blind (Lit ''euvd-'')" "case_blind (Lit ''gcve-'')"
    by (rule case_blind_Lit, simp add: lower_char_def ascii_upper_def less_eq_char_def)+
  have t: "case_blind r \<Longrightarrow> case_blind (re_times n r)" for n r
    by (induction n) (auto simp: re_times_def Seqs_def)
  have d: "case_blind re_digit" "case_blind (Cls ghsa_char)" by (simp_all add: re_digit_def ghsa_char_def)
  show "case_blind cveRe" "case_blind ghsaRe" "case_blind euvdRe" "case_blind gcveRe"
    using l t d by (simp_all add: cveRe_def ghsaRe_def euvdRe_def gcveRe_def Seqs_def Plus_def)
qed

lemma dropWhile_full: "length (dropWhile P s) = length s \<Longrightarrow> dropWhile P s = s"
  using dropWhile_length_le [of P "tl s"] by (cases s) (auto split: if_splits)

lemma trim_space_full: "length (trim_space s) = length s \<Longrightarrow> trim_space s = s"
proof -
  assume l: "length (trim_space s) = length s"
  have "length (trim_space s) \<le> length (trim_left s)" "length (trim_left s) \<le> length s"
    by (simp_all add: trim_space_def trim_right_def trim_left_def dropWhile_length_le [THEN order_trans])
  then have tl: "trim_left s = s" using l dropWhile_full [of is_space s] by (simp add: trim_left_def)
  then show ?thesis using l dropWhile_full [of is_space "rev s"]
    by (simp add: trim_space_def trim_right_def)
qed

lemma trim_space_case: "to_lower v = to_lower w \<Longrightarrow> trim_space w = w \<Longrightarrow> trim_space v = v"
  by (metis trim_space_full trim_space_lower length_to_lower)

lemma ghsa_prefix: "match_string ghsaRe t \<Longrightarrow> \<exists>x. to_upper t = ''GHSA-'' @ to_upper x"
proof -
  assume "match_string ghsaRe t"
  then obtain v w where t: "t = v @ w" "to_lower v = ''ghsa''"
    and "\<exists>g. rmatches (re_times 3 (Seq (Lit ''-'') (re_times 4 (Cls ghsa_char)))) w g"
    by (auto simp: match_string_rmatches ghsaRe_def rmatches_Seq rmatches_Lit)
  then obtain d x where w: "w = d @ x" "to_lower d = ''-''"
    by (auto simp: re_times_def numeral_3_eq_3 Seqs_def rmatches_Seq rmatches_Lit)
  have "to_upper (v @ d) = to_upper (to_lower (v @ d))" by simp
  also have "to_lower (v @ d) = ''ghsa-''" using t w by (simp add: to_lower_append)
  also have "to_upper ''ghsa-'' = ''GHSA-''" by code_simp
  finally have "to_upper t = ''GHSA-'' @ to_upper x" unfolding t w(1) by (simp add: to_upper_def)
  then show ?thesis by blast
qed

lemma NormalizeID_fold: "to_lower (NormalizeID i) = to_lower (trim_space i)"
proof (cases "match_string ghsaRe (trim_space i)")
  case True
  then obtain x where "to_upper (trim_space i) = ''GHSA-'' @ to_upper x" using ghsa_prefix by blast
  then have "''GHSA-'' @ trim_prefix (to_upper (trim_space i)) ''GHSA-'' = to_upper (trim_space i)"
    by (simp add: trim_prefix_def has_prefix_def)
  then have "to_lower (''GHSA-'' @ to_lower (trim_prefix (to_upper (trim_space i)) ''GHSA-'')) = to_lower (trim_space i)"
    by (metis fold_case(1,2) to_lower_append)
  then show ?thesis using True by (auto simp: NormalizeID_def Let_def)
next
  case False
  then show ?thesis by (auto simp: NormalizeID_def Let_def)
qed

lemma NormalizeID_cong:
  assumes "to_lower v = to_lower w" "trim_space v = v" "trim_space w = w"
    and "match_string cveRe w \<or> match_string euvdRe w \<or> match_string gcveRe w \<or> match_string ghsaRe w"
  shows "NormalizeID v = NormalizeID w"
proof -
  have "to_upper v = to_upper w" using assms(1) fold_case(3) by metis
  moreover have "v = [] \<longleftrightarrow> w = []" using assms(1) by (metis length_to_lower length_0_conv)
  ultimately show ?thesis
    using assms(2-4) match_string_case [OF _ assms(1)] case_blind_ids by (auto simp: NormalizeID_def Let_def)
qed

lemma NormalizeID_idem: "NormalizeID (NormalizeID i) = NormalizeID i"
proof -
  let ?t = "trim_space i" and ?n = "NormalizeID i"
  have it: "NormalizeID ?t = ?n" by (simp add: NormalizeID_def)
  show ?thesis
  proof (cases "match_string cveRe ?t \<or> match_string euvdRe ?t \<or> match_string gcveRe ?t \<or> match_string ghsaRe ?t")
    case True
    have "trim_space ?n = ?n" by (rule trim_space_case [OF NormalizeID_fold]) simp
    from NormalizeID_cong [OF NormalizeID_fold this _ True] it show ?thesis by simp
  next
    case False
    then have "?n = ?t" by (auto simp: NormalizeID_def Let_def)
    then show ?thesis using it by simp
  qed
qed

section \<open>The canonical identifier\<close>

definition canonical_candidates :: "string list \<Rightarrow> string set" where
  "canonical_candidates ids = NormalizeID ` set ids - {[]}"

definition id_before :: "int \<times> string \<Rightarrow> int \<times> string \<Rightarrow> bool" where
  "id_before x y \<longleftrightarrow> fst x < fst y \<or> (fst x = fst y \<and> snd x \<le> snd y)"

lemma id_before_trans: "id_before x y \<Longrightarrow> id_before y z \<Longrightarrow> id_before x z"
  by (auto simp: id_before_def)

lemma fold_pick_step:
  assumes "fold pick_step ids (b, r) = (b', r')"
  shows "id_before (r', b') (r, b) \<and> (\<forall>i \<in> canonical_candidates ids. id_before (r', b') (IdentifierRank i, i))
    \<and> ((b', r') = (b, r) \<or> (b' \<in> canonical_candidates ids \<and> r' = IdentifierRank b'))"
  using assms
proof (induction ids arbitrary: b r)
  case Nil
  then show ?case by (auto simp: canonical_candidates_def id_before_def)
next
  case (Cons raw ids)
  let ?i = "NormalizeID raw"
  obtain b1 r1 where st: "pick_step raw (b, r) = (b1, r1)" by fastforce
  have one: "id_before (r1, b1) (r, b) \<and> (?i \<noteq> [] \<longrightarrow> id_before (r1, b1) (IdentifierRank ?i, ?i))
    \<and> ((b1, r1) = (b, r) \<or> (?i \<noteq> [] \<and> b1 = ?i \<and> r1 = IdentifierRank ?i))"
    using st by (auto simp: pick_step_def id_before_def Let_def split: if_splits)
  have cand: "canonical_candidates (raw # ids) = (if ?i = [] then {} else {?i}) \<union> canonical_candidates ids"
    by (auto simp: canonical_candidates_def)
  from Cons.IH [of b1 r1] Cons.prems st one show ?case
    unfolding cand by (auto intro: id_before_trans)
qed

lemma IdentifierRank_bounds: "0 \<le> IdentifierRank i \<and> IdentifierRank i < 2 ^ 30"
  by (simp add: IdentifierRank_def)

lemma PickCanonicalID_none: "canonical_candidates ids = {} \<Longrightarrow> PickCanonicalID ids = []"
  using fold_pick_step [of ids "[]" "2 ^ 30"]
  by (cases "fold pick_step ids ([], 2 ^ 30)") (auto simp: PickCanonicalID_def)

lemma PickCanonicalID_least:
  assumes "canonical_candidates ids \<noteq> {}"
  shows "PickCanonicalID ids \<in> canonical_candidates ids"
    "i \<in> canonical_candidates ids \<Longrightarrow>
       id_before (IdentifierRank (PickCanonicalID ids), PickCanonicalID ids) (IdentifierRank i, i)"
proof -
  obtain b r where br: "fold pick_step ids ([], 2 ^ 30) = (b, r)" by fastforce
  note f = fold_pick_step [OF br]
  obtain j where j: "j \<in> canonical_candidates ids" using assms by blast
  have "id_before (r, b) (IdentifierRank j, j)" using f j by blast
  then have "(b, r) \<noteq> ([], 2 ^ 30)" using IdentifierRank_bounds [of j] by (auto simp: id_before_def)
  then have b: "b \<in> canonical_candidates ids" "r = IdentifierRank b" using f by auto
  then show "PickCanonicalID ids \<in> canonical_candidates ids" unfolding PickCanonicalID_def br by simp
  show "i \<in> canonical_candidates ids \<Longrightarrow>
      id_before (IdentifierRank (PickCanonicalID ids), PickCanonicalID ids) (IdentifierRank i, i)"
    unfolding PickCanonicalID_def br using f b by simp
qed

text \<open>The choice depends on the set of identifiers only, not on their order or spelling.\<close>

lemma PickCanonicalID_cong:
  assumes "canonical_candidates ids = canonical_candidates ids'"
  shows "PickCanonicalID ids = PickCanonicalID ids'"
proof (cases "canonical_candidates ids = {}")
  case True
  then show ?thesis using assms PickCanonicalID_none by metis
next
  case False
  then have "id_before (IdentifierRank (PickCanonicalID ids), PickCanonicalID ids)
      (IdentifierRank (PickCanonicalID ids'), PickCanonicalID ids')"
    "id_before (IdentifierRank (PickCanonicalID ids'), PickCanonicalID ids')
      (IdentifierRank (PickCanonicalID ids), PickCanonicalID ids)"
    using assms PickCanonicalID_least [of ids] PickCanonicalID_least [of ids'] by simp_all
  then show ?thesis by (auto simp: id_before_def)
qed

section \<open>Sets kept as sorted lists\<close>

lemma keep_new_fold:
  "distinct out \<Longrightarrow> [] \<notin> set out \<Longrightarrow>
     distinct (fold (\<lambda>x out. if x = [] \<or> x \<in> set out then out else out @ [x]) xs out)
     \<and> set (fold (\<lambda>x out. if x = [] \<or> x \<in> set out then out else out @ [x]) xs out) = set out \<union> (set xs - {[]})"
  by (induction xs arbitrary: out) auto

lemma keep_new_distinct: "distinct (keep_new xs)" and set_keep_new: "set (keep_new xs) = set xs - {[]}"
  using keep_new_fold [of "[]" xs] by (simp_all add: keep_new_def)

lemma sorted_set_unique:
  "sorted xs \<Longrightarrow> distinct xs \<Longrightarrow> sorted ys \<Longrightarrow> distinct ys \<Longrightarrow> set xs = set ys \<Longrightarrow> xs = (ys :: 'a::linorder list)"
  by (rule sorted_distinct_set_unique)

lemma AllIdentifiers_props:
  "sorted (AllIdentifiers vid al) \<and> distinct (AllIdentifiers vid al)
   \<and> set (AllIdentifiers vid al) = canonical_candidates (vid # al)"
  by (auto simp: AllIdentifiers_def keep_new_distinct set_keep_new canonical_candidates_def)

lemma DedupeStrings_props:
  "sorted (DedupeStrings xs) \<and> distinct (DedupeStrings xs) \<and> set (DedupeStrings xs) = trim_space ` set xs - {[]}"
  by (auto simp: DedupeStrings_def keep_new_distinct set_keep_new)

lemma AllIdentifiers_idem:
  "AllIdentifiers vid (AllIdentifiers vid al) = AllIdentifiers vid al"
proof (rule sorted_set_unique)
  have "set (AllIdentifiers vid (AllIdentifiers vid al))
      = insert (NormalizeID vid) (NormalizeID ` canonical_candidates (vid # al)) - {[]}"
    using AllIdentifiers_props [of vid al] AllIdentifiers_props [of vid "AllIdentifiers vid al"]
    by (simp add: canonical_candidates_def)
  moreover have "NormalizeID ` canonical_candidates (vid # al) = canonical_candidates (vid # al)"
  proof -
    have "NormalizeID i = i" if "i \<in> canonical_candidates (vid # al)" for i
      using that NormalizeID_idem by (auto simp: canonical_candidates_def)
    then show ?thesis by simp
  qed
  ultimately show "set (AllIdentifiers vid (AllIdentifiers vid al)) = set (AllIdentifiers vid al)"
    using AllIdentifiers_props [of vid al] by (auto simp: canonical_candidates_def)
qed (use AllIdentifiers_props in auto)

section \<open>Ratings\<close>

lemma ratings_agree: "score < 9 \<Longrightarrow> RatingFromScoreV2 score = RatingFromScore score"
  by (simp add: RatingFromScore_def RatingFromScoreV2_def)

end
