(* ===== verification/Identity.thy ===== *)
theory Identity
  imports Grades Cpe Ecosystem Model
begin

text \<open>
  \<open>internal/match/identity.go\<close> with the records \<open>Component\<close> and \<open>Affected\<close> of \<open>internal/match/match.go\<close>: the
  ladder of identity channels. The prose of \<open>reason\<close> is not modelled; every field a later decision
  reads is. Shown: an ecosystem or release conflict rejects, a purl mismatch is final, an exact
  identity carries no unproven condition and comes from a strong channel, and the folding of names is
  idempotent.
\<close>

record Component =
  c_Name :: string
  c_Version :: string
  c_Vendor :: string
  c_Ecosystem :: string
  c_PURL :: string
  c_CPE :: string
  c_Origin :: string

record Affected =
  a_VulnID :: string
  a_Vendor :: string
  a_Product :: string
  a_Ecosystem :: string
  a_PURL :: string
  a_CPEs :: "string list"
  a_Versions :: "string list"
  a_Ranges :: "VersionRange list"
  a_DefaultState :: string
  a_Status :: string
  a_Source :: string

record identity =
  id_grade :: identityGrade
  id_channel :: string
  id_unproven :: "string list"
  id_componentFamily :: string
  id_rowFamily :: string
  id_ecosystem :: string
  id_cpeVersions :: "discreteVersion list"
  id_cpePatterns :: "discreteVersion list"

text \<open>\<open>identity{reason: ...}\<close>: every other field is the zero value.\<close>

definition rejected :: identity where
  "rejected = \<lparr>id_grade = idNone, id_channel = [], id_unproven = [], id_componentFamily = [],
     id_rowFamily = [], id_ecosystem = [], id_cpeVersions = [], id_cpePatterns = []\<rparr>"

section \<open>Folding names\<close>

definition name_sep :: "char \<Rightarrow> bool" where
  "name_sep c \<longleftrightarrow> c \<in> set '' _./-'' \<or> c = CHR 0x09"

text \<open>The loop of \<open>foldName\<close>: a separator seen, and whether anything was written yet.\<close>

fun fold_name_loop :: "bool \<Rightarrow> bool \<Rightarrow> string \<Rightarrow> string" where
  "fold_name_loop sep written [] = []"
| "fold_name_loop sep written (r # s) =
     (if name_sep r then fold_name_loop True written s
      else (if sep \<and> written then CHR ''-'' # r # fold_name_loop False True s
            else r # fold_name_loop False True s))"

definition foldName :: "string \<Rightarrow> string" where
  "foldName s = fold_name_loop False False (fold_key s)"

definition corporateSuffixes :: "string list" where
  "corporateSuffixes =
     [''inc'', ''corp'', ''corporation'', ''ltd'', ''llc'', ''gmbh'', ''ag'', ''sa'', ''bv'', ''co'',
      ''company'', ''foundation'', ''project'']"

fun drop_the :: "string list \<Rightarrow> string list" where
  "drop_the (t # u # ts) = (if t = ''the'' then drop_the (u # ts) else t # u # ts)"
| "drop_the ts = ts"

fun drop_suffixes :: "string list \<Rightarrow> string list" where
  "drop_suffixes (t # u # ts) = (if t \<in> set corporateSuffixes then drop_suffixes (u # ts) else t # u # ts)"
| "drop_suffixes ts = ts"

definition foldVendor :: "string \<Rightarrow> string" where
  "foldVendor s = join ''-'' (rev (drop_suffixes (rev (drop_the (split CHR ''-'' (foldName s))))))"

section \<open>Where the two sides come from\<close>

definition componentPURLs :: "Component \<Rightarrow> purl list" where
  "componentPURLs c = List.map_filter parsePURL [c_PURL c, c_Origin c]"

fun first_purl_ecosystem :: "(string \<times> string \<Rightarrow> bool) \<Rightarrow> purl list \<Rightarrow> (string \<times> string) option" where
  "first_purl_ecosystem good [] = None"
| "first_purl_ecosystem good (p # ps) =
     (if good (purlEcosystem p) then Some (purlEcosystem p) else first_purl_ecosystem good ps)"

definition componentEcosystem :: "Component \<Rightarrow> purl list \<Rightarrow> string \<times> string" where
  "componentEcosystem c purls =
     (let (family, release) = splitEcosystem (c_Ecosystem c) in
      if family = [] then
        (case first_purl_ecosystem (\<lambda>(f, r). f \<noteq> []) purls of Some fr \<Rightarrow> fr | None \<Rightarrow> ([], []))
      else if release = [] then
        (case first_purl_ecosystem (\<lambda>(f, r). f = family \<and> r \<noteq> []) purls of
           Some (_, r) \<Rightarrow> (family, r) | None \<Rightarrow> (family, release))
      else (family, release))"

definition rowEcosystem :: "Affected \<Rightarrow> purl option \<Rightarrow> string \<times> string" where
  "rowEcosystem a p =
     (let (f0, r0) = splitEcosystem (a_Ecosystem a);
          (family, release) = (case p of Some p' \<Rightarrow> if f0 = [] then purlEcosystem p' else (f0, r0) | None \<Rightarrow> (f0, r0))
      in if family = ''git'' then ([], []) else (family, release))"

definition starts_digit :: "string \<Rightarrow> bool" where
  "starts_digit s \<longleftrightarrow> s \<noteq> [] \<and> isDigit (hd s)"

definition comparableRelease :: "string \<Rightarrow> string \<Rightarrow> bool" where
  "comparableRelease a b \<longleftrightarrow> starts_digit a \<and> starts_digit b"

section \<open>The ladder\<close>

text \<open>\<open>settle\<close>: the closure every accepting channel returns through.\<close>

definition settle :: "string \<Rightarrow> string \<Rightarrow> bool \<Rightarrow> identity \<Rightarrow> identity" where
  "settle compFam rowFam releaseUnknown i =
     (let eco = (if rowFam = [] then osvEcosystemName compFam else osvEcosystemName rowFam);
          g = (if releaseUnknown \<and> idWeak < id_grade i then grade_down (id_grade i) else id_grade i);
          u = (if releaseUnknown then id_unproven i @ [''distro_release''] else id_unproven i)
      in i\<lparr>id_grade := g, id_unproven := sort u, id_ecosystem := eco,
           id_componentFamily := compFam, id_rowFamily := rowFam\<rparr>)"

definition accepted :: "identityGrade \<Rightarrow> string \<Rightarrow> identity" where
  "accepted grade channel = rejected\<lparr>id_grade := grade, id_channel := channel\<rparr>"

text \<open>Channels 3 to 5, reached when neither a purl nor a CPE decides.\<close>

definition name_channels :: "Component \<Rightarrow> Affected \<Rightarrow> string \<Rightarrow> string \<Rightarrow> (identity \<Rightarrow> identity) \<Rightarrow> identity" where
  "name_channels c a compFam rowFam stl =
     (if compFam \<noteq> [] \<and> rowFam \<noteq> [] \<and> c_Name c \<noteq> [] \<and> a_Product a \<noteq> [] then
        (if ecosystemName compFam (c_Name c) = ecosystemName rowFam (a_Product a)
         then stl (accepted (if rowFam \<in> set losslessEcosystems then idExact else idStrong) ''ecosystem_name'')
         else rejected)
      else if c_Vendor c \<noteq> [] \<and> a_Vendor a \<noteq> [] \<and> c_Name c \<noteq> [] \<and> a_Product a \<noteq> [] then
        (if foldVendor (c_Vendor c) = foldVendor (a_Vendor a) \<and> foldName (c_Name c) = foldName (a_Product a)
         then stl (accepted idModerate ''vendor_product'')
         else rejected)
      else if c_Name c \<noteq> [] \<and> a_Product a \<noteq> [] then
        (if foldName (c_Name c) = foldName (a_Product a) then stl (accepted idWeak ''name'') else rejected)
      else rejected)"

definition identify_channels ::
    "Component \<Rightarrow> Affected \<Rightarrow> purl list \<Rightarrow> purl option \<Rightarrow> string \<Rightarrow> string \<Rightarrow> (identity \<Rightarrow> identity) \<Rightarrow> identity" where
  "identify_channels c a compPURLs rowP compFam rowFam stl =
     (case (rowP, compPURLs) of
        (Some rp, _ # _) \<Rightarrow>
          if list_ex (\<lambda>cp. p_Canonical cp = p_Canonical rp) compPURLs
          then stl (accepted idExact ''purl'') else rejected
      | _ \<Rightarrow>
          if trim_space (c_CPE c) \<noteq> [] \<and> a_CPEs a \<noteq> [] then
            (let ch = matchCPEs (c_CPE c) (a_CPEs a) in
             case ch_relation ch of
               cpeSatisfied \<Rightarrow>
                 stl ((accepted (if ch_unproven ch \<noteq> [] then idStrong else idExact) ''cpe'')
                   \<lparr>id_unproven := ch_unproven ch, id_cpeVersions := ch_versions ch,
                    id_cpePatterns := ch_patterns ch\<rparr>)
             | cpeDisjoint \<Rightarrow> rejected
             | cpeUnproven \<Rightarrow> name_channels c a compFam rowFam stl)
          else name_channels c a compFam rowFam stl)"

definition identify :: "Component \<Rightarrow> Affected \<Rightarrow> identity" where
  "identify c a =
     (let compPURLs = componentPURLs c; rowP = parsePURL (a_PURL a);
          (compFam, compRel) = componentEcosystem c compPURLs;
          (rowFam, rowRel) = rowEcosystem a rowP
      in if compFam \<noteq> [] \<and> rowFam \<noteq> [] \<and> compFam \<noteq> rowFam then rejected
         else
           let same = (compFam \<noteq> [] \<and> compFam = rowFam \<and> rowRel \<noteq> [] \<and> compRel \<noteq> rowRel);
               unknown = (compRel = [] \<or> \<not> comparableRelease compRel rowRel)
           in if same \<and> \<not> unknown then rejected
              else identify_channels c a compPURLs rowP compFam rowFam (settle compFam rowFam (same \<and> unknown)))"

section \<open>Folding is idempotent\<close>

lemma name_sep_lower: "name_sep (lower_char c) \<longleftrightarrow> name_sep c"
proof (cases "ascii_upper c")
  case True
  with lower_char_upper [OF this] show ?thesis
    by (auto simp: name_sep_def ascii_upper_def ascii_lower_def less_eq_char_def)
qed (simp add: lower_char_def)

lemma fold_name_loop_idem:
  "fold_name_loop False w (fold_name_loop False w s) = fold_name_loop False w s"
  "fold_name_loop False True (fold_name_loop True True s) = fold_name_loop True True s"
  "fold_name_loop False False (fold_name_loop True False s) = fold_name_loop True False s"
proof -
  have dash: "name_sep CHR ''-''" by (simp add: name_sep_def)
  have "(\<forall>w. fold_name_loop False w (fold_name_loop False w s) = fold_name_loop False w s)
    \<and> fold_name_loop False True (fold_name_loop True True s) = fold_name_loop True True s
    \<and> fold_name_loop False False (fold_name_loop True False s) = fold_name_loop True False s"
  proof (induction s)
    case (Cons r s)
    show ?case
    proof (cases "name_sep r")
      case True
      have "(\<forall>w. fold_name_loop False w (fold_name_loop True w s) = fold_name_loop True w s)"
        using Cons.IH by (metis (full_types))
      then show ?thesis using True by simp
    next
      case False
      then show ?thesis using Cons.IH dash by simp
    qed
  qed simp
  then show "fold_name_loop False w (fold_name_loop False w s) = fold_name_loop False w s"
    "fold_name_loop False True (fold_name_loop True True s) = fold_name_loop True True s"
    "fold_name_loop False False (fold_name_loop True False s) = fold_name_loop True False s" by auto
qed

lemma fold_name_loop_lower: "to_lower s = s \<Longrightarrow> to_lower (fold_name_loop d w s) = fold_name_loop d w s"
  by (induction d w s rule: fold_name_loop.induct) auto

text \<open>No byte of a folded name is a space: the folded name is trimmed already.\<close>

lemma fold_name_loop_chars:
  "c \<in> set (fold_name_loop d w s) \<Longrightarrow> c = CHR ''-'' \<or> (c \<in> set s \<and> \<not> name_sep c)"
  by (induction d w s rule: fold_name_loop.induct) (auto split: if_splits)

lemma trim_space_no_space: "\<forall>c \<in> set s. \<not> is_space c \<Longrightarrow> trim_space s = s"
  by (cases "s = []") (auto intro: trim_space_plain)

lemma foldName_idem:
  assumes "\<forall>c \<in> set s. is_space c \<longrightarrow> name_sep c"
  shows "foldName (foldName s) = foldName s"
proof -
  let ?t = "fold_key s" and ?x = "fold_name_loop False False (fold_key s)"
  have sub: "set (trim_space s) \<subseteq> set s"
    by (auto simp: trim_space_def trim_right_def trim_left_def dest!: set_dropWhileD)
  have "\<not> is_space c" if "c \<in> set ?x" for c
  proof (cases "c = CHR ''-''")
    case True
    then show ?thesis by (simp add: is_space_def less_eq_char_def)
  next
    case False
    with fold_name_loop_chars [OF that] obtain d where "d \<in> set s" "c = lower_char d" "\<not> name_sep c"
      using sub by (auto simp: fold_key_def to_lower_def)
    then show ?thesis using assms name_sep_lower by auto
  qed
  then have "trim_space ?x = ?x" by (intro trim_space_no_space) blast
  moreover have "to_lower ?x = ?x" by (rule fold_name_loop_lower) (simp add: fold_key_def)
  ultimately show ?thesis using fold_name_loop_idem(1) [of False ?t] by (simp add: foldName_def fold_key_def [of ?x])
qed

section \<open>What an accepted identity guarantees\<close>

lemma settle_grade: "id_grade (settle cf rf u i) = idExact \<longleftrightarrow> id_grade i = idExact \<and> \<not> u"
  by (auto simp: settle_def grade_down_def Let_def split: identityGrade.splits)

lemma settle_none: "id_grade i \<noteq> idNone \<Longrightarrow> id_grade (settle cf rf u i) \<noteq> idNone"
  by (auto simp: settle_def grade_down_def Let_def split: identityGrade.splits)

lemma settle_fields:
  "id_channel (settle cf rf u i) = id_channel i" "id_componentFamily (settle cf rf u i) = cf"
  "id_rowFamily (settle cf rf u i) = rf" "\<not> u \<Longrightarrow> set (id_unproven (settle cf rf u i)) = set (id_unproven i)"
  "sorted (id_unproven (settle cf rf u i))"
  by (simp_all add: settle_def Let_def)

lemma accepted_fields [simp]:
  "id_grade (accepted g ch) = g" "id_channel (accepted g ch) = ch" "id_unproven (accepted g ch) = []"
  "id_grade rejected = idNone"
  by (simp_all add: accepted_def rejected_def)

text \<open>Every outcome is a rejection or one settled acceptance.\<close>

definition weak_channels :: "(identityGrade \<times> string) list" where
  "weak_channels = [(idExact, ''ecosystem_name''), (idStrong, ''ecosystem_name''),
     (idModerate, ''vendor_product''), (idWeak, ''name'')]"

lemma name_channels_cases:
  "name_channels c a cf rf stl = rejected \<or>
     (\<exists>g ch. name_channels c a cf rf stl = stl (accepted g ch) \<and> (g, ch) \<in> set weak_channels)"
proof -
  have w: "(idExact, ''ecosystem_name'') \<in> set weak_channels" "(idStrong, ''ecosystem_name'') \<in> set weak_channels"
    "(idModerate, ''vendor_product'') \<in> set weak_channels" "(idWeak, ''name'') \<in> set weak_channels"
    by (simp_all add: weak_channels_def)
  show ?thesis unfolding name_channels_def using w by (simp split: if_split) blast
qed

lemma identify_channels_cases:
  "identify_channels c a ps rp cf rf stl = rejected
   \<or> (\<exists>g ch. identify_channels c a ps rp cf rf stl = stl (accepted g ch)
        \<and> (g, ch) \<in> set ((idExact, ''purl'') # weak_channels))
   \<or> (\<exists>g u vs pt. identify_channels c a ps rp cf rf stl =
        stl ((accepted g ''cpe'')\<lparr>id_unproven := u, id_cpeVersions := vs, id_cpePatterns := pt\<rparr>)
        \<and> g = (if u \<noteq> [] then idStrong else idExact))"
proof -
  let ?r = "identify_channels c a ps rp cf rf stl" and ?n = "name_channels c a cf rf stl"
  let ?ch = "matchCPEs (c_CPE c) (a_CPEs a)"
  let ?cpe = "stl ((accepted (if ch_unproven ?ch \<noteq> [] then idStrong else idExact) ''cpe'')
    \<lparr>id_unproven := ch_unproven ?ch, id_cpeVersions := ch_versions ?ch, id_cpePatterns := ch_patterns ?ch\<rparr>)"
  have "?r = rejected \<or> ?r = stl (accepted idExact ''purl'') \<or> ?r = ?n \<or> ?r = ?cpe"
    unfolding identify_channels_def Let_def
    by (cases rp; cases ps; cases "ch_relation ?ch") simp_all
  then consider "?r = rejected" | "?r = stl (accepted idExact ''purl'')" | "?r = ?n" | "?r = ?cpe" by blast
  then show ?thesis
  proof cases
    case 2
    then show ?thesis by (meson list.set_intros(1))
  next
    case 3
    then show ?thesis using name_channels_cases [of c a cf rf stl] by (metis list.set_intros(2))
  next
    case 4
    then show ?thesis by blast
  qed simp
qed

lemma sort_Nil_iff [simp]: "sort xs = [] \<longleftrightarrow> xs = []"
  by (metis length_0_conv length_sort)

lemma identify_exact:
  assumes "id_grade (identify c a) = idExact"
  shows "id_unproven (identify c a) = []" "id_channel (identify c a) \<in> {''purl'', ''cpe'', ''ecosystem_name''}"
proof -
  obtain ps rp cf rf u where i: "identify c a = identify_channels c a ps rp cf rf (settle cf rf u)"
    using assms by (auto simp: identify_def Let_def split: prod.splits if_splits)
  have s: "id_unproven (settle cf rf u j) = sort (if u then id_unproven j @ [''distro_release''] else id_unproven j)" for j u
    by (simp add: settle_def Let_def)
  from identify_channels_cases [of c a ps rp cf rf "settle cf rf u"] i assms consider
      g ch where "identify c a = settle cf rf u (accepted g ch)" "(g, ch) \<in> set ((idExact, ''purl'') # weak_channels)"
    | g un vs pt where "identify c a = settle cf rf u
        ((accepted g ''cpe'')\<lparr>id_unproven := un, id_cpeVersions := vs, id_cpePatterns := pt\<rparr>)"
        "g = (if un \<noteq> [] then idStrong else idExact)"
    by auto
  then have "id_unproven (identify c a) = [] \<and> id_channel (identify c a) \<in> {''purl'', ''cpe'', ''ecosystem_name''}"
  proof cases
    case 1
    then show ?thesis using assms by (auto simp: settle_grade settle_fields s weak_channels_def)
  next
    case 2
    then show ?thesis using assms by (auto simp: settle_grade settle_fields s split: if_splits)
  qed
  then show "id_unproven (identify c a) = []" "id_channel (identify c a) \<in> {''purl'', ''cpe'', ''ecosystem_name''}"
    by auto
qed

text \<open>A conflict of ecosystems rejects, whatever the channels would say.\<close>

lemma identify_ecosystem_conflict:
  assumes "fst (componentEcosystem c (componentPURLs c)) \<noteq> []"
    and "fst (rowEcosystem a (parsePURL (a_PURL a))) \<noteq> []"
    and "fst (componentEcosystem c (componentPURLs c)) \<noteq> fst (rowEcosystem a (parsePURL (a_PURL a)))"
  shows "identify c a = rejected"
  using assms by (auto simp: identify_def Let_def split: prod.splits)

text \<open>Where both sides carry a purl, equality of the canonical forms decides and nothing else does.\<close>

lemma identify_purl:
  assumes "parsePURL (a_PURL a) = Some rp" "componentPURLs c \<noteq> []"
  shows "id_grade (identify c a) \<noteq> idNone \<Longrightarrow>
     id_channel (identify c a) = ''purl'' \<and> (\<exists>cp \<in> set (componentPURLs c). p_Canonical cp = p_Canonical rp)"
proof -
  assume g: "id_grade (identify c a) \<noteq> idNone"
  then obtain cf rf u where i: "identify c a = identify_channels c a (componentPURLs c) (Some rp) cf rf (settle cf rf u)"
    using assms(1) by (auto simp: identify_def Let_def split: prod.splits if_splits)
  then show ?thesis
    using g assms(2) by (cases "componentPURLs c")
      (auto simp: identify_channels_def settle_fields list_ex_iff split: if_splits)
qed

end
