(* ===== verification/Debian_Order.thy ===== *)
theory Debian_Order
  imports Sentinel
begin

text \<open>
  \<open>internal/version/debian.go\<close>: dpkg's ordering. \<open>verrevcmp\<close> is modelled loop by loop (the run of
  non-digits, the zeroes, the run of digits, the leftovers); \<open>deb_key\<close> is its abstract specification,
  the list of weights and numbers a string spells, compared lexicographically with zeroes past the
  end. The refinement \<open>verrevcmp_key\<close> makes the ordering a total preorder, and epoch, upstream version
  and revision one after another keep it so.
\<close>

section \<open>The code\<close>

definition validDebian :: "string \<Rightarrow> string \<Rightarrow> bool" where
  "validDebian s extra \<longleftrightarrow> list_all (\<lambda>c. isAlnum c \<or> c \<in> set extra) s"

text \<open>\<open>splitDebian\<close> returns epoch, upstream version, revision and certainty.\<close>

definition splitDebian :: "string \<Rightarrow> string \<times> string \<times> string \<times> Certainty" where
  "splitDebian s =
     (let (epoch, rest, c1) =
            (case split_first CHR '':'' s of
               None \<Rightarrow> (''0'', s, Exact)
             | Some (h, t) \<Rightarrow> if isAllDigits h then (h, t, Exact) else (''0'', s, Heuristic));
          (upstream, revision) =
            (case split_last CHR ''-'' rest of None \<Rightarrow> (rest, []) | Some (h, t) \<Rightarrow> (h, t));
          c2 = (if upstream = [] \<or> \<not> isDigit (hd upstream) \<or> \<not> validDebian upstream ''.+-:~''
                  \<or> \<not> validDebian revision ''.+~'' then Heuristic else c1)
      in (epoch, upstream, revision, c2))"

definition debianOrder :: "char \<Rightarrow> int" where
  "debianOrder c =
     (if isDigit c then 0 else if isLetter c then byte c else if c = CHR ''~'' then -1
      else byte c + 256)"

text \<open>The inner loop over the non-digits: \<open>Inl\<close> is a return, \<open>Inr\<close> the two indices it leaves.\<close>

definition off_digit :: "string \<Rightarrow> bool" where
  "off_digit s \<longleftrightarrow> s \<noteq> [] \<and> \<not> isDigit (hd s)"

definition weight_at :: "string \<Rightarrow> int" where
  "weight_at s = (case s of [] \<Rightarrow> 0 | c # _ \<Rightarrow> debianOrder c)"

function verrev_nondigits :: "string \<Rightarrow> string \<Rightarrow> int + string \<times> string" where
  "verrev_nondigits a b =
     (if off_digit a \<or> off_digit b then
        (if weight_at a \<noteq> weight_at b then Inl (sign (weight_at a - weight_at b))
         else verrev_nondigits (tl a) (tl b))
      else Inr (a, b))"
  by pat_completeness auto
termination
proof (relation "measure (\<lambda>(a, b). length a + length b)")
  fix a b :: string
  assume "off_digit a \<or> off_digit b"
  then have "a \<noteq> [] \<or> b \<noteq> []" by (auto simp: off_digit_def)
  then have "length (tl a) + length (tl b) < length a + length b" by (cases a; cases b) auto
  then show "((tl a, tl b), a, b) \<in> measure (\<lambda>(a, b). length a + length b)" by simp
qed simp

declare verrev_nondigits.simps [simp del]

text \<open>The loop over two digit runs, with \<open>firstDiff\<close>.\<close>

fun verrev_digits :: "int \<Rightarrow> string \<Rightarrow> string \<Rightarrow> int \<times> string \<times> string" where
  "verrev_digits d (x # a) (y # b) =
     (if isDigit x \<and> isDigit y
      then verrev_digits (if d = 0 then byte x - byte y else d) a b
      else (d, x # a, y # b))"
| "verrev_digits d a b = (d, a, b)"

definition zeroes_off :: "string \<Rightarrow> string" where
  "zeroes_off s = dropWhile (\<lambda>c. c = CHR ''0'') s"

lemma verrev_nondigits_rest:
  "verrev_nondigits a b = Inr (a', b') \<Longrightarrow>
     \<not> off_digit a' \<and> \<not> off_digit b' \<and> (\<exists>p q. a = p @ a' \<and> b = q @ b')"
proof (induction a b rule: verrev_nondigits.induct)
  case (1 a b)
  show ?case
  proof (cases "off_digit a \<or> off_digit b")
    case True
    with "1.prems" have w: "weight_at a = weight_at b"
      and r: "verrev_nondigits (tl a) (tl b) = Inr (a', b')"
      by (auto simp: verrev_nondigits.simps [of a b] split: if_splits)
    from "1.IH" [OF True] w r obtain p q where "\<not> off_digit a' \<and> \<not> off_digit b'"
      "tl a = p @ a'" "tl b = q @ b'" by auto
    moreover have "\<exists>p'. s = p' @ s'" if "tl s = p @ s'" for s p s' :: string
      using that by (cases s) (auto intro: exI [of _ "hd s # p"])
    ultimately show ?thesis by blast
  next
    case False
    with "1.prems" show ?thesis by (auto simp: verrev_nondigits.simps [of a b])
  qed
qed

lemma verrev_digits_rest:
  "verrev_digits d a b = (d', a', b') \<Longrightarrow> (\<exists>p q. a = p @ a' \<and> b = q @ b' \<and> length p = length q
     \<and> list_all isDigit p \<and> list_all isDigit q) \<and>
     \<not> (a' \<noteq> [] \<and> isDigit (hd a') \<and> b' \<noteq> [] \<and> isDigit (hd b'))"
proof (induction d a b rule: verrev_digits.induct)
  case (1 d x a y b)
  show ?case
  proof (cases "isDigit x \<and> isDigit y")
    case True
    with 1 obtain p q where "a = p @ a'" "b = q @ b'" "length p = length q"
      "list_all isDigit p" "list_all isDigit q"
      "\<not> (a' \<noteq> [] \<and> isDigit (hd a') \<and> b' \<noteq> [] \<and> isDigit (hd b'))" by auto
    then show ?thesis using True by (intro conjI exI [of _ "x # p"] exI [of _ "y # q"]) auto
  next
    case False
    with 1 show ?thesis by auto
  qed
qed auto

function verrevcmp :: "string \<Rightarrow> string \<Rightarrow> int" where
  "verrevcmp a b =
     (if a = [] \<and> b = [] then 0
      else case verrev_nondigits a b of
          Inl n \<Rightarrow> n
        | Inr (a1, b1) \<Rightarrow>
            (case verrev_digits 0 (zeroes_off a1) (zeroes_off b1) of (firstDiff, a2, b2) \<Rightarrow>
               if a2 \<noteq> [] \<and> isDigit (hd a2) then 1
               else if b2 \<noteq> [] \<and> isDigit (hd b2) then -1
               else if firstDiff \<noteq> 0 then sign firstDiff
               else verrevcmp a2 b2))"
  by pat_completeness auto

termination
proof (relation "measure (\<lambda>(a, b). length a + length b)")
  fix a b x a1 b1 d z a2 b2
  assume ne: "\<not> (a = [] \<and> b = [])" and nd: "verrev_nondigits a b = Inr x" and x: "(a1, b1) = x"
    and dg: "(d, z) = verrev_digits 0 (zeroes_off a1) (zeroes_off b1)" and z: "(a2, b2) = z"
    and a2: "\<not> (a2 \<noteq> [] \<and> isDigit (hd a2))" and b2: "\<not> (b2 \<noteq> [] \<and> isDigit (hd b2))"
  from nd x have nd': "verrev_nondigits a b = Inr (a1, b1)" by simp
  from verrev_nondigits_rest [OF this] have r1: "\<not> off_digit a1" "\<not> off_digit b1"
    "\<exists>p. a = p @ a1" "\<exists>q. b = q @ b1" by auto
  from dg z have "verrev_digits 0 (zeroes_off a1) (zeroes_off b1) = (d, a2, b2)" by simp
  from verrev_digits_rest [OF this] have r2: "\<exists>p. zeroes_off a1 = p @ a2" "\<exists>q. zeroes_off b1 = q @ b2"
    by auto
  have sub: "(t2 = [] \<and> t1 = []) \<or> length t2 < length t1"
    if s1: "\<not> off_digit t1" and s2: "\<exists>p. zeroes_off t1 = p @ t2"
      and s3: "\<not> (t2 \<noteq> [] \<and> isDigit (hd t2))" for t1 t2
  proof -
    obtain p where p: "zeroes_off t1 = p @ t2" using s2 by blast
    then have len: "length t2 \<le> length (zeroes_off t1)" by simp
    have len': "length (zeroes_off t1) \<le> length t1"
      by (simp add: zeroes_off_def dropWhile_length_le)
    note len = len len'
    show ?thesis
    proof (cases "length t2 = length t1")
      case True
      with len have "zeroes_off t1 = t1" unfolding zeroes_off_def
        by (metis append_self_conv2 le_antisym length_append length_0_conv add_cancel_left_left
            takeWhile_dropWhile_id)
      moreover have "p = []" using p len True by (metis add_cancel_left_left le_antisym length_append length_0_conv)
      ultimately have "t1 = t2" using p by simp
      with s1 s3 show ?thesis by (auto simp: off_digit_def)
    next
      case False
      with len show ?thesis by linarith
    qed
  qed
  have "length a1 + length b1 \<le> length a + length b" using r1 by auto
  moreover have "(a2 = [] \<and> a1 = []) \<or> length a2 < length a1" by (rule sub [OF r1(1) r2(1) a2])
  moreover have "(b2 = [] \<and> b1 = []) \<or> length b2 < length b1" by (rule sub [OF r1(2) r2(2) b2])
  ultimately have "length a2 + length b2 < length a + length b"
    using ne by auto
  then show "((a2, b2), a, b) \<in> measure (\<lambda>(a, b). length a + length b)" by simp
qed simp

declare verrevcmp.simps [simp del]

definition compareDebian :: "string \<Rightarrow> string \<Rightarrow> (int \<times> Certainty) option" where
  "compareDebian a b =
     (case (splitDebian a, splitDebian b) of ((ea, ua, ra, ca), (eb, ub, rb, cb)) \<Rightarrow>
        Some (then_cmp (compareNumericText ea eb) (then_cmp (verrevcmp ua ub) (verrevcmp ra rb)),
              weakest ca cb))"

section \<open>The abstract specification\<close>

text \<open>
  A string is a sequence of blocks: a run of non-digits, read as the list of its weights closed by
  a 0, and a run of digits, read as a number. Past the end of the string everything is 0.
\<close>

definition nondigits :: "string \<Rightarrow> string" where
  "nondigits s = takeWhile (\<lambda>c. \<not> isDigit c) s"

definition from_digits :: "string \<Rightarrow> string" where
  "from_digits s = dropWhile (\<lambda>c. \<not> isDigit c) s"

function deb_key :: "string \<Rightarrow> int list" where
  "deb_key s =
     (if s = [] then []
      else map debianOrder (nondigits s) @
        0 # numval (takeWhile isDigit (from_digits s)) # deb_key (dropWhile isDigit (from_digits s)))"
  by pat_completeness auto

termination
proof (relation "measure length")
  fix s :: string
  assume "s \<noteq> []"
  have "length (dropWhile isDigit (from_digits s)) < length s"
  proof (cases "isDigit (hd s)")
    case True
    then have "from_digits s = s" using \<open>s \<noteq> []\<close> by (cases s) (auto simp: from_digits_def)
    then show ?thesis using True \<open>s \<noteq> []\<close> by (simp add: dropWhile_length_less)
  next
    case False
    then have "length (from_digits s) < length s"
      using \<open>s \<noteq> []\<close> unfolding from_digits_def by (intro dropWhile_length_less) auto
    then show ?thesis using dropWhile_length_le [of isDigit "from_digits s"] by linarith
  qed
  then show "(dropWhile isDigit (from_digits s), s) \<in> measure length" by simp
qed simp

declare deb_key.simps [simp del]

lemma debianOrder_digit: "debianOrder c = 0 \<longleftrightarrow> isDigit c"
proof -
  have "byte c \<noteq> 0" if "isLetter c" using that
    by (auto simp: isLetter_def byte_def less_eq_char_def)
  moreover have "byte c + 256 \<noteq> 0" using byte_nonneg [of c] by linarith
  ultimately show ?thesis by (auto simp: debianOrder_def)
qed

lemma off_digit_parts:
  "off_digit s \<Longrightarrow> nondigits s = hd s # nondigits (tl s) \<and> from_digits s = from_digits (tl s)
     \<and> weight_at s = debianOrder (hd s) \<and> weight_at s \<noteq> 0"
  by (cases s) (auto simp: off_digit_def nondigits_def from_digits_def weight_at_def debianOrder_digit)

lemma not_off_digit_parts: "\<not> off_digit s \<Longrightarrow> nondigits s = [] \<and> from_digits s = s \<and> weight_at s = 0"
  by (cases s) (auto simp: off_digit_def nondigits_def from_digits_def weight_at_def debianOrder_digit)

lemma verrev_nondigits_Inl:
  "verrev_nondigits a b = Inl n \<Longrightarrow>
     n \<noteq> 0 \<and> lexpad int_cmp 0 (map debianOrder (nondigits a) @ 0 # xs)
               (map debianOrder (nondigits b) @ 0 # ys) = n"
proof (induction a b rule: verrev_nondigits.induct)
  case (1 a b)
  from "1.prems" have some: "off_digit a \<or> off_digit b"
    by (auto simp: verrev_nondigits.simps [of a b] split: if_splits)
  show ?case
  proof (cases "weight_at a = weight_at b")
    case True
    with some "1.prems" have "verrev_nondigits (tl a) (tl b) = Inl n"
      by (simp add: verrev_nondigits.simps [of a b])
    from "1.IH" [OF some _ this] True have IH: "n \<noteq> 0 \<and>
      lexpad int_cmp 0 (map debianOrder (nondigits (tl a)) @ 0 # xs)
        (map debianOrder (nondigits (tl b)) @ 0 # ys) = n" by simp
    from True some have "off_digit a" "off_digit b"
      using off_digit_parts [of a] off_digit_parts [of b] not_off_digit_parts [of a]
        not_off_digit_parts [of b] by auto
    then show ?thesis using IH True off_digit_parts [of a] off_digit_parts [of b]
      by (simp add: int_order.cmp_refl)
  next
    case False
    with some "1.prems" have n: "n = sign (weight_at a - weight_at b)"
      by (simp add: verrev_nondigits.simps [of a b])
    have hd: "\<exists>r. map debianOrder (nondigits s) @ 0 # zs = weight_at s # r" for s and zs :: "int list"
      using off_digit_parts [of s] not_off_digit_parts [of s] by (cases "off_digit s") auto
    obtain r r' where "map debianOrder (nondigits a) @ 0 # xs = weight_at a # r"
      "map debianOrder (nondigits b) @ 0 # ys = weight_at b # r'" using hd by blast
    then show ?thesis using n False by (simp add: int_cmp_def sign_sgn sgn_if)
  qed
qed

lemma verrev_nondigits_Inr:
  "verrev_nondigits a b = Inr (a', b') \<Longrightarrow>
     map debianOrder (nondigits a) = map debianOrder (nondigits b) \<and> a' = from_digits a \<and> b' = from_digits b"
proof (induction a b rule: verrev_nondigits.induct)
  case (1 a b)
  show ?case
  proof (cases "off_digit a \<or> off_digit b")
    case True
    with "1.prems" have w: "weight_at a = weight_at b"
      and r: "verrev_nondigits (tl a) (tl b) = Inr (a', b')"
      by (auto simp: verrev_nondigits.simps [of a b] split: if_splits)
    from w True have "off_digit a" "off_digit b"
      using off_digit_parts [of a] off_digit_parts [of b] not_off_digit_parts [of a]
        not_off_digit_parts [of b] by auto
    then show ?thesis using "1.IH" [OF True _ r] w off_digit_parts [of a] off_digit_parts [of b] by auto
  next
    case False
    with "1.prems" show ?thesis using not_off_digit_parts [of a] not_off_digit_parts [of b]
      by (auto simp: verrev_nondigits.simps [of a b])
  qed
qed

fun first_diff :: "int \<Rightarrow> string \<Rightarrow> string \<Rightarrow> int" where
  "first_diff d (x # a) (y # b) = first_diff (if d = 0 then byte x - byte y else d) a b"
| "first_diff d a b = d"

lemma verrev_digits_eq:
  assumes "list_all isDigit da" "list_all isDigit db"
    and "ra = [] \<or> \<not> isDigit (hd ra)" "rb = [] \<or> \<not> isDigit (hd rb)"
  shows "verrev_digits d (da @ ra) (db @ rb) =
    (first_diff d da db, drop (length db) da @ ra, drop (length da) db @ rb)"
  using assms
proof (induction d da db rule: first_diff.induct, goal_cases)
  case (2 d b)
  then show ?case by (cases ra; cases "b @ rb") auto
next
  case (3 d a)
  then show ?case by (cases "a @ ra"; cases rb) auto
qed simp

lemma first_diff_sign:
  "length da = length db \<Longrightarrow>
     sign (first_diff d da db) = (if d \<noteq> 0 then sign d else str_compare da db)"
proof (induction da db arbitrary: d rule: list_induct2)
  case (Cons x xs y ys)
  then show ?case by (auto simp: byte_mono sign_def)
qed simp

lemma longer_run_larger:
  assumes "list_all isDigit da" "list_all isDigit db" "length db < length da" "hd da \<noteq> CHR ''0''"
  shows "numval db < numval da"
proof -
  obtain c r where da: "da = c # r" using assms(3) by (cases da) auto
  have "numval db < 10 ^ length db" using assms(2) numval_bounds by blast
  also have "\<dots> \<le> (10::int) ^ length r" using assms(3) da by (intro power_increasing) auto
  also have "\<dots> \<le> numval da" using numval_lower [of c r] assms da by simp
  finally show ?thesis .
qed

text \<open>The digit part of one round compares the two numbers.\<close>

definition digit_run :: "string \<Rightarrow> string" where
  "digit_run s = takeWhile isDigit (zeroes_off s)"

lemma zeroes_off_parts:
  "zeroes_off s = digit_run s @ dropWhile isDigit s" "numval (digit_run s) = numval (takeWhile isDigit s)"
  "list_all isDigit (digit_run s)" "digit_run s \<noteq> [] \<Longrightarrow> hd (digit_run s) \<noteq> CHR ''0''"
proof -
  have z: "isDigit CHR ''0''" by (simp add: isDigit_def)
  have "dropWhile isDigit (zeroes_off s) = dropWhile isDigit s"
    by (induction s) (auto simp: zeroes_off_def z)
  then show "zeroes_off s = digit_run s @ dropWhile isDigit s"
    unfolding digit_run_def by (metis takeWhile_dropWhile_id)
  show "numval (digit_run s) = numval (takeWhile isDigit s)"
    by (induction s) (auto simp: zeroes_off_def digit_run_def z numval_Cons byte_def)
  show "list_all isDigit (digit_run s)" by (simp add: digit_run_def takeWhile_run)
  assume ne: "digit_run s \<noteq> []"
  then have "zeroes_off s \<noteq> []" and "hd (digit_run s) = hd (zeroes_off s)"
    by (auto simp: digit_run_def) (metis hd_append2 takeWhile_dropWhile_id takeWhile.simps(1))
  then show "hd (digit_run s) \<noteq> CHR ''0''"
    using hd_dropWhile [of "\<lambda>c. c = CHR ''0''" s] by (simp add: zeroes_off_def)
qed

lemma verrev_digits_round:
  assumes "verrev_digits 0 (zeroes_off a) (zeroes_off b) = (d, a2, b2)"
  defines "n \<equiv> sgn (numval (takeWhile isDigit a) - numval (takeWhile isDigit b))"
  shows "(if a2 \<noteq> [] \<and> isDigit (hd a2) then 1 else if b2 \<noteq> [] \<and> isDigit (hd b2) then -1
          else if d \<noteq> 0 then sign d else m) = then_cmp n m"
    and "\<not> (a2 \<noteq> [] \<and> isDigit (hd a2)) \<Longrightarrow> \<not> (b2 \<noteq> [] \<and> isDigit (hd b2)) \<Longrightarrow>
      a2 = dropWhile isDigit a \<and> b2 = dropWhile isDigit b"
proof -
  let ?da = "digit_run a" and ?db = "digit_run b"
  have nd: "dropWhile isDigit s = [] \<or> \<not> isDigit (hd (dropWhile isDigit s))" for s
    using hd_dropWhile [of isDigit s] by blast
  have "verrev_digits 0 (zeroes_off a) (zeroes_off b) = (first_diff 0 ?da ?db,
      drop (length ?db) ?da @ dropWhile isDigit a, drop (length ?da) ?db @ dropWhile isDigit b)"
    unfolding zeroes_off_parts(1) by (rule verrev_digits_eq) (rule zeroes_off_parts(3) nd)+
  with assms(1) have d: "d = first_diff 0 ?da ?db"
    and a2: "a2 = drop (length ?db) ?da @ dropWhile isDigit a"
    and b2: "b2 = drop (length ?da) ?db @ dropWhile isDigit b" by auto
  have n: "n = sgn (numval ?da - numval ?db)" by (simp add: n_def zeroes_off_parts(2))
  have dig: "drop k s \<noteq> [] \<Longrightarrow> isDigit (hd (drop k s @ r))" if "list_all isDigit s" for k s r
    using that in_set_dropD [OF hd_in_set, of k s] by (auto simp: list_all_iff hd_append)
  consider "length ?db < length ?da" | "length ?da < length ?db" | "length ?da = length ?db" by linarith
  then have "(if a2 \<noteq> [] \<and> isDigit (hd a2) then 1 else if b2 \<noteq> [] \<and> isDigit (hd b2) then -1
          else if d \<noteq> 0 then sign d else m) = then_cmp n m \<and>
      (\<not> (a2 \<noteq> [] \<and> isDigit (hd a2)) \<longrightarrow> \<not> (b2 \<noteq> [] \<and> isDigit (hd b2)) \<longrightarrow>
      a2 = dropWhile isDigit a \<and> b2 = dropWhile isDigit b)"
  proof cases
    case 1
    then have "a2 \<noteq> [] \<and> isDigit (hd a2)"
      using dig [OF zeroes_off_parts(3)] by (simp add: a2)
    moreover have "numval ?db < numval ?da"
      using 1 by (intro longer_run_larger zeroes_off_parts) auto
    ultimately show ?thesis using n by simp
  next
    case 2
    then have "b2 \<noteq> [] \<and> isDigit (hd b2)"
      using dig [OF zeroes_off_parts(3)] by (simp add: b2)
    moreover have "\<not> (a2 \<noteq> [] \<and> isDigit (hd a2))" using 2 nd by (simp add: a2)
    moreover have "numval ?da < numval ?db"
      using 2 by (intro longer_run_larger zeroes_off_parts) auto
    ultimately show ?thesis using n by simp
  next
    case 3
    then have "\<not> (a2 \<noteq> [] \<and> isDigit (hd a2))" "\<not> (b2 \<noteq> [] \<and> isDigit (hd b2))"
      "a2 = dropWhile isDigit a" "b2 = dropWhile isDigit b" using nd by (auto simp: a2 b2)
    moreover have "sign d = n"
      using first_diff_sign [OF 3, of 0] str_compare_numval [OF 3] zeroes_off_parts(3) n d by simp
    ultimately show ?thesis by (auto simp: then_cmp_def)
  qed
  then show "(if a2 \<noteq> [] \<and> isDigit (hd a2) then 1 else if b2 \<noteq> [] \<and> isDigit (hd b2) then -1
          else if d \<noteq> 0 then sign d else m) = then_cmp n m"
    and "\<not> (a2 \<noteq> [] \<and> isDigit (hd a2)) \<Longrightarrow> \<not> (b2 \<noteq> [] \<and> isDigit (hd b2)) \<Longrightarrow>
      a2 = dropWhile isDigit a \<and> b2 = dropWhile isDigit b" by auto
qed

text \<open>One block of the key, also of the empty string, whose block is all zeroes.\<close>

definition deb_block :: "string \<Rightarrow> int list" where
  "deb_block s = map debianOrder (nondigits s) @
     0 # numval (takeWhile isDigit (from_digits s)) # deb_key (dropWhile isDigit (from_digits s))"

lemma lexpad_zeroes:
  assumes "three_way c"
  shows "lexpad c z [z, z] ys = lexpad c z [] ys" "lexpad c z ys [z, z] = lexpad c z ys []"
proof -
  have "lexpad c z [z] ys = lexpad c z [] ys" for ys
    using lexpad_step [OF assms, of z "[z]" ys] lexpad_step [OF assms, of z "[]" ys] by simp
  then show "lexpad c z [z, z] ys = lexpad c z [] ys"
    using lexpad_step [OF assms, of z "[z, z]" ys] lexpad_step [OF assms, of z "[]" ys] by simp
  have "lexpad c z ys [z] = lexpad c z ys []" for ys
    using lexpad_step [OF assms, of z ys "[z]"] lexpad_step [OF assms, of z ys "[]"] by simp
  then show "lexpad c z ys [z, z] = lexpad c z ys []"
    using lexpad_step [OF assms, of z ys "[z, z]"] lexpad_step [OF assms, of z ys "[]"] by simp
qed

lemma deb_key_block: "lexpad int_cmp 0 (deb_key a) (deb_key b) = lexpad int_cmp 0 (deb_block a) (deb_block b)"
proof -
  have e: "deb_block [] = [0, 0]"
    by (simp add: deb_block_def nondigits_def from_digits_def deb_key.simps)
  have n: "s \<noteq> [] \<Longrightarrow> deb_key s = deb_block s" for s
    by (subst deb_key.simps) (simp add: deb_block_def)
  have k: "deb_key [] = []" by (simp add: deb_key.simps)
  show ?thesis
    by (cases "a = []"; cases "b = []")
      (simp_all add: e n k lexpad_zeroes [OF three_way_int_cmp] int_order.cmp_refl)
qed

lemma lexpad_same_prefix:
  assumes "three_way c"
  shows "lexpad c z (ps @ xs) (ps @ ys) = lexpad c z xs ys"
  by (induction ps) (simp_all add: three_way.cmp_refl [OF assms])

lemma verrevcmp_key: "verrevcmp a b = lexpad int_cmp 0 (deb_key a) (deb_key b)"
proof (induction a b rule: verrevcmp.induct)
  case (1 a b)
  show ?case
  proof (cases "a = [] \<and> b = []")
    case True
    then show ?thesis by (simp add: verrevcmp.simps deb_key.simps)
  next
    case False
    show ?thesis
    proof (cases "verrev_nondigits a b")
      case (Inl n)
      with False have "verrevcmp a b = n" by (auto simp: verrevcmp.simps [of a b])
      then show ?thesis
        using verrev_nondigits_Inl [OF Inl] by (simp add: deb_key_block deb_block_def)
    next
      case (Inr r)
      obtain a1 b1 where r: "r = (a1, b1)" by (cases r)
      obtain d a2 b2 where v: "verrev_digits 0 (zeroes_off a1) (zeroes_off b1) = (d, a2, b2)"
        by (metis prod_cases3)
      from verrev_nondigits_Inr [OF Inr [unfolded r]]
      have w: "map debianOrder (nondigits a) = map debianOrder (nondigits b)"
        and ab: "a1 = from_digits a" "b1 = from_digits b" by auto
      let ?n = "sgn (numval (takeWhile isDigit a1) - numval (takeWhile isDigit b1))"
      have "verrevcmp a b = then_cmp ?n (verrevcmp a2 b2)"
        using False Inr r v verrev_digits_round(1) [OF v, of "verrevcmp a2 b2"]
        by (subst verrevcmp.simps) auto
      also have "\<dots> = then_cmp ?n
          (lexpad int_cmp 0 (deb_key (dropWhile isDigit a1)) (deb_key (dropWhile isDigit b1)))"
      proof (cases "?n = 0")
        case True
        then have d: "\<not> (a2 \<noteq> [] \<and> isDigit (hd a2))" "\<not> (b2 \<noteq> [] \<and> isDigit (hd b2))" "\<not> d \<noteq> 0"
          using verrev_digits_round(1) [OF v, of 2] sign_range [of d] by (auto split: if_splits)
        then have "verrevcmp a2 b2 = lexpad int_cmp 0 (deb_key a2) (deb_key b2)"
          using "1.IH" [OF False Inr r [symmetric] v [symmetric] refl] by simp
        then show ?thesis using verrev_digits_round(2) [OF v d(1) d(2)] by simp
      qed simp
      also have "\<dots> = lexpad int_cmp 0 (deb_block a) (deb_block b)"
        unfolding deb_block_def w ab [symmetric]
        by (simp add: lexpad_same_prefix [OF three_way_int_cmp] int_cmp_def)
      finally show ?thesis by (simp add: deb_key_block)
    qed
  qed
qed

lemma three_way_verrevcmp: "three_way verrevcmp"
  by (rule three_way_eqI [OF verrevcmp_key])
    (rule three_way_key [OF three_way_lexpad [OF three_way_int_cmp]])

interpretation deb_run: three_way verrevcmp
  by (rule three_way_verrevcmp)

text \<open>The whole version: what \<open>compareDebian\<close> answers, without its certainty.\<close>

definition debian_cmp :: "string \<Rightarrow> string \<Rightarrow> int" where
  "debian_cmp a b = (case compareDebian a b of Some (n, _) \<Rightarrow> n | None \<Rightarrow> 0)"

lemma debian_cmp_eq:
  "debian_cmp a b = then_cmp (compareNumericText (fst (splitDebian a)) (fst (splitDebian b)))
     (then_cmp (verrevcmp (fst (snd (splitDebian a))) (fst (snd (splitDebian b))))
       (verrevcmp (fst (snd (snd (splitDebian a)))) (fst (snd (snd (splitDebian b))))))"
  by (simp add: debian_cmp_def compareDebian_def split: prod.splits)

lemma compareDebian_eq:
  "compareDebian a b = Some (debian_cmp a b, weakest (snd (snd (snd (splitDebian a)))) (snd (snd (snd (splitDebian b)))))"
  by (simp add: debian_cmp_def compareDebian_def split: prod.splits)

lemma three_way_debian_cmp: "three_way debian_cmp"
  by (rule three_way_eqI [OF debian_cmp_eq])
    (intro three_way_then three_way_key [OF three_way_compareNumericText]
      three_way_key [OF three_way_verrevcmp])

interpretation debian: three_way debian_cmp
  by (rule three_way_debian_cmp)

section \<open>What the tilde and the revision do\<close>

lemma verrevcmp_tilde: "verrevcmp (s @ CHR ''~'' # t) s = -1"
proof -
  have t: "\<not> isDigit CHR ''~''" "debianOrder CHR ''~'' = -1"
    by (simp_all add: isDigit_def debianOrder_def isLetter_def)
  have "lexpad int_cmp 0 (deb_key (s @ CHR ''~'' # t)) (deb_key s) = -1"
  proof (induction s rule: deb_key.induct)
    case (1 s)
    let ?s' = "s @ CHR ''~'' # t"
    show ?case
    proof (cases "from_digits s = []")
      case True
      then have nd: "\<forall>c \<in> set s. \<not> isDigit c" by (simp add: from_digits_def dropWhile_eq_Nil_conv)
      then have "nondigits s = s" by (simp add: nondigits_def takeWhile_eq_all_conv)
      moreover have "nondigits ?s' = s @ CHR ''~'' # nondigits t"
        using nd t by (simp add: nondigits_def takeWhile_append2)
      ultimately show ?thesis using t(2)
        by (simp add: deb_key_block deb_block_def lexpad_same_prefix [OF three_way_int_cmp])
    next
      case False
      obtain x where x: "x \<in> set s" "isDigit x"
        using False by (auto simp: from_digits_def dropWhile_eq_Nil_conv)
      then have fd: "from_digits ?s' = from_digits s @ CHR ''~'' # t" and nds: "nondigits ?s' = nondigits s"
        unfolding from_digits_def nondigits_def
        using dropWhile_append1 [of x s "\<lambda>c. \<not> isDigit c"] takeWhile_append1 [of x s "\<lambda>c. \<not> isDigit c"]
        by simp_all
      have tk: "takeWhile isDigit (from_digits ?s') = takeWhile isDigit (from_digits s)"
        "dropWhile isDigit (from_digits ?s') = dropWhile isDigit (from_digits s) @ CHR ''~'' # t"
        using t unfolding fd by (simp_all add: takeWhile_stop dropWhile_stop)
      have "s \<noteq> []" using False by (auto simp: from_digits_def)
      from "1.IH" [OF this] show ?thesis
        unfolding deb_key_block [of ?s' s] deb_block_def tk nds
        by (simp add: lexpad_same_prefix [OF three_way_int_cmp] int_order.cmp_refl)
    qed
  qed
  then show ?thesis by (simp add: verrevcmp_key)
qed

end
