(* ===== verification/Rpm_Order.thy ===== *)
theory Rpm_Order
  imports Debian_Order
begin

text \<open>
  \<open>internal/version/rpm.go\<close>: rpm's ordering. \<open>rpm_loop\<close> is the loop of \<open>rpmvercmp\<close> on the two
  remaining suffixes, with the verdict after the loop in \<open>rpm_leftover\<close>. Its specification is the
  lexicographic comparison of the token lists \<open>rpm_toks\<close>, where the end of the string is a token of
  its own between the tilde and the caret; the refinement \<open>rpmvercmp_toks\<close> makes the ordering a
  total preorder.
\<close>

section \<open>The code\<close>

definition splitEVR :: "string \<Rightarrow> string \<times> string \<times> string" where
  "splitEVR s =
     (let (epoch, rest) =
            (case split_first CHR '':'' s of
               None \<Rightarrow> (''0'', s)
             | Some (h, t) \<Rightarrow> if h \<noteq> [] \<and> isAllDigits h then (h, t) else (''0'', s));
          (version, release) =
            (case split_last CHR ''-'' rest of None \<Rightarrow> (rest, []) | Some (h, t) \<Rightarrow> (h, t))
      in (epoch, version, release))"

definition rpm_sep :: "char \<Rightarrow> bool" where
  "rpm_sep c \<longleftrightarrow> \<not> isAlnum c \<and> c \<noteq> CHR ''~'' \<and> c \<noteq> CHR ''^''"

definition skip_seps :: "string \<Rightarrow> string" where
  "skip_seps s = dropWhile rpm_sep s"

definition starts_with :: "char \<Rightarrow> string \<Rightarrow> bool" where
  "starts_with c s \<longleftrightarrow> s \<noteq> [] \<and> hd s = c"

definition rpm_leftover :: "string \<Rightarrow> string \<Rightarrow> int" where
  "rpm_leftover a b = (if a = [] \<and> b = [] then 0 else if a = [] then -1 else 1)"

definition segment :: "bool \<Rightarrow> char \<Rightarrow> bool" where
  "segment numeric c = (if numeric then isDigit c else isLetter c)"

lemma skip_seps_cases:
  obtains (Empty) "skip_seps s = []"
  | (Tilde) r where "skip_seps s = CHR ''~'' # r"
  | (Caret) r where "skip_seps s = CHR ''^'' # r"
  | (Num) c r where "skip_seps s = c # r" "isDigit c"
  | (Alpha) c r where "skip_seps s = c # r" "isLetter c" "\<not> isDigit c"
proof (cases "skip_seps s")
  case (Cons c r)
  then have "\<not> rpm_sep c" using hd_dropWhile [of rpm_sep s] by (simp add: skip_seps_def)
  then show ?thesis using Cons that by (auto simp: rpm_sep_def isAlnum_def)
qed (rule that)

lemma length_skip_seps: "length (skip_seps s) \<le> length s"
  by (simp add: skip_seps_def dropWhile_length_le)

function rpm_loop :: "string \<Rightarrow> string \<Rightarrow> int" where
  "rpm_loop a0 b0 =
     (if a0 = [] \<and> b0 = [] then rpm_leftover a0 b0
      else let a = skip_seps a0; b = skip_seps b0;
               aTilde = starts_with CHR ''~'' a; bTilde = starts_with CHR ''~'' b;
               aCaret = starts_with CHR ''^'' a; bCaret = starts_with CHR ''^'' b
           in
        if aTilde \<or> bTilde then
          (if \<not> aTilde then 1 else if \<not> bTilde then -1 else rpm_loop (tl a) (tl b))
        else if aCaret \<or> bCaret then
          (if a = [] then -1 else if b = [] then 1
           else if \<not> aCaret then 1 else if \<not> bCaret then -1 else rpm_loop (tl a) (tl b))
        else if a = [] \<or> b = [] then rpm_leftover a b
        else
          let numeric = isDigit (hd a);
              segA = takeWhile (segment numeric) a; segB = takeWhile (segment numeric) b
          in
            if segB = [] then (if numeric then 1 else -1)
            else
              let tA = (if numeric then zeroes_off segA else segA);
                  tB = (if numeric then zeroes_off segB else segB)
              in
                if numeric \<and> length tA \<noteq> length tB then (if length tB < length tA then 1 else -1)
                else if str_compare tA tB \<noteq> 0 then sign (str_compare tA tB)
                else rpm_loop (dropWhile (segment numeric) a) (dropWhile (segment numeric) b))"
  by pat_completeness auto

termination
proof (relation "measure (\<lambda>(a, b). length a + length b)", goal_cases)
  case (2 a0 b0 a b)
  then have "a \<noteq> []" "b \<noteq> []" by (auto simp: starts_with_def)
  then have "length (tl a) + length (tl b) < length a + length b" by (cases a; cases b) auto
  then show ?case using 2 length_skip_seps [of a0] length_skip_seps [of b0] by simp
next
  case (3 a0 b0 a b)
  then have "a \<noteq> []" "b \<noteq> []" by (auto simp: starts_with_def)
  then have "length (tl a) + length (tl b) < length a + length b" by (cases a; cases b) auto
  then show ?case using 3 length_skip_seps [of a0] length_skip_seps [of b0] by simp
next
  case (4 a0 b0 a b)
  then have "a \<noteq> [] \<and> segment (isDigit (hd a)) (hd a)"
    by (cases rule: skip_seps_cases [of a0]) (auto simp: segment_def starts_with_def)
  then have "length (dropWhile (segment (isDigit (hd a))) a) < length a"
    by (blast intro: dropWhile_length_less)
  moreover have "length (dropWhile (segment (isDigit (hd a))) b) \<le> length b"
    by (rule dropWhile_length_le)
  ultimately show ?case using 4 length_skip_seps [of a0] length_skip_seps [of b0] by simp
qed simp

declare rpm_loop.simps [simp del]

definition rpmvercmp :: "string \<Rightarrow> string \<Rightarrow> int" where
  "rpmvercmp a b = (if a = b then 0 else rpm_loop a b)"

definition compareRPM :: "string \<Rightarrow> string \<Rightarrow> (int \<times> Certainty) option" where
  "compareRPM a b =
     (case (splitEVR a, splitEVR b) of ((ea, va, ra), (eb, vb, rb)) \<Rightarrow>
        Some (then_cmp (compareNumericText ea eb) (then_cmp (rpmvercmp va vb) (rpmvercmp ra rb)), Exact))"

section \<open>The abstract specification\<close>

datatype rpm_tok = RTilde | REnd | RCaret | RAlpha string | RNum int

function rpm_toks :: "string \<Rightarrow> rpm_tok list" where
  "rpm_toks s0 =
     (case skip_seps s0 of
        [] \<Rightarrow> []
      | c # r \<Rightarrow>
          if c = CHR ''~'' then RTilde # rpm_toks r
          else if c = CHR ''^'' then RCaret # rpm_toks r
          else if isDigit c
          then RNum (numval (takeWhile isDigit (c # r))) # rpm_toks (dropWhile isDigit (c # r))
          else RAlpha (takeWhile isLetter (c # r)) # rpm_toks (dropWhile isLetter r))"
  by pat_completeness auto
termination
proof (relation "measure length", goal_cases)
  case (2 s0 c r)
  then show ?case using length_skip_seps [of s0] by simp
next
  case (3 s0 c r)
  then show ?case using length_skip_seps [of s0] by simp
next
  case (4 s0 c r)
  then show ?case using length_skip_seps [of s0] dropWhile_length_less [of "c # r" isDigit] by simp
next
  case (5 s0 c r)
  then show ?case using length_skip_seps [of s0] dropWhile_length_le [of isLetter r] by simp
qed simp

declare rpm_toks.simps [simp del]

fun rpm_rank :: "rpm_tok \<Rightarrow> int" where
  "rpm_rank RTilde = 0"
| "rpm_rank REnd = 1"
| "rpm_rank RCaret = 2"
| "rpm_rank (RAlpha _) = 3"
| "rpm_rank (RNum _) = 4"

fun rpm_num :: "rpm_tok \<Rightarrow> int" where
  "rpm_num (RNum n) = n"
| "rpm_num _ = 0"

fun rpm_word :: "rpm_tok \<Rightarrow> string" where
  "rpm_word (RAlpha w) = w"
| "rpm_word _ = []"

definition rpm_tok_cmp :: "rpm_tok \<Rightarrow> rpm_tok \<Rightarrow> int" where
  "rpm_tok_cmp x y = then_cmp (int_cmp (rpm_rank x) (rpm_rank y))
     (then_cmp (int_cmp (rpm_num x) (rpm_num y)) (str_compare (rpm_word x) (rpm_word y)))"

lemma three_way_rpm_tok_cmp: "three_way rpm_tok_cmp"
  by (rule three_way_eqI [OF rpm_tok_cmp_def])
    (intro three_way_then three_way_key [OF three_way_int_cmp] three_way_key [OF three_way_str_compare])

interpretation rpm_tok: three_way rpm_tok_cmp
  by (rule three_way_rpm_tok_cmp)

lemma numeric_segments:
  assumes "list_all isDigit p" "list_all isDigit q"
  shows "length (zeroes_off p) \<noteq> length (zeroes_off q) \<Longrightarrow>
      (if length (zeroes_off q) < length (zeroes_off p) then 1 else -1) = int_cmp (numval p) (numval q)"
    and "length (zeroes_off p) = length (zeroes_off q) \<Longrightarrow>
      str_compare (zeroes_off p) (zeroes_off q) = int_cmp (numval p) (numval q)"
proof -
  have z: "zeroes_off s = digit_run s" "takeWhile isDigit s = s" if "list_all isDigit s" for s
    using list_all_whiles [OF that] zeroes_off_parts(1) [of s] by simp_all
  have n: "numval (zeroes_off s) = numval s" "list_all isDigit (zeroes_off s)"
    "zeroes_off s \<noteq> [] \<Longrightarrow> hd (zeroes_off s) \<noteq> CHR ''0''" if "list_all isDigit s" for s
    unfolding z(1) [OF that] by (simp_all add: zeroes_off_parts(2-4) z(2) [OF that] del: takeWhile_eq_all_conv)
  {
    assume "length (zeroes_off p) \<noteq> length (zeroes_off q)"
    then consider "length (zeroes_off q) < length (zeroes_off p)"
      | "length (zeroes_off p) < length (zeroes_off q)" by linarith
    then show "(if length (zeroes_off q) < length (zeroes_off p) then 1 else -1) = int_cmp (numval p) (numval q)"
    proof cases
      case 1
      then have "zeroes_off p \<noteq> []" by auto
      with 1 have "numval (zeroes_off q) < numval (zeroes_off p)"
        using assms n by (intro longer_run_larger) auto
      with 1 show ?thesis using assms n(1) by simp
    next
      case 2
      then have "zeroes_off q \<noteq> []" by auto
      with 2 have "numval (zeroes_off p) < numval (zeroes_off q)"
        using assms n by (intro longer_run_larger) auto
      with 2 show ?thesis using assms n(1) by simp
    qed
  }
  assume "length (zeroes_off p) = length (zeroes_off q)"
  from str_compare_numval [OF this] show "str_compare (zeroes_off p) (zeroes_off q) = int_cmp (numval p) (numval q)"
    using assms n by (simp add: int_cmp_def)
qed

lemma rpm_toks_eqs:
  "skip_seps s = [] \<Longrightarrow> rpm_toks s = []"
  "skip_seps s = CHR ''~'' # r \<Longrightarrow> rpm_toks s = RTilde # rpm_toks r"
  "skip_seps s = CHR ''^'' # r \<Longrightarrow> rpm_toks s = RCaret # rpm_toks r"
  "skip_seps s = c # r \<Longrightarrow> isDigit c \<Longrightarrow> rpm_toks s =
     RNum (numval (takeWhile isDigit (c # r))) # rpm_toks (dropWhile isDigit (c # r))"
  "skip_seps s = c # r \<Longrightarrow> isLetter c \<Longrightarrow> \<not> isDigit c \<Longrightarrow> rpm_toks s =
     RAlpha (takeWhile isLetter (c # r)) # rpm_toks (dropWhile isLetter (c # r))"
  by (subst rpm_toks.simps, force simp: isDigit_def isLetter_def)+

lemma rpm_loop_empty: "rpm_loop [] [] = 0"
  by (subst rpm_loop.simps) (simp add: rpm_leftover_def)

lemma rpm_skip_not_empty: "skip_seps s = c # r \<Longrightarrow> s \<noteq> []"
  by (auto simp: skip_seps_def)

lemma rpm_loop_toks: "rpm_loop a b = lexpad rpm_tok_cmp REnd (rpm_toks a) (rpm_toks b)"
proof (induction "length a + length b" arbitrary: a b rule: less_induct)
  case less
  have pre: "isDigit c \<or> isLetter c \<Longrightarrow> c \<noteq> CHR ''~'' \<and> c \<noteq> CHR ''^''" for c
    by (auto simp: isDigit_def isLetter_def)
  show ?case
  proof (cases "a = [] \<and> b = []")
    case True
    then show ?thesis by (simp add: rpm_loop_empty rpm_toks_eqs skip_seps_def)
  next
    case False
    note round = rpm_loop.simps [of a b] Let_def starts_with_def rpm_leftover_def rpm_tok_cmp_def
    note seg = segment_def [abs_def]
    have IH: "rpm_loop x y = lexpad rpm_tok_cmp REnd (rpm_toks x) (rpm_toks y)"
      if "length x + length y < length (skip_seps a) + length (skip_seps b)" for x y
      using less.hyps [of x y] that length_skip_seps [of a] length_skip_seps [of b] by simp
    show ?thesis
    proof (cases rule: skip_seps_cases [of a])
      case Empty
      then show ?thesis using False
        by (cases rule: skip_seps_cases [of b])
          (auto simp: round rpm_toks_eqs pre)
    next
      case a: (Tilde r)
      then show ?thesis using False IH [of r "tl (skip_seps b)"]
        by (cases rule: skip_seps_cases [of b])
          (auto simp: round rpm_toks_eqs pre)
    next
      case (Caret r)
      then show ?thesis using False IH [of r "tl (skip_seps b)"]
        by (cases rule: skip_seps_cases [of b])
          (auto simp: round rpm_toks_eqs pre)
    next
      case a: (Num c r)
      show ?thesis
      proof (cases rule: skip_seps_cases [of b])
        case b: (Num d q)
        let ?x = "takeWhile isDigit (c # r)" and ?y = "takeWhile isDigit (d # q)"
        let ?x' = "dropWhile isDigit (c # r)" and ?y' = "dropWhile isDigit (d # q)"
        have "?y \<noteq> []" using b by simp
        then have "rpm_loop a b = then_cmp (int_cmp (numval ?x) (numval ?y)) (rpm_loop ?x' ?y')"
          using a b False pre [of c] pre [of d] numeric_segments [OF takeWhile_run takeWhile_run, of "c # r" "d # q"]
          by (cases "length (zeroes_off ?x) = length (zeroes_off ?y)")
            (auto simp: round seg then_cmp_def simp del: takeWhile.simps dropWhile.simps split: if_splits)
        moreover have "rpm_loop ?x' ?y' = lexpad rpm_tok_cmp REnd (rpm_toks ?x') (rpm_toks ?y')"
          using a b by (intro IH add_less_mono) (simp_all add: less_Suc_eq_le dropWhile_length_le)
        ultimately show ?thesis using a b by (simp add: rpm_toks_eqs rpm_tok_cmp_def then_cmp_assoc)
      qed (use a False in \<open>auto simp: round rpm_toks_eqs pre seg isDigit_not_isLetter\<close>)
    next
      case a: (Alpha c r)
      show ?thesis
      proof (cases rule: skip_seps_cases [of b])
        case b: (Alpha d q)
        let ?x = "takeWhile isLetter (c # r)" and ?y = "takeWhile isLetter (d # q)"
        let ?x' = "dropWhile isLetter (c # r)" and ?y' = "dropWhile isLetter (d # q)"
        have "rpm_loop a b = then_cmp (str_compare ?x ?y) (rpm_loop ?x' ?y')"
          using a b False pre [of c] pre [of d]
          by (auto simp: round seg then_cmp_def simp del: dropWhile.simps)
        moreover have "rpm_loop ?x' ?y' = lexpad rpm_tok_cmp REnd (rpm_toks ?x') (rpm_toks ?y')"
          using a b by (intro IH add_less_mono) (simp_all add: less_Suc_eq_le dropWhile_length_le)
        ultimately show ?thesis using a b by (simp add: rpm_toks_eqs rpm_tok_cmp_def then_cmp_assoc)
      qed (use a False in \<open>auto simp: round rpm_toks_eqs pre seg isDigit_not_isLetter\<close>)
    qed
  qed
qed

lemma rpmvercmp_toks: "rpmvercmp a b = lexpad rpm_tok_cmp REnd (rpm_toks a) (rpm_toks b)"
  by (simp add: rpmvercmp_def rpm_loop_toks
      three_way.cmp_refl [OF three_way_lexpad [OF three_way_rpm_tok_cmp]])

lemma three_way_rpmvercmp: "three_way rpmvercmp"
  by (rule three_way_eqI [OF rpmvercmp_toks])
    (rule three_way_key [OF three_way_lexpad [OF three_way_rpm_tok_cmp]])

interpretation rpm_run: three_way rpmvercmp
  by (rule three_way_rpmvercmp)

definition rpm_cmp :: "string \<Rightarrow> string \<Rightarrow> int" where
  "rpm_cmp a b = (case compareRPM a b of Some (n, _) \<Rightarrow> n | None \<Rightarrow> 0)"

lemma rpm_cmp_eq:
  "rpm_cmp a b = then_cmp (compareNumericText (fst (splitEVR a)) (fst (splitEVR b)))
     (then_cmp (rpmvercmp (fst (snd (splitEVR a))) (fst (snd (splitEVR b))))
       (rpmvercmp (snd (snd (splitEVR a))) (snd (snd (splitEVR b)))))"
  by (simp add: rpm_cmp_def compareRPM_def split: prod.splits)

lemma compareRPM_eq: "compareRPM a b = Some (rpm_cmp a b, Exact)"
  by (simp add: rpm_cmp_def compareRPM_def split: prod.splits)

lemma three_way_rpm_cmp: "three_way rpm_cmp"
  by (rule three_way_eqI [OF rpm_cmp_eq])
    (intro three_way_then three_way_key [OF three_way_compareNumericText]
      three_way_key [OF three_way_rpmvercmp])

interpretation rpm: three_way rpm_cmp
  by (rule three_way_rpm_cmp)

section \<open>The tilde and the caret\<close>

text \<open>
  A tilde behind a version sorts below it and a caret above it, whatever follows, because the end
  of the string is a token between the two.
\<close>

lemma rpm_toks_mark:
  assumes "m = CHR ''~'' \<and> k = RTilde \<or> m = CHR ''^'' \<and> k = RCaret"
  shows "rpm_toks (s @ m # t) = rpm_toks s @ k # rpm_toks t"
proof (induction s rule: rpm_toks.induct)
  case (1 s)
  have m: "\<not> rpm_sep m" "\<not> isDigit m" "\<not> isLetter m"
    using assms by (auto simp: rpm_sep_def isDigit_def isLetter_def)
  then have sk: "skip_seps (s @ m # t) = skip_seps s @ m # t" by (simp add: skip_seps_def dropWhile_stop)
  show ?case
  proof (cases rule: skip_seps_cases [of s])
    case Empty
    with sk assms show ?thesis by (auto simp: rpm_toks_eqs)
  next
    case (Tilde r)
    with sk 1(1) [OF Tilde] show ?thesis by (simp add: rpm_toks_eqs)
  next
    case (Caret r)
    with sk 1(2) [OF Caret] show ?thesis by (simp add: rpm_toks_eqs)
  next
    case (Num c r)
    moreover have "c \<noteq> CHR ''~''" "c \<noteq> CHR ''^''" using Num by (auto simp: isDigit_def)
    ultimately show ?thesis
      using sk 1(3) [OF Num(1)] m takeWhile_stop [of isDigit m "c # r" t] dropWhile_stop [of isDigit m "c # r" t]
      by (simp add: rpm_toks_eqs)
  next
    case (Alpha c r)
    moreover have "c \<noteq> CHR ''~''" "c \<noteq> CHR ''^''" using Alpha by (auto simp: isLetter_def)
    ultimately show ?thesis
      using sk 1(4) [OF Alpha(1)] m takeWhile_stop [of isLetter m "c # r" t] dropWhile_stop [of isLetter m "c # r" t]
      by (simp add: rpm_toks_eqs)
  qed
qed

lemma rpmvercmp_tilde: "rpmvercmp (s @ CHR ''~'' # t) s = -1"
  and rpmvercmp_caret: "rpmvercmp (s @ CHR ''^'' # t) s = 1"
  using lexpad_same_prefix [OF three_way_rpm_tok_cmp, of REnd "rpm_toks s" _ "[]"]
  by (simp_all add: rpmvercmp_toks rpm_toks_mark rpm_tok_cmp_def)

end
