(* ===== verification/Generic_Order.thy ===== *)
theory Generic_Order
  imports Rpm_Order
begin

text \<open>
  \<open>internal/version/generic.go\<close>: the ordering for data that declares none. An answer of \<open>None\<close> is the
  refusal (\<open>ok = false\<close>). The numeric core is split off and compared with zero padding, and only then
  is the tail of tokens asked. The lemmas show that the comparison is antisymmetric and reflexive,
  that a verdict reached inside the cores is the verdict of dpkg, of rpm and of the numbers, and on
  which operands the refusals happen.
\<close>

section \<open>The code\<close>

definition preReleaseRanks :: "(string \<times> int) list" where
  "preReleaseRanks =
     [(''dev'', 0), (''devel'', 0), (''alpha'', 1), (''beta'', 2), (''milestone'', 3),
      (''snapshot'', 4), (''pre'', 5), (''preview'', 5), (''cr'', 6), (''rc'', 6)]"

definition preReleaseRank :: "string \<Rightarrow> int" where
  "preReleaseRank word = (case map_of preReleaseRanks (to_lower word) of Some r \<Rightarrow> r | None \<Rightarrow> -1)"

function core_from :: "string \<Rightarrow> string list \<times> string" where
  "core_from s =
     (let d = takeWhile isDigit s; r = dropWhile isDigit s in
      if d = [] then ([], s)
      else if 2 \<le> length r \<and> hd r = CHR ''.'' \<and> isDigit (hd (tl r))
      then (case core_from (tl r) of (core, t) \<Rightarrow> (d # core, t))
      else ([d], r))"
  by pat_completeness auto
termination
proof (relation "measure length", goal_cases)
  case (2 s d r)
  then have "length (tl r) < length r" by (cases r) auto
  moreover have "length r \<le> length s" using 2 by (simp only: dropWhile_length_le)
  ultimately show ?case by simp
qed simp

declare core_from.simps [simp del]

definition splitNumericCore :: "string \<Rightarrow> string list \<times> token list" where
  "splitNumericCore s = (case core_from s of (core, t) \<Rightarrow> (core, tokenize t))"

definition subordinateTail :: "token list \<Rightarrow> bool" where
  "subordinateTail tail \<longleftrightarrow> tail = [] \<or> tsep (hd tail) = CHR ''-'' \<or> tsep (hd tail) = CHR ''~''"

definition hasEpoch :: "string \<Rightarrow> bool" where
  "hasEpoch s \<longleftrightarrow> takeWhile isDigit s \<noteq> [] \<and> starts_with CHR '':'' (dropWhile isDigit s)"

text \<open>\<open>gluedToLetters(tokens, i)\<close> on the suffix that starts at \<open>i\<close>.\<close>

fun gluedToLetters :: "token list \<Rightarrow> bool" where
  "gluedToLetters [] = False"
| "gluedToLetters [t] = (tsep t = CHR 0x00)"
| "gluedToLetters (t # u # ts) = (tsep t = CHR 0x00 \<or> tsep u = CHR 0x00)"

definition ambiguousSeparator :: "char \<Rightarrow> bool" where
  "ambiguousSeparator s \<longleftrightarrow> s = CHR ''-'' \<or> s = CHR ''_'' \<or> s = CHR ''+''"

text \<open>\<open>tailOrder\<close> is only ever called with a token left.\<close>

definition tailOrder :: "token list \<Rightarrow> (int \<times> Certainty) option" where
  "tailOrder rest =
     (case rest of
        [] \<Rightarrow> None
      | first # _ \<Rightarrow>
          if tsep first = CHR ''~'' then Some (-1, Heuristic)
          else if tkind first = TokenAlpha \<and> 0 \<le> preReleaseRank (ttext first) then Some (-1, Heuristic)
          else if list_ex (\<lambda>t. ambiguousSeparator (tsep t) \<or> tsep t = CHR ''~'') rest then None
          else if tkind first = TokenNumeric
          then Some (1, if gluedToLetters rest then Heuristic else Exact)
          else None)"

text \<open>The answer from the other side, and an answer weakened by what came before it.\<close>

definition neg_answer :: "(int \<times> Certainty) option \<Rightarrow> (int \<times> Certainty) option" where
  "neg_answer r = map_option (\<lambda>(n, c). (- n, c)) r"

definition weaken :: "Certainty \<Rightarrow> (int \<times> Certainty) option \<Rightarrow> (int \<times> Certainty) option" where
  "weaken c r = map_option (\<lambda>(n, tc). (n, weakest c tc)) r"

text \<open>Two spellings of one number are a weaker answer than one spelling.\<close>

definition respelled :: "string \<Rightarrow> string \<Rightarrow> Certainty \<Rightarrow> Certainty" where
  "respelled x y c = (if x \<noteq> y then Heuristic else c)"

text \<open>
  One round of the loop of \<open>compareTails\<close> on the two suffixes at \<open>i\<close>: \<open>Inl\<close> is a return, \<open>Inr\<close> the
  certainty the next round starts with.
\<close>

definition tail_round :: "token list \<Rightarrow> token list \<Rightarrow> Certainty \<Rightarrow> (int \<times> Certainty) option + Certainty" where
  "tail_round ta tb c =
     (let x = hd ta; y = hd tb in
      if tsep x = CHR ''~'' \<and> tsep y \<noteq> CHR ''~'' then Inl (Some (-1, weakest c Heuristic))
      else if tsep y = CHR ''~'' \<and> tsep x \<noteq> CHR ''~'' then Inl (Some (1, weakest c Heuristic))
      else if tsep x \<noteq> tsep y then Inl None
      else if tkind x = TokenNumeric \<and> tkind y = TokenNumeric then
        (let c1 = (if gluedToLetters ta \<or> gluedToLetters tb then weakest c Heuristic else c);
             n = compareNumericText (ttext x) (ttext y)
         in if n \<noteq> 0 then Inl (Some (n, c1)) else Inr (respelled (ttext x) (ttext y) c1))
      else if tkind x = TokenAlpha \<and> tkind y = TokenAlpha then
        (if equal_fold (ttext x) (ttext y) then Inr c
         else
           let rx = preReleaseRank (ttext x); ry = preReleaseRank (ttext y) in
           if rx < 0 \<or> ry < 0 then Inl None
           else if rx = ry then Inr (weakest c Heuristic)
           else Inl (Some (sign (rx - ry), weakest c Heuristic)))
      else Inl None)"

fun compareTails :: "token list \<Rightarrow> token list \<Rightarrow> Certainty \<Rightarrow> (int \<times> Certainty) option" where
  "compareTails [] [] c = Some (0, c)"
| "compareTails [] (y # tb) c = weaken c (neg_answer (tailOrder (y # tb)))"
| "compareTails (x # ta) [] c = weaken c (tailOrder (x # ta))"
| "compareTails (x # ta) (y # tb) c =
     (case tail_round (x # ta) (y # tb) c of Inl r \<Rightarrow> r | Inr c' \<Rightarrow> compareTails ta tb c')"

text \<open>
  The loop over the cores: \<open>Inl\<close> is a return of \<open>compareGeneric\<close>, \<open>Inr\<close> the certainty with which the
  loop ends, every component being equal.
\<close>

function compareCores :: "token list \<Rightarrow> token list \<Rightarrow> string list \<Rightarrow> string list \<Rightarrow> Certainty
    \<Rightarrow> (int \<times> Certainty) option + Certainty" where
  "compareCores ta tb ca cb c =
     (if ca = [] \<and> cb = [] then Inr c
      else
        let x = hd_or ''0'' ca; y = hd_or ''0'' cb; n = compareNumericText x y in
        if n \<noteq> 0 then
          (if (ca = [] \<and> \<not> subordinateTail ta) \<or> (cb = [] \<and> \<not> subordinateTail tb) then Inl None
           else Inl (Some (n, c)))
        else compareCores ta tb (tl ca) (tl cb) (respelled x y c))"
  by pat_completeness auto
termination
proof (relation "measure (\<lambda>(ta, tb, ca, cb, c). length ca + length cb)", goal_cases)
  case (2 ta tb ca cb c x y n)
  then show ?case by (cases ca; cases cb) auto
qed simp

declare compareCores.simps [simp del]

definition compareGeneric :: "string \<Rightarrow> string \<Rightarrow> (int \<times> Certainty) option" where
  "compareGeneric a0 b0 =
     (let a = stripV a0; b = stripV b0 in
      if hasEpoch a \<or> hasEpoch b then None
      else
        case (splitNumericCore a, splitNumericCore b) of ((ca, ta), (cb, tb)) \<Rightarrow>
          if ca = [] \<or> cb = [] then None
          else
            (case compareCores ta tb ca cb Exact of
               Inl r \<Rightarrow> r
             | Inr c \<Rightarrow>
                 if ta = [] \<and> tb = [] then Some (0, c)
                 else if length ca \<noteq> length cb then None
                 else if tb = [] then weaken c (tailOrder ta)
                 else if ta = [] then weaken c (neg_answer (tailOrder tb))
                 else compareTails ta tb c))"

section \<open>Antisymmetry\<close>

lemma neg_answer_simps [simp]:
  "neg_answer None = None" "neg_answer (Some (n, c)) = Some (- n, c)" "neg_answer (neg_answer r) = r"
  by (cases r; simp add: neg_answer_def split: prod.splits)+

lemma weaken_simps [simp]:
  "weaken c None = None" "weaken c (Some (n, d)) = Some (n, weakest c d)"
  by (simp_all add: weaken_def)

lemma respelled_sym: "respelled y x c = respelled x y c"
  by (simp add: respelled_def)

lemma neg_weaken: "neg_answer (weaken c r) = weaken c (neg_answer r)"
  by (cases r) auto

lemma tail_round_swap:
  "tail_round tb ta c = (case tail_round ta tb c of Inl r \<Rightarrow> Inl (neg_answer r) | Inr d \<Rightarrow> Inr d)"
proof -
  let ?x = "hd ta" and ?y = "hd tb"
  have e: "equal_fold (ttext ?y) (ttext ?x) \<longleftrightarrow> equal_fold (ttext ?x) (ttext ?y)" by (rule equal_fold_sym)
  have n: "compareNumericText (ttext ?y) (ttext ?x) = - compareNumericText (ttext ?x) (ttext ?y)"
    by (rule num_order.cmp_swap)
  have s: "sign (preReleaseRank (ttext ?y) - preReleaseRank (ttext ?x))
      = - sign (preReleaseRank (ttext ?x) - preReleaseRank (ttext ?y))" by (rule sign_diff_swap)
  show ?thesis by (auto simp: tail_round_def Let_def e n s respelled_sym [of "ttext ?y"])
qed

lemma compareTails_swap: "compareTails tb ta c = neg_answer (compareTails ta tb c)"
proof (induction ta tb c rule: compareTails.induct)
  case (4 x ta y tb c)
  then show ?case
    using tail_round_swap [of "y # tb" "x # ta" c] by (auto split: sum.splits)
qed (auto simp: neg_weaken)

lemma compareCores_swap:
  "compareCores tb ta cb ca c = (case compareCores ta tb ca cb c of Inl r \<Rightarrow> Inl (neg_answer r) | Inr d \<Rightarrow> Inr d)"
proof (induction ta tb ca cb c rule: compareCores.induct)
  case (1 ta tb ca cb c)
  then show ?case
    using num_order.cmp_swap [of "hd_or ''0'' ca" "hd_or ''0'' cb"]
    by (auto simp: compareCores.simps [of ta tb ca cb c] compareCores.simps [of tb ta cb ca c] Let_def
        respelled_sym [of "hd_or ''0'' cb"])
qed

lemma compareGeneric_swap: "compareGeneric b a = neg_answer (compareGeneric a b)"
proof -
  obtain ca ta where a: "splitNumericCore (stripV a) = (ca, ta)" by fastforce
  obtain cb tb where b: "splitNumericCore (stripV b) = (cb, tb)" by fastforce
  show ?thesis
    unfolding compareGeneric_def Let_def a b
    using compareCores_swap [of tb ta cb ca Exact] compareTails_swap [of tb ta]
    by (auto simp: neg_weaken split: sum.splits)
qed

section \<open>The core, and what the other schemes make of it\<close>

definition numeric_core :: "string \<Rightarrow> string list" where
  "numeric_core s = fst (core_from s)"

definition core_tail :: "string \<Rightarrow> string" where
  "core_tail s = snd (core_from s)"

definition digit_start :: "string \<Rightarrow> bool" where
  "digit_start s \<longleftrightarrow> s \<noteq> [] \<and> isDigit (hd s)"

lemma core_from_parts:
  "core_from s = (core, t) \<Longrightarrow>
     s = join ''.'' core @ t \<and> list_all isAllDigits core \<and> (core = [] \<longleftrightarrow> \<not> digit_start s) \<and> \<not> digit_start t"
proof (induction s arbitrary: core t rule: core_from.induct)
  case (1 s)
  let ?d = "takeWhile isDigit s" and ?r = "dropWhile isDigit s"
  have sdr: "s = ?d @ ?r" by simp
  have nr: "\<not> digit_start ?r" using hd_dropWhile [of isDigit s] by (auto simp: digit_start_def)
  show ?case
  proof (cases "?d = []")
    case True
    then have "\<not> digit_start s" by (cases s) (auto simp: digit_start_def split: if_splits)
    with True "1.prems" show ?thesis by (simp add: core_from.simps [of s])
  next
    case d: False
    then have ds: "digit_start s" by (cases s) (auto simp: digit_start_def split: if_splits)
    have da: "isAllDigits ?d" using d by (simp add: isAllDigits_def takeWhile_run)
    show ?thesis
    proof (cases "2 \<le> length ?r \<and> hd ?r = CHR ''.'' \<and> isDigit (hd (tl ?r))")
      case True
      obtain core' where c': "core_from (tl ?r) = (core', t)" and core: "core = ?d # core'"
        using "1.prems" d True by (auto simp: core_from.simps [of s] split: prod.splits)
      have dt: "digit_start (tl ?r)" using True by (cases ?r) (auto simp: digit_start_def)
      from "1.IH" [OF refl refl d True c'] dt have
        "tl ?r = join ''.'' core' @ t" "list_all isAllDigits core'" "core' \<noteq> []" "\<not> digit_start t" by auto
      moreover have "?r = CHR ''.'' # tl ?r" using True by (cases ?r) auto
      ultimately show ?thesis using core da ds sdr by (cases core') auto
    next
      case False
      with "1.prems" d have "core = [?d]" "t = ?r" by (auto simp: core_from.simps [of s])
      then show ?thesis using da ds nr by simp
    qed
  qed
qed

lemma isAllDigits_whiles:
  assumes "isAllDigits d" "\<not> digit_start t"
  shows "takeWhile isDigit (d @ t) = d" "dropWhile isDigit (d @ t) = t"
proof -
  have d: "\<forall>c \<in> set d. isDigit c" using assms(1) by (simp add: isAllDigits_def list_all_iff)
  have t: "takeWhile isDigit t = [] \<and> dropWhile isDigit t = t"
    using assms(2) by (cases t) (auto simp: digit_start_def)
  show "takeWhile isDigit (d @ t) = d" "dropWhile isDigit (d @ t) = t"
    using d t by (simp_all add: takeWhile_append2 dropWhile_append2)
qed

lemma deb_key_digits:
  assumes "isAllDigits d" "\<not> digit_start t"
  shows "deb_key (d @ t) = 0 # numval d # deb_key t"
proof -
  have "d \<noteq> []" "isDigit (hd d)" using assms(1) by (cases d; simp)+
  then have "d @ t \<noteq> []" "nondigits (d @ t) = []" "from_digits (d @ t) = d @ t"
    by (cases d; simp add: nondigits_def from_digits_def)+
  then show ?thesis using isAllDigits_whiles [OF assms] by (subst deb_key.simps) simp
qed

lemma deb_key_dot:
  assumes "digit_start s"
  shows "deb_key (CHR ''.'' # s) = 302 # deb_key s"
proof -
  have dot: "\<not> isDigit CHR ''.''" "debianOrder CHR ''.'' = 302"
    by (simp_all add: isDigit_def isLetter_def debianOrder_def byte_def)
  have s: "s \<noteq> []" "nondigits s = []" "from_digits s = s"
    using assms by (cases s; auto simp: digit_start_def nondigits_def from_digits_def)+
  have "nondigits (CHR ''.'' # s) = ''.''" "from_digits (CHR ''.'' # s) = s"
    using s dot by (simp_all add: nondigits_def from_digits_def)
  then show ?thesis using s dot by (simp add: deb_key.simps [of "CHR ''.'' # s"] deb_key.simps [of s])
qed

lemma join_digit_start:
  assumes "core \<noteq> []" "list_all isAllDigits core"
  shows "digit_start (join ''.'' core @ t)"
proof -
  obtain x xs where c: "core = x # xs" using assms(1) by (cases core) auto
  then have "x \<noteq> []" "isDigit (hd x)" using assms(2) by (cases x; simp)+
  then show ?thesis by (simp add: c join_Cons digit_start_def)
qed

text \<open>The verdict of two cores: the numbers side by side, zero for a missing one.\<close>

definition core_cmp :: "string list \<Rightarrow> string list \<Rightarrow> int" where
  "core_cmp = lexpad compareNumericText ''0''"

lemma three_way_core_cmp: "three_way core_cmp"
  unfolding core_cmp_def by (rule three_way_lexpad [OF three_way_compareNumericText])

interpretation core_order: three_way core_cmp
  by (rule three_way_core_cmp)

lemma core_cmp_simps [simp]:
  "core_cmp [] [] = 0"
  "core_cmp (x # xs) [] = then_cmp (compareNumericText x ''0'') (core_cmp xs [])"
  "core_cmp [] (y # ys) = then_cmp (compareNumericText ''0'' y) (core_cmp [] ys)"
  "core_cmp (x # xs) (y # ys) = then_cmp (compareNumericText x y) (core_cmp xs ys)"
  by (simp_all add: core_cmp_def)

lemma core_cmp_Nil_le: "list_all isAllDigits cs \<Longrightarrow> core_cmp [] cs \<le> 0"
proof (induction cs)
  case (Cons y ys)
  have "compareNumericText ''0'' y = sgn (numval ''0'' - numval y)"
    using Cons.prems by (intro compareNumericText_numval) (auto simp: isDigit_def)
  moreover have "numval ''0'' = 0" by (simp add: numval_def byte_def)
  moreover have "0 \<le> numval y" using Cons.prems numval_bounds [of y] by (simp add: isAllDigits_def)
  ultimately have "compareNumericText ''0'' y \<le> 0" by (simp add: sgn_if)
  then show ?case using Cons by (auto simp: then_cmp_def)
qed simp

text \<open>
  A tail that hangs below the core under every scheme: nothing, a tilde, or one hyphen and no other.
\<close>

definition plain_tail :: "string \<Rightarrow> bool" where
  "plain_tail t \<longleftrightarrow> t = [] \<or> hd t = CHR ''~'' \<or> (hd t = CHR ''-'' \<and> CHR ''-'' \<notin> set (tl t))"

definition below_core :: "string \<Rightarrow> bool" where
  "below_core t \<longleftrightarrow> t = [] \<or> hd t = CHR ''~''"

lemma below_core_deb:
  assumes "below_core t"
  shows "lexpad int_cmp 0 (deb_key t) (302 # r) = -1"
proof (cases t)
  case Nil
  then show ?thesis by (simp add: deb_key.simps)
next
  case (Cons c t')
  then have "c = CHR ''~''" using assms by (simp add: below_core_def)
  moreover have "\<not> isDigit CHR ''~''" "debianOrder CHR ''~'' = -1"
    by (simp_all add: isDigit_def isLetter_def debianOrder_def)
  ultimately have "\<exists>k. deb_key t = -1 # k"
    using Cons by (subst deb_key.simps) (simp add: nondigits_def)
  then show ?thesis by auto
qed

lemma below_core_not_digit: "below_core t \<Longrightarrow> \<not> digit_start t"
  by (cases t) (auto simp: below_core_def digit_start_def isDigit_def)

lemma deb_key_core:
  assumes "isAllDigits x" "list_all isAllDigits xs" "\<not> digit_start t"
  shows "deb_key (join ''.'' (x # xs) @ t) = 0 # numval x #
    (if xs = [] then deb_key t else 302 # deb_key (join ''.'' xs @ t))"
proof (cases "xs = []")
  case True
  then show ?thesis using deb_key_digits [OF assms(1,3)] by simp
next
  case False
  have ds: "digit_start (join ''.'' xs @ t)" using join_digit_start [OF False assms(2)] .
  have "\<not> digit_start (CHR ''.'' # join ''.'' xs @ t)" by (simp add: digit_start_def isDigit_def)
  from deb_key_digits [OF assms(1) this] show ?thesis
    using False deb_key_dot [OF ds] by (simp add: join_Cons)
qed

lemma verrevcmp_core:
  assumes "ca \<noteq> []" "cb \<noteq> []" "list_all isAllDigits ca" "list_all isAllDigits cb"
    and "below_core ta" "below_core tb" "core_cmp ca cb \<noteq> 0"
  shows "verrevcmp (join ''.'' ca @ ta) (join ''.'' cb @ tb) = core_cmp ca cb"
  using assms
proof (induction ca arbitrary: cb)
  case (Cons x xs)
  obtain y ys where cb: "cb = y # ys" using Cons.prems by (cases cb) auto
  have d: "isAllDigits x" "isAllDigits y" "list_all isAllDigits xs" "list_all isAllDigits ys"
    using Cons.prems cb by auto
  have nt: "\<not> digit_start ta" "\<not> digit_start tb" using Cons.prems below_core_not_digit by auto
  have n: "compareNumericText x y = int_cmp (numval x) (numval y)"
    using compareNumericText_numval [OF d(1,2)] by (simp add: int_cmp_def)
  have neg: "core_cmp [] ys = -1" if "ys \<noteq> []" "core_cmp [] ys \<noteq> 0"
    using core_cmp_Nil_le [OF d(4)] that core_order.cmp_range [of "[]" ys] by auto
  have pos: "core_cmp xs [] = 1" if "xs \<noteq> []" "core_cmp xs [] \<noteq> 0"
    using core_cmp_Nil_le [OF d(3)] that core_order.cmp_range [of xs "[]"] core_order.cmp_swap [of xs "[]"] by auto
  have lo: "lexpad int_cmp 0 (302 # r) (deb_key t) = 1" if "below_core t" for r t
  proof -
    have "lexpad int_cmp 0 (302 # r) (deb_key t) = - lexpad int_cmp 0 (deb_key t) (302 # r)"
      by (rule three_way.cmp_swap [OF three_way_lexpad [OF three_way_int_cmp]])
    then show ?thesis by (simp add: below_core_deb [OF that])
  qed
  show ?case
  proof (cases "compareNumericText x y = 0")
    case False
    then show ?thesis
      using n by (simp add: cb verrevcmp_key deb_key_core [OF d(1,3) nt(1)] deb_key_core [OF d(2,4) nt(2)])
  next
    case True
    then have rest: "core_cmp xs ys \<noteq> 0" using Cons.prems cb by simp
    note keys = verrevcmp_key deb_key_core [OF d(1,3) nt(1)] deb_key_core [OF d(2,4) nt(2)]
      deb_key_digits [OF d(1) nt(1)] deb_key_digits [OF d(2) nt(2)]
    have eq: "int_cmp (numval x) (numval y) = 0" using True n by simp
    consider "xs = []" "ys \<noteq> []" | "xs \<noteq> []" "ys = []" | "xs \<noteq> []" "ys \<noteq> []" using rest by fastforce
    then have "verrevcmp (join ''.'' (x # xs) @ ta) (join ''.'' (y # ys) @ tb) = core_cmp xs ys"
    proof cases
      case 1
      then show ?thesis using eq neg rest below_core_deb [OF Cons.prems(5)] by (simp add: keys)
    next
      case 2
      then show ?thesis using eq pos rest lo [OF Cons.prems(6)] by (simp add: keys)
    next
      case 3
      then have "verrevcmp (join ''.'' xs @ ta) (join ''.'' ys @ tb) = core_cmp xs ys"
        using Cons.prems d rest by (intro Cons.IH) auto
      with 3 show ?thesis using eq by (simp add: keys)
    qed
    then show ?thesis using True cb by simp
  qed
qed simp

lemma rpm_toks_digits:
  assumes "isAllDigits d" "\<not> digit_start t"
  shows "rpm_toks (d @ t) = RNum (numval d) # rpm_toks t"
proof -
  obtain c r where d: "d = c # r" "isDigit c" using assms(1) by (cases d) auto
  then have "\<not> rpm_sep c" by (simp add: rpm_sep_def)
  then have "skip_seps (d @ t) = c # (r @ t)" using d by (simp add: skip_seps_def)
  from rpm_toks_eqs(4) [OF this d(2)] show ?thesis
    using isAllDigits_whiles [OF assms] d by simp
qed

lemma rpm_toks_sep: "rpm_sep c \<Longrightarrow> rpm_toks (c # s) = rpm_toks s"
  by (subst (1 2) rpm_toks.simps) (simp add: skip_seps_def)

lemma rpm_toks_core:
  assumes "isAllDigits x" "list_all isAllDigits xs" "\<not> digit_start t"
  shows "rpm_toks (join ''.'' (x # xs) @ t) = RNum (numval x) #
    (if xs = [] then rpm_toks t else rpm_toks (join ''.'' xs @ t))"
proof (cases "xs = []")
  case True
  then show ?thesis using rpm_toks_digits [OF assms(1,3)] by simp
next
  case False
  have "\<not> digit_start (CHR ''.'' # join ''.'' xs @ t)" by (simp add: digit_start_def isDigit_def)
  moreover have "rpm_sep CHR ''.''" by (simp add: rpm_sep_def isAlnum_def isDigit_def isLetter_def)
  ultimately show ?thesis
    using False rpm_toks_digits [OF assms(1)] by (simp add: join_Cons rpm_toks_sep)
qed

lemma below_core_rpm:
  assumes "below_core t"
  shows "lexpad rpm_tok_cmp REnd (rpm_toks t) (RNum n # r) = -1"
proof (cases t)
  case Nil
  then have "rpm_toks t = []" by (simp add: rpm_toks_eqs skip_seps_def)
  then show ?thesis by (simp add: rpm_tok_cmp_def)
next
  case (Cons c t')
  moreover have "rpm_toks [] = []" by (simp add: rpm_toks_eqs skip_seps_def)
  moreover have "c = CHR ''~''" using Cons assms by (simp add: below_core_def)
  ultimately have "rpm_toks t = RTilde # rpm_toks t'"
    using rpm_toks_mark [of "CHR ''~''" RTilde "[]" t'] by simp
  then show ?thesis by (simp add: rpm_tok_cmp_def)
qed

lemma rpmvercmp_core:
  assumes "ca \<noteq> []" "cb \<noteq> []" "list_all isAllDigits ca" "list_all isAllDigits cb"
    and "below_core ta" "below_core tb" "core_cmp ca cb \<noteq> 0"
  shows "rpmvercmp (join ''.'' ca @ ta) (join ''.'' cb @ tb) = core_cmp ca cb"
  using assms
proof (induction ca arbitrary: cb)
  case (Cons x xs)
  obtain y ys where cb: "cb = y # ys" using Cons.prems by (cases cb) auto
  have d: "isAllDigits x" "isAllDigits y" "list_all isAllDigits xs" "list_all isAllDigits ys"
    using Cons.prems cb by auto
  have nt: "\<not> digit_start ta" "\<not> digit_start tb" using Cons.prems below_core_not_digit by auto
  have n: "rpm_tok_cmp (RNum (numval x)) (RNum (numval y)) = compareNumericText x y"
    using compareNumericText_numval [OF d(1,2)] by (simp add: rpm_tok_cmp_def int_cmp_def)
  have neg: "core_cmp [] ys = -1" if "ys \<noteq> []" "core_cmp [] ys \<noteq> 0"
    using core_cmp_Nil_le [OF d(4)] that core_order.cmp_range [of "[]" ys] by auto
  have pos: "core_cmp xs [] = 1" if "xs \<noteq> []" "core_cmp xs [] \<noteq> 0"
    using core_cmp_Nil_le [OF d(3)] that core_order.cmp_range [of xs "[]"] core_order.cmp_swap [of xs "[]"] by auto
  have lo: "lexpad rpm_tok_cmp REnd (RNum m # r) (rpm_toks t) = 1" if "below_core t" for r t m
  proof -
    have "lexpad rpm_tok_cmp REnd (RNum m # r) (rpm_toks t)
        = - lexpad rpm_tok_cmp REnd (rpm_toks t) (RNum m # r)"
      by (rule three_way.cmp_swap [OF three_way_lexpad [OF three_way_rpm_tok_cmp]])
    then show ?thesis by (simp add: below_core_rpm [OF that])
  qed
  note keys = rpmvercmp_toks rpm_toks_core [OF d(1,3) nt(1)] rpm_toks_core [OF d(2,4) nt(2)] n
    rpm_toks_digits [OF d(1) nt(1)] rpm_toks_digits [OF d(2) nt(2)]
  show ?case
  proof (cases "compareNumericText x y = 0")
    case False
    then show ?thesis by (simp add: cb keys)
  next
    case eq: True
    then have rest: "core_cmp xs ys \<noteq> 0" using Cons.prems cb by simp
    have num_first: "\<exists>m r. rpm_toks (join ''.'' zs @ t) = RNum m # r"
      if "zs \<noteq> []" "list_all isAllDigits zs" "\<not> digit_start t" for zs t
      using that by (cases zs) (auto simp: rpm_toks_core)
    consider "xs = []" "ys \<noteq> []" | "xs \<noteq> []" "ys = []" | "xs \<noteq> []" "ys \<noteq> []" using rest by fastforce
    then have "rpmvercmp (join ''.'' (x # xs) @ ta) (join ''.'' (y # ys) @ tb) = core_cmp xs ys"
    proof cases
      case 1
      obtain m r where "rpm_toks (join ''.'' ys @ tb) = RNum m # r"
        using num_first [OF 1(2) d(4) nt(2)] by blast
      then show ?thesis using 1 eq neg rest below_core_rpm [OF Cons.prems(5)] by (simp add: keys)
    next
      case 2
      obtain m r where "rpm_toks (join ''.'' xs @ ta) = RNum m # r"
        using num_first [OF 2(1) d(3) nt(1)] by blast
      then show ?thesis using 2 eq pos rest lo [OF Cons.prems(6)] by (simp add: keys)
    next
      case 3
      then have "rpmvercmp (join ''.'' xs @ ta) (join ''.'' ys @ tb) = core_cmp xs ys"
        using Cons.prems d rest by (intro Cons.IH) auto
      with 3 show ?thesis using eq by (simp add: keys)
    qed
    then show ?thesis using eq cb by simp
  qed
qed simp

text \<open>Where the two schemes cut the version at its last hyphen, the core stays whole.\<close>

lemma core_no_hyphen: "list_all isAllDigits cs \<Longrightarrow> CHR ''-'' \<notin> set (join ''.'' cs) \<and> CHR '':'' \<notin> set (join ''.'' cs)"
proof (induction cs)
  case (Cons x xs)
  have "CHR ''-'' \<notin> set x \<and> CHR '':'' \<notin> set x" using Cons.prems
    by (auto simp: isAllDigits_def list_all_iff isDigit_def)
  then show ?case using Cons by (auto simp: join_Cons)
qed simp

definition cut_last :: "string \<Rightarrow> string \<times> string" where
  "cut_last s = (case split_last CHR ''-'' s of None \<Rightarrow> (s, []) | Some (h, t) \<Rightarrow> (h, t))"

lemma cut_last_core:
  assumes "list_all isAllDigits cs" "plain_tail t"
  shows "\<exists>t' r. cut_last (join ''.'' cs @ t) = (join ''.'' cs @ t', r) \<and> below_core t'"
proof (cases "CHR ''-'' \<in> set t")
  case False
  then have "cut_last (join ''.'' cs @ t) = (join ''.'' cs @ t, [])"
    using core_no_hyphen [OF assms(1)] by (simp add: cut_last_def split_last_def)
  moreover have "below_core t" using assms(2) False by (cases t) (auto simp: plain_tail_def below_core_def)
  ultimately show ?thesis by blast
next
  case True
  then obtain h r where hr: "split_last CHR ''-'' t = Some (h, r)" by (cases "split_last CHR ''-'' t") auto
  from split_last_Some [OF this] have t: "t = h @ CHR ''-'' # r" "CHR ''-'' \<notin> set r" by auto
  then have "split_last CHR ''-'' (join ''.'' cs @ t) = Some (join ''.'' cs @ h, r)"
    using split_last_append [of "CHR ''-''" r "join ''.'' cs @ h"] by simp
  moreover have "below_core h" using assms(2) t by (cases h) (auto simp: plain_tail_def below_core_def)
  ultimately show ?thesis by (auto simp: cut_last_def)
qed

lemma no_epoch:
  assumes "\<not> hasEpoch s" "split_first CHR '':'' s = Some (h, t)"
  shows "\<not> isAllDigits h"
proof
  assume h: "isAllDigits h"
  have s: "s = h @ CHR '':'' # t" using split_first_Some [OF assms(2)] by blast
  have "\<not> digit_start (CHR '':'' # t)" by (simp add: digit_start_def isDigit_def)
  from isAllDigits_whiles [OF h this] s h assms(1) show False
    by (auto simp: hasEpoch_def starts_with_def isAllDigits_def)
qed

lemma splitDebian_no_epoch:
  assumes "\<not> hasEpoch s"
  shows "\<exists>c. splitDebian s = (''0'', fst (cut_last s), snd (cut_last s), c)"
  using no_epoch [OF assms]
  by (cases "split_first CHR '':'' s"; cases "split_last CHR ''-'' s")
    (auto simp: splitDebian_def cut_last_def Let_def simp del: split_first_None split_last_None)

lemma splitEVR_no_epoch:
  assumes "\<not> hasEpoch s"
  shows "splitEVR s = (''0'', fst (cut_last s), snd (cut_last s))"
  using no_epoch [OF assms]
  by (cases "split_first CHR '':'' s"; cases "split_last CHR ''-'' s")
    (auto simp: splitEVR_def cut_last_def Let_def simp del: split_first_None split_last_None)

lemma compareCores_verdict:
  "(core_cmp ca cb \<noteq> 0 \<longrightarrow> compareCores ta tb ca cb c = Inl (Some (n, d)) \<longrightarrow> n = core_cmp ca cb)
   \<and> (core_cmp ca cb = 0 \<longleftrightarrow> (\<exists>e. compareCores ta tb ca cb c = Inr e))"
proof (induction ta tb ca cb c rule: compareCores.induct)
  case (1 ta tb ca cb c)
  have step: "core_cmp ca cb = then_cmp (compareNumericText (hd_or ''0'' ca) (hd_or ''0'' cb)) (core_cmp (tl ca) (tl cb))"
    unfolding core_cmp_def by (rule lexpad_step [OF three_way_compareNumericText])
  show ?case
  proof (cases "ca = [] \<and> cb = []")
    case True
    then show ?thesis by (simp add: compareCores.simps [of ta tb "[]" "[]" c])
  next
    case ne: False
    show ?thesis
    proof (cases "compareNumericText (hd_or ''0'' ca) (hd_or ''0'' cb) = 0")
      case True
      then show ?thesis
        using "1.IH" [OF ne refl refl refl] ne step by (auto simp: compareCores.simps [of ta tb ca cb c] Let_def)
    next
      case False
      then show ?thesis using ne step by (auto simp: compareCores.simps [of ta tb ca cb c] Let_def)
    qed
  qed
qed

lemma compareGeneric_core_agrees:
  assumes g: "compareGeneric a b = Some (n, c)"
    and plain: "stripV a = a" "stripV b = b" "plain_tail (core_tail a)" "plain_tail (core_tail b)"
    and decided: "core_cmp (numeric_core a) (numeric_core b) \<noteq> 0"
  shows "n = core_cmp (numeric_core a) (numeric_core b)" "debian_cmp a b = n" "rpm_cmp a b = n"
proof -
  obtain ca ta where a: "core_from a = (ca, ta)" by fastforce
  obtain cb tb where b: "core_from b = (cb, tb)" by fastforce
  have parts: "numeric_core a = ca" "core_tail a = ta" "numeric_core b = cb" "core_tail b = tb"
    by (simp_all add: numeric_core_def core_tail_def a b)
  have ep: "\<not> hasEpoch a" "\<not> hasEpoch b" and ne: "ca \<noteq> []" "cb \<noteq> []"
    using g plain by (auto simp: compareGeneric_def splitNumericCore_def a b split: if_splits)
  from core_from_parts [OF a] core_from_parts [OF b]
  have s: "a = join ''.'' ca @ ta" "b = join ''.'' cb @ tb"
    and d: "list_all isAllDigits ca" "list_all isAllDigits cb" by auto
  have cc: "core_cmp ca cb \<noteq> 0" using decided parts by simp
  then have "\<nexists>e. compareCores (tokenize ta) (tokenize tb) ca cb Exact = Inr e"
    using compareCores_verdict by blast
  then have "compareCores (tokenize ta) (tokenize tb) ca cb Exact = Inl (Some (n, c))"
    using g plain ep ne
    by (auto simp: compareGeneric_def splitNumericCore_def a b split: sum.splits)
  from compareCores_verdict cc this have "n = core_cmp ca cb" by blast
  then show n: "n = core_cmp (numeric_core a) (numeric_core b)"
    by (simp add: parts)
  obtain ta' ra where la: "cut_last a = (join ''.'' ca @ ta', ra)" "below_core ta'"
    using cut_last_core [OF d(1), of ta] plain parts s by auto
  obtain tb' rb where lb: "cut_last b = (join ''.'' cb @ tb', rb)" "below_core tb'"
    using cut_last_core [OF d(2), of tb] plain parts s by auto
  show "debian_cmp a b = n"
    using splitDebian_no_epoch [OF ep(1)] splitDebian_no_epoch [OF ep(2)] la lb n parts cc
      verrevcmp_core [OF ne d la(2) lb(2) cc]
    by (auto simp: debian_cmp_eq)
  show "rpm_cmp a b = n"
    using splitEVR_no_epoch [OF ep(1)] splitEVR_no_epoch [OF ep(2)] la lb n parts cc
      rpmvercmp_core [OF ne d la(2) lb(2) cc]
    by (auto simp: rpm_cmp_eq)
qed

end
