(* ===== verification/Alpine_Order.thy ===== *)
theory Alpine_Order
  imports Generic_Order
begin

text \<open>
  \<open>internal/version/alpine.go\<close>: the strict reading of an apk version, the comparison of two of them
  and the fallback to the generic ordering. Shown: what a successful parse guarantees, that the
  comparison of parsed versions keeps the \<open>three_way\<close> contract, and the places of the pre and post
  suffixes, of the package revision and of the trailing component.
\<close>

record alpineNumber =
  zeroes :: nat
  digits :: string

record alpineSuffix =
  rank :: int
  number :: string

record alpineVersion =
  numbers :: "alpineNumber list"
  letter :: string
  suffixes :: "alpineSuffix list"
  revision :: string

definition alpineSuffixRanks :: "(string \<times> int) list" where
  "alpineSuffixRanks =
     [(''alpha'', -4), (''beta'', -3), (''pre'', -2), (''rc'', -1), (''cvs'', 1), (''svn'', 2),
      (''git'', 3), (''hg'', 4), (''p'', 5)]"

section \<open>Reading\<close>

text \<open>\<open>strings.LastIndex(s, "-r")\<close> with the slices \<open>s[:i]\<close> and \<open>s[i+2:]\<close>.\<close>

fun split_last_r :: "string \<Rightarrow> (string \<times> string) option" where
  "split_last_r (c # d # s) =
     (case split_last_r (d # s) of
        Some (h, t) \<Rightarrow> Some (c # h, t)
      | None \<Rightarrow> if c = CHR ''-'' \<and> d = CHR ''r'' then Some ([], s) else None)"
| "split_last_r _ = None"

text \<open>The dotted components: only the first one is read as a plain number.\<close>

fun alpine_numbers :: "nat \<Rightarrow> string list \<Rightarrow> alpineNumber list option" where
  "alpine_numbers i [] = Some []"
| "alpine_numbers i (part # rest) =
     (if \<not> isAllDigits part then None
      else map_option
             ((#) \<lparr>zeroes = (if 0 < i then length (takeWhile (\<lambda>c. c = CHR ''0'') part) else 0), digits = part\<rparr>)
             (alpine_numbers (Suc i) rest))"

text \<open>The suffix groups, one round per group.\<close>

function alpine_suffixes :: "string \<Rightarrow> alpineSuffix list option" where
  "alpine_suffixes rest =
     (if rest = [] then Some []
      else if hd rest \<noteq> CHR ''_'' then None
      else
        let rest1 = tl rest; word = takeWhile isLetter rest1 in
        case map_of alpineSuffixRanks (to_lower word) of
          None \<Rightarrow> None
        | Some r \<Rightarrow>
            let rest2 = drop (length word) rest1 in
            map_option ((#) \<lparr>rank = r, number = takeWhile isDigit rest2\<rparr>)
              (alpine_suffixes (dropWhile isDigit rest2)))"
  by pat_completeness auto
termination
proof (relation "measure length", goal_cases)
  case (2 rest rest1 word r rest2)
  then have "length rest1 < length rest" by (cases rest) auto
  moreover have "length rest2 \<le> length rest1" using 2 by simp
  moreover have "length (dropWhile isDigit rest2) \<le> length rest2" by (rule dropWhile_length_le)
  ultimately have "length (dropWhile isDigit rest2) < length rest" by linarith
  then show ?case by simp
qed simp

declare alpine_suffixes.simps [simp del]

definition alpine_revision :: "string \<Rightarrow> string \<times> string" where
  "alpine_revision s =
     (case split_last_r s of
        None \<Rightarrow> ([], s)
      | Some (h, rv) \<Rightarrow> if isAllDigits rv then (rv, h) else ([], s))"

definition parseAlpine :: "string \<Rightarrow> alpineVersion option" where
  "parseAlpine s =
     (let (rv, rest) = alpine_revision (stripV s) in
      if CHR ''-'' \<in> set rest \<or> rest = [] then None
      else
        let (nums, rest2) =
              (case split_first CHR ''_'' rest of
                 None \<Rightarrow> (rest, []) | Some (h, t) \<Rightarrow> (h, CHR ''_'' # t));
            (lt, nums2) =
              (if nums \<noteq> [] \<and> isLetter (last nums) then (to_lower [last nums], butlast nums) else ([], nums))
        in if nums2 = [] then None
           else
             case alpine_numbers 0 (split CHR ''.'' nums2) of
               None \<Rightarrow> None
             | Some ns \<Rightarrow>
                 map_option (\<lambda>sfx. \<lparr>numbers = ns, letter = lt, suffixes = sfx, revision = rv\<rparr>)
                   (alpine_suffixes rest2))"

section \<open>Comparing\<close>

definition compareAlpineNumbers :: "alpineNumber \<Rightarrow> alpineNumber \<Rightarrow> int" where
  "compareAlpineNumbers a b =
     (if 0 < zeroes a \<and> 0 < zeroes b then
        then_cmp (sign (int (zeroes b) - int (zeroes a))) (compareNumericText (digits a) (digits b))
      else if 0 < zeroes a then -1
      else if 0 < zeroes b then 1
      else compareNumericText (digits a) (digits b))"

definition compareAlpineStated :: "string \<Rightarrow> string \<Rightarrow> int" where
  "compareAlpineStated a b =
     (if a = [] \<and> b = [] then 0
      else if a = [] then -1
      else if b = [] then 1
      else compareNumericText a b)"

text \<open>The loop over the suffixes: \<open>Some\<close> is a return, \<open>None\<close> goes on to the revision.\<close>

fun suffix_loop :: "alpineSuffix list \<Rightarrow> alpineSuffix list \<Rightarrow> int option" where
  "suffix_loop [] [] = None"
| "suffix_loop [] (y # ys) = Some (- sign (rank y))"
| "suffix_loop (x # xs) [] = Some (sign (rank x))"
| "suffix_loop (x # xs) (y # ys) =
     (if rank x \<noteq> rank y then Some (sign (rank x - rank y))
      else if compareAlpineStated (number x) (number y) \<noteq> 0
      then Some (compareAlpineStated (number x) (number y))
      else suffix_loop xs ys)"

definition alpine_answer :: "alpineVersion \<Rightarrow> alpineVersion \<Rightarrow> int" where
  "alpine_answer a b =
     then_cmp (lexlist compareAlpineNumbers (numbers a) (numbers b))
       (if letter a \<noteq> letter b then sign (str_compare (letter a) (letter b))
        else (case suffix_loop (suffixes a) (suffixes b) of
                Some n \<Rightarrow> n
              | None \<Rightarrow> compareAlpineStated (revision a) (revision b)))"

definition compareAlpine :: "string \<Rightarrow> string \<Rightarrow> (int \<times> Certainty) option" where
  "compareAlpine a b =
     (case (parseAlpine a, parseAlpine b) of
        (Some pa, Some pb) \<Rightarrow> Some (alpine_answer pa pb, Exact)
      | _ \<Rightarrow> map_option (\<lambda>(n, _). (n, Heuristic)) (compareGeneric a b))"

section \<open>What a parse guarantees\<close>

definition stated :: "string \<Rightarrow> bool" where
  "stated s \<longleftrightarrow> s = [] \<or> isAllDigits s"

definition alpine_wf :: "alpineVersion \<Rightarrow> bool" where
  "alpine_wf v \<longleftrightarrow> numbers v \<noteq> [] \<and> list_all (\<lambda>n. isAllDigits (digits n)) (numbers v)
     \<and> zeroes (hd (numbers v)) = 0 \<and> length (letter v) \<le> 1
     \<and> list_all (\<lambda>x. rank x \<noteq> 0 \<and> stated (number x)) (suffixes v) \<and> stated (revision v)"

lemma stated_takeWhile: "stated (takeWhile isDigit s)"
  by (simp add: stated_def isAllDigits_def takeWhile_run)

lemma alpine_numbers_wf:
  "alpine_numbers i parts = Some ns \<Longrightarrow>
     length ns = length parts \<and> list_all (\<lambda>n. isAllDigits (digits n)) ns
     \<and> (i = 0 \<longrightarrow> ns \<noteq> [] \<longrightarrow> zeroes (hd ns) = 0)"
  by (induction i parts arbitrary: ns rule: alpine_numbers.induct) (auto split: if_splits)

lemma alpineSuffixRanks_nonzero: "map_of alpineSuffixRanks w = Some r \<Longrightarrow> r \<noteq> 0"
  by (auto simp: alpineSuffixRanks_def split: if_splits)

lemma alpine_suffixes_wf:
  "alpine_suffixes rest = Some sfx \<Longrightarrow> list_all (\<lambda>x. rank x \<noteq> 0 \<and> stated (number x)) sfx"
proof (induction rest arbitrary: sfx rule: alpine_suffixes.induct)
  case (1 rest)
  show ?case
  proof (cases "rest = []")
    case True
    then show ?thesis using "1.prems" by (simp add: alpine_suffixes.simps)
  next
    case False
    from "1.prems" False obtain r sfx' where
      w: "hd rest = CHR ''_''" "map_of alpineSuffixRanks (to_lower (takeWhile isLetter (tl rest))) = Some r"
      and s: "alpine_suffixes (dropWhile isDigit (drop (length (takeWhile isLetter (tl rest))) (tl rest))) = Some sfx'"
      "sfx = \<lparr>rank = r, number = takeWhile isDigit (drop (length (takeWhile isLetter (tl rest))) (tl rest))\<rparr> # sfx'"
      by (auto simp: alpine_suffixes.simps [of rest] Let_def split: if_splits option.splits)
    have "list_all (\<lambda>x. rank x \<noteq> 0 \<and> stated (number x)) sfx'"
      using "1.IH" [OF False _ refl refl w(2) refl s(1)] w(1) by simp
    then show ?thesis using s(2) alpineSuffixRanks_nonzero [OF w(2)] stated_takeWhile by simp
  qed
qed

lemma parseAlpine_wf: "parseAlpine s = Some v \<Longrightarrow> alpine_wf v"
proof -
  assume a: "parseAlpine s = Some v"
  obtain rv rest where r: "alpine_revision (stripV s) = (rv, rest)" by fastforce
  obtain nums lt rest2 ns sfx where
    v: "v = \<lparr>numbers = ns, letter = lt, suffixes = sfx, revision = rv\<rparr>"
    and ns: "alpine_numbers 0 (split CHR ''.'' nums) = Some ns"
    and sfx: "alpine_suffixes rest2 = Some sfx" and lt: "length lt \<le> 1"
    using a r by (auto simp: parseAlpine_def Let_def split: if_splits option.splits prod.splits)
  have "stated rv" using r by (auto simp: alpine_revision_def stated_def split: option.splits if_splits)
  then show ?thesis
    using alpine_numbers_wf [OF ns] alpine_suffixes_wf [OF sfx] lt split_nonempty [of "CHR ''.''" nums]
    by (auto simp: v alpine_wf_def)
qed

section \<open>The order laws\<close>

lemma compareAlpineNumbers_key:
  "compareAlpineNumbers a b =
     then_cmp (int_cmp (- int (zeroes a)) (- int (zeroes b))) (compareNumericText (digits a) (digits b))"
  by (auto simp: compareAlpineNumbers_def int_cmp_def sign_sgn)

lemma three_way_compareAlpineNumbers: "three_way compareAlpineNumbers"
  by (rule three_way_eqI [OF compareAlpineNumbers_key])
    (intro three_way_then three_way_key [OF three_way_int_cmp] three_way_key [OF three_way_compareNumericText])

lemma compareAlpineStated_key:
  "compareAlpineStated a b =
     opt_cmp compareNumericText (if a = [] then None else Some a) (if b = [] then None else Some b)"
  by (simp add: compareAlpineStated_def)

lemma three_way_compareAlpineStated: "three_way compareAlpineStated"
  by (rule three_way_eqI [OF compareAlpineStated_key])
    (rule three_way_key [OF three_way_opt_cmp [OF three_way_compareNumericText]])

definition suffix_cmp :: "alpineSuffix \<Rightarrow> alpineSuffix \<Rightarrow> int" where
  "suffix_cmp x y = then_cmp (int_cmp (rank x) (rank y)) (compareAlpineStated (number x) (number y))"

definition no_suffix :: alpineSuffix where
  "no_suffix = \<lparr>rank = 0, number = []\<rparr>"

lemma three_way_suffix_cmp: "three_way suffix_cmp"
  by (rule three_way_eqI [OF suffix_cmp_def])
    (intro three_way_then three_way_key [OF three_way_int_cmp] three_way_key [OF three_way_compareAlpineStated])

lemma suffix_loop_lexpad:
  assumes "list_all (\<lambda>x. rank x \<noteq> 0) xs" "list_all (\<lambda>x. rank x \<noteq> 0) ys"
  shows "(case suffix_loop xs ys of Some n \<Rightarrow> n | None \<Rightarrow> m) = then_cmp (lexpad suffix_cmp no_suffix xs ys) m"
  using assms
proof (induction xs ys rule: suffix_loop.induct)
  case (2 y ys)
  then show ?case by (simp add: suffix_cmp_def no_suffix_def int_cmp_def sign_sgn then_cmp_def sgn_if)
next
  case (3 x xs)
  then show ?case by (simp add: suffix_cmp_def no_suffix_def int_cmp_def sign_sgn then_cmp_def sgn_if)
next
  case (4 x xs y ys)
  then show ?case by (simp add: suffix_cmp_def then_cmp_def int_cmp_def sign_sgn sgn_if)
qed simp

definition alpine_order :: "alpineVersion \<Rightarrow> alpineVersion \<Rightarrow> int" where
  "alpine_order a b =
     then_cmp (lexlist compareAlpineNumbers (numbers a) (numbers b))
       (then_cmp (str_compare (letter a) (letter b))
         (then_cmp (lexpad suffix_cmp no_suffix (suffixes a) (suffixes b))
           (compareAlpineStated (revision a) (revision b))))"

lemma three_way_alpine_order: "three_way alpine_order"
  by (rule three_way_eqI [OF alpine_order_def])
    (intro three_way_then three_way_key [OF three_way_lexlist [OF three_way_compareAlpineNumbers]]
      three_way_key [OF three_way_str_compare]
      three_way_key [OF three_way_lexpad [OF three_way_suffix_cmp]]
      three_way_key [OF three_way_compareAlpineStated])

interpretation alpine: three_way alpine_order
  by (rule three_way_alpine_order)

lemma alpine_answer_order:
  assumes "alpine_wf a" "alpine_wf b"
  shows "alpine_answer a b = alpine_order a b"
  using suffix_loop_lexpad [of "suffixes a" "suffixes b"] assms
  by (auto simp: alpine_answer_def alpine_order_def alpine_wf_def list_all_iff str_order.cmp_refl)

lemma compareAlpine_swap: "compareAlpine b a = neg_answer (compareAlpine a b)"
proof (cases "parseAlpine a = None \<or> parseAlpine b = None")
  case True
  then show ?thesis using compareGeneric_swap [of b a]
    by (cases "compareGeneric a b") (auto simp: compareAlpine_def split: option.splits)
next
  case False
  then obtain pa pb where p: "parseAlpine a = Some pa" "parseAlpine b = Some pb" by auto
  then show ?thesis
    using alpine.cmp_swap [of pa pb] alpine_answer_order parseAlpine_wf
    by (simp add: compareAlpine_def)
qed

text \<open>The readable consequences: where a suffix, a revision and a trailing component put a version.\<close>

lemma alpine_suffix_place:
  assumes "alpine_wf a" "alpine_wf b" "numbers a = numbers b" "letter a = letter b"
    and "suffixes a = []" "suffixes b = x # xs"
  shows "alpine_answer b a = sign (rank x)"
  using assms by (simp add: alpine_answer_def three_way.cmp_refl [OF three_way_lexlist [OF three_way_compareAlpineNumbers]])

lemma alpine_revision_place:
  assumes "alpine_wf a" "revision a = []" "r \<noteq> []"
  shows "alpine_answer a (a\<lparr>revision := r\<rparr>) = -1"
proof -
  have "suffix_loop s s = None" for s
    by (induction s) (simp_all add: three_way.cmp_refl [OF three_way_compareAlpineStated])
  then show ?thesis using assms
    by (simp add: alpine_answer_def compareAlpineStated_def
        three_way.cmp_refl [OF three_way_lexlist [OF three_way_compareAlpineNumbers]])
qed

lemma alpine_component_place:
  assumes "ns \<noteq> []"
  shows "alpine_answer a (a\<lparr>numbers := numbers a @ ns\<rparr>) = -1"
proof -
  have "lexlist compareAlpineNumbers xs (xs @ ns) = -1" for xs
    using assms by (induction xs) (auto simp: neq_Nil_conv three_way.cmp_refl [OF three_way_compareAlpineNumbers])
  then show ?thesis by (simp add: alpine_answer_def)
qed

end
