(* ===== verification/Python_Order.thy ===== *)
theory Python_Order
  imports Regexp Generic_Order
begin

text \<open>
  \<open>internal/version/python.go\<close>: the regular expression of PEP 440 as an expression of \<open>Regexp\<close>, the
  reduction of a match to a comparison key, and the order of two keys. Shown: what the key of a parsed
  version looks like, that the order keeps the \<open>three_way\<close> contract, and that a dev release is below
  a pre-release, a pre-release below the release and the release below a post release.
\<close>

section \<open>The expression\<close>

definition digit_run_re :: regexp where
  "digit_run_re = Plus (Cls isDigit)"

text \<open>\<open>[-_\.]\<close>, \<open>[a-z0-9]\<close> under \<open>(?i)\<close>, and \<open>\s\<close>.\<close>

definition sep_char :: "char \<Rightarrow> bool" where
  "sep_char c \<longleftrightarrow> c = CHR ''-'' \<or> c = CHR ''_'' \<or> c = CHR ''.''"

definition re_space :: "char \<Rightarrow> bool" where
  "re_space c \<longleftrightarrow> c = CHR 0x09 \<or> c = CHR 0x0A \<or> c = CHR 0x0C \<or> c = CHR 0x0D \<or> c = CHR '' ''"

definition release_re :: regexp where
  "release_re = Seq digit_run_re (Star (Seq (Lit ''.'') digit_run_re))"

definition pre_re :: regexp where
  "pre_re = Seqs [Opt (Cls sep_char),
     Group ''pre_l'' (Alts [''alpha'', ''a'', ''beta'', ''b'', ''preview'', ''pre'', ''c'', ''rc'']),
     Opt (Cls sep_char), Opt (Group ''pre_n'' digit_run_re)]"

definition post_re :: regexp where
  "post_re = Alt (Seq (Lit ''-'') (Group ''post_n1'' digit_run_re))
     (Seqs [Opt (Cls sep_char), Group ''post_l'' (Alts [''post'', ''rev'', ''r'']),
        Opt (Cls sep_char), Opt (Group ''post_n2'' digit_run_re)])"

definition dev_re :: regexp where
  "dev_re = Seqs [Opt (Cls sep_char), Group ''dev_l'' (Lit ''dev''), Opt (Cls sep_char),
     Opt (Group ''dev_n'' digit_run_re)]"

definition local_re :: regexp where
  "local_re = Seq (Plus (Cls isAlnum)) (Star (Seq (Cls sep_char) (Plus (Cls isAlnum))))"

definition pep440Pattern :: regexp where
  "pep440Pattern = Seqs [Star (Cls re_space), Opt (Lit ''v''),
     Opt (Seq (Group ''epoch'' digit_run_re) (Lit ''!'')),
     Group ''release'' release_re,
     Opt (Group ''pre'' pre_re),
     Opt (Group ''post'' post_re),
     Opt (Group ''dev'' dev_re),
     Opt (Seq (Lit ''+'') (Group ''local'' local_re)),
     Star (Cls re_space)]"

section \<open>The key\<close>

record pep440 =
  epoch :: string
  release :: "string list"
  preSort :: int
  preNum :: string
  postSet :: bool
  postNum :: string
  devSet :: bool
  devNum :: string
  local :: "string list"

definition preSortDev :: int where
  "preSortDev = -1"

definition preSortFinal :: int where
  "preSortFinal = 3"

definition pep440PreRanks :: "(string \<times> int) list" where
  "pep440PreRanks = [(''a'', 0), (''b'', 1), (''rc'', 2)]"

definition pep440PreAliases :: "(string \<times> string) list" where
  "pep440PreAliases =
     [(''alpha'', ''a''), (''a'', ''a''), (''beta'', ''b''), (''b'', ''b''), (''c'', ''rc''),
      (''pre'', ''rc''), (''preview'', ''rc''), (''rc'', ''rc'')]"

text \<open>A Go map read at an absent key gives the zero value.\<close>

definition pre_rank :: "string \<Rightarrow> int" where
  "pre_rank l =
     (let alias = (case map_of pep440PreAliases l of None \<Rightarrow> [] | Some a \<Rightarrow> a)
      in case map_of pep440PreRanks alias of None \<Rightarrow> 0 | Some r \<Rightarrow> r)"

definition or_zero :: "string \<Rightarrow> string" where
  "or_zero n = (if n \<noteq> [] then n else ''0'')"

text \<open>\<open>strings.FieldsFunc\<close>: the pieces between the bytes of the class, empty pieces dropped.\<close>

fun pieces :: "(char \<Rightarrow> bool) \<Rightarrow> string \<Rightarrow> string list" where
  "pieces p [] = [[]]"
| "pieces p (x # xs) =
     (if p x then [] # pieces p xs
      else (case pieces p xs of [] \<Rightarrow> [[x]] | h # t \<Rightarrow> (x # h) # t))"

definition fields_func :: "(char \<Rightarrow> bool) \<Rightarrow> string \<Rightarrow> string list" where
  "fields_func p s = filter (\<lambda>w. w \<noteq> []) (pieces p s)"

definition pep440_key :: "captures \<Rightarrow> pep440" where
  "pep440_key m =
     (let g = group_text m;
          has_pre = g ''pre_l'' \<noteq> []; post = g ''post'' \<noteq> []; dev = g ''dev'' \<noteq> [];
          sort0 = (if has_pre then pre_rank (g ''pre_l'') else preSortFinal)
      in \<lparr>epoch = or_zero (g ''epoch''),
          release = split CHR ''.'' (g ''release''),
          preSort = (if sort0 = preSortFinal \<and> \<not> post \<and> dev then preSortDev else sort0),
          preNum = (if has_pre then or_zero (g ''pre_n'') else []),
          postSet = post,
          postNum = (if post then (if g ''post_n1'' \<noteq> [] then g ''post_n1'' else or_zero (g ''post_n2'')) else []),
          devSet = dev,
          devNum = (if dev then or_zero (g ''dev_n'') else []),
          local = (if g ''local'' \<noteq> [] then fields_func sep_char (g ''local'') else [])\<rparr>)"

definition parsePEP440 :: "string \<Rightarrow> pep440 option" where
  "parsePEP440 s = map_option pep440_key (find_submatch pep440Pattern (to_lower (clean s)))"

section \<open>The order\<close>

definition local_segment_cmp :: "string \<Rightarrow> string \<Rightarrow> int" where
  "local_segment_cmp x y =
     (if isAllDigits x \<and> isAllDigits y then compareNumericText x y
      else if isAllDigits x then 1
      else if isAllDigits y then -1
      else sign (str_compare x y))"

definition compareLocalVersion :: "string list \<Rightarrow> string list \<Rightarrow> int" where
  "compareLocalVersion = lexlist local_segment_cmp"

definition comparePEP440 :: "pep440 \<Rightarrow> pep440 \<Rightarrow> int" where
  "comparePEP440 a b =
     then_cmp (compareNumericText (epoch a) (epoch b))
     (then_cmp (lexpad compareNumericText ''0'' (release a) (release b))
     (if preSort a \<noteq> preSort b then sign (preSort a - preSort b)
      else
        then_cmp (if 0 \<le> preSort a \<and> preSort a < preSortFinal
                  then compareNumericText (preNum a) (preNum b) else 0)
        (then_cmp
          (if postSet a \<and> \<not> postSet b then 1
           else if \<not> postSet a \<and> postSet b then -1
           else if postSet a \<and> postSet b then compareNumericText (postNum a) (postNum b) else 0)
        (then_cmp
          (if devSet a \<and> \<not> devSet b then -1
           else if \<not> devSet a \<and> devSet b then 1
           else if devSet a \<and> devSet b then compareNumericText (devNum a) (devNum b) else 0)
        (compareLocalVersion (local a) (local b))))))"

definition comparePython :: "string \<Rightarrow> string \<Rightarrow> (int \<times> Certainty) option" where
  "comparePython a b =
     (case (parsePEP440 a, parsePEP440 b) of
        (Some pa, Some pb) \<Rightarrow> Some (comparePEP440 pa pb, Exact)
      | _ \<Rightarrow> map_option (\<lambda>(n, _). (n, Heuristic)) (compareGeneric a b))"

section \<open>The order laws\<close>

lemma three_way_local_segment_cmp: "three_way local_segment_cmp"
proof
  fix x y z
  show "local_segment_cmp x y \<in> {-1, 0, 1}"
    using num_order.cmp_range [of x y] str_order.cmp_range [of x y] by (auto simp: local_segment_cmp_def)
  show "local_segment_cmp y x = - local_segment_cmp x y"
    using num_order.cmp_swap [of x y] str_order.cmp_swap [of x y] by (auto simp: local_segment_cmp_def)
  show "local_segment_cmp x y \<le> 0 \<Longrightarrow> local_segment_cmp y z \<le> 0 \<Longrightarrow> local_segment_cmp x z \<le> 0"
    using num_order.cmp_trans [of x y z] str_order.cmp_trans [of x y z]
    by (auto simp: local_segment_cmp_def split: if_splits)
qed

definition pre_key :: "pep440 \<Rightarrow> string option" where
  "pre_key a = (if 0 \<le> preSort a \<and> preSort a < preSortFinal then Some (preNum a) else None)"

definition post_key :: "pep440 \<Rightarrow> string option" where
  "post_key a = (if postSet a then Some (postNum a) else None)"

definition dev_key :: "pep440 \<Rightarrow> string option" where
  "dev_key a = (if devSet a then Some (devNum a) else None)"

definition dev_rank :: "pep440 \<Rightarrow> int" where
  "dev_rank a = (if devSet a then 0 else 1)"

lemma comparePEP440_key:
  "comparePEP440 a b =
     then_cmp (compareNumericText (epoch a) (epoch b))
     (then_cmp (core_cmp (release a) (release b))
     (then_cmp (int_cmp (preSort a) (preSort b))
     (then_cmp (opt_cmp compareNumericText (pre_key a) (pre_key b))
     (then_cmp (opt_cmp compareNumericText (post_key a) (post_key b))
     (then_cmp (int_cmp (dev_rank a) (dev_rank b))
     (then_cmp (opt_cmp compareNumericText (dev_key a) (dev_key b))
     (lexlist local_segment_cmp (local a) (local b))))))))"
proof -
  have p: "(if postSet a \<and> \<not> postSet b then 1
      else if \<not> postSet a \<and> postSet b then -1
      else if postSet a \<and> postSet b then compareNumericText (postNum a) (postNum b) else 0)
    = opt_cmp compareNumericText (post_key a) (post_key b)"
    by (simp add: post_key_def)
  have d: "then_cmp (if devSet a \<and> \<not> devSet b then -1
      else if \<not> devSet a \<and> devSet b then 1
      else if devSet a \<and> devSet b then compareNumericText (devNum a) (devNum b) else 0) n
    = then_cmp (int_cmp (dev_rank a) (dev_rank b))
        (then_cmp (opt_cmp compareNumericText (dev_key a) (dev_key b)) n)" for n
    by (simp add: dev_key_def dev_rank_def)
  show ?thesis
  proof (cases "preSort a = preSort b")
    case True
    then have "(if 0 \<le> preSort a \<and> preSort a < preSortFinal then compareNumericText (preNum a) (preNum b) else 0)
      = opt_cmp compareNumericText (pre_key a) (pre_key b)" by (simp add: pre_key_def)
    then show ?thesis using True by (simp add: comparePEP440_def core_cmp_def compareLocalVersion_def p d)
  next
    case False
    then have "sgn (preSort a - preSort b) \<noteq> 0" by (simp add: sgn_if)
    then show ?thesis using False by (simp add: comparePEP440_def core_cmp_def int_cmp_def sign_sgn)
  qed
qed

lemma three_way_comparePEP440: "three_way comparePEP440"
  by (rule three_way_eqI [OF comparePEP440_key])
    (intro three_way_then three_way_key [OF three_way_core_cmp] three_way_key [OF three_way_int_cmp]
      three_way_key [OF three_way_compareNumericText]
      three_way_key [OF three_way_opt_cmp [OF three_way_compareNumericText]]
      three_way_key [OF three_way_lexlist [OF three_way_local_segment_cmp]])

interpretation pep440: three_way comparePEP440
  by (rule three_way_comparePEP440)

lemma comparePython_swap: "comparePython b a = neg_answer (comparePython a b)"
proof (cases "parsePEP440 a = None \<or> parsePEP440 b = None")
  case True
  then show ?thesis using compareGeneric_swap [of b a]
    by (cases "compareGeneric a b") (auto simp: comparePython_def split: option.splits)
next
  case False
  then obtain pa pb where p: "parsePEP440 a = Some pa" "parsePEP440 b = Some pb" by auto
  then show ?thesis using pep440.cmp_swap [of pa pb] by (simp add: comparePython_def)
qed

section \<open>What a parse guarantees\<close>

definition pep440_wf :: "pep440 \<Rightarrow> bool" where
  "pep440_wf v \<longleftrightarrow> isAllDigits (epoch v) \<and> release v \<noteq> [] \<and> list_all isAllDigits (release v)
     \<and> preSort v \<in> {-1, 0, 1, 2, 3}
     \<and> (preSort v = -1 \<longrightarrow> devSet v \<and> \<not> postSet v)
     \<and> (preSort v = 3 \<longrightarrow> devSet v \<longrightarrow> postSet v)
     \<and> list_all (\<lambda>s. s \<noteq> []) (local v)"

lemma rmatches_Star_Cls: "rmatches R w g \<Longrightarrow> R = Star (Cls p) \<Longrightarrow> list_all p w"
  by (induction rule: rmatches.induct) auto

lemma rmatches_digits: "rmatches digit_run_re w g \<Longrightarrow> isAllDigits w"
  unfolding digit_run_re_def Plus_def rmatches_Seq
  by (auto simp: isAllDigits_def dest: rmatches_Star_Cls)

lemma rmatches_dot: "rmatches (Lit ''.'') w g \<Longrightarrow> w = ''.''"
  by (auto simp: Lit_def Seqs_def rmatches_Seq ascii_lower_def less_eq_char_def dest!: lower_char_other)

lemma rmatches_dotted:
  "rmatches R w g \<Longrightarrow> R = Star (Seq (Lit ''.'') digit_run_re) \<Longrightarrow>
     \<exists>ps. list_all isAllDigits ps \<and> w = concat (map ((#) CHR ''.'') ps)"
proof (induction rule: rmatches.induct)
  case (star1 a)
  show ?case by (intro exI [of _ "[]"]) simp
next
  case (star2 a v g w h)
  then obtain ps where ps: "list_all isAllDigits ps" "w = concat (map ((#) CHR ''.'') ps)" by blast
  from star2 obtain d where "v = CHR ''.'' # d" "isAllDigits d"
    by (auto simp: rmatches_Seq dest!: rmatches_dot rmatches_digits)
  with ps show ?case by (intro exI [of _ "d # ps"]) simp
qed auto

lemma split_dotted:
  "isAllDigits d \<Longrightarrow> list_all isAllDigits ps \<Longrightarrow>
     split CHR ''.'' (d @ concat (map ((#) CHR ''.'') ps)) = d # ps"
proof (induction ps arbitrary: d)
  case Nil
  then show ?case by (simp add: split_no_sep digits_no_dot)
next
  case (Cons p ps)
  then show ?case by (simp add: split_append_sep digits_no_dot)
qed

lemma rmatches_release:
  assumes "rmatches release_re w g"
  shows "split CHR ''.'' w \<noteq> [] \<and> list_all isAllDigits (split CHR ''.'' w)"
  using assms split_dotted rmatches_dotted [OF _ refl] rmatches_digits
  by (fastforce simp: release_re_def rmatches_Seq)

lemma pattern_groups:
  "(n, a) \<in> set (groups pep440Pattern) \<Longrightarrow>
     (n = ''release'' \<longrightarrow> a = release_re) \<and> (n = ''epoch'' \<longrightarrow> a = digit_run_re)"
  by (auto simp: pep440Pattern_def Seqs_def Lit_def digit_run_re_def Plus_def release_re_def pre_re_def
      post_re_def dev_re_def local_re_def)

lemma pre_rank_range: "pre_rank l \<in> {0, 1, 2}"
  by (auto simp: pre_rank_def pep440PreRanks_def Let_def split: option.splits if_splits)

lemma parsePEP440_wf: "parsePEP440 s = Some v \<Longrightarrow> pep440_wf v"
proof -
  assume "parsePEP440 s = Some v"
  then obtain m where m: "find_submatch pep440Pattern (to_lower (clean s)) = Some m" and v: "v = pep440_key m"
    by (auto simp: parsePEP440_def)
  have rm: "rmatches pep440Pattern (to_lower (clean s)) m" by (rule find_submatch_rmatches [OF m])
  have "always ''release'' pep440Pattern" by (simp add: pep440Pattern_def Seqs_def)
  with group_text_matches [OF rm, of "''release''"] obtain a h where
    "(''release'', a) \<in> set (groups pep440Pattern)" and a: "rmatches a (group_text m ''release'') h" by blast
  with pattern_groups [of "''release''" a] have "a = release_re" by simp
  with a rmatches_release have rel: "split CHR ''.'' (group_text m ''release'') \<noteq> []"
    "list_all isAllDigits (split CHR ''.'' (group_text m ''release''))" by blast+
  have "isAllDigits (or_zero (group_text m ''epoch''))"
  proof (cases "group_text m ''epoch'' = []")
    case False
    with group_text_matches [OF rm, of "''epoch''"] obtain a h where
      "(''epoch'', a) \<in> set (groups pep440Pattern)" and a: "rmatches a (group_text m ''epoch'') h" by blast
    with pattern_groups [of "''epoch''" a] have "a = digit_run_re" by simp
    with a rmatches_digits have "isAllDigits (group_text m ''epoch'')" by simp
    then show ?thesis by (auto simp: or_zero_def)
  qed (simp add: or_zero_def isDigit_def)
  with rel pre_rank_range [of "group_text m ''pre_l''"] show ?thesis
    by (auto simp: v pep440_wf_def pep440_key_def Let_def preSortFinal_def preSortDev_def fields_func_def list_all_iff)
qed

section \<open>Dev, pre, release, post\<close>

definition release_kind :: "pep440 \<Rightarrow> nat" where
  "release_kind v =
     (if preSort v = preSortDev then 0
      else if preSort v < preSortFinal then 1
      else if \<not> postSet v then 2 else 3)"

lemma release_kind_order:
  assumes "pep440_wf a" "pep440_wf b" "compareNumericText (epoch a) (epoch b) = 0"
    and "core_cmp (release a) (release b) = 0" "release_kind a < release_kind b"
  shows "comparePEP440 a b = -1"
proof -
  have "preSort a < preSort b \<or> preSort a = 3 \<and> preSort b = 3 \<and> \<not> postSet a \<and> postSet b"
    using assms by (auto simp: pep440_wf_def release_kind_def preSortDev_def preSortFinal_def split: if_splits)
  then show ?thesis
    using assms(3,4) by (auto simp: comparePEP440_key pre_key_def preSortFinal_def post_key_def)
qed

section \<open>Dotted numbers\<close>

definition number_char :: "char \<Rightarrow> bool" where
  "number_char c \<longleftrightarrow> isDigit c \<or> c = CHR ''.''"

definition needs_other :: "regexp \<Rightarrow> bool" where
  "needs_other r \<longleftrightarrow> (\<forall>w g. rmatches r w g \<longrightarrow> \<not> list_all number_char w)"

lemma to_lower_number: "list_all number_char w \<Longrightarrow> to_lower w = w"
  by (auto simp: to_lower_def list_all_iff number_char_def lower_char_def ascii_upper_def isDigit_def
      less_eq_char_def intro!: map_idI)

lemma needs_other_intros:
  "needs_other a \<Longrightarrow> needs_other (Seq a b)" "needs_other b \<Longrightarrow> needs_other (Seq a b)"
  "needs_other a \<Longrightarrow> needs_other b \<Longrightarrow> needs_other (Alt a b)"
  "needs_other a \<Longrightarrow> needs_other (Group n a)"
  by (auto simp: needs_other_def rmatches_Seq)

lemma needs_other_Lit: "\<not> list_all number_char x \<Longrightarrow> needs_other (Lit x)"
  unfolding needs_other_def rmatches_Lit using to_lower_number by auto

lemma needs_other_Alts: "ws \<noteq> [] \<Longrightarrow> \<forall>x \<in> set ws. \<not> list_all number_char x \<Longrightarrow> needs_other (Alts ws)"
  unfolding needs_other_def using to_lower_number rmatches_Alts by auto

lemma needs_other_parts:
  "needs_other (Lit ''v'')" "needs_other (Seq (Group ''epoch'' digit_run_re) (Lit ''!''))"
  "needs_other (Group ''pre'' pre_re)" "needs_other (Group ''post'' post_re)"
  "needs_other (Group ''dev'' dev_re)" "needs_other (Seq (Lit ''+'') (Group ''local'' local_re))"
proof -
  have other: "\<not> number_char c" if "c \<in> set ''v!-+alphbetrcpiwosdm''" for c
    using that by (auto simp: number_char_def isDigit_def less_eq_char_def)
  have lit: "needs_other (Lit ''v'')" "needs_other (Lit ''!'')" "needs_other (Lit ''-'')"
    "needs_other (Lit ''+'')" "needs_other (Lit ''dev'')"
    by (rule needs_other_Lit, simp add: other)+
  have alts: "needs_other (Alts [''alpha'', ''a'', ''beta'', ''b'', ''preview'', ''pre'', ''c'', ''rc''])"
    "needs_other (Alts [''post'', ''rev'', ''r''])"
    by (rule needs_other_Alts, simp, simp add: other)+
  show "needs_other (Lit ''v'')" by (rule lit)
  show "needs_other (Seq (Group ''epoch'' digit_run_re) (Lit ''!''))"
    by (intro needs_other_intros(2) lit)
  note second = needs_other_intros(2) [OF needs_other_intros(1) [OF needs_other_intros(4)]]
  show "needs_other (Group ''pre'' pre_re)"
    unfolding pre_re_def Seqs_def foldr.simps comp_apply by (rule needs_other_intros(4) [OF second [OF alts(1)]])
  show "needs_other (Group ''dev'' dev_re)"
    unfolding dev_re_def Seqs_def foldr.simps comp_apply by (rule needs_other_intros(4) [OF second [OF lit(5)]])
  have "needs_other (Seqs [Opt (Cls sep_char), Group ''post_l'' (Alts [''post'', ''rev'', ''r'']),
      Opt (Cls sep_char), Opt (Group ''post_n2'' digit_run_re)])"
    unfolding Seqs_def foldr.simps comp_apply by (rule second [OF alts(2)])
  with needs_other_intros(1) [OF lit(3)] show "needs_other (Group ''post'' post_re)"
    unfolding post_re_def by (intro needs_other_intros(4) needs_other_intros(3))
  show "needs_other (Seq (Lit ''+'') (Group ''local'' local_re))" by (intro needs_other_intros(1) lit)
qed

lemma rmatches_Opt_number:
  "needs_other r \<Longrightarrow> list_all number_char w \<Longrightarrow> rmatches (Opt r) w g \<Longrightarrow> w = [] \<and> g = []"
  by (auto simp: needs_other_def)

lemma rmatches_spaces_number:
  "list_all number_char w \<Longrightarrow> rmatches (Star (Cls re_space)) w g \<Longrightarrow> w = [] \<and> g = []"
proof -
  assume n: "list_all number_char w" and m: "rmatches (Star (Cls re_space)) w g"
  have "list_all re_space w" by (rule rmatches_Star_Cls [OF m refl])
  then have "w = []" using n by (cases w) (auto simp: re_space_def number_char_def isDigit_def)
  with m show ?thesis by (auto elim: rmatches_StarE)
qed

lemma rmatches_no_groups: "rmatches r w g \<Longrightarrow> groups r = [] \<Longrightarrow> g = []"
  by (induction rule: rmatches.induct) auto

lemma pattern_number:
  assumes "rmatches pep440Pattern w g" "list_all number_char w"
  shows "g = [(''release'', w)]"
proof -
  have rg: "groups release_re = []" by (simp add: release_re_def digit_run_re_def Plus_def Lit_def Seqs_def)
  obtain s1 g1 v g2 e g3 r g4 p g5 q g6 d g7 l g8 s2 g9 where
    w: "w = s1 @ v @ e @ r @ p @ q @ d @ l @ s2"
    and g: "g = g9 @ g8 @ g7 @ g6 @ g5 @ ((''release'', r) # g4) @ g3 @ g2 @ g1"
    and m: "rmatches (Star (Cls re_space)) s1 g1" "rmatches (Opt (Lit ''v'')) v g2"
      "rmatches (Opt (Seq (Group ''epoch'' digit_run_re) (Lit ''!''))) e g3" "rmatches release_re r g4"
      "rmatches (Opt (Group ''pre'' pre_re)) p g5" "rmatches (Opt (Group ''post'' post_re)) q g6"
      "rmatches (Opt (Group ''dev'' dev_re)) d g7"
      "rmatches (Opt (Seq (Lit ''+'') (Group ''local'' local_re))) l g8"
      "rmatches (Star (Cls re_space)) s2 g9"
    using assms(1) unfolding pep440Pattern_def Seqs_def
    by (auto simp: rmatches_Seq simp del: rmatches_simps(4))
  have n: "list_all number_char s1" "list_all number_char v" "list_all number_char e"
    "list_all number_char p" "list_all number_char q" "list_all number_char d"
    "list_all number_char l" "list_all number_char s2"
    using assms(2) by (simp_all add: w)
  note parts = needs_other_parts [THEN rmatches_Opt_number]
  have "s1 = [] \<and> g1 = []" "v = [] \<and> g2 = []" "e = [] \<and> g3 = []" "p = [] \<and> g5 = []" "q = [] \<and> g6 = []"
    "d = [] \<and> g7 = []" "l = [] \<and> g8 = []" "s2 = [] \<and> g9 = []"
    using rmatches_spaces_number [OF n(1) m(1)] parts(1) [OF n(2) m(2)] parts(2) [OF n(3) m(3)]
      parts(3) [OF n(4) m(5)] parts(4) [OF n(5) m(6)] parts(5) [OF n(6) m(7)] parts(6) [OF n(7) m(8)]
      rmatches_spaces_number [OF n(8) m(9)] by blast+
  moreover have "g4 = []" by (rule rmatches_no_groups [OF m(4) rg])
  ultimately show ?thesis by (simp add: w g)
qed

lemma rmatches_Star_Cls_intro: "list_all p w \<Longrightarrow> rmatches (Star (Cls p)) w []"
proof (induction w)
  case Nil
  show ?case by (rule star1)
next
  case (Cons c w)
  then show ?case using star2 [of "Cls p" "[c]" "[]" w "[]"] by simp
qed

lemma rmatches_digits_intro: "isAllDigits d \<Longrightarrow> rmatches digit_run_re d []"
  by (cases d) (auto simp: digit_run_re_def Plus_def rmatches_Seq_Cls intro: rmatches_Star_Cls_intro)

lemma rmatches_release_intro:
  assumes "ds \<noteq> []" "list_all isAllDigits ds"
  shows "rmatches release_re (join ''.'' ds) []"
proof -
  let ?dots = "\<lambda>ps. concat (map ((#) CHR ''.'') ps)"
  have dots: "rmatches (Star (Seq (Lit ''.'') digit_run_re)) (?dots ps) []" if "list_all isAllDigits ps" for ps
    using that
  proof (induction ps)
    case Nil
    show ?case using star1 by simp
  next
    case (Cons p ps)
    have "rmatches (Lit ''.'') ''.'' []" by (simp add: rmatches_Lit lower_char_def ascii_upper_def less_eq_char_def)
    then have "rmatches (Seq (Lit ''.'') digit_run_re) (''.'' @ p) ([] @ [])"
      using Cons.prems by (intro seq rmatches_digits_intro) auto
    with Cons show ?case using star2 by fastforce
  qed
  have j: "join ''.'' (p # ps) = p @ ?dots ps" for p ps
    by (induction ps arbitrary: p) auto
  obtain p ps where ds: "ds = p # ps" using assms(1) by (cases ds) auto
  have "rmatches release_re (p @ ?dots ps) ([] @ [])"
    unfolding release_re_def using assms(2) ds by (intro seq rmatches_digits_intro dots) auto
  then show ?thesis by (simp add: ds j)
qed

lemma parsePEP440_number:
  assumes "ds \<noteq> []" "list_all isAllDigits ds" "clean (join ''.'' ds) = join ''.'' ds"
  shows "parsePEP440 (join ''.'' ds) = Some \<lparr>epoch = ''0'', release = ds, preSort = preSortFinal,
    preNum = [], postSet = False, postNum = [], devSet = False, devNum = [], local = []\<rparr>"
proof -
  let ?w = "join ''.'' ds"
  have num: "list_all number_char ?w"
    using assms(2) join_chars [of _ "''.''" ds] by (fastforce simp: list_all_iff number_char_def isAllDigits_def)
  have skip: "rmatches a [] [] \<Longrightarrow> rmatches b v g \<Longrightarrow> rmatches (Seq a b) v g"
    "rmatches b [] [] \<Longrightarrow> rmatches a v g \<Longrightarrow> rmatches (Seq a b) v g" for a b v g
    using seq [of a "[]" "[]" b v g] seq [of a v g b "[]" "[]"] by simp_all
  have rel: "rmatches (Group ''release'' release_re) ?w [(''release'', ?w)]"
    using group rmatches_release_intro [OF assms(1,2)] by blast
  have "rmatches pep440Pattern ?w [(''release'', ?w)]"
    unfolding pep440Pattern_def Seqs_def foldr.simps comp_apply id_apply
    by (intro skip(1) [OF star1] skip(1) [OF opt2] skip(2) [OF _ rel] opt2 star1 eps)
  then obtain m where m: "find_submatch pep440Pattern ?w = Some m"
    using find_submatch_None [of pep440Pattern ?w] by fastforce
  from pattern_number [OF find_submatch_rmatches [OF this] num] have "m = [(''release'', ?w)]" .
  moreover have "split CHR ''.'' ?w = ds"
    using split_join [OF assms(1), of "CHR ''.''"] assms(2) digits_no_dot by (auto simp: list_all_iff)
  ultimately show ?thesis using m to_lower_number [OF num] assms(3)
    by (simp add: parsePEP440_def pep440_key_def group_text_def or_zero_def Let_def)
qed

end
