(* ===== verification/Maven_Order.thy ===== *)
theory Maven_Order
  imports Generic_Order
begin

text \<open>
  \<open>internal/version/maven.go\<close>: the port of Maven's \<open>ComparableVersion\<close>. A version is parsed into a
  tree of items, trailing items that mean nothing are dropped, and two trees are compared item by item
  with an absent item as the neutral one. Shown: the comparison answers -1, 0 or 1 and swaps its sign,
  a dotted number compares as its components do, and the relation is not transitive.

  The Go code holds the open lists on a stack of pointers and appends only to the innermost one, whose
  pointer is already the last item of the list around it. The model keeps the open lists innermost
  first and hangs each into the next when it is closed, so the sharing of pointers is not needed.
\<close>

datatype mavenItem = MInt string | MString string | MList "mavenItem list"

section \<open>Qualifiers\<close>

definition mavenQualifiers :: "string list" where
  "mavenQualifiers = [''alpha'', ''beta'', ''milestone'', ''rc'', ''snapshot'', '''', ''sp'']"

definition mavenAliases :: "(string \<times> string) list" where
  "mavenAliases = [(''ga'', ''''), (''final'', ''''), (''release'', ''''), (''cr'', ''rc'')]"

definition mavenReleaseIndex :: string where
  "mavenReleaseIndex = ''5''"

fun qualifier_index :: "nat \<Rightarrow> string list \<Rightarrow> string \<Rightarrow> nat option" where
  "qualifier_index i [] q = None"
| "qualifier_index i (k # ks) q = (if q = k then Some i else qualifier_index (Suc i) ks q)"

definition mavenComparableQualifier :: "string \<Rightarrow> string" where
  "mavenComparableQualifier q =
     (case qualifier_index 0 mavenQualifiers q of
        Some i \<Rightarrow> [char_of (48 + i)]
      | None \<Rightarrow> ''7-'' @ q)"

section \<open>Parsing\<close>

definition parseMavenItem :: "bool \<Rightarrow> string \<Rightarrow> bool \<Rightarrow> mavenItem" where
  "parseMavenItem digits buf followedByDigit =
     (if digits then MInt (trimZeroes buf)
      else
        let v1 = (if followedByDigit then
                    (if buf = ''a'' then ''alpha'' else if buf = ''b'' then ''beta''
                     else if buf = ''m'' then ''milestone'' else buf)
                  else buf)
        in MString (case map_of mavenAliases v1 of Some alias \<Rightarrow> alias | None \<Rightarrow> v1))"

fun mavenIsNull :: "mavenItem \<Rightarrow> bool" where
  "mavenIsNull (MInt n) = (n = ''0'')"
| "mavenIsNull (MString s) = (mavenComparableQualifier s = mavenReleaseIndex)"
| "mavenIsNull (MList l) = (l = [])"

text \<open>\<open>normalizeMaven\<close> walks from the end: the reversed list from the front.\<close>

fun normalize_rev :: "mavenItem list \<Rightarrow> mavenItem list" where
  "normalize_rev [] = []"
| "normalize_rev (x # xs) =
     (if mavenIsNull x then normalize_rev xs
      else case x of MList _ \<Rightarrow> x # normalize_rev xs | _ \<Rightarrow> x # xs)"

definition normalizeMaven :: "mavenItem list \<Rightarrow> mavenItem list" where
  "normalizeMaven l = rev (normalize_rev (rev l))"

text \<open>The parser's state: the innermost open list, the ones around it, \<open>isDigits\<close>, and \<open>version[start:i]\<close>.\<close>

record maven_state =
  cur :: "mavenItem list"
  outer :: "mavenItem list list"
  isDigits :: bool
  buf :: string

definition put :: "mavenItem \<Rightarrow> maven_state \<Rightarrow> maven_state" where
  "put x st = st\<lparr>cur := cur st @ [x], buf := []\<rparr>"

definition open_list :: "maven_state \<Rightarrow> maven_state" where
  "open_list st = st\<lparr>cur := [], outer := cur st # outer st\<rparr>"

definition maven_step :: "char \<Rightarrow> maven_state \<Rightarrow> maven_state" where
  "maven_step c st =
     (let item = (if buf st = [] then MInt ''0'' else parseMavenItem (isDigits st) (buf st) False) in
      if c = CHR ''.'' then put item st
      else if c = CHR ''-'' then open_list (put item st)
      else if isDigit c then
        (let st1 = (if \<not> isDigits st \<and> buf st \<noteq> []
                    then open_list (put (parseMavenItem False (buf st) True)
                           (if cur st \<noteq> [] then open_list st else st))
                    else st)
         in st1\<lparr>isDigits := True, buf := buf st1 @ [c]\<rparr>)
      else
        (let st1 = (if isDigits st \<and> buf st \<noteq> []
                    then open_list (put (parseMavenItem True (buf st) False) st) else st)
         in st1\<lparr>isDigits := False, buf := buf st1 @ [c]\<rparr>))"

definition maven_finish :: "maven_state \<Rightarrow> maven_state" where
  "maven_finish st =
     (if buf st \<noteq> [] then
        put (parseMavenItem (isDigits st) (buf st) False)
          (if \<not> isDigits st \<and> cur st \<noteq> [] then open_list st else st)
      else st)"

text \<open>The stack normalised from the innermost list outwards.\<close>

fun close_lists :: "mavenItem list \<Rightarrow> mavenItem list list \<Rightarrow> mavenItem list" where
  "close_lists l [] = normalizeMaven l"
| "close_lists l (o1 # os) = close_lists (o1 @ [MList (normalizeMaven l)]) os"

definition maven_start :: maven_state where
  "maven_start = \<lparr>cur = [], outer = [], isDigits = False, buf = []\<rparr>"

definition parseMaven :: "string \<Rightarrow> mavenItem" where
  "parseMaven version =
     (let st = maven_finish (fold maven_step (to_lower version) maven_start)
      in MList (close_lists (cur st) (outer st)))"

section \<open>Comparing\<close>

text \<open>
  The absent item is \<open>None\<close>. \<open>null_loop\<close> is the loop of a list against the absent item, \<open>items_loop\<close>
  the loop of two lists.
\<close>

function (sequential) compareMavenItems :: "mavenItem \<Rightarrow> mavenItem option \<Rightarrow> int"
  and null_loop :: "mavenItem list \<Rightarrow> int"
  and items_loop :: "mavenItem list \<Rightarrow> mavenItem list \<Rightarrow> int" where
  "compareMavenItems (MInt n) None = (if n = ''0'' then 0 else 1)"
| "compareMavenItems (MInt n) (Some (MInt m)) = compareNumericText n m"
| "compareMavenItems (MInt n) (Some b) = 1"
| "compareMavenItems (MString s) None = sign (str_compare (mavenComparableQualifier s) mavenReleaseIndex)"
| "compareMavenItems (MString s) (Some (MString t)) =
     sign (str_compare (mavenComparableQualifier s) (mavenComparableQualifier t))"
| "compareMavenItems (MString s) (Some b) = -1"
| "compareMavenItems (MList xs) None = null_loop xs"
| "compareMavenItems (MList xs) (Some (MInt m)) = -1"
| "compareMavenItems (MList xs) (Some (MString t)) = 1"
| "compareMavenItems (MList xs) (Some (MList ys)) = items_loop xs ys"
| "null_loop [] = 0"
| "null_loop (x # xs) = then_cmp (compareMavenItems x None) (null_loop xs)"
| "items_loop [] [] = 0"
| "items_loop (x # xs) [] = then_cmp (compareMavenItems x None) (items_loop xs [])"
| "items_loop [] (y # ys) = then_cmp (- compareMavenItems y None) (items_loop [] ys)"
| "items_loop (x # xs) (y # ys) = then_cmp (compareMavenItems x (Some y)) (items_loop xs ys)"
  by pat_completeness auto
termination
  by (relation "measure (case_sum (\<lambda>(a, b). size a + (case b of None \<Rightarrow> 0 | Some y \<Rightarrow> size y))
        (case_sum (size_list size) (\<lambda>(xs, ys). size_list size xs + size_list size ys)))") auto

definition compareMaven :: "string \<Rightarrow> string \<Rightarrow> (int \<times> Certainty) option" where
  "compareMaven a b = Some (compareMavenItems (parseMaven a) (Some (parseMaven b)), Exact)"

section \<open>Antisymmetry\<close>

lemma items_loop_nil: "items_loop xs [] = null_loop xs" "items_loop [] xs = - null_loop xs"
  by (induction xs) (simp_all add: then_cmp_uminus [of _ "null_loop _", symmetric])

lemma compareMavenItems_range:
  "compareMavenItems a b \<in> {-1, 0, 1}" "null_loop xs \<in> {-1, 0, 1}" "items_loop xs ys \<in> {-1, 0, 1}"
  using num_order.cmp_range str_order.cmp_range
  by (induction a b and xs and xs ys rule: compareMavenItems_null_loop_items_loop.induct)
    (auto simp: then_cmp_def sign_def)

lemma compareMavenItems_swap:
  "\<forall>d. b = Some d \<longrightarrow> compareMavenItems d (Some a) = - compareMavenItems a (Some d)"
  "True"
  "items_loop ys xs = - items_loop xs ys"
proof (induction a b and xs and xs ys rule: compareMavenItems_null_loop_items_loop.induct)
  case (2 n m)
  then show ?case by (simp add: num_order.cmp_swap [of n m])
next
  case (5 s t)
  then show ?case
    by (simp add: str_order.cmp_swap [of "mavenComparableQualifier s" "mavenComparableQualifier t"])
qed (auto simp: then_cmp_uminus items_loop_nil)

lemma compareMaven_swap: "compareMaven b a = neg_answer (compareMaven a b)"
  using compareMavenItems_swap(1) [of "Some (parseMaven b)" "parseMaven a"] by (simp add: compareMaven_def)

text \<open>The order is no order: below, each is smaller than the next, and the last smaller than the first.\<close>

lemma maven_cycle:
  "compareMaven ''1.sp.1'' ''1-rc'' = Some (-1, Exact)"
  "compareMaven ''1-rc'' ''1'' = Some (-1, Exact)"
  "compareMaven ''1'' ''1.sp.1'' = Some (-1, Exact)"
  by code_simp+

section \<open>Dotted numbers\<close>

lemma maven_digits:
  assumes "isAllDigits d" "isDigits st \<or> buf st = []"
  shows "fold maven_step d st = st\<lparr>isDigits := True, buf := buf st @ d\<rparr>"
proof -
  have run: "list_all isDigit d \<Longrightarrow> isDigits st \<Longrightarrow> fold maven_step d st = st\<lparr>buf := buf st @ d\<rparr>" for d st
  proof (induction d arbitrary: st)
    case (Cons c d)
    then have "c \<noteq> CHR ''.'' \<and> c \<noteq> CHR ''-''" by (auto simp: isDigit_def)
    then have "maven_step c st = st\<lparr>buf := buf st @ [c]\<rparr>" using Cons.prems
      by (simp add: maven_step_def Let_def)
    then show ?case using Cons by simp
  qed simp
  obtain c e where d: "d = c # e" "isDigit c" "list_all isDigit e" using assms(1) by (cases d) auto
  then have "c \<noteq> CHR ''.'' \<and> c \<noteq> CHR ''-''" by (auto simp: isDigit_def)
  then have "maven_step c st = st\<lparr>isDigits := True, buf := buf st @ [c]\<rparr>" using d assms(2)
    by (auto simp: maven_step_def Let_def)
  then show ?thesis using run [OF d(3), of "st\<lparr>isDigits := True, buf := buf st @ [c]\<rparr>"] d by simp
qed

lemma maven_core:
  assumes "ds \<noteq> []" "list_all isAllDigits ds" "buf st = []"
  shows "maven_finish (fold maven_step (join ''.'' ds) st)
    = st\<lparr>cur := cur st @ map (\<lambda>d. MInt (trimZeroes d)) ds, isDigits := True\<rparr>"
  using assms
proof (induction ds arbitrary: st)
  case (Cons d ds)
  then have d: "fold maven_step d st = st\<lparr>isDigits := True, buf := d\<rparr>" "d \<noteq> []"
    using maven_digits [of d st] by (auto simp: isAllDigits_def)
  show ?case
  proof (cases "ds = []")
    case True
    then show ?thesis using d Cons.prems(3)
      by (cases st) (simp add: maven_finish_def put_def parseMavenItem_def)
  next
    case False
    have dot: "maven_step CHR ''.'' (st\<lparr>isDigits := True, buf := d\<rparr>)
        = st\<lparr>cur := cur st @ [MInt (trimZeroes d)], isDigits := True, buf := []\<rparr>"
      using d(2) by (simp add: maven_step_def put_def parseMavenItem_def Let_def)
    show ?thesis using False Cons d dot by (simp add: join_Cons)
  qed
qed simp

lemma to_lower_core: "list_all isAllDigits ds \<Longrightarrow> to_lower (join ''.'' ds) = join ''.'' ds"
proof (induction ds)
  case (Cons d ds)
  have dig: "isDigit c \<Longrightarrow> lower_char c = c" for c
    by (auto simp: lower_char_def ascii_upper_def isDigit_def less_eq_char_def)
  have "to_lower d = d" using Cons.prems dig
    by (auto simp: to_lower_def isAllDigits_def list_all_iff intro!: map_idI)
  then show ?case using Cons
    by (auto simp: join_Cons to_lower_def lower_char_def ascii_upper_def less_eq_char_def)
qed simp

lemma normalize_rev_ints: "normalize_rev (map MInt ns) = map MInt (dropWhile (\<lambda>n. n = ''0'') ns)"
  by (induction ns) auto

lemma lexpad_drop_pad:
  assumes "three_way c"
  shows "lexpad c z (xs @ [z]) ys = lexpad c z xs ys"
proof (induction xs arbitrary: ys)
  case Nil
  then show ?case by (cases ys) (auto simp: three_way.cmp_refl [OF assms])
next
  case (Cons x xs)
  then show ?case by (cases ys) auto
qed

lemma lexpad_drop_pads:
  assumes "three_way c"
  shows "lexpad c z (rev (dropWhile (\<lambda>n. n = z) xs)) ys = lexpad c z (rev xs) ys"
  by (induction xs) (auto simp: lexpad_drop_pad [OF assms])

lemma items_loop_ints:
  assumes "list_all (\<lambda>n. trimZeroes n = n) xs" "list_all (\<lambda>n. trimZeroes n = n) ys"
    "list_all isAllDigits xs" "list_all isAllDigits ys"
  shows "items_loop (map MInt xs) (map MInt ys) = core_cmp xs ys"
proof -
  have zero: "compareNumericText n ''0'' = (if n = ''0'' then 0 else 1)" if "trimZeroes n = n" "isAllDigits n" for n
  proof -
    have "compareNumericText n ''0'' = sgn (numval n)"
      using that compareNumericText_numval [of n "''0''"] by (simp add: isDigit_def numval_def byte_def)
    moreover have "0 \<le> numval n" using that numval_bounds [of n] by (simp add: isAllDigits_def)
    moreover have "compareNumericText n ''0'' = 0 \<longleftrightarrow> n = ''0''" using that by (simp add: compareNumericText_eq_0)
    ultimately show ?thesis by (auto simp: sgn_if)
  qed
  have zero': "compareNumericText ''0'' n = - (if n = ''0'' then 0 else 1)" if "trimZeroes n = n" "isAllDigits n" for n
    using zero [OF that] num_order.cmp_swap [of n "''0''"] by simp
  have one: "items_loop (map MInt xs) [] = core_cmp xs []" "items_loop [] (map MInt xs) = core_cmp [] xs"
    if "list_all (\<lambda>n. trimZeroes n = n) xs" "list_all isAllDigits xs" for xs
    using that by (induction xs) (simp_all add: zero zero')
  show ?thesis using assms
  proof (induction xs arbitrary: ys)
    case Nil
    then show ?case using one(2) [of ys] by simp
  next
    case (Cons x xs)
    then show ?case using one(1) [of "x # xs"] by (cases ys) auto
  qed
qed

lemma core_cmp_trimZeroes: "core_cmp (map trimZeroes xs) (map trimZeroes ys) = core_cmp xs ys"
proof -
  have c: "compareNumericText (trimZeroes x) y = compareNumericText x y"
    "compareNumericText x (trimZeroes y) = compareNumericText x y" for x y
    by (simp_all add: compareNumericText_def)
  have one: "core_cmp (map trimZeroes xs) [] = core_cmp xs []" "core_cmp [] (map trimZeroes xs) = core_cmp [] xs" for xs
    by (induction xs) (simp_all add: c)
  show ?thesis
  proof (induction xs arbitrary: ys)
    case Nil
    then show ?case by (simp add: one)
  next
    case (Cons x xs)
    then show ?case using one(1) [of "x # xs"] by (cases ys) (simp_all add: c)
  qed
qed

lemma compareMaven_core:
  assumes "ds \<noteq> []" "es \<noteq> []" "list_all isAllDigits ds" "list_all isAllDigits es"
  shows "compareMaven (join ''.'' ds) (join ''.'' es) = Some (core_cmp ds es, Exact)"
proof -
  let ?t = "\<lambda>ds. rev (dropWhile (\<lambda>n. n = ''0'') (rev (map trimZeroes ds)))"
  have p: "parseMaven (join ''.'' ds) = MList (map MInt (?t ds))" if "ds \<noteq> []" "list_all isAllDigits ds" for ds
  proof -
    have "normalizeMaven (map (\<lambda>d. MInt (trimZeroes d)) ds) = map MInt (?t ds)"
      using normalize_rev_ints [of "rev (map trimZeroes ds)"]
      by (simp add: normalizeMaven_def rev_map comp_def)
    then show ?thesis using that maven_core [of ds maven_start]
      by (simp add: parseMaven_def to_lower_core maven_start_def)
  qed
  have t: "list_all (\<lambda>n. trimZeroes n = n) (?t ds)" "list_all isAllDigits (?t ds)"
    if "list_all isAllDigits ds" for ds
  proof -
    have all: "trimZeroes n = n \<and> isAllDigits n" if n: "n \<in> set (map trimZeroes ds)" for n
      using n that \<open>list_all isAllDigits ds\<close> trimZeroes_digits trimZeroes_Nil
      by (fastforce simp: list_all_iff isAllDigits_def)
    have sub: "n \<in> set (map trimZeroes ds)" if "n \<in> set (?t ds)" for n
      using set_dropWhileD [of n _ "rev (map trimZeroes ds)"] that by simp
    show "list_all (\<lambda>n. trimZeroes n = n) (?t ds)" "list_all isAllDigits (?t ds)"
      using all sub by (auto simp only: list_all_iff)
  qed
  have drop: "core_cmp (?t xs) ys = core_cmp (map trimZeroes xs) ys" for xs ys
    using lexpad_drop_pads [OF three_way_compareNumericText, of "''0''" "rev (map trimZeroes xs)"]
    by (simp add: core_cmp_def)
  have "core_cmp (?t ds) (?t es) = core_cmp ds es"
    using drop [of ds "?t es"] drop [of es "map trimZeroes ds"] core_order.cmp_swap core_cmp_trimZeroes
    by metis
  then show ?thesis
    using p assms items_loop_ints [OF t(1) t(1) t(2) t(2)] by (simp add: compareMaven_def)
qed

end
