(* ===== verification/Agreement.thy ===== *)
theory Agreement
  imports Compare
begin

text \<open>
  What the eight orderings of \<open>internal/version\<close> share: two dotted numbers without leading zeroes that
  differ in value are ordered by their values, whichever scheme an advisory declares. It is what makes
  the default of \<open>SchemeFor\<close> harmless on plain release numbers.
\<close>

section \<open>The generic core of a dotted number\<close>

lemma core_from_number:
  assumes "cs \<noteq> []" "list_all isAllDigits cs"
  shows "core_from (join ''.'' cs) = (cs, [])"
  using assms
proof (induction cs)
  case (Cons d ds)
  have d: "isAllDigits d" "d \<noteq> []" using Cons.prems by (auto simp: isAllDigits_def)
  show ?case
  proof (cases "ds = []")
    case True
    have whiles: "takeWhile isDigit d = d" "dropWhile isDigit d = []"
      using isAllDigits_whiles [OF d(1), of "[]"] by (simp_all add: digit_start_def)
    show ?thesis unfolding True join.simps core_from.simps [of d] Let_def whiles using d(2) by simp
  next
    case False
    let ?r = "CHR ''.'' # join ''.'' ds"
    have nd: "\<not> digit_start ?r" by (simp add: digit_start_def isDigit_def)
    have ds: "digit_start (join ''.'' ds)" using join_digit_start [OF False, of "[]"] Cons.prems by simp
    then have r: "2 \<le> length ?r \<and> hd ?r = CHR ''.'' \<and> isDigit (hd (tl ?r))"
      by (cases "join ''.'' ds") (auto simp: digit_start_def)
    have "core_from (join ''.'' ds) = (ds, [])" using Cons False by simp
    then show ?thesis
      using isAllDigits_whiles [OF d(1) nd] r d False
      by (simp add: core_from.simps [of "d @ ?r"] join_Cons)
  qed
qed simp

lemma compareCores_no_tails: "compareCores [] [] ca cb c \<noteq> Inl None"
proof (induction "[] :: token list" "[] :: token list" ca cb c rule: compareCores.induct)
  case (1 ca cb c)
  then show ?case by (auto simp: compareCores.simps [of "[]" "[]" ca cb c] subordinateTail_def Let_def)
qed

lemma not_hasEpoch_number:
  assumes "cs \<noteq> []" "list_all isAllDigits cs"
  shows "\<not> hasEpoch (join ''.'' cs)"
proof -
  have "CHR '':'' \<notin> set (join ''.'' cs)" using core_no_hyphen [OF assms(2)] by simp
  then have "CHR '':'' \<notin> set (dropWhile isDigit (join ''.'' cs))" by (metis set_dropWhileD)
  then show ?thesis by (cases "dropWhile isDigit (join ''.'' cs)") (auto simp: hasEpoch_def starts_with_def)
qed

lemma compareGeneric_number:
  assumes "ds \<noteq> []" "es \<noteq> []" "list_all isAllDigits ds" "list_all isAllDigits es" "core_cmp ds es \<noteq> 0"
  shows "\<exists>c. compareGeneric (join ''.'' ds) (join ''.'' es) = Some (core_cmp ds es, c)"
proof -
  have "\<nexists>e. compareCores [] [] ds es Exact = Inr e" using compareCores_verdict assms(5) by blast
  then obtain r where "compareCores [] [] ds es Exact = Inl r" by (cases "compareCores [] [] ds es Exact") auto
  with compareCores_no_tails obtain n c where nc: "compareCores [] [] ds es Exact = Inl (Some (n, c))"
    by (metis option.exhaust surj_pair)
  with compareCores_verdict assms(5) have n: "n = core_cmp ds es" by blast
  show ?thesis
    using assms nc n core_from_number not_hasEpoch_number core_plain(2)
    by (simp add: compareGeneric_def splitNumericCore_def tokenize_def)
qed

lemma dpkg_rpm_number:
  assumes "ds \<noteq> []" "es \<noteq> []" "list_all isAllDigits ds" "list_all isAllDigits es" "core_cmp ds es \<noteq> 0"
  shows "debian_cmp (join ''.'' ds) (join ''.'' es) = core_cmp ds es"
    "rpm_cmp (join ''.'' ds) (join ''.'' es) = core_cmp ds es"
proof -
  obtain c where g: "compareGeneric (join ''.'' ds) (join ''.'' es) = Some (core_cmp ds es, c)"
    using compareGeneric_number [OF assms] by blast
  have p: "numeric_core (join ''.'' cs) = cs" "core_tail (join ''.'' cs) = []"
    if "cs \<noteq> []" "list_all isAllDigits cs" for cs
    using core_from_number [OF that] by (simp_all add: numeric_core_def core_tail_def)
  note agree = compareGeneric_core_agrees [OF g core_plain(2) core_plain(2)]
  show "debian_cmp (join ''.'' ds) (join ''.'' es) = core_cmp ds es"
    by (rule agree(2)) (use assms p in \<open>simp_all add: plain_tail_def\<close>)
  show "rpm_cmp (join ''.'' ds) (join ''.'' es) = core_cmp ds es"
    by (rule agree(3)) (use assms p in \<open>simp_all add: plain_tail_def\<close>)
qed

section \<open>The apk reading of a dotted number\<close>

definition apk_number :: "bool \<Rightarrow> string \<Rightarrow> alpineNumber" where
  "apk_number later d =
     \<lparr>zeroes = (if later then length (takeWhile (\<lambda>c. c = CHR ''0'') d) else 0), digits = d\<rparr>"

lemma alpine_numbers_number:
  "list_all isAllDigits cs \<Longrightarrow> alpine_numbers (Suc i) cs = Some (map (apk_number True) cs)"
  by (induction cs arbitrary: i) (auto simp: apk_number_def)

lemma split_last_r_absent: "CHR ''-'' \<notin> set s \<Longrightarrow> split_last_r s = None"
  by (induction s rule: split_last_r.induct) auto

lemma parseAlpine_number:
  assumes "c # cs \<noteq> []" "list_all isAllDigits (c # cs)"
  shows "parseAlpine (join ''.'' (c # cs)) =
    Some \<lparr>numbers = apk_number False c # map (apk_number True) cs, letter = [], suffixes = [], revision = []\<rparr>"
proof -
  let ?s = "join ''.'' (c # cs)"
  have none: "CHR ''-'' \<notin> set ?s" "CHR ''_'' \<notin> set ?s"
    using core_no_char [OF assms(2)] by (simp_all add: isDigit_def)
  have ne: "?s \<noteq> []" using core_plain(4) [OF assms] by auto
  have lst: "\<not> isLetter (last ?s)"
  proof -
    have "isAllDigits (last (c # cs))" using assms by (auto simp: list_all_iff)
    then have "last (c # cs) \<noteq> [] \<and> isDigit (last (last (c # cs)))" by (auto simp: isAllDigits_def list_all_iff)
    with last_join [OF assms(1), of "''.''"] show ?thesis using isDigit_not_isLetter by simp
  qed
  have "alpine_numbers 0 (split CHR ''.'' ?s) = Some (apk_number False c # map (apk_number True) cs)"
    using split_core [OF assms] assms(2) alpine_numbers_number [of cs 0] by (simp add: apk_number_def)
  then show ?thesis
    using none ne lst core_plain(2) [OF assms] split_last_r_absent [OF none(1)]
    by (simp add: parseAlpine_def alpine_revision_def alpine_suffixes.simps [of "[]"])
qed

lemma clause2_digits: "list_all clause2 cs \<Longrightarrow> list_all isAllDigits cs"
  by (auto simp: list_all_iff clause2_def)

lemma compareAlpineNumbers_number:
  assumes "clause2 d" "clause2 e"
  shows "compareAlpineNumbers (apk_number l d) (apk_number l e) = compareNumericText d e"
proof -
  have z: "length (takeWhile (\<lambda>c. c = CHR ''0'') x) = (if x = ''0'' then 1 else 0)" if "clause2 x" for x
    using that by (cases x) (auto simp: clause2_def)
  have low: "compareNumericText ''0'' x = -1" if "clause2 x" "x \<noteq> ''0''" for x
  proof -
    have "compareNumericText ''0'' x \<noteq> 0"
    proof
      assume "compareNumericText ''0'' x = 0"
      then have "trimZeroes x = ''0''" by (simp add: compareNumericText_eq_0)
      moreover have "trimZeroes x = x" using that(1) by (cases x rule: trimZeroes.cases) (auto simp: clause2_def)
      ultimately show False using that(2) by simp
    qed
    moreover have "compareNumericText ''0'' x \<le> 0"
      using core_cmp_Nil_le [of "[x]"] that(1) by (simp add: clause2_def)
    ultimately show ?thesis using num_order.cmp_range [of "''0''" x] by auto
  qed
  show ?thesis
  proof (cases l)
    case True
    then show ?thesis
      using z [OF assms(1)] z [OF assms(2)] low [OF assms(1)] low [OF assms(2)] num_order.cmp_swap [of "''0''" d]
      by (auto simp: compareAlpineNumbers_def apk_number_def)
  qed (simp add: compareAlpineNumbers_def apk_number_def)
qed

lemma apk_numbers_cmp:
  assumes "list_all clause2 ds" "list_all clause2 es" "core_cmp ds es \<noteq> 0"
  shows "lexlist compareAlpineNumbers (map (apk_number True) ds) (map (apk_number True) es) = core_cmp ds es"
  using assms
proof (induction ds arbitrary: es)
  case Nil
  then show ?case
    using core_cmp_Nil_le [OF clause2_digits [OF Nil.prems(2)]] core_order.cmp_range [of "[]" es]
    by (cases es) auto
next
  case (Cons d ds)
  show ?case
  proof (cases es)
    case Nil
    then show ?thesis
      using core_cmp_Nil_le [OF clause2_digits [OF Cons.prems(1)]] core_order.cmp_range [of "[]" "d # ds"]
        core_order.cmp_swap [of "d # ds" "[]"] Cons.prems(3) by auto
  next
    case (Cons e es')
    then show ?thesis using Cons.prems Cons.IH [of es']
      by (auto simp: compareAlpineNumbers_number then_cmp_def)
  qed
qed

lemma compareAlpine_number:
  assumes "ds \<noteq> []" "es \<noteq> []" "list_all clause2 ds" "list_all clause2 es" "core_cmp ds es \<noteq> 0"
  shows "compareAlpine (join ''.'' ds) (join ''.'' es) = Some (core_cmp ds es, Exact)"
proof -
  obtain d ds' e es' where s: "ds = d # ds'" "es = e # es'" using assms(1,2) by (cases ds; cases es) auto
  have "lexlist compareAlpineNumbers (apk_number False d # map (apk_number True) ds')
      (apk_number False e # map (apk_number True) es') = core_cmp ds es"
    using assms(3-5) apk_numbers_cmp [of ds' es'] by (auto simp: s compareAlpineNumbers_number then_cmp_def)
  then show ?thesis
    using parseAlpine_number [of d ds'] parseAlpine_number [of e es'] clause2_digits [OF assms(3)]
      clause2_digits [OF assms(4)] assms(5)
    by (simp add: compareAlpine_def alpine_answer_def s)
qed

section \<open>All schemes\<close>

lemma scheme_compare_number:
  assumes "ds \<noteq> []" "es \<noteq> []" "list_all clause2 ds" "list_all clause2 es" "core_cmp ds es \<noteq> 0"
  shows "\<exists>c. scheme_compare s (join ''.'' ds) (join ''.'' es) = Some (core_cmp ds es, c)"
proof -
  have d: "list_all isAllDigits ds" "list_all isAllDigits es" using assms(3,4) clause2_digits by auto
  obtain c1 c2 where "parseSemver (join ''.'' ds) = Some (\<lparr>semverParts.release = ds, pre = []\<rparr>, c1)"
    "parseSemver (join ''.'' es) = Some (\<lparr>semverParts.release = es, pre = []\<rparr>, c2)"
    using parseSemver_number assms(1,2) d by meson
  then have sv: "\<exists>c. compareSemver (join ''.'' ds) (join ''.'' es) = Some (core_cmp ds es, c)"
    by (simp add: compareSemver_def compareSemverParts_key released_def)
  have py: "comparePython (join ''.'' ds) (join ''.'' es) = Some (core_cmp ds es, Exact)"
    using parsePEP440_number [OF assms(1) d(1) core_plain(1) [OF assms(1) d(1)]]
      parsePEP440_number [OF assms(2) d(2) core_plain(1) [OF assms(2) d(2)]]
    by (simp add: comparePython_def comparePEP440_key pre_key_def post_key_def dev_key_def dev_rank_def preSortFinal_def)
  show ?thesis
    using sv py compareAlpine_number [OF assms] compareMaven_core [OF assms(1,2) d]
      dpkg_rpm_number [OF assms(1,2) d assms(5)] compareGeneric_number [OF assms(1,2) d assms(5)]
    by (cases s) (simp_all add: scheme_compare_def compareGoMod_def compareDebian_eq compareRPM_eq)
qed

lemma unusable_number:
  assumes "cs \<noteq> []" "list_all isAllDigits cs" "\<not> LooksLikeCommit (join ''.'' cs)"
  shows "unusable (join ''.'' cs) = None"
proof -
  obtain c r where cr: "join ''.'' cs = c # r" "isDigit c" using core_plain(4) [OF assms(1,2)] by blast
  have "c \<notin> set ''*-aun''" using cr(2) by (auto simp: isDigit_def)
  then have "ClassifySentinel (c # r) \<in> {NotSentinel, SentinelZero}"
    using core_plain(1) [OF assms(1,2)] to_lower_core [OF assms(2)] cr(1)
    by (auto simp: ClassifySentinel_def Let_def)
  then show ?thesis using assms(3) cr(1) by (simp add: unusable_None)
qed

lemma schemes_agree:
  assumes "Ordered s" "ds \<noteq> []" "es \<noteq> []" "list_all clause2 ds" "list_all clause2 es"
    and "core_cmp ds es \<noteq> 0" "\<not> LooksLikeCommit (join ''.'' ds)" "\<not> LooksLikeCommit (join ''.'' es)"
  shows "\<exists>c. CompareCertain s (join ''.'' ds) (join ''.'' es) = Inr (core_cmp ds es, c)"
proof -
  have d: "list_all isAllDigits ds" "list_all isAllDigits es" using assms(4,5) clause2_digits by auto
  have u: "unusable (join ''.'' ds) = None" "unusable (join ''.'' es) = None"
    using unusable_number assms d by blast+
  have "join ''.'' ds \<noteq> join ''.'' es"
  proof
    assume "join ''.'' ds = join ''.'' es"
    then have "ds = es" using split_core assms(2,3) d by metis
    then show False using assms(6) core_order.cmp_refl by simp
  qed
  then show ?thesis
    using assms(1) u core_plain(1) [OF assms(2) d(1)] core_plain(1) [OF assms(3) d(2)]
      scheme_compare_number [OF assms(2-6), of s]
    by (auto simp: CompareCertain_def)
qed

end
