(* ===== verification/Ranges.thy ===== *)
theory Ranges
  imports Identity Agreement
begin

text \<open>
  \<open>internal/match/versions.go\<close>: the ordering picked for a window, the comparison with this package's
  policy on conventions, and the verdict of one window, one version list, one list of patterns, the
  default, and their union. The prose of \<open>reason\<close> is not modelled; verdict, grade, scheme, the two
  assumptions, the review tag, the notes and the unproven conditions are. A refused comparison is
  \<open>None\<close>, and the empty scheme of a result that never chose one is \<open>None\<close>.
\<close>

definition exclusiveMarker :: string where
  "exclusiveMarker = ''(exclusive)''"

record elementResult =
  e_verdict :: versionVerdict
  e_grade :: versionGrade
  e_scheme :: "Scheme option"
  e_heuristic :: bool
  e_epochElided :: bool
  e_review :: string
  e_notes :: "string list"
  e_unproven :: "string list"

record comparison =
  cmp_heuristic :: bool
  cmp_epochElided :: bool

text \<open>A result that has chosen its scheme and decided nothing: the Go value \<open>elementResult{scheme: s}\<close>.\<close>

definition fresh :: "Scheme \<Rightarrow> elementResult" where
  "fresh s = \<lparr>e_verdict = vNotInRange, e_grade = vgUndecidable, e_scheme = Some s, e_heuristic = False,
     e_epochElided = False, e_review = [], e_notes = [], e_unproven = []\<rparr>"

definition decided :: "versionVerdict \<Rightarrow> versionGrade \<Rightarrow> elementResult \<Rightarrow> elementResult" where
  "decided v g res = res\<lparr>e_verdict := v, e_grade := g\<rparr>"

definition undecided :: "string \<Rightarrow> elementResult \<Rightarrow> elementResult" where
  "undecided review res = res\<lparr>e_verdict := vUndecided, e_grade := vgUndecidable, e_review := review\<rparr>"

definition plainVersions :: "string list \<Rightarrow> discreteVersion list" where
  "plainVersions vs = map (\<lambda>v. \<lparr>dv_value = v, dv_unproven = []\<rparr>) vs"

definition splitCommitEntries :: "discreteVersion list \<Rightarrow> discreteVersion list \<times> discreteVersion list" where
  "splitCommitEntries items =
     (filter (\<lambda>it. \<not> LooksLikeCommit (dv_value it)) items, filter (\<lambda>it. LooksLikeCommit (dv_value it)) items)"

section \<open>The ordering of a window\<close>

definition type_key :: "string \<Rightarrow> string" where
  "type_key t = to_upper (trim_space t)"

definition declaredTypeName :: "string \<Rightarrow> string" where
  "declaredTypeName rangeType = (if type_key rangeType \<noteq> [] then type_key rangeType else ''CUSTOM'')"

definition resolveScheme :: "string \<Rightarrow> string \<Rightarrow> string list \<Rightarrow> Scheme \<times> string" where
  "resolveScheme rangeType ecosystem operands =
     (if type_key rangeType \<in> {''GIT'', ''ORIGINAL_COMMIT_FOR_FIX''} then (Opaque, [])
      else if list_ex LooksLikeCommit operands then (Opaque, [])
      else if fst (splitEcosystem ecosystem) \<in> set ecosystemOrdering then
        (let s = SchemeFor [] ecosystem in
         if SchemeFor rangeType ecosystem \<noteq> s
         then (s, ''scheme_source:ecosystem_override:'' @ declaredTypeName rangeType)
         else (s, []))
      else (SchemeFor rangeType ecosystem, []))"

section \<open>Comparing two operands\<close>

definition stripEpoch :: "string \<Rightarrow> string \<times> bool" where
  "stripEpoch s0 =
     (let s = trim_space s0; d = takeWhile isDigit s; r = dropWhile isDigit s in
      if d = [] \<or> r = [] \<or> hd r \<noteq> CHR '':'' \<or> tl r = [] then (s, False) else (tl r, True))"

definition elideEpochs :: "Scheme \<Rightarrow> string \<Rightarrow> string \<Rightarrow> string \<times> string \<times> bool" where
  "elideEpochs s a b =
     (if s \<noteq> RPM \<and> s \<noteq> Debian then (a, b, False)
      else
        let (ra, oka) = stripEpoch a; (rb, okb) = stripEpoch b in
        if oka = okb then (a, b, False)
        else if oka then (ra, b, True)
        else (a, rb, True))"

definition compareVersions :: "Scheme \<Rightarrow> string \<Rightarrow> string \<Rightarrow> (int \<times> comparison) option" where
  "compareVersions s a0 b0 =
     (let (a, b, elided) = elideEpochs s a0 b0 in
      case CompareCertain s a b of
        Inl _ \<Rightarrow> None
      | Inr (n, certainty) \<Rightarrow>
          if certainty \<noteq> Exact \<and> s = Generic then None
          else Some (n, \<lparr>cmp_heuristic = certainty \<noteq> Exact, cmp_epochElided = elided\<rparr>))"

definition versionsEqual :: "Scheme \<Rightarrow> string \<Rightarrow> string \<Rightarrow> (bool \<times> comparison) option" where
  "versionsEqual s a b =
     (if s = Opaque
      then Some (equal_fold (trim_space a) (trim_space b), \<lparr>cmp_heuristic = False, cmp_epochElided = False\<rparr>)
      else map_option (\<lambda>(n, c). (n = 0, c)) (compareVersions s a b))"

definition gradeOf :: "Scheme \<Rightarrow> versionGrade" where
  "gradeOf s = (if s = Opaque then vgUndecidable else if s = Generic then vgGeneric
     else if Ordered s then vgOrdered else vgGeneric)"

definition discreteGrade :: "Scheme \<Rightarrow> versionGrade" where
  "discreteGrade s = (if s = Opaque then vgLiteral else if s = Generic then vgGeneric
     else if Ordered s then vgOrdered else vgGeneric)"

section \<open>Placeholders\<close>

definition unboundedLower :: "string \<Rightarrow> bool" where
  "unboundedLower s \<longleftrightarrow> ClassifySentinel s \<noteq> NotSentinel"

definition sentinelUpper :: "string \<Rightarrow> bool" where
  "sentinelUpper s \<longleftrightarrow> ClassifySentinel s \<in> {SentinelAll, SentinelUnknown}"

text \<open>\<open>usableVersions\<close>: what is listed, and whether an entry claims every version.\<close>

definition usableVersions :: "string list \<Rightarrow> string list \<times> bool" where
  "usableVersions vs =
     (map trim_space (filter (\<lambda>raw. ClassifySentinel raw = NotSentinel) vs),
      list_ex (\<lambda>raw. ClassifySentinel raw = SentinelAll) vs)"

definition startsWithVersionNumber :: "string \<Rightarrow> bool" where
  "startsWithVersionNumber s0 =
     (let s = trim_space s0;
          t = (if 1 < length s \<and> (hd s = CHR ''v'' \<or> hd s = CHR ''V'') then tl s else s)
      in t \<noteq> [] \<and> isDigit (hd t))"

definition statesAVersion :: "string \<Rightarrow> bool" where
  "statesAVersion v \<longleftrightarrow> startsWithVersionNumber v \<and> \<not> LooksLikeCommit v"

section \<open>One window\<close>

definition note_comparison :: "comparison \<Rightarrow> elementResult \<Rightarrow> elementResult" where
  "note_comparison c r =
     (let r1 = r\<lparr>e_heuristic := e_heuristic r \<or> cmp_heuristic c\<rparr> in
      if cmp_epochElided c \<and> \<not> e_epochElided r1
      then r1\<lparr>e_epochElided := True, e_notes := e_notes r1 @ [''epoch_elided'']\<rparr>
      else r1)"

definition undecidableRange :: "Scheme \<Rightarrow> string \<Rightarrow> string \<Rightarrow> VersionRange \<Rightarrow> elementResult" where
  "undecidableRange s v bound r =
     undecided
       (if s = Opaque then ''opaque_scheme:'' @ declaredTypeName (RangeType r)
        else if s = Generic then
          (if \<not> startsWithVersionNumber v \<or> \<not> startsWithVersionNumber bound
           then ''unparseable_version:bound'' else ''generic_refused_tie'')
        else ''unparseable_version:bound'')
       (fresh s)"

text \<open>
  One bound of \<open>evalRange\<close>: \<open>Inl\<close> is a return (the comparison refused, or the bound excludes the
  version), \<open>Inr\<close> the result the next bound starts from.
\<close>

definition check_bound :: "Scheme \<Rightarrow> string \<Rightarrow> VersionRange \<Rightarrow> string \<Rightarrow> (int \<Rightarrow> bool) \<Rightarrow> elementResult
    \<Rightarrow> elementResult + elementResult" where
  "check_bound s v r bound outside res =
     (case compareVersions s v bound of
        None \<Rightarrow> Inl (undecidableRange s v bound r)
      | Some (n, c) \<Rightarrow>
          if outside n then Inl (decided vNotInRange (gradeOf s) (note_comparison c res)) else Inr (note_comparison c res))"

fun and_then :: "'e + 'a \<Rightarrow> ('a \<Rightarrow> 'e + 'b) \<Rightarrow> 'e + 'b" where
  "and_then (Inl e) f = Inl e"
| "and_then (Inr x) f = f x"

definition lower_bound :: "VersionRange \<Rightarrow> string \<times> bool" where
  "lower_bound r =
     (let lower = trim_space (Introduced r) in
      case cut_suffix lower exclusiveMarker of Some t \<Rightarrow> (trim_space t, True) | None \<Rightarrow> (lower, False))"

definition has_lower :: "VersionRange \<Rightarrow> bool" where
  "has_lower r \<longleftrightarrow> (case lower_bound r of (lower, exclusive) \<Rightarrow> lower \<noteq> [] \<and> (exclusive \<or> \<not> unboundedLower lower))"

definition evalRange :: "Scheme \<Rightarrow> string \<Rightarrow> VersionRange \<Rightarrow> elementResult" where
  "evalRange s v r =
     (let (lower, lowerExclusive) = lower_bound r;
          hasLower = has_lower r;
          fixed = trim_space (Fixed r);
          last = trim_space (LastAffected r)
      in if sentinelUpper fixed \<or> sentinelUpper last then undecided ''sentinel_upper_bound'' (fresh s)
         else if \<not> hasLower \<and> fixed = [] \<and> last = [] then
           (if s = Opaque then undecided (''opaque_scheme:'' @ declaredTypeName (RangeType r)) (fresh s)
            else if \<not> statesAVersion v then undecided ''unparseable_version:component'' (fresh s)
            else decided vInRange vgUnbounded (fresh s))
         else
           let res = (fresh s)\<lparr>e_notes := (if fixed \<noteq> [] \<and> last \<noteq> [] then [''conflicting_upper_bounds''] else [])\<rparr>;
               answer =
                 and_then (if hasLower then check_bound s v r lower (\<lambda>n. n < 0 \<or> (n = 0 \<and> lowerExclusive)) res
                           else Inr res)
                (\<lambda>res. and_then (if fixed \<noteq> [] then check_bound s v r fixed (\<lambda>n. n \<ge> 0) res else Inr res)
                (\<lambda>res. if last \<noteq> [] then check_bound s v r last (\<lambda>n. n > 0) res else Inr res))
           in (case answer of Inl e \<Rightarrow> e | Inr res \<Rightarrow> decided vInRange (gradeOf s) res))"

definition evalCarriedRange :: "Scheme \<Rightarrow> Component \<Rightarrow> VersionRange \<Rightarrow> elementResult" where
  "evalCarriedRange s c r =
     (let res = evalRange s (c_Version c) r in
      if trim_space (RangeCPE r) = [] then res
      else
        case carrierConstraints (RangeCPE r) (c_CPE c) of
          None \<Rightarrow> res
        | Some (unproven, disjoint) \<Rightarrow>
            if disjoint \<noteq> [] then decided vNotInRange (gradeOf s) (fresh s)
            else if unproven \<noteq> [] then res\<lparr>e_unproven := unproven\<rparr>
            else res)"

section \<open>Lists, patterns and the default\<close>

text \<open>The loop of \<open>evalDiscrete\<close>: \<open>Inl\<close> the entry that fired, \<open>Inr\<close> whether a comparison was refused.\<close>

fun discrete_loop :: "Scheme \<Rightarrow> string \<Rightarrow> bool \<Rightarrow> discreteVersion list \<Rightarrow> elementResult + bool" where
  "discrete_loop s v refused [] = Inr refused"
| "discrete_loop s v refused (item # items) =
     (case versionsEqual s v (dv_value item) of
        None \<Rightarrow> discrete_loop s v True items
      | Some (eq, c) \<Rightarrow>
          if eq then Inl ((note_comparison c (decided vInRange (discreteGrade s) (fresh s)))\<lparr>e_unproven := dv_unproven item\<rparr>)
          else discrete_loop s v refused items)"

definition evalDiscrete :: "Scheme \<Rightarrow> string \<Rightarrow> discreteVersion list \<Rightarrow> bool \<Rightarrow> bool \<Rightarrow> elementResult" where
  "evalDiscrete s v listed claimsAll closedList =
     (case discrete_loop s v False listed of
        Inl hit \<Rightarrow> hit
      | Inr refused \<Rightarrow>
          if claimsAll then undecided ''unbounded_default_affected'' (fresh s)
          else if refused then undecided ''unparseable_version:bound'' (fresh s)
          else if closedList then decided vNotInRange (discreteGrade s) (fresh s)
          else undecided ''open_version_enumeration'' (fresh s))"

definition evalVersionList :: "string \<Rightarrow> string \<Rightarrow> string \<Rightarrow> discreteVersion list \<Rightarrow> bool \<Rightarrow> bool
    \<Rightarrow> elementResult list \<times> string" where
  "evalVersionList declared eco v listed claimsAll closedList =
     (let (releases, commits) = splitCommitEntries listed;
          (s, schemeNote) = resolveScheme declared eco [v];
          ordered = claimsAll \<or> releases \<noteq> []
      in ((if ordered then [evalDiscrete s v releases claimsAll closedList] else [])
            @ (if commits \<noteq> [] then [evalDiscrete Opaque v commits False closedList] else []),
          if ordered then schemeNote else []))"

definition evalPatterns :: "string \<Rightarrow> discreteVersion list \<Rightarrow> bool \<Rightarrow> elementResult" where
  "evalPatterns v patterns closedList =
     (case List.find (\<lambda>p. globMatch (dv_value p) (trim_space v)) patterns of
        Some p \<Rightarrow> (decided vInRange vgPattern (fresh Opaque))\<lparr>e_unproven := dv_unproven p\<rparr>
      | None \<Rightarrow>
          if closedList then decided vNotInRange vgPattern (fresh Opaque)
          else undecided ''open_version_enumeration'' (fresh Opaque))"

text \<open>\<open>commonRangeType\<close>: the type every typed window agrees on.\<close>

fun common_type :: "string \<Rightarrow> VersionRange list \<Rightarrow> string" where
  "common_type out [] = out"
| "common_type out (r # rs) =
     (let t = type_key (RangeType r) in
      if t = [] \<or> t = ''ORIGINAL_COMMIT_FOR_FIX'' then common_type out rs
      else if out = [] then common_type t rs
      else if out \<noteq> t then []
      else common_type out rs)"

definition commonRangeType :: "VersionRange list \<Rightarrow> string" where
  "commonRangeType rs = common_type [] rs"

definition evalDefaultAffected :: "Scheme \<Rightarrow> string \<Rightarrow> Affected \<Rightarrow> elementResult" where
  "evalDefaultAffected s v a =
     (if s = Opaque
      then undecided (''opaque_scheme:'' @ declaredTypeName (commonRangeType (a_Ranges a))) (fresh s)
      else if \<not> statesAVersion v then undecided ''unparseable_version:component'' (fresh s)
      else decided vInRange vgUnbounded (fresh s))"

section \<open>The union\<close>

definition strongerPositive :: "elementResult \<Rightarrow> elementResult \<Rightarrow> bool" where
  "strongerPositive e best =
     (if e_grade e \<noteq> e_grade best then e_grade best < e_grade e
      else if e_heuristic e \<noteq> e_heuristic best then \<not> e_heuristic e
      else length (e_unproven e) < length (e_unproven best))"

text \<open>\<open>unionOf\<close> indexes its list of clear windows, which panics on an empty argument: \<open>None\<close>.\<close>

definition unionOf :: "elementResult list \<Rightarrow> elementResult option" where
  "unionOf elems =
     (case filter (\<lambda>e. e_verdict e = vInRange) elems of
        p # ps \<Rightarrow> Some (fold (\<lambda>e best. if strongerPositive e best then e else best) ps p)
      | [] \<Rightarrow>
          (case filter (\<lambda>e. e_verdict e = vUndecided) elems of
             u # _ \<Rightarrow> Some u
           | [] \<Rightarrow> (case elems of [] \<Rightarrow> None | e # _ \<Rightarrow> Some e)))"

section \<open>What a statement's source says about unlisted versions\<close>

definition normalizeStatus :: "string \<Rightarrow> Status" where
  "normalizeStatus raw =
     (if trim_space raw = [] then StatusAffected
      else (case NormalizeStatus raw of Some s \<Rightarrow> s | None \<Rightarrow> StatusUnderInvestigation))"

definition cve5Shaped :: "Affected \<Rightarrow> bool" where
  "cve5Shaped a \<longleftrightarrow> fold_key (a_Source a) \<in> {''cvelist'', ''vulnrichment'', ''fkie''}"

definition closedEnumeration :: "Affected \<Rightarrow> bool" where
  "closedEnumeration a \<longleftrightarrow> cve5Shaped a \<and>
     (normalizeStatus (a_Status a) \<noteq> StatusAffected
      \<or> NormalizeStatus (a_DefaultState a) = Some StatusNotAffected)"

definition unknownByDefault :: "Affected \<Rightarrow> bool" where
  "unknownByDefault a \<longleftrightarrow> normalizeStatus (a_Status a) = StatusAffected \<and> cve5Shaped a \<and>
     NormalizeStatus (a_DefaultState a) \<noteq> Some StatusAffected \<and>
     NormalizeStatus (a_DefaultState a) \<noteq> Some StatusNotAffected"

definition affectedByDefault :: "Affected \<Rightarrow> bool" where
  "affectedByDefault a \<longleftrightarrow> normalizeStatus (a_Status a) = StatusAffected \<and> cve5Shaped a \<and>
     NormalizeStatus (a_DefaultState a) = Some StatusAffected"

definition closedCPEConfigurations :: "Affected \<Rightarrow> bool" where
  "closedCPEConfigurations a \<longleftrightarrow> equal_fold (trim_space (a_Source a)) ''nvd'' \<or> closedEnumeration a"

definition appendOnce :: "string list \<Rightarrow> string \<Rightarrow> string list" where
  "appendOnce notes n = (if n \<in> set notes then notes else notes @ [n])"

fun firstNonEmpty :: "string list \<Rightarrow> string" where
  "firstNonEmpty [] = []"
| "firstNonEmpty (v # vs) = (if trim_space v \<noteq> [] then trim_space v else firstNonEmpty vs)"

section \<open>The version test\<close>

definition add_scheme_note :: "string \<Rightarrow> string list \<Rightarrow> string list" where
  "add_scheme_note schemeNote notes = (if schemeNote \<noteq> [] then appendOnce notes schemeNote else notes)"

text \<open>One round of the loop over the windows, on the notes and the elements so far.\<close>

definition range_step :: "Component \<Rightarrow> string \<Rightarrow> VersionRange \<Rightarrow> string list \<times> elementResult list
    \<Rightarrow> string list \<times> elementResult list" where
  "range_step c eco r st =
     (case st of (notes, elems) \<Rightarrow>
        if equal_fold (trim_space (RangeType r)) ''ORIGINAL_COMMIT_FOR_FIX''
        then (notes @ [''fix_commit:'' @ firstNonEmpty [Fixed r, LastAffected r, Introduced r]], elems)
        else if Introduced r = [] \<and> Fixed r = [] \<and> LastAffected r = [] then st
        else
          let (s, schemeNote) = resolveScheme (RangeType r) eco
                [c_Version c, Introduced r, Fixed r, LastAffected r];
              notes1 = add_scheme_note schemeNote notes
          in if s = Alpine \<and> trim_space (Fixed r) = ''0''
             then (notes1, elems @ [(decided vNotInRange vgOrdered (fresh s))\<lparr>e_notes := [''alpine_fixed_zero'']\<rparr>])
             else (notes1, elems @ [evalCarriedRange s c r]))"

definition list_step :: "string \<Rightarrow> string \<Rightarrow> string \<Rightarrow> discreteVersion list \<Rightarrow> bool \<Rightarrow> bool
    \<Rightarrow> string list \<times> elementResult list \<Rightarrow> string list \<times> elementResult list" where
  "list_step declared eco v listed claimsAll closedList st =
     (if claimsAll \<or> listed \<noteq> [] then
        (case evalVersionList declared eco v listed claimsAll closedList of
           (added, schemeNote) \<Rightarrow> (add_scheme_note schemeNote (fst st), snd st @ added))
      else st)"

definition version_elements :: "Component \<Rightarrow> Affected \<Rightarrow> identity \<Rightarrow> string list \<times> elementResult list" where
  "version_elements c a i =
     (let eco = id_ecosystem i; declared = commonRangeType (a_Ranges a); v = c_Version c;
          (listed, claimsAll) = usableVersions (a_Versions a);
          st1 = fold (range_step c eco) (a_Ranges a) ([], []);
          st2 = list_step declared eco v (plainVersions listed) claimsAll (closedEnumeration a) st1;
          st3 = list_step declared eco v (id_cpeVersions i) False (closedCPEConfigurations a) st2;
          st4 = (if id_cpePatterns i \<noteq> []
                 then (fst st3, snd st3 @ [evalPatterns v (id_cpePatterns i) (closedCPEConfigurations a)])
                 else st3)
      in if affectedByDefault a then
           (case resolveScheme declared eco [v] of
              (s, schemeNote) \<Rightarrow>
                (add_scheme_note schemeNote (fst st4), snd st4 @ [evalDefaultAffected s v a]))
         else st4)"

definition no_version_data :: "string list \<Rightarrow> elementResult" where
  "no_version_data notes =
     \<lparr>e_verdict = vUndecided, e_grade = vgUndecidable, e_scheme = None, e_heuristic = False,
      e_epochElided = False, e_review = ''no_version_data'', e_notes = notes, e_unproven = []\<rparr>"

definition versionTest :: "Component \<Rightarrow> Affected \<Rightarrow> identity \<Rightarrow> elementResult" where
  "versionTest c a i =
     (case version_elements c a i of
        (notes, elems) \<Rightarrow>
          (case unionOf elems of
             None \<Rightarrow> no_version_data notes
           | Some res \<Rightarrow>
               let res1 = (if e_verdict res = vNotInRange \<and> unknownByDefault a
                           then undecided ''unknown_default_status'' res else res)
               in res1\<lparr>e_notes := notes @ e_notes res1\<rparr>))"

end
