(* ===== verification/Window_Laws.thy ===== *)
theory Window_Laws
  imports Ranges
begin

text \<open>
  What the verdicts of \<open>internal/match/versions.go\<close> mean: a window decides only what its comparisons
  proved, the fix version is outside, an opaque scheme decides nothing, a window is an interval of any
  total ordering, and the union keeps every positive. The locale \<open>ordered_scheme\<close> is the interface of
  an ordering to the window: a scheme that answers every pair of usable operands by a total order.
\<close>

section \<open>One window\<close>

lemma decided_simps [simp]:
  "e_verdict (decided v g res) = v" "e_grade (decided v g res) = g" "e_scheme (decided v g res) = e_scheme res"
  "e_review (decided v g res) = e_review res" "e_notes (decided v g res) = e_notes res"
  "e_heuristic (decided v g res) = e_heuristic res" "e_epochElided (decided v g res) = e_epochElided res"
  "e_unproven (decided v g res) = e_unproven res"
  by (simp_all add: decided_def)

lemma undecided_simps [simp]:
  "e_verdict (undecided t res) = vUndecided" "e_grade (undecided t res) = vgUndecidable"
  "e_review (undecided t res) = t" "e_scheme (undecided t res) = e_scheme res"
  "e_unproven (undecided t res) = e_unproven res"
  by (simp_all add: undecided_def)

lemma note_comparison_simps [simp]:
  "e_verdict (note_comparison c res) = e_verdict res" "e_grade (note_comparison c res) = e_grade res"
  "e_scheme (note_comparison c res) = e_scheme res" "e_unproven (note_comparison c res) = e_unproven res"
  "e_heuristic (note_comparison c res) = (e_heuristic res \<or> cmp_heuristic c)"
  "e_epochElided (note_comparison c res) = (e_epochElided res \<or> cmp_epochElided c)"
  by (auto simp: note_comparison_def Let_def)

lemma undecidableRange_simps [simp]:
  "e_verdict (undecidableRange s v b r) = vUndecided" "e_grade (undecidableRange s v b r) = vgUndecidable"
  by (simp_all add: undecidableRange_def)

text \<open>A comparison with a bound was made and its answer satisfies a predicate.\<close>

definition compared :: "Scheme \<Rightarrow> string \<Rightarrow> string \<Rightarrow> (int \<Rightarrow> bool) \<Rightarrow> bool" where
  "compared s v b P \<longleftrightarrow> (\<exists>n c. compareVersions s v b = Some (n, c) \<and> P n)"

definition no_sentinel :: "VersionRange \<Rightarrow> bool" where
  "no_sentinel r \<longleftrightarrow> \<not> sentinelUpper (trim_space (Fixed r)) \<and> \<not> sentinelUpper (trim_space (LastAffected r))"

definition bounded :: "VersionRange \<Rightarrow> bool" where
  "bounded r \<longleftrightarrow> has_lower r \<or> trim_space (Fixed r) \<noteq> [] \<or> trim_space (LastAffected r) \<noteq> []"

definition above_lower :: "VersionRange \<Rightarrow> int \<Rightarrow> bool" where
  "above_lower r n \<longleftrightarrow> 0 < n \<or> (n = 0 \<and> \<not> snd (lower_bound r))"

definition inside :: "Scheme \<Rightarrow> string \<Rightarrow> VersionRange \<Rightarrow> bool" where
  "inside s v r \<longleftrightarrow>
     (has_lower r \<longrightarrow> compared s v (fst (lower_bound r)) (above_lower r))
     \<and> (trim_space (Fixed r) \<noteq> [] \<longrightarrow> compared s v (trim_space (Fixed r)) (\<lambda>n. n < 0))
     \<and> (trim_space (LastAffected r) \<noteq> [] \<longrightarrow> compared s v (trim_space (LastAffected r)) (\<lambda>n. n \<le> 0))"

definition excluded :: "Scheme \<Rightarrow> string \<Rightarrow> VersionRange \<Rightarrow> bool" where
  "excluded s v r \<longleftrightarrow>
     (has_lower r \<and> compared s v (fst (lower_bound r)) (\<lambda>n. \<not> above_lower r n))
     \<or> (trim_space (Fixed r) \<noteq> [] \<and> compared s v (trim_space (Fixed r)) (\<lambda>n. 0 \<le> n))
     \<or> (trim_space (LastAffected r) \<noteq> [] \<and> compared s v (trim_space (LastAffected r)) (\<lambda>n. 0 < n))"

lemma check_bound_verdict:
  "check_bound s v r b P res = Inr x \<Longrightarrow> compared s v b (\<lambda>n. \<not> P n)"
  "check_bound s v r b P res = Inl x \<Longrightarrow>
     e_verdict x = vUndecided \<or> (e_verdict x = vNotInRange \<and> compared s v b P)"
  "compared s v b (\<lambda>n. \<not> P n) \<Longrightarrow> \<exists>x. check_bound s v r b P res = Inr x"
  by (auto simp: check_bound_def compared_def split: option.splits if_splits)

lemma and_then_InlE:
  assumes "and_then m f = Inl e"
  obtains "m = Inl e" | x where "m = Inr x" "f x = Inl e"
  using assms by (cases m) simp_all

lemma and_then_InrE:
  assumes "and_then m f = Inr y"
  obtains x where "m = Inr x" "f x = Inr y"
  using assms by (cases m) simp_all

text \<open>The three bounds in a row.\<close>

definition range_answer :: "Scheme \<Rightarrow> string \<Rightarrow> VersionRange \<Rightarrow> elementResult \<Rightarrow> elementResult + elementResult" where
  "range_answer s v r res =
     and_then (if has_lower r then check_bound s v r (fst (lower_bound r)) (\<lambda>n. \<not> above_lower r n) res else Inr res)
     (\<lambda>res. and_then (if trim_space (Fixed r) \<noteq> [] then check_bound s v r (trim_space (Fixed r)) (\<lambda>n. 0 \<le> n) res
                      else Inr res)
     (\<lambda>res. if trim_space (LastAffected r) \<noteq> []
            then check_bound s v r (trim_space (LastAffected r)) (\<lambda>n. 0 < n) res else Inr res))"

lemma lower_excludes: "(\<lambda>n. n < 0 \<or> (n = 0 \<and> snd (lower_bound r))) = (\<lambda>n. \<not> above_lower r n)"
  by (rule ext) (simp add: above_lower_def, linarith)

lemma evalRange_answer:
  assumes "no_sentinel r" "bounded r"
  obtains res where "evalRange s v r =
    (case range_answer s v r res of Inl e \<Rightarrow> e | Inr res \<Rightarrow> decided vInRange (gradeOf s) res)"
proof (rule that)
  let ?res = "(fresh s)\<lparr>e_notes := (if trim_space (Fixed r) \<noteq> [] \<and> trim_space (LastAffected r) \<noteq> []
                                then [''conflicting_upper_bounds''] else [])\<rparr>"
  have c: "\<not> (sentinelUpper (trim_space (Fixed r)) \<or> sentinelUpper (trim_space (LastAffected r)))"
    "\<not> (\<not> has_lower r \<and> trim_space (Fixed r) = [] \<and> trim_space (LastAffected r) = [])"
    using assms by (auto simp: no_sentinel_def bounded_def)
  show "evalRange s v r =
    (case range_answer s v r ?res of Inl e \<Rightarrow> e | Inr res \<Rightarrow> decided vInRange (gradeOf s) res)"
    unfolding evalRange_def Let_def case_prod_beta lower_excludes range_answer_def
    by (simp only: c if_False)
qed

lemma optional_bound_Inr:
  assumes "(if q then check_bound s v r b P res else Inr res) = Inr x"
  shows "q \<longrightarrow> compared s v b (\<lambda>n. \<not> P n)"
  using assms check_bound_verdict(1) [of s v r b P res x] by (cases q) simp_all

lemma optional_bound_Inl:
  assumes "(if q then check_bound s v r b P res else Inr res) = Inl x"
  shows "q \<and> (e_verdict x = vUndecided \<or> (e_verdict x = vNotInRange \<and> compared s v b P))"
  using assms check_bound_verdict(2) [of s v r b P res x] by (cases q) simp_all

lemma range_answer_Inr:
  assumes "range_answer s v r res = Inr x"
  shows "inside s v r"
  using assms unfolding range_answer_def
proof (elim and_then_InrE, goal_cases)
  case (1 x1 x2)
  show ?case
    unfolding inside_def
    using optional_bound_Inr [OF 1(1)] optional_bound_Inr [OF 1(2)] optional_bound_Inr [OF 1(3)]
    by (simp add: not_le not_less)
qed

lemma optional_bound_compared:
  assumes "q \<longrightarrow> compared s v b (\<lambda>n. \<not> P n)"
  obtains x where "(if q then check_bound s v r b P res else Inr res) = Inr x"
  using assms check_bound_verdict(3) [of s v b P r res] by (cases q) auto

lemma range_answer_inside:
  assumes "inside s v r"
  obtains x where "range_answer s v r res = Inr x"
proof -
  have i: "has_lower r \<longrightarrow> compared s v (fst (lower_bound r)) (\<lambda>n. \<not> \<not> above_lower r n)"
    "trim_space (Fixed r) \<noteq> [] \<longrightarrow> compared s v (trim_space (Fixed r)) (\<lambda>n. \<not> 0 \<le> n)"
    "trim_space (LastAffected r) \<noteq> [] \<longrightarrow> compared s v (trim_space (LastAffected r)) (\<lambda>n. \<not> 0 < n)"
    using assms by (simp_all add: inside_def not_le not_less)
  obtain x1 where 1: "(if has_lower r then check_bound s v r (fst (lower_bound r)) (\<lambda>n. \<not> above_lower r n) res
      else Inr res) = Inr x1"
    by (rule optional_bound_compared [OF i(1)])
  obtain x2 where 2: "(if trim_space (Fixed r) \<noteq> [] then check_bound s v r (trim_space (Fixed r)) (\<lambda>n. 0 \<le> n) x1
      else Inr x1) = Inr x2"
    by (rule optional_bound_compared [OF i(2)])
  obtain x3 where 3: "(if trim_space (LastAffected r) \<noteq> []
      then check_bound s v r (trim_space (LastAffected r)) (\<lambda>n. 0 < n) x2 else Inr x2) = Inr x3"
    by (rule optional_bound_compared [OF i(3)])
  show thesis by (rule that) (simp only: range_answer_def 1 2 3 and_then.simps)
qed

lemma range_answer_Inl:
  assumes "range_answer s v r res = Inl x"
  shows "e_verdict x = vUndecided \<or> (e_verdict x = vNotInRange \<and> excluded s v r)"
  using assms unfolding range_answer_def
proof (elim and_then_InlE, goal_cases)
  case 1
  show ?case using optional_bound_Inl [OF 1] by (auto simp: excluded_def)
next
  case (2 x1)
  show ?case using optional_bound_Inl [OF 2(2)] by (auto simp: excluded_def)
next
  case (3 x1 x2)
  show ?case using optional_bound_Inl [OF 3(3)] by (auto simp: excluded_def)
qed

text \<open>A window says \<open>in range\<close> exactly when every stated bound was compared and admits the version.\<close>

lemma evalRange_in_range:
  assumes "no_sentinel r" "bounded r"
  shows "e_verdict (evalRange s v r) = vInRange \<longleftrightarrow> inside s v r"
proof -
  obtain res where e: "evalRange s v r =
    (case range_answer s v r res of Inl e \<Rightarrow> e | Inr res \<Rightarrow> decided vInRange (gradeOf s) res)"
    using evalRange_answer [OF assms] .
  show ?thesis
  proof (cases "range_answer s v r res")
    case (Inl x)
    then have "\<not> inside s v r" using range_answer_inside [of s v r res] by force
    moreover have "e_verdict x \<noteq> vInRange" using range_answer_Inl [OF Inl] by auto
    ultimately show ?thesis using e Inl by simp
  next
    case (Inr x)
    then show ?thesis using e range_answer_Inr [OF Inr] by simp
  qed
qed

lemma evalRange_out_of_range:
  assumes "e_verdict (evalRange s v r) = vNotInRange"
  shows "no_sentinel r \<and> bounded r \<and> excluded s v r"
proof -
  have nb: "no_sentinel r \<and> bounded r"
    using assms by (auto simp: evalRange_def no_sentinel_def bounded_def Let_def split: prod.splits if_splits)
  then obtain res where e: "evalRange s v r =
    (case range_answer s v r res of Inl e \<Rightarrow> e | Inr res \<Rightarrow> decided vInRange (gradeOf s) res)"
    using evalRange_answer by blast
  show ?thesis
  proof (cases "range_answer s v r res")
    case (Inl x)
    then show ?thesis using e assms nb range_answer_Inl [OF Inl] by auto
  next
    case (Inr x)
    then show ?thesis using e assms by simp
  qed
qed

lemma evalRange_sentinel: "\<not> no_sentinel r \<Longrightarrow> evalRange s v r = undecided ''sentinel_upper_bound'' (fresh s)"
  by (auto simp: evalRange_def no_sentinel_def Let_def split: prod.splits)

lemma evalRange_unbounded:
  assumes "no_sentinel r" "\<not> bounded r" "e_verdict (evalRange s v r) = vInRange"
  shows "e_grade (evalRange s v r) = vgUnbounded" "s \<noteq> Opaque" "statesAVersion v"
  using assms by (auto simp: evalRange_def no_sentinel_def bounded_def Let_def split: prod.splits if_splits)

lemma compareVersions_Opaque: "compareVersions Opaque a b = None"
proof -
  obtain e where "CompareCertain Opaque a b = Inl e" using CompareCertain_Opaque [of a b] by blast
  then show ?thesis by (simp add: compareVersions_def elideEpochs_def)
qed

text \<open>An opaque scheme decides no window.\<close>

lemma evalRange_Opaque: "e_verdict (evalRange Opaque v r) = vUndecided"
proof (cases "no_sentinel r")
  case False
  then show ?thesis by (simp add: evalRange_sentinel)
next
  case ns: True
  have no: "\<not> compared Opaque v b P" for b P by (simp add: compared_def compareVersions_Opaque)
  show ?thesis
  proof (cases "bounded r")
    case True
    then have "\<not> inside Opaque v r" using no by (auto simp: inside_def bounded_def)
    then have "e_verdict (evalRange Opaque v r) \<noteq> vInRange" using evalRange_in_range [OF ns True] by simp
    moreover have "\<not> excluded Opaque v r" using no by (simp add: excluded_def)
    then have "e_verdict (evalRange Opaque v r) \<noteq> vNotInRange" using evalRange_out_of_range by blast
    ultimately show ?thesis by (cases "e_verdict (evalRange Opaque v r)") auto
  next
    case False
    then show ?thesis using ns by (auto simp: evalRange_def no_sentinel_def bounded_def Let_def split: prod.splits)
  qed
qed

text \<open>The fix version, and every version above it, is outside.\<close>

lemma evalRange_fixed_exclusive:
  assumes "no_sentinel r" "trim_space (Fixed r) \<noteq> []" "compared s v (trim_space (Fixed r)) (\<lambda>n. 0 \<le> n)"
  shows "e_verdict (evalRange s v r) \<noteq> vInRange"
proof -
  have "bounded r" using assms(2) by (simp add: bounded_def)
  moreover have "\<not> inside s v r" using assms(2,3) by (auto simp: inside_def compared_def)
  ultimately show ?thesis using evalRange_in_range [OF assms(1)] by simp
qed

section \<open>Windows over a total order\<close>

text \<open>Operands a total order compares: usable, and stating an epoch or not as the component's version does.\<close>

definition epoch_stated :: "string \<Rightarrow> bool" where
  "epoch_stated v = snd (stripEpoch v)"

definition comparable_with :: "string \<Rightarrow> string \<Rightarrow> bool" where
  "comparable_with v b \<longleftrightarrow> unusable b = None \<and> epoch_stated b = epoch_stated v"

definition window_operands :: "VersionRange \<Rightarrow> string \<Rightarrow> bool" where
  "window_operands r v \<longleftrightarrow> unusable v = None
     \<and> (has_lower r \<longrightarrow> comparable_with v (fst (lower_bound r)))
     \<and> (trim_space (Fixed r) \<noteq> [] \<longrightarrow> comparable_with v (trim_space (Fixed r)))
     \<and> (trim_space (LastAffected r) \<noteq> [] \<longrightarrow> comparable_with v (trim_space (LastAffected r)))"

text \<open>The specification of a window: an interval of the order.\<close>

definition in_window :: "(string \<Rightarrow> string \<Rightarrow> int) \<Rightarrow> VersionRange \<Rightarrow> string \<Rightarrow> bool" where
  "in_window cmp r v \<longleftrightarrow>
     (has_lower r \<longrightarrow> above_lower r (cmp (clean v) (clean (fst (lower_bound r)))))
     \<and> (trim_space (Fixed r) \<noteq> [] \<longrightarrow> cmp (clean v) (clean (trim_space (Fixed r))) < 0)
     \<and> (trim_space (LastAffected r) \<noteq> [] \<longrightarrow> cmp (clean v) (clean (trim_space (LastAffected r))) \<le> 0)"

lemma refused_bound:
  assumes "(if q then check_bound s v r b P res else Inr res) = Inl x" "e_verdict x = vUndecided"
  shows "q \<and> compareVersions s v b = None"
  using assms by (cases q) (auto simp: check_bound_def split: option.splits if_splits)

lemma range_answer_refused:
  assumes "range_answer s v r res = Inl x" "e_verdict x = vUndecided"
  shows "(has_lower r \<and> compareVersions s v (fst (lower_bound r)) = None)
    \<or> (trim_space (Fixed r) \<noteq> [] \<and> compareVersions s v (trim_space (Fixed r)) = None)
    \<or> (trim_space (LastAffected r) \<noteq> [] \<and> compareVersions s v (trim_space (LastAffected r)) = None)"
  using assms(1) unfolding range_answer_def
proof (elim and_then_InlE, goal_cases)
  case 1
  show ?case using refused_bound [OF 1 assms(2)] by blast
next
  case (2 x1)
  show ?case using refused_bound [OF 2(2) assms(2)] by blast
next
  case (3 x1 x2)
  show ?case using refused_bound [OF 3(3) assms(2)] by blast
qed

lemma elideEpochs_same: "epoch_stated b = epoch_stated a \<Longrightarrow> elideEpochs s a b = (a, b, False)"
  unfolding elideEpochs_def epoch_stated_def Let_def case_prod_beta by simp

text \<open>The interface of an ordering to the windows.\<close>

locale ordered_scheme = three_way cmp
  for cmp :: "string \<Rightarrow> string \<Rightarrow> int" +
  fixes s :: Scheme
  assumes answers: "unusable a = None \<Longrightarrow> unusable b = None \<Longrightarrow>
      \<exists>c. CompareCertain s a b = Inr (cmp (clean a) (clean b), c)"
    and not_generic: "s \<noteq> Generic"
begin

lemma compareVersions_cmp:
  assumes "unusable v = None" "comparable_with v b"
  shows "\<exists>c. compareVersions s v b = Some (cmp (clean v) (clean b), c)"
proof -
  have ub: "unusable b = None" and e: "epoch_stated b = epoch_stated v"
    using assms(2) by (simp_all add: comparable_with_def)
  obtain c where "CompareCertain s v b = Inr (cmp (clean v) (clean b), c)"
    using answers [OF assms(1) ub] by blast
  then show ?thesis using not_generic by (simp add: compareVersions_def elideEpochs_same [OF e])
qed

lemma compared_cmp:
  assumes "unusable v = None" "comparable_with v b"
  shows "compared s v b P \<longleftrightarrow> P (cmp (clean v) (clean b))"
  using compareVersions_cmp [OF assms] by (auto simp: compared_def)

lemma inside_window: "window_operands r v \<Longrightarrow> inside s v r \<longleftrightarrow> in_window cmp r v"
  by (auto simp: inside_def in_window_def window_operands_def compared_cmp)

lemma never_refused:
  assumes "window_operands r v" "range_answer s v r res = Inl x"
  shows "e_verdict x = vNotInRange"
proof (rule ccontr)
  assume "e_verdict x \<noteq> vNotInRange"
  then have "e_verdict x = vUndecided" using range_answer_Inl [OF assms(2)] by blast
  from range_answer_refused [OF assms(2) this] obtain b where
    "comparable_with v b" "compareVersions s v b = None"
    using assms(1) unfolding window_operands_def by blast
  moreover have "unusable v = None" using assms(1) by (simp add: window_operands_def)
  ultimately show False using compareVersions_cmp [of v b] by simp
qed

text \<open>On usable operands a window is always decided, and is the interval its bounds state.\<close>

lemma window_spec:
  assumes "no_sentinel r" "bounded r" "window_operands r v"
  shows "e_verdict (evalRange s v r) = (if in_window cmp r v then vInRange else vNotInRange)"
proof (cases "in_window cmp r v")
  case True
  then show ?thesis using evalRange_in_range [OF assms(1,2)] inside_window [OF assms(3)] by simp
next
  case False
  obtain res where e: "evalRange s v r =
      (case range_answer s v r res of Inl e \<Rightarrow> e | Inr res \<Rightarrow> decided vInRange (gradeOf s) res)"
    using evalRange_answer [OF assms(1,2)] .
  show ?thesis
  proof (cases "range_answer s v r res")
    case (Inl x)
    then show ?thesis using False e never_refused [OF assms(3) Inl] by simp
  next
    case (Inr x)
    then show ?thesis using False range_answer_Inr [OF Inr] inside_window [OF assms(3)] by simp
  qed
qed

text \<open>Between two affected versions lie only affected ones.\<close>

lemma in_window_convex:
  assumes "in_window cmp r u" "in_window cmp r w" "cmp (clean u) (clean v) \<le> 0" "cmp (clean v) (clean w) \<le> 0"
  shows "in_window cmp r v"
proof -
  have up: "cmp (clean v) b < 0" if "cmp (clean w) b < 0" for b
    by (rule cmp_le_less_trans [OF assms(4) that])
  have up': "cmp (clean v) b \<le> 0" if "cmp (clean w) b \<le> 0" for b
    by (rule cmp_trans [OF assms(4) that])
  have lo: "0 \<le> cmp (clean v) b" if "0 \<le> cmp (clean u) b" for b
    using cmp_ge_trans [of "clean v" "clean u" b] assms(3) that cmp_swap [of "clean u" "clean v"] by linarith
  have lo': "0 < cmp (clean v) b" if "0 < cmp (clean u) b" for b
    using cmp_le_less_trans [of "clean v" b "clean u"] cmp_trans [of "clean u" "clean v" b] assms(3) that
    by linarith
  have "above_lower r (cmp (clean v) (clean (fst (lower_bound r))))" if "has_lower r"
  proof -
    have "above_lower r (cmp (clean u) (clean (fst (lower_bound r))))" using assms(1) that by (simp add: in_window_def)
    then show ?thesis
      using lo [of "clean (fst (lower_bound r))"] lo' [of "clean (fst (lower_bound r))"]
      unfolding above_lower_def by linarith
  qed
  moreover have "trim_space (Fixed r) \<noteq> [] \<longrightarrow> cmp (clean v) (clean (trim_space (Fixed r))) < 0"
    using assms(2) up unfolding in_window_def by blast
  moreover have "trim_space (LastAffected r) \<noteq> [] \<longrightarrow> cmp (clean v) (clean (trim_space (LastAffected r))) \<le> 0"
    using assms(2) up' unfolding in_window_def by blast
  ultimately show ?thesis unfolding in_window_def by blast
qed

lemma window_convex:
  assumes "no_sentinel r" "bounded r" "window_operands r u" "window_operands r v" "window_operands r w"
    and "e_verdict (evalRange s u r) = vInRange" "e_verdict (evalRange s w r) = vInRange"
    and "cmp (clean u) (clean v) \<le> 0" "cmp (clean v) (clean w) \<le> 0"
  shows "e_verdict (evalRange s v r) = vInRange"
proof -
  have "in_window cmp r u" "in_window cmp r w"
    using assms(6,7) window_spec [OF assms(1,2,3)] window_spec [OF assms(1,2,5)]
    by (simp_all split: if_splits)
  then have "in_window cmp r v" using assms(8,9) by (rule in_window_convex)
  then show ?thesis using window_spec [OF assms(1,2,4)] by simp
qed

end

lemma CompareCertain_total:
  assumes "Ordered s" "\<And>x y. \<exists>c. scheme_compare s x y = Some (cmp x y, c)" "\<And>x. cmp x x = 0"
    and "unusable a = None" "unusable b = None"
  shows "\<exists>c. CompareCertain s a b = Inr (cmp (clean a) (clean b), c)"
proof -
  obtain c where "scheme_compare s (clean a) (clean b) = Some (cmp (clean a) (clean b), c)"
    using assms(2) by blast
  then show ?thesis using assms(1,3-5) by (simp add: CompareCertain_def Let_def)
qed

interpretation debian_windows: ordered_scheme debian_cmp Debian
  by unfold_locales
    (rule CompareCertain_total, simp_all add: Ordered_def scheme_compare_def compareDebian_eq debian.cmp_refl)

interpretation rpm_windows: ordered_scheme rpm_cmp RPM
  by unfold_locales
    (rule CompareCertain_total, simp_all add: Ordered_def scheme_compare_def compareRPM_eq rpm.cmp_refl)

section \<open>The union\<close>

text \<open>\<open>strongerPositive\<close> is a strict weak order: grade, then no heuristic, then fewest conditions.\<close>

lemma strongerPositive_irrefl: "\<not> strongerPositive e e"
  by (simp add: strongerPositive_def)

lemma strongerPositive_neg_trans:
  "\<not> strongerPositive a b \<Longrightarrow> \<not> strongerPositive b c \<Longrightarrow> \<not> strongerPositive a c"
  unfolding strongerPositive_def by (auto split: if_splits)

lemma strongerPositive_asym: "strongerPositive a b \<Longrightarrow> \<not> strongerPositive b a"
  unfolding strongerPositive_def by (auto split: if_splits)

definition strongest :: "elementResult list \<Rightarrow> elementResult \<Rightarrow> elementResult" where
  "strongest es b = fold (\<lambda>e best. if strongerPositive e best then e else best) es b"

lemma strongest_mem: "strongest es b \<in> insert b (set es)"
  unfolding strongest_def by (induction es arbitrary: b) (auto split: if_splits)

lemma strongest_max:
  "\<not> strongerPositive b (strongest es b) \<and> (\<forall>e \<in> set es. \<not> strongerPositive e (strongest es b))"
proof (induction es arbitrary: b)
  case Nil
  then show ?case by (simp add: strongest_def strongerPositive_irrefl)
next
  case (Cons e es)
  let ?b = "if strongerPositive e b then e else b"
  have st: "strongest (e # es) b = strongest es ?b" by (simp add: strongest_def)
  have "\<not> strongerPositive b ?b" "\<not> strongerPositive e ?b"
    using strongerPositive_asym strongerPositive_irrefl by auto
  then show ?case using Cons.IH [of ?b] strongerPositive_neg_trans unfolding st by (metis set_ConsD)
qed

lemma unionOf_cases:
  "unionOf elems =
     (case filter (\<lambda>e. e_verdict e = vInRange) elems of
        p # ps \<Rightarrow> Some (strongest ps p)
      | [] \<Rightarrow>
          (case filter (\<lambda>e. e_verdict e = vUndecided) elems of
             u # _ \<Rightarrow> Some u
           | [] \<Rightarrow> (case elems of [] \<Rightarrow> None | e # _ \<Rightarrow> Some e)))"
  unfolding unionOf_def strongest_def by (rule refl)

lemma unionOf_None: "unionOf elems = None \<longleftrightarrow> elems = []"
  by (cases elems) (auto simp: unionOf_cases split: list.splits)

lemma filter_head: "filter P xs = y # ys \<Longrightarrow> y \<in> set xs \<and> P y \<and> set ys \<subseteq> set xs \<and> (\<forall>z \<in> set ys. P z)"
  by (drule arg_cong [where f = set]) auto

text \<open>One positive window makes the union positive, and only windows that all excluded the version make it negative.\<close>

lemma unionOf_positive:
  assumes "unionOf elems = Some res"
  shows "e_verdict res = vInRange \<longleftrightarrow> (\<exists>e \<in> set elems. e_verdict e = vInRange)"
proof (cases "filter (\<lambda>e. e_verdict e = vInRange) elems")
  case Nil
  then have none: "\<forall>e \<in> set elems. e_verdict e \<noteq> vInRange" by (simp add: filter_empty_conv)
  have "res \<in> set elems"
    using assms Nil
    by (auto simp: unionOf_cases split: list.splits dest!: filter_head)
  then show ?thesis using none by blast
next
  case (Cons p ps)
  have "res \<in> insert p (set ps)" using assms Cons strongest_mem [of ps p] by (simp add: unionOf_cases)
  then show ?thesis using filter_head [OF Cons] by blast
qed

lemma unionOf_mem: "unionOf elems = Some res \<Longrightarrow> res \<in> set elems"
proof (cases "filter (\<lambda>e. e_verdict e = vInRange) elems")
  case Nil
  then show "unionOf elems = Some res \<Longrightarrow> ?thesis"
    by (auto simp: unionOf_cases split: list.splits dest!: filter_head)
next
  case (Cons p ps)
  show "unionOf elems = Some res \<Longrightarrow> ?thesis"
    using Cons strongest_mem [of ps p] filter_head [OF Cons] by (auto simp: unionOf_cases)
qed

lemma unionOf_negative:
  assumes "unionOf elems = Some res"
  shows "e_verdict res = vNotInRange \<longleftrightarrow> (\<forall>e \<in> set elems. e_verdict e = vNotInRange)"
proof (cases "\<exists>e \<in> set elems. e_verdict e = vInRange")
  case True
  then show ?thesis using unionOf_positive [OF assms] by fastforce
next
  case False
  then have p: "filter (\<lambda>e. e_verdict e = vInRange) elems = []" by (simp add: filter_empty_conv)
  show ?thesis
  proof (cases "filter (\<lambda>e. e_verdict e = vUndecided) elems")
    case Nil
    then have "e_verdict e = vNotInRange" if "e \<in> set elems" for e
      using False that by (cases "e_verdict e") (auto simp: filter_empty_conv)
    then show ?thesis using unionOf_mem [OF assms] by blast
  next
    case (Cons u us)
    then show ?thesis using assms p filter_head [OF Cons] by (force simp: unionOf_cases)
  qed
qed

lemma unionOf_strongest:
  assumes "unionOf elems = Some res" "e \<in> set elems" "e_verdict e = vInRange"
  shows "\<not> strongerPositive e res"
proof (cases "filter (\<lambda>e. e_verdict e = vInRange) elems")
  case Nil
  then show ?thesis using assms(2,3) by (simp add: filter_empty_conv)
next
  case (Cons p ps)
  have "e \<in> set (p # ps)" using assms(2,3) unfolding Cons [symmetric] by simp
  then show ?thesis using assms(1) Cons strongest_max [of p ps] by (auto simp: unionOf_cases)
qed

section \<open>The version test\<close>

lemma versionTest_cases:
  obtains (absent) "snd (version_elements c a i) = []" "versionTest c a i = no_version_data (fst (version_elements c a i))"
  | (union) res where "unionOf (snd (version_elements c a i)) = Some res"
      "e_verdict (versionTest c a i) =
         (if e_verdict res = vNotInRange \<and> unknownByDefault a then vUndecided else e_verdict res)"
proof (cases "unionOf (snd (version_elements c a i))")
  case None
  show thesis by (rule absent) (use None in \<open>simp_all add: versionTest_def case_prod_beta unionOf_None [symmetric]\<close>)
next
  case (Some res)
  then show thesis using union [of res] by (simp add: versionTest_def case_prod_beta Let_def)
qed

text \<open>The verdict is positive exactly when one of the statement's elements is.\<close>

lemma versionTest_in_range:
  "e_verdict (versionTest c a i) = vInRange
     \<longleftrightarrow> (\<exists>e \<in> set (snd (version_elements c a i)). e_verdict e = vInRange)"
proof (cases rule: versionTest_cases [of c a i])
  case absent
  then show ?thesis by (simp add: no_version_data_def)
next
  case (union res)
  then show ?thesis using unionOf_positive [OF union(1)] by (auto split: if_splits)
qed

text \<open>It is negative only where every element decided against it, and never where the source leaves the
  versions it does not list unknown.\<close>

lemma versionTest_out_of_range:
  "e_verdict (versionTest c a i) = vNotInRange
     \<longleftrightarrow> snd (version_elements c a i) \<noteq> []
       \<and> (\<forall>e \<in> set (snd (version_elements c a i)). e_verdict e = vNotInRange) \<and> \<not> unknownByDefault a"
proof (cases rule: versionTest_cases [of c a i])
  case absent
  then show ?thesis by (simp add: no_version_data_def)
next
  case (union res)
  then show ?thesis using unionOf_negative [OF union(1)] unionOf_None [of "snd (version_elements c a i)"] by auto
qed

end
