(* ===== verification/Evaluate.thy ===== *)
theory Evaluate
  imports Window_Laws
begin

text \<open>
  \<open>internal/match/match.go\<close>: \<open>Evaluate\<close>, the verdict of one component against one statement, and
  \<open>confidenceFor\<close>, the level a finding is reported at. Of the prose of \<open>Evidence.Reason\<close> the model keeps
  what a program can read off it: the review tag in front of the colon, the caps, the demotions and the
  notes. Shown: what each verdict proves about the statement, the status and the version test, the exact
  conditions of a confirmed finding, and that neither a missing version nor a weak name on a
  distribution package is ever turned into a finding.
\<close>

record Evidence =
  ev_MatchedOn :: string
  ev_Confidence :: "Confidence option"
  ev_Scheme :: "Scheme option"
  ev_tag :: string
  ev_caps :: "string list"
  ev_demotions :: "string list"
  ev_notes :: "string list"

definition no_evidence :: Evidence where
  "no_evidence = \<lparr>ev_MatchedOn = [], ev_Confidence = None, ev_Scheme = None, ev_tag = [],
     ev_caps = [], ev_demotions = [], ev_notes = []\<rparr>"

definition openEndedClaim :: "Affected \<Rightarrow> bool" where
  "openEndedClaim a \<longleftrightarrow> a_Ranges a \<noteq> [] \<and>
     list_all (\<lambda>r. trim_space (Fixed r) = [] \<and> trim_space (LastAffected r) = []) (a_Ranges a)"

definition statedVersion :: "string \<Rightarrow> bool" where
  "statedVersion v \<longleftrightarrow>
     ClassifySentinel v \<notin> {SentinelEmpty, SentinelAll, SentinelUnknown}
     \<and> \<not> equal_fold (trim_space v) ''NOASSERTION''"

definition keep_first :: "string list \<Rightarrow> string list" where
  "keep_first us = fold (\<lambda>u out. if u \<in> set out then out else out @ [u]) us []"

definition mergeUnproven :: "string list list \<Rightarrow> string list" where
  "mergeUnproven sets = sort (keep_first (concat sets))"

section \<open>The level\<close>

definition base_level :: "identityGrade \<Rightarrow> versionGrade \<Rightarrow> Confidence" where
  "base_level ig vg =
     (if ig = idExact \<and> vg = vgOrdered then Confirmed
      else if (ig = idExact \<and> vg = vgGeneric) \<or> (ig = idStrong \<and> vg = vgOrdered) then Probable
      else Possible)"

definition caps_of :: "identity \<Rightarrow> elementResult \<Rightarrow> string list" where
  "caps_of i vt =
     (if id_grade i = idWeak then [''identity is a bare product name''] else [])
     @ map (\<lambda>u. ''unproven '' @ u) (mergeUnproven [id_unproven i, e_unproven vt])
     @ (case e_grade vt of
          vgUnbounded \<Rightarrow> [''the statement bounds nothing and claims every version'']
        | vgLiteral \<Rightarrow> [''byte equality only, because no ordering scheme applies to these operands'']
        | vgPattern \<Rightarrow> [''the configuration names a version pattern rather than a version, so only the pattern's shape was matched'']
        | _ \<Rightarrow> [])"

definition demotions_of :: "elementResult \<Rightarrow> string list" where
  "demotions_of vt =
     (if e_heuristic vt then [''the ordering was reached by convention rather than by the scheme's own rules''] else [])
     @ (if e_epochElided vt
        then [''only one side stated a package epoch, so both were compared without one and the discarded epoch could have moved the version across the bound'']
        else [])"

fun demote :: "Confidence \<Rightarrow> Confidence" where
  "demote Confirmed = Probable"
| "demote Probable = Possible"
| "demote Possible = Possible"

definition confidenceFor :: "identity \<Rightarrow> elementResult \<Rightarrow> Confidence \<times> string list \<times> string list" where
  "confidenceFor i vt =
     (let caps = caps_of i vt;
          level = (if caps \<noteq> [] then Possible else base_level (id_grade i) (e_grade vt));
          demotions = demotions_of vt
      in (fold (\<lambda>_. demote) demotions level, caps, demotions))"

definition tracker_cap :: "string \<Rightarrow> string" where
  "tracker_cap family = ''the '' @ osvEcosystemName family @ '' tracker lists the package as affected with no fixed version, a shape it also uses for packages it has not triaged''"

section \<open>The verdict\<close>

definition evaluate_negative :: "identity \<Rightarrow> elementResult \<Rightarrow> Result \<times> Evidence" where
  "evaluate_negative i vt =
     (let ev = no_evidence\<lparr>ev_MatchedOn := id_channel i, ev_Scheme := e_scheme vt\<rparr> in
      case e_verdict vt of
        vInRange \<Rightarrow>
          (case confidenceFor i vt of (level, caps, demotions) \<Rightarrow>
             (Suppressed, ev\<lparr>ev_Confidence := Some level, ev_tag := ''suppressed'', ev_caps := caps,
                ev_demotions := demotions, ev_notes := e_notes vt\<rparr>))
      | vNotInRange \<Rightarrow> (NoMatch, ev)
      | vUndecided \<Rightarrow> (Undecidable, ev\<lparr>ev_tag := e_review vt, ev_notes := e_notes vt\<rparr>))"

definition evaluate_positive :: "Affected \<Rightarrow> identity \<Rightarrow> elementResult \<Rightarrow> Result \<times> Evidence" where
  "evaluate_positive a i vt =
     (let ev = no_evidence\<lparr>ev_MatchedOn := id_channel i, ev_Scheme := e_scheme vt\<rparr> in
      case e_verdict vt of
        vInRange \<Rightarrow>
          if id_grade i = idWeak \<and> id_componentFamily i \<in> set distroFamilies
          then (Undecidable, ev\<lparr>ev_tag := ''distro_package_upstream_statement''\<rparr>)
          else
            (case confidenceFor i vt of (level0, caps0, demotions) \<Rightarrow>
               (let open_claim = (level0 = Confirmed \<and> id_rowFamily i \<in> set distroFamilies \<and> openEndedClaim a);
                    level = (if open_claim then Probable else level0);
                    caps = (if open_claim then caps0 @ [tracker_cap (id_rowFamily i)] else caps0)
                in (Match, ev\<lparr>ev_Confidence := Some level, ev_caps := caps, ev_demotions := demotions,
                      ev_notes := e_notes vt\<rparr>)))
      | vNotInRange \<Rightarrow> (NoMatch, ev\<lparr>ev_notes := e_notes vt\<rparr>)
      | vUndecided \<Rightarrow> (Undecidable, ev\<lparr>ev_tag := e_review vt, ev_notes := e_notes vt\<rparr>))"

definition Evaluate :: "Component \<Rightarrow> Affected \<Rightarrow> Result \<times> Evidence" where
  "Evaluate c a =
     (let i = identify c a in
      if id_grade i = idNone then (NoMatch, no_evidence)
      else if \<not> statedVersion (c_Version c)
      then (Undecidable, no_evidence\<lparr>ev_MatchedOn := id_channel i, ev_tag := ''no_component_version''\<rparr>)
      else
        let status = normalizeStatus (a_Status a); vt = versionTest c a i in
        if status = StatusUnderInvestigation \<or> status = StatusConditional then
          (if e_verdict vt = vNotInRange
           then (NoMatch, no_evidence\<lparr>ev_MatchedOn := id_channel i, ev_Scheme := e_scheme vt\<rparr>)
           else if status = StatusConditional
           then (Undecidable, no_evidence\<lparr>ev_MatchedOn := id_channel i, ev_tag := ''conditional_applicability''\<rparr>)
           else (Undecidable, no_evidence\<lparr>ev_MatchedOn := id_channel i, ev_tag := ''status_under_investigation''\<rparr>))
        else if status = StatusNotAffected \<or> status = StatusFixed then evaluate_negative i vt
        else evaluate_positive a i vt)"

section \<open>Conditions are one set\<close>

lemma keep_first_fold:
  "distinct out \<Longrightarrow>
     distinct (fold (\<lambda>u out. if u \<in> set out then out else out @ [u]) us out)
     \<and> set (fold (\<lambda>u out. if u \<in> set out then out else out @ [u]) us out) = set out \<union> set us"
  by (induction us arbitrary: out) auto

lemma keep_first_props: "distinct (keep_first us)" "set (keep_first us) = set us"
  using keep_first_fold [of "[]" us] by (simp_all add: keep_first_def)

lemma mergeUnproven_props:
  "sorted (mergeUnproven us) \<and> distinct (mergeUnproven us) \<and> set (mergeUnproven us) = (\<Union>u \<in> set us. set u)"
  by (auto simp: mergeUnproven_def keep_first_props)

lemma mergeUnproven_order: "set us = set vs \<Longrightarrow> mergeUnproven us = mergeUnproven vs"
  using mergeUnproven_props [of us] mergeUnproven_props [of vs]
  by (intro sorted_distinct_set_unique) auto

lemma mergeUnproven_Nil: "mergeUnproven us = [] \<longleftrightarrow> (\<forall>u \<in> set us. u = [])"
  using mergeUnproven_props [of us] by (metis SUP_bot_conv(2) set_empty)

section \<open>The level, exactly\<close>

lemma fold_demote_le: "fold (\<lambda>_. demote) ds l \<le> l"
proof (induction ds arbitrary: l)
  case (Cons d ds)
  have "demote l \<le> l" by (cases l) (simp_all add: less_eq_Confidence_def confidenceRank_def)
  then show ?case using Cons.IH [of "demote l"] by simp
qed simp

lemma demote_not_Confirmed: "demote l \<noteq> Confirmed"
  by (cases l) simp_all

lemma fold_demote_not_Confirmed: "ds \<noteq> [] \<Longrightarrow> fold (\<lambda>_. demote) ds l \<noteq> Confirmed"
proof (induction ds arbitrary: l)
  case (Cons d ds)
  then show ?case by (cases "ds = []") (simp_all add: demote_not_Confirmed)
qed simp

lemma fold_demote_Possible [simp]: "fold (\<lambda>_. demote) ds Possible = Possible"
  by (induction ds) simp_all

lemma caps_of_Nil:
  "caps_of i vt = [] \<longleftrightarrow> id_grade i \<noteq> idWeak \<and> id_unproven i = [] \<and> e_unproven vt = []
     \<and> e_grade vt \<notin> {vgUnbounded, vgLiteral, vgPattern}"
  by (cases "e_grade vt") (auto simp: caps_of_def mergeUnproven_Nil)

lemma demotions_of_Nil: "demotions_of vt = [] \<longleftrightarrow> \<not> e_heuristic vt \<and> \<not> e_epochElided vt"
  by (simp add: demotions_of_def)

lemma confidenceFor_Confirmed:
  "fst (confidenceFor i vt) = Confirmed \<longleftrightarrow>
     id_grade i = idExact \<and> e_grade vt = vgOrdered \<and> id_unproven i = [] \<and> e_unproven vt = []
     \<and> \<not> e_heuristic vt \<and> \<not> e_epochElided vt"
proof (cases "caps_of i vt = [] \<and> demotions_of vt = []")
  case True
  then show ?thesis using caps_of_Nil [of i vt] demotions_of_Nil [of vt]
    by (auto simp: confidenceFor_def Let_def base_level_def)
next
  case False
  then have "fst (confidenceFor i vt) \<noteq> Confirmed"
    by (auto simp: confidenceFor_def Let_def fold_demote_not_Confirmed)
  then show ?thesis using False caps_of_Nil [of i vt] demotions_of_Nil [of vt] by auto
qed

text \<open>A cap is final: no grade lifts a capped finding above \<open>possible\<close>.\<close>

lemma confidenceFor_capped: "caps_of i vt \<noteq> [] \<Longrightarrow> fst (confidenceFor i vt) = Possible"
  by (simp add: confidenceFor_def Let_def)

lemma confidenceFor_base: "fst (confidenceFor i vt) \<le> base_level (id_grade i) (e_grade vt)"
  using fold_demote_le by (auto simp: confidenceFor_def Let_def)

section \<open>What a verdict proves\<close>

definition negative_status :: "Affected \<Rightarrow> bool" where
  "negative_status a \<longleftrightarrow> normalizeStatus (a_Status a) \<in> {StatusNotAffected, StatusFixed}"

lemma evaluate_positive_cases:
  "fst (evaluate_positive a i vt) = Match \<longleftrightarrow>
     e_verdict vt = vInRange \<and> \<not> (id_grade i = idWeak \<and> id_componentFamily i \<in> set distroFamilies)"
  "fst (evaluate_positive a i vt) \<noteq> Suppressed"
  "fst (evaluate_positive a i vt) = NoMatch \<longleftrightarrow> e_verdict vt = vNotInRange"
  by (cases "e_verdict vt"; simp add: evaluate_positive_def Let_def split: prod.splits)+

lemma evaluate_negative_cases:
  "fst (evaluate_negative i vt) = Suppressed \<longleftrightarrow> e_verdict vt = vInRange"
  "fst (evaluate_negative i vt) \<noteq> Match"
  "fst (evaluate_negative i vt) = NoMatch \<longleftrightarrow> e_verdict vt = vNotInRange"
  by (cases "e_verdict vt"; simp add: evaluate_negative_def Let_def split: prod.splits)+

lemmas evaluate_cases = evaluate_positive_cases evaluate_negative_cases

lemma Evaluate_Match:
  "fst (Evaluate c a) = Match \<longleftrightarrow>
     id_grade (identify c a) \<noteq> idNone \<and> statedVersion (c_Version c)
     \<and> normalizeStatus (a_Status a) = StatusAffected
     \<and> e_verdict (versionTest c a (identify c a)) = vInRange
     \<and> \<not> (id_grade (identify c a) = idWeak \<and> id_componentFamily (identify c a) \<in> set distroFamilies)"
  by (cases "normalizeStatus (a_Status a)") (simp_all add: Evaluate_def Let_def evaluate_cases)

lemma Evaluate_Suppressed:
  "fst (Evaluate c a) = Suppressed \<longleftrightarrow>
     id_grade (identify c a) \<noteq> idNone \<and> statedVersion (c_Version c) \<and> negative_status a
     \<and> e_verdict (versionTest c a (identify c a)) = vInRange"
  by (cases "normalizeStatus (a_Status a)") (simp_all add: Evaluate_def Let_def evaluate_cases negative_status_def)

lemma Evaluate_NoMatch:
  "fst (Evaluate c a) = NoMatch \<longleftrightarrow>
     id_grade (identify c a) = idNone
     \<or> (statedVersion (c_Version c) \<and> e_verdict (versionTest c a (identify c a)) = vNotInRange)"
  by (cases "normalizeStatus (a_Status a)") (simp_all add: Evaluate_def Let_def evaluate_cases)

text \<open>A confirmed finding rests on an exact identity and an ordering nothing qualifies.\<close>

lemma evaluate_level:
  "fst (evaluate_positive a i vt) = Match \<Longrightarrow>
     (\<exists>l. ev_Confidence (snd (evaluate_positive a i vt)) = Some l \<and> l \<le> fst (confidenceFor i vt)
        \<and> (l = Confirmed \<longrightarrow> \<not> (id_rowFamily i \<in> set distroFamilies \<and> openEndedClaim a)))"
  "fst (evaluate_negative i vt) = Suppressed \<Longrightarrow>
     ev_Confidence (snd (evaluate_negative i vt)) = Some (fst (confidenceFor i vt))"
  by (cases "e_verdict vt"; auto simp: evaluate_positive_def evaluate_negative_def Let_def split: prod.splits)+

lemma Evaluate_Confirmed:
  assumes "ev_Confidence (snd (Evaluate c a)) = Some Confirmed" "fst (Evaluate c a) = Match"
  shows "id_grade (identify c a) = idExact \<and> id_unproven (identify c a) = []"
    "e_grade (versionTest c a (identify c a)) = vgOrdered"
    "\<not> (id_rowFamily (identify c a) \<in> set distroFamilies \<and> openEndedClaim a)"
proof -
  let ?i = "identify c a" and ?vt = "versionTest c a (identify c a)"
  have m: "id_grade ?i \<noteq> idNone" "statedVersion (c_Version c)" "normalizeStatus (a_Status a) = StatusAffected"
    using assms(2) by (simp_all add: Evaluate_Match)
  then have e: "Evaluate c a = evaluate_positive a ?i ?vt" by (simp add: Evaluate_def Let_def)
  obtain l where l: "ev_Confidence (snd (evaluate_positive a ?i ?vt)) = Some l" "l \<le> fst (confidenceFor ?i ?vt)"
    "l = Confirmed \<longrightarrow> \<not> (id_rowFamily ?i \<in> set distroFamilies \<and> openEndedClaim a)"
    using evaluate_level(1) [of a ?i ?vt] assms(2) unfolding e by blast
  have lc: "l = Confirmed" using assms(1) l(1) unfolding e by simp
  then have "fst (confidenceFor ?i ?vt) = Confirmed"
    using l(2) by (cases "fst (confidenceFor ?i ?vt)") (simp_all add: less_eq_Confidence_def confidenceRank_def)
  then show "id_grade ?i = idExact \<and> id_unproven ?i = []" "e_grade ?vt = vgOrdered"
    by (simp_all add: confidenceFor_Confirmed)
  show "\<not> (id_rowFamily ?i \<in> set distroFamilies \<and> openEndedClaim a)" using l(3) lc by blast
qed

text \<open>Every finding and every negative is graded, and nothing else is.\<close>

lemma Evaluate_graded:
  "ev_Confidence (snd (Evaluate c a)) = None \<longleftrightarrow> fst (Evaluate c a) \<in> {NoMatch, Undecidable}"
proof -
  let ?i = "identify c a" and ?vt = "versionTest c a (identify c a)"
  have p: "ev_Confidence (snd (evaluate_positive a ?i ?vt)) = None \<longleftrightarrow>
      fst (evaluate_positive a ?i ?vt) \<in> {NoMatch, Undecidable}"
    by (cases "e_verdict ?vt") (simp_all add: evaluate_positive_def no_evidence_def Let_def split: prod.splits)
  have n: "ev_Confidence (snd (evaluate_negative ?i ?vt)) = None \<longleftrightarrow>
      fst (evaluate_negative ?i ?vt) \<in> {NoMatch, Undecidable}"
    by (cases "e_verdict ?vt") (simp_all add: evaluate_negative_def no_evidence_def Let_def split: prod.splits)
  show ?thesis
    using p n by (cases "normalizeStatus (a_Status a)") (simp_all add: Evaluate_def no_evidence_def Let_def)
qed

text \<open>Without a version there is no finding, and without an identity no question.\<close>

lemma Evaluate_no_version:
  "\<not> statedVersion (c_Version c) \<Longrightarrow>
     fst (Evaluate c a) = (if id_grade (identify c a) = idNone then NoMatch else Undecidable)"
  by (simp add: Evaluate_def Let_def)

end
