(* ===== verification/Stable_Sort.thy ===== *)
theory Stable_Sort
  imports Main "HOL-Library.Multiset"
begin

text \<open>
  Go's stable sort as the components call it, and the interface it asks of a comparator: a strict weak order.
  Under it the result holds the same elements, none behind one it should precede, and elements of one weight
  keep the order they came in.
\<close>

text \<open>\<open>sort.SliceStable\<close>: each element goes behind those it is not less than.\<close>

fun insert_stable :: "('a \<Rightarrow> 'a \<Rightarrow> bool) \<Rightarrow> 'a \<Rightarrow> 'a list \<Rightarrow> 'a list" where
  "insert_stable lt x [] = [x]"
| "insert_stable lt x (y # ys) = (if lt x y then x # y # ys else y # insert_stable lt x ys)"

definition sort_stable :: "('a \<Rightarrow> 'a \<Rightarrow> bool) \<Rightarrow> 'a list \<Rightarrow> 'a list" where
  "sort_stable lt xs = fold (insert_stable lt) xs []"

text \<open>The interface a comparator owes the sort: a strict weak order.\<close>

locale strict_weak_order =
  fixes lt :: "'a \<Rightarrow> 'a \<Rightarrow> bool"
  assumes asym: "lt x y \<Longrightarrow> \<not> lt y x"
    and neg_trans: "\<not> lt x y \<Longrightarrow> \<not> lt y z \<Longrightarrow> \<not> lt x z"
begin

definition in_order :: "'a list \<Rightarrow> bool" where
  "in_order xs \<longleftrightarrow> sorted_wrt (\<lambda>x y. \<not> lt y x) xs"

lemma mset_insert_stable: "mset (insert_stable lt x ys) = add_mset x (mset ys)"
  by (induction ys) auto

lemma set_insert_stable: "set (insert_stable lt x ys) = insert x (set ys)"
  using mset_insert_stable [of x ys] by (metis set_mset_add_mset_insert set_mset_mset)

lemma insert_in_order: "in_order ys \<Longrightarrow> in_order (insert_stable lt x ys)"
proof (induction ys)
  case (Cons y ys)
  show ?case
  proof (cases "lt x y")
    case True
    have "\<not> lt z x" if "z \<in> set (y # ys)" for z
    proof -
      have "\<not> lt z y" if "z \<in> set ys" using Cons.prems that by (simp add: in_order_def)
      then show ?thesis using that asym [OF True] neg_trans [of z y x] True by (cases "z = y") auto
    qed
    then show ?thesis using True Cons.prems by (simp add: in_order_def)
  next
    case False
    then show ?thesis using Cons by (simp add: in_order_def set_insert_stable)
  qed
qed (simp add: in_order_def)

lemma sort_stable_in_order: "in_order (sort_stable lt xs)"
proof -
  have "in_order ys \<Longrightarrow> in_order (fold (insert_stable lt) xs ys)" for ys
    by (induction xs arbitrary: ys) (simp_all add: insert_in_order)
  then show ?thesis by (simp add: sort_stable_def in_order_def)
qed

lemma sort_stable_mset: "mset (sort_stable lt xs) = mset xs"
proof -
  have "mset (fold (insert_stable lt) xs ys) = mset xs + mset ys" for ys
    by (induction xs arbitrary: ys) (simp_all add: mset_insert_stable)
  then show ?thesis by (simp add: sort_stable_def)
qed

text \<open>Stability: elements of one weight keep the order they came in.\<close>

lemma insert_filter:
  assumes "\<And>y z. P y \<Longrightarrow> P z \<Longrightarrow> \<not> lt y z" "in_order ys"
  shows "filter P (insert_stable lt x ys) = filter P ys @ filter P [x]"
  using assms(2)
proof (induction ys)
  case (Cons y ys)
  show ?case
  proof (cases "lt x y")
    case True
    have "\<not> P z" if "P x" "z \<in> set (y # ys)" for z
    proof
      assume "P z"
      then have "\<not> lt x z" using assms(1) that(1) by blast
      moreover have "z = y \<or> \<not> lt z y" using Cons.prems that(2) by (auto simp: in_order_def)
      ultimately show False using True neg_trans [of x z y] by auto
    qed
    then show ?thesis using True by (auto simp: filter_empty_conv)
  next
    case False
    then show ?thesis using Cons by (simp add: in_order_def)
  qed
qed simp

lemma sort_stable_filter:
  assumes "\<And>y z. P y \<Longrightarrow> P z \<Longrightarrow> \<not> lt y z"
  shows "filter P (sort_stable lt xs) = filter P xs"
proof -
  have "in_order ys \<Longrightarrow> filter P (fold (insert_stable lt) xs ys) = filter P ys @ filter P xs" for ys
  proof (induction xs arbitrary: ys)
    case (Cons x xs)
    then show ?case
      using insert_filter [OF assms, where x = x and ys = ys] insert_in_order [of ys x] by simp
  qed simp
  then show ?thesis by (simp add: sort_stable_def in_order_def)
qed

end

text \<open>Without repetition and under a total comparator the order is strict.\<close>

lemma sorted_strict:
  assumes "sorted_wrt (\<lambda>x y. \<not> lt y x) xs" "distinct xs" "\<And>x y. \<not> lt x y \<Longrightarrow> \<not> lt y x \<Longrightarrow> x = y"
  shows "sorted_wrt lt xs"
  using assms(1,2)
proof (induction xs)
  case (Cons x xs)
  have "lt x y" if "y \<in> set xs" for y using Cons.prems that assms(3) [of x y] by fastforce
  then show ?case using Cons by simp
qed simp

end
