(* ===== verification/Scan.thy ===== *)
theory Scan
  imports Evaluate Stable_Sort
begin

text \<open>
  \<open>internal/scan/scan.go\<close>: the verdicts of one component reduced to one answer per vulnerability, the
  order of a report, and the scan of an inventory. The store is a parameter: \<open>found\<close> is what
  \<open>FindAffectedCandidates\<close> answered and \<open>summaries\<close> what \<open>VulnSummaries\<close> answered. Go iterates over a map in
  an order of its own, so the keys' order is an argument \<open>order\<close>, and the results hold for every one.
  The sentences appended to \<open>Evidence.Reason\<close> are not modelled. Shown: what is reported is the strongest
  positive of its vulnerability, a finding is retired exactly by a negative at least as strong, no
  vulnerability is reported and retired at once, and a report is sorted by the order its comment states.
\<close>

section \<open>Findings\<close>

record AffectedStatement =
  st_VulnID :: string
  st_Vendor :: string
  st_Product :: string
  st_Ecosystem :: string
  st_PURL :: string
  st_CPEs :: "string list"
  st_Versions :: "string list"
  st_Ranges :: "VersionRange list"
  st_DefaultState :: string
  st_Status :: string
  st_Source :: string
  st_Fingerprint :: string

record Statement =
  s_Source :: string
  s_Vendor :: string
  s_Product :: string
  s_Ecosystem :: string
  s_PURL :: string
  s_Status :: string

text \<open>The fields of \<open>store.VulnSummary\<close> that a scan reads.\<close>

record VulnSummary =
  vs_ID :: string
  vs_InKEV :: bool
  vs_EPSSScore :: rat
  vs_Score :: rat

record Finding =
  f_Component :: Component
  f_Vulnerability :: VulnSummary
  f_Evidence :: Evidence
  f_Statement :: Statement
  f_RetiredBy :: "Statement option"

record verdicts =
  matched :: "Finding list"
  undecided_list :: "Finding list"
  suppressed :: "Finding list"

definition toAffected :: "AffectedStatement \<Rightarrow> Affected" where
  "toAffected st = \<lparr>a_VulnID = st_VulnID st, a_Vendor = st_Vendor st, a_Product = st_Product st,
     a_Ecosystem = st_Ecosystem st, a_PURL = st_PURL st, a_CPEs = st_CPEs st, a_Versions = st_Versions st,
     a_Ranges = st_Ranges st, a_DefaultState = st_DefaultState st, a_Status = st_Status st,
     a_Source = st_Source st\<rparr>"

definition statement_of :: "AffectedStatement \<Rightarrow> Statement" where
  "statement_of st = \<lparr>s_Source = st_Source st, s_Vendor = st_Vendor st, s_Product = st_Product st,
     s_Ecosystem = st_Ecosystem st, s_PURL = st_PURL st, s_Status = st_Status st\<rparr>"

definition no_summary :: "string \<Rightarrow> VulnSummary" where
  "no_summary vid = \<lparr>vs_ID = vid, vs_InKEV = False, vs_EPSSScore = 0, vs_Score = 0\<rparr>"

text \<open>\<open>confidenceRank\<close> of a finding: the empty confidence of an ungraded one ranks last.\<close>

definition finding_rank :: "Finding \<Rightarrow> nat" where
  "finding_rank f = (case ev_Confidence (f_Evidence f) of None \<Rightarrow> 3 | Some c \<Rightarrow> confidenceRank c)"

definition f_id :: "Finding \<Rightarrow> string" where
  "f_id f = vs_ID (f_Vulnerability f)"

definition DefaultMinConfidence :: Confidence where
  "DefaultMinConfidence = Probable"

section \<open>One component\<close>

definition finding_of :: "Component \<Rightarrow> AffectedStatement \<Rightarrow> Finding" where
  "finding_of c st = \<lparr>f_Component = c, f_Vulnerability = no_summary (st_VulnID st),
     f_Evidence = snd (Evaluate c (toAffected st)), f_Statement = statement_of st, f_RetiredBy = None\<rparr>"

text \<open>\<open>if prev, ok := m[id]; !ok || stronger(...)\<close>: the first of the strongest stays.\<close>

definition keep_stronger :: "Finding \<Rightarrow> (string \<rightharpoonup> Finding) \<Rightarrow> (string \<rightharpoonup> Finding)" where
  "keep_stronger f m =
     (case m (f_id f) of
        None \<Rightarrow> m(f_id f \<mapsto> f)
      | Some prev \<Rightarrow> if finding_rank f < finding_rank prev then m(f_id f \<mapsto> f) else m)"

record component_state =
  best :: "string \<rightharpoonup> Finding"
  questions :: "Finding list"
  vetoed :: "string \<rightharpoonup> Finding"

definition component_step :: "Component \<Rightarrow> Confidence \<Rightarrow> bool \<Rightarrow> AffectedStatement \<Rightarrow> component_state \<Rightarrow> component_state" where
  "component_step c minimum includeUndecidable st s =
     (let f = finding_of c st in
      case fst (Evaluate c (toAffected st)) of
        Match \<Rightarrow> if \<not> finding_rank f \<le> confidenceRank minimum then s
                 else s\<lparr>best := keep_stronger f (best s)\<rparr>
      | Undecidable \<Rightarrow> if includeUndecidable then s\<lparr>questions := questions s @ [f]\<rparr> else s
      | Suppressed \<Rightarrow> s\<lparr>vetoed := keep_stronger f (vetoed s)\<rparr>
      | NoMatch \<Rightarrow> s)"

definition component_start :: component_state where
  "component_start = \<lparr>best = Map.empty, questions = [], vetoed = Map.empty\<rparr>"

definition settle_vuln :: "component_state \<Rightarrow> string \<Rightarrow> verdicts \<Rightarrow> verdicts" where
  "settle_vuln s vid out =
     (case best s vid of
        None \<Rightarrow> out
      | Some f \<Rightarrow>
          (case vetoed s vid of
             Some veto \<Rightarrow>
               if finding_rank veto \<le> finding_rank f
               then out\<lparr>suppressed := suppressed out @ [f\<lparr>f_RetiredBy := Some (f_Statement veto)\<rparr>]\<rparr>
               else out\<lparr>matched := matched out @ [f]\<rparr>
           | None \<Rightarrow> out\<lparr>matched := matched out @ [f]\<rparr>))"

definition component_verdicts :: "string list \<Rightarrow> component_state \<Rightarrow> verdicts" where
  "component_verdicts order s =
     (fold (settle_vuln s) order \<lparr>matched = [], undecided_list = [], suppressed = []\<rparr>)
       \<lparr>undecided_list := filter (\<lambda>f. vetoed s (f_id f) = None) (questions s)\<rparr>"

definition component_scan :: "Component \<Rightarrow> AffectedStatement list \<Rightarrow> Confidence \<Rightarrow> bool \<Rightarrow> component_state" where
  "component_scan c candidates minimum includeUndecidable =
     fold (component_step c minimum includeUndecidable) candidates component_start"

definition evaluateComponent :: "string list \<Rightarrow> Component \<Rightarrow> AffectedStatement list \<Rightarrow> Confidence \<Rightarrow> bool \<Rightarrow> verdicts" where
  "evaluateComponent order c candidates minimum includeUndecidable =
     component_verdicts order (component_scan c candidates minimum includeUndecidable)"

text \<open>An order of iteration lists the keys of the map, each once.\<close>

definition iteration_order :: "string list \<Rightarrow> (string \<rightharpoonup> 'a) \<Rightarrow> bool" where
  "iteration_order order m \<longleftrightarrow> distinct order \<and> set order = dom m"

section \<open>The strongest of each vulnerability\<close>

lemma finding_of_simps [simp]:
  "f_id (finding_of c st) = st_VulnID st" "f_RetiredBy (finding_of c st) = None"
  "f_Evidence (finding_of c st) = snd (Evaluate c (toAffected st))" "f_Statement (finding_of c st) = statement_of st"
  by (simp_all add: finding_of_def f_id_def no_summary_def)

definition strongest_of :: "Finding list \<Rightarrow> (string \<rightharpoonup> Finding) \<Rightarrow> bool" where
  "strongest_of fs m \<longleftrightarrow>
     (\<forall>i. (m i = None \<longleftrightarrow> (\<forall>f \<in> set fs. f_id f \<noteq> i))
        \<and> (\<forall>f. m i = Some f \<longrightarrow> f \<in> set fs \<and> f_id f = i
             \<and> (\<forall>g \<in> set fs. f_id g = i \<longrightarrow> finding_rank f \<le> finding_rank g)))"

lemma strongest_of_empty: "strongest_of [] Map.empty"
  by (simp add: strongest_of_def)

lemma keep_stronger_strongest:
  assumes "strongest_of fs m"
  shows "strongest_of (fs @ [f]) (keep_stronger f m)"
proof (cases "m (f_id f)")
  case None
  then have "keep_stronger f m = m(f_id f \<mapsto> f)" by (simp add: keep_stronger_def)
  then show ?thesis using assms None unfolding strongest_of_def by auto
next
  case (Some p)
  then have p: "p \<in> set fs" "f_id p = f_id f" "\<forall>g \<in> set fs. f_id g = f_id f \<longrightarrow> finding_rank p \<le> finding_rank g"
    using assms unfolding strongest_of_def by blast+
  show ?thesis
  proof (cases "finding_rank f < finding_rank p")
    case True
    then have e: "keep_stronger f m = m(f_id f \<mapsto> f)" using Some by (simp add: keep_stronger_def)
    have "\<forall>g \<in> set fs. f_id g = f_id f \<longrightarrow> finding_rank f \<le> finding_rank g" using p(3) True by fastforce
    then show ?thesis using assms Some unfolding e strongest_of_def by auto
  next
    case False
    then have e: "keep_stronger f m = m" using Some by (simp add: keep_stronger_def)
    have mf: "m i = Some q \<Longrightarrow> f_id f = i \<Longrightarrow> q = p" for i q using Some by simp
    show ?thesis
      unfolding e strongest_of_def
    proof (intro allI conjI impI)
      fix i
      show "(m i = None) = (\<forall>g \<in> set (fs @ [f]). f_id g \<noteq> i)"
        using assms Some unfolding strongest_of_def by auto
    next
      fix i q assume q: "m i = Some q"
      then have a: "q \<in> set fs \<and> f_id q = i \<and> (\<forall>g \<in> set fs. f_id g = i \<longrightarrow> finding_rank q \<le> finding_rank g)"
        using assms unfolding strongest_of_def by blast
      then show "q \<in> set (fs @ [f])" "f_id q = i" by simp_all
      have "f_id f = i \<Longrightarrow> finding_rank q \<le> finding_rank f" using mf [OF q] False by simp
      with a show "\<forall>g \<in> set (fs @ [f]). f_id g = i \<longrightarrow> finding_rank q \<le> finding_rank g" by auto
    qed
  qed
qed

text \<open>The three kinds of answers a component's candidates give.\<close>

definition positives :: "Component \<Rightarrow> Confidence \<Rightarrow> AffectedStatement list \<Rightarrow> Finding list" where
  "positives c minimum sts = map (finding_of c)
     (filter (\<lambda>st. fst (Evaluate c (toAffected st)) = Match \<and> finding_rank (finding_of c st) \<le> confidenceRank minimum) sts)"

definition negatives :: "Component \<Rightarrow> AffectedStatement list \<Rightarrow> Finding list" where
  "negatives c sts = map (finding_of c) (filter (\<lambda>st. fst (Evaluate c (toAffected st)) = Suppressed) sts)"

definition open_questions :: "Component \<Rightarrow> AffectedStatement list \<Rightarrow> Finding list" where
  "open_questions c sts = map (finding_of c) (filter (\<lambda>st. fst (Evaluate c (toAffected st)) = Undecidable) sts)"

lemma component_scan_invariant:
  "strongest_of (positives c m sts) (best (component_scan c sts m u))
   \<and> strongest_of (negatives c sts) (vetoed (component_scan c sts m u))
   \<and> questions (component_scan c sts m u) = (if u then open_questions c sts else [])"
proof (induction sts rule: rev_induct)
  case Nil
  then show ?case
    by (simp add: component_scan_def component_start_def positives_def negatives_def open_questions_def strongest_of_empty)
next
  case (snoc st sts)
  let ?s = "component_scan c sts m u"
  have s: "component_scan c (sts @ [st]) m u = component_step c m u st ?s" by (simp add: component_scan_def)
  show ?case
    using snoc.IH keep_stronger_strongest [of "positives c m sts" "best ?s" "finding_of c st"]
      keep_stronger_strongest [of "negatives c sts" "vetoed ?s" "finding_of c st"]
    unfolding s
    by (cases "fst (Evaluate c (toAffected st))"; cases u)
      (simp_all add: component_step_def positives_def negatives_def open_questions_def Let_def)
qed


section \<open>What is reported\<close>

lemma settle_vuln_simps [simp]:
  "undecided_list (settle_vuln s i out) = undecided_list out"
  by (simp add: settle_vuln_def split: option.splits)

text \<open>What one vulnerability contributes to the two lists.\<close>

definition reported :: "component_state \<Rightarrow> string \<Rightarrow> Finding option" where
  "reported s i = (case best s i of
       Some f \<Rightarrow> (case vetoed s i of
           Some v \<Rightarrow> if finding_rank v \<le> finding_rank f then None else Some f | None \<Rightarrow> Some f)
     | None \<Rightarrow> None)"

definition retired :: "component_state \<Rightarrow> string \<Rightarrow> Finding option" where
  "retired s i = (case best s i of
       Some f \<Rightarrow> (case vetoed s i of
           Some v \<Rightarrow> if finding_rank v \<le> finding_rank f then Some (f\<lparr>f_RetiredBy := Some (f_Statement v)\<rparr>) else None
         | None \<Rightarrow> None)
     | None \<Rightarrow> None)"

lemma reported_Some:
  "reported s i = Some f \<longleftrightarrow> best s i = Some f \<and> (\<forall>v. vetoed s i = Some v \<longrightarrow> finding_rank f < finding_rank v)"
  by (auto simp: reported_def not_le split: option.splits if_splits)

lemma retired_Some:
  "retired s i = Some f \<longleftrightarrow> (\<exists>g v. best s i = Some g \<and> vetoed s i = Some v \<and> finding_rank v \<le> finding_rank g
     \<and> f = g\<lparr>f_RetiredBy := Some (f_Statement v)\<rparr>)"
  by (auto simp: retired_def split: option.splits if_splits)

lemma reported_or_retired:
  "best s i \<noteq> None \<longleftrightarrow> reported s i \<noteq> None \<or> retired s i \<noteq> None" "reported s i = None \<or> retired s i = None"
  by (auto simp: reported_def retired_def split: option.splits)

lemma settle_vuln_lists:
  "matched (settle_vuln s i out) = matched out @ List.map_filter (reported s) [i]"
  "suppressed (settle_vuln s i out) = suppressed out @ List.map_filter (retired s) [i]"
  by (auto simp: settle_vuln_def reported_def retired_def split: option.split)

lemma settle_fold:
  "matched (fold (settle_vuln s) order out) = matched out @ List.map_filter (reported s) order"
  "suppressed (fold (settle_vuln s) order out) = suppressed out @ List.map_filter (retired s) order"
  by (induction order arbitrary: out) (simp_all add: settle_vuln_lists split: option.split)

lemma verdicts_lists:
  "matched (component_verdicts order s) = List.map_filter (reported s) order"
  "suppressed (component_verdicts order s) = List.map_filter (retired s) order"
  by (simp_all add: component_verdicts_def settle_fold)

lemma verdicts_matched:
  "f \<in> set (matched (component_verdicts order s)) \<longleftrightarrow> (\<exists>i \<in> set order. reported s i = Some f)"
  by (simp add: verdicts_lists map_filter_mem)

lemma verdicts_suppressed:
  "f \<in> set (suppressed (component_verdicts order s)) \<longleftrightarrow> (\<exists>i \<in> set order. retired s i = Some f)"
  by (simp add: verdicts_lists map_filter_mem)

lemma verdicts_undecided:
  "undecided_list (component_verdicts order s) = filter (\<lambda>f. vetoed s (f_id f) = None) (questions s)"
  by (simp add: component_verdicts_def)

lemma strongest_ofD:
  "strongest_of fs m \<Longrightarrow> m i = Some f \<Longrightarrow>
     f \<in> set fs \<and> f_id f = i \<and> (\<forall>g \<in> set fs. f_id g = i \<longrightarrow> finding_rank f \<le> finding_rank g)"
  "strongest_of fs m \<Longrightarrow> m i = None \<longleftrightarrow> (\<forall>f \<in> set fs. f_id f \<noteq> i)"
  by (simp_all add: strongest_of_def)

lemmas scan_facts =
  component_scan_invariant [THEN conjunct1]
  component_scan_invariant [THEN conjunct2, THEN conjunct1]

text \<open>A reported finding is a strongest positive, and every negative about its vulnerability is weaker.\<close>

lemma evaluateComponent_matched:
  assumes "iteration_order order (best (component_scan c sts m u))"
  shows "f \<in> set (matched (evaluateComponent order c sts m u)) \<Longrightarrow>
      f \<in> set (positives c m sts)
      \<and> (\<forall>g \<in> set (positives c m sts). f_id g = f_id f \<longrightarrow> finding_rank f \<le> finding_rank g)
      \<and> (\<forall>v \<in> set (negatives c sts). f_id v = f_id f \<longrightarrow> finding_rank f < finding_rank v)"
proof -
  let ?s = "component_scan c sts m u"
  assume "f \<in> set (matched (evaluateComponent order c sts m u))"
  then obtain i where i: "best ?s i = Some f" "\<And>v. vetoed ?s i = Some v \<Longrightarrow> finding_rank f < finding_rank v"
    unfolding evaluateComponent_def verdicts_matched reported_Some by blast
  note b = strongest_ofD(1) [OF scan_facts(1) i(1)]
  have "finding_rank f < finding_rank v" if v: "v \<in> set (negatives c sts)" "f_id v = f_id f" for v
  proof -
    obtain w where w: "vetoed ?s i = Some w"
      using strongest_ofD(2) [OF scan_facts(2), of c sts m u i] v b by (cases "vetoed ?s i") auto
    have "finding_rank w \<le> finding_rank v" using strongest_ofD(1) [OF scan_facts(2) w] v b by auto
    then show ?thesis using i(2) [OF w] by linarith
  qed
  then show ?thesis using b by blast
qed

text \<open>A retired finding is a strongest positive with a negative at least as strong about its vulnerability,
  whose statement it names.\<close>

lemma evaluateComponent_suppressed:
  assumes "f \<in> set (suppressed (evaluateComponent order c sts m u))"
  obtains g v where "g \<in> set (positives c m sts)" "v \<in> set (negatives c sts)" "f_id v = f_id g"
    "finding_rank v \<le> finding_rank g" "f = g\<lparr>f_RetiredBy := Some (f_Statement v)\<rparr>"
    "\<forall>h \<in> set (positives c m sts). f_id h = f_id g \<longrightarrow> finding_rank g \<le> finding_rank h"
proof -
  let ?s = "component_scan c sts m u"
  obtain i g v where i: "best ?s i = Some g" "vetoed ?s i = Some v" "finding_rank v \<le> finding_rank g"
    "f = g\<lparr>f_RetiredBy := Some (f_Statement v)\<rparr>"
    using assms unfolding evaluateComponent_def verdicts_suppressed retired_Some by blast
  have g: "g \<in> set (positives c m sts) \<and> f_id g = i
      \<and> (\<forall>h \<in> set (positives c m sts). f_id h = i \<longrightarrow> finding_rank g \<le> finding_rank h)"
    by (rule strongest_ofD(1) [OF scan_facts(1) i(1)])
  have v: "v \<in> set (negatives c sts) \<and> f_id v = i
      \<and> (\<forall>h \<in> set (negatives c sts). f_id h = i \<longrightarrow> finding_rank v \<le> finding_rank h)"
    by (rule strongest_ofD(1) [OF scan_facts(2) i(2)])
  show thesis by (rule that [of g v]) (use g v i in auto)
qed

text \<open>Nothing is lost: every vulnerability with a positive is reported or retired, and never both.\<close>

lemma named_by_key:
  assumes "\<And>i f. g i = Some f \<Longrightarrow> f_id f = i" "\<And>i f. g i = Some f \<Longrightarrow> i \<in> set order"
  shows "f_id ` set (List.map_filter g order) = {i. g i \<noteq> None}"
proof (rule set_eqI)
  fix i
  show "i \<in> f_id ` set (List.map_filter g order) \<longleftrightarrow> i \<in> {i. g i \<noteq> None}"
    using assms by (cases "g i") (force simp: image_iff map_filter_mem)+
qed

lemma evaluateComponent_named:
  assumes "iteration_order order (best (component_scan c sts m u))"
  shows "f_id ` set (matched (evaluateComponent order c sts m u)) = {i. reported (component_scan c sts m u) i \<noteq> None}"
    "f_id ` set (suppressed (evaluateComponent order c sts m u)) = {i. retired (component_scan c sts m u) i \<noteq> None}"
proof -
  let ?s = "component_scan c sts m u"
  have best_id: "best ?s i = Some f \<Longrightarrow> f_id f = i \<and> i \<in> set order" for i f
    using strongest_ofD(1) [OF scan_facts(1)] assms by (auto simp: iteration_order_def)
  have keep: "f_id (g\<lparr>f_RetiredBy := r\<rparr>) = f_id g" for g r by (simp add: f_id_def)
  show "f_id ` set (matched (evaluateComponent order c sts m u)) = {i. reported ?s i \<noteq> None}"
    unfolding evaluateComponent_def verdicts_lists
    by (rule named_by_key) (use best_id in \<open>auto simp: reported_Some\<close>)
  show "f_id ` set (suppressed (evaluateComponent order c sts m u)) = {i. retired ?s i \<noteq> None}"
    unfolding evaluateComponent_def verdicts_lists
    by (rule named_by_key) (use best_id keep in \<open>auto simp: retired_Some\<close>)
qed

lemma evaluateComponent_partition:
  assumes "iteration_order order (best (component_scan c sts m u))"
  shows "f_id ` set (matched (evaluateComponent order c sts m u)) \<union> f_id ` set (suppressed (evaluateComponent order c sts m u))
      = f_id ` set (positives c m sts)"
    "f_id ` set (matched (evaluateComponent order c sts m u)) \<inter> f_id ` set (suppressed (evaluateComponent order c sts m u)) = {}"
proof -
  let ?s = "component_scan c sts m u"
  have P: "f_id ` set (positives c m sts) = {i. best ?s i \<noteq> None}"
    using strongest_ofD(2) [OF scan_facts(1), of c sts m u] by (auto simp: image_iff)
  show "f_id ` set (matched (evaluateComponent order c sts m u)) \<union> f_id ` set (suppressed (evaluateComponent order c sts m u))
      = f_id ` set (positives c m sts)"
    unfolding evaluateComponent_named [OF assms] P using reported_or_retired(1) [of ?s] by blast
  show "f_id ` set (matched (evaluateComponent order c sts m u)) \<inter> f_id ` set (suppressed (evaluateComponent order c sts m u)) = {}"
    unfolding evaluateComponent_named [OF assms] disjoint_iff mem_Collect_eq
    using reported_or_retired(2) [of ?s] by metis
qed

text \<open>The questions are all of them, or none, but for those about a vulnerability with any negative at all.\<close>

lemma evaluateComponent_undecided:
  "undecided_list (evaluateComponent order c sts m u) =
     (if u then filter (\<lambda>f. \<forall>v \<in> set (negatives c sts). f_id v \<noteq> f_id f) (open_questions c sts) else [])"
  using component_scan_invariant [of c m sts u] strongest_ofD(2) [OF scan_facts(2), of c sts m u]
  by (simp add: evaluateComponent_def verdicts_undecided)

text \<open>Every order of iteration reports the same findings.\<close>

lemma map_filter_perm: "mset xs = mset ys \<Longrightarrow> mset (List.map_filter f xs) = mset (List.map_filter f ys)"
  by (metis List.map_filter_def mset_filter mset_map)

lemma evaluateComponent_order:
  assumes "iteration_order o1 (best (component_scan c sts m u))" "iteration_order o2 (best (component_scan c sts m u))"
  shows "mset (matched (evaluateComponent o1 c sts m u)) = mset (matched (evaluateComponent o2 c sts m u))"
    "mset (suppressed (evaluateComponent o1 c sts m u)) = mset (suppressed (evaluateComponent o2 c sts m u))"
proof -
  have "distinct o1" "distinct o2" "set o1 = set o2" using assms by (simp_all add: iteration_order_def)
  then have o: "mset o1 = mset o2" by (simp add: set_eq_iff_mset_eq_distinct)
  show "mset (matched (evaluateComponent o1 c sts m u)) = mset (matched (evaluateComponent o2 c sts m u))"
    "mset (suppressed (evaluateComponent o1 c sts m u)) = mset (suppressed (evaluateComponent o2 c sts m u))"
    unfolding evaluateComponent_def verdicts_lists by (rule map_filter_perm [OF o])+
qed

section \<open>The order of a report\<close>

text \<open>The comparator of \<open>sortFindings\<close>.\<close>

definition finding_less :: "Finding \<Rightarrow> Finding \<Rightarrow> bool" where
  "finding_less f g =
     (let a = f_Vulnerability f; b = f_Vulnerability g in
      if vs_InKEV a \<noteq> vs_InKEV b then vs_InKEV a
      else if finding_rank f \<noteq> finding_rank g then finding_rank f < finding_rank g
      else if vs_EPSSScore a \<noteq> vs_EPSSScore b then vs_EPSSScore b < vs_EPSSScore a
      else if vs_Score a \<noteq> vs_Score b then vs_Score b < vs_Score a
      else if vs_ID a \<noteq> vs_ID b then vs_ID a < vs_ID b
      else c_Name (f_Component f) < c_Name (f_Component g))"

definition sortFindings :: "Finding list \<Rightarrow> Finding list" where
  "sortFindings fs = sort_stable finding_less fs"

lemma rat_cases: "a \<noteq> b \<Longrightarrow> a < b \<or> b < (a :: rat)"
  by linarith

lemma finding_less_swo: "strict_weak_order finding_less"
proof
  fix x y z
  show "finding_less x y \<Longrightarrow> \<not> finding_less y x"
    unfolding finding_less_def Let_def by (auto split: if_splits)
  show "\<not> finding_less x y \<Longrightarrow> \<not> finding_less y z \<Longrightarrow> \<not> finding_less x z"
    unfolding finding_less_def Let_def by (auto split: if_splits)
qed

interpretation report_order: strict_weak_order finding_less
  by (rule finding_less_swo)

end
