(* ===== verification/Report.thy ===== *)
theory Report
  imports Scan
begin

text \<open>
  \<open>Scanner.Scan\<close> of \<open>internal/scan/scan.go\<close>: the inventory asked of the store, every component reduced, the
  findings decorated with the store's summaries, sorted and counted. The two store calls are parameters:
  \<open>lookup\<close> answers the candidates and the truncation of each query, or an error, and \<open>summarise\<close> the
  summaries of the identifiers it is given. \<open>ScannedAt\<close> and \<open>Notice\<close> are not modelled. Shown: what is
  reported was matched, at the floor or above, by a statement the store returned for that component; no
  match of the store's candidates is dropped silently; the counts are those of the findings.
\<close>

record CandidateQuery =
  q_PURL :: string
  q_Name :: string
  q_Vendor :: string
  q_Ecosystem :: string

record CandidateSet =
  cs_Statements :: "nat \<Rightarrow> AffectedStatement list"
  cs_Truncated :: "nat \<Rightarrow> bool"

record Options =
  o_MinConfidence :: "Confidence option"
  o_IncludeUndecidable :: bool

record Report =
  r_Components :: nat
  r_Findings :: "Finding list"
  r_Undecidable :: "Finding list"
  r_Suppressed :: "Finding list"
  r_Truncated :: "string list"
  r_Counts :: "Confidence option \<Rightarrow> nat"

definition empty_report :: "nat \<Rightarrow> Report" where
  "empty_report n = \<lparr>r_Components = n, r_Findings = [], r_Undecidable = [], r_Suppressed = [],
     r_Truncated = [], r_Counts = (\<lambda>_. 0)\<rparr>"

definition query_of :: "Component \<Rightarrow> CandidateQuery" where
  "query_of c = \<lparr>q_PURL = c_PURL c, q_Name = c_Name c, q_Vendor = c_Vendor c, q_Ecosystem = c_Ecosystem c\<rparr>"

definition componentLabel :: "Component \<Rightarrow> string" where
  "componentLabel c = (if c_Version c \<noteq> [] then c_Name c @ '' '' @ c_Version c else c_Name c)"

definition floor_of :: "Options \<Rightarrow> Confidence" where
  "floor_of opt = (case o_MinConfidence opt of None \<Rightarrow> DefaultMinConfidence | Some m \<Rightarrow> m)"

definition decorate :: "(string \<rightharpoonup> VulnSummary) \<Rightarrow> Finding \<Rightarrow> Finding" where
  "decorate summaries f =
     (case summaries (f_id f) of Some vs \<Rightarrow> f\<lparr>f_Vulnerability := vs\<rparr> | None \<Rightarrow> f)"

definition count_findings :: "Finding list \<Rightarrow> Confidence option \<Rightarrow> nat" where
  "count_findings fs = fold (\<lambda>f n. n(ev_Confidence (f_Evidence f) := n (ev_Confidence (f_Evidence f)) + 1)) fs (\<lambda>_. 0)"

definition scan_components :: "(nat \<Rightarrow> string list) \<Rightarrow> CandidateSet \<Rightarrow> Options \<Rightarrow> Component list \<Rightarrow> verdicts list" where
  "scan_components orders found opt components =
     map (\<lambda>(i, c). evaluateComponent (orders i) c (cs_Statements found i) (floor_of opt) (o_IncludeUndecidable opt))
       (enumerate 0 components)"

definition report_of :: "CandidateSet \<Rightarrow> (string \<rightharpoonup> VulnSummary) \<Rightarrow> Component list \<Rightarrow> verdicts list \<Rightarrow> Report" where
  "report_of found summaries components vs =
     (let ready = (\<lambda>fs. sortFindings (map (decorate summaries) (concat fs)));
          ms = ready (map matched vs)
      in \<lparr>r_Components = length components, r_Findings = ms,
          r_Undecidable = ready (map undecided_list vs), r_Suppressed = ready (map suppressed vs),
          r_Truncated = map (\<lambda>(i, c). componentLabel c) (filter (\<lambda>(i, c). cs_Truncated found i) (enumerate 0 components)),
          r_Counts = count_findings ms\<rparr>)"

definition wantedVulns :: "verdicts list \<Rightarrow> string list" where
  "wantedVulns vs =
     remdups (map f_id (concat (map matched vs) @ concat (map undecided_list vs) @ concat (map suppressed vs)))"

definition Scan :: "(CandidateQuery list \<Rightarrow> string + CandidateSet) \<Rightarrow> (string list \<Rightarrow> string + (string \<rightharpoonup> VulnSummary))
    \<Rightarrow> (nat \<Rightarrow> string list) \<Rightarrow> Component list \<Rightarrow> Options \<Rightarrow> string + Report" where
  "Scan lookup summarise orders components opt =
     (if components = [] then Inr (empty_report 0)
      else
        case lookup (map query_of components) of
          Inl err \<Rightarrow> Inl (''scan: candidates: '' @ err)
        | Inr found \<Rightarrow>
            (let vs = scan_components orders found opt components in
             case summarise (wantedVulns vs) of
               Inl err \<Rightarrow> Inl (''scan: summaries: '' @ err)
             | Inr summaries \<Rightarrow> Inr (report_of found summaries components vs)))"

section \<open>What a report holds\<close>

lemma decorate_simps [simp]:
  "f_Component (decorate sm f) = f_Component f" "f_Evidence (decorate sm f) = f_Evidence f"
  "f_Statement (decorate sm f) = f_Statement f" "f_RetiredBy (decorate sm f) = f_RetiredBy f"
  "finding_rank (decorate sm f) = finding_rank f"
  by (simp_all add: decorate_def finding_rank_def split: option.split)

lemma set_sortFindings [simp]: "set (sortFindings fs) = set fs"
  using report_order.sort_stable_mset [of fs] unfolding sortFindings_def by (metis set_mset_mset)

lemma set_scan_components:
  "v \<in> set (scan_components orders found opt cs) \<longleftrightarrow>
     (\<exists>i < length cs. v = evaluateComponent (orders i) (cs ! i) (cs_Statements found i) (floor_of opt) (o_IncludeUndecidable opt))"
  unfolding scan_components_def set_map by (auto simp: in_set_enumerate_eq image_iff Bex_def)

lemma Scan_result:
  assumes "Scan lookup summarise orders cs opt = Inr r" "cs \<noteq> []"
  obtains found summaries where "lookup (map query_of cs) = Inr found"
    "r = report_of found summaries cs (scan_components orders found opt cs)"
    "summarise (wantedVulns (scan_components orders found opt cs)) = Inr summaries"
  using assms by (auto simp: Scan_def Let_def split: sum.splits)

lemma positives_mem:
  assumes "f \<in> set (positives c m sts)"
  obtains st where "st \<in> set sts" "fst (Evaluate c (toAffected st)) = Match" "f = finding_of c st"
    "finding_rank f \<le> confidenceRank m"
  using assms by (auto simp: positives_def)

text \<open>Soundness: what is reported is a match of a statement the store returned for the component.\<close>

lemma Scan_sound:
  assumes "Scan lookup summarise orders cs opt = Inr r" "f \<in> set (r_Findings r)"
  shows "\<exists>found i st. lookup (map query_of cs) = Inr found \<and> i < length cs \<and> st \<in> set (cs_Statements found i)
    \<and> f_Component f = cs ! i \<and> fst (Evaluate (cs ! i) (toAffected st)) = Match
    \<and> f_Evidence f = snd (Evaluate (cs ! i) (toAffected st)) \<and> finding_rank f \<le> confidenceRank (floor_of opt)"
proof -
  have ne: "cs \<noteq> []" using assms by (auto simp: Scan_def empty_report_def)
  obtain found sm where fs: "lookup (map query_of cs) = Inr found"
    "r = report_of found sm cs (scan_components orders found opt cs)"
    using Scan_result [OF assms(1) ne] by blast
  obtain v g where v: "v \<in> set (scan_components orders found opt cs)" "g \<in> set (matched v)" "f = decorate sm g"
    using assms(2) unfolding fs(2) report_of_def Let_def by auto
  obtain i where i: "i < length cs"
    "v = evaluateComponent (orders i) (cs ! i) (cs_Statements found i) (floor_of opt) (o_IncludeUndecidable opt)"
    using v(1) unfolding set_scan_components by blast
  obtain j where "best (component_scan (cs ! i) (cs_Statements found i) (floor_of opt) (o_IncludeUndecidable opt)) j = Some g"
    using v(2) unfolding i(2) evaluateComponent_def verdicts_matched reported_Some by blast
  from strongest_ofD(1) [OF scan_facts(1) this]
  have "g \<in> set (positives (cs ! i) (floor_of opt) (cs_Statements found i))" by simp
  then obtain st where st: "st \<in> set (cs_Statements found i)" "fst (Evaluate (cs ! i) (toAffected st)) = Match"
    "g = finding_of (cs ! i) st" "finding_rank g \<le> confidenceRank (floor_of opt)"
    by (rule positives_mem)
  have "f_Component f = cs ! i" by (simp add: v(3) st(3) finding_of_def)
  then show ?thesis using fs(1) i(1) st v(3) by auto
qed

text \<open>Completeness: a match at the floor or above leaves its vulnerability among the findings or the retired.\<close>

lemma Scan_complete:
  assumes "Scan lookup summarise orders cs opt = Inr r" "lookup (map query_of cs) = Inr found"
    and "\<And>i. i < length cs \<Longrightarrow> iteration_order (orders i)
      (best (component_scan (cs ! i) (cs_Statements found i) (floor_of opt) (o_IncludeUndecidable opt)))"
    and ids: "\<And>xs sm i vs. summarise xs = Inr sm \<Longrightarrow> sm i = Some vs \<Longrightarrow> vs_ID vs = i"
    and "i < length cs" "st \<in> set (cs_Statements found i)" "fst (Evaluate (cs ! i) (toAffected st)) = Match"
    and "finding_rank (finding_of (cs ! i) st) \<le> confidenceRank (floor_of opt)"
  shows "\<exists>f \<in> set (r_Findings r) \<union> set (r_Suppressed r). f_id f = st_VulnID st"
proof -
  let ?u = "o_IncludeUndecidable opt" and ?m = "floor_of opt" and ?sts = "cs_Statements found i"
  have ne: "cs \<noteq> []" using assms(5) by auto
  obtain sm where sm: "r = report_of found sm cs (scan_components orders found opt cs)"
    "summarise (wantedVulns (scan_components orders found opt cs)) = Inr sm"
    by (rule Scan_result [OF assms(1) ne]) (use assms(2) in simp)
  have keep: "f_id (decorate sm f) = f_id f" for f
    using ids [OF sm(2)] by (auto simp: decorate_def f_id_def split: option.split)
  let ?v = "evaluateComponent (orders i) (cs ! i) ?sts ?m ?u"
  have v: "?v \<in> set (scan_components orders found opt cs)" using assms(5) unfolding set_scan_components by blast
  have "finding_of (cs ! i) st \<in> set (positives (cs ! i) ?m ?sts)"
    using assms(6-8) by (auto simp: positives_def)
  then have "f_id (finding_of (cs ! i) st) \<in> f_id ` set (positives (cs ! i) ?m ?sts)" by (rule imageI)
  then have "st_VulnID st \<in> f_id ` set (matched ?v) \<union> f_id ` set (suppressed ?v)"
    unfolding evaluateComponent_partition(1) [OF assms(3) [OF assms(5)]] by simp
  then obtain g where g: "g \<in> set (matched ?v) \<union> set (suppressed ?v)" "f_id g = st_VulnID st"
    unfolding image_Un [symmetric] by (elim imageE) simp
  have "decorate sm g \<in> set (r_Findings r) \<union> set (r_Suppressed r)"
    using g(1) v unfolding sm(1) report_of_def Let_def by auto
  moreover have "f_id (decorate sm g) = st_VulnID st" using keep [of g] g(2) by simp
  ultimately show ?thesis by blast
qed

text \<open>The counts are the counts.\<close>

lemma count_findings_eq:
  "count_findings fs c = length (filter (\<lambda>f. ev_Confidence (f_Evidence f) = c) fs)"
proof -
  have "fold (\<lambda>f n. n(ev_Confidence (f_Evidence f) := n (ev_Confidence (f_Evidence f)) + 1)) fs n c
      = n c + length (filter (\<lambda>f. ev_Confidence (f_Evidence f) = c) fs)" for n :: "Confidence option \<Rightarrow> nat"
    by (induction fs arbitrary: n) auto
  then show ?thesis by (simp add: count_findings_def)
qed

lemma Scan_counts:
  assumes "Scan lookup summarise orders cs opt = Inr r"
  shows "r_Counts r c = length (filter (\<lambda>f. ev_Confidence (f_Evidence f) = c) (r_Findings r))"
proof (cases "cs = []")
  case True
  then show ?thesis using assms by (auto simp: Scan_def empty_report_def)
next
  case False
  show ?thesis by (rule Scan_result [OF assms False]) (simp add: report_of_def Let_def count_findings_eq)
qed

lemma Scan_sorted:
  assumes "Scan lookup summarise orders cs opt = Inr r"
  shows "sorted_wrt (\<lambda>f g. \<not> finding_less g f) (r_Findings r)"
proof (cases "cs = []")
  case True
  then show ?thesis using assms by (auto simp: Scan_def empty_report_def)
next
  case False
  show ?thesis
    by (rule Scan_result [OF assms False])
      (simp add: report_of_def Let_def sortFindings_def report_order.sort_stable_in_order [unfolded report_order.in_order_def])
qed

end
