(* ===== verification/Candidates.thy ===== *)
theory Candidates
  imports Report
begin

text \<open>
  The candidate lookup of \<open>internal/store/scan.go\<close>: the keys a component is looked up by, the four lookups
  of \<open>FindAffectedCandidates\<close>, and the distribution of the rows onto the components that asked. The
  database is a parameter: \<open>db\<close> answers, for each of the four queries, the error of \<open>candidateRows\<close> or the table's rows in
  the query's \<open>ORDER BY\<close> order, out of which the SQL of the lateral join is modelled as written: for each
  key the rows whose key expression equals it, at most one more than the limit. \<open>keys\<close> lists the keys of a
  query's argument in the order Go's map iteration yields them. Shown: the SQL key expression and its Go
  counterpart agree; what is returned shares a key with the component that asked; nothing sharing a key is
  missing unless the component is reported truncated; no statement is returned twice.
\<close>

section \<open>Keys\<close>

definition cut_version :: "string \<Rightarrow> string" where
  "cut_version s =
     (case split_last CHR ''@'' s of
        Some (h, t) \<Rightarrow> if CHR ''/'' \<in> set t then s else h
      | None \<Rightarrow> s)"

definition before_first :: "char \<Rightarrow> string \<Rightarrow> string" where
  "before_first c s = (case split_first c s of Some (h, _) \<Rightarrow> h | None \<Rightarrow> s)"

definition normalisePURL :: "string \<Rightarrow> string" where
  "normalisePURL p = to_lower (cut_version (before_first CHR ''#'' (before_first CHR ''?'' p)))"

text \<open>
  The SQL of \<open>purlKeyExpr\<close>: \<open>split_part\<close> twice, then \<open>regexp_replace\<close> of the leftmost match of
  \<open>@[^/@]*$\<close>.
\<close>

fun drop_version :: "string \<Rightarrow> string" where
  "drop_version [] = []"
| "drop_version (c # s) =
     (if c = CHR ''@'' \<and> list_all (\<lambda>d. d \<noteq> CHR ''/'' \<and> d \<noteq> CHR ''@'') s then [] else c # drop_version s)"

definition split_part1 :: "char \<Rightarrow> string \<Rightarrow> string" where
  "split_part1 c s = hd (split c s)"

definition purlKeyExpr :: "string \<Rightarrow> string" where
  "purlKeyExpr p = to_lower (drop_version (split_part1 CHR ''#'' (split_part1 CHR ''?'' p)))"

datatype lookup_key = ByPURL string | ByEcosystem string string | ByVendor string string | ByName string

datatype lookup_kind = PURLKind | EcosystemKind | VendorKind | NameKind

fun kind_of :: "lookup_key \<Rightarrow> lookup_kind" where
  "kind_of (ByPURL _) = PURLKind"
| "kind_of (ByEcosystem _ _) = EcosystemKind"
| "kind_of (ByVendor _ _) = VendorKind"
| "kind_of (ByName _) = NameKind"

text \<open>The keys one query is entered under, in the order of the loop over the queries.\<close>

definition query_keys :: "CandidateQuery \<Rightarrow> lookup_key list" where
  "query_keys q =
     (let p = trim_space (q_PURL q); name = fold_key (q_Name q);
          eco = fold_key (q_Ecosystem q); vendor = fold_key (q_Vendor q)
      in (if p \<noteq> [] then [ByPURL (normalisePURL p)] else [])
         @ (if name = [] then []
            else (if eco \<noteq> [] then [ByEcosystem eco name] else [])
              @ (if vendor \<noteq> [] then [ByVendor vendor name] else []) @ [ByName name]))"

text \<open>The \<open>WHERE\<close> clauses: a NULL purl is stored as the empty string and never selected.\<close>

fun row_has_key :: "AffectedStatement \<Rightarrow> lookup_key \<Rightarrow> bool" where
  "row_has_key st (ByPURL k) = (st_PURL st \<noteq> [] \<and> purlKeyExpr (st_PURL st) = k)"
| "row_has_key st (ByEcosystem e n) = (to_lower (st_Ecosystem st) = e \<and> to_lower (st_Product st) = n)"
| "row_has_key st (ByVendor v n) = (to_lower (st_Vendor st) = v \<and> to_lower (st_Product st) = n)"
| "row_has_key st (ByName n) = (to_lower (st_Product st) = n)"

definition askers :: "CandidateQuery list \<Rightarrow> lookup_key \<Rightarrow> nat list" where
  "askers qs k = map fst (filter (\<lambda>(i, q). k \<in> set (query_keys q)) (enumerate 0 qs))"

section \<open>The lookup\<close>

definition maxCandidatesPerQuery :: nat where
  "maxCandidatesPerQuery = 2000"

record lookup_state =
  l_seen :: "lookup_key \<Rightarrow> nat"
  l_Statements :: "nat \<Rightarrow> AffectedStatement list"
  l_Truncated :: "nat \<Rightarrow> bool"

definition lookup_start :: lookup_state where
  "lookup_start = \<lparr>l_seen = (\<lambda>_. 0), l_Statements = (\<lambda>_. []), l_Truncated = (\<lambda>_. False)\<rparr>"

text \<open>The closure \<open>add\<close>, with the limit as an argument.\<close>

definition add_row :: "nat \<Rightarrow> lookup_key \<Rightarrow> nat list \<Rightarrow> AffectedStatement \<Rightarrow> lookup_state \<Rightarrow> lookup_state" where
  "add_row limit key idx st s =
     (let s1 = s\<lparr>l_seen := (l_seen s)(key := l_seen s key + 1)\<rparr> in
      if l_seen s1 key > limit
      then s1\<lparr>l_Truncated := fold (\<lambda>i t. t(i := True)) idx (l_Truncated s1)\<rparr>
      else s1\<lparr>l_Statements := fold (\<lambda>i f. f(i := f i @ [st])) idx (l_Statements s1)\<rparr>)"

text \<open>The rows of one key: \<open>LIMIT\<close> is the limit plus one.\<close>

definition key_rows :: "nat \<Rightarrow> AffectedStatement list \<Rightarrow> lookup_key \<Rightarrow> AffectedStatement list" where
  "key_rows limit table k = take (limit + 1) (filter (\<lambda>st. row_has_key st k) table)"

definition key_step :: "nat \<Rightarrow> AffectedStatement list \<Rightarrow> CandidateQuery list \<Rightarrow> lookup_key \<Rightarrow> lookup_state \<Rightarrow> lookup_state" where
  "key_step limit table qs k s = fold (add_row limit k (askers qs k)) (key_rows limit table k) s"

definition kind_step :: "nat \<Rightarrow> (lookup_kind \<Rightarrow> string + AffectedStatement list) \<Rightarrow> CandidateQuery list
    \<Rightarrow> lookup_key list \<Rightarrow> lookup_kind \<Rightarrow> string + lookup_state \<Rightarrow> string + lookup_state" where
  "kind_step limit db qs keys kind r =
     (let ks = filter (\<lambda>k. kind_of k = kind) keys in
      if ks = [] then r
      else and_then r (\<lambda>s. case db kind of
             Inl e \<Rightarrow> Inl e
           | Inr table \<Rightarrow> Inr (fold (key_step limit table qs) ks s)))"

definition statement_key :: "AffectedStatement \<Rightarrow> string" where
  "statement_key st = st_VulnID st @ CHR 0x00 # st_Fingerprint st"

definition same_statement :: "AffectedStatement \<Rightarrow> AffectedStatement \<Rightarrow> bool" where
  "same_statement a b \<longleftrightarrow> statement_key a = statement_key b"

fun dedupe_onto :: "AffectedStatement list \<Rightarrow> AffectedStatement list \<Rightarrow> AffectedStatement list" where
  "dedupe_onto out [] = out"
| "dedupe_onto out (st # sts) = dedupe_onto (if list_ex (same_statement st) out then out else out @ [st]) sts"

definition dedupeStatements :: "AffectedStatement list \<Rightarrow> AffectedStatement list" where
  "dedupeStatements sts = (if length sts < 2 then sts else dedupe_onto [] sts)"

definition FindAffectedCandidates :: "nat \<Rightarrow> (lookup_kind \<Rightarrow> string + AffectedStatement list) \<Rightarrow> lookup_key list
    \<Rightarrow> CandidateQuery list \<Rightarrow> string + CandidateSet" where
  "FindAffectedCandidates limit db keys qs =
     (if qs = [] then Inr \<lparr>cs_Statements = (\<lambda>_. []), cs_Truncated = (\<lambda>_. False)\<rparr>
      else map_sum id (\<lambda>s. \<lparr>cs_Statements = dedupeStatements \<circ> l_Statements s, cs_Truncated = l_Truncated s\<rparr>)
        (fold (kind_step limit db qs keys) [PURLKind, EcosystemKind, VendorKind, NameKind] (Inr lookup_start)))"

text \<open>The keys of a request, each once, in any order.\<close>

definition keys_of :: "CandidateQuery list \<Rightarrow> lookup_key list \<Rightarrow> bool" where
  "keys_of qs keys \<longleftrightarrow> distinct keys \<and> set keys = (\<Union>q \<in> set qs. set (query_keys q))"

section \<open>The two key functions agree\<close>

lemma drop_version_plain: "CHR ''@'' \<notin> set t \<Longrightarrow> drop_version t = t"
  by (induction t) (simp_all, blast)

lemma no_slash:
  "CHR ''@'' \<notin> set t \<Longrightarrow> list_all (\<lambda>d. d \<noteq> CHR ''/'' \<and> d \<noteq> CHR ''@'') t \<longleftrightarrow> CHR ''/'' \<notin> set t"
  by (induction t) (simp_all, blast)

lemma drop_version_append:
  assumes "CHR ''@'' \<notin> set t"
  shows "drop_version (h @ CHR ''@'' # t) = (if CHR ''/'' \<in> set t then h @ CHR ''@'' # t else h)"
  by (induction h) (simp_all add: no_slash [OF assms] drop_version_plain [OF assms])

lemma cut_version_drop: "cut_version s = drop_version s"
proof (cases "split_last CHR ''@'' s")
  case None
  then show ?thesis by (simp add: cut_version_def drop_version_plain split_last_None)
next
  case (Some p)
  then obtain h t where p: "split_last CHR ''@'' s = Some (h, t)" by (cases p) auto
  then have "s = h @ CHR ''@'' # t" "CHR ''@'' \<notin> set t" using split_last_Some [of "CHR ''@''" s h t] by auto
  then show ?thesis using p drop_version_append by (simp add: cut_version_def)
qed

lemma split_part1_before: "split_part1 c s = before_first c s"
proof (cases "split_first c s")
  case None
  then have "c \<notin> set s" by (simp add: split_first_None)
  then show ?thesis using None by (simp add: split_part1_def before_first_def split_no_sep)
next
  case (Some p)
  then obtain h t where p: "split_first c s = Some (h, t)" by (cases p) auto
  then have "s = h @ c # t" "c \<notin> set h" using split_first_Some [of c s h t] by auto
  then show ?thesis using p by (simp add: split_part1_def before_first_def split_append_sep)
qed

lemma purl_keys_agree: "normalisePURL p = purlKeyExpr p"
  by (simp add: normalisePURL_def purlKeyExpr_def cut_version_drop split_part1_before)

section \<open>What one key contributes\<close>

lemma askers_props: "distinct (askers qs k)" "i \<in> set (askers qs k) \<longleftrightarrow> i < length qs \<and> k \<in> set (query_keys (qs ! i))"
proof -
  have "distinct (map fst (enumerate 0 qs))" by simp
  then show "distinct (askers qs k)" unfolding askers_def by (rule distinct_map_filter)
  show "i \<in> set (askers qs k) \<longleftrightarrow> i < length qs \<and> k \<in> set (query_keys (qs ! i))"
    by (auto simp: askers_def in_set_enumerate_eq image_iff)
qed

lemma fold_append_at:
  "distinct idx \<Longrightarrow> fold (\<lambda>i f. f(i := f i @ [st])) idx f = (\<lambda>i. if i \<in> set idx then f i @ [st] else f i)"
  by (induction idx arbitrary: f) (auto simp: fun_eq_iff)

lemma fold_set_at: "fold (\<lambda>i t. t(i := True)) idx t = (\<lambda>i. i \<in> set idx \<or> t i)"
  by (induction idx arbitrary: t) (auto simp: fun_eq_iff)

lemma add_row_eq:
  assumes "distinct idx"
  shows "add_row limit k idx st s =
    (if limit \<le> l_seen s k
     then s\<lparr>l_seen := (l_seen s)(k := Suc (l_seen s k)), l_Truncated := (\<lambda>i. i \<in> set idx \<or> l_Truncated s i)\<rparr>
     else s\<lparr>l_seen := (l_seen s)(k := Suc (l_seen s k)),
            l_Statements := (\<lambda>i. if i \<in> set idx then l_Statements s i @ [st] else l_Statements s i)\<rparr>)"
  by (simp add: add_row_def fold_append_at [OF assms] fold_set_at Let_def)

lemma fold_add_row:
  assumes "distinct idx"
  shows "l_Statements (fold (add_row limit k idx) rows s) =
      (\<lambda>i. if i \<in> set idx then l_Statements s i @ take (limit - l_seen s k) rows else l_Statements s i)"
    "l_Truncated (fold (add_row limit k idx) rows s) =
      (\<lambda>i. l_Truncated s i \<or> (i \<in> set idx \<and> limit < l_seen s k + length rows \<and> rows \<noteq> []))"
    "l_seen (fold (add_row limit k idx) rows s) = (l_seen s)(k := l_seen s k + length rows)"
proof -
  have "l_Statements (fold (add_row limit k idx) rows s) =
      (\<lambda>i. if i \<in> set idx then l_Statements s i @ take (limit - l_seen s k) rows else l_Statements s i)
    \<and> l_Truncated (fold (add_row limit k idx) rows s) =
      (\<lambda>i. l_Truncated s i \<or> (i \<in> set idx \<and> limit < l_seen s k + length rows \<and> rows \<noteq> []))
    \<and> l_seen (fold (add_row limit k idx) rows s) = (l_seen s)(k := l_seen s k + length rows)"
  proof (induction rows arbitrary: s)
    case Nil
    then show ?case by (simp add: fun_eq_iff)
  next
    case (Cons r rows)
    show ?case
    proof (cases "limit \<le> l_seen s k")
      case True
      then show ?thesis
        using Cons.IH by (auto simp: add_row_eq [OF assms] fun_eq_iff)
    next
      case False
      then have "limit - l_seen s k = Suc (limit - Suc (l_seen s k))" by simp
      then show ?thesis
        using False Cons.IH by (auto simp: add_row_eq [OF assms] fun_eq_iff)
    qed
  qed
  then show "l_Statements (fold (add_row limit k idx) rows s) =
      (\<lambda>i. if i \<in> set idx then l_Statements s i @ take (limit - l_seen s k) rows else l_Statements s i)"
    "l_Truncated (fold (add_row limit k idx) rows s) =
      (\<lambda>i. l_Truncated s i \<or> (i \<in> set idx \<and> limit < l_seen s k + length rows \<and> rows \<noteq> []))"
    "l_seen (fold (add_row limit k idx) rows s) = (l_seen s)(k := l_seen s k + length rows)"
    by blast+
qed

definition matching :: "AffectedStatement list \<Rightarrow> lookup_key \<Rightarrow> AffectedStatement list" where
  "matching table k = filter (\<lambda>st. row_has_key st k) table"

lemma key_step_eq:
  assumes "l_seen s k = 0"
  shows "set (l_Statements (key_step limit table qs k s) i) =
      set (l_Statements s i) \<union> (if i \<in> set (askers qs k) then set (take limit (matching table k)) else {})"
    "l_Truncated (key_step limit table qs k s) i \<longleftrightarrow>
      l_Truncated s i \<or> (i \<in> set (askers qs k) \<and> limit < length (matching table k))"
    "l_seen (key_step limit table qs k s) = (l_seen s)(k := length (key_rows limit table k))"
proof -
  have t: "take limit (key_rows limit table k) = take limit (matching table k)"
    by (simp add: key_rows_def matching_def min_def)
  have l: "limit < length (key_rows limit table k) \<longleftrightarrow> limit < length (matching table k)"
    by (auto simp: key_rows_def matching_def)
  have n: "limit < length (key_rows limit table k) \<Longrightarrow> key_rows limit table k \<noteq> []" by auto
  show "set (l_Statements (key_step limit table qs k s) i) =
      set (l_Statements s i) \<union> (if i \<in> set (askers qs k) then set (take limit (matching table k)) else {})"
    using assms t by (simp add: key_step_def fold_add_row(1) [OF askers_props(1)])
  show "l_Truncated (key_step limit table qs k s) i \<longleftrightarrow>
      l_Truncated s i \<or> (i \<in> set (askers qs k) \<and> limit < length (matching table k))"
    using assms l n by (auto simp: key_step_def fold_add_row(2) [OF askers_props(1)])
  show "l_seen (key_step limit table qs k s) = (l_seen s)(k := length (key_rows limit table k))"
    using assms by (simp add: key_step_def fold_add_row(3) [OF askers_props(1)])
qed

text \<open>All keys of a request.\<close>

lemma fold_key_step:
  assumes "distinct ks" "\<And>k. k \<in> set ks \<Longrightarrow> l_seen s k = 0"
  shows "set (l_Statements (fold (key_step limit table qs) ks s) i) =
      set (l_Statements s i) \<union> (\<Union>k \<in> {k \<in> set ks. i \<in> set (askers qs k)}. set (take limit (matching table k)))
    \<and> (l_Truncated (fold (key_step limit table qs) ks s) i \<longleftrightarrow>
      l_Truncated s i \<or> (\<exists>k \<in> set ks. i \<in> set (askers qs k) \<and> limit < length (matching table k)))
    \<and> (\<forall>k. k \<notin> set ks \<longrightarrow> l_seen (fold (key_step limit table qs) ks s) k = l_seen s k)"
  using assms
proof (induction ks arbitrary: s)
  case (Cons k ks)
  let ?s = "key_step limit table qs k s"
  have s0: "l_seen s k = 0" using Cons.prems(2) by simp
  note step = key_step_eq [OF s0, of limit table qs]
  have "\<And>j. j \<in> set ks \<Longrightarrow> l_seen ?s j = 0" using Cons.prems by (auto simp: step(3))
  moreover have "distinct ks" using Cons.prems(1) by simp
  ultimately have ih: "set (l_Statements (fold (key_step limit table qs) ks ?s) i) =
      set (l_Statements ?s i) \<union> (\<Union>k \<in> {k \<in> set ks. i \<in> set (askers qs k)}. set (take limit (matching table k)))
    \<and> (l_Truncated (fold (key_step limit table qs) ks ?s) i \<longleftrightarrow>
      l_Truncated ?s i \<or> (\<exists>k \<in> set ks. i \<in> set (askers qs k) \<and> limit < length (matching table k)))
    \<and> (\<forall>k. k \<notin> set ks \<longrightarrow> l_seen (fold (key_step limit table qs) ks ?s) k = l_seen ?s k)"
    by (intro Cons.IH)
  then show ?case by (auto simp: step)
qed simp

section \<open>The whole lookup\<close>

definition kinds :: "lookup_kind list" where
  "kinds = [PURLKind, EcosystemKind, VendorKind, NameKind]"

lemma kind_step_one:
  "kind_step limit (\<lambda>_. Inr table) qs keys kind (Inr s) =
     Inr (fold (key_step limit table qs) (filter (\<lambda>k. kind_of k = kind) keys) s)"
  by (simp add: kind_step_def Let_def)

lemma kind_step_all:
  "fold (kind_step limit (\<lambda>_. Inr table) qs keys) ks (Inr s) =
     Inr (fold (key_step limit table qs) (concat (map (\<lambda>kind. filter (\<lambda>k. kind_of k = kind) keys) ks)) s)"
  by (induction ks arbitrary: s) (simp_all add: kind_step_one)

definition by_kind :: "lookup_key list \<Rightarrow> lookup_key list" where
  "by_kind keys = concat (map (\<lambda>kind. filter (\<lambda>k. kind_of k = kind) keys) kinds)"

lemma kinds_all: "kind \<in> set kinds"
  by (cases kind) (simp_all add: kinds_def)

lemma by_kind_props: "set (by_kind keys) = set keys" "distinct keys \<Longrightarrow> distinct (by_kind keys)"
proof -
  show "set (by_kind keys) = set keys" using kinds_all by (auto simp: by_kind_def)
  show "distinct keys \<Longrightarrow> distinct (by_kind keys)"
    by (auto simp: by_kind_def kinds_def)
qed

lemma same_statement_equiv:
  "same_statement a a" "same_statement a b \<Longrightarrow> same_statement b a"
  by (simp_all add: same_statement_def)

lemma dedupe_onto_mono: "set out \<subseteq> set (dedupe_onto out sts)"
proof (induction sts arbitrary: out)
  case (Cons st sts)
  show ?case
    using Cons.IH [of out] Cons.IH [of "out @ [st]"]
    by (cases "list_ex (same_statement st) out") auto
qed simp

lemma dedupe_onto_subset: "set (dedupe_onto out sts) \<subseteq> set out \<union> set sts"
proof (induction sts arbitrary: out)
  case (Cons st sts)
  show ?case
    using Cons.IH [of out] Cons.IH [of "out @ [st]"]
    by (cases "list_ex (same_statement st) out") auto
qed simp

lemma dedupe_onto_covers: "st \<in> set sts \<Longrightarrow> \<exists>st' \<in> set (dedupe_onto out sts). same_statement st st'"
proof (induction sts arbitrary: out)
  case (Cons s sts)
  show ?case
  proof (cases "st = s")
    case False
    then show ?thesis using Cons by simp
  next
    case True
    let ?out = "if list_ex (same_statement s) out then out else out @ [s]"
    have "\<exists>st' \<in> set ?out. same_statement st st'"
      using True same_statement_equiv(1) by (auto simp: list_ex_iff)
    then obtain st' where "st' \<in> set ?out" "same_statement st st'" by blast
    moreover have "st' \<in> set (dedupe_onto ?out sts)" using dedupe_onto_mono calculation(1) by blast
    ultimately show ?thesis by auto
  qed
qed simp

lemma dedupe_onto_keys:
  "distinct (map statement_key out) \<Longrightarrow> distinct (map statement_key (dedupe_onto out sts))"
proof (induction sts arbitrary: out)
  case (Cons st sts)
  have "distinct (map statement_key (if list_ex (same_statement st) out then out else out @ [st]))"
    using Cons.prems by (auto simp: list_ex_iff same_statement_def image_iff)
  from Cons.IH [OF this] show ?case by simp
qed simp

lemma short_list:
  assumes "length sts < 2"
  obtains "sts = []" | st where "sts = [st]"
  using assms by (cases sts) (auto simp: length_Suc_conv less_2_cases_iff)

lemma dedupe_props:
  "set (dedupeStatements sts) \<subseteq> set sts"
  "st \<in> set sts \<Longrightarrow> \<exists>st' \<in> set (dedupeStatements sts). same_statement st st'"
  "distinct (map statement_key (dedupeStatements sts))"
proof -
  show "set (dedupeStatements sts) \<subseteq> set sts"
    using dedupe_onto_subset [of "[]" sts] by (simp add: dedupeStatements_def)
  show "st \<in> set sts \<Longrightarrow> \<exists>st' \<in> set (dedupeStatements sts). same_statement st st'"
    using dedupe_onto_covers [of st sts "[]"] same_statement_equiv(1) by (auto simp: dedupeStatements_def)
  show "distinct (map statement_key (dedupeStatements sts))"
    using dedupe_onto_keys [of "[]" sts] by (cases "length sts < 2") (auto simp: dedupeStatements_def elim!: short_list)
qed

text \<open>The raw rows of the i-th component before the statements are deduplicated.\<close>

definition raw_rows :: "nat \<Rightarrow> AffectedStatement list \<Rightarrow> lookup_key list \<Rightarrow> CandidateQuery list \<Rightarrow> nat \<Rightarrow> AffectedStatement set" where
  "raw_rows limit table keys qs i =
     (\<Union>k \<in> {k \<in> set keys. i \<in> set (askers qs k)}. set (take limit (matching table k)))"

lemma Find_result:
  assumes "keys_of qs keys" "FindAffectedCandidates limit (\<lambda>_. Inr table) keys qs = Inr found"
  shows "(\<exists>raw. cs_Statements found i = dedupeStatements raw \<and> set raw = raw_rows limit table keys qs i)
    \<and> (cs_Truncated found i \<longleftrightarrow> (\<exists>k \<in> set keys. i \<in> set (askers qs k) \<and> limit < length (matching table k)))"
proof (cases "qs = []")
  case True
  then have k: "keys = []" using assms(1) by (simp add: keys_of_def)
  have f: "found = \<lparr>cs_Statements = (\<lambda>_. []), cs_Truncated = (\<lambda>_. False)\<rparr>"
    using assms(2) True by (simp add: FindAffectedCandidates_def)
  show ?thesis
    by (intro conjI exI [of _ "[]"]) (simp_all add: f k dedupeStatements_def raw_rows_def)
next
  case False
  let ?s = "fold (key_step limit table qs) (by_kind keys) lookup_start"
  have r: "fold (kind_step limit (\<lambda>_. Inr table) qs keys) [PURLKind, EcosystemKind, VendorKind, NameKind] (Inr lookup_start)
      = Inr ?s"
    unfolding kinds_def [symmetric] by_kind_def by (rule kind_step_all)
  have f: "found = \<lparr>cs_Statements = dedupeStatements \<circ> l_Statements ?s, cs_Truncated = l_Truncated ?s\<rparr>"
    using assms(2) False unfolding FindAffectedCandidates_def r by simp
  have d: "distinct (by_kind keys)" using assms(1) by_kind_props(2) by (simp add: keys_of_def)
  have "\<And>k. l_seen lookup_start k = 0" by (simp add: lookup_start_def)
  then have a: "set (l_Statements ?s i) = set (l_Statements lookup_start i) \<union> raw_rows limit table (by_kind keys) qs i"
    "l_Truncated ?s i \<longleftrightarrow> l_Truncated lookup_start i \<or>
       (\<exists>k \<in> set (by_kind keys). i \<in> set (askers qs k) \<and> limit < length (matching table k))"
    using fold_key_step [OF d, of lookup_start limit table qs i] unfolding raw_rows_def by blast+
  have "set (l_Statements ?s i) = raw_rows limit table keys qs i"
    using a(1) by (simp add: lookup_start_def raw_rows_def by_kind_props(1))
  moreover have "cs_Statements found i = dedupeStatements (l_Statements ?s i)" by (simp add: f)
  moreover have "cs_Truncated found i \<longleftrightarrow> (\<exists>k \<in> set keys. i \<in> set (askers qs k) \<and> limit < length (matching table k))"
    using a(2) by (simp add: f lookup_start_def by_kind_props(1))
  ultimately show ?thesis by blast
qed

definition shares_key :: "CandidateQuery \<Rightarrow> AffectedStatement \<Rightarrow> bool" where
  "shares_key q st \<longleftrightarrow> list_ex (row_has_key st) (query_keys q)"

text \<open>What is returned for a component is a row of the table that shares a key with it.\<close>

lemma Find_sound:
  assumes "keys_of qs keys" "FindAffectedCandidates limit (\<lambda>_. Inr table) keys qs = Inr found"
    and "st \<in> set (cs_Statements found i)"
  shows "st \<in> set table \<and> i < length qs \<and> shares_key (qs ! i) st"
proof -
  obtain raw where raw: "cs_Statements found i = dedupeStatements raw"
    "set raw = raw_rows limit table keys qs i"
    using Find_result [OF assms(1,2)] by blast
  have "st \<in> set raw" using assms(3) raw(1) dedupe_props(1) by auto
  then obtain k where k: "i \<in> set (askers qs k)" "st \<in> set (take limit (matching table k))"
    unfolding raw(2) raw_rows_def by blast
  then have "st \<in> set table" "row_has_key st k" by (auto simp: matching_def dest: in_set_takeD)
  moreover have "i < length qs" "k \<in> set (query_keys (qs ! i))" using k(1) by (simp_all add: askers_props)
  ultimately show ?thesis unfolding shares_key_def list_ex_iff by blast
qed

text \<open>A component that is not reported truncated misses no row that shares a key with it.\<close>

lemma Find_complete:
  assumes "keys_of qs keys" "FindAffectedCandidates limit (\<lambda>_. Inr table) keys qs = Inr found"
    and "i < length qs" "\<not> cs_Truncated found i" "st \<in> set table" "shares_key (qs ! i) st"
  shows "\<exists>st' \<in> set (cs_Statements found i). same_statement st st'"
proof -
  obtain raw where raw: "cs_Statements found i = dedupeStatements raw"
    "set raw = raw_rows limit table keys qs i"
    "cs_Truncated found i \<longleftrightarrow> (\<exists>k \<in> set keys. i \<in> set (askers qs k) \<and> limit < length (matching table k))"
    using Find_result [OF assms(1,2), of i] by blast
  obtain k where k: "k \<in> set (query_keys (qs ! i))" "row_has_key st k"
    using assms(6) unfolding shares_key_def list_ex_iff by blast
  have a: "i \<in> set (askers qs k)" using k(1) assms(3) by (simp add: askers_props)
  have ks: "k \<in> set keys" using assms(1,3) k(1) unfolding keys_of_def by (metis UN_I nth_mem)
  have "\<not> limit < length (matching table k)" using raw(3) assms(4) a ks by blast
  then have "take limit (matching table k) = matching table k" by simp
  moreover have "st \<in> set (matching table k)" using assms(5) k(2) by (simp add: matching_def)
  ultimately have "st \<in> set raw" unfolding raw(2) raw_rows_def using a ks by auto
  then show ?thesis using raw(1) dedupe_props(2) by simp
qed

lemma Find_truncated:
  assumes "keys_of qs keys" "FindAffectedCandidates limit (\<lambda>_. Inr table) keys qs = Inr found"
  shows "cs_Truncated found i \<longleftrightarrow>
    i < length qs \<and> list_ex (\<lambda>k. limit < length (matching table k)) (query_keys (qs ! i))"
proof -
  have t: "cs_Truncated found i \<longleftrightarrow> (\<exists>k \<in> set keys. i \<in> set (askers qs k) \<and> limit < length (matching table k))"
    using Find_result [OF assms, of i] by blast
  have "k \<in> set keys" if "i < length qs" "k \<in> set (query_keys (qs ! i))" for k
    using assms(1) that unfolding keys_of_def by (metis UN_I nth_mem)
  then show ?thesis unfolding t askers_props(2) list_ex_iff by blast
qed


text \<open>A query that fails fails the whole lookup: no partial answer is returned.\<close>

lemma kind_step_Inl: "kind_step limit db qs keys kind (Inl e) = Inl e"
  by (simp add: kind_step_def Let_def)

lemma fold_kind_step_Inl: "fold (kind_step limit db qs keys) ks (Inl e) = Inl e"
  by (induction ks) (simp_all add: kind_step_Inl)

lemma fold_kind_step_fails:
  assumes "kind \<in> set ks" "list_ex (\<lambda>k. kind_of k = kind) keys" "db kind = Inl e"
  shows "isl (fold (kind_step limit db qs keys) ks r)"
  using assms(1)
proof (induction ks arbitrary: r)
  case (Cons k ks)
  show ?case
  proof (cases "k = kind")
    case False
    then show ?thesis using Cons by simp
  next
    case True
    then have "filter (\<lambda>j. kind_of j = k) keys \<noteq> []" using assms(2) by (auto simp: list_ex_iff filter_empty_conv)
    then have "isl (kind_step limit db qs keys k r)"
      using assms(3) True by (cases r) (simp_all add: kind_step_def Let_def)
    then show ?thesis by (cases "kind_step limit db qs keys k r") (simp_all add: fold_kind_step_Inl)
  qed
qed simp

lemma Find_error:
  assumes "qs \<noteq> []" "list_ex (\<lambda>k. kind_of k = kind) keys" "db kind = Inl e"
  shows "isl (FindAffectedCandidates limit db keys qs)"
proof -
  have "isl (fold (kind_step limit db qs keys) kinds (Inr lookup_start))"
    by (rule fold_kind_step_fails [where ?kind = kind, OF kinds_all]) (use assms in simp_all)
  then show ?thesis using assms(1)
    by (auto simp: FindAffectedCandidates_def kinds_def [symmetric] isl_def)
qed

section \<open>The scan over the store\<close>

definition store_lookup :: "nat \<Rightarrow> AffectedStatement list \<Rightarrow> (CandidateQuery list \<Rightarrow> lookup_key list)
    \<Rightarrow> CandidateQuery list \<Rightarrow> string + CandidateSet" where
  "store_lookup limit table keys qs = FindAffectedCandidates limit (\<lambda>_. Inr table) (keys qs) qs"

lemma Find_defined: "\<exists>found. FindAffectedCandidates limit (\<lambda>_. Inr table) keys qs = Inr found"
  using kind_step_all [of limit table qs keys kinds lookup_start]
  by (simp add: FindAffectedCandidates_def kinds_def)

lemma Scan_recall:
  assumes keys: "\<And>qs. keys_of qs (keys qs)"
    and scan: "Scan (store_lookup limit table keys) summarise orders cs opt = Inr r"
    and orders: "\<And>found i. store_lookup limit table keys (map query_of cs) = Inr found \<Longrightarrow> i < length cs \<Longrightarrow>
      iteration_order (orders i)
        (best (component_scan (cs ! i) (cs_Statements found i) (floor_of opt) (o_IncludeUndecidable opt)))"
    and ids: "\<And>xs sm i vs. summarise xs = Inr sm \<Longrightarrow> sm i = Some vs \<Longrightarrow> vs_ID vs = i"
    and unique: "inj_on statement_key (set table)"
    and st: "i < length cs" "st \<in> set table" "shares_key (query_of (cs ! i)) st"
      "componentLabel (cs ! i) \<notin> set (r_Truncated r)"
      "fst (Evaluate (cs ! i) (toAffected st)) = Match"
      "finding_rank (finding_of (cs ! i) st) \<le> confidenceRank (floor_of opt)"
  shows "\<exists>f \<in> set (r_Findings r) \<union> set (r_Suppressed r). f_id f = st_VulnID st"
proof -
  have ne: "cs \<noteq> []" using st(1) by auto
  obtain found sm where f: "store_lookup limit table keys (map query_of cs) = Inr found"
    "r = report_of found sm cs (scan_components orders found opt cs)"
    using Scan_result [OF scan ne] by blast
  have "\<not> cs_Truncated found i"
    using st(1,4) unfolding f(2) report_of_def Let_def by (auto simp: in_set_enumerate_eq image_iff)
  moreover have "shares_key (map query_of cs ! i) st" using st(1,3) by simp
  ultimately obtain st' where st': "st' \<in> set (cs_Statements found i)" "same_statement st st'"
    using Find_complete [OF keys f(1) [unfolded store_lookup_def], of i st] st(1,2) by auto
  have "st' \<in> set table" using Find_sound [OF keys f(1) [unfolded store_lookup_def] st'(1)] by blast
  then have "st' = st" using st'(2) unique st(2) unfolding same_statement_def by (auto dest: inj_onD)
  then have m: "st \<in> set (cs_Statements found i)" using st'(1) by simp
  show ?thesis
    by (rule Scan_complete [OF scan f(1) orders [OF f(1)] _ st(1) m st(5,6)]) (assumption | erule ids)+
qed

end
