(* ===== verification/Examples.thy ===== *)
theory Examples
  imports Candidates
begin

text \<open>
  Concrete inputs and what the model answers on them: one Debian package, its advisories, and the scan
  of an inventory that holds it. The results of the root theory are applied to them.
\<close>

definition openssl :: Component where
  "openssl = \<lparr>c_Name = ''openssl'', c_Version = ''3.0.11-1'', c_Vendor = [], c_Ecosystem = ''Debian:12'',
     c_PURL = [], c_CPE = [], c_Origin = []\<rparr>"

definition window :: "string \<Rightarrow> string \<Rightarrow> string \<Rightarrow> VersionRange" where
  "window introduced fix rangeType = \<lparr>Introduced = introduced, Fixed = fix, LastAffected = [],
     RangeType = rangeType, RangeCPE = [], Limit = [], Repo = []\<rparr>"

definition advisory :: "string \<Rightarrow> string \<Rightarrow> string \<Rightarrow> AffectedStatement" where
  "advisory vid status fix = \<lparr>st_VulnID = vid, st_Vendor = [], st_Product = ''openssl'',
     st_Ecosystem = ''Debian:12'', st_PURL = [], st_CPEs = [], st_Versions = [],
     st_Ranges = [window ''0'' fix ''ECOSYSTEM''], st_DefaultState = [], st_Status = status, st_Source = ''osv'',
     st_Fingerprint = vid @ ''/openssl''\<rparr>"

definition affected_row :: AffectedStatement where
  "affected_row = advisory ''CVE-2024-1'' [] ''3.0.13-1''"

definition candidates :: "nat \<Rightarrow> AffectedStatement list" where
  "candidates i = (if i = 0 then [affected_row] else [])"

definition answered :: "CandidateQuery list \<Rightarrow> string + CandidateSet" where
  "answered qs = Inr \<lparr>cs_Statements = candidates, cs_Truncated = (\<lambda>_. False)\<rparr>"

definition no_summaries :: "string list \<Rightarrow> string + (string \<rightharpoonup> VulnSummary)" where
  "no_summaries ids = Inr Map.empty"

definition defaults :: Options where
  "defaults = \<lparr>o_MinConfidence = None, o_IncludeUndecidable = False\<rparr>"

definition one_order :: "nat \<Rightarrow> string list" where
  "one_order i = [''CVE-2024-1'']"

lemma openssl_matches:
  "Evaluate openssl (toAffected affected_row) =
     (Match, \<lparr>ev_MatchedOn = ''ecosystem_name'', ev_Confidence = Some Confirmed, ev_Scheme = Some Debian,
        ev_tag = [], ev_caps = [], ev_demotions = [], ev_notes = []\<rparr>)"
  by code_simp

definition the_finding :: Finding where
  "the_finding = finding_of openssl affected_row"

lemma affected_row_id [simp]: "st_VulnID affected_row = ''CVE-2024-1''"
  by (simp add: affected_row_def advisory_def)

lemma openssl_scan:
  "component_scan openssl [affected_row] Probable u =
     component_start\<lparr>best := [''CVE-2024-1'' \<mapsto> the_finding]\<rparr>"
  by (simp add: component_scan_def component_step_def openssl_matches component_start_def keep_stronger_def
      the_finding_def finding_rank_def confidenceRank_def)

lemma openssl_verdicts:
  "evaluateComponent [''CVE-2024-1''] openssl [affected_row] Probable u =
     \<lparr>matched = [the_finding], undecided_list = [], suppressed = []\<rparr>"
  by (simp add: evaluateComponent_def openssl_scan component_verdicts_def settle_vuln_def component_start_def)

lemma openssl_order: "iteration_order [''CVE-2024-1''] (best (component_scan openssl [affected_row] Probable u))"
  by (simp add: openssl_scan iteration_order_def)

lemma openssl_report:
  obtains r where "Scan answered no_summaries one_order [openssl] defaults = Inr r" "r_Findings r = [the_finding]"
proof -
  have v: "scan_components one_order \<lparr>cs_Statements = candidates, cs_Truncated = (\<lambda>_. False)\<rparr> defaults [openssl]
      = [\<lparr>matched = [the_finding], undecided_list = [], suppressed = []\<rparr>]"
    by (simp add: scan_components_def one_order_def floor_of_def defaults_def DefaultMinConfidence_def
        openssl_verdicts candidates_def)
  have "Scan answered no_summaries one_order [openssl] defaults =
      Inr \<lparr>r_Components = Suc 0, r_Findings = [the_finding], r_Undecidable = [], r_Suppressed = [],
        r_Truncated = [], r_Counts = count_findings [the_finding]\<rparr>"
    by (simp add: Scan_def answered_def no_summaries_def v report_of_def decorate_def sortFindings_def
        sort_stable_def Let_def)
  then show thesis by (rule that) simp
qed

section \<open>The same scan over the store's own lookup\<close>

definition each_key_once :: "CandidateQuery list \<Rightarrow> lookup_key list" where
  "each_key_once qs = remdups (concat (map query_keys qs))"

lemma each_key_once_ok: "keys_of qs (each_key_once qs)"
  by (simp add: keys_of_def each_key_once_def)

lemma openssl_lookup:
  "\<exists>found. store_lookup maxCandidatesPerQuery [affected_row] each_key_once [query_of openssl] = Inr found
     \<and> cs_Statements found 0 = [affected_row] \<and> \<not> cs_Truncated found 0"
proof -
  have "case store_lookup maxCandidatesPerQuery [affected_row] each_key_once [query_of openssl] of
      Inl _ \<Rightarrow> False | Inr found \<Rightarrow> cs_Statements found 0 = [affected_row] \<and> \<not> cs_Truncated found 0"
    by code_simp
  then show ?thesis by (auto split: sum.splits)
qed

lemma openssl_store_report:
  obtains r where "Scan (store_lookup maxCandidatesPerQuery [affected_row] each_key_once) no_summaries one_order [openssl] defaults = Inr r"
    "r_Truncated r = []"
proof -
  obtain found where f: "store_lookup maxCandidatesPerQuery [affected_row] each_key_once [query_of openssl] = Inr found"
    "\<not> cs_Truncated found 0"
    using openssl_lookup by blast
  obtain r where r: "Scan (store_lookup maxCandidatesPerQuery [affected_row] each_key_once) no_summaries one_order [openssl] defaults = Inr r"
    "r = report_of found Map.empty [openssl] (scan_components one_order found defaults [openssl])"
    by (simp add: Scan_def f(1) no_summaries_def Let_def)
  have "r_Truncated r = []" using f(2) by (simp add: r(2) report_of_def Let_def)
  with r(1) show thesis by (rule that)
qed

text \<open>A component and an advisory the matcher ties together exactly, and that share no lookup key.\<close>

definition flask_component :: Component where
  "flask_component = \<lparr>c_Name = ''Flask_SQLAlchemy'', c_Version = ''2.0'', c_Vendor = [], c_Ecosystem = ''PyPI'',
     c_PURL = ''pkg:pypi/Flask_SQLAlchemy@2.0'', c_CPE = [], c_Origin = []\<rparr>"

definition folded_row :: AffectedStatement where
  "folded_row = \<lparr>st_VulnID = ''CVE-2024-2'', st_Vendor = [], st_Product = ''flask-sqlalchemy'',
     st_Ecosystem = ''PyPI'', st_PURL = ''pkg:pypi/flask-sqlalchemy'', st_CPEs = [], st_Versions = [],
     st_Ranges = [window ''0'' ''2.1'' ''ECOSYSTEM''], st_DefaultState = [], st_Status = [], st_Source = ''osv'',
     st_Fingerprint = ''f''\<rparr>"

lemma folded_row_missed:
  "fst (Evaluate flask_component (toAffected folded_row)) = Match"
  "ev_Confidence (snd (Evaluate flask_component (toAffected folded_row))) = Some Confirmed"
  "\<not> shares_key (query_of flask_component) folded_row"
  by code_simp+

end
