(* ===== verification/Osv_Ranges.thy ===== *)
theory Osv_Ranges
  imports Window_Laws
begin

text \<open>
  The event streams of \<open>internal/parse/osv.go\<close>: \<open>orderedEvents\<close>, and \<open>osvRanges\<close>, which pairs the events of
  one range into windows. Shown: the stream can be read back off the windows, so no event is lost, invented
  or moved; a limit never becomes a fix; and on a stream the schema allows, a version lies in one of the
  windows exactly when the evaluation algorithm of the OSV schema calls it vulnerable.
\<close>

record osvEvent =
  oe_Introduced :: string
  oe_Fixed :: string
  oe_LastAffected :: string
  oe_Limit :: string

definition opens :: "osvEvent \<Rightarrow> bool" where
  "opens e \<longleftrightarrow> oe_Introduced e \<noteq> []"

definition orderedEvents :: "osvEvent list \<Rightarrow> osvEvent list" where
  "orderedEvents events =
     (case events of
        [a, b] \<Rightarrow> if opens a \<or> \<not> opens b then events else [b, a]
      | _ \<Rightarrow> events)"

record range_state =
  rs_out :: "VersionRange list"
  rs_current :: "VersionRange option"
  rs_open :: bool

definition range_start :: range_state where
  "range_start = \<lparr>rs_out = [], rs_current = None, rs_open = False\<rparr>"

definition new_range :: "string \<Rightarrow> string \<Rightarrow> VersionRange" where
  "new_range ty repo = \<lparr>Introduced = [], Fixed = [], LastAffected = [], RangeType = ty, RangeCPE = [],
     Limit = [], Repo = repo\<rparr>"

definition flush :: "range_state \<Rightarrow> range_state" where
  "flush s = \<lparr>rs_out = (case rs_current s of Some r \<Rightarrow> rs_out s @ [r] | None \<Rightarrow> rs_out s),
     rs_current = None, rs_open = False\<rparr>"

text \<open>
  The window a closing event ends. A nil \<open>current\<close> of an open state would be a panic; \<open>open_current\<close> below
  shows that no stream leads there.
\<close>

definition closing_window :: "string \<Rightarrow> string \<Rightarrow> range_state \<Rightarrow> VersionRange" where
  "closing_window ty repo s = (if \<not> rs_open s then new_range ty repo else the (rs_current s))"

definition event_step :: "string \<Rightarrow> string \<Rightarrow> osvEvent \<Rightarrow> range_state \<Rightarrow> range_state" where
  "event_step ty repo ev s =
     (if oe_Introduced ev \<noteq> [] then
        (flush s)\<lparr>rs_current := Some ((new_range ty repo)\<lparr>Introduced := oe_Introduced ev\<rparr>), rs_open := True\<rparr>
      else if oe_Fixed ev \<noteq> [] then
        flush (s\<lparr>rs_current := Some ((closing_window ty repo s)\<lparr>Fixed := oe_Fixed ev\<rparr>)\<rparr>)
      else if oe_LastAffected ev \<noteq> [] then
        flush (s\<lparr>rs_current := Some ((closing_window ty repo s)\<lparr>LastAffected := oe_LastAffected ev\<rparr>)\<rparr>)
      else if oe_Limit ev \<noteq> [] then
        flush (s\<lparr>rs_current := Some ((closing_window ty repo s)\<lparr>Limit := oe_Limit ev, LastAffected := oe_Limit ev\<rparr>)\<rparr>)
      else s)"

definition osvRanges :: "string \<Rightarrow> string \<Rightarrow> osvEvent list \<Rightarrow> VersionRange list" where
  "osvRanges rangeType repo events =
     rs_out (flush (fold (event_step (to_upper rangeType) repo) (orderedEvents events) range_start))"

section \<open>The state between two events\<close>

definition run_ok :: "string \<Rightarrow> string \<Rightarrow> range_state \<Rightarrow> bool" where
  "run_ok ty repo s \<longleftrightarrow>
     (case rs_current s of
        None \<Rightarrow> \<not> rs_open s
      | Some r \<Rightarrow> rs_open s \<and> (\<exists>i. i \<noteq> [] \<and> r = (new_range ty repo)\<lparr>Introduced := i\<rparr>))"

lemma flush_simps [simp]:
  "rs_current (flush s) = None" "rs_open (flush s) = False"
  "rs_out (flush s) = rs_out s @ (case rs_current s of Some r \<Rightarrow> [r] | None \<Rightarrow> [])"
  by (simp_all add: flush_def split: option.split)

lemma run_ok_flush [simp]: "run_ok ty repo (flush s)"
  by (simp add: run_ok_def)

lemma run_ok_start: "run_ok ty repo range_start"
  by (simp add: run_ok_def range_start_def)

lemma run_ok_step: "run_ok ty repo s \<Longrightarrow> run_ok ty repo (event_step ty repo ev s)"
  by (auto simp: event_step_def run_ok_def)

lemma run_ok_fold: "run_ok ty repo s \<Longrightarrow> run_ok ty repo (fold (event_step ty repo) evs s)"
  by (induction evs arbitrary: s) (simp_all add: run_ok_step)

text \<open>\<open>current\<close> is nil exactly while no window is open.\<close>

lemma open_current: "rs_open (fold (event_step ty repo) evs range_start)
    \<longleftrightarrow> rs_current (fold (event_step ty repo) evs range_start) \<noteq> None"
  using run_ok_fold [OF run_ok_start, of ty repo evs] by (auto simp: run_ok_def split: option.splits)

section \<open>The windows as a recursion\<close>

text \<open>What is emitted from a state with the given open window on.\<close>

definition close :: "osvEvent \<Rightarrow> VersionRange \<Rightarrow> VersionRange" where
  "close ev r =
     (if oe_Fixed ev \<noteq> [] then r\<lparr>Fixed := oe_Fixed ev\<rparr>
      else if oe_LastAffected ev \<noteq> [] then r\<lparr>LastAffected := oe_LastAffected ev\<rparr>
      else r\<lparr>Limit := oe_Limit ev, LastAffected := oe_Limit ev\<rparr>)"

definition closes :: "osvEvent \<Rightarrow> bool" where
  "closes e \<longleftrightarrow> oe_Introduced e = [] \<and> (oe_Fixed e \<noteq> [] \<or> oe_LastAffected e \<noteq> [] \<or> oe_Limit e \<noteq> [])"

fun pair_events :: "string \<Rightarrow> string \<Rightarrow> string option \<Rightarrow> osvEvent list \<Rightarrow> VersionRange list" where
  "pair_events ty repo None [] = []"
| "pair_events ty repo (Some i) [] = [(new_range ty repo)\<lparr>Introduced := i\<rparr>]"
| "pair_events ty repo None (e # es) =
     (if opens e then pair_events ty repo (Some (oe_Introduced e)) es
      else if closes e then close e (new_range ty repo) # pair_events ty repo None es
      else pair_events ty repo None es)"
| "pair_events ty repo (Some i) (e # es) =
     (if opens e then (new_range ty repo)\<lparr>Introduced := i\<rparr> # pair_events ty repo (Some (oe_Introduced e)) es
      else if closes e then close e ((new_range ty repo)\<lparr>Introduced := i\<rparr>) # pair_events ty repo None es
      else pair_events ty repo (Some i) es)"

definition open_window :: "range_state \<Rightarrow> string option" where
  "open_window s = map_option Introduced (rs_current s)"

lemma new_range_simps [simp]:
  "Introduced (new_range ty repo) = []" "Fixed (new_range ty repo) = []" "LastAffected (new_range ty repo) = []"
  "Limit (new_range ty repo) = []"
  by (simp_all add: new_range_def)

lemma fold_pair_events:
  assumes "run_ok ty repo s"
  shows "rs_out (flush (fold (event_step ty repo) evs s)) = rs_out s @ pair_events ty repo (open_window s) evs"
  using assms
proof (induction evs arbitrary: s)
  case Nil
  then show ?case by (auto simp: run_ok_def open_window_def split: option.splits)
next
  case (Cons e es)
  have ih: "rs_out (flush (fold (event_step ty repo) es (event_step ty repo e s)))
      = rs_out (event_step ty repo e s) @ pair_events ty repo (open_window (event_step ty repo e s)) es"
    by (rule Cons.IH [OF run_ok_step [OF Cons.prems]])
  have step: "rs_out (event_step ty repo e s) @ pair_events ty repo (open_window (event_step ty repo e s)) es
      = rs_out s @ pair_events ty repo (open_window s) (e # es)"
  proof (cases "rs_current s")
    case None
    then have "\<not> rs_open s" using Cons.prems by (simp add: run_ok_def)
    then show ?thesis using None
      by (simp add: open_window_def event_step_def closing_window_def opens_def closes_def close_def)
  next
    case (Some r)
    then obtain i where "rs_open s" "r = (new_range ty repo)\<lparr>Introduced := i\<rparr>"
      using Cons.prems by (auto simp: run_ok_def)
    then show ?thesis using Some
      by (simp add: open_window_def event_step_def closing_window_def opens_def closes_def close_def)
  qed
  show ?case using ih step by (simp only: fold_Cons comp_apply)
qed

lemma osvRanges_pairs: "osvRanges ty repo evs = pair_events (to_upper ty) repo None (orderedEvents evs)"
proof -
  have "open_window range_start = None" "rs_out range_start = []" by (simp_all add: open_window_def range_start_def)
  then show ?thesis using fold_pair_events [OF run_ok_start] by (simp add: osvRanges_def)
qed

section \<open>Reading the stream back\<close>

definition intro_event :: "string \<Rightarrow> osvEvent" where
  "intro_event x = \<lparr>oe_Introduced = x, oe_Fixed = [], oe_LastAffected = [], oe_Limit = []\<rparr>"

definition fix_event :: "string \<Rightarrow> osvEvent" where
  "fix_event x = \<lparr>oe_Introduced = [], oe_Fixed = x, oe_LastAffected = [], oe_Limit = []\<rparr>"

definition last_event :: "string \<Rightarrow> osvEvent" where
  "last_event x = \<lparr>oe_Introduced = [], oe_Fixed = [], oe_LastAffected = x, oe_Limit = []\<rparr>"

definition limit_event :: "string \<Rightarrow> osvEvent" where
  "limit_event x = \<lparr>oe_Introduced = [], oe_Fixed = [], oe_LastAffected = [], oe_Limit = x\<rparr>"

lemmas event_defs = intro_event_def fix_event_def last_event_def limit_event_def

text \<open>The schema allows one member in an event object.\<close>

definition one_member :: "osvEvent \<Rightarrow> bool" where
  "one_member e \<longleftrightarrow>
     (case filter (\<lambda>x. x \<noteq> []) [oe_Introduced e, oe_Fixed e, oe_LastAffected e, oe_Limit e] of
        [x] \<Rightarrow> True | _ \<Rightarrow> False)"

definition window_events :: "VersionRange \<Rightarrow> osvEvent list" where
  "window_events w =
     (if Introduced w \<noteq> [] then [intro_event (Introduced w)] else [])
     @ (if Fixed w \<noteq> [] then [fix_event (Fixed w)] else if Limit w \<noteq> [] then [limit_event (Limit w)]
        else if LastAffected w \<noteq> [] then [last_event (LastAffected w)] else [])"

lemma one_member_cases:
  assumes "one_member e"
  obtains x where "x \<noteq> []" "e = intro_event x" | x where "x \<noteq> []" "e = fix_event x"
    | x where "x \<noteq> []" "e = last_event x" | x where "x \<noteq> []" "e = limit_event x"
proof -
  have "\<exists>x. x \<noteq> [] \<and> (e = intro_event x \<or> e = fix_event x \<or> e = last_event x \<or> e = limit_event x)"
    using assms by (cases e) (auto simp: one_member_def event_defs split: if_splits)
  then show thesis using that by blast
qed

lemma event_kinds [simp]:
  "opens (intro_event x) = (x \<noteq> [])" "\<not> opens (fix_event x)" "\<not> opens (last_event x)" "\<not> opens (limit_event x)"
  "x \<noteq> [] \<Longrightarrow> closes (fix_event x)" "x \<noteq> [] \<Longrightarrow> closes (last_event x)" "x \<noteq> [] \<Longrightarrow> closes (limit_event x)"
  "oe_Introduced (intro_event x) = x"
  by (simp_all add: opens_def closes_def event_defs)

definition intro_part :: "string \<Rightarrow> osvEvent list" where
  "intro_part i = (if i \<noteq> [] then [intro_event i] else [])"

lemma window_events_simps [simp]:
  "window_events ((new_range ty repo)\<lparr>Introduced := i\<rparr>) = intro_part i"
  "x \<noteq> [] \<Longrightarrow> window_events (close (fix_event x) ((new_range ty repo)\<lparr>Introduced := i\<rparr>)) = intro_part i @ [fix_event x]"
  "x \<noteq> [] \<Longrightarrow> window_events (close (last_event x) ((new_range ty repo)\<lparr>Introduced := i\<rparr>)) = intro_part i @ [last_event x]"
  "x \<noteq> [] \<Longrightarrow> window_events (close (limit_event x) ((new_range ty repo)\<lparr>Introduced := i\<rparr>)) = intro_part i @ [limit_event x]"
  by (simp_all add: window_events_def close_def intro_part_def event_defs)

lemma new_range_intro: "new_range ty repo = (new_range ty repo)\<lparr>Introduced := []\<rparr>"
  by (simp add: new_range_def)

lemma window_events_bare [simp]:
  "x \<noteq> [] \<Longrightarrow> window_events (close (fix_event x) (new_range ty repo)) = [fix_event x]"
  "x \<noteq> [] \<Longrightarrow> window_events (close (last_event x) (new_range ty repo)) = [last_event x]"
  "x \<noteq> [] \<Longrightarrow> window_events (close (limit_event x) (new_range ty repo)) = [limit_event x]"
  by (subst new_range_intro, simp add: intro_part_def)+

lemma pair_events_back:
  assumes "list_all one_member es"
  shows "concat (map window_events (pair_events ty repo None es)) = es"
    and "i \<noteq> [] \<Longrightarrow> concat (map window_events (pair_events ty repo (Some i) es)) = intro_event i # es"
proof -
  have "concat (map window_events (pair_events ty repo None es)) = es
    \<and> (\<forall>i. i \<noteq> [] \<longrightarrow> concat (map window_events (pair_events ty repo (Some i) es)) = intro_event i # es)"
    using assms
  proof (induction es)
    case Nil
    then show ?case by (simp add: intro_part_def)
  next
    case (Cons e es)
    have ih: "concat (map window_events (pair_events ty repo None es)) = es"
      "\<And>i. i \<noteq> [] \<Longrightarrow> concat (map window_events (pair_events ty repo (Some i) es)) = intro_event i # es"
      using Cons by simp_all
    have "one_member e" using Cons.prems by simp
    then show ?case
      by (cases rule: one_member_cases) (simp_all add: ih intro_part_def)
  qed
  then show "concat (map window_events (pair_events ty repo None es)) = es"
    "i \<noteq> [] \<Longrightarrow> concat (map window_events (pair_events ty repo (Some i) es)) = intro_event i # es"
    by blast+
qed

lemma orderedEvents_members: "list_all one_member evs \<Longrightarrow> list_all one_member (orderedEvents evs)"
  by (auto simp: orderedEvents_def split: list.splits)

lemma osvRanges_back:
  assumes "list_all one_member evs"
  shows "concat (map window_events (osvRanges ty repo evs)) = orderedEvents evs"
  unfolding osvRanges_pairs by (rule pair_events_back(1) [OF orderedEvents_members [OF assms]])

text \<open>A window with a limit asserts no fix, and keeps the limit as its last version.\<close>

definition limit_kept :: "VersionRange \<Rightarrow> bool" where
  "limit_kept w \<longleftrightarrow> Limit w = [] \<or> (Fixed w = [] \<and> LastAffected w = Limit w)"

lemma pair_events_limits: "list_all limit_kept (pair_events ty repo st es)"
  by (induction ty repo st es rule: pair_events.induct) (simp_all add: limit_kept_def close_def)

lemma osvRanges_limits: "list_all limit_kept (osvRanges ty repo evs)"
  unfolding osvRanges_pairs by (rule pair_events_limits)

section \<open>The evaluation of the schema\<close>

text \<open>
  The evaluation algorithm of the OSV schema on one range: the events in order, each switching whether
  the version is vulnerable.
\<close>

definition introduced_by :: "(string \<Rightarrow> string \<Rightarrow> int) \<Rightarrow> string \<Rightarrow> osvEvent \<Rightarrow> bool" where
  "introduced_by cmp v e \<longleftrightarrow> oe_Introduced e = ''0'' \<or> 0 \<le> cmp (clean v) (clean (oe_Introduced e))"

definition closed_by :: "(string \<Rightarrow> string \<Rightarrow> int) \<Rightarrow> string \<Rightarrow> osvEvent \<Rightarrow> bool" where
  "closed_by cmp v e \<longleftrightarrow>
     (if oe_Fixed e \<noteq> [] then 0 \<le> cmp (clean v) (clean (oe_Fixed e))
      else 0 < cmp (clean v) (clean (oe_LastAffected e)))"

fun osv_eval :: "(string \<Rightarrow> string \<Rightarrow> int) \<Rightarrow> string \<Rightarrow> osvEvent list \<Rightarrow> bool \<Rightarrow> bool" where
  "osv_eval cmp v [] b = b"
| "osv_eval cmp v (e # es) b =
     osv_eval cmp v es
       (if opens e then introduced_by cmp v e \<or> b
        else if oe_Fixed e \<noteq> [] \<or> oe_LastAffected e \<noteq> [] then \<not> closed_by cmp v e \<and> b
        else b)"

text \<open>What the schema asks of a stream: windows one after the other, in the order of the versions.\<close>

definition point :: "osvEvent \<Rightarrow> string" where
  "point e = (if opens e then oe_Introduced e else if oe_Fixed e \<noteq> [] then oe_Fixed e else oe_LastAffected e)"

definition plain_bound :: "string \<Rightarrow> bool" where
  "plain_bound x \<longleftrightarrow> x \<noteq> [] \<and> trim_space x = x \<and> ClassifySentinel x = NotSentinel \<and> cut_suffix x exclusiveMarker = None"

definition plain_event :: "osvEvent \<Rightarrow> bool" where
  "plain_event e \<longleftrightarrow> one_member e \<and> oe_Limit e = [] \<and> (oe_Introduced e = ''0'' \<or> plain_bound (point e))"

definition precedes :: "(string \<Rightarrow> string \<Rightarrow> int) \<Rightarrow> osvEvent \<Rightarrow> osvEvent \<Rightarrow> bool" where
  "precedes cmp a b \<longleftrightarrow> oe_Introduced b \<noteq> ''0'' \<and> (oe_Introduced a = ''0'' \<or> cmp (clean (point a)) (clean (point b)) < 0)"

fun paired :: "osvEvent list \<Rightarrow> bool" where
  "paired [] = True"
| "paired [i] = opens i"
| "paired (i # c # es) = (opens i \<and> \<not> opens c \<and> paired es)"

definition proper_stream :: "(string \<Rightarrow> string \<Rightarrow> int) \<Rightarrow> osvEvent list \<Rightarrow> bool" where
  "proper_stream cmp es \<longleftrightarrow> list_all plain_event es \<and> paired es \<and> sorted_wrt (precedes cmp) es"


lemma has_lower_plain:
  assumes "i = ''0'' \<or> plain_bound i" "Introduced w = i"
  shows "has_lower w = (i \<noteq> ''0'')" and "i \<noteq> ''0'' \<Longrightarrow> lower_bound w = (i, False)"
proof -
  have z: "lower_bound w = (i, False)" if "i = ''0''"
  proof -
    have "trim_space ''0'' = ''0''" "cut_suffix ''0'' exclusiveMarker = None" by code_simp+
    then show ?thesis using that assms(2) by (simp add: lower_bound_def)
  qed
  have p: "lower_bound w = (i, False)" if "plain_bound i"
    using that assms(2) by (simp add: lower_bound_def plain_bound_def)
  show "i \<noteq> ''0'' \<Longrightarrow> lower_bound w = (i, False)" using assms(1) p by blast
  have "ClassifySentinel ''0'' \<noteq> NotSentinel" by code_simp
  then show "has_lower w = (i \<noteq> ''0'')"
    using assms(1) z p by (auto simp: has_lower_def unboundedLower_def plain_bound_def)
qed

text \<open>The window of one pair of events, and of a last event without a partner.\<close>

lemma in_window_pair:
  assumes "plain_event i" "plain_event c" "opens i" "\<not> opens c"
  shows "in_window cmp (close c ((new_range ty repo)\<lparr>Introduced := oe_Introduced i\<rparr>)) v
    \<longleftrightarrow> introduced_by cmp v i \<and> \<not> closed_by cmp v c"
proof -
  let ?w = "close c ((new_range ty repo)\<lparr>Introduced := oe_Introduced i\<rparr>)"
  have i: "Introduced ?w = oe_Introduced i" by (simp add: close_def)
  have pi: "oe_Introduced i = ''0'' \<or> plain_bound (oe_Introduced i)"
    using assms(1,3) by (simp add: plain_event_def point_def)
  note lower = has_lower_plain [OF pi i]
  have c0: "oe_Introduced c = []" using assms(4) by (simp add: opens_def)
  have one: "one_member c" using assms(2) by (simp add: plain_event_def)
  have pc: "plain_bound (point c)" using assms(2) c0 by (simp add: plain_event_def)
  have up: "(trim_space (Fixed ?w) \<noteq> [] \<longrightarrow> cmp (clean v) (clean (trim_space (Fixed ?w))) < 0)
     \<and> (trim_space (LastAffected ?w) \<noteq> [] \<longrightarrow> cmp (clean v) (clean (trim_space (LastAffected ?w))) \<le> 0)
     \<longleftrightarrow> \<not> closed_by cmp v c"
    using one
  proof (cases rule: one_member_cases)
    case (1 x)
    then show ?thesis using assms(4) by simp
  next
    case (2 x)
    then show ?thesis using pc by (auto simp: close_def closed_by_def point_def plain_bound_def event_defs opens_def)
  next
    case (3 x)
    then show ?thesis using pc by (auto simp: close_def closed_by_def point_def plain_bound_def event_defs opens_def)
  next
    case (4 x)
    then show ?thesis using assms(2) by (simp add: plain_event_def event_defs)
  qed
  have lo: "(has_lower ?w \<longrightarrow> above_lower ?w (cmp (clean v) (clean (fst (lower_bound ?w))))) \<longleftrightarrow> introduced_by cmp v i"
    using lower by (cases "oe_Introduced i = ''0''") (auto simp: above_lower_def introduced_by_def)
  show ?thesis unfolding in_window_def using up lo by blast
qed

lemma in_window_last:
  assumes "plain_event i" "opens i"
  shows "in_window cmp ((new_range ty repo)\<lparr>Introduced := oe_Introduced i\<rparr>) v \<longleftrightarrow> introduced_by cmp v i"
proof -
  let ?w = "(new_range ty repo)\<lparr>Introduced := oe_Introduced i\<rparr>"
  have pi: "oe_Introduced i = ''0'' \<or> plain_bound (oe_Introduced i)"
    using assms by (simp add: plain_event_def point_def)
  note lower = has_lower_plain [OF pi, of ?w]
  show ?thesis
    using lower by (cases "oe_Introduced i = ''0''") (auto simp: in_window_def above_lower_def introduced_by_def)
qed

lemma pair_cons:
  assumes "plain_event i" "plain_event c" "opens i" "\<not> opens c"
  shows "pair_events ty repo None (i # c # es) =
    close c ((new_range ty repo)\<lparr>Introduced := oe_Introduced i\<rparr>) # pair_events ty repo None es"
proof -
  have "closes c" using assms(2,4) by (auto simp: plain_event_def one_member_def closes_def opens_def split: if_splits)
  then show ?thesis using assms(3,4) by simp
qed

lemma osv_eval_pair:
  assumes "plain_event i" "plain_event c" "opens i" "\<not> opens c"
  shows "osv_eval cmp v (i # c # es) b = osv_eval cmp v es ((introduced_by cmp v i \<or> b) \<and> \<not> closed_by cmp v c)"
proof -
  have "oe_Fixed c \<noteq> [] \<or> oe_LastAffected c \<noteq> []"
    using assms(2,4) by (auto simp: plain_event_def one_member_def opens_def split: if_splits)
  then show ?thesis using assms(3,4) by (auto simp: conj_commute)
qed

text \<open>Events a version lies below change nothing.\<close>

definition below_event :: "(string \<Rightarrow> string \<Rightarrow> int) \<Rightarrow> string \<Rightarrow> osvEvent \<Rightarrow> bool" where
  "below_event cmp v e \<longleftrightarrow> oe_Introduced e \<noteq> ''0'' \<and> cmp (clean v) (clean (point e)) < 0"

lemma osv_eval_below:
  assumes "list_all (below_event cmp v) es" "list_all plain_event es"
  shows "osv_eval cmp v es b = b"
  using assms
proof (induction es arbitrary: b)
  case (Cons e es)
  have ih: "osv_eval cmp v es b = b" for b using Cons by simp
  have be: "below_event cmp v e" "plain_event e" using Cons.prems by simp_all
  then have "\<not> introduced_by cmp v e" if "opens e"
    using that by (simp add: below_event_def introduced_by_def point_def)
  moreover have "\<not> closed_by cmp v e" if "\<not> opens e"
    using that be by (auto simp: below_event_def closed_by_def point_def)
  ultimately show ?case by (simp add: ih)
qed simp

text \<open>The operands of the windows of a stream.\<close>

definition bounds_comparable :: "string \<Rightarrow> osvEvent list \<Rightarrow> bool" where
  "bounds_comparable v es \<longleftrightarrow>
     unusable v = None \<and> list_all (\<lambda>e. oe_Introduced e = ''0'' \<or> comparable_with v (point e)) es"

definition ready :: "string \<Rightarrow> VersionRange \<Rightarrow> bool" where
  "ready v w \<longleftrightarrow> no_sentinel w \<and> window_operands w v"

lemma not_sentinelUpper [simp]: "\<not> sentinelUpper []"
proof -
  have "ClassifySentinel [] = SentinelEmpty" by code_simp
  then show ?thesis by (simp add: sentinelUpper_def)
qed

lemma ready_pair:
  assumes "plain_event i" "plain_event c" "opens i" "\<not> opens c" "bounds_comparable v [i, c]"
  shows "ready v (close c ((new_range ty repo)\<lparr>Introduced := oe_Introduced i\<rparr>))"
proof -
  let ?w = "close c ((new_range ty repo)\<lparr>Introduced := oe_Introduced i\<rparr>)"
  have i: "Introduced ?w = oe_Introduced i" by (simp add: close_def)
  have pi: "oe_Introduced i = ''0'' \<or> plain_bound (oe_Introduced i)"
    using assms(1,3) by (simp add: plain_event_def point_def)
  have c0: "oe_Introduced c = []" using assms(4) by (simp add: opens_def)
  have one: "one_member c" using assms(2) by (simp add: plain_event_def)
  have pc: "plain_bound (point c)" "comparable_with v (point c)"
    using assms(2,5) c0 by (simp_all add: plain_event_def bounds_comparable_def)
  have u: "unusable v = None" using assms(5) by (simp add: bounds_comparable_def)
  have lo: "has_lower ?w \<longrightarrow> comparable_with v (fst (lower_bound ?w))"
    using has_lower_plain [OF pi i] assms(3,5) by (auto simp: bounds_comparable_def point_def)
  have up: "no_sentinel ?w
     \<and> (trim_space (Fixed ?w) \<noteq> [] \<longrightarrow> comparable_with v (trim_space (Fixed ?w)))
     \<and> (trim_space (LastAffected ?w) \<noteq> [] \<longrightarrow> comparable_with v (trim_space (LastAffected ?w)))"
    using one
  proof (cases rule: one_member_cases)
    case (1 x)
    then show ?thesis using assms(4) by simp
  next
    case (2 x)
    then show ?thesis
      using pc by (simp add: close_def no_sentinel_def point_def plain_bound_def event_defs opens_def sentinelUpper_def [of x])
  next
    case (3 x)
    then show ?thesis
      using pc by (simp add: close_def no_sentinel_def point_def plain_bound_def event_defs opens_def sentinelUpper_def [of x])
  next
    case (4 x)
    then show ?thesis using assms(2) by (simp add: plain_event_def event_defs)
  qed
  show ?thesis unfolding ready_def window_operands_def using u lo up by blast
qed

lemma ready_last:
  assumes "plain_event i" "opens i" "bounds_comparable v [i]"
  shows "ready v ((new_range ty repo)\<lparr>Introduced := oe_Introduced i\<rparr>)"
proof -
  let ?w = "(new_range ty repo)\<lparr>Introduced := oe_Introduced i\<rparr>"
  have pi: "oe_Introduced i = ''0'' \<or> plain_bound (oe_Introduced i)"
    using assms(1,2) by (simp add: plain_event_def point_def)
  show ?thesis
    using has_lower_plain [OF pi, of ?w] assms(2,3)
    by (auto simp: ready_def no_sentinel_def window_operands_def bounds_comparable_def point_def)
qed

lemma ready_windows:
  assumes "list_all plain_event es" "paired es" "bounds_comparable v es"
  shows "list_all (ready v) (pair_events ty repo None es)"
  using assms
proof (induction es rule: paired.induct)
  case 1
  then show ?case by simp
next
  case (2 i)
  then show ?case using ready_last by simp
next
  case (3 i c es)
  then have p: "plain_event i" "plain_event c" "opens i" "\<not> opens c" by simp_all
  have "list_all (ready v) (pair_events ty repo None es)"
    by (rule "3.IH") (use "3.prems" in \<open>simp_all add: bounds_comparable_def\<close>)
  moreover have "bounds_comparable v [i, c]" using "3.prems"(3) by (simp add: bounds_comparable_def)
  ultimately show ?case using ready_pair [OF p] by (simp add: pair_cons [OF p] del: pair_events.simps)
qed

lemma orderedEvents_paired: "paired es \<Longrightarrow> orderedEvents es = es"
  by (auto simp: orderedEvents_def split: list.splits)

context ordered_scheme
begin

lemma below_rest:
  assumes "introduced_by cmp v i" "\<not> closed_by cmp v c" "\<not> opens c" "plain_event c" "list_all (precedes cmp c) es"
  shows "list_all (below_event cmp v) es"
proof -
  have le: "cmp (clean v) (clean (point c)) \<le> 0"
    using assms(2,3) by (auto simp: closed_by_def point_def split: if_splits)
  have c0: "oe_Introduced c \<noteq> ''0''" using assms(3) by (auto simp: opens_def)
  show ?thesis
  proof (rule list.pred_mono_strong [OF assms(5)])
    fix e assume "e \<in> set es" "precedes cmp c e"
    then have "oe_Introduced e \<noteq> ''0''" "cmp (clean (point c)) (clean (point e)) < 0"
      using c0 by (auto simp: precedes_def)
    then show "below_event cmp v e" using cmp_le_less_trans [OF le] by (simp add: below_event_def)
  qed
qed

text \<open>The windows of a proper stream are what the schema's evaluation says.\<close>

lemma pair_events_eval:
  assumes "proper_stream cmp es"
  shows "list_ex (\<lambda>w. in_window cmp w v) (pair_events ty repo None es) = osv_eval cmp v es False"
  using assms
proof (induction es rule: paired.induct)
  case 1
  then show ?case by simp
next
  case (2 i)
  then have "plain_event i" "opens i" by (simp_all add: proper_stream_def)
  then show ?case by (simp add: in_window_last)
next
  case (3 i c es)
  then have p: "plain_event i" "plain_event c" "opens i" "\<not> opens c" and rest: "proper_stream cmp es"
    and c: "list_all (precedes cmp c) es" and pl: "list_all plain_event es"
    by (auto simp: proper_stream_def list_all_iff)
  note ih = "3.IH" [OF rest]
  show ?case
  proof (cases "introduced_by cmp v i \<and> \<not> closed_by cmp v c")
    case True
    then have "list_all (below_event cmp v) es" using below_rest [OF _ _ p(4,2) c] by blast
    then have "osv_eval cmp v es True" using osv_eval_below [OF _ pl] by simp
    then show ?thesis using True
      by (simp add: pair_cons [OF p] osv_eval_pair [OF p] in_window_pair [OF p] del: pair_events.simps osv_eval.simps)
  next
    case False
    then show ?thesis
      using ih
      by (auto simp: pair_cons [OF p] osv_eval_pair [OF p] in_window_pair [OF p] simp del: pair_events.simps osv_eval.simps)
  qed
qed

lemma not_Opaque: "unusable v = None \<Longrightarrow> s \<noteq> Opaque"
  using answers [of v v] CompareCertain_Opaque [of v v] by force

text \<open>The verdicts of the matcher on the windows of a stream are the schema's evaluation.\<close>

lemma window_verdict:
  assumes "no_sentinel w" "window_operands w v" "statesAVersion v"
  shows "e_verdict (evalRange s v w) = vInRange \<longleftrightarrow> in_window cmp w v"
proof (cases "bounded w")
  case True
  show ?thesis using window_spec [OF assms(1) True assms(2)] by (simp split: if_splits)
next
  case False
  then have "in_window cmp w v" by (auto simp: bounded_def in_window_def)
  moreover have "unusable v = None" using assms(2) by (simp add: window_operands_def)
  then have "s \<noteq> Opaque" by (rule not_Opaque)
  ultimately show ?thesis
    using False assms(1,3) by (auto simp: evalRange_def no_sentinel_def bounded_def Let_def split: prod.splits)
qed

lemma osv_verdicts:
  assumes "proper_stream cmp es" "bounds_comparable v es" "statesAVersion v"
  shows "list_ex (\<lambda>w. e_verdict (evalRange s v w) = vInRange) (osvRanges ty repo es) = osv_eval cmp v es False"
proof -
  have p: "paired es" "list_all plain_event es" using assms(1) by (simp_all add: proper_stream_def)
  have "list_all (ready v) (pair_events (to_upper ty) repo None es)"
    using p(2,1) assms(2) by (rule ready_windows)
  then have "\<And>w. w \<in> set (pair_events (to_upper ty) repo None es) \<Longrightarrow>
      e_verdict (evalRange s v w) = vInRange \<longleftrightarrow> in_window cmp w v"
    using window_verdict assms(3) unfolding list_all_iff ready_def by blast
  then have "list_ex (\<lambda>w. e_verdict (evalRange s v w) = vInRange) (osvRanges ty repo es)
      = list_ex (\<lambda>w. in_window cmp w v) (pair_events (to_upper ty) repo None es)"
    by (auto simp: osvRanges_pairs orderedEvents_paired [OF p(1)] list_ex_iff)
  then show ?thesis using pair_events_eval [OF assms(1)] by simp
qed

end

end
