(* ===== verification/Records.thy ===== *)
theory Records
  imports Model
begin

text \<open>
  The canonical record of \<open>internal/model/model.go\<close> the parsers fill: severities, references, applicability
  rows, SSVC and the vulnerability. Timestamps are of a type \<open>'t\<close>; \<open>time.Parse\<close> is an argument of \<open>ParseTime\<close>,
  from a layout and a text to a timestamp. \<open>Raw\<close> and \<open>FetchedAt\<close> are left out.
\<close>

record Severity =
  sv_Type :: string
  sv_Score :: rat
  sv_Vector :: string
  sv_Rating :: string
  sv_Provider :: string
  sv_Source :: string

record Reference =
  rf_URL :: string
  rf_Name :: string
  rf_Tags :: "string list"
  rf_Source :: string

record AffectedRow =
  af_Vendor :: string
  af_Product :: string
  af_Ecosystem :: string
  af_PURL :: string
  af_CPEs :: "string list"
  af_Versions :: "string list"
  af_Ranges :: "VersionRange list"
  af_DefaultState :: string
  af_Status :: string
  af_Source :: string

definition no_row :: AffectedRow where
  "no_row = \<lparr>af_Vendor = [], af_Product = [], af_Ecosystem = [], af_PURL = [], af_CPEs = [], af_Versions = [],
     af_Ranges = [], af_DefaultState = [], af_Status = [], af_Source = []\<rparr>"

record SSVC =
  ss_Exploitation :: string
  ss_Automatable :: string
  ss_TechnicalImpact :: string
  ss_Version :: string
  ss_Timestamp :: string
  ss_Source :: string

record 't Vulnerability =
  v_ID :: string
  v_Title :: string
  v_Description :: string
  v_State :: string
  v_Published :: "'t option"
  v_Modified :: "'t option"
  v_Withdrawn :: "'t option"
  v_Aliases :: "string list"
  v_Related :: "string list"
  v_CWEs :: "string list"
  v_Severities :: "Severity list"
  v_References :: "Reference list"
  v_Affected :: "AffectedRow list"
  v_SSVC :: "SSVC option"
  v_AssignerShortName :: string
  v_EnrichmentStatus :: string
  v_Tags :: "string list"
  v_Source :: string
  v_SourceRecordID :: string

definition no_vulnerability :: "'t Vulnerability" where
  "no_vulnerability = \<lparr>v_ID = [], v_Title = [], v_Description = [], v_State = [], v_Published = None,
     v_Modified = None, v_Withdrawn = None, v_Aliases = [], v_Related = [], v_CWEs = [], v_Severities = [],
     v_References = [], v_Affected = [], v_SSVC = None, v_AssignerShortName = [], v_EnrichmentStatus = [],
     v_Tags = [], v_Source = [], v_SourceRecordID = []\<rparr>"

definition no_severity :: Severity where
  "no_severity = \<lparr>sv_Type = [], sv_Score = 0, sv_Vector = [], sv_Rating = [], sv_Provider = [], sv_Source = []\<rparr>"

section \<open>Timestamps\<close>

text \<open>The layouts, \<open>time.RFC3339Nano\<close> and \<open>time.RFC3339\<close> written out.\<close>

definition time_layouts :: "string list" where
  "time_layouts =
     [''2006-01-02T15:04:05.999999999Z07:00'', ''2006-01-02T15:04:05Z07:00'', ''2006-01-02T15:04:05.000Z'',
      ''2006-01-02T15:04:05.000'', ''2006-01-02T15:04:05Z'', ''2006-01-02T15:04:05'', ''2006-01-02 15:04:05'',
      ''2006-01-02'', ''Jan 2, 2006, 3:04:05 PM'', ''Jan 2, 2006'']"

fun first_layout :: "(string \<Rightarrow> string \<Rightarrow> 't option) \<Rightarrow> string list \<Rightarrow> string \<Rightarrow> 't option" where
  "first_layout time_parse [] s = None"
| "first_layout time_parse (l # ls) s =
     (case time_parse l s of Some t \<Rightarrow> Some t | None \<Rightarrow> first_layout time_parse ls s)"

definition ParseTime :: "(string \<Rightarrow> string \<Rightarrow> 't option) \<Rightarrow> string \<Rightarrow> 't option" where
  "ParseTime time_parse s =
     (let t = trim_space s in if t = [] then None else first_layout time_parse time_layouts t)"

text \<open>A timestamp is the reading of the first layout that reads the text.\<close>

lemma first_layout_Some:
  "first_layout tp ls s = Some t \<Longrightarrow> \<exists>l \<in> set ls. tp l s = Some t"
  by (induction ls) (auto split: option.splits)

lemma first_layout_None: "first_layout tp ls s = None \<longleftrightarrow> (\<forall>l \<in> set ls. tp l s = None)"
  by (induction ls) (auto split: option.splits)

lemma ParseTime_blank [simp]: "trim_space s = [] \<Longrightarrow> ParseTime tp s = None"
  by (simp add: ParseTime_def)

section \<open>Bands\<close>

text \<open>\<open>ratingFor\<close> of \<open>internal/parse/nvd.go\<close>, and \<open>rating\<close> of \<open>internal/parse/cve5.go\<close>.\<close>

definition ratingFor :: "string \<Rightarrow> rat \<Rightarrow> string" where
  "ratingFor ty score = (if ty = ''CVSS_V2'' then RatingFromScoreV2 score else RatingFromScore score)"

definition rating :: "string \<Rightarrow> rat \<Rightarrow> string" where
  "rating given score = (if given \<noteq> [] then to_upper given else RatingFromScore score)"

definition bands :: "string list" where
  "bands = [''NONE'', ''LOW'', ''MEDIUM'', ''HIGH'', ''CRITICAL'']"

lemma ratingFor_band: "ratingFor ty score \<in> set bands"
  by (simp add: ratingFor_def RatingFromScore_def RatingFromScoreV2_def bands_def)

end
