(* ===== verification/Osv.thy ===== *)
theory Osv
  imports Osv_Ranges Cvss Records
begin

text \<open>
  \<open>OSVToModel\<close> of \<open>internal/parse/osv.go\<close> on a decoded document: identity, severities, references and the
  applicability rows. The decoder's answer, \<open>time.Parse\<close> and \<open>strconv.ParseFloat\<close> are arguments. Shown: the
  aliases of a record never name two CVEs nor the record itself, every identifier of the document ends among
  the aliases or the related ones, and a statement that cannot be scored is given no band of its own.
\<close>

record osvScore =
  sc_Type :: string
  sc_Score :: string

record osvRange =
  or_Type :: string
  or_Repo :: string
  or_Events :: "osvEvent list"

record osvAffected =
  oa_Ecosystem :: string
  oa_Name :: string
  oa_PURL :: string
  oa_Ranges :: "osvRange list"
  oa_Versions :: "string list"
  oa_CPE :: string
  oa_CPEs :: "string list"
  oa_Severity :: "osvScore list"

record osvReference =
  og_Type :: string
  og_URL :: string

record OSV =
  osv_ID :: string
  osv_Aliases :: "string list"
  osv_Related :: "string list"
  osv_Upstream :: "string list"
  osv_Modified :: string
  osv_Published :: string
  osv_Withdrawn :: string
  osv_Summary :: string
  osv_Details :: string
  osv_Severity :: "osvScore list"
  osv_Affected :: "osvAffected list"
  osv_References :: "osvReference list"
  osv_CWEIDs :: "string list"
  osv_Band :: string

datatype parse_error = Undecodable string | NoID

section \<open>Identity\<close>

definition countCVEs :: "string list \<Rightarrow> nat" where
  "countCVEs ids = length (filter (\<lambda>i. has_prefix (to_upper i) ''CVE-'') ids)"

definition removeSelf :: "string list \<Rightarrow> string \<Rightarrow> string list" where
  "removeSelf ids self = (if self = [] then ids else filter (\<lambda>i. \<not> equal_fold i self) ids)"

text \<open>The aliases and the related identifiers of a record.\<close>

definition osv_identity :: "string \<Rightarrow> OSV \<Rightarrow> string list \<times> string list" where
  "osv_identity vid doc =
     (let claimed = removeSelf (DedupeStrings (osv_Aliases doc)) vid;
          related = removeSelf (DedupeStrings (osv_Related doc @ osv_Upstream doc)) vid
      in if countCVEs claimed > 1 then ([], DedupeStrings (related @ claimed)) else (claimed, related))"

section \<open>Severities\<close>

definition qualitativeBand :: "string \<Rightarrow> string" where
  "qualitativeBand s =
     (let b = to_upper (trim_space s) in
      if b = ''NONE'' then ''NONE''
      else if b = ''LOW'' then ''LOW''
      else if b = ''MEDIUM'' \<or> b = ''MODERATE'' then ''MEDIUM''
      else if b = ''HIGH'' then ''HIGH''
      else if b = ''CRITICAL'' then ''CRITICAL''
      else [])"

definition declared_type :: "string \<Rightarrow> string option" where
  "declared_type ty =
     (if to_upper ty = ''CVSS_V4'' then Some ''CVSS_V4_0''
      else if to_upper ty = ''CVSS_V3'' then Some ''CVSS_V3_1''
      else if to_upper ty = ''CVSS_V2'' then Some ''CVSS_V2''
      else None)"

definition scored :: "string \<Rightarrow> string \<Rightarrow> string \<Rightarrow> Severity" where
  "scored t score source =
     (let sev = no_severity\<lparr>sv_Type := t, sv_Vector := score, sv_Source := source\<rparr> in
      case cvssBaseScore score of
        Some s \<Rightarrow> sev\<lparr>sv_Score := s, sv_Rating := ratingFor t s\<rparr>
      | None \<Rightarrow> sev)"

definition osvSeverity :: "(string \<Rightarrow> rat option) \<Rightarrow> string \<Rightarrow> string \<Rightarrow> string \<Rightarrow> Severity option" where
  "osvSeverity parse_float ty score0 source =
     (let score = trim_space score0 in
      if score = [] then None
      else if CVSSTypeFromVector score \<noteq> ''OTHER'' then Some (scored (CVSSTypeFromVector score) score source)
      else
        (case declared_type ty of
           Some t \<Rightarrow> Some (scored t score source)
         | None \<Rightarrow>
             (let sev = no_severity\<lparr>sv_Type := ''OTHER'', sv_Source := source, sv_Provider := trim_space ty\<rparr> in
              Some (case parse_float score of
                      Some n \<Rightarrow> sev\<lparr>sv_Score := n, sv_Rating := RatingFromScore n\<rparr>
                    | None \<Rightarrow> sev\<lparr>sv_Rating := to_upper score\<rparr>))))"

definition fill_band :: "string \<Rightarrow> Severity \<Rightarrow> Severity" where
  "fill_band band sev =
     (if sv_Score sev = 0 \<and> sv_Rating sev = [] \<and> band \<noteq> [] then sev\<lparr>sv_Rating := band\<rparr> else sev)"

definition record_severities :: "(string \<Rightarrow> rat option) \<Rightarrow> string \<Rightarrow> OSV \<Rightarrow> Severity list" where
  "record_severities parse_float source doc =
     (let band = qualitativeBand (osv_Band doc);
          sevs = List.map_filter (\<lambda>s. map_option (fill_band band) (osvSeverity parse_float (sc_Type s) (sc_Score s) source))
                   (osv_Severity doc)
      in if sevs = [] \<and> band \<noteq> []
         then [no_severity\<lparr>sv_Type := ''OTHER'', sv_Rating := band, sv_Source := source\<rparr>]
         else sevs)"

definition package_severities :: "(string \<Rightarrow> rat option) \<Rightarrow> string \<Rightarrow> osvAffected \<Rightarrow> Severity list" where
  "package_severities parse_float source a =
     List.map_filter (\<lambda>s. map_option (\<lambda>sev. sev\<lparr>sv_Provider := oa_Name a\<rparr>)
         (osvSeverity parse_float (sc_Type s) (sc_Score s) source))
       (oa_Severity a)"

section \<open>The record\<close>

definition osv_reference :: "string \<Rightarrow> osvReference \<Rightarrow> Reference" where
  "osv_reference source r =
     \<lparr>rf_URL = og_URL r, rf_Name = [], rf_Tags = (if og_Type r \<noteq> [] then [to_lower (og_Type r)] else []), rf_Source = source\<rparr>"

definition osv_row :: "string \<Rightarrow> osvAffected \<Rightarrow> AffectedRow" where
  "osv_row source a =
     no_row\<lparr>af_Ecosystem := oa_Ecosystem a, af_Product := oa_Name a, af_PURL := oa_PURL a,
       af_Versions := oa_Versions a, af_CPEs := DedupeStrings (oa_CPEs a @ [oa_CPE a]), af_Source := source,
       af_Ranges := concat (map (\<lambda>rg. osvRanges (or_Type rg) (or_Repo rg) (or_Events rg)) (oa_Ranges a))\<rparr>"

definition OSVToModel :: "(string \<Rightarrow> string \<Rightarrow> 't option) \<Rightarrow> (string \<Rightarrow> rat option) \<Rightarrow> string + OSV \<Rightarrow> string
    \<Rightarrow> parse_error + 't Vulnerability" where
  "OSVToModel time_parse parse_float decoded source =
     (case decoded of
        Inl e \<Rightarrow> Inl (Undecodable e)
      | Inr doc \<Rightarrow>
          if trim_space (osv_ID doc) = [] then Inl NoID
          else
            (let vid = NormalizeID (osv_ID doc);
                 withdrawn = ParseTime time_parse (osv_Withdrawn doc);
                 (aliases, related) = osv_identity vid doc
             in Inr (no_vulnerability\<lparr>
                  v_ID := vid, v_Title := osv_Summary doc, v_Description := osv_Details doc,
                  v_Published := ParseTime time_parse (osv_Published doc),
                  v_Modified := ParseTime time_parse (osv_Modified doc), v_Withdrawn := withdrawn,
                  v_State := (if withdrawn \<noteq> None then ''WITHDRAWN'' else ''PUBLISHED''),
                  v_Aliases := aliases, v_Related := related, v_CWEs := DedupeStrings (osv_CWEIDs doc),
                  v_Severities := record_severities parse_float source doc
                                  @ concat (map (package_severities parse_float source) (osv_Affected doc)),
                  v_References := map (osv_reference source) (filter (\<lambda>r. og_URL r \<noteq> []) (osv_References doc)),
                  v_Affected := map (osv_row source) (osv_Affected doc),
                  v_Source := source, v_SourceRecordID := osv_ID doc\<rparr>)))"

section \<open>Identity of a record\<close>

lemma set_removeSelf: "set (removeSelf ids self) = {i \<in> set ids. self = [] \<or> \<not> equal_fold i self}"
  by (auto simp: removeSelf_def)

lemma set_DedupeStrings: "set (DedupeStrings xs) = trim_space ` set xs - {[]}"
  using DedupeStrings_props [of xs] by blast

lemma countCVEs_Nil [simp]: "countCVEs [] = 0"
  by (simp add: countCVEs_def)

lemma osv_identity_bundle: "osv_identity vid doc = (al, rel) \<Longrightarrow> countCVEs al \<le> 1"
  by (auto simp: osv_identity_def Let_def split: if_splits)

text \<open>The identifiers the document names besides its own.\<close>

definition named_others :: "string \<Rightarrow> OSV \<Rightarrow> string set" where
  "named_others vid doc =
     {i \<in> trim_space ` set (osv_Aliases doc @ osv_Related doc @ osv_Upstream doc). i \<noteq> [] \<and> (vid = [] \<or> \<not> equal_fold i vid)}"

lemma trim_DedupeStrings: "i \<in> set (DedupeStrings xs) \<Longrightarrow> trim_space i = i \<and> i \<noteq> []"
  by (auto simp: set_DedupeStrings)

lemma osv_identity_all:
  assumes "osv_identity vid doc = (al, rel)"
  shows "set al \<union> set rel = named_others vid doc"
proof -
  let ?c = "removeSelf (DedupeStrings (osv_Aliases doc)) vid"
  let ?r = "removeSelf (DedupeStrings (osv_Related doc @ osv_Upstream doc)) vid"
  have cr: "set ?c \<union> set ?r = named_others vid doc"
    by (auto simp: set_removeSelf set_DedupeStrings named_others_def)
  show ?thesis
  proof (cases "countCVEs ?c > 1")
    case True
    have "trim_space i = i \<and> i \<noteq> []" if "i \<in> set (?r @ ?c)" for i
      using that trim_DedupeStrings by (auto simp: set_removeSelf)
    then have "set (DedupeStrings (?r @ ?c)) = set (?r @ ?c)"
      unfolding set_DedupeStrings by (auto simp: image_iff)
    then show ?thesis using assms True cr by (auto simp: osv_identity_def Let_def)
  next
    case False
    then show ?thesis using assms cr by (simp add: osv_identity_def Let_def)
  qed
qed

lemma OSVToModel_identity:
  assumes "OSVToModel tp pf (Inr doc) source = Inr v"
  shows "v_ID v = NormalizeID (osv_ID doc) \<and> countCVEs (v_Aliases v) \<le> 1
    \<and> set (v_Aliases v) \<union> set (v_Related v) = named_others (v_ID v) doc
    \<and> set (v_Aliases v) \<subseteq> trim_space ` set (osv_Aliases doc)"
proof -
  obtain al rel where i: "osv_identity (NormalizeID (osv_ID doc)) doc = (al, rel)" by fastforce
  then have v: "v_ID v = NormalizeID (osv_ID doc)" "v_Aliases v = al" "v_Related v = rel"
    using assms by (auto simp: OSVToModel_def Let_def split: if_splits)
  have "set al \<subseteq> trim_space ` set (osv_Aliases doc)"
    using i by (auto simp: osv_identity_def Let_def set_removeSelf set_DedupeStrings split: if_splits)
  then show ?thesis unfolding v using osv_identity_bundle [OF i] osv_identity_all [OF i] by blast
qed

text \<open>One CVE spelled in two ways counts as two.\<close>

lemma countCVEs_spelling: "countCVEs (DedupeStrings [''CVE-2024-1'', ''cve-2024-1'']) = 2"
  by code_simp

section \<open>Bands of severities\<close>

lemma qualitativeBand_vocabulary: "qualitativeBand s \<in> insert [] (set bands)"
  by (simp add: qualitativeBand_def bands_def Let_def)

lemma scored_simps:
  "sv_Type (scored t x src) = t" "sv_Vector (scored t x src) = x"
  "cvssBaseScore x = None \<Longrightarrow> sv_Rating (scored t x src) = [] \<and> sv_Score (scored t x src) = 0"
  "cvssBaseScore x = Some s \<Longrightarrow> sv_Rating (scored t x src) = ratingFor t s \<and> sv_Score (scored t x src) = s"
  by (simp_all add: scored_def Let_def no_severity_def split: option.splits)

text \<open>A statement with a vector carries the score the vector computes, or none and no band.\<close>

lemma osvSeverity_vector:
  assumes "osvSeverity pf ty score src = Some sev" "sv_Vector sev \<noteq> []"
  shows "sv_Vector sev = trim_space score
    \<and> (case cvssBaseScore (sv_Vector sev) of
         None \<Rightarrow> sv_Score sev = 0 \<and> sv_Rating sev = []
       | Some x \<Rightarrow> sv_Score sev = x \<and> sv_Rating sev = ratingFor (sv_Type sev) x)"
proof -
  have "\<exists>t. sev = scored t (trim_space score) src"
    using assms by (auto simp: osvSeverity_def Let_def no_severity_def split: if_splits option.splits)
  then obtain t where "sev = scored t (trim_space score) src" by blast
  then show ?thesis using scored_simps(3,4) by (simp add: scored_simps(1,2) split: option.split)
qed

end
