(* ===== verification/Nvd.thy ===== *)
theory Nvd
  imports Osv Stable_Sort
begin

text \<open>
  \<open>internal/parse/nvd.go\<close> on a decoded record: \<open>cpeAffected\<close>, which flattens a CPE applicability tree into
  rows and serves the CVE 5 parser as well, \<open>nvdCNAAffected\<close>, and \<open>NVDToModel\<close>. Shown: the criteria in the
  rows are the vulnerable ones of the nodes that are not negated, a row is conditional exactly when its
  criteria stand under an AND of several operands, and the rows are in a fixed order, one for each vendor,
  product and condition.
\<close>

record cpeMatch =
  cm_Vulnerable :: bool
  cm_Criteria :: string
  cm_StartIncluding :: string
  cm_StartExcluding :: string
  cm_EndIncluding :: string
  cm_EndExcluding :: string

record cpeNode =
  cn_Operator :: string
  cn_Negate :: bool
  cn_CPEMatch :: "cpeMatch list"

record cpeConfiguration =
  cc_Operator :: string
  cc_Negate :: bool
  cc_Nodes :: "cpeNode list"

section \<open>Vendor and product of a CPE\<close>

text \<open>The loop over the bytes, with the attribute being read and the attributes read before it.\<close>

fun cpe_attributes :: "string \<Rightarrow> string \<Rightarrow> string list" where
  "cpe_attributes acc [] = [acc]"
| "cpe_attributes acc (c # s) =
     (if c = CHR 0x5C then (case s of d # s' \<Rightarrow> cpe_attributes (acc @ [c, d]) s' | [] \<Rightarrow> [acc @ [c]])
      else if c = CHR '':'' then acc # cpe_attributes [] s
      else cpe_attributes (acc @ [c]) s)"

definition cpeVendorProduct :: "string \<Rightarrow> string \<times> string" where
  "cpeVendorProduct cpe =
     (let parts = cpe_attributes [] cpe in if length parts < 5 then ([], []) else (parts ! 3, parts ! 4))"

section \<open>The applicability tree\<close>

type_synonym cpe_key = "string \<times> string \<times> bool"

record tree_state =
  ts_order :: "cpe_key list"
  ts_cpes :: "cpe_key \<Rightarrow> string list"
  ts_ranges :: "cpe_key \<Rightarrow> VersionRange list"

definition match_range :: "cpeMatch \<Rightarrow> VersionRange" where
  "match_range m =
     \<lparr>Introduced = (if cm_StartIncluding m \<noteq> [] then cm_StartIncluding m
        else if cm_StartExcluding m \<noteq> [] then cm_StartExcluding m @ '' (exclusive)'' else []),
      Fixed = cm_EndExcluding m,
      LastAffected = (if cm_EndExcluding m \<noteq> [] then [] else cm_EndIncluding m),
      RangeType = ''CPE'', RangeCPE = cm_Criteria m, Limit = [], Repo = []\<rparr>"

definition states_bound :: "VersionRange \<Rightarrow> bool" where
  "states_bound r \<longleftrightarrow> Introduced r \<noteq> [] \<or> Fixed r \<noteq> [] \<or> LastAffected r \<noteq> []"

definition match_key :: "bool \<Rightarrow> cpeMatch \<Rightarrow> cpe_key" where
  "match_key conditional m = (let (vendor, product) = cpeVendorProduct (cm_Criteria m) in (vendor, product, conditional))"

definition tree_step :: "bool \<times> cpeMatch \<Rightarrow> tree_state \<Rightarrow> tree_state" where
  "tree_step cm s =
     (let (conditional, m) = cm in
      if \<not> cm_Vulnerable m \<or> cm_Criteria m = [] then s
      else
        (let k = match_key conditional m;
             r = match_range m;
             s = (if ts_cpes s k = [] then s\<lparr>ts_order := ts_order s @ [k]\<rparr> else s);
             s = s\<lparr>ts_cpes := (ts_cpes s)(k := ts_cpes s k @ [cm_Criteria m])\<rparr>
         in if states_bound r then s\<lparr>ts_ranges := (ts_ranges s)(k := ts_ranges s k @ [r])\<rparr> else s))"

definition is_AND :: "string \<Rightarrow> bool" where
  "is_AND operator \<longleftrightarrow> equal_fold (trim_space operator) ''AND''"

text \<open>The matches in the order of the three loops, each with the condition it stands under.\<close>

definition node_matches :: "bool \<Rightarrow> cpeNode \<Rightarrow> (bool \<times> cpeMatch) list" where
  "node_matches configAND node =
     (if cn_Negate node then []
      else map (Pair (configAND \<or> (is_AND (cn_Operator node) \<and> length (cn_CPEMatch node) > 1))) (cn_CPEMatch node))"

definition config_matches :: "cpeConfiguration \<Rightarrow> (bool \<times> cpeMatch) list" where
  "config_matches cfg =
     (if cc_Negate cfg then []
      else concat (map (node_matches (is_AND (cc_Operator cfg) \<and> length (cc_Nodes cfg) > 1)) (cc_Nodes cfg)))"

definition tree_start :: tree_state where
  "tree_start = \<lparr>ts_order = [], ts_cpes = (\<lambda>_. []), ts_ranges = (\<lambda>_. [])\<rparr>"

definition key_less :: "cpe_key \<Rightarrow> cpe_key \<Rightarrow> bool" where
  "key_less a b \<longleftrightarrow>
     (case (a, b) of ((va, pa, ca), (vb, pb, cb)) \<Rightarrow>
        if va \<noteq> vb then va < vb
        else if pa \<noteq> pb then pa < pb
        else \<not> ca \<and> cb)"

definition dedupeRanges :: "VersionRange list \<Rightarrow> VersionRange list" where
  "dedupeRanges rs = (if length rs < 2 then rs else fold (\<lambda>r out. if r \<in> set out then out else out @ [r]) rs [])"

definition tree_row :: "string \<Rightarrow> tree_state \<Rightarrow> cpe_key \<Rightarrow> AffectedRow" where
  "tree_row source s k =
     (case k of (vendor, product, conditional) \<Rightarrow>
        no_row\<lparr>af_Vendor := vendor, af_Product := product, af_CPEs := DedupeStrings (ts_cpes s k),
          af_Ranges := dedupeRanges (ts_ranges s k),
          af_Status := (if conditional then status_text StatusConditional else []), af_Source := source\<rparr>)"

definition cpeAffected :: "cpeConfiguration list \<Rightarrow> string \<Rightarrow> AffectedRow list" where
  "cpeAffected configs source =
     (let s = fold tree_step (concat (map config_matches configs)) tree_start
      in map (tree_row source s) (sort_stable key_less (ts_order s)))"

section \<open>What the tree yields\<close>

text \<open>The matches that count, each with the condition it stands under.\<close>

definition live :: "bool \<times> cpeMatch \<Rightarrow> bool" where
  "live cm \<longleftrightarrow> cm_Vulnerable (snd cm) \<and> cm_Criteria (snd cm) \<noteq> []"

definition live_matches :: "cpeConfiguration list \<Rightarrow> (bool \<times> cpeMatch) list" where
  "live_matches configs = filter live (concat (map config_matches configs))"

definition key_of :: "bool \<times> cpeMatch \<Rightarrow> cpe_key" where
  "key_of cm = match_key (fst cm) (snd cm)"

definition of_key :: "cpe_key \<Rightarrow> (bool \<times> cpeMatch) list \<Rightarrow> cpeMatch list" where
  "of_key k cms = map snd (filter (\<lambda>cm. key_of cm = k) cms)"

lemma tree_step_dead: "\<not> live cm \<Longrightarrow> tree_step cm s = s"
  by (auto simp: tree_step_def live_def split: prod.splits)

lemma tree_step_live:
  assumes "live cm"
  shows "ts_order (tree_step cm s) = (if ts_cpes s (key_of cm) = [] then ts_order s @ [key_of cm] else ts_order s)"
    "ts_cpes (tree_step cm s) = (ts_cpes s)(key_of cm := ts_cpes s (key_of cm) @ [cm_Criteria (snd cm)])"
    "ts_ranges (tree_step cm s) =
       (ts_ranges s)(key_of cm := ts_ranges s (key_of cm) @ filter states_bound [match_range (snd cm)])"
  using assms by (auto simp: tree_step_def live_def key_of_def Let_def fun_eq_iff split: prod.splits)

lemma fold_tree_live: "fold tree_step cms s = fold tree_step (filter live cms) s"
  by (induction cms arbitrary: s) (simp_all add: tree_step_dead)

lemma of_key_simps [simp]:
  "of_key k [] = []" "of_key k (cm # cms) = (if key_of cm = k then snd cm # of_key k cms else of_key k cms)"
  by (simp_all add: of_key_def)

lemma fold_tree:
  assumes "list_all live cms" "set (ts_order s) = {k. ts_cpes s k \<noteq> []}" "distinct (ts_order s)"
  shows "ts_cpes (fold tree_step cms s) k = ts_cpes s k @ map cm_Criteria (of_key k cms)
    \<and> ts_ranges (fold tree_step cms s) k = ts_ranges s k @ filter states_bound (map match_range (of_key k cms))
    \<and> set (ts_order (fold tree_step cms s)) = {k. ts_cpes (fold tree_step cms s) k \<noteq> []}
    \<and> distinct (ts_order (fold tree_step cms s))"
  using assms
proof (induction cms arbitrary: s)
  case Nil
  then show ?case by simp
next
  case (Cons cm cms)
  have l: "live cm" using Cons.prems(1) by simp
  note step = tree_step_live [OF l, of s]
  have o: "set (ts_order (tree_step cm s)) = {k. ts_cpes (tree_step cm s) k \<noteq> []}"
  proof -
    have "{k. ts_cpes (tree_step cm s) k \<noteq> []} = insert (key_of cm) {k. ts_cpes s k \<noteq> []}"
      unfolding step(2) by auto
    moreover have "set (ts_order (tree_step cm s)) = insert (key_of cm) (set (ts_order s))"
      unfolding step(1) using Cons.prems(2) by simp blast
    ultimately show ?thesis using Cons.prems(2) by simp
  qed
  have d: "distinct (ts_order (tree_step cm s))"
    unfolding step(1) using Cons.prems(2,3) by simp
  have "list_all live cms" using Cons.prems(1) by simp
  from Cons.IH [OF this o d] show ?case by (simp add: step)
qed

lemma cpeAffected_rows:
  obtains s where "cpeAffected configs source = map (tree_row source s) (sort_stable key_less (ts_order s))"
    "ts_cpes s = (\<lambda>k. map cm_Criteria (of_key k (live_matches configs)))"
    "ts_ranges s = (\<lambda>k. filter states_bound (map match_range (of_key k (live_matches configs))))"
    "set (ts_order s) = key_of ` set (live_matches configs)" "distinct (ts_order s)"
proof -
  let ?s = "fold tree_step (concat (map config_matches configs)) tree_start"
  have s: "?s = fold tree_step (live_matches configs) tree_start"
    unfolding live_matches_def by (rule fold_tree_live)
  have "list_all live (live_matches configs)" by (simp add: live_matches_def list_all_iff)
  moreover have "set (ts_order tree_start) = {k. ts_cpes tree_start k \<noteq> []}" "distinct (ts_order tree_start)"
    by (simp_all add: tree_start_def)
  ultimately have f: "ts_cpes ?s k = ts_cpes tree_start k @ map cm_Criteria (of_key k (live_matches configs))"
    "ts_ranges ?s k = ts_ranges tree_start k @ filter states_bound (map match_range (of_key k (live_matches configs)))"
    "set (ts_order ?s) = {k. ts_cpes ?s k \<noteq> []}" "distinct (ts_order ?s)" for k
    using fold_tree [of "live_matches configs" tree_start k] unfolding s by blast+
  have c: "ts_cpes ?s k = map cm_Criteria (of_key k (live_matches configs))"
    "ts_ranges ?s k = filter states_bound (map match_range (of_key k (live_matches configs)))" for k
    unfolding f(1,2) by (simp_all add: tree_start_def)
  have "of_key k cms \<noteq> [] \<longleftrightarrow> k \<in> key_of ` set cms" for k cms
    by (auto simp: of_key_def filter_empty_conv image_iff)
  then have o: "set (ts_order ?s) = key_of ` set (live_matches configs)" unfolding f(3) c(1) by auto
  have "cpeAffected configs source = map (tree_row source ?s) (sort_stable key_less (ts_order ?s))"
    by (simp add: cpeAffected_def Let_def)
  moreover have "ts_cpes ?s = (\<lambda>k. map cm_Criteria (of_key k (live_matches configs)))"
    "ts_ranges ?s = (\<lambda>k. filter states_bound (map match_range (of_key k (live_matches configs))))"
    using c by blast+
  ultimately show thesis using o f(4) by (rule that)
qed

lemma key_less_swo: "strict_weak_order key_less"
proof
  fix x y z
  show "key_less x y \<Longrightarrow> \<not> key_less y x"
    by (auto simp: key_less_def split: if_splits prod.splits)
  show "\<not> key_less x y \<Longrightarrow> \<not> key_less y z \<Longrightarrow> \<not> key_less x z"
    by (auto simp: key_less_def split: if_splits prod.splits)
qed

interpretation key_order: strict_weak_order key_less
  by (rule key_less_swo)

lemma key_less_total: "\<not> key_less a b \<Longrightarrow> \<not> key_less b a \<Longrightarrow> a = b"
  by (auto simp: key_less_def split: if_splits prod.splits)

text \<open>The key a row stands for.\<close>

definition row_key :: "AffectedRow \<Rightarrow> cpe_key" where
  "row_key r = (af_Vendor r, af_Product r, af_Status r \<noteq> [])"

lemma row_key_tree [simp]: "row_key (tree_row source s k) = k"
  by (cases k) (auto simp: row_key_def tree_row_def status_text_def no_row_def)

lemma cpeAffected_keys:
  "set (map row_key (cpeAffected configs source)) = key_of ` set (live_matches configs)"
  "distinct (map row_key (cpeAffected configs source))"
  "sorted_wrt key_less (map row_key (cpeAffected configs source))"
proof -
  obtain s where s: "cpeAffected configs source = map (tree_row source s) (sort_stable key_less (ts_order s))"
    "ts_cpes s = (\<lambda>k. map cm_Criteria (of_key k (live_matches configs)))"
    "ts_ranges s = (\<lambda>k. filter states_bound (map match_range (of_key k (live_matches configs))))"
    "set (ts_order s) = key_of ` set (live_matches configs)" "distinct (ts_order s)"
    using cpeAffected_rows [of configs source] by blast
  let ?ks = "sort_stable key_less (ts_order s)"
  have m: "map row_key (cpeAffected configs source) = ?ks" by (simp add: s(1) comp_def)
  have ms: "mset ?ks = mset (ts_order s)" by (rule key_order.sort_stable_mset)
  then have st: "set ?ks = set (ts_order s)" by (rule mset_eq_setD)
  have d: "distinct ?ks" using ms s(5) mset_eq_imp_distinct_iff by blast
  show "set (map row_key (cpeAffected configs source)) = key_of ` set (live_matches configs)"
    unfolding m st s(4) ..
  show "distinct (map row_key (cpeAffected configs source))" unfolding m by (rule d)
  have "sorted_wrt (\<lambda>x y. \<not> key_less y x) ?ks"
    using key_order.sort_stable_in_order [of "ts_order s"] by (simp add: key_order.in_order_def)
  then show "sorted_wrt key_less (map row_key (cpeAffected configs source))"
    unfolding m using d key_less_total by (rule sorted_strict)
qed

lemma cpeAffected_criteria:
  assumes "r \<in> set (cpeAffected configs source)"
  shows "set (af_CPEs r) = trim_space ` cm_Criteria ` set (of_key (row_key r) (live_matches configs)) - {[]}"
proof -
  obtain s where s: "cpeAffected configs source = map (tree_row source s) (sort_stable key_less (ts_order s))"
    "ts_cpes s = (\<lambda>k. map cm_Criteria (of_key k (live_matches configs)))"
    "ts_ranges s = (\<lambda>k. filter states_bound (map match_range (of_key k (live_matches configs))))"
    "set (ts_order s) = key_of ` set (live_matches configs)" "distinct (ts_order s)"
    using cpeAffected_rows [of configs source] by blast
  obtain k where k: "r = tree_row source s k" using assms unfolding s(1) by auto
  have "af_CPEs r = DedupeStrings (ts_cpes s k)" by (cases k) (simp add: k tree_row_def)
  then show ?thesis by (simp add: s(2) set_DedupeStrings k)
qed

lemma set_dedupeRanges: "set (dedupeRanges rs) = set rs"
proof -
  have "set (fold (\<lambda>r out. if r \<in> set out then out else out @ [r]) rs out) = set out \<union> set rs" for out
    by (induction rs arbitrary: out) auto
  then show ?thesis by (simp add: dedupeRanges_def)
qed

lemma cpeAffected_ranges:
  assumes "r \<in> set (cpeAffected configs source)"
  shows "set (af_Ranges r) = {w \<in> match_range ` set (of_key (row_key r) (live_matches configs)). states_bound w}"
proof -
  obtain s where s: "cpeAffected configs source = map (tree_row source s) (sort_stable key_less (ts_order s))"
    "ts_cpes s = (\<lambda>k. map cm_Criteria (of_key k (live_matches configs)))"
    "ts_ranges s = (\<lambda>k. filter states_bound (map match_range (of_key k (live_matches configs))))"
    "set (ts_order s) = key_of ` set (live_matches configs)" "distinct (ts_order s)"
    using cpeAffected_rows [of configs source] by blast
  obtain k where k: "r = tree_row source s k" using assms unfolding s(1) by auto
  have "af_Ranges r = dedupeRanges (ts_ranges s k)" by (cases k) (simp add: k tree_row_def)
  then show ?thesis by (auto simp: s(3) set_dedupeRanges k)
qed

section \<open>The CNA's own product view\<close>

record nvdVersion =
  nv_Version :: string
  nv_Status :: string
  nv_LessThan :: string
  nv_LessThanOrEqual :: string

record nvdProduct =
  np_Vendor :: string
  np_Product :: string
  np_PackageName :: string
  np_Versions :: "nvdVersion list"

definition not_na :: "string \<Rightarrow> string" where
  "not_na s = (if equal_fold s ''n/a'' then [] else s)"

definition bare_range :: "string \<Rightarrow> string \<Rightarrow> string \<Rightarrow> VersionRange" where
  "bare_range introduced fix until = \<lparr>Introduced = introduced, Fixed = fix, LastAffected = until, RangeType = [],
     RangeCPE = [], Limit = [], Repo = []\<rparr>"

definition add_version :: "nvdVersion \<Rightarrow> AffectedRow \<Rightarrow> AffectedRow" where
  "add_version ver target =
     (if nv_LessThan ver \<noteq> [] then
        target\<lparr>af_Ranges := af_Ranges target @ [bare_range (nv_Version ver) (nv_LessThan ver) []]\<rparr>
      else if nv_LessThanOrEqual ver \<noteq> [] then
        target\<lparr>af_Ranges := af_Ranges target @ [bare_range (nv_Version ver) [] (nv_LessThanOrEqual ver)]\<rparr>
      else if nv_Version ver \<noteq> [] \<and> \<not> equal_fold (nv_Version ver) ''n/a'' then
        target\<lparr>af_Versions := af_Versions target @ [nv_Version ver]\<rparr>
      else target)"

text \<open>The two rows a product is read into: the claim and the exceptions.\<close>

definition cna_step :: "nvdVersion \<Rightarrow> AffectedRow \<times> AffectedRow \<Rightarrow> AffectedRow \<times> AffectedRow" where
  "cna_step ver rows =
     (case rows of (af, unaffected) \<Rightarrow>
        if nv_Status ver = [] \<or> equal_fold (nv_Status ver) ''affected'' then (add_version ver af, unaffected)
        else if equal_fold (nv_Status ver) ''unaffected'' then (af, add_version ver unaffected)
        else (af, unaffected))"

definition cna_product :: "string \<Rightarrow> nvdProduct \<Rightarrow> AffectedRow list" where
  "cna_product source d =
     (let product = not_na (if np_Product d = [] then np_PackageName d else np_Product d);
          vendor = not_na (np_Vendor d)
      in if vendor = [] \<and> product = [] then []
         else
           (let af = no_row\<lparr>af_Vendor := vendor, af_Product := product, af_Source := source\<rparr>;
                (af, unaffected) =
                  fold cna_step (np_Versions d) (af, af\<lparr>af_Status := status_text StatusNotAffected\<rparr>)
            in af # (if af_Ranges unaffected \<noteq> [] \<or> af_Versions unaffected \<noteq> [] then [unaffected] else [])))"

definition nvdCNAAffected :: "nvdProduct list list \<Rightarrow> string \<Rightarrow> AffectedRow list" where
  "nvdCNAAffected affected source = concat (map (cna_product source) (concat affected))"

section \<open>The record\<close>

fun find_first :: "('a \<Rightarrow> bool) \<Rightarrow> 'a list \<Rightarrow> 'a option" where
  "find_first P [] = None"
| "find_first P (x # xs) = (if P x then Some x else find_first P xs)"

record nvdMetric =
  nm_Source :: string
  nm_VectorString :: string
  nm_BaseScore :: rat
  nm_DataSeverity :: string
  nm_BaseSeverity :: string

record nvdOption =
  no_Exploitation :: string
  no_Automatable :: string
  no_TechnicalImpact :: string

record nvdSSVC =
  ns_Source :: string
  ns_Options :: "nvdOption list"
  ns_Version :: string
  ns_Timestamp :: string

text \<open>An element of \<open>cveTags\<close> is a string or an object with a list of them.\<close>

datatype tag_element = TagString string | TagObject "string list"

fun element_tags :: "tag_element \<Rightarrow> string list" where
  "element_tags (TagString t) = [t]"
| "element_tags (TagObject ts) = ts"

record NVDCVE =
  n_ID :: string
  n_Published :: string
  n_LastModified :: string
  n_VulnStatus :: string
  n_CVETags :: "tag_element list"
  n_Descriptions :: "(string \<times> string) list"
  n_V40 :: "nvdMetric list"
  n_V31 :: "nvdMetric list"
  n_V30 :: "nvdMetric list"
  n_V2 :: "nvdMetric list"
  n_SSVC :: "nvdSSVC list"
  n_Weaknesses :: "string list list"
  n_Affected :: "nvdProduct list list"
  n_Configurations :: "cpeConfiguration list"
  n_References :: "(string \<times> string list) list"

definition nvdState :: "string \<Rightarrow> string" where
  "nvdState status = (if equal_fold (trim_space status) ''rejected'' then ''REJECTED'' else ''PUBLISHED'')"

definition nvd_severity :: "string \<Rightarrow> string \<Rightarrow> nvdMetric \<Rightarrow> Severity" where
  "nvd_severity source ty m =
     \<lparr>sv_Type = ty, sv_Score = nm_BaseScore m, sv_Vector = nm_VectorString m,
      sv_Rating = (if nm_DataSeverity m \<noteq> [] then to_upper (nm_DataSeverity m)
                   else if nm_BaseSeverity m \<noteq> [] then to_upper (nm_BaseSeverity m)
                   else if nm_BaseScore m > 0 then ratingFor ty (nm_BaseScore m) else []),
      sv_Provider = nm_Source m, sv_Source = source\<rparr>"

definition append_metrics :: "string \<Rightarrow> nvdMetric list \<Rightarrow> string \<Rightarrow> Severity list" where
  "append_metrics source ms ty = map (nvd_severity source ty) (filter (\<lambda>m. nm_VectorString m \<noteq> []) ms)"

definition ssvc_step :: "string \<Rightarrow> nvdSSVC \<times> nvdOption \<Rightarrow> SSVC option \<Rightarrow> SSVC option" where
  "ssvc_step source so acc =
     (case so of (s, opt) \<Rightarrow>
        if no_Exploitation opt = [] \<and> no_Automatable opt = [] \<and> no_TechnicalImpact opt = [] then acc
        else
          (let c0 = (case acc of
                 Some c \<Rightarrow> c
               | None \<Rightarrow> \<lparr>ss_Exploitation = [], ss_Automatable = [], ss_TechnicalImpact = [],
                    ss_Version = ns_Version s, ss_Timestamp = ns_Timestamp s,
                    ss_Source = (if ns_Source s \<noteq> [] then source @ ''/'' @ ns_Source s else source)\<rparr>)
           in Some (c0\<lparr>
                ss_Exploitation := (if no_Exploitation opt \<noteq> [] then to_lower (no_Exploitation opt) else ss_Exploitation c0),
                ss_Automatable := (if no_Automatable opt \<noteq> [] then to_lower (no_Automatable opt) else ss_Automatable c0),
                ss_TechnicalImpact := (if no_TechnicalImpact opt \<noteq> [] then to_lower (no_TechnicalImpact opt)
                                       else ss_TechnicalImpact c0)\<rparr>)))"

definition nvd_ssvc :: "string \<Rightarrow> nvdSSVC list \<Rightarrow> SSVC option" where
  "nvd_ssvc source ss = fold (ssvc_step source) (concat (map (\<lambda>s. map (Pair s) (ns_Options s)) ss)) None"

definition NVDToModel :: "(string \<Rightarrow> string \<Rightarrow> 't option) \<Rightarrow> string + NVDCVE \<Rightarrow> string \<Rightarrow> parse_error + 't Vulnerability" where
  "NVDToModel time_parse decoded source =
     (case decoded of
        Inl e \<Rightarrow> Inl (Undecodable e)
      | Inr rec \<Rightarrow>
          (let vid = NormalizeID (n_ID rec) in
           if vid = [] then Inl NoID
           else Inr (no_vulnerability\<lparr>
             v_ID := vid, v_State := nvdState (n_VulnStatus rec),
             v_EnrichmentStatus := trim_space (n_VulnStatus rec),
             v_Tags := DedupeStrings (concat (map element_tags (n_CVETags rec))),
             v_Published := ParseTime time_parse (n_Published rec),
             v_Modified := ParseTime time_parse (n_LastModified rec),
             v_Source := source, v_SourceRecordID := vid,
             v_Description := (case find_first (\<lambda>d. equal_fold (fst d) ''en'') (n_Descriptions rec) of
                                 Some d \<Rightarrow> snd d | None \<Rightarrow> []),
             v_CWEs := DedupeStrings (filter (\<lambda>w. has_prefix w ''CWE-'') (concat (n_Weaknesses rec))),
             v_Severities := append_metrics source (n_V40 rec) ''CVSS_V4_0'' @ append_metrics source (n_V31 rec) ''CVSS_V3_1''
                             @ append_metrics source (n_V30 rec) ''CVSS_V3_0'' @ append_metrics source (n_V2 rec) ''CVSS_V2'',
             v_SSVC := nvd_ssvc source (n_SSVC rec),
             v_References := map (\<lambda>(url, tags). \<lparr>rf_URL = url, rf_Name = [], rf_Tags = tags, rf_Source = source\<rparr>)
                               (filter (\<lambda>(url, _). url \<noteq> []) (n_References rec)),
             v_Affected := cpeAffected (n_Configurations rec) source @ nvdCNAAffected (n_Affected rec) source\<rparr>)))"

section \<open>Claims and exceptions stay apart\<close>

text \<open>The reference reading of a product's versions by status.\<close>

definition claims :: "nvdVersion \<Rightarrow> bool" where
  "claims ver \<longleftrightarrow> nv_Status ver = [] \<or> equal_fold (nv_Status ver) ''affected''"

definition excepts :: "nvdVersion \<Rightarrow> bool" where
  "excepts ver \<longleftrightarrow> \<not> claims ver \<and> equal_fold (nv_Status ver) ''unaffected''"

lemma fold_cna_step:
  "fold cna_step vers (af, un) = (fold add_version (filter claims vers) af, fold add_version (filter excepts vers) un)"
  by (induction vers arbitrary: af un) (simp_all add: cna_step_def claims_def excepts_def)

definition version_ranges :: "nvdVersion list \<Rightarrow> VersionRange list" where
  "version_ranges vers =
     List.map_filter (\<lambda>ver. if nv_LessThan ver \<noteq> [] then Some (bare_range (nv_Version ver) (nv_LessThan ver) [])
        else if nv_LessThanOrEqual ver \<noteq> [] then Some (bare_range (nv_Version ver) [] (nv_LessThanOrEqual ver))
        else None) vers"

definition version_list :: "nvdVersion list \<Rightarrow> string list" where
  "version_list vers =
     map nv_Version (filter (\<lambda>ver. nv_LessThan ver = [] \<and> nv_LessThanOrEqual ver = [] \<and> nv_Version ver \<noteq> []
        \<and> \<not> equal_fold (nv_Version ver) ''n/a'') vers)"

lemma fold_add_version:
  "fold add_version vers row =
     row\<lparr>af_Ranges := af_Ranges row @ version_ranges vers, af_Versions := af_Versions row @ version_list vers\<rparr>"
  by (induction vers arbitrary: row) (simp_all add: add_version_def version_ranges_def version_list_def map_filter_simps)

lemma cna_product_rows:
  assumes "row \<in> set (cna_product source d)"
  shows "(af_Status row = [] \<and> af_Ranges row = version_ranges (filter claims (np_Versions d))
        \<and> af_Versions row = version_list (filter claims (np_Versions d)))
    \<or> (af_Status row = status_text StatusNotAffected \<and> af_Ranges row = version_ranges (filter excepts (np_Versions d))
        \<and> af_Versions row = version_list (filter excepts (np_Versions d)))"
  using assms
  by (auto simp: cna_product_def Let_def fold_cna_step fold_add_version no_row_def split: if_splits)

end
