(* ===== verification/Cve5.thy ===== *)
theory Cve5
  imports Nvd
begin

text \<open>
  \<open>internal/parse/cve5.go\<close> on a decoded CVE record: the containers, the applicability rows a status each, the
  intervals of a version entry with changes, the severities and the SSVC decision. Maps that are iterated are
  lists in the order of the iteration. Shown: the intervals of an entry with changes partition the interval
  it declares, each status has one row and no other row inherits the default, and a product that is affected
  by default, or lists no version, keeps its positive row.
\<close>

record cveChange =
  cg_At :: string
  cg_Status :: string

record cveVersion =
  cv_Version :: string
  cv_Status :: string
  cv_LessThan :: string
  cv_LessThanOrEqual :: string
  cv_VersionType :: string
  cv_Changes :: "cveChange list"

record cveAffected =
  ca_Vendor :: string
  ca_Product :: string
  ca_PackageName :: string
  ca_CPEs :: "string list"
  ca_PackageURL :: string
  ca_DefaultStatus :: string
  ca_Versions :: "cveVersion list"

record cvssBlock =
  cb_BaseScore :: rat
  cb_VectorString :: string
  cb_BaseSeverity :: string

record cveOther =
  mo_Type :: string
  mo_Version :: string
  mo_Time :: string
  mo_Options :: "(string \<times> string) list list"

record cveMetric =
  mt_V40 :: "cvssBlock option"
  mt_V31 :: "cvssBlock option"
  mt_V30 :: "cvssBlock option"
  mt_V20 :: "cvssBlock option"
  mt_Other :: "cveOther option"

record cveContainer =
  co_ShortName :: string
  co_Title :: string
  co_Tags :: "string list"
  co_Descriptions :: "(string \<times> string) list"
  co_RejectedReasons :: "(string \<times> string) list"
  co_Affected :: "cveAffected list"
  co_References :: "(string \<times> string \<times> string list) list"
  co_ProblemTypes :: "string list list"
  co_Metrics :: "cveMetric list"
  co_CPEApplicability :: "cpeConfiguration list"

record CVE5 =
  c5_CVEID :: string
  c5_AssignerShortName :: string
  c5_State :: string
  c5_DatePublished :: string
  c5_DateUpdated :: string
  c5_DateRejected :: string
  c5_CNA :: cveContainer
  c5_ADP :: "cveContainer list"

section \<open>Rows by status\<close>

type_synonym status_rows = "Status \<Rightarrow> AffectedRow option"

definition status_of :: "string \<Rightarrow> Status" where
  "status_of raw =
     (if trim_space raw = [] then StatusAffected
      else case NormalizeStatus raw of None \<Rightarrow> StatusUnderInvestigation | Some s \<Rightarrow> s)"

definition identity_row :: "string \<Rightarrow> cveAffected \<Rightarrow> AffectedRow" where
  "identity_row source a =
     no_row\<lparr>af_Vendor := ca_Vendor a, af_Product := (if ca_Product a = [] then ca_PackageName a else ca_Product a),
       af_PURL := ca_PackageURL a, af_CPEs := DedupeStrings (ca_CPEs a), af_Source := source\<rparr>"

definition new_row :: "string \<Rightarrow> cveAffected \<Rightarrow> Status \<Rightarrow> AffectedRow" where
  "new_row source a st =
     (identity_row source a)\<lparr>af_Status := status_text st,
       af_DefaultState := (if st = StatusAffected then ca_DefaultStatus a else [])\<rparr>"

text \<open>\<open>rowFor\<close>, with what the caller then does to the row.\<close>

definition with_row :: "string \<Rightarrow> cveAffected \<Rightarrow> string \<Rightarrow> (AffectedRow \<Rightarrow> AffectedRow) \<Rightarrow> status_rows \<Rightarrow> status_rows" where
  "with_row source a raw f rows =
     (let st = status_of raw;
          row = (case rows st of Some r \<Rightarrow> r | None \<Rightarrow> new_row source a st)
      in rows(st \<mapsto> f row))"

definition appendInterval :: "string \<Rightarrow> string \<Rightarrow> string \<Rightarrow> string \<Rightarrow> AffectedRow \<Rightarrow> AffectedRow" where
  "appendInterval start0 endExclusive0 endInclusive0 ty row =
     (let start = trim_space start0; endExclusive = trim_space endExclusive0; endInclusive = trim_space endInclusive0 in
      if start = [] \<and> endExclusive = [] \<and> endInclusive = [] then row
      else row\<lparr>af_Ranges := af_Ranges row @
        [\<lparr>Introduced = start, Fixed = endExclusive, LastAffected = endInclusive, RangeType = to_upper ty,
          RangeCPE = [], Limit = [], Repo = []\<rparr>]\<rparr>)"

definition plain_version :: "cveVersion \<Rightarrow> AffectedRow \<Rightarrow> AffectedRow" where
  "plain_version ver row =
     (if cv_LessThan ver \<noteq> [] then appendInterval (cv_Version ver) (cv_LessThan ver) [] (cv_VersionType ver) row
      else if cv_LessThanOrEqual ver \<noteq> [] then
        appendInterval (cv_Version ver) [] (cv_LessThanOrEqual ver) (cv_VersionType ver) row
      else if cv_Version ver \<noteq> [] then row\<lparr>af_Versions := af_Versions row @ [cv_Version ver]\<rparr>
      else row)"

text \<open>The loop over the changes: the rows, where the open interval starts, and its status.\<close>

definition change_step :: "string \<Rightarrow> cveAffected \<Rightarrow> string \<Rightarrow> cveChange
    \<Rightarrow> status_rows \<times> string \<times> string \<Rightarrow> status_rows \<times> string \<times> string" where
  "change_step source a ty change s =
     (case s of (rows, start, status) \<Rightarrow>
        if trim_space (cg_At change) = [] then s
        else (with_row source a status (appendInterval start (cg_At change) [] ty) rows, cg_At change, cg_Status change))"

definition version_step :: "string \<Rightarrow> cveAffected \<Rightarrow> cveVersion \<Rightarrow> status_rows \<Rightarrow> status_rows" where
  "version_step source a ver rows =
     (if cv_Changes ver = [] then with_row source a (cv_Status ver) (plain_version ver) rows
      else
        (let (rows, start, status) =
               fold (change_step source a (cv_VersionType ver)) (cv_Changes ver) (rows, cv_Version ver, cv_Status ver)
         in with_row source a status
              (appendInterval start (cv_LessThan ver) (cv_LessThanOrEqual ver) (cv_VersionType ver)) rows))"

definition product_rows :: "string \<Rightarrow> cveAffected \<Rightarrow> status_rows" where
  "product_rows source a =
     (let rows = fold (version_step source a) (ca_Versions a) (\<lambda>_. None) in
      if ca_Versions a = [] \<or> NormalizeStatus (ca_DefaultStatus a) = Some StatusAffected
      then with_row source a (status_text StatusAffected) id rows else rows)"

definition emitted :: "status_rows \<Rightarrow> Status \<Rightarrow> AffectedRow option" where
  "emitted rows st =
     (case rows st of
        None \<Rightarrow> None
      | Some row \<Rightarrow>
          if st \<noteq> StatusAffected \<and> af_Ranges row = [] \<and> af_Versions row = [] then None
          else if af_Vendor row \<noteq> [] \<or> af_Product row \<noteq> [] \<or> af_CPEs row \<noteq> [] \<or> af_PURL row \<noteq> [] then Some row
          else None)"

definition cve5_affected :: "string \<Rightarrow> cveAffected \<Rightarrow> AffectedRow list" where
  "cve5_affected source a = List.map_filter (emitted (product_rows source a)) Statuses"

section \<open>Severities and SSVC\<close>

definition stated_block :: "cvssBlock option \<Rightarrow> cvssBlock option" where
  "stated_block b =
     (case b of Some c \<Rightarrow> if cb_VectorString c \<noteq> [] \<or> cb_BaseScore c > 0 then Some c else None | None \<Rightarrow> None)"

definition block_severity :: "string \<Rightarrow> string \<Rightarrow> string \<Rightarrow> (cvssBlock \<Rightarrow> string) \<Rightarrow> cvssBlock option \<Rightarrow> Severity list" where
  "block_severity ty provider source band b =
     (case stated_block b of
        None \<Rightarrow> []
      | Some c \<Rightarrow> [\<lparr>sv_Type = ty, sv_Score = cb_BaseScore c, sv_Vector = cb_VectorString c, sv_Rating = band c,
                   sv_Provider = provider, sv_Source = source\<rparr>])"

definition metricsToSeverities :: "cveMetric \<Rightarrow> string \<Rightarrow> string \<Rightarrow> Severity list" where
  "metricsToSeverities m provider source =
     (let given = (\<lambda>c. rating (cb_BaseSeverity c) (cb_BaseScore c)) in
      block_severity ''CVSS_V4_0'' provider source given (mt_V40 m)
      @ block_severity ''CVSS_V3_1'' provider source given (mt_V31 m)
      @ block_severity ''CVSS_V3_0'' provider source given (mt_V30 m)
      @ block_severity ''CVSS_V2'' provider source (\<lambda>c. RatingFromScoreV2 (cb_BaseScore c)) (mt_V20 m))"

definition option_step :: "string \<times> string \<Rightarrow> SSVC \<Rightarrow> SSVC" where
  "option_step kv s =
     (let k = to_lower (fst kv); v = to_lower (snd kv) in
      if k = ''exploitation'' then s\<lparr>ss_Exploitation := v\<rparr>
      else if k = ''automatable'' then s\<lparr>ss_Automatable := v\<rparr>
      else if k = ''technical impact'' \<or> k = ''technicalimpact'' then s\<lparr>ss_TechnicalImpact := v\<rparr>
      else s)"

definition metricToSSVC :: "cveMetric \<Rightarrow> string \<Rightarrow> string \<Rightarrow> SSVC option" where
  "metricToSSVC m provider source =
     (case mt_Other m of
        None \<Rightarrow> None
      | Some other \<Rightarrow>
          if \<not> equal_fold (mo_Type other) ''ssvc'' then None
          else
            (let s = fold option_step (concat (mo_Options other))
                   \<lparr>ss_Exploitation = [], ss_Automatable = [], ss_TechnicalImpact = [], ss_Version = mo_Version other,
                    ss_Timestamp = mo_Time other,
                    ss_Source = (if provider \<noteq> [] then source @ ''/'' @ provider else source)\<rparr>
             in if ss_Exploitation s = [] \<and> ss_Automatable s = [] \<and> ss_TechnicalImpact s = [] then None else Some s))"

section \<open>Containers and the record\<close>

definition is_english :: "string \<Rightarrow> bool" where
  "is_english lang \<longleftrightarrow> equal_fold lang ''en'' \<or> has_prefix (to_lower lang) ''en''"

definition applyContainer :: "cveContainer \<Rightarrow> string \<Rightarrow> string \<Rightarrow> bool \<Rightarrow> 't Vulnerability \<Rightarrow> 't Vulnerability" where
  "applyContainer c provider source isCNA v = v\<lparr>
     v_Tags := v_Tags v @ co_Tags c,
     v_Title := (if isCNA then co_Title c else v_Title v),
     v_Description :=
       (case find_first (\<lambda>d. is_english (fst d)) (co_Descriptions c) of
          Some d \<Rightarrow> if v_Description v = [] \<or> isCNA then snd d else v_Description v
        | None \<Rightarrow> v_Description v),
     v_CWEs := v_CWEs v @ filter (\<lambda>w. w \<noteq> []) (concat (co_ProblemTypes c)),
     v_References := v_References v @
       map (\<lambda>(url, name, tags). \<lparr>rf_URL = url, rf_Name = name, rf_Tags = tags, rf_Source = source\<rparr>)
         (filter (\<lambda>(url, _). url \<noteq> []) (co_References c)),
     v_Affected := v_Affected v @ concat (map (cve5_affected source) (co_Affected c))
                   @ cpeAffected (co_CPEApplicability c) source,
     v_Severities := v_Severities v @ concat (map (\<lambda>m. metricsToSeverities m provider source) (co_Metrics c)),
     v_SSVC := (case v_SSVC v of
                  Some s \<Rightarrow> Some s
                | None \<Rightarrow> Option.bind (find_first (\<lambda>m. metricToSSVC m provider source \<noteq> None) (co_Metrics c))
                            (\<lambda>m. metricToSSVC m provider source))\<rparr>"

definition container_provider :: "CVE5 \<Rightarrow> nat \<Rightarrow> cveContainer \<Rightarrow> string" where
  "container_provider rec i c =
     (if co_ShortName c \<noteq> [] then co_ShortName c else if i = 0 then c5_AssignerShortName rec else ''adp'')"

definition CVE5ToModel :: "(string \<Rightarrow> string \<Rightarrow> 't option) \<Rightarrow> string + CVE5 \<Rightarrow> string \<Rightarrow> parse_error + 't Vulnerability" where
  "CVE5ToModel time_parse decoded source =
     (case decoded of
        Inl e \<Rightarrow> Inl (Undecodable e)
      | Inr rec \<Rightarrow>
          (let vid = NormalizeID (c5_CVEID rec) in
           if vid = [] then Inl NoID
           else
             (let state = to_upper (c5_State rec);
                  rejected = (state = ''REJECTED'');
                  v = no_vulnerability\<lparr>
                    v_ID := vid, v_State := state,
                    v_Published := ParseTime time_parse (c5_DatePublished rec),
                    v_Modified := ParseTime time_parse (c5_DateUpdated rec),
                    v_AssignerShortName := c5_AssignerShortName rec, v_Source := source, v_SourceRecordID := vid,
                    v_Withdrawn := (if rejected then ParseTime time_parse (c5_DateRejected rec) else None),
                    v_Description :=
                      (if rejected then
                         (case find_first (\<lambda>d. has_prefix (to_lower (fst d)) ''en'' \<and> snd d \<noteq> []) (co_RejectedReasons (c5_CNA rec)) of
                            Some d \<Rightarrow> snd d | None \<Rightarrow> [])
                       else [])\<rparr>;
                  v = fold (\<lambda>(i, c). applyContainer c (container_provider rec i c) source (i = 0))
                        (enumerate 0 (c5_CNA rec # c5_ADP rec)) v
              in Inr (v\<lparr>v_Aliases := DedupeStrings (v_Aliases v), v_CWEs := DedupeStrings (v_CWEs v),
                    v_Tags := DedupeStrings (v_Tags v)\<rparr>))))"

section \<open>One row a status\<close>

definition row_ok :: "string \<Rightarrow> cveAffected \<Rightarrow> Status \<Rightarrow> AffectedRow \<Rightarrow> bool" where
  "row_ok source a st r \<longleftrightarrow>
     af_Status r = status_text st \<and> af_DefaultState r = (if st = StatusAffected then ca_DefaultStatus a else [])
     \<and> af_Vendor r = af_Vendor (identity_row source a) \<and> af_Product r = af_Product (identity_row source a)
     \<and> af_PURL r = ca_PackageURL a \<and> af_CPEs r = DedupeStrings (ca_CPEs a)"

definition rows_ok :: "string \<Rightarrow> cveAffected \<Rightarrow> status_rows \<Rightarrow> bool" where
  "rows_ok source a rows \<longleftrightarrow> (\<forall>st r. rows st = Some r \<longrightarrow> row_ok source a st r)"

lemma row_ok_new: "row_ok source a st (new_row source a st)"
  by (simp add: row_ok_def new_row_def identity_row_def no_row_def)

lemma rows_ok_with_row:
  assumes "rows_ok source a rows" "\<And>st r. row_ok source a st r \<Longrightarrow> row_ok source a st (f r)"
  shows "rows_ok source a (with_row source a raw f rows)"
  using assms row_ok_new unfolding rows_ok_def with_row_def Let_def by (auto split: option.splits)

lemma row_ok_appendInterval: "row_ok source a st r \<Longrightarrow> row_ok source a st (appendInterval x y z ty r)"
  by (simp add: row_ok_def appendInterval_def Let_def)

lemma row_ok_plain: "row_ok source a st r \<Longrightarrow> row_ok source a st (plain_version ver r)"
  using row_ok_appendInterval by (auto simp: plain_version_def) (simp add: row_ok_def)

lemma rows_ok_change_step:
  "rows_ok source a (fst s) \<Longrightarrow> rows_ok source a (fst (change_step source a ty c s))"
  by (cases s) (simp add: change_step_def rows_ok_with_row row_ok_appendInterval)

lemma rows_ok_changes:
  "rows_ok source a (fst s) \<Longrightarrow> rows_ok source a (fst (fold (change_step source a ty) cs s))"
  by (induction cs arbitrary: s) (simp_all add: rows_ok_change_step)

lemma rows_ok_version_step:
  assumes "rows_ok source a rows"
  shows "rows_ok source a (version_step source a ver rows)"
proof -
  obtain rows' start status where
    f: "fold (change_step source a (cv_VersionType ver)) (cv_Changes ver) (rows, cv_Version ver, cv_Status ver) = (rows', start, status)"
    by (rule prod_cases3)
  then have "rows_ok source a rows'"
    using rows_ok_changes [of source a "(rows, cv_Version ver, cv_Status ver)" "cv_VersionType ver" "cv_Changes ver"] assms
    by simp
  then show ?thesis
    using assms by (simp add: version_step_def f rows_ok_with_row row_ok_appendInterval row_ok_plain)
qed

lemma rows_ok_product: "rows_ok source a (product_rows source a)"
proof -
  have "rows_ok source a rows \<Longrightarrow> rows_ok source a (fold (version_step source a) vs rows)" for vs rows
    by (induction vs arbitrary: rows) (simp_all add: rows_ok_version_step)
  moreover have "rows_ok source a (\<lambda>_. None)" by (simp add: rows_ok_def)
  ultimately show ?thesis by (simp add: product_rows_def Let_def rows_ok_with_row)
qed

lemma emitted_Some: "emitted rows st = Some r \<Longrightarrow> rows st = Some r"
  by (auto simp: emitted_def split: option.splits if_splits)

lemma map_filter_statuses:
  assumes "\<And>st r. f st = Some r \<Longrightarrow> af_Status r = status_text st"
  shows "map af_Status (List.map_filter f sts) = map status_text (filter (\<lambda>st. f st \<noteq> None) sts)"
  using assms by (induction sts) (auto simp: map_filter_simps split: option.splits)

lemma cve5_affected_statuses:
  "\<exists>sts. map af_Status (cve5_affected source a) = map status_text sts \<and> distinct sts \<and> sts = filter (\<lambda>st. st \<in> set sts) Statuses"
proof -
  let ?sts = "filter (\<lambda>st. emitted (product_rows source a) st \<noteq> None) Statuses"
  have "af_Status r = status_text st" if "emitted (product_rows source a) st = Some r" for st r
    using emitted_Some [OF that] rows_ok_product by (auto simp: rows_ok_def row_ok_def)
  then have "map af_Status (cve5_affected source a) = map status_text ?sts"
    unfolding cve5_affected_def by (rule map_filter_statuses)
  moreover have "distinct ?sts" using Statuses_complete(2) by simp
  moreover have "?sts = filter (\<lambda>st. st \<in> set ?sts) Statuses" by (rule filter_cong) simp_all
  ultimately show ?thesis by blast
qed

lemma cve5_affected_mem:
  "r \<in> set (cve5_affected source a) \<longleftrightarrow> (\<exists>st. emitted (product_rows source a) st = Some r)"
  using Statuses_complete(1) by (auto simp: cve5_affected_def List.map_filter_def image_iff)

lemma cve5_affected_row:
  assumes "r \<in> set (cve5_affected source a)"
  shows "\<exists>st. row_ok source a st r"
  using assms emitted_Some rows_ok_product unfolding cve5_affected_mem rows_ok_def by blast

text \<open>Affected by default, or nothing listed: the positive row is there.\<close>

lemma positive_row_kept:
  assumes "ca_Versions a = [] \<or> NormalizeStatus (ca_DefaultStatus a) = Some StatusAffected"
    and "ca_Vendor a \<noteq> [] \<or> ca_Product a \<noteq> [] \<or> ca_PackageName a \<noteq> [] \<or> ca_PackageURL a \<noteq> []"
  shows "\<exists>r \<in> set (cve5_affected source a). af_Status r = status_text StatusAffected \<and> af_DefaultState r = ca_DefaultStatus a"
proof -
  have "status_of (status_text StatusAffected) = StatusAffected"
    by code_simp
  then obtain r where r: "product_rows source a StatusAffected = Some r"
    using assms(1) by (auto simp: product_rows_def Let_def with_row_def)
  then have ok: "row_ok source a StatusAffected r" using rows_ok_product by (simp add: rows_ok_def)
  then have "emitted (product_rows source a) StatusAffected = Some r"
    using assms(2) by (auto simp: emitted_def r row_ok_def identity_row_def no_row_def)
  then show ?thesis using ok unfolding cve5_affected_mem Bex_def by (auto simp: row_ok_def)
qed

section \<open>The intervals of an entry with changes\<close>

text \<open>The intervals the loop appends, each with the status it is appended under.\<close>

fun segments :: "string \<Rightarrow> string \<Rightarrow> cveChange list \<Rightarrow> string \<Rightarrow> string \<Rightarrow> (string \<times> string \<times> string \<times> string) list" where
  "segments start status [] lt lte = [(status, start, lt, lte)]"
| "segments start status (c # cs) lt lte =
     (if trim_space (cg_At c) = [] then segments start status cs lt lte
      else (status, start, cg_At c, []) # segments (cg_At c) (cg_Status c) cs lt lte)"

definition put_segment :: "string \<Rightarrow> cveAffected \<Rightarrow> string \<Rightarrow> string \<times> string \<times> string \<times> string \<Rightarrow> status_rows \<Rightarrow> status_rows" where
  "put_segment source a ty sg rows =
     (case sg of (status, start, fix, until) \<Rightarrow> with_row source a status (appendInterval start fix until ty) rows)"

lemma changes_segments:
  "(case fold (change_step source a ty) cs (rows, start, status) of (rows, start, status) \<Rightarrow>
      with_row source a status (appendInterval start lt lte ty) rows)
   = fold (put_segment source a ty) (segments start status cs lt lte) rows"
  by (induction cs arbitrary: rows start status) (simp_all add: change_step_def put_segment_def)

lemma version_step_segments:
  assumes "cv_Changes ver \<noteq> []"
  shows "version_step source a ver rows = fold (put_segment source a (cv_VersionType ver))
    (segments (cv_Version ver) (cv_Status ver) (cv_Changes ver) (cv_LessThan ver) (cv_LessThanOrEqual ver)) rows"
  using assms changes_segments by (simp add: version_step_def)

definition segment_window :: "string \<times> string \<times> string \<times> string \<Rightarrow> VersionRange" where
  "segment_window sg =
     (case sg of (_, start, fix, until) \<Rightarrow> bare_range (trim_space start) (trim_space fix) (trim_space until))"

text \<open>Change points that rise from the start and stay below the outer bounds.\<close>

fun rising :: "(string \<Rightarrow> string \<Rightarrow> int) \<Rightarrow> string \<Rightarrow> cveChange list \<Rightarrow> string \<Rightarrow> string \<Rightarrow> bool" where
  "rising cmp start [] lt lte = (start = ''0'' \<or> plain_bound start)"
| "rising cmp start (c # cs) lt lte =
     ((start = ''0'' \<or> plain_bound start) \<and> plain_bound (cg_At c)
      \<and> (start = ''0'' \<or> cmp (clean start) (clean (cg_At c)) < 0)
      \<and> (lt = [] \<or> cmp (clean (cg_At c)) (clean lt) < 0)
      \<and> (lte = [] \<or> cmp (clean (cg_At c)) (clean lte) \<le> 0)
      \<and> rising cmp (cg_At c) cs lt lte)"

definition plain_end :: "string \<Rightarrow> bool" where
  "plain_end x \<longleftrightarrow> x = [] \<or> trim_space x = x"

lemma in_window_plain:
  assumes "i = ''0'' \<or> plain_bound i" "plain_end fx" "plain_end la"
  shows "in_window cmp (bare_range i fx la) v \<longleftrightarrow>
    (i = ''0'' \<or> 0 \<le> cmp (clean v) (clean i)) \<and> (fx = [] \<or> cmp (clean v) (clean fx) < 0)
    \<and> (la = [] \<or> cmp (clean v) (clean la) \<le> 0)"
proof -
  have "Introduced (bare_range i fx la) = i" by (simp add: bare_range_def)
  note lower = has_lower_plain [OF assms(1) this]
  have "(has_lower (bare_range i fx la) \<longrightarrow>
      above_lower (bare_range i fx la) (cmp (clean v) (clean (fst (lower_bound (bare_range i fx la))))))
    \<longleftrightarrow> i = ''0'' \<or> 0 \<le> cmp (clean v) (clean i)"
    using lower by (cases "i = ''0''") (auto simp: above_lower_def)
  moreover have "trim_space fx = fx" "trim_space la = la" using assms(2,3) by (auto simp: plain_end_def)
  ultimately show ?thesis unfolding in_window_def by (auto simp: bare_range_def)
qed

lemma plain_trim: "i = ''0'' \<or> plain_bound i \<Longrightarrow> trim_space i = i"
proof -
  have "trim_space ''0'' = ''0''" by code_simp
  then show "i = ''0'' \<or> plain_bound i \<Longrightarrow> trim_space i = i" by (auto simp: plain_bound_def)
qed

context three_way
begin

text \<open>Two neighbouring intervals split the interval they span.\<close>

lemma split_interval:
  assumes "start \<or> cmp s a < 0" "b0 \<or> cmp a b < 0" "d0 \<or> cmp a d \<le> 0"
  shows "(start \<or> 0 \<le> cmp v s) \<and> (b0 \<or> cmp v b < 0) \<and> (d0 \<or> cmp v d \<le> 0) \<longleftrightarrow>
      ((start \<or> 0 \<le> cmp v s) \<and> cmp v a < 0) \<or> (0 \<le> cmp v a \<and> (b0 \<or> cmp v b < 0) \<and> (d0 \<or> cmp v d \<le> 0))"
proof -
  have up: "(b0 \<or> cmp v b < 0) \<and> (d0 \<or> cmp v d \<le> 0)" if "cmp v a < 0"
    using that assms(2,3) cmp_less_le_trans [of v a] cmp_trans [of v a] by fastforce
  have lo: "start \<or> 0 \<le> cmp v s" if "0 \<le> cmp v a"
  proof -
    have "0 \<le> cmp a s" if "cmp s a < 0" using that cmp_swap [of s a] by linarith
    then show ?thesis using assms(1) cmp_ge_trans [OF that] by blast
  qed
  show ?thesis using up lo by (cases "cmp v a < 0") auto
qed

end

context ordered_scheme
begin

lemma segments_partition:
  assumes "rising cmp start cs lt lte" "plain_end lt" "plain_end lte"
  shows "length (filter (\<lambda>sg. in_window cmp (segment_window sg) v) (segments start status cs lt lte))
    = (if in_window cmp (bare_range start lt lte) v then 1 else 0)"
  using assms(1)
proof (induction cs arbitrary: start status)
  case Nil
  then have "trim_space start = start" using plain_trim by simp
  moreover have "trim_space lt = lt" "trim_space lte = lte" using assms(2,3) by (auto simp: plain_end_def)
  ultimately show ?case by (simp add: segment_window_def)
next
  case (Cons c cs)
  let ?a = "cg_At c"
  have st: "start = ''0'' \<or> plain_bound start" and a: "plain_bound ?a" and r: "rising cmp ?a cs lt lte"
    using Cons.prems by simp_all
  have ne: "trim_space ?a = ?a" "?a \<noteq> []" "?a \<noteq> ''0''"
  proof -
    have "ClassifySentinel ''0'' \<noteq> NotSentinel" by code_simp
    then show "trim_space ?a = ?a" "?a \<noteq> []" "?a \<noteq> ''0''" using a by (auto simp: plain_bound_def)
  qed
  have w: "segment_window (status, start, ?a, []) = bare_range start ?a []"
    by (simp add: segment_window_def plain_trim [OF st] ne)
  have pe: "plain_end ?a" "plain_end []" using ne by (simp_all add: plain_end_def)
  have i1: "in_window cmp (bare_range start ?a []) v \<longleftrightarrow>
      (start = ''0'' \<or> 0 \<le> cmp (clean v) (clean start)) \<and> cmp (clean v) (clean ?a) < 0"
    using in_window_plain [OF st pe] ne by simp
  have i2: "in_window cmp (bare_range ?a lt lte) v \<longleftrightarrow>
      0 \<le> cmp (clean v) (clean ?a) \<and> (lt = [] \<or> cmp (clean v) (clean lt) < 0) \<and> (lte = [] \<or> cmp (clean v) (clean lte) \<le> 0)"
    using in_window_plain [OF _ assms(2,3), of ?a] a ne by simp
  have "in_window cmp (bare_range start lt lte) v \<longleftrightarrow>
      in_window cmp (bare_range start ?a []) v \<or> in_window cmp (bare_range ?a lt lte) v"
    unfolding i1 i2 in_window_plain [OF st assms(2,3)]
    by (rule split_interval) (use Cons.prems in simp_all)
  moreover have "\<not> (in_window cmp (bare_range start ?a []) v \<and> in_window cmp (bare_range ?a lt lte) v)"
    unfolding i1 i2 by linarith
  ultimately show ?case using Cons.IH [OF r] ne by (auto simp: w)
qed

end

end
