(* ===== verification/Decimal.thy ===== *)
theory Decimal
  imports Tokens
begin

text \<open>
  The decimal numbers of Go's \<open>strconv\<close>: \<open>Itoa\<close> on naturals and \<open>Atoi\<close>, with the round trip between them.
  \<open>Atoi\<close> takes an optional sign and digits, and fails on anything else and outside of 64 bits.
\<close>

definition digit_char :: "nat \<Rightarrow> char" where
  "digit_char d = char_of (48 + d)"

fun digits_of :: "nat \<Rightarrow> string" where
  "digits_of n = (if n < 10 then [digit_char n] else digits_of (n div 10) @ [digit_char (n mod 10)])"

declare digits_of.simps [simp del]

definition digit_value :: "char \<Rightarrow> nat" where
  "digit_value c = of_char c - 48"

definition digits_value :: "string \<Rightarrow> nat" where
  "digits_value s = fold (\<lambda>c n. 10 * n + digit_value c) s 0"

definition Itoa :: "int \<Rightarrow> string" where
  "Itoa n = (if n < 0 then CHR ''-'' # digits_of (nat (- n)) else digits_of (nat n))"

definition unsigned_int :: "string \<Rightarrow> nat option" where
  "unsigned_int s = (if s \<noteq> [] \<and> list_all isDigit s then Some (digits_value s) else None)"

definition Atoi :: "string \<Rightarrow> int option" where
  "Atoi s =
     (case s of
        CHR ''-'' # t \<Rightarrow> (case unsigned_int t of Some n \<Rightarrow> if n \<le> 2 ^ 63 then Some (- int n) else None | None \<Rightarrow> None)
      | CHR ''+'' # t \<Rightarrow> (case unsigned_int t of Some n \<Rightarrow> if n < 2 ^ 63 then Some (int n) else None | None \<Rightarrow> None)
      | _ \<Rightarrow> (case unsigned_int s of Some n \<Rightarrow> if n < 2 ^ 63 then Some (int n) else None | None \<Rightarrow> None))"

lemma of_char_digit: "d < 10 \<Longrightarrow> (of_char (digit_char d) :: nat) = 48 + d"
  by (simp add: digit_char_def)

lemma digit_value_char [simp]: "d < 10 \<Longrightarrow> digit_value (digit_char d) = d"
  by (simp add: digit_value_def of_char_digit)

lemma isDigit_char: "isDigit c \<longleftrightarrow> 48 \<le> (of_char c :: nat) \<and> (of_char c :: nat) \<le> 57"
  by (simp add: isDigit_def less_eq_char_def)

lemma isDigit_digit [simp]: "d < 10 \<Longrightarrow> isDigit (digit_char d)"
  by (simp add: isDigit_char of_char_digit)

lemma digits_value_snoc [simp]: "digits_value (s @ [c]) = 10 * digits_value s + digit_value c"
  by (simp add: digits_value_def)

lemma digits_of_props: "digits_of n \<noteq> [] \<and> list_all isDigit (digits_of n) \<and> digits_value (digits_of n) = n"
proof (induction n rule: digits_of.induct)
  case (1 n)
  show ?case
  proof (cases "n < 10")
    case True
    then show ?thesis by (simp add: digits_of.simps [of n] digits_value_def)
  next
    case False
    then show ?thesis using 1 by (simp add: digits_of.simps [of n])
  qed
qed

lemmas digits_of_facts = digits_of_props [THEN conjunct1] digits_of_props [THEN conjunct2, THEN conjunct1]
  digits_of_props [THEN conjunct2, THEN conjunct2]

lemma digits_of_set: "c \<in> set (digits_of n) \<Longrightarrow> isDigit c"
  using digits_of_facts(2) [of n] by (auto simp: list_all_iff)

lemma unsigned_digits [simp]: "unsigned_int (digits_of n) = Some n"
  by (simp add: unsigned_int_def digits_of_facts)

lemma hd_digits_of: "isDigit (hd (digits_of n))"
  using digits_of_facts(1) [of n] digits_of_set hd_in_set by blast

lemma Atoi_digits:
  assumes "n < 2 ^ 63"
  shows "Atoi (digits_of n) = Some (int n)"
proof -
  obtain c t where c: "digits_of n = c # t" using digits_of_facts(1) [of n] by (cases "digits_of n") auto
  then have "isDigit c" using hd_digits_of [of n] by simp
  then have "c \<noteq> CHR ''-''" "c \<noteq> CHR ''+''" by (auto simp: isDigit_char)
  then have "Atoi (digits_of n) = (case unsigned_int (digits_of n) of Some n \<Rightarrow> if n < 2 ^ 63 then Some (int n) else None | None \<Rightarrow> None)"
    unfolding c Atoi_def by (simp split: char.splits list.splits bool.splits)
  then show ?thesis using assms by simp
qed

lemma Atoi_Itoa:
  assumes "- (2 ^ 63) \<le> n" "n < 2 ^ 63"
  shows "Atoi (Itoa n) = Some n"
proof (cases "n < 0")
  case True
  then have "nat (- n) \<le> 2 ^ 63" using assms(1) by (simp add: nat_le_iff)
  then show ?thesis using True by (simp add: Itoa_def Atoi_def)
next
  case False
  then have "nat n < 2 ^ 63" using assms(2) by (simp add: nat_less_iff)
  then show ?thesis using False by (simp add: Itoa_def Atoi_digits)
qed

lemma digits_no_space: "trim_space (digits_of n) = digits_of n"
proof -
  have "\<not> is_space c" if "c \<in> set (digits_of n)" for c
    using digits_of_set [OF that] by (auto simp: isDigit_char is_space_def less_eq_char_def)
  then show ?thesis using digits_of_facts(1) [of n] by (intro trim_space_plain) simp_all
qed

end
