(* ===== verification/Ports.thy ===== *)
theory Ports
  imports Decimal Stable_Sort Complex_Main
begin

text \<open>
  Port specifications of \<open>internal/netscan\<close>: \<open>ParsePorts\<close> (\<open>ports.go\<close>), the ranking behind \<open>top:N\<close>
  (\<open>topports.go\<close>) and \<open>portList\<close>, which renders a set of ports for the external scanners (\<open>nmap.go\<close>). The
  lines of an nmap-services file and \<open>strconv.ParseFloat\<close> are arguments. Shown: whatever is accepted is a
  strictly ascending list of ports in 1 to 65535, a rendered list reads back as the same ports, and the
  compiled-in ranking holds a thousand different ports.
\<close>

section \<open>Specifications\<close>

datatype port_error = NoPorts | NotACount string | EmptyEntry | NotANumber string | OutOfRange int | Backwards string

definition parsePort :: "string \<Rightarrow> port_error + int" where
  "parsePort s =
     (case Atoi (trim_space s) of
        None \<Rightarrow> Inl (NotANumber s)
      | Some p \<Rightarrow> if p < 1 \<or> p > 65535 then Inl (OutOfRange p) else Inr p)"

definition parseRange :: "string \<Rightarrow> port_error + int \<times> int" where
  "parseRange part =
     (case split_first CHR ''-'' part of
        Some (lo, hi) \<Rightarrow>
          (case parsePort lo of
             Inl e \<Rightarrow> Inl e
           | Inr a \<Rightarrow>
               (case parsePort hi of
                  Inl e \<Rightarrow> Inl e
                | Inr b \<Rightarrow> if a > b then Inl (Backwards part) else Inr (a, b)))
      | None \<Rightarrow> (case parsePort part of Inl e \<Rightarrow> Inl e | Inr p \<Rightarrow> Inr (p, p)))"

text \<open>The loop over the entries; \<open>seen\<close> is the set of ports collected.\<close>

fun collect_ports :: "string list \<Rightarrow> int list \<Rightarrow> port_error + int list" where
  "collect_ports [] seen = Inr seen"
| "collect_ports (part0 # parts) seen =
     (let part = trim_space part0 in
      if part = [] then Inl EmptyEntry
      else
        (case parseRange part of
           Inl e \<Rightarrow> Inl e
         | Inr (lo, hi) \<Rightarrow> collect_ports parts (seen @ [lo..hi])))"

definition TopPorts :: "int list \<Rightarrow> nat \<Rightarrow> int list" where
  "TopPorts ranked n = (let n = (if n > length ranked then length ranked else n) in sort (take n ranked))"

definition ParsePorts :: "int list \<Rightarrow> string \<Rightarrow> port_error + int list" where
  "ParsePorts ranked spec0 =
     (let spec = trim_space spec0 in
      if spec = [] then Inl NoPorts
      else if equal_fold spec ''all'' then Inr [1..65535]
      else if has_prefix (to_lower spec) ''top:'' then
        (case Atoi (trim_space (drop 4 (to_lower spec))) of
           None \<Rightarrow> Inl (NotACount spec)
         | Some n \<Rightarrow> if n < 1 then Inl (NotACount spec) else Inr (TopPorts ranked (nat n)))
      else
        (case collect_ports (split CHR '','' spec) [] of
           Inl e \<Rightarrow> Inl e
         | Inr seen \<Rightarrow> Inr (sort (remdups seen))))"

section \<open>The ranking\<close>

fun fields_from :: "string \<Rightarrow> string \<Rightarrow> string list" where
  "fields_from w [] = (if w = [] then [] else [w])"
| "fields_from w (c # s) =
     (if is_space c then (if w = [] then fields_from [] s else w # fields_from [] s) else fields_from (w @ [c]) s)"

definition string_fields :: "string \<Rightarrow> string list" where
  "string_fields s = fields_from [] s"

definition service_line :: "(string \<Rightarrow> rat option) \<Rightarrow> string \<Rightarrow> (int \<times> rat) option" where
  "service_line parse_float line0 =
     (let line = (case split_first CHR ''#'' line0 of Some (h, _) \<Rightarrow> h | None \<Rightarrow> line0);
          fields = string_fields line
      in if length fields < 2 then None
         else
           (case cut_suffix (fields ! 1) ''/tcp'' of
              None \<Rightarrow> None
            | Some portProto \<Rightarrow>
                (case Atoi portProto of
                   None \<Rightarrow> None
                 | Some port \<Rightarrow>
                     if port < 1 \<or> port > 65535 then None
                     else Some (port, if length fields \<ge> 3
                                      then (case parse_float (fields ! 2) of Some f \<Rightarrow> f | None \<Rightarrow> 0) else 0))))"

text \<open>The map of the frequencies as an association list, each port once.\<close>

fun put_freq :: "int \<Rightarrow> rat \<Rightarrow> (int \<times> rat) list \<Rightarrow> (int \<times> rat) list" where
  "put_freq port freq [] = [(port, freq)]"
| "put_freq port freq ((p, f) # seen) =
     (if p = port then (p, if freq > f then freq else f) # seen else (p, f) # put_freq port freq seen)"

definition line_step :: "(string \<Rightarrow> rat option) \<Rightarrow> string \<Rightarrow> (int \<times> rat) list \<Rightarrow> (int \<times> rat) list" where
  "line_step parse_float line seen =
     (case service_line parse_float line of Some (port, freq) \<Rightarrow> put_freq port freq seen | None \<Rightarrow> seen)"

definition freq_less :: "int \<times> rat \<Rightarrow> int \<times> rat \<Rightarrow> bool" where
  "freq_less a b \<longleftrightarrow> (if snd a \<noteq> snd b then snd a > snd b else fst a < fst b)"

text \<open>A file is the lines the scanner yields, or nothing where it cannot be opened or read to its end.\<close>

definition parseServices :: "(string \<Rightarrow> rat option) \<Rightarrow> string list option \<Rightarrow> int list" where
  "parseServices parse_float file =
     (case file of
        None \<Rightarrow> []
      | Some lines \<Rightarrow> map fst (sort_stable freq_less (fold (line_step parse_float) lines [])))"

definition servicesFiles :: "string list" where
  "servicesFiles =
     [''/usr/share/nmap/nmap-services'', ''/usr/local/share/nmap/nmap-services'', ''/opt/homebrew/share/nmap/nmap-services'']"

definition embeddedSource :: string where
  "embeddedSource = ''built-in ranking derived from nmap-services''"

definition topPortsEmbedded :: "int list" where
  "topPortsEmbedded =
     [80, 23, 443, 21, 22, 25, 3389, 110, 445, 139, 143, 53, 135, 3306, 8080, 1723, 111, 995, 993, 5900,
      1025, 587, 8888, 199, 1720, 465, 548, 113, 81, 6001, 10000, 514, 5060, 179, 1026, 2000, 8443, 8000, 32768, 554,
      26, 1433, 49152, 2001, 515, 8008, 49154, 1027, 5666, 646, 5000, 5631, 631, 49153, 8081, 2049, 88, 79, 5800, 106,
      2121, 1110, 49155, 6000, 513, 990, 5357, 427, 49156, 543, 544, 5101, 144, 7, 389, 8009, 3128, 444, 9999, 5009,
      7070, 5190, 3000, 5432, 1900, 3986, 13, 1029, 9, 5051, 6646, 49157, 1028, 873, 1755, 2717, 4899, 9100, 119, 37,
      1000, 3001, 5001, 82, 10010, 1030, 9090, 2107, 1024, 2103, 6004, 1801, 5050, 19, 8031, 1041, 255, 1048, 1049, 1053,
      1054, 1056, 1064, 1065, 2967, 3703, 17, 808, 3689, 1031, 1044, 1071, 5901, 100, 9102, 1039, 2869, 4001, 5120, 8010,
      9000, 2105, 636, 1038, 2601, 1, 7000, 1066, 1069, 625, 311, 280, 254, 4000, 1761, 5003, 2002, 1998, 2005, 1032,
      1050, 6112, 3690, 1521, 2161, 1080, 6002, 2401, 902, 4045, 787, 7937, 1058, 2383, 32771, 1033, 1040, 1059, 50000, 5555,
      10001, 1494, 3, 593, 2301, 3268, 7938, 1022, 1234, 1035, 1036, 1037, 1074, 8002, 9001, 464, 497, 1935, 2003, 6666,
      6543, 24, 1352, 3269, 1111, 407, 500, 20, 2006, 1034, 1218, 3260, 15000, 4444, 264, 33, 2004, 1042, 42510, 999,
      3052, 1023, 222, 1068, 888, 7100, 563, 1717, 992, 2008, 32770, 7001, 32772, 2007, 8082, 5550, 512, 1043, 2009, 5801,
      1700, 2701, 7019, 50001, 4662, 2065, 42, 2010, 161, 2602, 3333, 9535, 5100, 2604, 4002, 5002, 1047, 1051, 1052, 1055,
      1060, 1062, 1311, 2702, 3283, 4443, 5225, 5226, 6059, 6789, 8089, 8192, 8193, 8194, 8651, 8652, 8701, 9415, 9593, 9594,
      9595, 16992, 16993, 20828, 23502, 32769, 33354, 35500, 52869, 55555, 55600, 64623, 64680, 65000, 65389, 1067, 13782, 366, 5902, 9050,
      85, 1002, 5500, 1863, 1864, 5431, 8085, 10243, 45100, 49999, 51103, 49, 90, 6667, 1503, 6881, 27000, 340, 1500, 8021,
      2222, 5566, 8088, 8899, 9071, 1501, 5102, 6005, 9101, 9876, 32773, 32774, 163, 5679, 146, 648, 1666, 901, 83, 3476,
      5004, 5214, 8001, 8083, 8084, 9207, 14238, 30, 912, 12345, 2030, 2605, 6, 541, 4, 1248, 3005, 8007, 306, 880,
      2500, 1086, 1088, 1097, 2525, 4242, 8291, 9009, 52822, 900, 6101, 2809, 7200, 211, 800, 987, 1083, 12000, 32775, 705,
      711, 20005, 6969, 13783, 1045, 1046, 1057, 1061, 1063, 1070, 1072, 1073, 1075, 1077, 1078, 1079, 1081, 1082, 1085, 1093,
      1094, 1096, 1098, 1099, 1100, 1104, 1106, 1107, 1108, 1148, 1169, 1272, 1310, 1687, 1718, 1783, 1840, 1947, 2100, 2119,
      2135, 2144, 2160, 2190, 2260, 2381, 2399, 2492, 2607, 2718, 2811, 2875, 3017, 3031, 3071, 3211, 3300, 3301, 3323, 3325,
      3351, 3367, 3404, 3551, 3580, 3659, 3766, 3784, 3801, 3827, 3998, 4003, 4126, 4129, 4449, 5030, 5222, 5269, 5414, 5633,
      5718, 5810, 5825, 5877, 5910, 5911, 5925, 5959, 5960, 5961, 5962, 5987, 5988, 5989, 6123, 6129, 6156, 6389, 6580, 6788,
      6901, 7106, 7625, 7627, 7741, 7777, 7778, 7911, 8086, 8087, 8181, 8222, 8333, 8400, 8402, 8600, 8649, 8873, 8994, 9002,
      9010, 9011, 9080, 9220, 9290, 9485, 9500, 9502, 9503, 9618, 9900, 9968, 10002, 10012, 10024, 10025, 10566, 10616, 10617, 10621,
      10626, 10628, 10629, 11110, 11967, 13456, 14000, 14442, 15002, 15003, 15660, 16001, 16016, 16018, 17988, 19101, 19801, 19842, 20000, 20031,
      20221, 20222, 21571, 22939, 24800, 25734, 27715, 28201, 30000, 30718, 31038, 32781, 32782, 33899, 34571, 34572, 34573, 40193, 48080, 49158,
      49159, 49160, 50003, 50006, 50800, 57294, 58080, 60020, 63331, 65129, 89, 691, 212, 1001, 1999, 2020, 32776, 2998, 6003, 7002,
      50002, 32, 898, 2033, 3372, 5510, 99, 425, 749, 5903, 43, 458, 5405, 6106, 6502, 7007, 13722, 1087, 1089, 1124,
      1152, 1183, 1186, 1247, 1296, 1334, 1580, 1782, 2126, 2179, 2191, 2251, 2522, 3011, 3030, 3077, 3261, 3369, 3370, 3371,
      3493, 3546, 3737, 3828, 3851, 3871, 3880, 3918, 3995, 4006, 4111, 4446, 5054, 5200, 5280, 5298, 5822, 5859, 5904, 5915,
      5922, 5963, 7103, 7402, 7435, 7443, 7512, 8011, 8090, 8100, 8180, 8254, 8500, 8654, 9091, 9110, 9666, 9877, 9943, 9944,
      9998, 10004, 10778, 15742, 16012, 18988, 19283, 19315, 19780, 24444, 27352, 27353, 27355, 32784, 49163, 49165, 49175, 50389, 50636, 51493,
      55055, 56738, 61532, 61900, 62078, 1021, 9040, 32777, 32779, 616, 666, 700, 2021, 32778, 84, 545, 1112, 1524, 2040, 4321,
      5802, 38292, 49400, 1084, 1600, 2048, 2111, 3006, 32780, 2638, 6547, 6699, 9111, 16080, 555, 667, 720, 801, 1443, 1533,
      2034, 2106, 5560, 6007, 1090, 1091, 1114, 1117, 1119, 1122, 1131, 1138, 1151, 1175, 1199, 1201, 1271, 1862, 2323, 2393,
      2394, 2608, 2725, 2909, 3003, 3168, 3221, 3322, 3324, 3390, 3517, 3527, 3800, 3809, 3814, 3826, 3869, 3878, 3889, 3905,
      3914, 3920, 3945, 3971, 4004, 4005, 4279, 4445, 4550, 4567, 4848, 4900, 5033, 5061, 5080, 5087, 5221, 5440, 5544, 5678,
      5730, 5811, 5815, 5850, 5862, 5906, 5907, 5950, 5952, 6025, 6100, 6510, 6565, 6566, 6567, 6689, 6692, 6779, 6792, 6839,
      7025, 7496, 7676, 7800, 7920, 7921, 7999, 8022, 8042, 8045, 8093, 8099, 8200, 8290, 8292, 8300, 8383, 8800, 9003, 9081,
      9099, 9200, 9418, 9575, 9878, 9898, 9917, 10003, 10009, 10180, 10215, 11111, 12174, 12265, 14441, 15004, 16000, 16113, 17877, 18040,
      18101, 19350, 25735, 26214, 27356, 30951, 32783, 32785, 40911, 41511, 44176, 44501, 49161, 49167, 49176, 50300, 50500, 52673, 52848, 54045,
      54328, 55056, 56737, 57797, 60443, 70, 417, 617, 714, 722, 777, 981, 1009, 2022, 4224, 4998, 6346, 301, 524, 668,
      765, 1076, 2041, 5999, 10082, 259, 416, 1007, 1417, 1434, 1984, 2038, 2068, 4343, 6009, 7004, 44443, 109, 687, 726,
      911, 1010, 1461, 2035, 2046, 4125, 6006, 7201, 9103, 125, 481, 683, 903, 1011, 1455, 2013, 2043, 2047, 6668, 6669,
      256, 406, 783, 843, 2042, 2045, 5998, 9929, 31337, 44442, 1092, 1095, 1102, 1105, 1113, 1121, 1123, 1126, 1130, 1132,
      1137, 1141, 1145, 1147, 1149, 1154, 1163, 1164, 1165, 1166, 1174, 1185, 1187, 1192, 1198, 1213, 1216, 1217, 1233, 1236,
      1244, 1259, 1277, 1287, 1300, 1301, 1309, 1322, 1328, 1556, 1583, 1594, 1641, 1658, 1688, 1719, 1721, 1805, 1812, 1839,
      1875, 1914, 1971, 1972, 1974, 2099, 2170, 2196, 2200, 2288, 2366, 2382, 2557, 2710, 2800, 2910, 2920, 2968, 3007, 3013]"

fun loadRanking :: "(string \<Rightarrow> rat option) \<Rightarrow> (string \<Rightarrow> string list option) \<Rightarrow> string list \<Rightarrow> int list \<times> string" where
  "loadRanking parse_float disk [] = (topPortsEmbedded, embeddedSource)"
| "loadRanking parse_float disk (path # files) =
     (let ranked = parseServices parse_float (disk path) in
      if ranked \<noteq> [] then (ranked, ''nmap-services at '' @ path) else loadRanking parse_float disk files)"

definition defaultTopN :: nat where
  "defaultTopN = 1000"

definition DefaultPorts :: "int list \<Rightarrow> int list" where
  "DefaultPorts ranked = TopPorts ranked defaultTopN"

section \<open>Rendering\<close>

text \<open>The runs of a sorted list, as the inner loop finds them.\<close>

fun run_from :: "int \<Rightarrow> int \<Rightarrow> int list \<Rightarrow> (int \<times> int) list" where
  "run_from lo hi [] = [(lo, hi)]"
| "run_from lo hi (q # qs) = (if q = hi + 1 then run_from lo q qs else (lo, hi) # run_from q q qs)"

definition runs :: "int list \<Rightarrow> (int \<times> int) list" where
  "runs ps = (case ps of [] \<Rightarrow> [] | p # qs \<Rightarrow> run_from p p qs)"

definition render_run :: "int \<times> int \<Rightarrow> string" where
  "render_run r = (case r of (lo, hi) \<Rightarrow> Itoa lo @ (if hi > lo then CHR ''-'' # Itoa hi else []))"

definition portList :: "int list \<Rightarrow> string" where
  "portList ports = (if ports = [] then [] else join '','' (map render_run (runs (sort ports))))"

fun samePorts :: "int list \<Rightarrow> int list \<Rightarrow> bool" where
  "samePorts [] [] = True"
| "samePorts (a # as) (b # bs) = (a = b \<and> samePorts as bs)"
| "samePorts _ _ = False"

section \<open>What is accepted\<close>

definition port_set :: "int list \<Rightarrow> bool" where
  "port_set ps \<longleftrightarrow> list_all (\<lambda>p. 1 \<le> p \<and> p \<le> 65535) ps"

lemma parsePort_range: "parsePort s = Inr p \<Longrightarrow> 1 \<le> p \<and> p \<le> 65535"
  by (auto simp: parsePort_def split: option.splits if_splits)

lemma parseRange_range: "parseRange s = Inr (lo, hi) \<Longrightarrow> 1 \<le> lo \<and> lo \<le> hi \<and> hi \<le> 65535"
  by (auto simp: parseRange_def split: option.splits sum.splits if_splits dest!: parsePort_range)

lemma collect_ports_range:
  "collect_ports parts seen = Inr out \<Longrightarrow> port_set seen \<Longrightarrow> port_set out"
proof (induction parts arbitrary: seen)
  case (Cons part parts)
  obtain lo hi where r: "parseRange (trim_space part) = Inr (lo, hi)" "collect_ports parts (seen @ [lo..hi]) = Inr out"
    using Cons.prems(1) by (auto simp: Let_def split: if_splits sum.splits)
  have "port_set (seen @ [lo..hi])"
    using Cons.prems(2) parseRange_range [OF r(1)] by (auto simp: port_set_def list_all_iff)
  then show ?case using Cons.IH [OF r(2)] by blast
qed simp

lemma TopPorts_props:
  "sorted (TopPorts ranked n) \<and> set (TopPorts ranked n) \<subseteq> set ranked \<and> length (TopPorts ranked n) = min n (length ranked)"
  by (auto simp: TopPorts_def Let_def dest: in_set_takeD)

lemma TopPorts_distinct: "distinct ranked \<Longrightarrow> distinct (TopPorts ranked n)"
  by (simp add: TopPorts_def Let_def)

lemma ParsePorts_props:
  assumes "ParsePorts ranked spec = Inr ps" "port_set ranked" "distinct ranked"
  shows "sorted ps \<and> distinct ps \<and> port_set ps"
proof -
  have all: "port_set [1..65535]" by (simp add: port_set_def list_all_iff)
  have top: "port_set (TopPorts ranked n)" for n
    using TopPorts_props [of ranked n] assms(2) by (auto simp: port_set_def list_all_iff)
  have "port_set (sort (remdups seen))" if "collect_ports parts [] = Inr seen" for parts seen
    using collect_ports_range [OF that] by (simp add: port_set_def list_all_iff)
  then show ?thesis
    using assms(1,3) all top TopPorts_props TopPorts_distinct
    unfolding ParsePorts_def Let_def by (auto split: if_splits option.splits sum.splits)
qed

section \<open>Rendered lists read back\<close>

definition good_run :: "int \<times> int \<Rightarrow> bool" where
  "good_run r \<longleftrightarrow> 1 \<le> fst r \<and> fst r \<le> snd r \<and> snd r \<le> 65535"

lemma Itoa_port:
  assumes "1 \<le> p"
  shows "Itoa p = digits_of (nat p)"
  using assms by (simp add: Itoa_def)

lemma Itoa_chars:
  assumes "1 \<le> p" "c \<in> set (Itoa p)"
  shows "isDigit c"
  using assms digits_of_set by (simp add: Itoa_port)

lemma parsePort_Itoa:
  assumes "1 \<le> p" "p \<le> 65535"
  shows "parsePort (Itoa p) = Inr p"
proof -
  have "trim_space (Itoa p) = Itoa p" using assms(1) by (simp add: Itoa_port digits_no_space)
  moreover have "Atoi (Itoa p) = Some p" using assms by (intro Atoi_Itoa) simp_all
  ultimately show ?thesis using assms by (simp add: parsePort_def)
qed

lemma parseRange_render:
  assumes "good_run r"
  shows "parseRange (render_run r) = Inr r"
proof (cases r)
  case (Pair lo hi)
  then have b: "1 \<le> lo" "lo \<le> hi" "hi \<le> 65535" using assms by (simp_all add: good_run_def)
  have "CHR ''-'' \<notin> set (Itoa lo)"
  proof
    assume "CHR ''-'' \<in> set (Itoa lo)"
    then have "isDigit CHR ''-''" using Itoa_chars [OF b(1)] by blast
    then show False by (simp add: isDigit_char)
  qed
  note nd = this
  show ?thesis
  proof (cases "hi > lo")
    case True
    then have "render_run r = Itoa lo @ CHR ''-'' # Itoa hi" using Pair by (simp add: render_run_def)
    then show ?thesis using split_first_append [OF nd] b Pair by (simp add: parseRange_def parsePort_Itoa)
  next
    case False
    then have "render_run r = Itoa lo" "hi = lo" using Pair b(2) by (simp_all add: render_run_def)
    then show ?thesis using nd b Pair by (simp add: parseRange_def parsePort_Itoa)
  qed
qed

lemma render_chars:
  assumes "good_run r" "c \<in> set (render_run r)"
  shows "isDigit c \<or> c = CHR ''-''"
proof -
  obtain lo hi where r: "r = (lo, hi)" by (cases r)
  have "1 \<le> lo" "1 \<le> hi" using assms(1) r by (simp_all add: good_run_def)
  then show ?thesis using assms(2) Itoa_chars [of lo c] Itoa_chars [of hi c]
    by (auto simp: r render_run_def split: if_splits)
qed

lemma render_ends:
  assumes "good_run r"
  shows "render_run r \<noteq> []" "isDigit (hd (render_run r))" "isDigit (last (render_run r))"
proof -
  obtain lo hi where r: "r = (lo, hi)" by (cases r)
  have b: "1 \<le> lo" "1 \<le> hi" using assms r by (simp_all add: good_run_def)
  have ne: "Itoa lo \<noteq> []" "Itoa hi \<noteq> []" using b by (simp_all add: Itoa_port digits_of_facts)
  have "isDigit (hd (Itoa lo))" using Itoa_chars [OF b(1)] ne(1) hd_in_set by blast
  moreover have "isDigit (last (Itoa lo))" "isDigit (last (Itoa hi))"
    using Itoa_chars [OF b(1)] Itoa_chars [OF b(2)] ne last_in_set by blast+
  ultimately show "render_run r \<noteq> []" "isDigit (hd (render_run r))" "isDigit (last (render_run r))"
    using ne by (auto simp: r render_run_def)
qed

lemma digit_not_space: "isDigit c \<Longrightarrow> \<not> is_space c"
  by (auto simp: isDigit_char is_space_def less_eq_char_def)

lemma trim_render: "good_run r \<Longrightarrow> trim_space (render_run r) = render_run r"
  using render_ends [of r] digit_not_space by (intro trim_space_plain) blast+

lemma collect_render:
  assumes "list_all good_run rs"
  shows "collect_ports (map render_run rs) seen = Inr (seen @ concat (map (\<lambda>(lo, hi). [lo..hi]) rs))"
  using assms
proof (induction rs arbitrary: seen)
  case (Cons r rs)
  then have g: "good_run r" by simp
  obtain lo hi where "r = (lo, hi)" by (cases r)
  then show ?case using Cons g by (simp add: trim_render parseRange_render render_ends Let_def)
qed simp

lemma run_from_cover:
  assumes "lo \<le> hi" "sorted (hi # qs)"
  shows "set (concat (map (\<lambda>(l, h). [l..h]) (run_from lo hi qs))) = {lo..hi} \<union> set qs"
  using assms
proof (induction lo hi qs rule: run_from.induct)
  case (1 lo hi)
  then show ?case by simp
next
  case (2 lo hi q qs)
  show ?case
  proof (cases "q = hi + 1")
    case True
    then have "{lo..q} = insert q {lo..hi}" using "2.prems"(1) by auto
    then show ?thesis using 2 True by simp
  next
    case False
    then show ?thesis using 2 by simp
  qed
qed

lemma run_from_good:
  assumes "1 \<le> lo" "lo \<le> hi" "hi \<le> 65535" "port_set qs" "sorted (hi # qs)"
  shows "list_all good_run (run_from lo hi qs)"
  using assms
  by (induction lo hi qs rule: run_from.induct) (auto simp: good_run_def port_set_def)

lemma runs_props:
  assumes "sorted ps" "port_set ps"
  shows "list_all good_run (runs ps)" "set (concat (map (\<lambda>(l, h). [l..h]) (runs ps))) = set ps" "ps \<noteq> [] \<Longrightarrow> runs ps \<noteq> []"
proof -
  have ne: "run_from lo hi qs \<noteq> []" for lo hi qs by (induction lo hi qs rule: run_from.induct) auto
  show "list_all good_run (runs ps)" using assms by (cases ps) (auto simp: runs_def port_set_def intro: run_from_good)
  show "set (concat (map (\<lambda>(l, h). [l..h]) (runs ps))) = set ps"
    using assms(1) run_from_cover [of "hd ps" "hd ps" "tl ps"] by (cases ps) (auto simp: runs_def)
  show "ps \<noteq> [] \<Longrightarrow> runs ps \<noteq> []" using ne by (cases ps) (auto simp: runs_def)
qed

lemma ParsePorts_portList:
  assumes "ports \<noteq> []" "port_set ports"
  shows "ParsePorts ranked (portList ports) = Inr (sort (remdups ports))"
proof -
  let ?rs = "runs (sort ports)"
  have ps: "port_set (sort ports)" using assms(2) by (simp add: port_set_def list_all_iff)
  have sne: "sort ports \<noteq> []"
    using assms(1) by (metis set_empty set_sort)
  note rs = runs_props [OF sorted_sort ps] 
  have ne: "?rs \<noteq> []" using rs(3) sne by blast
  let ?s = "join '','' (map render_run ?rs)"
  have pl: "portList ports = ?s" using assms(1) by (simp add: portList_def)
  have good: "good_run r" if "r \<in> set ?rs" for r using rs(1) that by (auto simp: list_all_iff)
  obtain r rest where rr: "?rs = r # rest" using ne by (cases ?rs) auto
  have hd: "?s \<noteq> []" "isDigit (hd ?s)"
    using render_ends [OF good [of r]] rr by (auto simp: join_Cons)
  have "render_run (last ?rs) \<noteq> []" "isDigit (last (render_run (last ?rs)))"
    using render_ends [OF good [of "last ?rs"]] ne by simp_all
  then have last: "isDigit (last ?s)"
    using last_join [of "map render_run ?rs" "'',''"] ne by (simp add: last_map)
  have trim: "trim_space ?s = ?s"
    using hd last digit_not_space by (intro trim_space_plain) blast+
  have low: "lower_char c = c" if "isDigit c" for c
    using that by (auto simp: lower_char_def ascii_upper_def isDigit_char less_eq_char_def)
  obtain c t where ct: "?s = c # t" using hd(1) by (cases ?s) auto
  then have c: "isDigit c" "lower_char c = c" using hd(2) low by simp_all
  have "c \<noteq> CHR ''a''" "c \<noteq> CHR ''t''" using c(1) by (auto simp: isDigit_char)
  then have kw: "\<not> equal_fold ?s ''all''" "\<not> has_prefix (to_lower ?s) ''top:''"
    using c(2) by (auto simp: ct equal_fold_def to_lower_def has_prefix_def lower_char_def ascii_upper_def less_eq_char_def)
  have comma: "CHR '','' \<notin> set p" if m: "p \<in> set (map render_run ?rs)" for p
  proof
    assume "CHR '','' \<in> set p"
    moreover obtain q where "q \<in> set ?rs" "p = render_run q" using m unfolding set_map by blast
    ultimately have "isDigit CHR '','' \<or> CHR '','' = CHR ''-''" using render_chars [OF good] by blast
    then show False by (simp add: isDigit_char)
  qed
  have sp: "split CHR '','' ?s = map render_run ?rs" using ne comma by (intro split_join) auto
  have "sort (remdups (concat (map (\<lambda>(l, h). [l..h]) ?rs))) = sort (remdups ports)"
    by (rule sorted_distinct_set_unique) (use rs(2) in simp_all)
  then show ?thesis
    using hd(1) kw unfolding ParsePorts_def pl Let_def trim sp by (simp add: collect_render [OF rs(1)])
qed

lemma samePorts_eq: "samePorts a b \<longleftrightarrow> a = b"
  by (induction a b rule: samePorts.induct) auto

section \<open>The compiled-in ranking\<close>

text \<open>Distinctness by merging, which is quick to evaluate.\<close>

fun merge_lists :: "int list \<Rightarrow> int list \<Rightarrow> int list" where
  "merge_lists [] ys = ys"
| "merge_lists xs [] = xs"
| "merge_lists (x # xs) (y # ys) = (if x < y then x # merge_lists xs (y # ys) else y # merge_lists (x # xs) ys)"

fun merge_pairs :: "int list list \<Rightarrow> int list list" where
  "merge_pairs (a # b # ls) = merge_lists a b # merge_pairs ls"
| "merge_pairs ls = ls"

fun merge_rounds :: "nat \<Rightarrow> int list list \<Rightarrow> int list list" where
  "merge_rounds 0 ls = ls"
| "merge_rounds (Suc n) ls = merge_rounds n (merge_pairs ls)"

fun ascending :: "int list \<Rightarrow> bool" where
  "ascending (x # y # ys) = (x < y \<and> ascending (y # ys))"
| "ascending _ = True"

lemma merge_mset: "mset (merge_lists xs ys) = mset xs + mset ys"
  by (induction xs ys rule: merge_lists.induct) auto

lemma merge_pairs_mset: "mset (concat (merge_pairs ls)) = mset (concat ls)"
  by (induction ls rule: merge_pairs.induct) (auto simp: merge_mset)

lemma merge_rounds_mset: "mset (concat (merge_rounds n ls)) = mset (concat ls)"
  by (induction n arbitrary: ls) (simp_all add: merge_pairs_mset)

lemma ascending_distinct: "ascending xs \<Longrightarrow> distinct xs \<and> sorted xs"
  by (induction xs rule: ascending.induct) force+

lemma distinct_merge:
  assumes "ascending (concat (merge_rounds n (map (\<lambda>x. [x]) xs)))"
  shows "distinct xs"
proof -
  have "mset (concat (merge_rounds n (map (\<lambda>x. [x]) xs))) = mset xs"
    by (simp add: merge_rounds_mset)
  then show ?thesis using ascending_distinct [OF assms] mset_eq_imp_distinct_iff by blast
qed

lemma embedded_length: "length topPortsEmbedded = 1000"
  by code_simp

lemma embedded_range: "port_set topPortsEmbedded"
  unfolding port_set_def by code_simp

lemma embedded_distinct: "distinct topPortsEmbedded"
proof -
  have "ascending (concat (merge_rounds 10 (map (\<lambda>x. [x]) topPortsEmbedded)))" by code_simp
  then show ?thesis by (rule distinct_merge)
qed

section \<open>Every ranking is usable\<close>

lemma put_freq_keys: "set (map fst (put_freq p f seen)) = insert p (set (map fst seen))"
proof (induction p f seen rule: put_freq.induct)
  case (2 port freq q g seen)
  then show ?case by (cases "q = port") (simp_all add: insert_commute)
qed simp

lemma put_freq_distinct: "distinct (map fst seen) \<Longrightarrow> distinct (map fst (put_freq p f seen))"
proof (induction seen)
  case (Cons e seen)
  obtain q g where e: "e = (q, g)" by (cases e)
  show ?case using Cons put_freq_keys [of p f seen] by (auto simp: e)
qed simp

lemma service_line_port: "service_line pf line = Some (p, f) \<Longrightarrow> 1 \<le> p \<and> p \<le> 65535"
  by (auto simp: service_line_def Let_def split: if_splits option.splits)

lemma line_step_ok:
  assumes "distinct (map fst seen)" "port_set (map fst seen)"
  shows "distinct (map fst (line_step pf line seen)) \<and> port_set (map fst (line_step pf line seen))"
proof (cases "service_line pf line")
  case None
  then show ?thesis using assms by (simp add: line_step_def)
next
  case (Some pr)
  then obtain p f where e: "service_line pf line = Some (p, f)" by (cases pr) auto
  have "port_set (map fst (put_freq p f seen))"
    using service_line_port [OF e] assms(2) put_freq_keys [of p f seen] unfolding port_set_def list_all_iff by simp
  then show ?thesis using put_freq_distinct [OF assms(1)] by (simp add: line_step_def e)
qed

lemma lines_ok:
  "distinct (map fst seen) \<Longrightarrow> port_set (map fst seen) \<Longrightarrow>
    distinct (map fst (fold (line_step pf) lines seen)) \<and> port_set (map fst (fold (line_step pf) lines seen))"
  by (induction lines arbitrary: seen) (simp_all add: line_step_ok)

lemma freq_less_swo: "strict_weak_order freq_less"
proof
  fix x y z :: "int \<times> rat"
  show "freq_less x y \<Longrightarrow> \<not> freq_less y x" by (auto simp: freq_less_def split: if_splits)
  show "\<not> freq_less x y \<Longrightarrow> \<not> freq_less y z \<Longrightarrow> \<not> freq_less x z" by (auto simp: freq_less_def split: if_splits)
qed

interpretation freq_order: strict_weak_order freq_less
  by (rule freq_less_swo)

lemma parseServices_ok: "distinct (parseServices pf content) \<and> port_set (parseServices pf content)"
proof (cases content)
  case None
  then show ?thesis by (simp add: parseServices_def port_set_def)
next
  case (Some lines)
  let ?seen = "fold (line_step pf) lines []"
  have ok: "distinct (map fst ?seen)" "port_set (map fst ?seen)"
    using lines_ok [of "[]" pf lines] by (simp_all add: port_set_def)
  have m: "mset (sort_stable freq_less ?seen) = mset ?seen" by (rule freq_order.sort_stable_mset)
  then have "mset (map fst (sort_stable freq_less ?seen)) = mset (map fst ?seen)" by simp
  then have "distinct (map fst (sort_stable freq_less ?seen)) = distinct (map fst ?seen)"
    "set (map fst (sort_stable freq_less ?seen)) = set (map fst ?seen)"
    using mset_eq_imp_distinct_iff mset_eq_setD by blast+
  then show ?thesis using ok Some by (simp add: parseServices_def port_set_def list_all_iff)
qed

lemma loadRanking_ok:
  "distinct (fst (loadRanking pf disk files)) \<and> port_set (fst (loadRanking pf disk files)) \<and> fst (loadRanking pf disk files) \<noteq> []"
proof (induction files)
  case Nil
  have "topPortsEmbedded \<noteq> []" using embedded_length by force
  then show ?case using embedded_distinct embedded_range by simp
next
  case (Cons path files)
  then show ?case using parseServices_ok [of pf "disk path"] by (simp add: Let_def)
qed

end
