(* ===== verification/Targets.thy ===== *)
theory Targets
  imports Decimal
begin

text \<open>
  Scan targets of \<open>internal/netscan\<close>: \<open>validateTarget\<close> (\<open>nmap.go\<close>), \<open>ParseTargets\<close> and the walk over a CIDR block
  (\<open>targets.go\<close>). An address is its family and its number; \<open>netip.ParsePrefix\<close>, \<open>netip.ParseAddr\<close>,
  \<open>net.ParseIP\<close> and \<open>Addr.String\<close> are arguments. Shown: an accepted hostname cannot be an option, a list or a
  range of an external scanner; the walk visits exactly as many addresses as \<open>Len\<close> announces, each once and
  each inside the block, and neither the network nor the broadcast address of an IPv4 block wider than a /31.
\<close>

section \<open>Validation\<close>

datatype target_error = NoTarget | Dash string | NotAHost string | NoHostname string | NotACIDR string

definition shell_chars :: "char list" where
  "shell_chars = [CHR '' '', CHR 0x09, CHR 0x0A, CHR 0x0D, CHR 0x00, CHR '';'', CHR ''|'', CHR ''&'', CHR ''$'', CHR 0x60,
     CHR 0x27, CHR 0x22, CHR 0x5C, CHR ''<'', CHR ''>'', CHR ''('', CHR '')'', CHR ''{'', CHR ''}'', CHR ''['', CHR '']'',
     CHR ''*'', CHR ''?'', CHR ''!'', CHR '','']"

definition letter_char :: "char \<Rightarrow> bool" where
  "letter_char c \<longleftrightarrow> (CHR ''a'' \<le> c \<and> c \<le> CHR ''z'') \<or> (CHR ''A'' \<le> c \<and> c \<le> CHR ''Z'')"

definition label_char :: "char \<Rightarrow> bool" where
  "label_char c \<longleftrightarrow> letter_char c \<or> c = CHR ''-'' \<or> c = CHR ''_'' \<or> isDigit c"

definition validateTarget :: "(string \<Rightarrow> bool) \<Rightarrow> string \<Rightarrow> target_error option" where
  "validateTarget is_ip t0 =
     (let t = trim_space t0; labels = split CHR ''.'' t in
      if t = [] then Some NoTarget
      else if has_prefix t ''-'' then Some (Dash t)
      else if list_ex (\<lambda>c. c \<in> set shell_chars) t then Some (NotAHost t)
      else if is_ip t then None
      else if list_ex (\<lambda>label. label = [] \<or> list_ex (\<lambda>c. \<not> label_char c) label) labels then Some (NotAHost t)
      else if \<not> list_ex (list_ex letter_char) labels then Some (NoHostname t)
      else None)"

section \<open>Targets\<close>

record ip_prefix =
  ip_is4 :: bool
  ip_value :: nat
  ip_bits :: nat

record targets =
  tg_spec :: string
  tg_prefix :: "ip_prefix option"
  tg_single :: "string option"

definition bit_len :: "bool \<Rightarrow> nat" where
  "bit_len is4 = (if is4 then 32 else 128)"

definition host_bits :: "ip_prefix \<Rightarrow> nat" where
  "host_bits p = bit_len (ip_is4 p) - ip_bits p"

text \<open>\<open>Prefix.Masked\<close> clears the host bits.\<close>

definition masked :: "ip_prefix \<Rightarrow> ip_prefix" where
  "masked p = p\<lparr>ip_value := ip_value p div 2 ^ host_bits p * 2 ^ host_bits p\<rparr>"

definition ParseTargets :: "(string \<Rightarrow> ip_prefix option) \<Rightarrow> (string \<Rightarrow> string option) \<Rightarrow> (string \<Rightarrow> bool) \<Rightarrow> string
    \<Rightarrow> target_error + targets" where
  "ParseTargets parse_prefix parse_addr is_ip spec0 =
     (let spec = trim_space spec0 in
      if spec = [] then Inl NoTarget
      else if CHR ''/'' \<in> set spec then
        (case parse_prefix spec of
           None \<Rightarrow> Inl (NotACIDR spec)
         | Some p \<Rightarrow> Inr \<lparr>tg_spec = spec, tg_prefix = Some (masked p), tg_single = None\<rparr>)
      else
        (case validateTarget is_ip spec of
           Some e \<Rightarrow> Inl e
         | None \<Rightarrow> Inr \<lparr>tg_spec = spec, tg_prefix = None, tg_single = parse_addr spec\<rparr>))"

definition maxInt :: int where
  "maxInt = 2 ^ 63 - 1"

definition Len :: "targets \<Rightarrow> int" where
  "Len t =
     (case tg_prefix t of
        None \<Rightarrow> 1
      | Some p \<Rightarrow>
          (let bits = host_bits p in
           if bits > 40 then maxInt
           else
             (let total = 2 ^ bits;
                  total = (if ip_is4 p \<and> bits \<ge> 2 then total - 2 else total)
              in if total > maxInt then maxInt else total)))"

definition IsRange :: "targets \<Rightarrow> bool" where
  "IsRange t \<longleftrightarrow> tg_prefix t \<noteq> None \<and> Len t > 1"

definition targets_String :: "targets \<Rightarrow> string" where
  "targets_String t = (if \<not> IsRange t then tg_spec t else tg_spec t @ '' ('' @ Itoa (Len t) @ '' hosts)'')"

section \<open>The walk\<close>

definition contains :: "ip_prefix \<Rightarrow> nat \<Rightarrow> bool" where
  "contains p v \<longleftrightarrow> v div 2 ^ host_bits p = ip_value p div 2 ^ host_bits p"

text \<open>Setting every host bit changes nothing.\<close>

definition isBroadcast :: "ip_prefix \<Rightarrow> nat \<Rightarrow> bool" where
  "isBroadcast p v \<longleftrightarrow> v div 2 ^ host_bits p * 2 ^ host_bits p + (2 ^ host_bits p - 1) = v"

function walk :: "ip_prefix \<Rightarrow> bool \<Rightarrow> nat \<Rightarrow> nat list" where
  "walk p skipEdges v =
     (if \<not> contains p v then []
      else if skipEdges \<and> isBroadcast p v then []
      else if v + 1 < 2 ^ bit_len (ip_is4 p) then v # walk p skipEdges (v + 1)
      else [v])"
  by pat_completeness auto
termination
  by (relation "measure (\<lambda>(p, _, v). 2 ^ bit_len (ip_is4 p) - v)") auto

declare walk.simps [simp del]

definition skip_edges :: "ip_prefix \<Rightarrow> bool" where
  "skip_edges p \<longleftrightarrow> ip_is4 p \<and> ip_bits p \<le> 30"

definition visited :: "ip_prefix \<Rightarrow> nat list" where
  "visited p = walk p (skip_edges p) (if skip_edges p then ip_value p + 1 else ip_value p)"

definition each :: "(bool \<Rightarrow> nat \<Rightarrow> string) \<Rightarrow> targets \<Rightarrow> string list" where
  "each addr_string t =
     (case tg_prefix t of
        None \<Rightarrow> [case tg_single t of Some a \<Rightarrow> a | None \<Rightarrow> tg_spec t]
      | Some p \<Rightarrow> map (addr_string (ip_is4 p)) (visited p))"

text \<open>The callback: it is called on one address after the other until it answers false.\<close>

fun call_each :: "('s \<Rightarrow> string \<Rightarrow> 's \<times> bool) \<Rightarrow> string list \<Rightarrow> 's \<Rightarrow> 's" where
  "call_each fn [] s = s"
| "call_each fn (ip # ips) s = (case fn s ip of (s', go) \<Rightarrow> if go then call_each fn ips s' else s')"

definition Each :: "(bool \<Rightarrow> nat \<Rightarrow> string) \<Rightarrow> targets \<Rightarrow> ('s \<Rightarrow> string \<Rightarrow> 's \<times> bool) \<Rightarrow> 's \<Rightarrow> 's" where
  "Each addr_string t fn s = call_each fn (each addr_string t) s"

definition confirmHosts :: nat where
  "confirmHosts = 16"

definition sampleHosts :: "(bool \<Rightarrow> nat \<Rightarrow> string) \<Rightarrow> targets \<Rightarrow> nat \<Rightarrow> string list" where
  "sampleHosts addr_string t n = Each addr_string t (\<lambda>out ip. (out @ [ip], length out + 1 < n)) []"

section \<open>What validation rules out\<close>

lemma join_superset: "l \<in> set ls \<Longrightarrow> set l \<subseteq> set (join sep ls)"
  by (induction sep ls rule: join.induct) auto

lemma validateTarget_accepts:
  assumes "validateTarget is_ip t = None"
  shows "trim_space t \<noteq> [] \<and> hd (trim_space t) \<noteq> CHR ''-'' \<and> set (trim_space t) \<inter> set shell_chars = {}
    \<and> (is_ip (trim_space t)
       \<or> (list_all (\<lambda>c. label_char c \<or> c = CHR ''.'') (trim_space t) \<and> list_ex letter_char (trim_space t)))"
proof -
  let ?t = "trim_space t" and ?ls = "split CHR ''.'' (trim_space t)"
  have ne: "?t \<noteq> []" and d: "\<not> has_prefix ?t ''-''" and sh: "\<not> list_ex (\<lambda>c. c \<in> set shell_chars) ?t"
    using assms by (auto simp: validateTarget_def Let_def split: if_splits)
  have host: "is_ip ?t \<or> (\<not> list_ex (\<lambda>label. label = [] \<or> list_ex (\<lambda>c. \<not> label_char c) label) ?ls \<and> list_ex (list_ex letter_char) ?ls)"
    using assms ne d sh by (auto simp: validateTarget_def Let_def split: if_splits)
  have jn: "join ''.'' ?ls = ?t" by (rule join_split)
  have c: "hd ?t \<noteq> CHR ''-''" using d ne by (cases ?t) (auto simp: has_prefix_def)
  have s: "set ?t \<inter> set shell_chars = {}" using sh by (auto simp: list_ex_iff)
  have "list_all (\<lambda>c. label_char c \<or> c = CHR ''.'') ?t \<and> list_ex letter_char ?t" if "\<not> is_ip ?t"
  proof
    have ls: "\<forall>l \<in> set ?ls. \<forall>c \<in> set l. label_char c" "\<exists>l \<in> set ?ls. \<exists>c \<in> set l. letter_char c"
      using host that by (auto simp: list_ex_iff)
    show "list_all (\<lambda>c. label_char c \<or> c = CHR ''.'') ?t"
      using ls(1) join_chars [of _ "''.''" ?ls] unfolding list_all_iff jn by fastforce
    obtain l c where l: "l \<in> set ?ls" "c \<in> set l" "letter_char c" using ls(2) by blast
    have "set l \<subseteq> set (join ''.'' ?ls)" using l(1) by (rule join_superset)
    then show "list_ex letter_char ?t" using l unfolding jn list_ex_iff by blast
  qed
  then show ?thesis using ne c s by blast
qed

section \<open>The walk is an interval\<close>

definition proper_prefix :: "ip_prefix \<Rightarrow> bool" where
  "proper_prefix p \<longleftrightarrow> ip_bits p \<le> bit_len (ip_is4 p) \<and> ip_value p < 2 ^ bit_len (ip_is4 p)
     \<and> ip_value p mod 2 ^ host_bits p = 0"

lemma masked_proper:
  assumes "ip_bits p \<le> bit_len (ip_is4 p)" "ip_value p < 2 ^ bit_len (ip_is4 p)"
  shows "proper_prefix (masked p)"
proof -
  have "ip_value p div 2 ^ host_bits p * 2 ^ host_bits p \<le> ip_value p" by simp
  then have "ip_value p div 2 ^ host_bits p * 2 ^ host_bits p < 2 ^ bit_len (ip_is4 p)" using assms(2) by linarith
  then show ?thesis using assms(1) by (simp add: proper_prefix_def masked_def host_bits_def)
qed

lemma block_fits:
  assumes "proper_prefix p"
  shows "ip_value p + 2 ^ host_bits p \<le> 2 ^ bit_len (ip_is4 p)"
proof -
  let ?h = "host_bits p" and ?n = "bit_len (ip_is4 p)"
  have hn: "?h \<le> ?n" by (simp add: host_bits_def)
  obtain k where k: "ip_value p = 2 ^ ?h * k" using assms by (auto simp: proper_prefix_def)
  have n: "(2 :: nat) ^ ?n = 2 ^ ?h * 2 ^ (?n - ?h)" using hn by (simp flip: power_add)
  have "2 ^ ?h * k < (2 :: nat) ^ ?h * 2 ^ (?n - ?h)" using assms k n by (simp add: proper_prefix_def)
  then have "Suc k \<le> 2 ^ (?n - ?h)" by simp
  then have "2 ^ ?h * Suc k \<le> 2 ^ ?h * (2 :: nat) ^ (?n - ?h)" by (rule mult_le_mono2)
  then show ?thesis using k n by simp
qed

lemma div_block:
  assumes "0 < (m :: nat)"
  shows "v div m = k \<longleftrightarrow> m * k \<le> v \<and> v < m * Suc k"
proof
  assume "v div m = k"
  then show "m * k \<le> v \<and> v < m * Suc k"
    using times_div_less_eq_dividend [of m v] dividend_less_times_div [OF assms, of v] by simp
next
  assume "m * k \<le> v \<and> v < m * Suc k"
  then show "v div m = k" by (intro div_nat_eqI) (simp_all add: mult.commute)
qed

lemma contains_block:
  assumes "proper_prefix p"
  shows "contains p v \<longleftrightarrow> ip_value p \<le> v \<and> v < ip_value p + 2 ^ host_bits p"
proof -
  obtain k where k: "ip_value p = 2 ^ host_bits p * k" using assms by (auto simp: proper_prefix_def)
  have "v div 2 ^ host_bits p = k \<longleftrightarrow> 2 ^ host_bits p * k \<le> v \<and> v < 2 ^ host_bits p * Suc k"
    by (rule div_block) simp
  then show ?thesis by (simp add: contains_def k add.commute)
qed

lemma broadcast_block:
  assumes "proper_prefix p" "contains p v"
  shows "isBroadcast p v \<longleftrightarrow> v = ip_value p + 2 ^ host_bits p - 1"
proof -
  have "v div 2 ^ host_bits p * 2 ^ host_bits p = ip_value p"
    using assms by (auto simp: contains_def proper_prefix_def)
  then show ?thesis by (auto simp: isBroadcast_def)
qed

text \<open>From an address of the block, or one past it, the walk is the rest of the block.\<close>

lemma walk_interval:
  assumes "proper_prefix p" "ip_value p \<le> v" "v \<le> ip_value p + 2 ^ host_bits p"
  shows "walk p sk v = [v ..< ip_value p + 2 ^ host_bits p - (if sk then 1 else 0)]"
  using assms(2,3)
proof (induction "ip_value p + 2 ^ host_bits p - v" arbitrary: v)
  case 0
  then have "\<not> contains p v" using contains_block [OF assms(1)] by simp
  moreover have "ip_value p + 2 ^ host_bits p \<le> v" using 0 by simp
  ultimately show ?case by (simp add: walk.simps [of p sk v])
next
  case (Suc n)
  let ?e = "ip_value p + 2 ^ host_bits p"
  have v: "v < ?e" using Suc(2) by simp
  then have c: "contains p v" using contains_block [OF assms(1)] Suc.prems(1) by simp
  note b = broadcast_block [OF assms(1) c]
  have next_v: "walk p sk v =
    (if sk \<and> v = ?e - 1 then []
     else v # (if v + 1 < 2 ^ bit_len (ip_is4 p) then walk p sk (v + 1) else []))"
    using c b by (subst walk.simps) simp
  show ?case
  proof (cases "sk \<and> v = ?e - 1")
    case True
    then show ?thesis unfolding next_v by simp
  next
    case inner: False
    have cons: "[v ..< ?e - (if sk then 1 else 0)] = v # [v + 1 ..< ?e - (if sk then 1 else 0)]"
      using v inner by (subst upt_conv_Cons) auto
    have rest: "walk p sk (v + 1) = [v + 1 ..< ?e - (if sk then 1 else 0)]"
      using Suc(1) [of "v + 1"] Suc(2) Suc.prems v by simp
    show ?thesis
    proof (cases "v + 1 < 2 ^ bit_len (ip_is4 p)")
      case True
      then show ?thesis unfolding next_v cons rest [symmetric] using inner by simp
    next
      case False
      then have "?e \<le> v + 1" using block_fits [OF assms(1)] by linarith
      then have none: "[v + 1 ..< ?e - (if sk then 1 else 0)] = []" by simp
      show ?thesis unfolding next_v cons none using inner False by auto
    qed
  qed
qed

lemma visited_interval:
  assumes "proper_prefix p"
  shows "visited p =
    (if skip_edges p then [ip_value p + 1 ..< ip_value p + 2 ^ host_bits p - 1]
     else [ip_value p ..< ip_value p + 2 ^ host_bits p])"
proof -
  have "(1 :: nat) \<le> 2 ^ host_bits p" by simp
  then show ?thesis using walk_interval [OF assms] by (simp add: visited_def)
qed

text \<open>The walk visits as many addresses as \<open>Len\<close> announces.\<close>

lemma skip_edges_bits:
  assumes "proper_prefix p" "ip_is4 p"
  shows "skip_edges p \<longleftrightarrow> 2 \<le> host_bits p"
  using assms by (auto simp: skip_edges_def host_bits_def bit_len_def proper_prefix_def)

lemma interval_lengths:
  assumes "(1 :: nat) \<le> m"
  shows "length [a ..< a + m] = m" "length [a + 1 ..< a + m - 1] = m - 2"
  using assms by simp_all

lemma visited_count:
  assumes "proper_prefix p"
  shows "length (visited p) = 2 ^ host_bits p - (if skip_edges p then 2 else 0)"
proof -
  have "(1 :: nat) \<le> 2 ^ host_bits p" by simp
  then show ?thesis using interval_lengths [of "2 ^ host_bits p" "ip_value p"]
    unfolding visited_interval [OF assms] by simp
qed

lemma Len_prefix:
  assumes "host_bits p \<le> 40" "tg_prefix t = Some p"
  shows "Len t = 2 ^ host_bits p - (if ip_is4 p \<and> 2 \<le> host_bits p then 2 else 0)"
proof -
  obtain m where m: "(2 :: int) ^ host_bits p = m" by blast
  have "(2 :: int) ^ host_bits p \<le> 2 ^ 40" by (rule power_increasing [OF assms(1)]) simp
  moreover have "(2 :: int) ^ 40 \<le> maxInt" by (simp add: maxInt_def)
  ultimately have "m \<le> maxInt" "\<not> 40 < host_bits p" using m assms(1) by linarith+
  then show ?thesis using assms(2) unfolding Len_def Let_def by (auto simp only: m option.case split: if_splits)
qed

lemma length_visited:
  assumes "proper_prefix p" "host_bits p \<le> 40" "tg_prefix t = Some p"
  shows "int (length (visited p)) = Len t"
proof -
  have sk: "skip_edges p \<longleftrightarrow> ip_is4 p \<and> 2 \<le> host_bits p"
    using skip_edges_bits [OF assms(1)] by (auto simp: skip_edges_def)
  have "(2 :: nat) ^ 2 \<le> 2 ^ host_bits p" if "skip_edges p"
    by (rule power_increasing) (use that sk in simp_all)
  then have "int (2 ^ host_bits p - (if skip_edges p then 2 else 0)) = 2 ^ host_bits p - (if skip_edges p then 2 else 0)"
    by (cases "skip_edges p") (simp_all add: of_nat_diff)
  then show ?thesis unfolding visited_count [OF assms(1)] Len_prefix [OF assms(2,3)] sk by simp
qed

lemma visited_mem:
  assumes "proper_prefix p"
  shows "v \<in> set (visited p) \<longleftrightarrow>
    (if skip_edges p then ip_value p < v \<and> v < ip_value p + 2 ^ host_bits p - 1
     else ip_value p \<le> v \<and> v < ip_value p + 2 ^ host_bits p)"
  unfolding visited_interval [OF assms] by (cases "skip_edges p") (simp_all only: if_True if_False set_upt, simp_all add: Suc_le_eq)

lemma visited_inside:
  assumes "proper_prefix p" "v \<in> set (visited p)"
  shows "contains p v"
  using assms(2) unfolding visited_mem [OF assms(1)] contains_block [OF assms(1)]
  by (cases "skip_edges p") (simp_all only: if_True if_False, linarith+)

lemma visited_no_edges:
  assumes "proper_prefix p" "skip_edges p" "v \<in> set (visited p)"
  shows "v \<noteq> ip_value p" "\<not> isBroadcast p v"
proof -
  have v: "ip_value p < v" "v < ip_value p + 2 ^ host_bits p - 1"
    using assms(2,3) by (simp_all only: visited_mem [OF assms(1)] if_True)
  show "v \<noteq> ip_value p" using v(1) by simp
  show "\<not> isBroadcast p v"
    using v(2) by (simp only: broadcast_block [OF assms(1) visited_inside [OF assms(1,3)]])
qed

lemma visited_block:
  assumes "proper_prefix p"
  shows "distinct (visited p) \<and> list_all (contains p) (visited p)
    \<and> (skip_edges p \<longrightarrow> ip_value p \<notin> set (visited p) \<and> list_all (\<lambda>v. \<not> isBroadcast p v) (visited p))"
proof -
  have "distinct (visited p)" unfolding visited_interval [OF assms] by simp
  then show ?thesis
    unfolding list_all_iff using visited_inside [OF assms] visited_no_edges [OF assms] by blast
qed

text \<open>A callback that stops after n addresses sees the first n.\<close>

lemma call_each_sample:
  assumes "length out < n"
  shows "call_each (\<lambda>out ip. (out @ [ip], length out + 1 < n)) ips out = out @ take (n - length out) ips"
  using assms
proof (induction ips arbitrary: out)
  case (Cons ip ips)
  show ?case
  proof (cases "length out + 1 < n")
    case True
    then have "n - length out = Suc (n - Suc (length out))" by simp
    then show ?thesis using True Cons.IH [of "out @ [ip]"] by simp
  next
    case False
    then have "n - length out = 1" using Cons.prems by simp
    then show ?thesis using False by simp
  qed
qed simp

lemma sampleHosts_take: "0 < n \<Longrightarrow> sampleHosts addr_string t n = take n (each addr_string t)"
  using call_each_sample [of "[]" n "each addr_string t"] by (simp add: sampleHosts_def Each_def)

end
