(* ===== verification/Divergences.thy ===== *)
theory Divergences
  imports Agreement Osv Evaluate
begin

text \<open>
  Concrete inputs on which the code does something other than its comments say, or than another part of the
  program does with the same values.
\<close>

text \<open>\<open>NormalizeStatus\<close> replaces spaces before it trims them, so no status with a leading space is known.\<close>

lemma status_leading_space:
  "NormalizeStatus (status_text st) = Some st \<and> NormalizeStatus (CHR '' '' # s) = None"
  using NormalizeStatus_text NormalizeStatus_leading_space by blast

text \<open>The generic comparison contradicts dpkg and rpm at its exact grade.\<close>

lemma generic_exact_disagrees:
  "compareGeneric ''1.0-1-2'' ''1.0-2'' = Some (-1, Exact) \<and> debian_cmp ''1.0-1-2'' ''1.0-2'' = 1
   \<and> compareGeneric ''1.0-3-1'' ''1.0.2'' = Some (-1, Exact) \<and> rpm_cmp ''1.0-3-1'' ''1.0.2'' = 1"
  by (intro conjI; code_simp)

text \<open>A missing Debian revision is level with revision 0, not below every stated one.\<close>

lemma debian_absent_revision: "debian_cmp ''1.0'' ''1.0-0'' = 0 \<and> debian_cmp ''1.0'' ''1.0-~rc1'' = 1"
  by (intro conjI; code_simp)

text \<open>The Maven ordering is not transitive.\<close>

lemma maven_not_transitive:
  "compareMaven ''1.sp.1'' ''1-rc'' = Some (-1, Exact) \<and> compareMaven ''1-rc'' ''1'' = Some (-1, Exact)
   \<and> compareMaven ''1'' ''1.sp.1'' = Some (-1, Exact)"
  using maven_cycle by blast

text \<open>A CVSS 3 vector is scored without its required metric S.\<close>

lemma scope_not_required:
  "cvssBaseScore ''CVSS:3.1/AV:N/AC:L/PR:N/UI:N/C:H/I:H/A:H'' = Some (98 / 10)"
  by (rule scope_missing)

text \<open>Two spellings of one CVE make an OSV record look like a bundle, and its alias is dropped.\<close>

lemma alias_spelled_twice:
  "countCVEs (DedupeStrings [''CVE-2024-1'', ''cve-2024-1'']) = 2"
  by (rule countCVEs_spelling)

end
