(* ===== verification/Feed_Examples.thy ===== *)
theory Feed_Examples
  imports Cve5 Ports Targets Divergences
begin

text \<open>
  Concrete feed records and port specifications, and what the model answers on them. The results of the
  root theory about the parsers are applied to them.
\<close>

definition introduced_at :: "string \<Rightarrow> osvEvent" where
  "introduced_at v = \<lparr>oe_Introduced = v, oe_Fixed = [], oe_LastAffected = [], oe_Limit = []\<rparr>"

definition fixed_at :: "string \<Rightarrow> osvEvent" where
  "fixed_at v = \<lparr>oe_Introduced = [], oe_Fixed = v, oe_LastAffected = [], oe_Limit = []\<rparr>"

definition bundle_record :: OSV where
  "bundle_record = \<lparr>osv_ID = ''GHSA-1'', osv_Aliases = [''CVE-2024-1'', '' CVE-2024-2''], osv_Related = [], osv_Upstream = [],
     osv_Modified = [], osv_Published = [], osv_Withdrawn = [], osv_Summary = [], osv_Details = [], osv_Severity = [],
     osv_Affected = [], osv_References = [], osv_CWEIDs = [], osv_Band = []\<rparr>"

lemma bundle_parses: "\<exists>v :: nat Vulnerability. OSVToModel (\<lambda>_ _. None) (\<lambda>_. None) (Inr bundle_record) ''osv'' = Inr v"
proof -
  have "trim_space (osv_ID bundle_record) \<noteq> []" by code_simp
  then show ?thesis by (simp add: OSVToModel_def Let_def split: prod.splits)
qed

lemma bundle_id: "NormalizeID (osv_ID bundle_record) = ''GHSA-1''"
  by code_simp

lemma bundle_named: "''CVE-2024-2'' \<in> named_others ''GHSA-1'' bundle_record"
proof -
  have "trim_space '' CVE-2024-2'' = ''CVE-2024-2''" "\<not> equal_fold ''CVE-2024-2'' ''GHSA-1''" by code_simp+
  then show ?thesis by (auto simp: named_others_def bundle_record_def image_iff)
qed

definition one_match :: cpeMatch where
  "one_match = \<lparr>cm_Vulnerable = True, cm_Criteria = ''cpe:2.3:a:acme:gizmo:*:*:*:*:*:*:*:*'', cm_StartIncluding = ''1.0'',
     cm_StartExcluding = [], cm_EndIncluding = [], cm_EndExcluding = ''2.0''\<rparr>"

definition one_config :: cpeConfiguration where
  "one_config = \<lparr>cc_Operator = [], cc_Negate = False,
     cc_Nodes = [\<lparr>cn_Operator = ''OR'', cn_Negate = False, cn_CPEMatch = [one_match]\<rparr>]\<rparr>"

lemma one_config_live: "live_matches [one_config] = [(False, one_match)]"
  by code_simp

lemma one_config_row: "\<exists>r. cpeAffected [one_config] ''nvd'' = [r]"
proof -
  have "set (map row_key (cpeAffected [one_config] ''nvd'')) = {key_of (False, one_match)}"
    "distinct (map row_key (cpeAffected [one_config] ''nvd''))"
    using cpeAffected_keys [of "[one_config]" "''nvd''"] by (simp_all add: one_config_live)
  then have "length (map row_key (cpeAffected [one_config] ''nvd'')) = 1"
    by (metis distinct_card card.insert card.empty finite.emptyI insert_absorb insert_not_empty One_nat_def)
  then show ?thesis by (cases "cpeAffected [one_config] ''nvd''") auto
qed

lemma one_config_key:
  assumes "cpeAffected [one_config] ''nvd'' = [r]"
  shows "of_key (row_key r) (live_matches [one_config]) = [one_match]"
proof -
  have "{row_key r} = {key_of (False, one_match)}"
    using cpeAffected_keys(1) [of "[one_config]" "''nvd''"] by (simp add: assms one_config_live)
  then show ?thesis by (simp add: one_config_live of_key_def)
qed

definition changing_version :: cveVersion where
  "changing_version = \<lparr>cv_Version = ''1.0-1'', cv_Status = ''affected'', cv_LessThan = ''2.0-1'', cv_LessThanOrEqual = [],
     cv_VersionType = ''custom'', cv_Changes = [\<lparr>cg_At = ''1.4-1'', cg_Status = ''unaffected''\<rparr>]\<rparr>"

definition no_product :: "cveVersion list \<Rightarrow> cveAffected" where
  "no_product vs = \<lparr>ca_Vendor = ''acme'', ca_Product = ''gizmo'', ca_PackageName = [], ca_CPEs = [], ca_PackageURL = [],
     ca_DefaultStatus = [], ca_Versions = vs\<rparr>"

definition no_rows :: status_rows where
  "no_rows = (\<lambda>_. None)"

lemma ParsePorts_example: "ParsePorts ranked (portList [80, 22, 81]) = Inr [22, 80, 81]"
  using ParsePorts_portList [of "[80, 22, 81]" ranked] by (simp add: port_set_def)

definition quad :: ip_prefix where
  "quad = \<lparr>ip_is4 = True, ip_value = 0xC0A80103, ip_bits = 30\<rparr>"

definition quad_prefix :: "string \<Rightarrow> ip_prefix option" where
  "quad_prefix s = (if s = ''192.168.1.3/30'' then Some quad else None)"

lemma quad_target:
  "ParseTargets quad_prefix parse_addr is_ip ''192.168.1.3/30''
     = Inr \<lparr>tg_spec = ''192.168.1.3/30'', tg_prefix = Some (masked quad), tg_single = None\<rparr>"
proof -
  have "trim_space ''192.168.1.3/30'' = ''192.168.1.3/30''" by code_simp
  then show ?thesis by (simp add: ParseTargets_def quad_prefix_def)
qed

lemma quad_prefix_fits: "quad_prefix s = Some q \<Longrightarrow> ip_bits q \<le> bit_len (ip_is4 q) \<and> ip_value q < 2 ^ bit_len (ip_is4 q)"
  by (auto simp: quad_prefix_def quad_def bit_len_def split: if_splits)

lemma quad_bits: "host_bits (masked quad) = 2"
  by (simp add: host_bits_def masked_def quad_def bit_len_def)

lemma quad_Len: "Len \<lparr>tg_spec = spec, tg_prefix = Some (masked quad), tg_single = None\<rparr> = 2"
  using Len_prefix [of "masked quad"] quad_bits by (simp add: masked_def quad_def)

end
