(* ===== verification/Package_Url.thy ===== *)
theory Package_Url
  imports Distro Identity "HOL-Library.List_Lexorder"
begin

text \<open>
  \<open>internal/inventory/purl.go\<close>: a package URL taken apart right to left, put together again, and the component
  it describes. A map of qualifiers that is only looked up is a partial map, one that is printed the list of
  its entries. The code iterates over runes where it escapes; text is valid UTF-8 there, so that the runes it
  escapes are single bytes. Shown: what \<open>buildPURL\<close> prints, both this parser and the matcher's own read back to
  the same parts, and \<open>normalisePURL\<close> changes neither what a purl parses to nor, applied twice, the purl.
\<close>

record package =
  k_Type :: string
  k_Namespace :: string
  k_Name :: string
  k_Version :: string
  k_Qualifiers :: "string \<rightharpoonup> string"
  k_Subpath :: string

definition is_slash :: "char \<Rightarrow> bool" where
  "is_slash c \<longleftrightarrow> c = CHR ''/''"

definition trim_slashes :: "string \<Rightarrow> string" where
  "trim_slashes s = rev (dropWhile is_slash (rev (dropWhile is_slash s)))"

definition decodePURLPath :: "string \<Rightarrow> string" where
  "decodePURLPath s = join ''/'' (map unescape (split CHR ''/'' s))"

definition package_qualifier :: "string \<Rightarrow> (string \<rightharpoonup> string) \<Rightarrow> (string \<rightharpoonup> string)" where
  "package_qualifier kv out =
     (let (k0, v, ok) = cut CHR ''='' kv; k = to_lower (trim_space k0) in
      if \<not> ok \<or> k = [] \<or> v = [] then out else out(k \<mapsto> unescape v))"

definition parseQualifiers :: "string \<Rightarrow> (string \<rightharpoonup> string)" where
  "parseQualifiers s = fold package_qualifier (split CHR ''&'' s) Map.empty"

text \<open>The text after the type: version, namespace and name.\<close>

definition package_path :: "string \<Rightarrow> string \<times> string \<times> string" where
  "package_path rest0 =
     (let (rest, version) =
            (case split_last CHR ''@'' rest0 of
               Some (h, t) \<Rightarrow> if CHR ''/'' \<notin> set t then (h, unescape t) else (rest0, [])
             | None \<Rightarrow> (rest0, []));
          path = trim_slashes rest
      in (case split_last CHR ''/'' path of
            Some (h, t) \<Rightarrow> (version, decodePURLPath h, unescape t)
          | None \<Rightarrow> (version, [], unescape path)))"

definition package_rest :: "string \<Rightarrow> package option" where
  "package_rest rest0 =
     (let (rest1, sub) =
            (case split_last CHR ''#'' rest0 of Some (h, t) \<Rightarrow> (h, trim_slashes t) | None \<Rightarrow> (rest0, []));
          (rest2, quals) =
            (case split_last CHR ''?'' rest1 of Some (h, t) \<Rightarrow> (h, parseQualifiers t) | None \<Rightarrow> (rest1, Map.empty))
      in (case split_first CHR ''/'' (dropWhile is_slash rest2) of
            None \<Rightarrow> None
          | Some (ty, rest3) \<Rightarrow>
              (let (version, namespace, name) = package_path rest3 in
               if ty = [] \<or> name = [] then None
               else Some \<lparr>k_Type = to_lower ty, k_Namespace = namespace, k_Name = name, k_Version = version,
                      k_Qualifiers = quals, k_Subpath = sub\<rparr>)))"

definition parsePackage :: "string \<Rightarrow> package option" where
  "parsePackage s0 =
     (let s = trim_space s0 in
      if length s < 4 \<or> \<not> equal_fold (take 4 s) ''pkg:'' then None else package_rest (drop 4 s))"

definition normalisePackage :: "string \<Rightarrow> string" where
  "normalisePackage s0 =
     (let s = trim_space s0 in
      case parsePackage s of
        None \<Rightarrow> []
      | Some p \<Rightarrow> ''pkg:'' @ k_Type p @ dropWhile (\<lambda>c. \<not> is_slash c) (dropWhile is_slash (drop 4 s)))"

section \<open>Printing\<close>

definition reserved :: "char \<Rightarrow> bool" where
  "reserved c \<longleftrightarrow> c \<in> {CHR ''/'', CHR ''?'', CHR ''#'', CHR ''@'', CHR ''%'', CHR '' '', CHR ''&''}"

definition hex_digit :: "nat \<Rightarrow> char" where
  "hex_digit n = (if n < 10 then char_of (48 + n) else char_of (55 + n))"

definition escape_char :: "char \<Rightarrow> string" where
  "escape_char c =
     (if reserved c then [CHR ''%'', hex_digit (of_char c div 16), hex_digit (of_char c mod 16)] else [c])"

definition escapePURL :: "string \<Rightarrow> string" where
  "escapePURL s = concat (map escape_char s)"

definition print_pair :: "string \<times> string \<Rightarrow> string" where
  "print_pair kv = (case kv of (k, v) \<Rightarrow> k @ ''='' @ escapePURL v)"

definition print_qualifiers :: "(string \<times> string) list \<Rightarrow> string" where
  "print_qualifiers qs = join ''&'' (map print_pair qs)"

definition buildPURL :: "string \<Rightarrow> string \<Rightarrow> string \<Rightarrow> string \<Rightarrow> (string \<times> string) list \<Rightarrow> string" where
  "buildPURL ty namespace name version qualifiers =
     (let keys = sort_key fst (filter (\<lambda>(k, v). v \<noteq> []) qualifiers) in
      ''pkg:'' @ to_lower ty @ ''/'' @
      (if namespace \<noteq> [] then escapePURL (to_lower namespace) @ ''/'' else []) @
      escapePURL name @
      (if version \<noteq> [] then ''@'' @ escapePURL version else []) @
      (if keys \<noteq> [] then ''?'' @ print_qualifiers keys else []))"

section \<open>The component of a package URL\<close>

definition packageName :: "package \<Rightarrow> string" where
  "packageName p =
     (if k_Namespace p = [] then k_Name p
      else if k_Type p = ''maven'' then k_Namespace p @ '':'' @ k_Name p
      else if k_Type p = ''npm'' then ''@'' @ trim_prefix (k_Namespace p) ''@'' @ ''/'' @ k_Name p
      else if k_Type p \<in> {''deb'', ''rpm'', ''apk'', ''alpm'', ''generic'', ''docker'', ''oci'', ''conan''} then k_Name p
      else k_Namespace p @ ''/'' @ k_Name p)"

definition vendorFromPURL :: "package \<Rightarrow> string" where
  "vendorFromPURL p =
     (if k_Type p \<in> {''deb'', ''rpm'', ''apk'', ''alpm'', ''generic'', ''docker'', ''oci''} then []
      else trim_prefix (k_Namespace p) ''@'')"

definition purl_ecosystems :: "(string \<times> string) list" where
  "purl_ecosystems =
    [(''npm'', ''npm''), (''pypi'', ''PyPI''), (''maven'', ''Maven''), (''golang'', ''Go''), (''cargo'', ''crates.io''),
     (''gem'', ''RubyGems''), (''nuget'', ''NuGet''), (''composer'', ''Packagist''), (''hex'', ''Hex''), (''pub'', ''Pub''),
     (''cran'', ''CRAN''), (''hackage'', ''Hackage''), (''swift'', ''SwiftURL''), (''opam'', ''opam''), (''julia'', ''Julia''),
     (''githubactions'', ''GitHub Actions''), (''github-actions'', ''GitHub Actions'')]"

definition qualifier :: "package \<Rightarrow> string \<Rightarrow> string" where
  "qualifier p k = (case k_Qualifiers p k of Some v \<Rightarrow> v | None \<Rightarrow> [])"

definition ecosystemForPURL :: "package \<Rightarrow> string" where
  "ecosystemForPURL p =
     (case map_of purl_ecosystems (k_Type p) of
        Some eco \<Rightarrow> eco
      | None \<Rightarrow>
          if k_Type p \<in> {''deb'', ''rpm'', ''apk''} then distroEcosystem (k_Namespace p) (qualifier p ''distro'') else [])"

definition componentFromPURL :: "package \<Rightarrow> string \<Rightarrow> string \<Rightarrow> Component" where
  "componentFromPURL p normalised origin =
     \<lparr>c_Name = packageName p, c_Version = k_Version p, c_Vendor = vendorFromPURL p, c_Ecosystem = ecosystemForPURL p,
      c_PURL = normalised, c_CPE = [], c_Origin = origin\<rparr>"

section \<open>Escaping\<close>

lemma escape_table:
  "escape_char CHR ''/'' = ''%2F''" "escape_char CHR ''?'' = ''%3F''" "escape_char CHR ''#'' = ''%23''"
  "escape_char CHR ''@'' = ''%40''" "escape_char CHR ''%'' = ''%25''" "escape_char CHR '' '' = ''%20''"
  "escape_char CHR ''&'' = ''%26''"
  by (simp_all add: escape_char_def reserved_def hex_digit_def char_of_eq_iff take_bit_eq_mod)

lemma escape_plain: "\<not> reserved c \<Longrightarrow> escape_char c = [c]"
  by (simp add: escape_char_def)

lemma reserved_cases:
  assumes "reserved c"
  obtains "c = CHR ''/''" | "c = CHR ''?''" | "c = CHR ''#''" | "c = CHR ''@''" | "c = CHR ''%''" | "c = CHR '' ''" | "c = CHR ''&''"
  using assms by (auto simp: reserved_def)

lemma char_codes:
  "char_of (47 :: nat) = CHR ''/''" "char_of (63 :: nat) = CHR ''?''" "char_of (35 :: nat) = CHR ''#''"
  "char_of (64 :: nat) = CHR ''@''" "char_of (37 :: nat) = CHR ''%''" "char_of (32 :: nat) = CHR '' ''"
  "char_of (38 :: nat) = CHR ''&''"
  by (simp_all add: char_of_eq_iff take_bit_eq_mod)

lemma unescape_char: "path_unescape (escape_char c @ t) = map_option ((#) c) (path_unescape t)"
proof (cases "reserved c")
  case True
  then show ?thesis
    by (cases rule: reserved_cases) (simp_all add: escape_table unhex_def isDigit_def less_eq_char_def char_codes)
next
  case False
  then have "c \<noteq> CHR ''%''" by (simp add: reserved_def)
  then show ?thesis by (simp add: escape_plain [OF False])
qed

lemma unescape_escaped: "path_unescape (escapePURL s) = Some s"
  by (induction s) (simp_all add: escapePURL_def unescape_char)

lemma unescape_escape [simp]: "unescape (escapePURL s) = s"
  by (simp add: unescape_def unescape_escaped)

lemma escape_alphabet: "list_all (\<lambda>d. d = CHR ''%'' \<or> isAlnum d) ''%2F34056''"
  by code_simp

lemma escape_reserved_set: "reserved c \<Longrightarrow> set (escape_char c) \<subseteq> set ''%2F34056''"
  by (elim reserved_cases) (simp_all add: escape_table)

lemma escape_char_chars: "d \<in> set (escape_char c) \<Longrightarrow> d = CHR ''%'' \<or> isAlnum d \<or> (d = c \<and> \<not> reserved c)"
  using escape_reserved_set [of c] escape_alphabet unfolding list_all_iff
  by (cases "reserved c") (blast, simp add: escape_plain)

lemma escapePURL_chars:
  assumes "c \<in> set (escapePURL s)"
  shows "c = CHR ''%'' \<or> isAlnum c \<or> (c \<in> set s \<and> \<not> reserved c)"
  using assms escape_char_chars unfolding escapePURL_def by fastforce

lemma syntax_not_alnum: "list_all (\<lambda>c. \<not> isAlnum c \<and> c \<noteq> CHR ''%'' \<and> reserved c) ''/?#@& ''"
  by code_simp

lemma escaped_no_syntax: "set (escapePURL s) \<inter> {CHR ''/'', CHR ''?'', CHR ''#'', CHR ''@'', CHR ''&'', CHR '' ''} = {}"
proof -
  have "c \<notin> set (escapePURL s)" if "c \<in> set ''/?#@& ''" for c
    using escapePURL_chars [of c s] syntax_not_alnum that unfolding list_all_iff by blast
  then show ?thesis by (simp add: disjoint_iff)
qed

lemma escapePURL_Nil [simp]: "escapePURL s = [] \<longleftrightarrow> s = []" "escapePURL [] = []"
  by (cases s; simp add: escapePURL_def escape_char_def)+

lemma escaped_free [simp]:
  "CHR ''/'' \<notin> set (escapePURL s)" "CHR ''?'' \<notin> set (escapePURL s)" "CHR ''#'' \<notin> set (escapePURL s)"
  "CHR ''@'' \<notin> set (escapePURL s)" "CHR ''&'' \<notin> set (escapePURL s)"
  using escaped_no_syntax [of s] by blast+

section \<open>What is printed reads back\<close>

definition type_ok :: "string \<Rightarrow> bool" where
  "type_ok ty \<longleftrightarrow> ty \<noteq> [] \<and> list_all isAlnum ty"

text \<open>Text whose only white space is the blank, which is escaped.\<close>

definition text_ok :: "string \<Rightarrow> bool" where
  "text_ok s \<longleftrightarrow> list_all (\<lambda>c. is_space c \<longrightarrow> c = CHR '' '') s"

definition key_ok :: "string \<Rightarrow> bool" where
  "key_ok k \<longleftrightarrow> k \<noteq> [] \<and> list_all ascii_lower k"

lemma alnum_free:
  assumes "list_all isAlnum s"
  shows "CHR ''/'' \<notin> set s" "CHR ''?'' \<notin> set s" "CHR ''#'' \<notin> set s" "CHR ''@'' \<notin> set s" "CHR ''&'' \<notin> set s"
    "CHR ''='' \<notin> set s"
proof -
  have "list_all (\<lambda>c. \<not> isAlnum c) ''/?#@&=''" by code_simp
  then show "CHR ''/'' \<notin> set s" "CHR ''?'' \<notin> set s" "CHR ''#'' \<notin> set s" "CHR ''@'' \<notin> set s" "CHR ''&'' \<notin> set s"
    "CHR ''='' \<notin> set s"
    using assms by (auto simp: list_all_iff)
qed

lemma isAlnum_lower: "isAlnum c \<Longrightarrow> isAlnum (lower_char c)"
proof (cases "ascii_upper c")
  case True
  then have "ascii_lower (lower_char c)" by (rule lower_char_upper)
  then show ?thesis by (simp add: isAlnum_def isLetter_def ascii_lower_def)
qed (simp add: lower_char_def)

lemma alnum_to_lower: "list_all isAlnum s \<Longrightarrow> list_all isAlnum (to_lower s)"
  by (auto simp: to_lower_def list_all_iff isAlnum_lower)

lemma ascii_lower_alnum: "ascii_lower c \<Longrightarrow> isAlnum c"
  by (simp add: ascii_lower_def isAlnum_def isLetter_def)

lemma key_alnum: "key_ok k \<Longrightarrow> list_all isAlnum k"
  by (auto simp: key_ok_def list_all_iff ascii_lower_alnum)

lemma alnum_not_space: "isAlnum c \<Longrightarrow> \<not> is_space c"
  by (auto simp: isAlnum_def isDigit_def isLetter_def is_space_def less_eq_char_def)

lemma lower_fix: "ascii_lower c \<Longrightarrow> lower_char c = c"
  by (simp add: lower_char_def ascii_lower_def ascii_upper_def less_eq_char_def)

lemma key_lower: "key_ok k \<Longrightarrow> to_lower k = k"
  by (auto simp: key_ok_def to_lower_def list_all_iff lower_fix intro: map_idI)

lemma key_trim: "key_ok k \<Longrightarrow> trim_space k = k"
proof -
  assume k: "key_ok k"
  then have "\<not> is_space c" if "c \<in> set k" for c
    using key_alnum [OF k] alnum_not_space that by (auto simp: list_all_iff)
  then show ?thesis using k by (intro trim_space_plain) (auto simp: key_ok_def)
qed

lemma print_one:
  assumes "key_ok k" "v \<noteq> []"
  shows "package_qualifier (print_pair (k, v)) m = m(k \<mapsto> v)"
proof -
  have "split_first CHR ''='' (k @ ''='' @ escapePURL v) = Some (k, escapePURL v)"
    using split_first_append [of "CHR ''=''" k "escapePURL v"] alnum_free(6) [OF key_alnum [OF assms(1)]] by simp
  then show ?thesis
    using assms by (auto simp: package_qualifier_def print_pair_def cut_def key_lower key_trim key_ok_def)
qed

lemma qualifier_pieces:
  assumes "list_all (\<lambda>(k, v). key_ok k) qs" "qs \<noteq> []"
  shows "split CHR ''&'' (print_qualifiers qs) = map print_pair qs"
proof -
  have free: "CHR ''&'' \<notin> set p" if "p \<in> set (map print_pair qs)" for p
    using that assms(1) alnum_free(5) key_alnum by (fastforce simp: list_all_iff print_pair_def)
  show ?thesis unfolding print_qualifiers_def using free assms(2) by (intro split_join) auto
qed

lemma qualifiers_back:
  assumes "list_all (\<lambda>(k, v). key_ok k \<and> v \<noteq> []) qs" "distinct (map fst qs)" "qs \<noteq> []"
  shows "parseQualifiers (print_qualifiers qs) = map_of qs"
proof -
  have pieces: "split CHR ''&'' (print_qualifiers qs) = map print_pair qs"
    using assms(1,3) by (intro qualifier_pieces) (auto simp: list_all_iff)
  have "fold package_qualifier (map print_pair qs) m = m ++ map_of qs" for m
    using assms(1,2)
  proof (induction qs arbitrary: m)
    case (Cons q qs)
    obtain k v where q: "q = (k, v)" by (cases q)
    have k: "k \<notin> dom (map_of qs)" using Cons.prems(2) q by (simp add: dom_map_of_conv_image_fst)
    have one: "package_qualifier (print_pair (k, v)) m = m(k \<mapsto> v)"
      using Cons.prems(1) q by (intro print_one) simp_all
    have "fold package_qualifier (map print_pair (q # qs)) m = m(k \<mapsto> v) ++ map_of qs"
      using Cons.prems one q by (simp add: Cons.IH fun_upd_def)
    also have "\<dots> = m ++ (map_of qs)(k \<mapsto> v)" by (simp only: map_add_upd_left [OF k] map_add_upd)
    also have "(map_of qs)(k \<mapsto> v) = map_of (q # qs)" by (simp add: q fun_eq_iff)
    finally show ?case .
  qed simp
  then show ?thesis by (simp add: parseQualifiers_def pieces)
qed

lemma print_qualifiers_free:
  assumes "list_all (\<lambda>(k, v). key_ok k) qs" "c \<in> {CHR ''/'', CHR ''?'', CHR ''#'', CHR ''@''}"
  shows "c \<notin> set (print_qualifiers qs)"
proof
  assume "c \<in> set (print_qualifiers qs)"
  then have "c = CHR ''&'' \<or> (\<exists>(k, v) \<in> set qs. c \<in> set (k @ ''='' @ escapePURL v))"
    unfolding print_qualifiers_def using join_chars by (fastforce simp: print_pair_def)
  then obtain k v where "(k, v) \<in> set qs" "c \<in> set k \<or> c = CHR ''='' \<or> c \<in> set (escapePURL v)"
    using assms(2) by auto
  moreover then have "list_all isAlnum k" using assms(1) key_alnum by (auto simp: list_all_iff)
  ultimately show False using assms(2) alnum_free [of k] by auto
qed

definition no_space :: "string \<Rightarrow> bool" where
  "no_space s \<longleftrightarrow> list_all (\<lambda>c. \<not> is_space c) s"

lemma no_space_append [simp]: "no_space (a @ b) \<longleftrightarrow> no_space a \<and> no_space b" "no_space []"
  "no_space (c # s) \<longleftrightarrow> \<not> is_space c \<and> no_space s"
  by (simp_all add: no_space_def)

lemma no_space_trim: "no_space s \<Longrightarrow> s \<noteq> [] \<Longrightarrow> trim_space s = s"
  by (intro trim_space_plain) (auto simp: no_space_def list_all_iff)

lemma no_space_escape: "text_ok s \<Longrightarrow> no_space (escapePURL s)"
  unfolding no_space_def list_all_iff
proof (intro ballI notI)
  fix c assume t: "text_ok s" and c: "c \<in> set (escapePURL s)" "is_space c"
  have "\<not> is_space CHR ''%''" by (simp add: is_space_def less_eq_char_def)
  then have "c \<in> set s" "\<not> reserved c" using escapePURL_chars [OF c(1)] c(2) alnum_not_space by auto
  then show False using t c(2) by (auto simp: text_ok_def list_all_iff reserved_def)
qed

lemma no_space_alnum: "list_all isAlnum s \<Longrightarrow> no_space s"
  by (auto simp: no_space_def list_all_iff alnum_not_space)

lemma no_space_qualifiers:
  assumes "list_all (\<lambda>(k, v). key_ok k \<and> text_ok v) qs"
  shows "no_space (print_qualifiers qs)"
proof -
  have amp: "\<not> is_space CHR ''&''" "\<not> is_space CHR ''=''" by (simp_all add: is_space_def less_eq_char_def)
  have "no_space p" if "p \<in> set (map print_pair qs)" for p
    using that assms amp(2) no_space_alnum [OF key_alnum] no_space_escape
    by (fastforce simp: list_all_iff print_pair_def)
  then have "\<not> is_space c" if "c \<in> set (print_qualifiers qs)" for c
    using that join_chars [of c "''&''" "map print_pair qs"] amp(1)
    unfolding print_qualifiers_def no_space_def list_all_iff by auto
  then show ?thesis by (simp add: no_space_def list_all_iff)
qed

definition print_path :: "string \<Rightarrow> string \<Rightarrow> string \<Rightarrow> string" where
  "print_path namespace name version =
     (if namespace \<noteq> [] then escapePURL (to_lower namespace) @ ''/'' else []) @ escapePURL name
     @ (if version \<noteq> [] then ''@'' @ escapePURL version else [])"

definition printed_keys :: "(string \<times> string) list \<Rightarrow> (string \<times> string) list" where
  "printed_keys qs = sort_key fst (filter (\<lambda>(k, v). v \<noteq> []) qs)"

lemma buildPURL_parts:
  "buildPURL ty namespace name version qs =
     ''pkg:'' @ to_lower ty @ ''/'' @ print_path namespace name version
     @ (if printed_keys qs \<noteq> [] then ''?'' @ print_qualifiers (printed_keys qs) else [])"
  by (simp add: buildPURL_def print_path_def printed_keys_def Let_def)

lemma trim_slashes_keep: "s \<noteq> [] \<Longrightarrow> \<not> is_slash (hd s) \<Longrightarrow> \<not> is_slash (last s) \<Longrightarrow> trim_slashes s = s"
proof -
  assume s: "s \<noteq> []" "\<not> is_slash (hd s)" "\<not> is_slash (last s)"
  have "dropWhile is_slash s = s" using s(1,2) by (cases s) auto
  moreover have "dropWhile is_slash (rev s) = rev s" using s(1,3) by (cases s rule: rev_cases) auto
  ultimately show ?thesis by (simp add: trim_slashes_def)
qed

lemma path_back:
  assumes "name \<noteq> []"
  shows "package_path (print_path namespace name version) = (version, to_lower namespace, name)"
proof -
  let ?ns = "if namespace \<noteq> [] then escapePURL (to_lower namespace) @ ''/'' else []"
  let ?p = "?ns @ escapePURL name"
  have at: "CHR ''@'' \<notin> set ?p" by simp
  have v: "(case split_last CHR ''@'' (print_path namespace name version) of
       Some (h, t) \<Rightarrow> if CHR ''/'' \<notin> set t then (h, unescape t) else (print_path namespace name version, [])
     | None \<Rightarrow> (print_path namespace name version, [])) = (?p, version)"
  proof (cases "version = []")
    case True
    then have "print_path namespace name version = ?p" by (simp add: print_path_def)
    then show ?thesis using at True by simp
  next
    case False
    then have "print_path namespace name version = ?p @ CHR ''@'' # escapePURL version" by (simp add: print_path_def)
    then have "split_last CHR ''@'' (print_path namespace name version) = Some (?p, escapePURL version)"
      using split_last_append [of "CHR ''@''" "escapePURL version" ?p] by simp
    then show ?thesis by simp
  qed
  have ends: "?p \<noteq> []" "\<not> is_slash (hd ?p)" "\<not> is_slash (last ?p)"
  proof -
    have h: "\<not> is_slash (hd (escapePURL s))" "\<not> is_slash (last (escapePURL s))" if "s \<noteq> []" for s
      using that by (metis escaped_free(1) escapePURL_Nil(1) hd_in_set last_in_set is_slash_def)+
    show "?p \<noteq> []" using assms by simp
    show "\<not> is_slash (hd ?p)" using h(1) [OF assms] h(1) [of "to_lower namespace"] by (simp add: hd_append)
    show "\<not> is_slash (last ?p)" using h(2) [OF assms] assms by simp
  qed
  have tr: "trim_slashes ?p = ?p" by (rule trim_slashes_keep [OF ends])
  have "split_last CHR ''/'' ?p = (if namespace \<noteq> [] then Some (escapePURL (to_lower namespace), escapePURL name) else None)"
    using split_last_append [of "CHR ''/''" "escapePURL name" "escapePURL (to_lower namespace)"] by simp
  then show ?thesis unfolding package_path_def v Let_def prod.case tr
    by (simp add: decodePURLPath_def split_no_sep)
qed

definition printable :: "string \<Rightarrow> string \<Rightarrow> string \<Rightarrow> string \<Rightarrow> (string \<times> string) list \<Rightarrow> bool" where
  "printable ty namespace name version qs \<longleftrightarrow> type_ok ty \<and> name \<noteq> [] \<and> text_ok (to_lower namespace) \<and> text_ok name
     \<and> text_ok version \<and> list_all (\<lambda>(k, v). key_ok k \<and> text_ok v) qs \<and> distinct (map fst qs)"

lemma printed_keys_set: "set (printed_keys qs) = {(k, v) \<in> set qs. v \<noteq> []}"
  by (auto simp: printed_keys_def)

lemma printed_keys_distinct: "distinct (map fst qs) \<Longrightarrow> distinct (map fst (printed_keys qs))"
  using distinct_map_filter [of fst qs "\<lambda>(k, v). v \<noteq> []"] by (simp add: distinct_map printed_keys_def)

lemma printed_keys_map:
  assumes "distinct (map fst qs)"
  shows "map_of (printed_keys qs) = map_of (filter (\<lambda>(k, v). v \<noteq> []) qs)"
proof -
  have "distinct (map fst (filter (\<lambda>(k, v). v \<noteq> []) qs))" using assms by (rule distinct_map_filter)
  then show ?thesis
    using printed_keys_distinct [OF assms] by (simp add: map_of_inject_set) (simp add: printed_keys_def)
qed

lemma print_path_free: "CHR ''#'' \<notin> set (print_path n m v)" "CHR ''?'' \<notin> set (print_path n m v)"
  by (simp_all add: print_path_def)

lemma no_space_path:
  assumes "printable ty namespace name version qs"
  shows "no_space (print_path namespace name version)"
proof -
  have "\<not> is_space CHR ''/''" "\<not> is_space CHR ''@''" by (simp_all add: is_space_def less_eq_char_def)
  then show ?thesis using assms no_space_escape by (simp add: print_path_def printable_def)
qed

lemma type_lower_ok: "type_ok ty \<Longrightarrow> type_ok (to_lower ty)"
  by (simp add: type_ok_def alnum_to_lower)

lemma type_free: "type_ok ty \<Longrightarrow> CHR ''/'' \<notin> set ty" "type_ok ty \<Longrightarrow> CHR ''#'' \<notin> set ty"
  "type_ok ty \<Longrightarrow> CHR ''?'' \<notin> set ty" "type_ok ty \<Longrightarrow> CHR ''@'' \<notin> set ty"
  using alnum_free by (auto simp: type_ok_def)

text \<open>The printed purl is read as it stands, from its first byte to its last.\<close>

lemma buildPURL_trim:
  assumes "printable ty namespace name version qs"
  shows "trim_space (buildPURL ty namespace name version qs) = buildPURL ty namespace name version qs"
proof (rule no_space_trim)
  have marks: "\<not> is_space CHR ''/''" "\<not> is_space CHR ''?''" "no_space ''pkg:''"
    by (simp_all add: is_space_def less_eq_char_def)
  have "no_space (to_lower ty)" using assms by (intro no_space_alnum alnum_to_lower) (simp add: printable_def type_ok_def)
  moreover have "no_space (print_qualifiers (printed_keys qs))"
    using assms by (intro no_space_qualifiers) (auto simp: printable_def list_all_iff printed_keys_set)
  ultimately show "no_space (buildPURL ty namespace name version qs)"
    using no_space_path [OF assms] marks by (simp add: buildPURL_parts)
  show "buildPURL ty namespace name version qs \<noteq> []" by (simp add: buildPURL_parts)
qed

theorem parse_build:
  assumes "printable ty namespace name version qs"
  shows "parsePackage (buildPURL ty namespace name version qs) =
    Some \<lparr>k_Type = to_lower ty, k_Namespace = to_lower namespace, k_Name = name, k_Version = version,
      k_Qualifiers = map_of (filter (\<lambda>(k, v). v \<noteq> []) qs), k_Subpath = []\<rparr>"
proof -
  let ?s = "buildPURL ty namespace name version qs" and ?q = "printed_keys qs"
  let ?path = "to_lower ty @ ''/'' @ print_path namespace name version"
  have p: "type_ok (to_lower ty)" "name \<noteq> []" "list_all (\<lambda>(k, v). key_ok k) qs" "distinct (map fst qs)"
    using assms type_lower_ok by (auto simp: printable_def list_all_iff)
  have keys: "list_all (\<lambda>(k, v). key_ok k) ?q" "list_all (\<lambda>(k, v). key_ok k \<and> v \<noteq> []) ?q"
    using p(3) by (auto simp: list_all_iff printed_keys_set)
  note free = type_free [OF p(1)] print_path_free [of namespace name version]
  have s: "?s = ''pkg:'' @ ?path @ (if ?q \<noteq> [] then ''?'' @ print_qualifiers ?q else [])"
    by (simp add: buildPURL_parts)
  have hash: "CHR ''#'' \<notin> set (drop 4 ?s)"
    unfolding s using free print_qualifiers_free [OF keys(1)] by simp
  have quals: "(case split_last CHR ''?'' (drop 4 ?s) of Some (h, t) \<Rightarrow> (h, parseQualifiers t) | None \<Rightarrow> (drop 4 ?s, Map.empty))
      = (?path, map_of ?q)"
  proof (cases "?q = []")
    case True
    then show ?thesis unfolding s using free by simp
  next
    case False
    have "split_last CHR ''?'' (?path @ CHR ''?'' # print_qualifiers ?q) = Some (?path, print_qualifiers ?q)"
      using print_qualifiers_free [OF keys(1)] by (intro split_last_append) simp
    then show ?thesis unfolding s
      using False qualifiers_back [OF keys(2) printed_keys_distinct [OF p(4)] False] by simp
  qed
  have "dropWhile is_slash ?path = ?path"
    using free(1) p(1) by (cases "to_lower ty") (auto simp: is_slash_def type_ok_def)
  moreover have "split_first CHR ''/'' ?path = Some (to_lower ty, print_path namespace name version)"
    using split_first_append [OF free(1), of "print_path namespace name version"] by simp
  moreover have "to_lower ty \<noteq> []" using p(1) by (simp add: type_ok_def)
  ultimately have "package_rest (drop 4 ?s) =
      Some \<lparr>k_Type = to_lower ty, k_Namespace = to_lower namespace, k_Name = name, k_Version = version,
        k_Qualifiers = map_of ?q, k_Subpath = []\<rparr>"
    using p(2) hash unfolding package_rest_def split_absent(2) [OF hash] option.case Let_def prod.case quals
    by (simp add: path_back)
  moreover have "4 \<le> length ?s" "take 4 ?s = ''pkg:''" by (simp_all add: s)
  ultimately show ?thesis
    unfolding parsePackage_def buildPURL_trim [OF assms] Let_def printed_keys_map [OF p(4), symmetric] by simp
qed

section \<open>The matcher reads the same\<close>

lemma matcher_qualifier:
  assumes "key_ok k" "v \<noteq> []"
  shows "qualifier_step (print_pair (k, v)) (e, d) =
    (if k = ''epoch'' then v else e, if k = ''distro'' then v else d)"
proof -
  have "split_first CHR ''='' (print_pair (k, v)) = Some (k, escapePURL v)"
    using split_first_append [of "CHR ''=''" k "escapePURL v"] alnum_free(6) [OF key_alnum [OF assms(1)]]
    by (simp add: print_pair_def)
  then show ?thesis using assms by (simp add: qualifier_step_def cut_def key_lower key_trim)
qed

definition stated :: "(string \<times> string) list \<Rightarrow> string \<Rightarrow> string \<Rightarrow> string" where
  "stated qs k otherwise = (case map_of qs k of Some v \<Rightarrow> v | None \<Rightarrow> otherwise)"

lemma matcher_qualifiers:
  assumes "list_all (\<lambda>(k, v). key_ok k \<and> v \<noteq> []) qs" "distinct (map fst qs)"
  shows "fold qualifier_step (map print_pair qs) (e, d) = (stated qs ''epoch'' e, stated qs ''distro'' d)"
  using assms
proof (induction qs arbitrary: e d)
  case Nil
  then show ?case by (simp add: stated_def)
next
  case (Cons q qs)
  obtain k v where q: "q = (k, v)" by (cases q)
  have fresh: "map_of qs k = None" using Cons.prems(2) q by (simp add: map_of_eq_None_iff)
  have "fold qualifier_step (map print_pair (q # qs)) (e, d)
      = fold qualifier_step (map print_pair qs) (if k = ''epoch'' then v else e, if k = ''distro'' then v else d)"
    using Cons.prems(1) q by (simp add: matcher_qualifier)
  also have "\<dots> = (stated qs ''epoch'' (if k = ''epoch'' then v else e), stated qs ''distro'' (if k = ''distro'' then v else d))"
    using Cons by simp
  also have "\<dots> = (stated (q # qs) ''epoch'' e, stated (q # qs) ''distro'' d)"
    using fresh q by (auto simp: stated_def)
  finally show ?case .
qed

lemma matcher_segments:
  assumes "type_ok ty" "name \<noteq> []"
  shows "filter (\<lambda>s. s \<noteq> []) (split CHR ''/'' (ty @ ''/'' @ print_path namespace name []))
    = ty # (if namespace \<noteq> [] then [escapePURL (to_lower namespace)] else []) @ [escapePURL name]"
proof -
  have tail: "split CHR ''/'' (print_path namespace name []) =
      (if namespace \<noteq> [] then [escapePURL (to_lower namespace)] else []) @ [escapePURL name]"
    by (simp add: print_path_def split_append_sep split_no_sep)
  have "ty \<noteq> []" using assms(1) by (simp add: type_ok_def)
  then show ?thesis using split_append_sep [OF type_free(1) [OF assms(1)]] assms(2) by (simp add: tail)
qed

lemma matcher_path:
  assumes "type_ok ty"
  shows "(case split_last CHR ''@'' (ty @ ''/'' @ print_path namespace name version) of
      None \<Rightarrow> (ty @ ''/'' @ print_path namespace name version, [])
    | Some (h, t) \<Rightarrow> if CHR ''/'' \<notin> set t then (h, unescape t) else (ty @ ''/'' @ print_path namespace name version, []))
    = (ty @ ''/'' @ print_path namespace name [], version)"
proof (cases "version = []")
  case True
  have "CHR ''@'' \<notin> set (ty @ ''/'' @ print_path namespace name [])"
    using type_free(4) [OF assms] by (simp add: print_path_def)
  then show ?thesis using True by simp
next
  case False
  have "ty @ ''/'' @ print_path namespace name version
      = (ty @ ''/'' @ print_path namespace name []) @ CHR ''@'' # escapePURL version"
    using False by (simp add: print_path_def)
  then have "split_last CHR ''@'' (ty @ ''/'' @ print_path namespace name version)
      = Some (ty @ ''/'' @ print_path namespace name [], escapePURL version)"
    using split_last_append [of "CHR ''@''" "escapePURL version" "ty @ ''/'' @ print_path namespace name []"]
    by (simp del: append_assoc)
  then show ?thesis by simp
qed

theorem matcher_reads_built:
  assumes "printable ty namespace name version qs"
  shows "\<exists>p. parsePURL (buildPURL ty namespace name version qs) = Some p
    \<and> p_Type p = to_lower ty \<and> (p_Namespace p, p_Name p) = canonicalPURLName (to_lower ty) (to_lower namespace) name
    \<and> p_Version p = version \<and> p_Epoch p = stated (printed_keys qs) ''epoch'' []
    \<and> p_Distro p = stated (printed_keys qs) ''distro'' []"
proof -
  let ?s = "buildPURL ty namespace name version qs" and ?q = "printed_keys qs" and ?ty = "to_lower ty"
  let ?path = "?ty @ ''/'' @ print_path namespace name version"
  have p: "type_ok ?ty" "name \<noteq> []" "list_all (\<lambda>(k, v). key_ok k) qs" "distinct (map fst qs)"
    using assms type_lower_ok by (auto simp: printable_def list_all_iff)
  have keys: "list_all (\<lambda>(k, v). key_ok k) ?q" "list_all (\<lambda>(k, v). key_ok k \<and> v \<noteq> []) ?q"
    using p(3) by (auto simp: list_all_iff printed_keys_set)
  note free = type_free [OF p(1)] print_path_free [of namespace name version]
  have s: "?s = ''pkg:'' @ ?path @ (if ?q \<noteq> [] then ''?'' @ print_qualifiers ?q else [])"
    by (simp add: buildPURL_parts)
  have slashes: "dropWhile (\<lambda>c. c = CHR ''/'') (drop 4 ?s) = drop 4 ?s"
    unfolding s using free(1) p(1) by (cases ?ty) (auto simp: type_ok_def)
  have hash: "CHR ''#'' \<notin> set (drop 4 ?s)"
    unfolding s using free print_qualifiers_free [OF keys(1)] by simp
  have q: "(case split_first CHR ''?'' (drop 4 ?s) of None \<Rightarrow> (drop 4 ?s, []) | Some (h, t) \<Rightarrow> (h, t))
      = (?path, if ?q = [] then [] else print_qualifiers ?q)"
  proof (cases "?q = []")
    case True
    then show ?thesis unfolding s using free by simp
  next
    case False
    have "split_first CHR ''?'' (?path @ CHR ''?'' # print_qualifiers ?q) = Some (?path, print_qualifiers ?q)"
      using free by (intro split_first_append) simp
    then show ?thesis unfolding s using False by simp
  qed
  have rest: "purl_rest (drop 4 ?s) = purl_build (?ty @ ''/'' @ print_path namespace name []) version
      (if ?q = [] then [] else print_qualifiers ?q)"
    unfolding purl_rest_def split_absent(1) [OF hash] option.case Let_def q prod.case matcher_path [OF p(1)] ..
  have "take 4 ?s = ''pkg:''" "4 \<le> length ?s" by (simp_all add: s)
  then have parse: "parsePURL ?s = purl_build (?ty @ ''/'' @ print_path namespace name []) version
      (if ?q = [] then [] else print_qualifiers ?q)"
    unfolding parsePURL_def buildPURL_trim [OF assms] Let_def slashes rest by simp
  have quals: "fold qualifier_step (split CHR ''&'' (if ?q = [] then [] else print_qualifiers ?q)) ([], [])
      = (stated ?q ''epoch'' [], stated ?q ''distro'' [])"
  proof (cases "?q = []")
    case True
    then show ?thesis by (simp add: stated_def qualifier_step_def cut_def)
  next
    case False
    then show ?thesis
      using matcher_qualifiers [OF keys(2) printed_keys_distinct [OF p(4)]] qualifier_pieces [OF keys(1) False] by simp
  qed
  show ?thesis unfolding parse purl_build_def matcher_segments [OF p(1,2)] quals Let_def
    using p(2) by (auto split: prod.splits)
qed

section \<open>Normalising\<close>

lemma split_last_prefix:
  "c \<notin> set sl \<Longrightarrow> split_last c (sl @ b) = map_option (\<lambda>(h, t). (sl @ h, t)) (split_last c b)"
proof (cases "split_last c b")
  case (Some ht)
  obtain h t where ht: "ht = (h, t)" by (cases ht)
  then have "b = h @ c # t \<and> c \<notin> set t" using Some split_last_Some by metis
  then have "split_last c (sl @ b) = Some (sl @ h, t)" using split_last_append [of c t "sl @ h"] by simp
  then show ?thesis using Some ht by simp
qed simp

lemma slashes_free: "list_all is_slash sl \<Longrightarrow> c \<noteq> CHR ''/'' \<Longrightarrow> c \<notin> set sl"
  by (auto simp: list_all_iff is_slash_def)

lemma drop_slashes: "list_all is_slash sl \<Longrightarrow> dropWhile is_slash (sl @ x) = dropWhile is_slash x"
  by (simp add: list_all_iff dropWhile_append2)

lemma package_rest_slashes:
  assumes "list_all is_slash sl"
  shows "package_rest (sl @ b) = package_rest b"
proof -
  note pre = split_last_prefix [OF slashes_free [OF assms]]
  show ?thesis unfolding package_rest_def
    by (simp add: pre drop_slashes [OF assms] Let_def split: option.split prod.split)
qed

text \<open>The text behind the type, once type and text are told apart.\<close>

definition package_tail :: "string \<Rightarrow> string \<Rightarrow> package option" where
  "package_tail ty tail0 =
     (let (tail1, sub) =
            (case split_last CHR ''#'' tail0 of Some (h, t) \<Rightarrow> (h, trim_slashes t) | None \<Rightarrow> (tail0, []));
          (tail2, quals) =
            (case split_last CHR ''?'' tail1 of Some (h, t) \<Rightarrow> (h, parseQualifiers t) | None \<Rightarrow> (tail1, Map.empty));
          (version, namespace, name) = package_path tail2
      in if name = [] then None
         else Some \<lparr>k_Type = ty, k_Namespace = namespace, k_Name = name, k_Version = version,
                k_Qualifiers = quals, k_Subpath = sub\<rparr>)"

definition before_last :: "char \<Rightarrow> string \<Rightarrow> string" where
  "before_last c s = (case split_last c s of Some (h, _) \<Rightarrow> h | None \<Rightarrow> s)"

definition separated :: "string \<Rightarrow> string \<Rightarrow> bool" where
  "separated ty tail \<longleftrightarrow> (CHR ''#'' \<in> set ty \<longrightarrow> CHR ''#'' \<in> set tail)
     \<and> (CHR ''?'' \<in> set ty \<longrightarrow> CHR ''?'' \<in> set (before_last CHR ''#'' tail))"

lemma split_last_type:
  assumes "c \<noteq> CHR ''/''" "c \<in> set ty \<longrightarrow> c \<in> set tail"
  shows "split_last c (ty @ ''/'' @ tail) = map_option (\<lambda>(h, t). (ty @ ''/'' @ h, t)) (split_last c tail)"
proof (cases "c \<in> set tail")
  case True
  then obtain h t where ht: "split_last c tail = Some (h, t)"
    by (cases "split_last c tail") auto
  then have "tail = h @ c # t \<and> c \<notin> set t" by (rule split_last_Some)
  then have "split_last c (ty @ ''/'' @ tail) = Some (ty @ ''/'' @ h, t)"
    using split_last_append [of c t "ty @ ''/'' @ h"] by simp
  then show ?thesis using ht by simp
next
  case False
  then show ?thesis using assms by simp
qed

lemma first_slash:
  assumes "ty \<noteq> []" "CHR ''/'' \<notin> set ty"
  shows "dropWhile is_slash (ty @ CHR ''/'' # x) = ty @ CHR ''/'' # x"
    "split_first CHR ''/'' (ty @ CHR ''/'' # x) = Some (ty, x)"
proof -
  show "dropWhile is_slash (ty @ CHR ''/'' # x) = ty @ CHR ''/'' # x"
    using assms by (cases ty) (auto simp: is_slash_def)
  show "split_first CHR ''/'' (ty @ CHR ''/'' # x) = Some (ty, x)" by (rule split_first_append [OF assms(2)])
qed

lemma package_rest_tail:
  assumes "ty \<noteq> []" "CHR ''/'' \<notin> set ty" "separated ty tail"
  shows "package_rest (ty @ ''/'' @ tail) = package_tail (to_lower ty) tail"
proof -
  have hash: "split_last CHR ''#'' (ty @ ''/'' @ tail)
      = map_option (\<lambda>(h, t). (ty @ ''/'' @ h, t)) (split_last CHR ''#'' tail)"
    using assms(3) by (intro split_last_type) (simp_all add: separated_def)
  have query: "split_last CHR ''?'' (ty @ ''/'' @ before_last CHR ''#'' tail)
      = map_option (\<lambda>(h, t). (ty @ ''/'' @ h, t)) (split_last CHR ''?'' (before_last CHR ''#'' tail))"
    using assms(3) by (intro split_last_type) (simp_all add: separated_def)
  show ?thesis
  proof (cases "split_last CHR ''#'' tail")
    case None
    then show ?thesis
      using hash query first_slash [OF assms(1,2)] assms(1)
      by (auto simp: package_rest_def package_tail_def before_last_def Let_def split: option.splits prod.splits)
  next
    case (Some ht)
    then show ?thesis
      using hash query first_slash [OF assms(1,2)] assms(1)
      by (auto simp: package_rest_def package_tail_def before_last_def Let_def split: option.splits prod.splits)
  qed
qed

lemma slash_free_cut: "CHR ''/'' \<notin> set s \<Longrightarrow> CHR ''/'' \<notin> set (before_last c s)"
  by (auto simp: before_last_def split: option.split dest: split_last_Some)

lemma package_rest_no_slash:
  assumes "CHR ''/'' \<notin> set (dropWhile is_slash (before_last CHR ''?'' (before_last CHR ''#'' b)))"
  shows "package_rest b = None"
proof -
  define r1 where "r1 = before_last CHR ''#'' b"
  define r2 where "r2 = before_last CHR ''?'' r1"
  obtain sub where r1: "(case split_last CHR ''#'' b of Some (h, t) \<Rightarrow> (h, trim_slashes t) | None \<Rightarrow> (b, [])) = (r1, sub)"
    by (cases "split_last CHR ''#'' b") (auto simp: r1_def before_last_def)
  obtain quals where r2: "(case split_last CHR ''?'' r1 of Some (h, t) \<Rightarrow> (h, parseQualifiers t) | None \<Rightarrow> (r1, Map.empty))
      = (r2, quals)"
    by (cases "split_last CHR ''?'' r1") (auto simp: r2_def before_last_def)
  have "split_first CHR ''/'' (dropWhile is_slash r2) = None" using assms by (simp add: r1_def r2_def)
  then show ?thesis unfolding package_rest_def Let_def r1 prod.case r2 by simp
qed

lemma before_last_absent: "c \<notin> set s \<Longrightarrow> before_last c s = s"
  by (simp add: before_last_def)

lemma before_last_type:
  assumes "c \<in> set ty" "c \<notin> set tail" "c \<noteq> CHR ''/''" "CHR ''/'' \<notin> set ty"
  shows "CHR ''/'' \<notin> set (before_last c (ty @ ''/'' @ tail))"
proof -
  obtain h t where ht: "split_last c ty = Some (h, t)" using assms(1) by (cases "split_last c ty") auto
  then have ty: "ty = h @ c # t" "c \<notin> set t" using split_last_Some by metis+
  then have "split_last c (ty @ ''/'' @ tail) = Some (h, t @ ''/'' @ tail)"
    using split_last_append [of c "t @ ''/'' @ tail" h] assms(2,3) by simp
  then show ?thesis using ty assms(4) by (simp add: before_last_def)
qed

lemma no_slash_drop: "CHR ''/'' \<notin> set s \<Longrightarrow> CHR ''/'' \<notin> set (dropWhile P s)"
  by (meson set_dropWhileD)

lemma parsed_separated:
  assumes "package_rest (ty @ ''/'' @ tail) \<noteq> None" "CHR ''/'' \<notin> set ty"
  shows "separated ty tail"
proof (rule ccontr)
  assume n: "\<not> separated ty tail"
  let ?b = "ty @ ''/'' @ tail"
  have "CHR ''/'' \<notin> set (before_last CHR ''?'' (before_last CHR ''#'' ?b))"
  proof (cases "CHR ''#'' \<in> set ty \<and> CHR ''#'' \<notin> set tail")
    case True
    then have "CHR ''/'' \<notin> set (before_last CHR ''#'' ?b)" using assms(2) by (intro before_last_type) auto
    then show ?thesis by (rule slash_free_cut)
  next
    case False
    then have q: "CHR ''?'' \<in> set ty" "CHR ''?'' \<notin> set (before_last CHR ''#'' tail)"
      using n by (auto simp: separated_def)
    have "split_last CHR ''#'' ?b = map_option (\<lambda>(h, t). (ty @ ''/'' @ h, t)) (split_last CHR ''#'' tail)"
      using False by (intro split_last_type) auto
    then have "before_last CHR ''#'' ?b = ty @ ''/'' @ before_last CHR ''#'' tail"
      by (simp add: before_last_def split: option.split prod.split)
    then show ?thesis using before_last_type [OF q] assms(2) by simp
  qed
  then have "package_rest ?b = None" by (intro package_rest_no_slash no_slash_drop)
  then show False using assms(1) by simp
qed

lemma lower_mark:
  assumes "\<not> ascii_lower c" "\<not> ascii_upper c"
  shows "c \<in> set (to_lower s) \<longleftrightarrow> c \<in> set s"
proof -
  have "lower_char d = c \<longleftrightarrow> d = c" for d
  proof
    show "d = c" if "lower_char d = c" using that assms(1) by (rule lower_char_other)
    show "lower_char d = c" if "d = c" using that assms(2) by (simp only: lower_char_def if_False)
  qed
  then show ?thesis by (induction s) (simp_all add: eq_commute)
qed

lemma marks_no_letters:
  "\<not> ascii_lower CHR ''#''" "\<not> ascii_upper CHR ''#''" "\<not> ascii_lower CHR ''?''" "\<not> ascii_upper CHR ''?''"
  "\<not> ascii_lower CHR ''/''" "\<not> ascii_upper CHR ''/''"
  by (simp_all add: ascii_lower_def ascii_upper_def less_eq_char_def)

lemmas lower_marks = lower_mark [OF marks_no_letters(1,2)] lower_mark [OF marks_no_letters(3,4)]
  lower_mark [OF marks_no_letters(5,6)]

lemma separated_lower: "separated (to_lower ty) tail = separated ty tail"
  by (simp only: separated_def lower_marks)

lemma slash_lower: "CHR ''/'' \<notin> set ty \<Longrightarrow> CHR ''/'' \<notin> set (to_lower ty)"
  by (simp only: lower_marks not_False_eq_True)

text \<open>A parsed purl is its type and the text behind it.\<close>

lemma parsed_shape:
  assumes "parsePackage s = Some p"
  obtains sl ty tail where "list_all is_slash sl" "drop 4 (trim_space s) = sl @ ty @ ''/'' @ tail"
    "ty \<noteq> []" "CHR ''/'' \<notin> set ty" "k_Type p = to_lower ty" "separated ty tail"
    "package_tail (to_lower ty) tail = Some p" "tail \<noteq> []"
proof -
  let ?r = "drop 4 (trim_space s)"
  define sl where "sl = takeWhile is_slash ?r"
  define b where "b = dropWhile is_slash ?r"
  have r: "?r = sl @ b" by (simp add: sl_def b_def)
  have sl: "list_all is_slash sl" unfolding sl_def list_all_iff by (meson set_takeWhileD)
  have "package_rest ?r = Some p"
    using assms by (simp add: parsePackage_def Let_def split: if_splits)
  then have pb: "package_rest b = Some p" using package_rest_slashes [OF sl] by (simp add: r)
  have "CHR ''/'' \<in> set b"
  proof (rule ccontr)
    assume "CHR ''/'' \<notin> set b"
    then have "package_rest b = None" by (intro package_rest_no_slash no_slash_drop slash_free_cut)
    then show False using pb by simp
  qed
  then obtain ty tail where st: "split_first CHR ''/'' b = Some (ty, tail)"
    by (cases "split_first CHR ''/'' b") auto
  then have b: "b = ty @ ''/'' @ tail" and ty: "CHR ''/'' \<notin> set ty" using split_first_Some by fastforce+
  have ne: "ty \<noteq> []"
  proof
    assume "ty = []"
    then have "b \<noteq> []" "is_slash (hd b)" by (simp_all add: b is_slash_def)
    then show False using hd_dropWhile [of is_slash ?r] by (simp add: b_def)
  qed
  have sep: "separated ty tail" using parsed_separated [OF _ ty] pb b by simp
  have pt: "package_tail (to_lower ty) tail = Some p" using package_rest_tail [OF ne ty sep] pb b by simp
  have "k_Type p = to_lower ty"
    using pt by (auto simp: package_tail_def Let_def split: prod.splits if_splits)
  moreover have "tail \<noteq> []"
  proof
    assume "tail = []"
    then show False using pt
      by (simp add: package_tail_def package_path_def trim_slashes_def unescape_def)
  qed
  ultimately show thesis using that [OF sl _ ne ty _ sep pt] r b by simp
qed

theorem normalise_shape:
  assumes "parsePackage s = Some p"
  shows "parsePackage (normalisePackage s) = Some p
    \<and> normalisePackage (normalisePackage s) = normalisePackage s
    \<and> has_prefix (normalisePackage s) (''pkg:'' @ k_Type p @ ''/'')"
proof -
  obtain sl ty tail where h: "list_all is_slash sl" "drop 4 (trim_space s) = sl @ ty @ ''/'' @ tail"
    "ty \<noteq> []" "CHR ''/'' \<notin> set ty" "k_Type p = to_lower ty" "separated ty tail"
    "package_tail (to_lower ty) tail = Some p" "tail \<noteq> []"
    using assms by (rule parsed_shape)
  let ?n = "''pkg:'' @ to_lower ty @ ''/'' @ tail"
  have lty: "to_lower ty \<noteq> []" "CHR ''/'' \<notin> set (to_lower ty)" using h(3,4) slash_lower by simp_all
  have norm: "normalisePackage x = ''pkg:'' @ to_lower ty @ ''/'' @ tail"
    if "parsePackage x = Some p" "list_all is_slash l" "drop 4 (trim_space x) = l @ t @ ''/'' @ tail"
      "t \<noteq> []" "CHR ''/'' \<notin> set t" for x l t
  proof -
    have "dropWhile is_slash (drop 4 (trim_space x)) = t @ CHR ''/'' # tail"
      using that(3) drop_slashes [OF that(2)] first_slash(1) [OF that(4,5)] by simp
    moreover have "dropWhile (\<lambda>c. \<not> is_slash c) (t @ CHR ''/'' # tail) = CHR ''/'' # tail"
      using that(5) by (subst dropWhile_append2) (auto simp: is_slash_def)
    moreover have "parsePackage (trim_space x) = Some p" using that(1) by (simp add: parsePackage_def)
    ultimately show ?thesis by (simp add: normalisePackage_def h(5))
  qed
  have n: "normalisePackage s = ?n" by (rule norm [OF assms h(1-4)])
  have "trim_space ?n = ?n"
  proof (rule trim_space_plain)
    have len: "trim_space s = take 4 (trim_space s) @ sl @ ty @ ''/'' @ tail" using h(2) by (metis append_take_drop_id)
    then have "last (trim_space s) = last tail" using h(8) by (metis append_assoc append_is_Nil_conv last_append)
    moreover have "trim_space s \<noteq> []" using len h(8) by (metis Nil_is_append_conv)
    moreover have "\<not> is_space (last (trim_space s))" if "trim_space s \<noteq> []"
      using that hd_dropWhile [of is_space "rev (trim_left s)"] by (simp add: trim_space_def trim_right_def last_rev)
    ultimately show "\<not> is_space (last ?n)" using h(8) by simp
  qed (simp_all add: is_space_def less_eq_char_def)
  moreover have "package_rest (to_lower ty @ ''/'' @ tail) = Some p"
    using package_rest_tail [OF lty] h(6,7) by (simp add: separated_lower)
  ultimately have pn: "parsePackage ?n = Some p" by (simp add: parsePackage_def)
  moreover have "normalisePackage ?n = ?n"
    using norm [OF pn, of "[]" "to_lower ty"] \<open>trim_space ?n = ?n\<close> lty by simp
  ultimately show ?thesis unfolding n h(5) by (simp add: has_prefix_def)
qed

lemma normalise_fails: "parsePackage s = None \<Longrightarrow> normalisePackage s = []"
proof -
  have "parsePackage (trim_space s) = parsePackage s" by (simp add: parsePackage_def)
  then show "parsePackage s = None \<Longrightarrow> normalisePackage s = []" by (simp add: normalisePackage_def Let_def)
qed

end
