(* ===== verification/Cpe_Uri.thy ===== *)
theory Cpe_Uri
  imports Cpe Package_Url
begin

text \<open>
  \<open>internal/inventory/cpe.go\<close>: the CPE an inventory offers, a CPE 2.2 URI rebound as a 2.3 formatted string.
  The escaping runs over runes; it is modelled on ASCII, where a rune is a byte. Shown: what the rebinding
  prints is a formatted string the matcher takes apart again, with the attributes the matcher reads off the URI
  itself, lower-cased.
\<close>

definition plain_attr :: "char \<Rightarrow> bool" where
  "plain_attr r \<longleftrightarrow> ascii_lower r \<or> isDigit r \<or> r \<in> {CHR ''.'', CHR ''-'', CHR ''_'', CHR ''*'', CHR ''?''}"

definition quote_char :: "char \<Rightarrow> string" where
  "quote_char r = (if plain_attr r then [r] else [CHR 0x5C, r])"

definition cpeAttribute :: "string \<Rightarrow> string" where
  "cpeAttribute v0 =
     (if v0 = [] then ''*''
      else let v = unescape v0 in
        if v = ''-'' \<or> v = ''*'' then v else concat (map quote_char (to_lower v)))"

definition field_at :: "string list \<Rightarrow> nat \<Rightarrow> string" where
  "field_at fs i = (if i < length fs then fs ! i else [])"

definition uri_attrs :: "string \<Rightarrow> string list" where
  "uri_attrs body =
     (let fld = field_at (split CHR '':'' body);
          part = field_at (split CHR ''~'' (fld 5));
          (edition, swEdition, targetSW, targetHW, other) =
            (if has_prefix (fld 5) ''~'' then (part 1, part 2, part 3, part 4, part 5) else (fld 5, [], [], [], []))
      in [fld 0, fld 1, fld 2, fld 3, fld 4, edition, fld 6, swEdition, targetSW, targetHW, other])"

definition cpe23FromURI :: "string \<Rightarrow> string" where
  "cpe23FromURI body = ''cpe:2.3'' @ concat (map (\<lambda>a. '':'' @ cpeAttribute a) (uri_attrs body))"

definition cpe23 :: "string \<Rightarrow> string" where
  "cpe23 s0 =
     (let s = trim_space s0 in
      if s = [] then []
      else if has_prefix (to_lower s) ''cpe:2.3:'' then s
      else if has_prefix (to_lower s) ''cpe:/'' then cpe23FromURI (drop 5 s)
      else [])"

section \<open>Quoting\<close>

lemma backslash_quoted [simp]: "\<not> plain_attr CHR 0x5C" "\<not> plain_attr CHR '':''"
  by (simp_all add: plain_attr_def ascii_lower_def isDigit_def less_eq_char_def)

lemma unquote_quote: "unquoteCPE (concat (map quote_char s)) = s"
proof (induction s)
  case (Cons c s)
  show ?case
  proof (cases "plain_attr c")
    case True
    then have c: "c \<noteq> CHR 0x5C" by auto
    have "unquoteCPE (c # x) = c # unquoteCPE x" for x using c by (cases x) simp_all
    then show ?thesis using True Cons by (simp add: quote_char_def)
  next
    case False
    then show ?thesis using Cons by (simp add: quote_char_def)
  qed
qed simp

lemma closed_quote: "closed_field CHR '':'' (concat (map quote_char s))"
proof (induction s)
  case (Cons c s)
  show ?case
  proof (cases "plain_attr c")
    case True
    then have c: "c \<noteq> CHR 0x5C" "c \<noteq> CHR '':''" by auto
    have "closed_field CHR '':'' x \<Longrightarrow> closed_field CHR '':'' (c # x)" for x using c by (cases x) simp_all
    then show ?thesis using True Cons by (simp add: quote_char_def)
  next
    case False
    then show ?thesis using Cons by (simp add: quote_char_def)
  qed
qed simp

lemma no_space_quote: "no_space s \<Longrightarrow> no_space (concat (map quote_char s))"
proof (induction s)
  case (Cons c s)
  have "\<not> is_space CHR 0x5C" by (simp add: is_space_def less_eq_char_def)
  then show ?case using Cons by (auto simp: quote_char_def)
qed simp

lemma quote_nonempty: "s \<noteq> [] \<Longrightarrow> concat (map quote_char s) \<noteq> []"
  by (cases s) (auto simp: quote_char_def)

definition solid :: "string \<Rightarrow> bool" where
  "solid v \<longleftrightarrow> no_space (unescape v) \<and> (v \<noteq> [] \<longrightarrow> unescape v \<noteq> [])"

lemma no_space_lower: "no_space s \<Longrightarrow> no_space (to_lower s)"
  by (simp add: no_space_def to_lower_def list_all_iff)

lemma attribute_ok:
  assumes "solid v"
  shows "cpeAttribute v \<noteq> []" "trim_space (cpeAttribute v) = cpeAttribute v" "closed_field CHR '':'' (cpeAttribute v)"
    "unquoteCPE (cpeAttribute v) = to_lower (any_if_empty (unescape v))"
proof -
  have e: "unescape [] = []" by (simp add: unescape_def)
  have star: "trim_space ''*'' = ''*''" "closed_field CHR '':'' ''*''" "unquoteCPE ''*'' = ''*''" "to_lower ''*'' = ''*''"
    "trim_space ''-'' = ''-''" "closed_field CHR '':'' ''-''" "unquoteCPE ''-'' = ''-''" "to_lower ''-'' = ''-''"
    by code_simp+
  have keep: "any_if_empty (unescape v) = unescape v" if "v \<noteq> []"
    using that assms no_space_trim by (simp add: any_if_empty_def solid_def)
  let ?q = "concat (map quote_char (to_lower (unescape v)))"
  have q: "?q \<noteq> []" "trim_space ?q = ?q" if "v \<noteq> []"
  proof -
    show "?q \<noteq> []" using that assms by (intro quote_nonempty) (simp add: solid_def)
    then show "trim_space ?q = ?q"
      using assms by (intro no_space_trim no_space_quote no_space_lower) (auto simp: solid_def)
  qed
  show "cpeAttribute v \<noteq> []" using q(1) by (auto simp: cpeAttribute_def Let_def)
  show "trim_space (cpeAttribute v) = cpeAttribute v" using q(2) star by (auto simp: cpeAttribute_def Let_def)
  show "closed_field CHR '':'' (cpeAttribute v)" using closed_quote star by (auto simp: cpeAttribute_def Let_def)
  show "unquoteCPE (cpeAttribute v) = to_lower (any_if_empty (unescape v))"
  proof (cases "v = []")
    case True
    then show ?thesis using star e by (simp add: cpeAttribute_def any_if_empty_def)
  next
    case False
    then show ?thesis using keep star by (auto simp: cpeAttribute_def Let_def unquote_quote)
  qed
qed

section \<open>The matcher reads the same attributes\<close>

definition of_fields :: "string list \<Rightarrow> cpeAttrs" where
  "of_fields f =
     \<lparr>cpe_part = f ! 0, cpe_vendor = f ! 1, cpe_product = f ! 2, cpe_version = f ! 3, cpe_update = f ! 4,
      cpe_edition = f ! 5, cpe_language = f ! 6, cpe_swEdition = f ! 7, cpe_targetSW = f ! 8, cpe_targetHW = f ! 9,
      cpe_other = f ! 10\<rparr>"

lemma length_uri_attrs [simp]: "length (uri_attrs body) = 11"
  by (simp add: uri_attrs_def Let_def split: prod.split)

lemma eleven:
  assumes "length f = 11"
  obtains a0 a1 a2 a3 a4 a5 a6 a7 a8 a9 a10 where "f = [a0, a1, a2, a3, a4, a5, a6, a7, a8, a9, a10]"
  using assms by (auto simp: length_Suc_conv numeral_eq_Suc)

lemma cpe_fields_of: "length f = 11 \<Longrightarrow> cpe_fields (of_fields f) = f"
  by (erule eleven) (simp add: of_fields_def cpe_fields_def eval_nat_numeral)

lemma rebound_format:
  "cpe23FromURI body = format_cpe (of_fields (map cpeAttribute (uri_attrs body)))"
proof -
  have "concat (map (\<lambda>a. '':'' @ cpeAttribute a) as) = (if as = [] then [] else '':'' @ join '':'' (map cpeAttribute as))" for as
    by (induction as) (simp_all add: join_Cons)
  moreover have "uri_attrs body \<noteq> []" using length_uri_attrs [of body] by (metis list.size(3) zero_neq_numeral)
  ultimately show ?thesis by (simp add: cpe23FromURI_def format_cpe_def cpe_fields_of join_Cons)
qed

lemma pad_nth: "i < n \<Longrightarrow> pad n f ! i = field_at f i"
  by (auto simp: pad_def field_at_def nth_append)

lemma parse_uri_fields: "parse_uri s = normalized (cpe_map unescape (of_fields (uri_attrs (drop 5 s))))"
  by (simp add: parse_uri_def uri_attrs_def of_fields_def pad_nth empty_cpe_def Let_def eval_nat_numeral)

lemma cpe_fields_map: "cpe_fields (cpe_map f a) = map f (cpe_fields a)"
  by (simp add: cpe_fields_def cpe_map_def)

lemma rebound_well_formed:
  assumes "list_all solid (uri_attrs body)"
  shows "well_formed_cpe (of_fields (map cpeAttribute (uri_attrs body)))"
  using assms attribute_ok(1-3) by (auto simp: well_formed_cpe_def cpe_fields_of list_all_iff)

lemma uri_prefix:
  assumes "has_prefix (to_lower s) ''cpe:/''"
  shows "to_lower (take 5 s) = ''cpe:/''" "5 \<le> length s" "s \<noteq> []" "\<not> has_prefix (to_lower s) ''cpe:2.3:''"
    "\<not> equal_fold (take 8 s) ''cpe:2.3:''"
proof -
  have five: "length ''cpe:/'' = 5" and eight: "length ''cpe:2.3:'' = 8" by simp_all
  have t: "take 5 (to_lower s) = ''cpe:/''" using assms unfolding has_prefix_def five .
  then show tl: "to_lower (take 5 s) = ''cpe:/''" by (simp add: to_lower_def take_map)
  have "length (take 5 (to_lower s)) = 5" unfolding t by simp
  then show "5 \<le> length s" by simp
  then show "s \<noteq> []" by auto
  have no: "take 8 (to_lower s) \<noteq> ''cpe:2.3:''"
  proof
    assume "take 8 (to_lower s) = ''cpe:2.3:''"
    then have "take 5 (take 8 (to_lower s)) = ''cpe:2''" by simp
    then show False using t by simp
  qed
  then show "\<not> has_prefix (to_lower s) ''cpe:2.3:''" unfolding has_prefix_def eight .
  have "to_lower ''cpe:2.3:'' = ''cpe:2.3:''" by code_simp
  then show "\<not> equal_fold (take 8 s) ''cpe:2.3:''" using no by (simp add: equal_fold_def to_lower_def take_map)
qed

theorem rebound_read:
  assumes "has_prefix (to_lower s) ''cpe:/''" "trim_space s = s" "list_all solid (uri_attrs (drop 5 s))"
  shows "\<exists>a u. parseCPE (cpe23 s) = Some a \<and> parseCPE s = Some u
    \<and> map unquoteCPE (cpe_fields a) = map to_lower (cpe_fields u)"
proof -
  let ?fs = "uri_attrs (drop 5 s)"
  let ?a = "of_fields (map cpeAttribute ?fs)" and ?u = "normalized (cpe_map unescape (of_fields ?fs))"
  note pre = uri_prefix [OF assms(1)]
  have "cpe23 s = format_cpe ?a" using pre assms(1,2) by (simp add: cpe23_def rebound_format)
  then have "parseCPE (cpe23 s) = Some ?a" using parseCPE_format [OF rebound_well_formed [OF assms(3)]] by simp
  moreover have "equal_fold (take 5 s) ''cpe:/''"
  proof -
    have "to_lower ''cpe:/'' = ''cpe:/''" by code_simp
    then show ?thesis using pre(1) by (simp add: equal_fold_def)
  qed
  then have "parseCPE s = Some ?u" using pre assms(2) by (simp add: parseCPE_def parse_uri_fields)
  moreover have "map unquoteCPE (cpe_fields ?a) = map to_lower (cpe_fields ?u)"
    using assms(3) attribute_ok(4)
    by (simp add: normalized_def cpe_fields_map cpe_fields_of list_all_iff)
  ultimately show ?thesis by blast
qed

end
