(* ===== verification/Json.thy ===== *)
theory Json
  imports Prelude
begin

text \<open>
  What the program uses of Go's \<open>encoding/json\<close>. A document is a value of \<open>json\<close>; a number keeps the text it was
  written as. Decoding into a struct goes through the members of the object in order, matches a name against a
  field without regard to case, lets \<open>null\<close> change nothing, and on a member of the wrong type notes the error and
  goes on: what was well typed is kept, and \<open>Unmarshal\<close> returns the error at the end.
\<close>

datatype json = JNull | JBool bool | JNum string | JStr string | JArr "json list" | JObj "(string \<times> json) list"

text \<open>A field decoded so far, and whether a member was of the wrong type.\<close>

type_synonym 'a decoded = "'a \<times> bool"

definition into_string :: "json \<Rightarrow> string decoded \<Rightarrow> string decoded" where
  "into_string j acc = (case j of JStr s \<Rightarrow> (s, snd acc) | JNull \<Rightarrow> acc | _ \<Rightarrow> (fst acc, True))"

definition into_raws :: "json \<Rightarrow> json list decoded \<Rightarrow> json list decoded" where
  "into_raws j acc = (case j of JArr js \<Rightarrow> (js, snd acc) | JNull \<Rightarrow> ([], snd acc) | _ \<Rightarrow> (fst acc, True))"

definition into_raw :: "json \<Rightarrow> json option decoded \<Rightarrow> json option decoded" where
  "into_raw j acc = (Some j, snd acc)"

definition struct_field :: "(json \<Rightarrow> 'a decoded \<Rightarrow> 'a decoded) \<Rightarrow> 'a \<Rightarrow> string \<Rightarrow> json \<Rightarrow> 'a decoded" where
  "struct_field into zero name j =
     (case j of
        JObj members \<Rightarrow> fold (\<lambda>(k, v) acc. if equal_fold k name then into v acc else acc) members (zero, False)
      | JNull \<Rightarrow> (zero, False)
      | _ \<Rightarrow> (zero, True))"

definition string_field :: "string \<Rightarrow> json \<Rightarrow> string decoded" where
  "string_field = struct_field into_string []"

definition raws_field :: "string \<Rightarrow> json \<Rightarrow> json list decoded" where
  "raws_field = struct_field into_raws []"

definition raw_field :: "string \<Rightarrow> json \<Rightarrow> json option decoded" where
  "raw_field = struct_field into_raw None"

text \<open>\<open>json.Unmarshal\<close> of a raw value, absent or present, into a fresh string.\<close>

definition unmarshal_string :: "json option \<Rightarrow> string option" where
  "unmarshal_string r = (case r of Some (JStr s) \<Rightarrow> Some s | Some JNull \<Rightarrow> Some [] | _ \<Rightarrow> None)"

text \<open>\<open>json.Unmarshal\<close> of a raw value into a struct with one string field.\<close>

definition unmarshal_name :: "string \<Rightarrow> json option \<Rightarrow> string option" where
  "unmarshal_name name r =
     (case r of
        None \<Rightarrow> None
      | Some j \<Rightarrow> (case string_field name j of (s, bad) \<Rightarrow> if bad then None else Some s))"

section \<open>Lemmas\<close>

lemma string_field_one:
  "string_field name (JObj [(name, JStr s)]) = (s, False)"
  by (simp add: string_field_def struct_field_def into_string_def)

lemma struct_field_absent:
  assumes "list_all (\<lambda>(k, v). \<not> equal_fold k name) members"
  shows "struct_field into zero name (JObj members) = (zero, False)"
  using assms by (induction members) (auto simp: struct_field_def)

end
