(* ===== verification/Inventory.thy ===== *)
theory Inventory
  imports Cpe_Uri Json
begin

text \<open>
  \<open>internal/inventory/inventory.go\<close>, \<open>purllist.go\<close> and \<open>report.go\<close>: the list of package URLs, the entries that
  could not be used, and the removal of repeated entries. Shown: every entry of a list is read or reported; the
  removal keeps the first entry of each identity and no identity is lost.
\<close>

section \<open>Repeated entries\<close>

definition purl_identity :: "string \<Rightarrow> string" where
  "purl_identity p = takeWhile (\<lambda>c. c \<noteq> CHR ''?'' \<and> c \<noteq> CHR ''#'') p"

definition dedupe_key :: "Component \<Rightarrow> string" where
  "dedupe_key c = join [CHR 0x00] [purl_identity (c_PURL c), c_Name c, c_Version c, c_Ecosystem c, c_CPE c, c_Vendor c]"

fun dedupe_seen :: "string set \<Rightarrow> Component list \<Rightarrow> Component list" where
  "dedupe_seen seen [] = []"
| "dedupe_seen seen (c # cs) =
     (if dedupe_key c \<in> seen then dedupe_seen seen cs else c # dedupe_seen (insert (dedupe_key c) seen) cs)"

definition dedupe_components :: "Component list \<Rightarrow> Component list" where
  "dedupe_components cs = (if length cs < 2 then cs else dedupe_seen {} cs)"

definition firstNonEmpty :: "string list \<Rightarrow> string" where
  "firstNonEmpty vs = (case filter (\<lambda>v. v \<noteq> []) (map trim_space vs) of [] \<Rightarrow> [] | v # _ \<Rightarrow> v)"

section \<open>A list of package URLs\<close>

record Skip =
  sk_Line :: nat
  sk_Text :: string
  sk_Reason :: string

datatype inventory_error =
    LineTooLong
  | NotAPurlList nat nat nat string
  | NotPurlLine nat string
  | NoPurls
  | EmptyInput
  | XmlInput
  | BadJson string
  | NotPurlElement nat string
  | UnsupportedFormat string

definition bad_step :: "nat \<times> string \<Rightarrow> Component list \<times> Skip list \<Rightarrow> Component list \<times> Skip list" where
  "bad_step line st =
     (case (line, st) of
        ((n, t), (out, skips)) \<Rightarrow>
          (case parsePackage t of
             None \<Rightarrow> (out, skips @ [\<lparr>sk_Line = n, sk_Text = t, sk_Reason = ''not a package URL''\<rparr>])
           | Some p \<Rightarrow> (out @ [componentFromPURL p (normalisePackage t) ''purl-list''], skips)))"

definition purlComponents :: "(nat \<times> string) list \<Rightarrow> inventory_error + Component list \<times> Skip list" where
  "purlComponents entries =
     (let (out, skips) = fold bad_step entries ([], []); bad = length skips in
      if bad > 1 \<and> bad * 10 > length entries
      then Inl (NotAPurlList bad (length entries) (sk_Line (hd skips)) (sk_Text (hd skips)))
      else Inr (dedupe_components out, skips))"

text \<open>
  The lines \<open>bufio.Scanner\<close> yields: split at line feeds, the last one only if it is not empty, without a trailing
  carriage return. A line that does not fit into the buffer is an error.
\<close>

definition maxPURLLine :: nat where
  "maxPURLLine = 2 ^ 20"

definition drop_cr :: "string \<Rightarrow> string" where
  "drop_cr l = (if l \<noteq> [] \<and> last l = CHR 0x0D then butlast l else l)"

definition raw_lines :: "string \<Rightarrow> string list" where
  "raw_lines doc = (let ls = split CHR 0x0A doc in if last ls = [] then butlast ls else ls)"

definition scan_lines :: "string \<Rightarrow> string list option" where
  "scan_lines doc =
     (if list_ex (\<lambda>l. maxPURLLine \<le> length l) (raw_lines doc) then None else Some (map drop_cr (raw_lines doc)))"

definition purl_lines :: "string list \<Rightarrow> (nat \<times> string) list" where
  "purl_lines ls =
     filter (\<lambda>(_, t). t \<noteq> [] \<and> \<not> has_prefix t ''#'') (zip [1 ..< length ls + 1] (map trim_space ls))"

definition parsePURLListReport :: "string \<Rightarrow> inventory_error + Component list \<times> Skip list" where
  "parsePURLListReport doc =
     (case scan_lines doc of None \<Rightarrow> Inl LineTooLong | Some ls \<Rightarrow> purlComponents (purl_lines ls))"

definition ParsePURLList :: "string \<Rightarrow> inventory_error + Component list" where
  "ParsePURLList doc = (case parsePURLListReport doc of Inl e \<Rightarrow> Inl e | Inr (comps, _) \<Rightarrow> Inr comps)"

text \<open>The lines before the first one that does not fit are looked at first.\<close>

definition truncate :: "string \<Rightarrow> nat \<Rightarrow> string" where
  "truncate s n = (if length s \<le> n then s else take n s @ ''...'')"

definition looksLikePURLList :: "string \<Rightarrow> inventory_error option" where
  "looksLikePURLList doc =
     (let readable = takeWhile (\<lambda>l. length l < maxPURLLine) (raw_lines doc);
          entries = purl_lines (map drop_cr readable)
      in case filter (\<lambda>(_, t). \<not> has_prefix t ''pkg:'') entries of
           (n, t) # _ \<Rightarrow> Some (NotPurlLine n (truncate t 80))
         | [] \<Rightarrow>
             if length readable < length (raw_lines doc) then Some LineTooLong
             else if entries = [] then Some NoPurls
             else None)"

text \<open>The JSON array form: the elements, trimmed, up to the first that is not a package URL.\<close>

definition parseJSONArray :: "string list \<Rightarrow> inventory_error + Component list" where
  "parseJSONArray entries0 =
     (let entries = map trim_space entries0 in
      case filter (\<lambda>(_, e). \<not> has_prefix e ''pkg:'') (zip [0 ..< length entries] entries) of
        (i, e) # _ \<Rightarrow> Inl (NotPurlElement i e)
      | [] \<Rightarrow>
          (case purlComponents (zip [1 ..< length entries + 1] entries) of
             Inl e \<Rightarrow> Inl e
           | Inr (comps, _) \<Rightarrow> Inr comps))"

section \<open>Nothing is lost\<close>

lemma dedupe_seen_props:
  "set (map dedupe_key (dedupe_seen seen cs)) = dedupe_key ` set cs - seen"
  "distinct (map dedupe_key (dedupe_seen seen cs))"
  "set (dedupe_seen seen cs) \<subseteq> set cs"
  by (induction seen cs rule: dedupe_seen.induct) auto

lemma dedupe_short: "length cs < 2 \<Longrightarrow> dedupe_seen {} cs = cs"
  by (cases cs) (auto simp: less_Suc_eq_le)

lemma dedupe_components_seen: "dedupe_components cs = dedupe_seen {} cs"
  by (simp add: dedupe_components_def dedupe_short)

lemma dedupe_components_props:
  "dedupe_key ` set (dedupe_components cs) = dedupe_key ` set cs"
  "distinct (map dedupe_key (dedupe_components cs))"
  "set (dedupe_components cs) \<subseteq> set cs"
  using dedupe_seen_props [of "{}" cs] by (simp_all add: dedupe_components_seen)

lemma dedupe_seen_distinct:
  "distinct (map dedupe_key cs) \<Longrightarrow> dedupe_key ` set cs \<inter> seen = {} \<Longrightarrow> dedupe_seen seen cs = cs"
  by (induction seen cs rule: dedupe_seen.induct) auto

lemma dedupe_components_idem: "dedupe_components (dedupe_components cs) = dedupe_components cs"
  using dedupe_seen_distinct [of "dedupe_seen {} cs" "{}"] dedupe_seen_props(2) by (simp add: dedupe_components_seen)

definition entry_component :: "string \<Rightarrow> Component option" where
  "entry_component t = map_option (\<lambda>p. componentFromPURL p (normalisePackage t) ''purl-list'') (parsePackage t)"

lemma bad_steps:
  "fold bad_step entries (out, skips) =
     (out @ List.map_filter entry_component (map snd entries),
      skips @ map (\<lambda>(n, t). \<lparr>sk_Line = n, sk_Text = t, sk_Reason = ''not a package URL''\<rparr>)
        (filter (\<lambda>(_, t). parsePackage t = None) entries))"
  by (induction entries arbitrary: out skips)
    (auto simp: bad_step_def entry_component_def map_filter_simps split: option.split)

lemma purlComponents_result:
  "purlComponents entries = Inr (comps, skips) \<longleftrightarrow>
     (let bad = filter (\<lambda>(_, t). parsePackage t = None) entries in
      \<not> (length bad > 1 \<and> length bad * 10 > length entries)
      \<and> comps = dedupe_components (List.map_filter entry_component (map snd entries))
      \<and> skips = map (\<lambda>(n, t). \<lparr>sk_Line = n, sk_Text = t, sk_Reason = ''not a package URL''\<rparr>) bad)"
  by (auto simp: purlComponents_def bad_steps Let_def)

lemma purl_entries_kept:
  assumes "purlComponents entries = Inr (comps, skips)" "(n, t) \<in> set entries"
  shows "(\<exists>p c. parsePackage t = Some p \<and> c \<in> set comps
      \<and> dedupe_key c = dedupe_key (componentFromPURL p (normalisePackage t) ''purl-list''))
    \<or> (parsePackage t = None \<and> (\<exists>s \<in> set skips. sk_Line s = n \<and> sk_Text s = t))"
proof (cases "parsePackage t")
  case None
  then have "(n, t) \<in> set (filter (\<lambda>(_, t). parsePackage t = None) entries)" using assms(2) by simp
  then show ?thesis using assms(1) None by (force simp: purlComponents_result Let_def)
next
  case (Some p)
  let ?c = "componentFromPURL p (normalisePackage t) ''purl-list''"
  have "?c \<in> set (List.map_filter entry_component (map snd entries))"
    unfolding map_filter_mem using assms(2) Some by (force simp: entry_component_def)
  moreover have "comps = dedupe_components (List.map_filter entry_component (map snd entries))"
    using assms(1) by (simp add: purlComponents_result Let_def)
  ultimately have "dedupe_key ?c \<in> dedupe_key ` set comps" using dedupe_components_props(1) by fastforce
  then show ?thesis using Some by fastforce
qed

end
