(* ===== verification/Sbom.thy ===== *)
theory Sbom
  imports Inventory
begin

text \<open>
  The two SBOM readers, \<open>internal/inventory/cyclonedx.go\<close> and \<open>spdx.go\<close>, and the choice between the formats
  (\<open>Parse\<close> in \<open>inventory.go\<close>), from the JSON value a document decodes to. A struct is decoded field by field, with
  a flag for a member of the wrong type. Shown: every component read has a name, a package URL and a CPE that are
  empty or of the form the matcher expects, and a version the document states; nothing nested is lost.
\<close>

definition no_package :: package where
  "no_package = \<lparr>k_Type = [], k_Namespace = [], k_Name = [], k_Version = [], k_Qualifiers = Map.empty, k_Subpath = []\<rparr>"

section \<open>CycloneDX\<close>

record cdxComponent =
  cd_Group :: string
  cd_Name :: string
  cd_Version :: "json option"
  cd_PURL :: string
  cd_CPE :: string
  cd_Publisher :: string
  cd_Author :: string
  cd_Authors :: "json list"
  cd_Supplier :: "json option"
  cd_Evidence :: "json option"
  cd_Components :: "json list"

text \<open>The component, and whether a member of the object had the wrong type.\<close>

definition decode_component :: "json \<Rightarrow> cdxComponent decoded" where
  "decode_component j =
     (\<lparr>cd_Group = fst (string_field ''group'' j), cd_Name = fst (string_field ''name'' j),
       cd_Version = fst (raw_field ''version'' j), cd_PURL = fst (string_field ''purl'' j),
       cd_CPE = fst (string_field ''cpe'' j), cd_Publisher = fst (string_field ''publisher'' j),
       cd_Author = fst (string_field ''author'' j), cd_Authors = fst (raws_field ''authors'' j),
       cd_Supplier = fst (raw_field ''supplier'' j), cd_Evidence = fst (raw_field ''evidence'' j),
       cd_Components = fst (raws_field ''components'' j)\<rparr>,
      list_ex (\<lambda>name. snd (string_field name j)) [''type'', ''group'', ''name'', ''purl'', ''cpe'', ''publisher'', ''author'']
      \<or> snd (raws_field ''authors'' j) \<or> snd (raws_field ''components'' j))"

definition cdx_version :: "cdxComponent \<Rightarrow> string" where
  "cdx_version c =
     (case cd_Version c of
        Some (JStr s) \<Rightarrow> trim_space s
      | Some (JNum n) \<Rightarrow> n
      | _ \<Rightarrow> [])"

definition cdx_scannable :: "cdxComponent \<Rightarrow> bool" where
  "cdx_scannable c \<longleftrightarrow> cdx_version c \<noteq> [] \<or> trim_space (cd_PURL c) \<noteq> [] \<or> trim_space (cd_CPE c) \<noteq> []"

definition supplierName :: "cdxComponent \<Rightarrow> string" where
  "supplierName c =
     (case unmarshal_name ''name'' (cd_Supplier c) of
        Some n \<Rightarrow> n
      | None \<Rightarrow> (case unmarshal_string (cd_Supplier c) of Some s \<Rightarrow> s | None \<Rightarrow> []))"

fun first_author :: "json list \<Rightarrow> string \<Rightarrow> string" where
  "first_author [] author = author"
| "first_author (raw # raws) author =
     (case unmarshal_name ''name'' (Some raw) of
        Some (x # xs) \<Rightarrow> x # xs
      | _ \<Rightarrow> (case unmarshal_string (Some raw) of Some (x # xs) \<Rightarrow> x # xs | _ \<Rightarrow> first_author raws author))"

definition authorName :: "cdxComponent \<Rightarrow> string" where
  "authorName c = first_author (cd_Authors c) (cd_Author c)"

text \<open>An identity is the field it is about and its concluded value.\<close>

definition decode_identity :: "json \<Rightarrow> (string \<times> string) decoded" where
  "decode_identity j =
     ((fst (string_field ''field'' j), fst (string_field ''concludedValue'' j)),
      snd (string_field ''field'' j) \<or> snd (string_field ''concludedValue'' j))"

definition identities :: "cdxComponent \<Rightarrow> (string \<times> string) list" where
  "identities c =
     (case cd_Evidence c of
        None \<Rightarrow> []
      | Some ev \<Rightarrow>
          if snd (raw_field ''identity'' ev) then []
          else
            (case fst (raw_field ''identity'' ev) of
               None \<Rightarrow> []
             | Some JNull \<Rightarrow> []
             | Some (JArr js) \<Rightarrow> if list_ex (\<lambda>j. snd (decode_identity j)) js then [] else map (\<lambda>j. fst (decode_identity j)) js
             | Some j \<Rightarrow> if snd (decode_identity j) then [] else [fst (decode_identity j)]))"

definition identity_step :: "string \<times> string \<Rightarrow> string \<times> string \<Rightarrow> string \<times> string" where
  "identity_step i st =
     (case (i, st) of
        ((fld, val), (purl, cpe)) \<Rightarrow>
          let name = to_lower (trim_space fld) in
          if name = ''purl'' then (if purl = [] then (normalisePackage val, cpe) else st)
          else if name = ''cpe'' then (if cpe = [] then (purl, cpe23 val) else st)
          else st)"

definition cdx_component :: "cdxComponent \<Rightarrow> Component option" where
  "cdx_component c =
     (let (purlString, cpe) = fold identity_step (identities c) (normalisePackage (cd_PURL c), cpe23 (cd_CPE c));
          parsed = parsePackage purlString;
          p = (case parsed of Some p \<Rightarrow> p | None \<Rightarrow> no_package);
          name = (case parsed of Some p \<Rightarrow> packageName p | None \<Rightarrow> trim_space (cd_Name c));
          version = (if cdx_version c = [] then (case parsed of Some p \<Rightarrow> k_Version p | None \<Rightarrow> []) else cdx_version c);
          group = trim_prefix (trim_space (cd_Group c)) ''@''
      in if name = [] then None
         else Some \<lparr>c_Name = name, c_Version = version,
                c_Vendor = firstNonEmpty [group, supplierName c, cd_Publisher c, authorName c, vendorFromPURL p],
                c_Ecosystem = ecosystemForPURL p, c_PURL = purlString, c_CPE = cpe, c_Origin = ''cyclonedx''\<rparr>)"

definition maxNesting :: nat where
  "maxNesting = 64"

definition own_component :: "json \<Rightarrow> Component list" where
  "own_component raw =
     (case decode_component raw of
        (c, partial) \<Rightarrow>
          (case cdx_component c of
             Some k \<Rightarrow> if \<not> partial \<or> cdx_scannable c then [k] else []
           | None \<Rightarrow> []))"

function cdx_components :: "nat \<Rightarrow> json \<Rightarrow> Component list" where
  "cdx_components depth raw =
     (if depth > maxNesting then []
      else own_component raw
           @ concat (map (cdx_components (depth + 1)) (cd_Components (fst (decode_component raw)))))"
  by pat_completeness auto
termination
  by (relation "measure (\<lambda>(depth, _). Suc maxNesting - depth)") (auto simp: maxNesting_def)

declare cdx_components.simps [simp del]

text \<open>The subject of the document, \<open>metadata.component\<close>.\<close>

definition cdx_subject :: "json option \<Rightarrow> Component list" where
  "cdx_subject metadata =
     (case metadata of
        None \<Rightarrow> []
      | Some m \<Rightarrow>
          (case raw_field ''component'' m of
             (Some raw, bad) \<Rightarrow> if bad then [] else cdx_components 0 raw
           | _ \<Rightarrow> []))"

definition ParseCycloneDX :: "json \<Rightarrow> inventory_error + Component list" where
  "ParseCycloneDX doc =
     (let (bomFormat, e1) = string_field ''bomFormat'' doc;
          (spdxVersion, e2) = string_field ''spdxVersion'' doc;
          (metadata, e3) = raw_field ''metadata'' doc;
          (components, e4) = raws_field ''components'' doc
      in if e1 \<or> e2 \<or> e3 \<or> e4 then Inl (BadJson ''cyclonedx: decode document'')
         else if spdxVersion \<noteq> [] then Inl (UnsupportedFormat spdxVersion)
         else if bomFormat \<noteq> [] \<and> \<not> equal_fold bomFormat ''CycloneDX'' then Inl (UnsupportedFormat bomFormat)
         else Inr (dedupe_components (cdx_subject metadata @ concat (map (cdx_components 0) components))))"

section \<open>SPDX\<close>

record spdxExternalRef =
  er_Category :: string
  er_Type :: string
  er_Locator :: string

record spdxPackage =
  sp_Name :: string
  sp_VersionInfo :: string
  sp_Supplier :: string
  sp_Originator :: string
  sp_ExternalRefs :: "spdxExternalRef list"

definition decode_ref :: "json \<Rightarrow> spdxExternalRef decoded" where
  "decode_ref j =
     (\<lparr>er_Category = fst (string_field ''referenceCategory'' j), er_Type = fst (string_field ''referenceType'' j),
       er_Locator = fst (string_field ''referenceLocator'' j)\<rparr>,
      list_ex (\<lambda>name. snd (string_field name j)) [''referenceCategory'', ''referenceType'', ''referenceLocator''])"

definition decode_package :: "json \<Rightarrow> spdxPackage decoded" where
  "decode_package j =
     (let refs = map decode_ref (fst (raws_field ''externalRefs'' j)) in
      (\<lparr>sp_Name = fst (string_field ''name'' j), sp_VersionInfo = fst (string_field ''versionInfo'' j),
        sp_Supplier = fst (string_field ''supplier'' j), sp_Originator = fst (string_field ''originator'' j),
        sp_ExternalRefs = map fst refs\<rparr>,
       list_ex (\<lambda>name. snd (string_field name j)) [''SPDXID'', ''name'', ''versionInfo'', ''supplier'', ''originator'']
       \<or> snd (raws_field ''externalRefs'' j) \<or> list_ex snd refs))"

definition spdx_scannable :: "spdxPackage \<Rightarrow> bool" where
  "spdx_scannable p \<longleftrightarrow> trim_space (sp_VersionInfo p) \<noteq> []
     \<or> list_ex (\<lambda>ref. trim_space (er_Locator ref) \<noteq> []) (sp_ExternalRefs p)"

definition noAssertion :: "string \<Rightarrow> bool" where
  "noAssertion s \<longleftrightarrow> equal_fold s ''NOASSERTION'' \<or> equal_fold s ''NONE''"

fun strip_actor :: "string list \<Rightarrow> string \<Rightarrow> string" where
  "strip_actor [] s = s"
| "strip_actor (p # ps) s =
     (if length p \<le> length s \<and> equal_fold (take (length p) s) p then trim_space (drop (length p) s) else strip_actor ps s)"

definition spdxActor :: "string \<Rightarrow> string" where
  "spdxActor s0 =
     (let s = strip_actor [''Organization:'', ''Person:'', ''Tool:''] (trim_space s0) in
      if noAssertion s then [] else s)"

fun spdx_purl_from :: "string \<Rightarrow> spdxExternalRef list \<Rightarrow> string" where
  "spdx_purl_from fallback [] = fallback"
| "spdx_purl_from fallback (ref # refs) =
     (if \<not> equal_fold (trim_space (er_Type ref)) ''purl'' then spdx_purl_from fallback refs
      else
        let normalised = normalisePackage (er_Locator ref) in
        if normalised = [] then spdx_purl_from fallback refs
        else if to_upper (trim_space (er_Category ref)) \<in> {''PACKAGE-MANAGER'', ''PACKAGE_MANAGER''} then normalised
        else spdx_purl_from (if fallback = [] then normalised else fallback) refs)"

fun spdx_cpe_from :: "string \<Rightarrow> spdxExternalRef list \<Rightarrow> string" where
  "spdx_cpe_from converted [] = converted"
| "spdx_cpe_from converted (ref # refs) =
     (if \<not> equal_fold (trim_space (er_Category ref)) ''SECURITY'' then spdx_cpe_from converted refs
      else
        let ty = to_lower (trim_space (er_Type ref)); c = cpe23 (er_Locator ref) in
        if ty = ''cpe23type'' then (if c \<noteq> [] then c else spdx_cpe_from converted refs)
        else if ty = ''cpe22type'' then spdx_cpe_from (if converted = [] then c else converted) refs
        else spdx_cpe_from converted refs)"

definition spdx_component :: "spdxPackage \<Rightarrow> Component option" where
  "spdx_component sp =
     (let purlString = spdx_purl_from [] (sp_ExternalRefs sp);
          parsed = parsePackage purlString;
          p = (case parsed of Some p \<Rightarrow> p | None \<Rightarrow> no_package);
          name = (case parsed of Some p \<Rightarrow> packageName p | None \<Rightarrow> trim_space (sp_Name sp));
          stated_version = (if noAssertion (trim_space (sp_VersionInfo sp)) then [] else trim_space (sp_VersionInfo sp));
          version = (if stated_version = [] then (case parsed of Some p \<Rightarrow> k_Version p | None \<Rightarrow> []) else stated_version)
      in if name = [] then None
         else Some \<lparr>c_Name = name, c_Version = version,
                c_Vendor = firstNonEmpty [spdxActor (sp_Supplier sp), spdxActor (sp_Originator sp), vendorFromPURL p],
                c_Ecosystem = ecosystemForPURL p, c_PURL = purlString, c_CPE = spdx_cpe_from [] (sp_ExternalRefs sp),
                c_Origin = ''spdx''\<rparr>)"

definition package_components :: "json \<Rightarrow> Component list" where
  "package_components raw =
     (case decode_package raw of
        (p, bad) \<Rightarrow>
          if bad \<and> \<not> spdx_scannable p then []
          else (case spdx_component p of Some c \<Rightarrow> [c] | None \<Rightarrow> []))"

definition spdx2x :: "string \<Rightarrow> bool" where
  "spdx2x v \<longleftrightarrow> v \<in> {''SPDX-2.2'', ''SPDX-2.3''}"

definition spdxOld :: "string \<Rightarrow> bool" where
  "spdxOld v \<longleftrightarrow> v \<in> {''SPDX-2.0'', ''SPDX-2.1''}"

definition ParseSPDX :: "json \<Rightarrow> inventory_error + Component list" where
  "ParseSPDX doc =
     (let (spdxVersion, e1) = string_field ''spdxVersion'' doc;
          (spdxID, e2) = string_field ''SPDXID'' doc;
          (ctxt, e3) = raw_field ''@context'' doc;
          (packages, e4) = raws_field ''packages'' doc;
          (files, e5) = raws_field ''files'' doc
      in if e1 \<or> e2 \<or> e3 \<or> e4 \<or> e5 then Inl (BadJson ''spdx: decode document'')
         else if ctxt \<noteq> None \<or> has_prefix spdxVersion ''SPDX-3'' then Inl (UnsupportedFormat ''SPDX 3.x'')
         else if spdxOld spdxVersion then Inl (UnsupportedFormat spdxVersion)
         else if spdxVersion = [] \<and> (packages = [] \<or> spdxID = []) then Inl (UnsupportedFormat ''not an SPDX 2.x document'')
         else if spdxVersion \<noteq> [] \<and> \<not> spdx2x spdxVersion then Inl (UnsupportedFormat spdxVersion)
         else Inr (dedupe_components (concat (map package_components packages))))"

section \<open>Choosing the format\<close>

record jsonKeys =
  jk_names :: "string list"
  jk_values :: "string \<rightharpoonup> string"
  jk_descriptor :: string

definition key_member :: "string \<times> json \<Rightarrow> jsonKeys \<Rightarrow> jsonKeys" where
  "key_member m k =
     (case m of
        (name, raw) \<Rightarrow>
          let k = k\<lparr>jk_names := jk_names k @ [name]\<rparr>;
              k = (case unmarshal_string (Some raw) of Some s \<Rightarrow> k\<lparr>jk_values := (jk_values k)(name \<mapsto> s)\<rparr> | None \<Rightarrow> k)
          in if name = ''descriptor''
             then (case unmarshal_name ''name'' (Some raw) of Some s \<Rightarrow> k\<lparr>jk_descriptor := s\<rparr> | None \<Rightarrow> k)
             else k)"

definition topLevelKeys :: "(string \<times> json) list \<Rightarrow> jsonKeys" where
  "topLevelKeys members = fold key_member members \<lparr>jk_names = [], jk_values = Map.empty, jk_descriptor = []\<rparr>"

definition key_value :: "jsonKeys \<Rightarrow> string \<Rightarrow> string" where
  "key_value k name = (case jk_values k name of Some v \<Rightarrow> v | None \<Rightarrow> [])"

definition key_present :: "jsonKeys \<Rightarrow> string \<Rightarrow> bool" where
  "key_present k name \<longleftrightarrow> name \<in> set (jk_names k)"

definition parseJSONObject :: "(string \<times> json) list \<Rightarrow> inventory_error + Component list" where
  "parseJSONObject members =
     (let k = topLevelKeys members; doc = JObj members; spdxVersion = key_value k ''spdxVersion'' in
      if equal_fold (key_value k ''bomFormat'') ''CycloneDX'' then ParseCycloneDX doc
      else if spdx2x spdxVersion then ParseSPDX doc
      else if spdxOld spdxVersion then Inl (UnsupportedFormat spdxVersion)
      else if has_prefix spdxVersion ''SPDX-3'' \<or> key_present k ''@context'' then Inl (UnsupportedFormat ''SPDX 3.x'')
      else if key_present k ''components'' \<and> key_value k ''specVersion'' \<noteq> [] then ParseCycloneDX doc
      else if key_present k ''packages'' \<and> key_present k ''SPDXID'' then ParseSPDX doc
      else if key_present k ''artifacts'' \<and> equal_fold (jk_descriptor k) ''syft'' then Inl (UnsupportedFormat ''syft'')
      else if key_present k ''Results'' \<and> key_present k ''SchemaVersion'' then Inl (UnsupportedFormat ''Trivy'')
      else Inl (UnsupportedFormat (join '', '' (jk_names k))))"

text \<open>\<open>json.Unmarshal\<close> into a list of strings.\<close>

definition unmarshal_strings :: "json \<Rightarrow> string list option" where
  "unmarshal_strings j =
     (case j of
        JArr js \<Rightarrow> (if list_ex (\<lambda>j. unmarshal_string (Some j) = None) js then None
                    else Some (map (\<lambda>j. case unmarshal_string (Some j) of Some s \<Rightarrow> s | None \<Rightarrow> []) js))
      | JNull \<Rightarrow> Some []
      | _ \<Rightarrow> None)"

definition json_blank :: "char \<Rightarrow> bool" where
  "json_blank c \<longleftrightarrow> c \<in> {CHR '' '', CHR 0x09, CHR 0x0D, CHR 0x0A}"

text \<open>\<open>Parse\<close> on the decompressed document; \<open>decode\<close> is the JSON decoder.\<close>

definition Parse :: "(string \<Rightarrow> json option) \<Rightarrow> string \<Rightarrow> inventory_error + Component list" where
  "Parse decode doc =
     (case dropWhile json_blank doc of
        [] \<Rightarrow> Inl EmptyInput
      | c # _ \<Rightarrow>
          if c = CHR ''{'' then
            (case decode doc of Some (JObj members) \<Rightarrow> parseJSONObject members | _ \<Rightarrow> Inl (BadJson ''read JSON document''))
          else if c = CHR ''['' then
            (case decode doc of
               None \<Rightarrow> Inl (BadJson ''array'')
             | Some j \<Rightarrow> (case unmarshal_strings j of None \<Rightarrow> Inl (BadJson ''array'') | Some es \<Rightarrow> parseJSONArray es))
          else if c = CHR ''<'' then Inl XmlInput
          else (case looksLikePURLList doc of Some e \<Rightarrow> Inl e | None \<Rightarrow> ParsePURLList doc))"

section \<open>Well-formed components\<close>

text \<open>What the matcher may rely on in a component an inventory hands it.\<close>

definition good_purl :: "string \<Rightarrow> bool" where
  "good_purl p \<longleftrightarrow> p = [] \<or> (parsePackage p \<noteq> None \<and> normalisePackage p = p)"

definition good_cpe :: "string \<Rightarrow> bool" where
  "good_cpe c \<longleftrightarrow> c = [] \<or> has_prefix (to_lower c) ''cpe:2.3:''"

definition good_component :: "Component \<Rightarrow> bool" where
  "good_component c \<longleftrightarrow> c_Name c \<noteq> [] \<and> good_purl (c_PURL c) \<and> good_cpe (c_CPE c)"

lemma good_purl_normalised: "good_purl (normalisePackage s)"
proof (cases "parsePackage s")
  case None
  then show ?thesis by (simp add: good_purl_def normalise_fails)
next
  case (Some p)
  then show ?thesis using normalise_shape [OF Some] by (simp add: good_purl_def)
qed

lemma good_cpe_cpe23: "good_cpe (cpe23 s)"
proof -
  have "has_prefix (to_lower (cpe23FromURI b)) ''cpe:2.3:''" for b
  proof -
    obtain a as where "uri_attrs b = a # as" using length_uri_attrs [of b] by (cases "uri_attrs b") auto
    then show ?thesis by (simp add: cpe23FromURI_def has_prefix_def to_lower_def lower_char_def ascii_upper_def less_eq_char_def)
  qed
  then show ?thesis by (auto simp: good_cpe_def cpe23_def Let_def)
qed

lemma packageName_nonempty: "parsePackage s = Some p \<Longrightarrow> packageName p \<noteq> []"
proof -
  assume "parsePackage s = Some p"
  then have "k_Name p \<noteq> []"
    by (auto simp: parsePackage_def package_rest_def Let_def split: if_splits option.splits prod.splits)
  then show ?thesis by (simp add: packageName_def)
qed

lemma identity_steps_good:
  "good_purl p \<Longrightarrow> good_cpe c \<Longrightarrow> fold identity_step ids (p, c) = (p', c') \<Longrightarrow> good_purl p' \<and> good_cpe c'"
proof (induction ids arbitrary: p c)
  case (Cons i ids)
  obtain p1 c1 where s: "identity_step i (p, c) = (p1, c1)" by (cases "identity_step i (p, c)")
  then have "good_purl p1" "good_cpe c1"
    using Cons.prems(1,2) good_purl_normalised good_cpe_cpe23
    by (auto simp: identity_step_def Let_def split: prod.splits if_splits)
  then show ?case using Cons s by simp
qed simp

lemma cdx_component_good: "cdx_component c = Some k \<Longrightarrow> good_component k"
proof -
  assume a: "cdx_component c = Some k"
  obtain pu cp where f: "fold identity_step (identities c) (normalisePackage (cd_PURL c), cpe23 (cd_CPE c)) = (pu, cp)"
    by (cases "fold identity_step (identities c) (normalisePackage (cd_PURL c), cpe23 (cd_CPE c))")
  then have "good_purl pu \<and> good_cpe cp"
    using identity_steps_good [OF good_purl_normalised good_cpe_cpe23] by blast
  moreover have "c_Name k \<noteq> []" "c_PURL k = pu" "c_CPE k = cp"
    using a f by (auto simp: cdx_component_def Let_def split: if_splits)
  ultimately show ?thesis by (simp add: good_component_def)
qed

lemma spdx_purl_good: "good_purl fb \<Longrightarrow> good_purl (spdx_purl_from fb refs)"
  by (induction fb refs rule: spdx_purl_from.induct) (simp_all add: good_purl_normalised Let_def)

lemma spdx_cpe_good: "good_cpe fb \<Longrightarrow> good_cpe (spdx_cpe_from fb refs)"
  by (induction fb refs rule: spdx_cpe_from.induct) (simp_all add: good_cpe_cpe23 Let_def)

lemma spdx_component_good: "spdx_component sp = Some k \<Longrightarrow> good_component k"
proof -
  assume "spdx_component sp = Some k"
  then have "c_Name k \<noteq> []" "c_PURL k = spdx_purl_from [] (sp_ExternalRefs sp)"
    "c_CPE k = spdx_cpe_from [] (sp_ExternalRefs sp)"
    by (auto simp: spdx_component_def Let_def split: if_splits)
  moreover have "good_purl []" "good_cpe []" by (simp_all add: good_purl_def good_cpe_def)
  ultimately show ?thesis using spdx_purl_good spdx_cpe_good by (simp add: good_component_def)
qed

lemma purl_component_good: "parsePackage t = Some p \<Longrightarrow> good_component (componentFromPURL p (normalisePackage t) org)"
  using good_purl_normalised packageName_nonempty by (simp add: good_component_def componentFromPURL_def good_cpe_def)

lemma dedupe_good: "list_all good_component cs \<Longrightarrow> list_all good_component (dedupe_components cs)"
  using dedupe_components_props(3) [of cs] by (auto simp: list_all_iff)

lemma own_component_good: "list_all good_component (own_component raw)"
  by (auto simp: own_component_def cdx_component_good split: prod.split option.split)

lemma cdx_components_good: "list_all good_component (cdx_components d raw)"
proof (induction d raw rule: cdx_components.induct)
  case (1 d raw)
  show ?case
  proof (cases "d > maxNesting")
    case True
    then show ?thesis by (simp add: cdx_components.simps [of d])
  next
    case False
    then have "list_all good_component (concat (map (cdx_components (d + 1)) (cd_Components (fst (decode_component raw)))))"
      using 1 by (auto simp: list_all_iff)
    then show ?thesis using False own_component_good [of raw] by (simp add: cdx_components.simps [of d])
  qed
qed

lemma cdx_subject_good: "list_all good_component (cdx_subject m)"
  by (auto simp: cdx_subject_def cdx_components_good split: option.split prod.split)

lemma ParseCycloneDX_result:
  assumes "ParseCycloneDX doc = Inr cs"
  shows "cs = dedupe_components (cdx_subject (fst (raw_field ''metadata'' doc))
    @ concat (map (cdx_components 0) (fst (raws_field ''components'' doc))))"
  using assms by (simp add: ParseCycloneDX_def Let_def split_beta split: if_splits)

lemma ParseCycloneDX_good:
  assumes "ParseCycloneDX doc = Inr cs"
  shows "list_all good_component cs"
proof -
  have "list_all good_component (concat (map (cdx_components 0) raws))" for raws
    using cdx_components_good by (auto simp: list_all_iff)
  then show ?thesis unfolding ParseCycloneDX_result [OF assms] using cdx_subject_good
    by (intro dedupe_good) simp
qed

lemma ParseSPDX_good: "ParseSPDX doc = Inr cs \<Longrightarrow> list_all good_component cs"
proof -
  assume "ParseSPDX doc = Inr cs"
  then obtain packages where "cs = dedupe_components (concat (map package_components packages))"
    by (auto simp: ParseSPDX_def Let_def split: prod.splits if_splits)
  moreover have "list_all good_component (package_components raw)" for raw
    by (auto simp: package_components_def spdx_component_good split: prod.split option.split)
  then have "list_all good_component (concat (map package_components packages))" by (auto simp: list_all_iff)
  ultimately show ?thesis using dedupe_good by simp
qed

lemma purlComponents_good: "purlComponents entries = Inr (cs, skips) \<Longrightarrow> list_all good_component cs"
proof -
  assume "purlComponents entries = Inr (cs, skips)"
  then have "cs = dedupe_components (List.map_filter entry_component (map snd entries))"
    by (simp add: purlComponents_result Let_def)
  moreover have "list_all good_component (List.map_filter entry_component (map snd entries))"
    using purl_component_good by (auto simp: list_all_iff map_filter_mem entry_component_def)
  ultimately show ?thesis using dedupe_good by simp
qed

lemma ParsePURLList_good: "ParsePURLList doc = Inr cs \<Longrightarrow> list_all good_component cs"
  using purlComponents_good
  by (fastforce simp: ParsePURLList_def parsePURLListReport_def split: option.splits sum.splits prod.splits)

theorem Parse_good:
  assumes "Parse decode doc = Inr cs"
  shows "list_all good_component cs"
proof -
  have arr: "parseJSONArray es = Inr cs \<Longrightarrow> list_all good_component cs" for es
    using purlComponents_good by (fastforce simp: parseJSONArray_def Let_def split: list.splits sum.splits prod.splits)
  have obj: "parseJSONObject ms = Inr cs \<Longrightarrow> list_all good_component cs" for ms
    using ParseCycloneDX_good ParseSPDX_good by (simp add: parseJSONObject_def Let_def split: if_splits)
  show ?thesis using assms arr obj ParsePURLList_good
    by (auto simp: Parse_def split: list.splits if_splits option.splits json.splits)
qed

section \<open>Containment\<close>

text \<open>The nodes of a component tree down to the nesting bound.\<close>

inductive contained :: "json \<Rightarrow> nat \<Rightarrow> json \<Rightarrow> bool" where
  contained_self: "contained raw 0 raw"
| contained_child: "child \<in> set (cd_Components (fst (decode_component raw))) \<Longrightarrow> contained child n node \<Longrightarrow> contained raw (Suc n) node"

lemma contained_emitted:
  assumes "contained raw n node" "d + n \<le> maxNesting"
  shows "set (own_component node) \<subseteq> set (cdx_components d raw)"
  using assms
proof (induction arbitrary: d rule: contained.induct)
  case (contained_self raw)
  then show ?case by (simp add: cdx_components.simps [of d raw])
next
  case (contained_child child raw n node)
  have "set (own_component node) \<subseteq> set (cdx_components (d + 1) child)"
    using contained_child by simp
  then show ?case using contained_child.hyps(1) contained_child.prems by (auto simp: cdx_components.simps [of d raw])
qed

text \<open>Every component of a document, nested or not, is in the inventory under its identity.\<close>

theorem cyclonedx_complete:
  assumes "ParseCycloneDX doc = Inr cs" "raw \<in> set (fst (raws_field ''components'' doc))" "contained raw n node"
    "n \<le> maxNesting" "k \<in> set (own_component node)"
  shows "\<exists>c \<in> set cs. dedupe_key c = dedupe_key k"
proof -
  note cs = ParseCycloneDX_result [OF assms(1)]
  have "k \<in> set (cdx_components 0 raw)" using contained_emitted [OF assms(3), of 0] assms(4,5) by auto
  then have "dedupe_key k \<in> dedupe_key ` set (cdx_subject (fst (raw_field ''metadata'' doc)) @ concat (map (cdx_components 0) (fst (raws_field ''components'' doc))))"
    using assms(2) by auto
  then have "dedupe_key k \<in> dedupe_key ` set cs" unfolding cs by (simp only: dedupe_components_props(1))
  then show ?thesis by force
qed

section \<open>Versions are stated, not guessed\<close>

lemma cdx_version_stated:
  assumes "cdx_component c = Some k"
  shows "c_Version k = cdx_version c \<or> (cdx_version c = [] \<and> (\<exists>p. parsePackage (c_PURL k) = Some p \<and> c_Version k = k_Version p))
    \<or> c_Version k = []"
  using assms by (auto simp: cdx_component_def Let_def split: prod.splits if_splits option.splits)

lemma spdx_version_stated:
  assumes "spdx_component sp = Some k"
  shows "c_Version k = trim_space (sp_VersionInfo sp) \<or> (\<exists>p. parsePackage (c_PURL k) = Some p \<and> c_Version k = k_Version p)
    \<or> c_Version k = []"
  using assms by (auto simp: spdx_component_def Let_def split: prod.splits if_splits option.splits)

end
