(* ===== verification/Local_Packages.thy ===== *)
theory Local_Packages
  imports Inventory Ports
begin

text \<open>
  \<open>internal/inventory/local.go\<close>: the packages installed on a host, from os-release and the databases of dpkg, rpm
  and apk. The machine is an argument: which files can be read, which programs are on the path, and what a query
  prints. Shown: source package names are recovered from the names they are filed under, a removed package is
  never reported, and the matcher reads off the package URL of an installed package the name, the version and the
  distribution the database states.
\<close>

record system =
  sys_readFile :: "string \<Rightarrow> string option"
  sys_run :: "string \<Rightarrow> string option"
  sys_lookPath :: "string \<Rightarrow> bool"

section \<open>The operating system\<close>

record osRelease =
  os_ID :: string
  os_VersionID :: string
  os_Codename :: string
  os_Version :: string
  os_CPEName :: string

definition no_release :: osRelease where
  "no_release = \<lparr>os_ID = [], os_VersionID = [], os_Codename = [], os_Version = [], os_CPEName = []\<rparr>"

definition is_quote :: "char \<Rightarrow> bool" where
  "is_quote c \<longleftrightarrow> c = CHR 0x22 \<or> c = CHR 0x27"

definition trim_quotes :: "string \<Rightarrow> string" where
  "trim_quotes s = rev (dropWhile is_quote (rev (dropWhile is_quote s)))"

definition release_line :: "string \<Rightarrow> osRelease \<Rightarrow> osRelease" where
  "release_line line0 r =
     (let line = trim_space line0; (key0, value0, ok) = cut CHR ''='' line in
      if line = [] \<or> has_prefix line ''#'' \<or> \<not> ok then r
      else
        let value = trim_quotes (trim_space value0); key = trim_space key0 in
        if key = ''ID'' then r\<lparr>os_ID := to_lower value\<rparr>
        else if key = ''VERSION_ID'' then r\<lparr>os_VersionID := value\<rparr>
        else if key = ''VERSION_CODENAME'' then r\<lparr>os_Codename := to_lower value\<rparr>
        else if key = ''VERSION'' then r\<lparr>os_Version := value\<rparr>
        else if key = ''CPE_NAME'' then r\<lparr>os_CPEName := value\<rparr>
        else r)"

definition parseOSRelease :: "string \<Rightarrow> osRelease" where
  "parseOSRelease content = fold release_line (split CHR 0x0A content) no_release"

fun first_release :: "system \<Rightarrow> string list \<Rightarrow> osRelease" where
  "first_release sys [] = no_release"
| "first_release sys (path # paths) =
     (case sys_readFile sys path of Some b \<Rightarrow> parseOSRelease b | None \<Rightarrow> first_release sys paths)"

definition readOSRelease :: "system \<Rightarrow> osRelease" where
  "readOSRelease sys = first_release sys [''/etc/os-release'', ''/usr/lib/os-release'']"

fun substring :: "string \<Rightarrow> string \<Rightarrow> bool" where
  "substring p [] = (p = [])"
| "substring p (c # s) = (has_prefix (c # s) p \<or> substring p s)"

definition os_ecosystem :: "osRelease \<Rightarrow> string" where
  "os_ecosystem r =
     (let family = osvEcosystemFamily (os_ID r) in
      if family = [] then []
      else if family = ''Ubuntu''
        then joinEcosystem family (ubuntuRelease (os_VersionID r) (substring ''LTS'' (to_upper (os_Version r))))
      else joinEcosystem family (releaseForFamily family (os_VersionID r)))"

definition distroTag :: "osRelease \<Rightarrow> string" where
  "distroTag r =
     (if os_ID r = [] then []
      else
        let release = firstNonEmpty [os_Codename r, os_VersionID r] in
        if release = [] then os_ID r else os_ID r @ ''-'' @ release)"

definition numericDistroTag :: "osRelease \<Rightarrow> string" where
  "numericDistroTag r =
     (if os_ID r = [] then []
      else if os_VersionID r = [] then os_ID r
      else os_ID r @ ''-'' @ os_VersionID r)"

definition osCPEIdentity :: "(string \<times> string \<times> string) list" where
  "osCPEIdentity =
    [(''debian'', ''debian'', ''debian_linux''), (''ubuntu'', ''canonical'', ''ubuntu_linux''),
     (''alpine'', ''alpinelinux'', ''alpine_linux''), (''rhel'', ''redhat'', ''enterprise_linux''),
     (''fedora'', ''fedoraproject'', ''fedora''), (''sles'', ''suse'', ''linux_enterprise_server''),
     (''sled'', ''suse'', ''linux_enterprise_desktop''), (''opensuse-leap'', ''opensuse'', ''leap''),
     (''opensuse-tumbleweed'', ''opensuse'', ''tumbleweed''), (''rocky'', ''rocky'', ''rocky_linux''),
     (''almalinux'', ''almalinux'', ''almalinux''), (''centos'', ''centos'', ''centos''), (''ol'', ''oracle'', ''linux''),
     (''arch'', ''archlinux'', ''arch_linux'')]"

definition os_component :: "osRelease \<Rightarrow> Component option" where
  "os_component r =
     (if os_ID r = [] then None
      else
        let stated_cpe = cpe23 (os_CPEName r);
            cpe = (if stated_cpe = [] \<and> os_VersionID r \<noteq> [] then
                     (case map_of osCPEIdentity (os_ID r) of
                        Some (vendor, product) \<Rightarrow>
                          ''cpe:2.3:o:'' @ vendor @ '':'' @ product @ '':'' @ cpeAttribute (os_VersionID r) @ '':*:*:*:*:*:*:*''
                      | None \<Rightarrow> stated_cpe)
                   else stated_cpe)
        in Some \<lparr>c_Name = os_ID r, c_Version = os_VersionID r, c_Vendor = [], c_Ecosystem = os_ecosystem r,
             c_PURL = [], c_CPE = cpe, c_Origin = ''os-release''\<rparr>)"

section \<open>Stanzas\<close>

definition trim_cr :: "string \<Rightarrow> string" where
  "trim_cr l = rev (dropWhile (\<lambda>c. c = CHR 0x0D) (rev l))"

definition flush_stanza :: "string list \<times> string list \<Rightarrow> string list" where
  "flush_stanza st = (case st of (out, current) \<Rightarrow> if current \<noteq> [] then out @ [join [CHR 0x0A] current] else out)"

definition stanza_line :: "string \<Rightarrow> string list \<times> string list \<Rightarrow> string list \<times> string list" where
  "stanza_line line0 st =
     (let line = trim_cr line0 in
      if trim_space line = [] then (flush_stanza st, []) else (fst st, snd st @ [line]))"

definition splitStanzas :: "string \<Rightarrow> string list" where
  "splitStanzas content = flush_stanza (fold stanza_line (split CHR 0x0A content) ([], []))"

definition field_line :: "string \<Rightarrow> (string \<rightharpoonup> string) \<Rightarrow> (string \<rightharpoonup> string)" where
  "field_line line found =
     (if line = [] \<or> hd line = CHR '' '' \<or> hd line = CHR 0x09 then found
      else
        case cut CHR '':'' line of
          (key0, value, ok) \<Rightarrow>
            let key = trim_space key0 in
            if \<not> ok \<or> found key \<noteq> None then found else found(key \<mapsto> trim_space value))"

definition stanzaFields :: "string \<Rightarrow> (string \<rightharpoonup> string)" where
  "stanzaFields stanza = fold field_line (split CHR 0x0A stanza) Map.empty"

definition get_field :: "(string \<rightharpoonup> string) \<Rightarrow> string \<Rightarrow> string" where
  "get_field f k = (case f k of Some v \<Rightarrow> v | None \<Rightarrow> [])"

definition column :: "string list \<Rightarrow> nat \<Rightarrow> string" where
  "column f i = (if i < length f then trim_space (f ! i) else [])"

section \<open>dpkg\<close>

definition debPURL :: "osRelease \<Rightarrow> string \<Rightarrow> string \<Rightarrow> string \<Rightarrow> string" where
  "debPURL host name version arch =
     (if os_ID host = [] then []
      else buildPURL ''deb'' (os_ID host) name version [(''arch'', arch), (''distro'', distroTag host)])"

definition package_component :: "string \<Rightarrow> string \<Rightarrow> string \<Rightarrow> string \<Rightarrow> string \<Rightarrow> Component" where
  "package_component name version ecosystem purl origin =
     \<lparr>c_Name = name, c_Version = version, c_Vendor = [], c_Ecosystem = ecosystem, c_PURL = purl, c_CPE = [],
      c_Origin = origin\<rparr>"

definition debComponents :: "osRelease \<Rightarrow> string \<Rightarrow> string \<Rightarrow> string \<Rightarrow> string \<Rightarrow> string \<Rightarrow> Component list" where
  "debComponents host name0 version0 arch srcName0 srcVersion0 =
     (let name = trim_space name0; version = trim_space version0 in
      if name = [] then []
      else
        let srcName = firstNonEmpty [srcName0, name];
            srcVersion = firstNonEmpty [srcVersion0, version];
            ecosystem = os_ecosystem host
        in package_component name version ecosystem (debPURL host name version arch) ''dpkg''
           # (if srcName \<noteq> name \<or> srcVersion \<noteq> version
              then [package_component srcName srcVersion ecosystem (debPURL host srcName srcVersion ''source'') ''dpkg-source'']
              else []))"

definition dpkgAbbrevInstalled :: "string \<Rightarrow> bool" where
  "dpkgAbbrevInstalled abbrev \<longleftrightarrow>
     2 \<le> length abbrev \<and> abbrev ! 1 \<in> {CHR ''i'', CHR ''W'', CHR ''T'', CHR ''t''}"

definition dpkgStatusInstalled :: "string \<Rightarrow> bool" where
  "dpkgStatusInstalled state \<longleftrightarrow> state \<in> {''installed'', ''triggers-awaited'', ''triggers-pending''}"

definition dpkg_row :: "osRelease \<Rightarrow> string \<Rightarrow> Component list" where
  "dpkg_row host line =
     (let f = split CHR 0x09 line in
      if trim_space line = [] \<or> length f < 4 \<or> \<not> dpkgAbbrevInstalled (f ! 0) then []
      else debComponents host (trim_space (f ! 1)) (trim_space (f ! 2)) (trim_space (f ! 3)) (column f 4) (column f 5))"

definition parseDpkgQuery :: "string \<Rightarrow> osRelease \<Rightarrow> Component list" where
  "parseDpkgQuery out host = concat (map (dpkg_row host) (split CHR 0x0A out))"

definition parseDpkgSource :: "string \<Rightarrow> string \<times> string" where
  "parseDpkgSource value0 =
     (let value = trim_space value0; (name, rest, ok) = cut CHR ''('' value in
      if value = [] then ([], [])
      else if \<not> ok then (value, [])
      else (trim_space name,
            trim_space (case cut_suffix (trim_space rest) '')'' of Some t \<Rightarrow> t | None \<Rightarrow> trim_space rest)))"

definition dpkg_stanza :: "osRelease \<Rightarrow> string \<Rightarrow> Component list" where
  "dpkg_stanza host stanza =
     (let f = stanzaFields stanza; status = string_fields (get_field f ''Status'') in
      if length status < 3 \<or> \<not> dpkgStatusInstalled (status ! 2) then []
      else
        let (srcName, srcVersion) = parseDpkgSource (get_field f ''Source'') in
        debComponents host (get_field f ''Package'') (get_field f ''Version'') (get_field f ''Architecture'')
          srcName srcVersion)"

definition parseDpkgStatus :: "string \<Rightarrow> osRelease \<Rightarrow> Component list" where
  "parseDpkgStatus content host = concat (map (dpkg_stanza host) (splitStanzas content))"

definition collectDpkg :: "system \<Rightarrow> osRelease \<Rightarrow> Component list" where
  "collectDpkg sys host =
     (let queried = (if sys_lookPath sys ''dpkg-query''
                     then (case sys_run sys ''dpkg-query'' of Some out \<Rightarrow> parseDpkgQuery out host | None \<Rightarrow> [])
                     else [])
      in if queried \<noteq> [] then queried
         else (case sys_readFile sys ''/var/lib/dpkg/status'' of Some b \<Rightarrow> parseDpkgStatus b host | None \<Rightarrow> []))"

section \<open>rpm\<close>

definition rpmNamespace :: "string \<Rightarrow> string" where
  "rpmNamespace i =
     (if i = ''rhel'' then ''redhat''
      else if i \<in> {''sles'', ''sled''} then ''suse''
      else if i \<in> {''opensuse-leap'', ''opensuse-tumbleweed''} then ''opensuse''
      else i)"

definition rpmPURL :: "osRelease \<Rightarrow> string \<Rightarrow> string \<Rightarrow> string \<Rightarrow> string \<Rightarrow> string" where
  "rpmPURL host name vr arch epoch =
     (if os_ID host = [] then []
      else buildPURL ''rpm'' (rpmNamespace (os_ID host)) name vr
             ([(''arch'', arch), (''distro'', numericDistroTag host)]
              @ (if epoch \<noteq> [] \<and> epoch \<noteq> ''0'' then [(''epoch'', epoch)] else [])))"

fun drop_fields :: "nat \<Rightarrow> string \<Rightarrow> string" where
  "drop_fields 0 s = s"
| "drop_fields (Suc n) s =
     (case split_last CHR ''-'' s of Some (h, _) \<Rightarrow> if h = [] then [] else drop_fields n h | None \<Rightarrow> [])"

definition sourceRPMName :: "string \<Rightarrow> string" where
  "sourceRPMName s0 =
     (let s = trim_space s0 in
      case cut_suffix s ''.src.rpm'' of
        Some t \<Rightarrow> drop_fields 2 t
      | None \<Rightarrow> (case cut_suffix s ''.nosrc.rpm'' of Some t \<Rightarrow> drop_fields 2 t | None \<Rightarrow> []))"

definition rpmComponents :: "osRelease \<Rightarrow> string \<Rightarrow> string \<Rightarrow> string \<Rightarrow> string \<Rightarrow> string \<Rightarrow> string \<Rightarrow> Component list" where
  "rpmComponents host name epoch version release arch sourceRPM =
     (let vr = (if release \<noteq> [] then version @ ''-'' @ release else version);
          evr = (if epoch \<noteq> [] \<and> epoch \<noteq> ''0'' then epoch @ '':'' @ vr else vr);
          ecosystem = os_ecosystem host;
          src = sourceRPMName sourceRPM
      in package_component name evr ecosystem (rpmPURL host name vr arch epoch) ''rpm''
         # (if src \<noteq> [] \<and> src \<noteq> name
            then [package_component src evr ecosystem (rpmPURL host src vr ''src'' epoch) ''rpm-source''] else []))"

definition rpm_row :: "osRelease \<Rightarrow> string \<Rightarrow> Component list" where
  "rpm_row host line =
     (let f = split CHR 0x09 line; name = column f 0; arch = column f 4 in
      if trim_space line = [] \<or> length f < 4 \<or> name = [] \<or> name = ''gpg-pubkey'' then []
      else rpmComponents host name (column f 1) (column f 2) (column f 3) (if arch = ''none'' then [] else arch) (column f 5))"

definition parseRPMQuery :: "string \<Rightarrow> osRelease \<Rightarrow> Component list" where
  "parseRPMQuery out host = concat (map (rpm_row host) (split CHR 0x0A out))"

definition collectRPM :: "system \<Rightarrow> osRelease \<Rightarrow> Component list" where
  "collectRPM sys host =
     (if \<not> sys_lookPath sys ''rpm'' then []
      else (case sys_run sys ''rpm'' of Some out \<Rightarrow> parseRPMQuery out host | None \<Rightarrow> []))"

section \<open>apk\<close>

definition apkPURL :: "osRelease \<Rightarrow> string \<Rightarrow> string \<Rightarrow> string \<Rightarrow> string" where
  "apkPURL host name version arch =
     (if os_ID host = [] then []
      else buildPURL ''apk'' (os_ID host) name version [(''arch'', arch), (''distro'', numericDistroTag host)])"

definition apkComponents :: "osRelease \<Rightarrow> string \<Rightarrow> string \<Rightarrow> string \<Rightarrow> string \<Rightarrow> Component list" where
  "apkComponents host name0 version0 arch origin0 =
     (let name = trim_space name0; version = trim_space version0; origin = trim_space origin0; ecosystem = os_ecosystem host in
      if name = [] then []
      else package_component name version ecosystem (apkPURL host name version arch) ''apk''
           # (if origin \<noteq> [] \<and> origin \<noteq> name
              then [package_component origin version ecosystem (apkPURL host origin version ''src'') ''apk-source''] else []))"

definition parseAPKInstalled :: "string \<Rightarrow> osRelease \<Rightarrow> Component list" where
  "parseAPKInstalled content host =
     concat (map (\<lambda>stanza. let f = stanzaFields stanza in
       apkComponents host (get_field f ''P'') (get_field f ''V'') (get_field f ''A'') (get_field f ''o'')) (splitStanzas content))"

definition apk_revision :: "string \<Rightarrow> bool" where
  "apk_revision r \<longleftrightarrow> (case r of c # d \<Rightarrow> c = CHR ''r'' \<and> isAllDigits d | [] \<Rightarrow> False)"

definition splitAPKInfoLine :: "string \<Rightarrow> (string \<times> string) option" where
  "splitAPKInfoLine line =
     (case split_last CHR ''-'' line of
        None \<Rightarrow> None
      | Some (rest, revision) \<Rightarrow>
          if \<not> apk_revision revision then None
          else
            (case split_last CHR ''-'' rest of
               None \<Rightarrow> None
             | Some (name, upstream) \<Rightarrow>
                 if name = [] \<or> upstream = [] \<or> \<not> isDigit (hd upstream) then None
                 else Some (name, upstream @ ''-'' @ revision)))"

definition apk_line :: "osRelease \<Rightarrow> string \<Rightarrow> Component list" where
  "apk_line host line0 =
     (let line = trim_space line0 in
      if line = [] then []
      else (case splitAPKInfoLine line of None \<Rightarrow> [] | Some (name, version) \<Rightarrow> apkComponents host name version [] []))"

definition parseAPKInfo :: "string \<Rightarrow> osRelease \<Rightarrow> Component list" where
  "parseAPKInfo out host = concat (map (apk_line host) (split CHR 0x0A out))"

definition collectAPK :: "system \<Rightarrow> osRelease \<Rightarrow> Component list" where
  "collectAPK sys host =
     (let installed = (case sys_readFile sys ''/lib/apk/db/installed'' of Some b \<Rightarrow> parseAPKInstalled b host | None \<Rightarrow> []) in
      if installed \<noteq> [] then installed
      else if \<not> sys_lookPath sys ''apk'' then []
      else (case sys_run sys ''apk'' of Some out \<Rightarrow> parseAPKInfo out host | None \<Rightarrow> []))"

definition collectLocal :: "bool \<Rightarrow> system \<Rightarrow> Component list option" where
  "collectLocal cancelled sys =
     (if cancelled then None
      else
        let host = readOSRelease sys;
            own = (case os_component host of Some c \<Rightarrow> [c] | None \<Rightarrow> [])
        in Some (dedupe_components (own @ collectDpkg sys host @ collectRPM sys host @ collectAPK sys host)))"

section \<open>Names are recovered\<close>

lemma cut_suffix_append: "cut_suffix (s @ p) p = Some s"
  by (simp add: cut_suffix_def has_suffix_def has_prefix_def)

lemma drop_two_fields:
  assumes "n \<noteq> []" "CHR ''-'' \<notin> set v" "CHR ''-'' \<notin> set r"
  shows "drop_fields 2 (n @ ''-'' @ v @ ''-'' @ r) = n"
proof -
  have "split_last CHR ''-'' (n @ ''-'' @ v @ ''-'' @ r) = Some (n @ ''-'' @ v, r)"
    using split_last_append [OF assms(3), of "n @ ''-'' @ v"] by simp
  moreover have "split_last CHR ''-'' (n @ ''-'' @ v) = Some (n, v)"
    using split_last_append [OF assms(2), of n] by simp
  ultimately show ?thesis using assms(1) by (simp add: numeral_2_eq_2)
qed

lemma source_rpm_name:
  assumes "n \<noteq> []" "\<not> is_space (hd n)" "CHR ''-'' \<notin> set v" "CHR ''-'' \<notin> set r"
  shows "sourceRPMName (n @ ''-'' @ v @ ''-'' @ r @ ''.src.rpm'') = n"
proof -
  let ?s = "n @ ''-'' @ v @ ''-'' @ r @ ''.src.rpm''"
  have "trim_space ?s = ?s"
    using assms(1,2) by (intro trim_space_plain) (simp_all add: is_space_def less_eq_char_def)
  moreover have "cut_suffix ?s ''.src.rpm'' = Some (n @ ''-'' @ v @ ''-'' @ r)"
    using cut_suffix_append [of "n @ ''-'' @ v @ ''-'' @ r" "''.src.rpm''"] by simp
  ultimately show ?thesis using drop_two_fields [OF assms(1,3,4)] by (simp add: sourceRPMName_def)
qed

lemma apk_info_line:
  assumes "n \<noteq> []" "CHR ''-'' \<notin> set u" "u \<noteq> []" "isDigit (hd u)" "isAllDigits d"
  shows "splitAPKInfoLine (n @ ''-'' @ u @ ''-r'' @ d) = Some (n, u @ ''-r'' @ d)"
proof -
  have "\<not> isDigit CHR ''-''" "\<not> isDigit CHR ''r''" by (simp_all add: isDigit_def less_eq_char_def)
  then have "CHR ''-'' \<notin> set (CHR ''r'' # d)"
    using assms(5) by (auto simp: isAllDigits_def list_all_iff)
  then have "split_last CHR ''-'' (n @ ''-'' @ u @ ''-r'' @ d) = Some (n @ ''-'' @ u, CHR ''r'' # d)"
    using split_last_append [of "CHR ''-''" "CHR ''r'' # d" "n @ ''-'' @ u"] by simp
  moreover have "split_last CHR ''-'' (n @ ''-'' @ u) = Some (n, u)"
    using split_last_append [OF assms(2), of n] by simp
  ultimately show ?thesis using assms by (simp add: splitAPKInfoLine_def apk_revision_def)
qed

lemma dpkg_source_field:
  assumes "n \<noteq> []" "no_space n" "no_space v" "CHR ''('' \<notin> set n" "v \<noteq> []" "last v \<noteq> CHR '')''"
  shows "parseDpkgSource (n @ '' ('' @ v @ '')'') = (n, v)" "parseDpkgSource n = (n, [])"
proof -
  let ?s = "n @ '' ('' @ v @ '')''"
  have hd: "\<not> is_space (hd n)" using assms(1,2) by (cases n) simp_all
  have "trim_space ?s = ?s" by (intro trim_space_plain) (use assms(1) hd in \<open>simp_all add: is_space_def less_eq_char_def\<close>)
  moreover have "split_first CHR ''('' ?s = Some (n @ '' '', v @ '')'')"
    using split_first_append [of "CHR ''(''" "n @ '' ''" "v @ '')''"] assms(4) by simp
  moreover have "trim_space (n @ '' '') = n"
  proof -
    have sp: "is_space CHR '' ''" by (simp add: is_space_def)
    have "trim_left (n @ '' '') = n @ '' ''" using assms(1) hd by (cases n) (simp_all add: trim_left_def)
    moreover have "trim_right (n @ '' '') = trim_right n" using sp by (simp add: trim_right_def)
    moreover have "trim_right n = trim_space n"
      using assms(1) hd by (cases n) (simp_all add: trim_space_def trim_left_def)
    ultimately show ?thesis using no_space_trim [OF assms(2,1)] by (simp add: trim_space_def)
  qed
  moreover have hv: "\<not> is_space (hd v)" using assms(3,5) by (cases v) simp_all
  then have "trim_space (v @ '')'') = v @ '')''"
    using assms(5) by (intro trim_space_plain) (simp_all add: is_space_def less_eq_char_def)
  ultimately show "parseDpkgSource ?s = (n, v)"
    using cut_suffix_append [of v "'')''"] no_space_trim [OF assms(3,5)] assms(1) by (simp add: parseDpkgSource_def cut_def Let_def)
  show "parseDpkgSource n = (n, [])"
    using no_space_trim [OF assms(2,1)] assms(1,4) by (simp add: parseDpkgSource_def cut_def Let_def)
qed

section \<open>Only what is installed is reported\<close>

lemma dpkg_row_installed:
  "dpkg_row host line \<noteq> [] \<Longrightarrow> dpkgAbbrevInstalled (split CHR 0x09 line ! 0)"
  by (auto simp: dpkg_row_def Let_def split: if_splits)

lemma dpkg_stanza_installed:
  "dpkg_stanza host stanza \<noteq> [] \<Longrightarrow> dpkgStatusInstalled (string_fields (get_field (stanzaFields stanza) ''Status'') ! 2)"
  by (auto simp: dpkg_stanza_def Let_def split: if_splits)

lemma debComponents_names: "c \<in> set (debComponents host n v a sn sv) \<Longrightarrow> c_Name c \<noteq> []"
proof -
  have "firstNonEmpty [x, y] \<noteq> []" if "y \<noteq> []" "trim_space y = y" for x y
    using that by (simp add: firstNonEmpty_def)
  then show "c \<in> set (debComponents host n v a sn sv) \<Longrightarrow> c_Name c \<noteq> []"
    by (auto simp: debComponents_def package_component_def Let_def split: if_splits)
qed

section \<open>The matcher reads what the database states\<close>

definition plain_host :: "osRelease \<Rightarrow> bool" where
  "plain_host host \<longleftrightarrow> os_ID host \<noteq> [] \<and> text_ok (to_lower (os_ID host)) \<and> text_ok (distroTag host)
     \<and> text_ok (numericDistroTag host)"

lemma tags_nonempty: "os_ID host \<noteq> [] \<Longrightarrow> distroTag host \<noteq> []" "os_ID host \<noteq> [] \<Longrightarrow> numericDistroTag host \<noteq> []"
  by (simp_all add: distroTag_def numericDistroTag_def Let_def)

lemma arch_distro_keys: "key_ok ''arch''" "key_ok ''distro''" "key_ok ''epoch''"
  by code_simp+

lemma stated_distro:
  assumes "d \<noteq> []"
  shows "stated (printed_keys [(''arch'', a), (''distro'', d)]) ''distro'' x = d"
    "stated (printed_keys [(''arch'', a), (''distro'', d)]) ''epoch'' x = x"
proof -
  have "map_of (printed_keys [(''arch'', a), (''distro'', d)]) = map_of (filter (\<lambda>(k, v). v \<noteq> []) [(''arch'', a), (''distro'', d)])"
    by (rule printed_keys_map) simp
  then show "stated (printed_keys [(''arch'', a), (''distro'', d)]) ''distro'' x = d"
    "stated (printed_keys [(''arch'', a), (''distro'', d)]) ''epoch'' x = x"
    using assms by (simp_all add: stated_def)
qed

theorem deb_purl_read:
  assumes "plain_host host" "name \<noteq> []" "text_ok name" "text_ok version" "text_ok arch"
  shows "\<exists>p. parsePURL (debPURL host name version arch) = Some p \<and> p_Type p = ''deb''
    \<and> p_Namespace p = to_lower (os_ID host) \<and> p_Name p = to_lower name \<and> p_Version p = version
    \<and> p_Distro p = distroTag host"
proof -
  have pr: "printable ''deb'' (os_ID host) name version [(''arch'', arch), (''distro'', distroTag host)]"
    using assms arch_distro_keys by (simp add: printable_def plain_host_def type_ok_def isAlnum_def isLetter_def less_eq_char_def)
  have "to_lower ''deb'' = ''deb''" "''deb'' \<noteq> ''pypi''" "''deb'' \<in> set lowercase_types" by code_simp+
  then show ?thesis
    using matcher_reads_built [OF pr] assms(1) tags_nonempty(1) [of host]
    by (auto simp: debPURL_def plain_host_def canonicalPURLName_def stated_distro)
qed

theorem apk_purl_read:
  assumes "plain_host host" "name \<noteq> []" "text_ok name" "text_ok version" "text_ok arch"
  shows "\<exists>p. parsePURL (apkPURL host name version arch) = Some p \<and> p_Type p = ''apk''
    \<and> p_Namespace p = to_lower (os_ID host) \<and> p_Name p = to_lower name \<and> p_Version p = version
    \<and> p_Distro p = numericDistroTag host"
proof -
  have pr: "printable ''apk'' (os_ID host) name version [(''arch'', arch), (''distro'', numericDistroTag host)]"
    using assms arch_distro_keys by (simp add: printable_def plain_host_def type_ok_def isAlnum_def isLetter_def less_eq_char_def)
  have "to_lower ''apk'' = ''apk''" "''apk'' \<noteq> ''pypi''" "''apk'' \<in> set lowercase_types" by code_simp+
  then show ?thesis
    using matcher_reads_built [OF pr] assms(1) tags_nonempty(2) [of host]
    by (auto simp: apkPURL_def plain_host_def canonicalPURLName_def stated_distro)
qed

lemma stated_epoch:
  assumes "d \<noteq> []" "e \<noteq> []"
  shows "stated (printed_keys [(''arch'', a), (''distro'', d), (''epoch'', e)]) ''distro'' x = d"
    "stated (printed_keys [(''arch'', a), (''distro'', d), (''epoch'', e)]) ''epoch'' x = e"
proof -
  let ?qs = "[(''arch'', a), (''distro'', d), (''epoch'', e)]"
  have "map_of (printed_keys ?qs) = map_of (filter (\<lambda>(k, v). v \<noteq> []) ?qs)"
    by (rule printed_keys_map) simp
  then show "stated (printed_keys ?qs) ''distro'' x = d" "stated (printed_keys ?qs) ''epoch'' x = e"
    using assms by (simp_all add: stated_def)
qed

theorem rpm_purl_read:
  assumes "plain_host host" "text_ok (to_lower (rpmNamespace (os_ID host)))"
    and "name \<noteq> []" "text_ok name" "text_ok vr" "text_ok arch" "text_ok epoch"
  shows "\<exists>p. parsePURL (rpmPURL host name vr arch epoch) = Some p \<and> p_Type p = ''rpm''
    \<and> p_Namespace p = to_lower (rpmNamespace (os_ID host)) \<and> p_Name p = to_lower name \<and> p_Version p = vr
    \<and> p_Distro p = numericDistroTag host \<and> p_Epoch p = (if epoch = ''0'' then [] else epoch)"
proof -
  let ?qs = "[(''arch'', arch), (''distro'', numericDistroTag host)]
    @ (if epoch \<noteq> [] \<and> epoch \<noteq> ''0'' then [(''epoch'', epoch)] else [])"
  have pr: "printable ''rpm'' (rpmNamespace (os_ID host)) name vr ?qs"
    using assms arch_distro_keys by (simp add: printable_def plain_host_def type_ok_def isAlnum_def isLetter_def less_eq_char_def)
  have low: "to_lower ''rpm'' = ''rpm''" "''rpm'' \<noteq> ''pypi''" "''rpm'' \<in> set lowercase_types" by code_simp+
  have tag: "numericDistroTag host \<noteq> []" "os_ID host \<noteq> []"
    using assms(1) tags_nonempty(2) [of host] by (simp_all add: plain_host_def)
  show ?thesis
  proof (cases "epoch \<noteq> [] \<and> epoch \<noteq> ''0''")
    case True
    then show ?thesis
      using matcher_reads_built [OF pr] tag low stated_epoch [OF tag(1), of epoch]
      by (auto simp: rpmPURL_def canonicalPURLName_def)
  next
    case False
    then show ?thesis
      using matcher_reads_built [OF pr] tag low stated_distro [OF tag(1)]
      by (auto simp: rpmPURL_def canonicalPURLName_def)
  qed
qed

end
