(* ===== verification/Inventory_Examples.thy ===== *)
theory Inventory_Examples
  imports Sbom Local_Packages
begin

text \<open>Concrete inventories the results about the readers are applied to.\<close>

definition openssl_purl :: string where
  "openssl_purl = ''pkg:deb/debian/openssl@3.0.11-1?distro=debian-12''"

lemma bookworm_list:
  "\<exists>c. ParsePURLList (openssl_purl @ [CHR 0x0A]) = Inr [c] \<and> c_Name c = ''openssl'' \<and> c_Version c = ''3.0.11-1''
     \<and> c_Ecosystem c = ''Debian:12''"
proof -
  have lines: "scan_lines (openssl_purl @ [CHR 0x0A]) = Some [openssl_purl]"
  proof -
    have "raw_lines (openssl_purl @ [CHR 0x0A]) = [openssl_purl]" "drop_cr openssl_purl = openssl_purl" "length openssl_purl = 48"
      by code_simp+
    then show ?thesis by (simp add: scan_lines_def maxPURLLine_def)
  qed
  have entries: "purl_lines [openssl_purl] = [(1, openssl_purl)]"
  proof -
    have "trim_space openssl_purl = openssl_purl" "openssl_purl \<noteq> []" "\<not> has_prefix openssl_purl ''#''" by code_simp+
    then show ?thesis by (simp add: purl_lines_def)
  qed
  obtain p where p: "parsePackage openssl_purl = Some p" "packageName p = ''openssl''" "k_Version p = ''3.0.11-1''"
    "ecosystemForPURL p = ''Debian:12''"
  proof -
    have "case parsePackage openssl_purl of None \<Rightarrow> False
      | Some p \<Rightarrow> packageName p = ''openssl'' \<and> k_Version p = ''3.0.11-1'' \<and> ecosystemForPURL p = ''Debian:12''"
      by code_simp
    then show thesis using that by (auto split: option.splits)
  qed
  have "ParsePURLList (openssl_purl @ [CHR 0x0A]) = Inr [componentFromPURL p (normalisePackage openssl_purl) ''purl-list'']"
    by (simp add: ParsePURLList_def parsePURLListReport_def lines entries purlComponents_def bad_step_def p(1)
        dedupe_components_def)
  then show ?thesis using p by (simp add: componentFromPURL_def)
qed

lemma bookworm_parse: "Parse decode (openssl_purl @ [CHR 0x0A]) = ParsePURLList (openssl_purl @ [CHR 0x0A])"
proof -
  have d: "dropWhile json_blank (openssl_purl @ [CHR 0x0A]) = CHR ''p'' # tl (openssl_purl @ [CHR 0x0A])" by code_simp
  have "raw_lines (openssl_purl @ [CHR 0x0A]) = [openssl_purl]" "drop_cr openssl_purl = openssl_purl" "length openssl_purl = 48"
    "trim_space openssl_purl = openssl_purl" "openssl_purl \<noteq> []" "\<not> has_prefix openssl_purl ''#''"
    "has_prefix openssl_purl ''pkg:''"
    by code_simp+
  then have "looksLikePURLList (openssl_purl @ [CHR 0x0A]) = None"
    by (simp add: looksLikePURLList_def purl_lines_def maxPURLLine_def)
  then show ?thesis by (simp add: Parse_def d)
qed

definition bookworm :: osRelease where
  "bookworm = \<lparr>os_ID = ''debian'', os_VersionID = ''12'', os_Codename = ''bookworm'', os_Version = ''12 (bookworm)'', os_CPEName = []\<rparr>"

lemma bookworm_plain: "plain_host bookworm"
  by code_simp

definition rhel9 :: osRelease where
  "rhel9 = \<lparr>os_ID = ''rhel'', os_VersionID = ''9.4'', os_Codename = [], os_Version = ''9.4 (Plow)'', os_CPEName = []\<rparr>"

definition library_json :: json where
  "library_json = JObj [(''type'', JStr ''library''), (''name'', JStr ''inner''), (''version'', JNum ''1.10'')]"

definition wrapper_json :: json where
  "wrapper_json = JObj [(''type'', JStr ''application''), (''components'', JArr [library_json])]"

definition bom_json :: json where
  "bom_json = JObj [(''bomFormat'', JStr ''CycloneDX''), (''components'', JArr [wrapper_json])]"

definition inner_component :: Component where
  "inner_component = \<lparr>c_Name = ''inner'', c_Version = ''1.10'', c_Vendor = [], c_Ecosystem = [], c_PURL = [], c_CPE = [],
     c_Origin = ''cyclonedx''\<rparr>"

lemma library_component: "own_component library_json = [inner_component]"
  by code_simp

lemma wrapper_contains: "contained wrapper_json 1 library_json"
proof -
  have "library_json \<in> set (cd_Components (fst (decode_component wrapper_json)))" by code_simp
  then have "contained wrapper_json (Suc 0) library_json" using contained_self by (rule contained_child)
  then show ?thesis by simp
qed

lemma bom_parses: "\<exists>cs. ParseCycloneDX bom_json = Inr cs"
proof -
  have "string_field ''bomFormat'' bom_json = (''CycloneDX'', False)" "string_field ''spdxVersion'' bom_json = ([], False)"
    "raw_field ''metadata'' bom_json = (None, False)" "raws_field ''components'' bom_json = ([wrapper_json], False)"
    by code_simp+
  then show ?thesis by (simp add: ParseCycloneDX_def)
qed

lemma bom_holds: "wrapper_json \<in> set (fst (raws_field ''components'' bom_json))"
  by code_simp

definition dpkg_database :: string where
  "dpkg_database = join [CHR 0x0A] [''Package: zlib1g'', ''Status: install ok installed'', ''Version: 1:1.2.13'', [],
     ''Package: gone'', ''Status: deinstall ok config-files'', ''Version: 2'']"

lemma dpkg_database_read: "map c_Name (parseDpkgStatus dpkg_database bookworm) = [''zlib1g'']"
  by code_simp

end
