(* ===== verification/Banner_Regexp.thy ===== *)
theory Banner_Regexp
  imports Prelude
begin

text \<open>
  The expressions of Go's \<open>regexp\<close> package that the banner rules of \<open>internal/netscan/fingerprint.go\<close> are written
  in: a sequence of classes, repetitions, assertions and one group, searched for anywhere in a text. A position
  is the text before it, reversed, and the text after it. \<open>run_pats\<close> backtracks in the order of preference of the
  package (a greedy repetition tries one more first, a lazy one stops first) and \<open>find_groups\<close> takes the leftmost
  start. Shown: a search succeeds exactly when the declarative relation \<open>reads\<close> relates some position of the text
  to some groups, and every group is a piece of the text.

  Matching is byte by byte, which is rune by rune on ASCII.
\<close>

datatype pat =
    Chr "char \<Rightarrow> bool"
  | Many "char \<Rightarrow> bool"
  | Few "char \<Rightarrow> bool"
  | BeginText
  | BeginLine
  | WordEdge
  | ThenOrEnd bool "char \<Rightarrow> bool"
  | Open
  | Close

section \<open>Classes\<close>

definition digit_class :: "char \<Rightarrow> bool" where
  "digit_class c \<longleftrightarrow> CHR ''0'' \<le> c \<and> c \<le> CHR ''9''"

definition word_class :: "char \<Rightarrow> bool" where
  "word_class c \<longleftrightarrow> digit_class c \<or> ascii_upper c \<or> ascii_lower c \<or> c = CHR ''_''"

text \<open>\<open>\s\<close> is tab, line feed, form feed, carriage return and space; a dot is anything but a line feed.\<close>

definition space_class :: "char \<Rightarrow> bool" where
  "space_class c \<longleftrightarrow> c \<in> {CHR 0x09, CHR 0x0A, CHR 0x0C, CHR 0x0D, CHR '' ''}"

definition any_class :: "char \<Rightarrow> bool" where
  "any_class c \<longleftrightarrow> c \<noteq> CHR 0x0A"

definition one_of :: "char \<Rightarrow> char \<Rightarrow> char \<Rightarrow> bool" where
  "one_of a b c \<longleftrightarrow> c = a \<or> c = b"

definition or_class :: "(char \<Rightarrow> bool) \<Rightarrow> (char \<Rightarrow> bool) \<Rightarrow> char \<Rightarrow> bool" where
  "or_class p q c \<longleftrightarrow> p c \<or> q c"

text \<open>A literal under the flag \<open>(?i)\<close>, and \<open>p+\<close>.\<close>

definition fold_class :: "char \<Rightarrow> char \<Rightarrow> bool" where
  "fold_class c d \<longleftrightarrow> lower_char d = lower_char c"

definition lit :: "string \<Rightarrow> pat list" where
  "lit w = map (\<lambda>c. Chr (fold_class c)) w"

definition some1 :: "(char \<Rightarrow> bool) \<Rightarrow> pat list" where
  "some1 p = [Chr p, Many p]"

section \<open>Matching\<close>

definition at_edge :: "string \<Rightarrow> string \<Rightarrow> bool" where
  "at_edge b s \<longleftrightarrow> (b \<noteq> [] \<and> word_class (hd b)) \<noteq> (s \<noteq> [] \<and> word_class (hd s))"

definition line_start :: "string \<Rightarrow> bool" where
  "line_start b \<longleftrightarrow> b = [] \<or> hd b = CHR 0x0A"

text \<open>\<open>$\<close>: the end of the text, or under the flag \<open>m\<close> the end of a line.\<close>

definition text_end :: "bool \<Rightarrow> string \<Rightarrow> bool" where
  "text_end multi s \<longleftrightarrow> s = [] \<or> multi \<and> hd s = CHR 0x0A"

definition orelse :: "'a option \<Rightarrow> 'a option \<Rightarrow> 'a option" where
  "orelse x y = (case x of Some a \<Rightarrow> Some a | None \<Rightarrow> y)"

text \<open>\<open>g\<close> is the text from the start of the open group on, \<open>gs\<close> the groups that are closed.\<close>

fun run_pats :: "pat list \<Rightarrow> string \<Rightarrow> string \<Rightarrow> string \<Rightarrow> string list \<Rightarrow> string list option" where
  "run_pats [] b s g gs = Some gs"
| "run_pats (Chr p # ps) b s g gs = (case s of [] \<Rightarrow> None | c # t \<Rightarrow> if p c then run_pats ps (c # b) t g gs else None)"
| "run_pats (Many p # ps) b [] g gs = run_pats ps b [] g gs"
| "run_pats (Many p # ps) b (c # t) g gs =
     (if p c then orelse (run_pats (Many p # ps) (c # b) t g gs) (run_pats ps b (c # t) g gs) else run_pats ps b (c # t) g gs)"
| "run_pats (Few p # ps) b [] g gs = run_pats ps b [] g gs"
| "run_pats (Few p # ps) b (c # t) g gs =
     (if p c then orelse (run_pats ps b (c # t) g gs) (run_pats (Few p # ps) (c # b) t g gs) else run_pats ps b (c # t) g gs)"
| "run_pats (BeginText # ps) b s g gs = (if b = [] then run_pats ps b s g gs else None)"
| "run_pats (BeginLine # ps) b s g gs = (if line_start b then run_pats ps b s g gs else None)"
| "run_pats (WordEdge # ps) b s g gs = (if at_edge b s then run_pats ps b s g gs else None)"
| "run_pats (ThenOrEnd multi p # ps) b s g gs =
     orelse (case s of [] \<Rightarrow> None | c # t \<Rightarrow> if p c then run_pats ps (c # b) t g gs else None)
       (if text_end multi s then run_pats ps b s g gs else None)"
| "run_pats (Open # ps) b s g gs = run_pats ps b s s gs"
| "run_pats (Close # ps) b s g gs = run_pats ps b s [] (gs @ [take (length g - length s) g])"

fun find_from :: "pat list \<Rightarrow> string \<Rightarrow> string \<Rightarrow> string list option" where
  "find_from ps b [] = run_pats ps b [] [] []"
| "find_from ps b (c # t) = orelse (run_pats ps b (c # t) [] []) (find_from ps (c # b) t)"

text \<open>\<open>Regexp.FindStringSubmatch\<close>, without the whole match in front.\<close>

definition find_groups :: "pat list \<Rightarrow> string \<Rightarrow> string list option" where
  "find_groups ps s = find_from ps [] s"

section \<open>The declarative reading\<close>

inductive reads :: "pat list \<Rightarrow> string \<Rightarrow> string \<Rightarrow> string \<Rightarrow> string list \<Rightarrow> string list \<Rightarrow> bool" where
  nil: "reads [] b s g gs gs"
| chr: "p c \<Longrightarrow> reads ps (c # b) t g gs hs \<Longrightarrow> reads (Chr p # ps) b (c # t) g gs hs"
| many: "list_all p w \<Longrightarrow> reads ps (rev w @ b) t g gs hs \<Longrightarrow> reads (Many p # ps) b (w @ t) g gs hs"
| few: "list_all p w \<Longrightarrow> reads ps (rev w @ b) t g gs hs \<Longrightarrow> reads (Few p # ps) b (w @ t) g gs hs"
| start: "reads ps [] s g gs hs \<Longrightarrow> reads (BeginText # ps) [] s g gs hs"
| line: "line_start b \<Longrightarrow> reads ps b s g gs hs \<Longrightarrow> reads (BeginLine # ps) b s g gs hs"
| edge: "at_edge b s \<Longrightarrow> reads ps b s g gs hs \<Longrightarrow> reads (WordEdge # ps) b s g gs hs"
| next_char: "p c \<Longrightarrow> reads ps (c # b) t g gs hs \<Longrightarrow> reads (ThenOrEnd multi p # ps) b (c # t) g gs hs"
| ending: "text_end multi s \<Longrightarrow> reads ps b s g gs hs \<Longrightarrow> reads (ThenOrEnd multi p # ps) b s g gs hs"
| open_group: "reads ps b s s gs hs \<Longrightarrow> reads (Open # ps) b s g gs hs"
| close_group: "reads ps b s [] (gs @ [take (length g - length s) g]) hs \<Longrightarrow> reads (Close # ps) b s g gs hs"

lemma orelse_Some [simp]: "orelse x y = Some a \<longleftrightarrow> x = Some a \<or> (x = None \<and> y = Some a)"
  by (auto simp: orelse_def split: option.splits)

lemma orelse_None [simp]: "orelse x y = None \<longleftrightarrow> x = None \<and> y = None"
  by (auto simp: orelse_def split: option.splits)

lemma reads_more:
  assumes "p c"
  shows "reads (Many p # ps) (c # b) t g gs hs \<Longrightarrow> reads (Many p # ps) b (c # t) g gs hs"
    and "reads (Few p # ps) (c # b) t g gs hs \<Longrightarrow> reads (Few p # ps) b (c # t) g gs hs"
proof -
  assume "reads (Many p # ps) (c # b) t g gs hs"
  then obtain w u where "t = w @ u" "list_all p w" "reads ps (rev w @ c # b) u g gs hs" by cases auto
  then show "reads (Many p # ps) b (c # t) g gs hs" using many [of p "c # w" ps b u] assms by simp
next
  assume "reads (Few p # ps) (c # b) t g gs hs"
  then obtain w u where "t = w @ u" "list_all p w" "reads ps (rev w @ c # b) u g gs hs" by cases auto
  then show "reads (Few p # ps) b (c # t) g gs hs" using few [of p "c # w" ps b u] assms by simp
qed

lemma reads_none:
  "reads ps b s g gs hs \<Longrightarrow> reads (Many p # ps) b s g gs hs" "reads ps b s g gs hs \<Longrightarrow> reads (Few p # ps) b s g gs hs"
  using many [of p "[]" ps b s] few [of p "[]" ps b s] by simp_all

lemma run_pats_sound: "run_pats ps b s g gs = Some hs \<Longrightarrow> reads ps b s g gs hs"
  by (induction ps b s g gs rule: run_pats.induct)
    (auto split: list.splits if_splits intro: reads.intros reads_none reads_more)

lemma run_Many: "list_all p w \<Longrightarrow> run_pats ps (rev w @ b) t g gs \<noteq> None \<Longrightarrow> run_pats (Many p # ps) b (w @ t) g gs \<noteq> None"
proof (induction w arbitrary: b)
  case Nil
  then show ?case by (cases t) (auto simp: orelse_None simp del: not_None_eq)
qed auto

lemma run_Few: "list_all p w \<Longrightarrow> run_pats ps (rev w @ b) t g gs \<noteq> None \<Longrightarrow> run_pats (Few p # ps) b (w @ t) g gs \<noteq> None"
proof (induction w arbitrary: b)
  case Nil
  then show ?case by (cases t) auto
qed auto

lemma run_pats_complete: "reads ps b s g gs hs \<Longrightarrow> run_pats ps b s g gs \<noteq> None"
  by (induction rule: reads.induct) (auto dest: run_Many run_Few)

lemma find_from_sound:
  "find_from ps b s = Some hs \<Longrightarrow> \<exists>u t. s = u @ t \<and> reads ps (rev u @ b) t [] [] hs"
proof (induction s arbitrary: b)
  case Nil
  then show ?case using run_pats_sound [of ps b "[]" "[]" "[]" hs] by simp
next
  case (Cons c s)
  then consider "run_pats ps b (c # s) [] [] = Some hs" | "find_from ps (c # b) s = Some hs" by auto
  then show ?case
  proof cases
    case 1
    then show ?thesis using run_pats_sound [OF 1] by (intro exI [of _ "[]"] exI [of _ "c # s"]) simp
  next
    case 2
    then obtain u t where "s = u @ t" "reads ps (rev u @ c # b) t [] [] hs" using Cons.IH by blast
    then show ?thesis by (intro exI [of _ "c # u"] exI [of _ t]) simp
  qed
qed

lemma find_from_complete: "reads ps (rev u @ b) t [] [] hs \<Longrightarrow> find_from ps b (u @ t) \<noteq> None"
proof (induction u arbitrary: b)
  case Nil
  then show ?case using run_pats_complete [of ps b t] by (cases t) auto
qed simp

lemma search_matches: "find_groups ps s \<noteq> None \<longleftrightarrow> (\<exists>u t hs. s = u @ t \<and> reads ps (rev u) t [] [] hs)"
proof
  assume "find_groups ps s \<noteq> None"
  then obtain hs where "find_from ps [] s = Some hs" by (auto simp: find_groups_def)
  from find_from_sound [OF this] show "\<exists>u t hs. s = u @ t \<and> reads ps (rev u) t [] [] hs" by auto
next
  assume "\<exists>u t hs. s = u @ t \<and> reads ps (rev u) t [] [] hs"
  then show "find_groups ps s \<noteq> None" using find_from_complete [of ps _ "[]"] by (auto simp: find_groups_def)
qed

section \<open>Groups are pieces of the text\<close>

definition piece_of :: "string \<Rightarrow> string \<Rightarrow> bool" where
  "piece_of v s \<longleftrightarrow> (\<exists>a b. s = a @ v @ b)"

lemma piece_Nil: "piece_of [] s"
  unfolding piece_of_def by (metis append_Nil)

lemma piece_take: "piece_of s0 t \<Longrightarrow> piece_of (take n s0) t"
  unfolding piece_of_def by (metis append.assoc append_take_drop_id)

lemma piece_tail: "piece_of (w @ s) t \<Longrightarrow> piece_of s t"
  unfolding piece_of_def by (metis append.assoc)

lemma reads_pieces:
  "reads ps b s g gs hs \<Longrightarrow> piece_of s t \<Longrightarrow> piece_of g t \<Longrightarrow> list_all (\<lambda>v. piece_of v t) gs
     \<Longrightarrow> list_all (\<lambda>v. piece_of v t) hs"
proof (induction rule: reads.induct)
  case (chr p c ps b s g gs hs)
  then show ?case using piece_tail [of "[c]" s t] by simp
next
  case (many p w ps b s g gs hs)
  then show ?case using piece_tail by blast
next
  case (few p w ps b s g gs hs)
  then show ?case using piece_tail by blast
next
  case (next_char p c ps b s g gs hs multi)
  then show ?case using piece_tail [of "[c]" s t] by simp
next
  case (close_group ps b s gs g hs)
  then show ?case by (simp add: piece_take piece_Nil)
qed simp_all

lemma search_pieces:
  assumes "find_groups ps s = Some hs"
  shows "list_all (\<lambda>v. piece_of v s) hs"
proof -
  obtain u t where ut: "s = u @ t" "reads ps (rev u) t [] [] hs"
    using find_from_sound [of ps "[]" s hs] assms by (auto simp: find_groups_def)
  have "piece_of t s" unfolding piece_of_def using ut(1) by (metis append_Nil2)
  then show ?thesis using reads_pieces [OF ut(2)] by (simp add: piece_Nil)
qed

end
