(* ===== verification/Go_Text.thy ===== *)
theory Go_Text
  imports Prelude
begin

text \<open>
  The arithmetic of 64 bits and the operations on text that the scanner and the HTTP client share: the search for a substring, and the cut of a
  long text at the start of a rune, which \<open>internal/netscan/fingerprint.go\<close> and \<open>internal/httpx/fetcher.go\<close> both
  write out as the same loop.
\<close>

section \<open>Integers of 64 bits and durations\<close>

definition int64 :: "int \<Rightarrow> int" where
  "int64 x = (x + 2 ^ 63) mod 2 ^ 64 - 2 ^ 63"

text \<open>Durations are in nanoseconds.\<close>

definition second :: int where
  "second = 10 ^ 9"

lemma int64_id: "- (2 ^ 63) \<le> x \<Longrightarrow> x < 2 ^ 63 \<Longrightarrow> int64 x = x"
  by (simp add: int64_def)

section \<open>Substrings\<close>

text \<open>\<open>strings.Index\<close>, as the text before the hit.\<close>

fun before_text :: "string \<Rightarrow> string \<Rightarrow> string option" where
  "before_text p [] = (if p = [] then Some [] else None)"
| "before_text p (c # s) = (if has_prefix (c # s) p then Some [] else map_option (\<lambda>b. c # b) (before_text p s))"

definition has_text :: "string \<Rightarrow> string \<Rightarrow> bool" where
  "has_text s p \<longleftrightarrow> before_text p s \<noteq> None"

lemma before_text_Some: "before_text p s = Some b \<Longrightarrow> \<exists>t. s = b @ p @ t"
proof (induction s arbitrary: b)
  case (Cons c s)
  show ?case
  proof (cases "has_prefix (c # s) p")
    case True
    then have "c # s = p @ drop (length p) (c # s)" by (metis append_take_drop_id has_prefix_def)
    then show ?thesis using True Cons.prems by auto
  next
    case False
    then obtain b' where "before_text p s = Some b'" "b = c # b'" using Cons.prems by auto
    then show ?thesis using Cons.IH by auto
  qed
qed (simp split: if_splits)

lemma before_text_hit: "before_text p (b @ p @ t) \<noteq> None"
proof (induction b)
  case Nil
  have "has_prefix (p @ t) p" by (simp add: has_prefix_def)
  then show ?case by (cases "p @ t") auto
qed simp

lemma has_text_iff: "has_text s p \<longleftrightarrow> (\<exists>b t. s = b @ p @ t)"
  unfolding has_text_def using before_text_Some before_text_hit by fastforce

section \<open>Runes\<close>

text \<open>\<open>utf8.RuneStart\<close>: not a continuation byte.\<close>

definition rune_start :: "char \<Rightarrow> bool" where
  "rune_start c \<longleftrightarrow> \<not> (CHR 0x80 \<le> c \<and> c \<le> CHR 0xBF)"

fun rune_cut :: "string \<Rightarrow> nat \<Rightarrow> nat" where
  "rune_cut b 0 = 0"
| "rune_cut b (Suc k) = (if \<not> rune_start (b ! Suc k) then rune_cut b k else Suc k)"

text \<open>The three bytes of the ellipsis.\<close>

definition ellipsis :: string where
  "ellipsis = [CHR 0xE2, CHR 0x80, CHR 0xA6]"

lemma rune_cut_le: "rune_cut b k \<le> k"
  by (induction k) auto

lemma rune_cut_start: "rune_cut b k = 0 \<or> rune_start (b ! rune_cut b k)"
  by (induction k) auto

end
