(* ===== verification/Fingerprint.thy ===== *)
theory Fingerprint
  imports Banner_Regexp Go_Text Ports Identity
begin

text \<open>
  \<open>internal/netscan/fingerprint.go\<close>: the services, their CPE names, the banner rules and the certificate rules.
  The remote text is bytes; \<open>TrimSpace\<close>, \<open>Fields\<close> and \<open>ToLower\<close> act on its ASCII. Shown: a banner names each
  product once, exactly the products of the rules it matches; a version is a piece of the banner that starts with
  a digit; the CPE name of a service is read back by the matcher as the vendor, product and version it was written
  from, and is empty when no version was stated; a carried banner is bounded and holds no control character.
\<close>

record Service =
  sv_Port :: int
  sv_Raw :: string
  sv_Vendor :: string
  sv_Product :: string
  sv_Version :: string
  sv_TLS :: string
  sv_VendorNote :: string

definition new_service :: "int \<Rightarrow> Service" where
  "new_service port = \<lparr>sv_Port = port, sv_Raw = [], sv_Vendor = [], sv_Product = [], sv_Version = [], sv_TLS = [],
     sv_VendorNote = []\<rparr>"

section \<open>CPE names\<close>

definition cpe_special :: "char list" where
  "cpe_special = [CHR '':'', CHR ''/'', CHR ''?'', CHR ''*'', CHR ''!'', CHR 0x22, CHR '';'', CHR ''<'', CHR ''>'', CHR ''='',
     CHR ''['', CHR '']'', CHR ''('', CHR '')'', CHR ''{'', CHR ''}'', CHR ''~'', CHR ''#'', CHR ''$'', CHR ''%'', CHR ''^'',
     CHR ''&'', CHR ''+'', CHR '','', CHR ''@'', CHR 0x60, CHR ''|'', CHR 0x5C, CHR 0x27]"

definition cpe_char :: "char \<Rightarrow> string" where
  "cpe_char r = (if r \<in> set cpe_special then [CHR 0x5C, r] else if r = CHR '' '' then ''_'' else [r])"

definition cpeAttr :: "string \<Rightarrow> string" where
  "cpeAttr v = concat (map cpe_char (to_lower (trim_space v)))"

definition service_CPE :: "Service option \<Rightarrow> string" where
  "service_CPE so =
     (case so of
        None \<Rightarrow> []
      | Some s \<Rightarrow>
          if sv_Vendor s = [] \<or> sv_Product s = [] \<or> sv_Version s = [] then []
          else ''cpe:2.3:a:'' @ cpeAttr (sv_Vendor s) @ '':'' @ cpeAttr (sv_Product s) @ '':'' @ cpeAttr (sv_Version s)
                 @ '':*:*:*:*:*:*:*'')"

definition Scannable :: "Service option \<Rightarrow> bool" where
  "Scannable so \<longleftrightarrow> (case so of None \<Rightarrow> False | Some s \<Rightarrow> sv_Version s \<noteq> [])"

definition Why :: "Service option \<Rightarrow> string" where
  "Why so =
     (case so of
        None \<Rightarrow> ''nothing on this port identified itself''
      | Some s \<Rightarrow>
          if sv_Product s = [] then ''the banner names no software''
          else if sv_Version s = [] then
            ''the banner names '' @ sv_Product s @ '' but states no version, so no range can be tested against it''
          else [])"

section \<open>Banners\<close>

definition looksLikeVersion :: "string \<Rightarrow> bool" where
  "looksLikeVersion v \<longleftrightarrow>
     (if v = [] \<or> list_ex (\<lambda>c. c = CHR '' '' \<or> c = CHR 0x09) v then False
      else CHR ''0'' \<le> hd v \<and> hd v \<le> CHR ''9'')"

definition maxBannerBytes :: nat where
  "maxBannerBytes = 512"

text \<open>The callback of \<open>strings.Map\<close>, \<open>None\<close> for the rune it drops.\<close>

definition banner_char :: "char \<Rightarrow> char option" where
  "banner_char r =
     (if r = CHR 0x0A \<or> r = CHR 0x0D \<or> r = CHR 0x09 then Some CHR '' ''
      else if r < CHR '' '' \<or> r = CHR 0x7F then None
      else Some r)"

definition truncateBanner :: "string \<Rightarrow> string" where
  "truncateBanner b0 =
     (let b = join '' '' (string_fields (List.map_filter banner_char b0)) in
      if length b > maxBannerBytes then take (rune_cut b maxBannerBytes) b @ ellipsis else b)"

section \<open>Rules\<close>

record banner_rule =
  br_re :: "pat list"
  br_vendor :: string
  br_product :: string
  br_version :: nat

definition rule :: "pat list \<Rightarrow> string \<Rightarrow> string \<Rightarrow> nat \<Rightarrow> banner_rule" where
  "rule re vendor prodname v = \<lparr>br_re = re, br_vendor = vendor, br_product = prodname, br_version = v\<rparr>"

text \<open>The pieces the expressions share: \<open>[\d.]+\<close>, \<open>[\w.]*\<close>, \<open>[\w.\-]*\<close>, \<open>[_-]\<close> and \<open>[\s-]\<close>, and the fixed starts.\<close>

definition dotted :: "char \<Rightarrow> bool" where
  "dotted = or_class digit_class (\<lambda>c. c = CHR ''.'')"

definition wordy :: "char \<Rightarrow> bool" where
  "wordy = or_class word_class (\<lambda>c. c = CHR ''.'')"

definition wordy_dash :: "char \<Rightarrow> bool" where
  "wordy_dash = or_class wordy (\<lambda>c. c = CHR ''-'')"

definition dash_or_space :: "char \<Rightarrow> bool" where
  "dash_or_space = or_class space_class (\<lambda>c. c = CHR ''-'')"

definition ssh_start :: "pat list" where
  "ssh_start = [BeginText] @ lit ''SSH-'' @ some1 dotted @ lit ''-''"

definition server_start :: "pat list" where
  "server_start = [BeginLine] @ lit ''Server:'' @ [Many space_class]"

definition greeting_start :: "pat list" where
  "greeting_start = [BeginText] @ lit ''220'' @ [Chr dash_or_space, Many any_class]"

definition group :: "pat list \<Rightarrow> pat list" where
  "group ps = [Open] @ ps @ [Close]"

definition banner_rules :: "banner_rule list" where
  "banner_rules =
     [rule (ssh_start @ lit ''OpenSSH'' @ [Chr (one_of CHR ''_'' CHR ''-'')] @ group [Chr digit_class, Few wordy]
              @ [ThenOrEnd False dash_or_space]) ''openbsd'' ''openssh'' 1,
      rule (ssh_start @ lit ''dropbear'' @ [Chr (one_of CHR ''_'' CHR ''-'')] @ group [Chr digit_class, Many wordy])
        ''dropbear_ssh_project'' ''dropbear_ssh'' 1,
      rule (ssh_start @ lit ''OpenSSH'') ''openbsd'' ''openssh'' 0,
      rule (server_start @ lit ''Apache/'' @ group (some1 dotted @ [Many wordy])) ''apache'' ''http_server'' 1,
      rule (server_start @ lit ''Apache'' @ [ThenOrEnd True (or_class (\<lambda>c. c = CHR ''/'') space_class)]) ''apache'' ''http_server'' 0,
      rule (server_start @ lit ''nginx/'' @ group (some1 dotted)) ''f5'' ''nginx'' 1,
      rule (server_start @ lit ''nginx'' @ [WordEdge]) ''f5'' ''nginx'' 0,
      rule (server_start @ lit ''Microsoft-IIS/'' @ group (some1 dotted)) ''microsoft'' ''internet_information_services'' 1,
      rule (server_start @ lit ''lighttpd/'' @ group (some1 dotted)) ''lighttpd'' ''lighttpd'' 1,
      rule (server_start @ lit ''openresty/'' @ group (some1 dotted)) ''openresty'' ''openresty'' 1,
      rule (server_start @ lit ''Jetty('' @ group (some1 dotted @ [Many wordy]) @ lit '')'') ''eclipse'' ''jetty'' 1,
      rule ([BeginLine] @ lit ''X-Powered-By:'' @ [Many space_class] @ lit ''PHP/'' @ group (some1 dotted)) ''php'' ''php'' 1,
      rule (greeting_start @ lit ''vsFTPd'' @ some1 space_class @ group (some1 dotted)) ''vsftpd_project'' ''vsftpd'' 1,
      rule (greeting_start @ lit ''ProFTPD'' @ some1 space_class @ group (some1 dotted @ [Many word_class])) ''proftpd'' ''proftpd'' 1,
      rule (greeting_start @ lit ''Pure-FTPd'') ''pureftpd'' ''pure-ftpd'' 0,
      rule (greeting_start @ lit ''FileZilla Server'' @ some1 space_class @ group (some1 dotted)) ''filezilla-project'' ''filezilla_server'' 1,
      rule (greeting_start @ lit ''Postfix'') ''postfix'' ''postfix'' 0,
      rule (greeting_start @ lit ''Exim'' @ some1 space_class @ group (some1 dotted)) ''exim'' ''exim'' 1,
      rule (greeting_start @ lit ''Sendmail'' @ some1 space_class @ group (some1 dotted @ [Many wordy_dash])) ''sendmail'' ''sendmail'' 1,
      rule (group (some1 digit_class @ lit ''.'' @ some1 digit_class @ lit ''.'' @ some1 digit_class) @ [Many wordy_dash, Chr (\<lambda>c. c = CHR 0x00), Many any_class]
              @ lit ''mysql_native_password'') ''oracle'' ''mysql'' 1,
      rule ([BeginText] @ lit ''+OK'' @ [WordEdge, Many any_class] @ lit ''Dovecot'') ''dovecot'' ''dovecot'' 0,
      rule (lit ''redis_version:'' @ group (some1 dotted)) ''redis'' ''redis'' 1,
      rule ([BeginText] @ lit ''* OK '' @ [Many any_class] @ lit ''Cyrus IMAP'' @ some1 space_class @ group (some1 dotted)) ''cyrus'' ''imap'' 1]"

text \<open>One round of the loop; \<open>seen\<close> are the keys of the services found so far. \<open>m\<close> holds the groups, so the
  \<open>k\<close>-th of \<open>FindStringSubmatch\<close> is \<open>m ! (k - 1)\<close> and its length is one more.\<close>

definition rule_key :: "banner_rule \<Rightarrow> string \<times> string" where
  "rule_key r = (br_vendor r, br_product r)"

definition stated :: "banner_rule \<Rightarrow> string list \<Rightarrow> string" where
  "stated r m =
     (if br_version r > 0 \<and> br_version r < length m + 1 then
        (let v = trim_space (m ! (br_version r - 1)) in if looksLikeVersion v then v else [])
      else [])"

definition rule_service :: "int \<Rightarrow> string \<Rightarrow> banner_rule \<Rightarrow> string list \<Rightarrow> Service" where
  "rule_service port b r m =
     (new_service port)\<lparr>sv_Raw := truncateBanner b, sv_Vendor := br_vendor r, sv_Product := br_product r,
        sv_Version := stated r m\<rparr>"

fun identify_rules :: "int \<Rightarrow> string \<Rightarrow> banner_rule list \<Rightarrow> (string \<times> string) set \<Rightarrow> Service list" where
  "identify_rules port b [] seen = []"
| "identify_rules port b (r # rs) seen =
     (case find_groups (br_re r) b of
        None \<Rightarrow> identify_rules port b rs seen
      | Some m \<Rightarrow>
          if rule_key r \<in> seen then identify_rules port b rs seen
          else rule_service port b r m # identify_rules port b rs (insert (rule_key r) seen))"

definition IdentifyAll :: "int \<Rightarrow> string \<Rightarrow> Service list" where
  "IdentifyAll port banner =
     (let b = trim_space banner in if b = [] then [] else identify_rules port b banner_rules {})"

definition Identify :: "int \<Rightarrow> string \<Rightarrow> Service option" where
  "Identify port banner = (case IdentifyAll port banner of [] \<Rightarrow> None | s # _ \<Rightarrow> Some s)"

section \<open>Certificates\<close>

definition certRules :: "(string \<times> string \<times> string) list" where
  "certRules =
     [(''syncthing'', ''syncthing'', ''syncthing''), (''docker'', ''docker'', ''docker''),
      (''kubernetes'', ''kubernetes'', ''kubernetes''), (''elasticsearch'', ''elastic'', ''elasticsearch''),
      (''rabbitmq'', ''pivotal_software'', ''rabbitmq''), (''grafana'', ''grafana'', ''grafana''),
      (''jenkins'', ''jenkins'', ''jenkins''), (''vmware'', ''vmware'', ''vmware''), (''ubiquiti'', ''ui'', ''unifi''),
      (''pfsense'', ''netgate'', ''pfsense''), (''synology'', ''synology'', ''diskstation_manager''),
      (''qnap'', ''qnap'', ''qts''), (''plex'', ''plex'', ''plex_media_server''), (''minio'', ''minio'', ''minio'')]"

text \<open>\<open>strings.FieldsFunc\<close> at what is neither letter nor digit (of ASCII).\<close>

definition letter_digit :: "char \<Rightarrow> bool" where
  "letter_digit c \<longleftrightarrow> ascii_upper c \<or> ascii_lower c \<or> isDigit c"

fun tokens_from :: "string \<Rightarrow> string \<Rightarrow> string list" where
  "tokens_from w [] = (if w = [] then [] else [w])"
| "tokens_from w (c # s) =
     (if letter_digit c then tokens_from (w @ [c]) s
      else (if w = [] then tokens_from [] s else w # tokens_from [] s))"

definition subject_tokens :: "string \<Rightarrow> string list" where
  "subject_tokens subject = tokens_from [] (to_lower subject)"

definition IdentifyTLS :: "int \<Rightarrow> string \<Rightarrow> Service option" where
  "IdentifyTLS port subject =
     (if trim_space subject = [] then None
      else
        (case List.find (\<lambda>(needle, _). needle \<in> set (subject_tokens subject)) certRules of
           None \<Rightarrow> None
         | Some (_, vendor, prodname) \<Rightarrow>
             Some ((new_service port)\<lparr>sv_Vendor := vendor, sv_Product := prodname, sv_TLS := subject,
               sv_Raw := truncateBanner (''tls certificate: '' @ subject)\<rparr>)))"

section \<open>Products and versions\<close>

lemma identify_rules_keys:
  "distinct (map (\<lambda>s. (sv_Vendor s, sv_Product s)) (identify_rules port b rs seen))
   \<and> set (map (\<lambda>s. (sv_Vendor s, sv_Product s)) (identify_rules port b rs seen))
      = rule_key ` {r \<in> set rs. find_groups (br_re r) b \<noteq> None} - seen"
proof (induction rs arbitrary: seen)
  case (Cons r rs)
  show ?case
  proof (cases "find_groups (br_re r) b = None \<or> rule_key r \<in> seen")
    case True
    then have "identify_rules port b (r # rs) seen = identify_rules port b rs seen" by (auto split: option.splits)
    then show ?thesis using Cons.IH [of seen] True by auto
  next
    case False
    then obtain m where m: "find_groups (br_re r) b = Some m" by auto
    have key: "(sv_Vendor (rule_service port b r m), sv_Product (rule_service port b r m)) = rule_key r"
      by (simp add: rule_service_def rule_key_def)
    have eq: "identify_rules port b (r # rs) seen
        = rule_service port b r m # identify_rules port b rs (insert (rule_key r) seen)" using m False by simp
    have set: "{q \<in> set (r # rs). find_groups (br_re q) b \<noteq> None} = insert r {q \<in> set rs. find_groups (br_re q) b \<noteq> None}"
      using m by auto
    show ?thesis unfolding eq set using Cons.IH [of "insert (rule_key r) seen"] key False by auto
  qed
qed simp

lemma identify_rules_from:
  "s \<in> set (identify_rules port b rs seen)
     \<Longrightarrow> \<exists>r \<in> set rs. \<exists>m. find_groups (br_re r) b = Some m \<and> s = rule_service port b r m"
  by (induction rs arbitrary: seen) (simp, fastforce split: option.splits if_splits)

lemma piece_trans: "piece_of u v \<Longrightarrow> piece_of v w \<Longrightarrow> piece_of u w"
  unfolding piece_of_def by (metis append.assoc)

lemma piece_trim: "piece_of (trim_space s) s"
proof -
  have l: "piece_of (trim_left t) t" for t
    unfolding piece_of_def trim_left_def by (metis append_Nil2 takeWhile_dropWhile_id)
  have "piece_of (trim_right t) t" for t
    unfolding piece_of_def trim_right_def by (metis append_Nil rev_append rev_rev_ident takeWhile_dropWhile_id)
  then show ?thesis unfolding trim_space_def using l piece_trans by blast
qed

lemma stated_piece:
  assumes "find_groups (br_re r) b = Some m" "stated r m \<noteq> []"
  shows "piece_of (stated r m) b" "looksLikeVersion (stated r m)"
proof -
  let ?g = "m ! (br_version r - 1)"
  have v: "br_version r - 1 < length m" "stated r m = trim_space ?g" "looksLikeVersion (trim_space ?g)"
    using assms(2) by (auto simp: stated_def Let_def split: if_splits)
  have "piece_of ?g b" using search_pieces [OF assms(1)] v(1) by (simp add: list_all_length)
  then show "piece_of (stated r m) b" using piece_trans [OF piece_trim] v(2) by simp
  show "looksLikeVersion (stated r m)" using v by simp
qed

lemma IdentifyAll_keys:
  "distinct (map (\<lambda>s. (sv_Vendor s, sv_Product s)) (IdentifyAll port banner))"
  "trim_space banner \<noteq> [] \<Longrightarrow> set (map (\<lambda>s. (sv_Vendor s, sv_Product s)) (IdentifyAll port banner))
     = rule_key ` {r \<in> set banner_rules. find_groups (br_re r) (trim_space banner) \<noteq> None}"
  using identify_rules_keys [of port "trim_space banner" banner_rules "{}"] by (auto simp: IdentifyAll_def Let_def)

lemma IdentifyAll_from:
  assumes "s \<in> set (IdentifyAll port banner)"
  obtains r m where "r \<in> set banner_rules" "find_groups (br_re r) (trim_space banner) = Some m"
    "s = rule_service port (trim_space banner) r m"
  using assms identify_rules_from [of s port "trim_space banner" banner_rules "{}"]
  by (auto simp: IdentifyAll_def Let_def split: if_splits)

lemma IdentifyAll_version:
  assumes "s \<in> set (IdentifyAll port banner)" "sv_Version s \<noteq> []"
  shows "piece_of (sv_Version s) banner \<and> looksLikeVersion (sv_Version s)"
proof -
  obtain r m where r: "find_groups (br_re r) (trim_space banner) = Some m" "s = rule_service port (trim_space banner) r m"
    using IdentifyAll_from [OF assms(1)] by blast
  have "sv_Version s = stated r m" using r(2) by (simp add: rule_service_def)
  then show ?thesis using stated_piece [OF r(1)] assms(2) piece_trans [OF _ piece_trim] by metis
qed

section \<open>The written name\<close>

lemma cpe_special_mem:
  "CHR '':'' \<in> set cpe_special" "CHR 0x5C \<in> set cpe_special" "CHR '' '' \<notin> set cpe_special"
  by (simp_all add: cpe_special_def)

lemma cpe_char_closed: "closed_field CHR '':'' (cpe_char c @ s) = closed_field CHR '':'' s"
proof (cases "c \<in> set cpe_special")
  case True
  then show ?thesis by (simp add: cpe_char_def)
next
  case False
  then have "c \<noteq> CHR '':''" "c \<noteq> CHR 0x5C" using cpe_special_mem by blast+
  then show ?thesis using False by (simp add: cpe_char_def)
qed

lemma cpeAttr_closed: "closed_field CHR '':'' (cpeAttr v)"
proof -
  have "closed_field CHR '':'' (concat (map cpe_char w))" for w by (induction w) (auto simp: cpe_char_closed)
  then show ?thesis by (simp add: cpeAttr_def)
qed

lemma unquote_cpe_chars:
  "unquoteCPE (concat (map cpe_char w)) = map (\<lambda>c. if c = CHR '' '' then CHR ''_'' else c) w"
proof (induction w)
  case (Cons c w)
  have "cpe_char c = [CHR 0x5C, c] \<and> c \<noteq> CHR '' '' \<or> (\<exists>d. cpe_char c = [d] \<and> d \<noteq> CHR 0x5C \<and> d = (if c = CHR '' '' then CHR ''_'' else c))"
  proof (cases "c \<in> set cpe_special")
    case True
    then show ?thesis using cpe_special_mem(3) by (auto simp: cpe_char_def)
  next
    case False
    then have "c \<noteq> CHR 0x5C" using cpe_special_mem(2) by blast
    then show ?thesis using False by (auto simp: cpe_char_def)
  qed
  then show ?case
  proof
    assume "cpe_char c = [CHR 0x5C, c] \<and> c \<noteq> CHR '' ''"
    then show ?thesis using Cons by simp
  next
    assume "\<exists>d. cpe_char c = [d] \<and> d \<noteq> CHR 0x5C \<and> d = (if c = CHR '' '' then CHR ''_'' else c)"
    then obtain d where d: "cpe_char c = [d]" "d \<noteq> CHR 0x5C" "d = (if c = CHR '' '' then CHR ''_'' else c)" by blast
    have "unquoteCPE (d # s) = d # unquoteCPE s" for s using d(2) by (cases s) simp_all
    then show ?thesis using Cons d by simp
  qed
qed simp

lemma unquote_cpeAttr:
  "unquoteCPE (cpeAttr v) = map (\<lambda>c. if c = CHR '' '' then CHR ''_'' else c) (to_lower (trim_space v))"
  by (simp add: cpeAttr_def unquote_cpe_chars)

lemma cpe_char_ends:
  "cpe_char c \<noteq> []" "\<not> is_space c \<Longrightarrow> \<not> is_space (hd (cpe_char c))" "\<not> is_space c \<Longrightarrow> \<not> is_space (last (cpe_char c))"
  by (auto simp: cpe_char_def is_space_def less_eq_char_def)

lemma trim_space_ends:
  assumes "trim_space v \<noteq> []"
  shows "\<not> is_space (hd (trim_space v))" "\<not> is_space (last (trim_space v))"
proof -
  have "trim_space v = trim_left (trim_right v)" by (simp add: trim_space_def trim_left_trim_right)
  then show "\<not> is_space (hd (trim_space v))" using assms hd_dropWhile_not [of is_space "trim_right v"]
    by (simp add: trim_left_def)
  show "\<not> is_space (last (trim_space v))" using assms by (intro trim_space_last) simp_all
qed

lemma cpeAttr_trimmed:
  assumes "trim_space v \<noteq> []"
  shows "cpeAttr v \<noteq> []" "trim_space (cpeAttr v) = cpeAttr v"
proof -
  let ?w = "to_lower (trim_space v)"
  have w: "?w \<noteq> []" "\<not> is_space (hd ?w)" "\<not> is_space (last ?w)"
    using assms trim_space_ends [OF assms] by (auto simp: to_lower_def hd_map last_map)
  obtain c u where c: "?w = c # u" using w(1) by (cases ?w) auto
  obtain x d where d: "?w = x @ [d]" using w(1) by (cases ?w rule: rev_cases) auto
  have eq: "cpeAttr v = cpe_char c @ concat (map cpe_char u)" by (simp add: cpeAttr_def c)
  have eq': "cpeAttr v = concat (map cpe_char x) @ cpe_char d" by (simp add: cpeAttr_def d)
  show ne: "cpeAttr v \<noteq> []" using eq cpe_char_ends(1) by simp
  have "\<not> is_space (hd (cpeAttr v))" using eq w(2) c cpe_char_ends [of c] by (simp add: hd_append)
  moreover have "\<not> is_space (last (cpeAttr v))" using eq' w(3) d cpe_char_ends [of d] by (simp add: last_append)
  ultimately show "trim_space (cpeAttr v) = cpeAttr v" using ne by (intro trim_space_plain)
qed

definition service_attrs :: "Service \<Rightarrow> cpeAttrs" where
  "service_attrs s = \<lparr>cpe_part = ''a'', cpe_vendor = cpeAttr (sv_Vendor s), cpe_product = cpeAttr (sv_Product s),
     cpe_version = cpeAttr (sv_Version s), cpe_update = ''*'', cpe_edition = ''*'', cpe_language = ''*'',
     cpe_swEdition = ''*'', cpe_targetSW = ''*'', cpe_targetHW = ''*'', cpe_other = ''*''\<rparr>"

lemma service_CPE_read:
  assumes "trim_space (sv_Vendor s) \<noteq> []" "trim_space (sv_Product s) \<noteq> []" "trim_space (sv_Version s) \<noteq> []"
  shows "parseCPE (service_CPE (Some s)) = Some (service_attrs s)"
proof -
  have ne: "sv_Vendor s \<noteq> []" "sv_Product s \<noteq> []" "sv_Version s \<noteq> []" using assms by auto
  have short: "trim_space ''*'' = ''*''" "trim_space ''a'' = ''a''" by code_simp+
  have "well_formed_cpe (service_attrs s)"
    using assms by (simp add: well_formed_cpe_def cpe_fields_def service_attrs_def cpeAttr_closed cpeAttr_trimmed short)
  moreover have "service_CPE (Some s) = format_cpe (service_attrs s)"
    using ne by (simp add: service_CPE_def format_cpe_def cpe_fields_def service_attrs_def)
  ultimately show ?thesis using parseCPE_format by simp
qed

section \<open>The carried banner\<close>

definition printable :: "char \<Rightarrow> bool" where
  "printable c \<longleftrightarrow> \<not> c < CHR '' '' \<and> c \<noteq> CHR 0x7F"

lemma fields_from_chars: "p \<in> set (fields_from w s) \<Longrightarrow> set p \<subseteq> set w \<union> set s"
  by (induction w s rule: fields_from.induct) (auto split: if_splits)

lemma banner_chars_printable: "list_all printable (List.map_filter banner_char b)"
  by (auto simp: list_all_iff map_filter_mem banner_char_def printable_def less_char_def split: if_splits)

lemma truncateBanner_props:
  "list_all printable (truncateBanner b)" "length (truncateBanner b) \<le> maxBannerBytes + 3"
proof -
  let ?f = "string_fields (List.map_filter banner_char b)" and ?b = "join '' '' (string_fields (List.map_filter banner_char b))"
  have sp: "printable CHR '' ''" by (simp add: printable_def)
  have "printable c" if "c \<in> set ?b" for c
  proof -
    from join_chars [OF that] consider "c = CHR '' ''" | q where "q \<in> set ?f" "c \<in> set q" by auto
    then show ?thesis
    proof cases
      case 2
      then have "c \<in> set (List.map_filter banner_char b)"
        using fields_from_chars [of q "[]" "List.map_filter banner_char b"] by (auto simp: string_fields_def)
      then show ?thesis using banner_chars_printable [of b] by (auto simp: list_all_iff)
    qed (simp add: sp)
  qed
  then have p: "list_all printable ?b" by (simp add: list_all_iff)
  have "list_all printable ellipsis" by (simp add: ellipsis_def printable_def less_char_def)
  then show "list_all printable (truncateBanner b)"
    using p by (auto simp: truncateBanner_def Let_def list_all_iff dest: in_set_takeD)
  have "length (take (rune_cut ?b maxBannerBytes) ?b) \<le> maxBannerBytes"
    using rune_cut_le [of ?b maxBannerBytes] by simp
  then show "length (truncateBanner b) \<le> maxBannerBytes + 3"
    by (auto simp: truncateBanner_def Let_def ellipsis_def)
qed

section \<open>Tokens of a certificate subject\<close>

lemma tokens_from_whole:
  "list_all letter_digit w \<Longrightarrow> tok \<in> set (tokens_from w s) \<Longrightarrow>
     \<exists>a z. w @ s = a @ tok @ z \<and> tok \<noteq> [] \<and> list_all letter_digit tok
       \<and> (a = [] \<or> \<not> letter_digit (last a)) \<and> (z = [] \<or> \<not> letter_digit (hd z))"
proof (induction w s rule: tokens_from.induct)
  case (1 w)
  then show ?case by (auto split: if_splits intro!: exI [of _ "[]"])
next
  case (2 w c s)
  show ?case
  proof (cases "letter_digit c")
    case True
    then show ?thesis using 2 by simp
  next
    case False
    then consider "tok = w" "w \<noteq> []" | "tok \<in> set (tokens_from [] s)" using 2(5) by (auto split: if_splits)
    then show ?thesis
    proof cases
      case 1
      then show ?thesis using 2(4) False by (intro exI [of _ "[]"] exI [of _ "c # s"]) simp
    next
      case 2
      have nil: "list_all letter_digit []" by simp
      have "\<exists>a z. [] @ s = a @ tok @ z \<and> tok \<noteq> [] \<and> list_all letter_digit tok
          \<and> (a = [] \<or> \<not> letter_digit (last a)) \<and> (z = [] \<or> \<not> letter_digit (hd z))"
        using "2.IH"(2) [OF False _ nil 2] "2.IH"(3) [OF False _ nil 2] by (cases "w = []") blast+
      then obtain a z where "s = a @ tok @ z" "tok \<noteq> []" "list_all letter_digit tok"
          "a = [] \<or> \<not> letter_digit (last a)" "z = [] \<or> \<not> letter_digit (hd z)"
        by (metis append_Nil)
      then show ?thesis using False by (intro exI [of _ "w @ c # a"] exI [of _ z]) auto
    qed
  qed
qed

lemma IdentifyTLS_names:
  assumes "IdentifyTLS port subject = Some s"
  obtains needle where "(needle, sv_Vendor s, sv_Product s) \<in> set certRules" "needle \<in> set (subject_tokens subject)"
    "sv_Version s = []" "sv_TLS s = subject" "sv_Port s = port"
proof -
  obtain needle vendor prodname
    where f: "List.find (\<lambda>(needle, _). needle \<in> set (subject_tokens subject)) certRules = Some (needle, vendor, prodname)"
      and s: "s = (new_service port)\<lparr>sv_Vendor := vendor, sv_Product := prodname, sv_TLS := subject,
        sv_Raw := truncateBanner (''tls certificate: '' @ subject)\<rparr>"
    using assms unfolding IdentifyTLS_def by (simp split: if_splits option.splits prod.splits)
  have "(needle, vendor, prodname) \<in> set certRules \<and> needle \<in> set (subject_tokens subject)"
    using f unfolding find_Some_iff by (metis case_prod_conv nth_mem)
  then show ?thesis using that [of needle] s by (simp add: new_service_def)
qed

end
