(* ===== verification/Scan_Results.thy ===== *)
theory Scan_Results
  imports Fingerprint
begin

text \<open>
  What \<open>internal/netscan\<close> makes of the output of the external scanners: nmap's XML (\<open>nmap.go\<close>), masscan's JSON and
  progress line (\<open>masscan.go\<close>), and the standard error of either (\<open>progressWatcher\<close> and \<open>toolFailure\<close> of
  \<open>strategy.go\<close>). The decoders of \<open>encoding/xml\<close> and \<open>encoding/json\<close>, \<open>strconv.ParseFloat\<close> and the corpus that
  \<open>VendorResolver\<close> asks are arguments; the moment a result was taken is not kept. Shown: a service never carries a
  version nmap did not state as one, every open port of a host is reported once and no other, vendors are replaced
  exactly where the corpus knows the product under others, the ports masscan found are the open TCP ports per address,
  and the progress read does not depend on how the tool's output was cut into writes.
\<close>

record Unidentified =
  un_Port :: int
  un_Banner :: string
  un_Reason :: string

record Result =
  rs_Host :: string
  rs_Addr :: string
  rs_Scanned :: int
  rs_Open :: "Service list"
  rs_Unidentified :: "Unidentified list"

definition empty_result :: Result where
  "empty_result = \<lparr>rs_Host = [], rs_Addr = [], rs_Scanned = 0, rs_Open = [], rs_Unidentified = []\<rparr>"

section \<open>nmap\<close>

record nmap_port =
  np_PortID :: int
  np_State :: string
  np_Name :: string
  np_Product :: string
  np_Version :: string
  np_ExtraInfo :: string
  np_CPEs :: "string list"

record nmap_host =
  nh_Addresses :: "(string \<times> string) list"
  nh_Hostnames :: "string list"
  nh_Ports :: "nmap_port list"

definition app_prefix :: string where
  "app_prefix = ''cpe:/a:''"

definition splitCPE22 :: "string \<Rightarrow> (string \<times> string \<times> string) option" where
  "splitCPE22 raw0 =
     (let raw = trim_space raw0 in
      if \<not> has_prefix raw app_prefix then None
      else
        (let parts = split CHR '':'' (trim_prefix raw app_prefix) in
         if length parts < 2 \<or> parts ! 0 = [] \<or> parts ! 1 = [] then None
         else Some (parts ! 0, parts ! 1, if length parts > 2 then parts ! 2 else [])))"

text \<open>The loop over the CPE names stops at the first application.\<close>

fun first_app :: "string list \<Rightarrow> (string \<times> string \<times> string) option" where
  "first_app [] = None"
| "first_app (raw # cpes) = (case splitCPE22 raw of None \<Rightarrow> first_app cpes | Some a \<Rightarrow> Some a)"

definition serviceFromNmap :: "int \<Rightarrow> string \<Rightarrow> string \<Rightarrow> string list \<Rightarrow> string \<Rightarrow> string \<Rightarrow> Service option" where
  "serviceFromNmap port product0 version0 cpes name extra =
     (let prd = trim_space product0 in
      if prd = [] then None
      else
        (let version = trim_space version0;
             s = (new_service port)\<lparr>sv_Product := cpeAttr prd,
                   sv_Raw := truncateBanner (trim_space (prd @ '' '' @ version @ '' '' @ extra))\<rparr>
         in Some (case first_app cpes of
                    Some (vendor, p, ver) \<Rightarrow> s\<lparr>sv_Vendor := vendor, sv_Product := p, sv_Version := ver\<rparr>
                  | None \<Rightarrow> if looksLikeVersion version then s\<lparr>sv_Version := version\<rparr> else s)))"

definition unnamed_reason :: string where
  "unnamed_reason = ''nmap found the port open but could not name the software on it''"

definition nmap_port_step :: "nmap_port \<Rightarrow> Result \<Rightarrow> Result" where
  "nmap_port_step p res0 =
     (let res = res0\<lparr>rs_Scanned := rs_Scanned res0 + 1\<rparr> in
      if np_State p \<noteq> ''open'' then res
      else
        (case serviceFromNmap (np_PortID p) (np_Product p) (np_Version p) (np_CPEs p) (np_Name p) (np_ExtraInfo p) of
           None \<Rightarrow> res\<lparr>rs_Unidentified := rs_Unidentified res
             @ [\<lparr>un_Port = np_PortID p, un_Banner = trim_space (np_Name p @ '' '' @ np_ExtraInfo p), un_Reason = unnamed_reason\<rparr>]\<rparr>
         | Some svc \<Rightarrow> res\<lparr>rs_Open := rs_Open res @ [svc]\<rparr>))"

definition sort_result :: "Result \<Rightarrow> Result" where
  "sort_result res = res\<lparr>rs_Open := sort_key sv_Port (rs_Open res), rs_Unidentified := sort_key un_Port (rs_Unidentified res)\<rparr>"

definition nmap_result :: "nmap_host \<Rightarrow> Result option" where
  "nmap_result h =
     (let addr = (case List.find (\<lambda>(_, typ). typ = ''ipv4'' \<or> typ = ''ipv6'') (nh_Addresses h) of Some (a, _) \<Rightarrow> a | None \<Rightarrow> []);
          host = (if nh_Hostnames h \<noteq> [] then hd (nh_Hostnames h) else []);
          res = fold nmap_port_step (nh_Ports h) (empty_result\<lparr>rs_Addr := addr, rs_Host := host\<rparr>)
      in if addr = [] \<and> host = [] then None
         else Some (sort_result (res\<lparr>rs_Host := (if host = [] then addr else host)\<rparr>)))"

definition parseNmapXML :: "(string \<Rightarrow> string + nmap_host list) \<Rightarrow> string \<Rightarrow> string + Result list" where
  "parseNmapXML unmarshal b =
     (case unmarshal b of
        Inl e \<Rightarrow> Inl (''netscan: parse nmap xml: '' @ e)
      | Inr hosts \<Rightarrow> Inr (List.map_filter nmap_result hosts))"

section \<open>Vendors\<close>

text \<open>\<open>%q\<close> on ASCII text: the quotes, backslashes and control characters are escaped.\<close>

definition quoted_char :: "char \<Rightarrow> string" where
  "quoted_char c =
     (if c = CHR 0x22 \<or> c = CHR 0x5C then [CHR 0x5C, c]
      else if c = CHR 0x07 then [CHR 0x5C, CHR ''a''] else if c = CHR 0x08 then [CHR 0x5C, CHR ''b'']
      else if c = CHR 0x0C then [CHR 0x5C, CHR ''f''] else if c = CHR 0x0A then [CHR 0x5C, CHR ''n'']
      else if c = CHR 0x0D then [CHR 0x5C, CHR ''r''] else if c = CHR 0x09 then [CHR 0x5C, CHR ''t'']
      else if c = CHR 0x0B then [CHR 0x5C, CHR ''v'']
      else if c < CHR '' '' \<or> c = CHR 0x7F then
        [CHR 0x5C, CHR ''x'', ''0123456789abcdef'' ! (of_char c div 16), ''0123456789abcdef'' ! (of_char c mod 16)]
      else [c])"

definition quoted :: "string \<Rightarrow> string" where
  "quoted s = [CHR 0x22] @ concat (map quoted_char s) @ [CHR 0x22]"

definition vendor_note :: "string \<Rightarrow> string \<Rightarrow> string \<Rightarrow> string" where
  "vendor_note reported used prd =
     ''nmap reported vendor '' @ quoted reported @ '', which names nothing in this corpus; using '' @ quoted used
       @ '', which the corpus uses for '' @ prd"

definition settle_vendor :: "string list \<Rightarrow> Service \<Rightarrow> Service" where
  "settle_vendor vendors s =
     (if vendors = [] then s
      else if list_ex (\<lambda>v. v = sv_Vendor s) vendors then s
      else
        (let noted = (if sv_Vendor s \<noteq> [] then s\<lparr>sv_VendorNote := vendor_note (sv_Vendor s) (hd vendors) (sv_Product s)\<rparr> else s)
         in noted\<lparr>sv_Vendor := hd vendors\<rparr>))"

text \<open>The loop over the services with the cache of what the corpus answered; an error ends it and the result is dropped.\<close>

fun reconcile_open :: "(string \<Rightarrow> string + string list) \<Rightarrow> (string \<rightharpoonup> string list) \<Rightarrow> Service list \<Rightarrow> string + Service list" where
  "reconcile_open vendors_for cache [] = Inr []"
| "reconcile_open vendors_for cache (s # ss) =
     (if sv_Product s = [] then map_sum id (\<lambda>out. s # out) (reconcile_open vendors_for cache ss)
      else
        (case (case cache (sv_Product s) of Some vs \<Rightarrow> Inr vs | None \<Rightarrow> vendors_for (sv_Product s)) of
           Inl e \<Rightarrow> Inl e
         | Inr vs \<Rightarrow>
             map_sum id (\<lambda>out. settle_vendor vs s # out)
               (reconcile_open vendors_for (cache(sv_Product s \<mapsto> vs)) ss)))"

definition reconcileVendors :: "(string \<Rightarrow> string + string list) option \<Rightarrow> Result \<Rightarrow> string + Result" where
  "reconcileVendors resolver r =
     (case resolver of
        None \<Rightarrow> Inr r
      | Some vendors_for \<Rightarrow> map_sum id (\<lambda>ss. r\<lparr>rs_Open := ss\<rparr>) (reconcile_open vendors_for Map.empty (rs_Open r)))"

section \<open>masscan\<close>

record masscan_port =
  mp_Port :: int
  mp_Proto :: string
  mp_Status :: string

record masscan_host =
  mh_IP :: string
  mh_Ports :: "masscan_port list"

definition open_tcp :: "masscan_port \<Rightarrow> bool" where
  "open_tcp p \<longleftrightarrow> mp_Status p = ''open'' \<and> (mp_Proto p = [] \<or> mp_Proto p = ''tcp'')"

definition masscan_error :: "string \<Rightarrow> string" where
  "masscan_error e = ''netscan: parse masscan json: '' @ e"

definition parseMasscanJSON :: "(string \<Rightarrow> string + masscan_host list) \<Rightarrow> string \<Rightarrow> string + int list" where
  "parseMasscanJSON unmarshal b =
     (let s = trim_space b in
      if s = [] then Inr []
      else
        (case unmarshal s of
           Inl e \<Rightarrow> Inl (masscan_error e)
         | Inr hosts \<Rightarrow> Inr (sort (remdups (concat (map (\<lambda>h. map mp_Port (filter open_tcp (mh_Ports h))) hosts))))))"

text \<open>The ports seen per address, as an association list with one entry for an address.\<close>

fun add_port :: "string \<Rightarrow> int \<Rightarrow> (string \<times> int list) list \<Rightarrow> (string \<times> int list) list" where
  "add_port ip p [] = [(ip, [p])]"
| "add_port ip p ((q, ps) # seen) = (if q = ip then (q, List.insert p ps) # seen else (q, ps) # add_port ip p seen)"

definition masscan_host_step :: "masscan_host \<Rightarrow> (string \<times> int list) list \<Rightarrow> (string \<times> int list) list" where
  "masscan_host_step h seen =
     (if mh_IP h = [] then seen
      else fold (\<lambda>p acc. if \<not> open_tcp p then acc else add_port (mh_IP h) (mp_Port p) acc) (mh_Ports h) seen)"

definition parseMasscanHosts :: "(string \<Rightarrow> string + masscan_host list) \<Rightarrow> string \<Rightarrow> string + (string \<times> int list) list" where
  "parseMasscanHosts unmarshal b =
     (let s = trim_space b in
      if s = [] then Inr []
      else
        (case unmarshal s of
           Inl e \<Rightarrow> Inl (masscan_error e)
         | Inr hosts \<Rightarrow> Inr (map (\<lambda>(ip, ports). (ip, sort ports)) (fold masscan_host_step hosts []))))"

section \<open>Standard error\<close>

definition number_char :: "char \<Rightarrow> bool" where
  "number_char c \<longleftrightarrow> isDigit c \<or> c = CHR ''.''"

definition masscanPercent :: "(string \<Rightarrow> 'f option) \<Rightarrow> string \<Rightarrow> 'f option" where
  "masscanPercent parse_float line =
     (case before_text ''% done'' line of
        None \<Rightarrow> None
      | Some b \<Rightarrow>
          (let number = rev (takeWhile number_char (rev b)) in
           if number = [] then None else parse_float number))"

datatype progress_event = Total int | Added int | SetTo int

record 'f progress_watcher =
  pw_buf :: string
  pw_partial :: string
  pw_pct :: 'f
  pw_sent :: "progress_event list"

definition watch_line :: "(string \<Rightarrow> 'f option) \<Rightarrow> ('f \<Rightarrow> int) \<Rightarrow> bool \<Rightarrow> string \<Rightarrow> 'f progress_watcher \<Rightarrow> 'f progress_watcher" where
  "watch_line parse_float hundredths settable line w =
     (case masscanPercent parse_float line of
        None \<Rightarrow> w
      | Some pct \<Rightarrow>
          if pct = pw_pct w then w
          else w\<lparr>pw_pct := pct,
                 pw_sent := pw_sent w @ [Total 10000, Added 0] @ (if settable then [SetTo (hundredths pct)] else [])\<rparr>)"

definition line_break :: "char \<Rightarrow> bool" where
  "line_break c \<longleftrightarrow> c = CHR 0x0D \<or> c = CHR 0x0A"

lemma watch_line_partial [simp]:
  "pw_partial (watch_line parse_float hundredths settable l w) = pw_partial w"
  "pw_buf (watch_line parse_float hundredths settable l w) = pw_buf w"
  by (simp_all add: watch_line_def split: option.splits)

text \<open>The loop of \<open>Write\<close>: every complete line is taken off the front of \<open>partial\<close>.\<close>

function drain :: "(string \<Rightarrow> 'f option) \<Rightarrow> ('f \<Rightarrow> int) \<Rightarrow> bool \<Rightarrow> 'f progress_watcher \<Rightarrow> 'f progress_watcher" where
  "drain parse_float hundredths settable w =
     (case dropWhile (\<lambda>c. \<not> line_break c) (pw_partial w) of
        [] \<Rightarrow> w
      | _ # rest \<Rightarrow>
          drain parse_float hundredths settable
            (watch_line parse_float hundredths settable (takeWhile (\<lambda>c. \<not> line_break c) (pw_partial w)) (w\<lparr>pw_partial := rest\<rparr>)))"
  by pat_completeness auto

termination
proof (relation "measure (\<lambda>(_, _, _, w). length (pw_partial w))", simp)
  fix parse_float :: "string \<Rightarrow> 'f option" and hundredths settable and w :: "'f progress_watcher" and c rest
  assume d: "dropWhile (\<lambda>c. \<not> line_break c) (pw_partial w) = c # rest"
  have "length (c # rest) \<le> length (pw_partial w)" unfolding d [symmetric] by (rule dropWhile_length_le)
  then show "((parse_float, hundredths, settable, watch_line parse_float hundredths settable
      (takeWhile (\<lambda>c. \<not> line_break c) (pw_partial w)) (w\<lparr>pw_partial := rest\<rparr>)), parse_float, hundredths, settable, w)
    \<in> measure (\<lambda>(_, _, _, w). length (pw_partial w))" by simp
qed

declare drain.simps [simp del]

definition watcher_Write :: "(string \<Rightarrow> 'f option) \<Rightarrow> ('f \<Rightarrow> int) \<Rightarrow> bool \<Rightarrow> string \<Rightarrow> 'f progress_watcher \<Rightarrow> 'f progress_watcher" where
  "watcher_Write parse_float hundredths settable p w =
     drain parse_float hundredths settable (w\<lparr>pw_buf := pw_buf w @ p, pw_partial := pw_partial w @ p\<rparr>)"

definition failure_markers :: "string list" where
  "failure_markers = [''fail'', ''error'', ''denied'', ''cannot'', ''could not'', ''unable'', ''refused'', ''no route'', ''unknown'']"

definition names_failure :: "string \<Rightarrow> bool" where
  "names_failure l \<longleftrightarrow> list_ex (has_text (to_lower l)) failure_markers"

definition toolFailure :: "string \<Rightarrow> string" where
  "toolFailure stderr =
     (let ls = filter (\<lambda>t. t \<noteq> []) (map trim_space (split CHR 0x0A stderr)) in
      if ls = [] then []
      else (case List.find names_failure ls of Some l \<Rightarrow> l | None \<Rightarrow> last ls))"

section \<open>What nmap states\<close>

lemma first_app_from: "first_app cpes = Some a \<Longrightarrow> \<exists>raw \<in> set cpes. splitCPE22 raw = Some a"
  by (induction cpes) (auto split: option.splits)

lemma first_app_None: "first_app cpes = None \<longleftrightarrow> list_all (\<lambda>raw. splitCPE22 raw = None) cpes"
  by (induction cpes) (auto split: option.splits)

lemma first_app_some: "first_app cpes \<noteq> None \<longleftrightarrow> list_ex (\<lambda>raw. splitCPE22 raw \<noteq> None) cpes"
  by (induction cpes) (auto split: option.splits)

lemma serviceFromNmap_named: "serviceFromNmap port prd version cpes name extra = None \<longleftrightarrow> trim_space prd = []"
  by (simp add: serviceFromNmap_def Let_def)

lemma serviceFromNmap_port: "serviceFromNmap port prd version cpes name extra = Some s \<Longrightarrow> sv_Port s = port"
  by (auto simp: serviceFromNmap_def Let_def new_service_def split: if_splits option.splits)

lemma serviceFromNmap_version:
  assumes "serviceFromNmap port prd version cpes name extra = Some s"
  shows "case first_app cpes of
      Some a \<Rightarrow> (sv_Vendor s, sv_Product s, sv_Version s) = a
    | None \<Rightarrow> sv_Vendor s = [] \<and> sv_Product s = cpeAttr (trim_space prd)
        \<and> sv_Version s = (if looksLikeVersion (trim_space version) then trim_space version else [])"
  using assms by (auto simp: serviceFromNmap_def Let_def new_service_def split: if_splits option.splits)

section \<open>Ports of a host\<close>

definition open_ports :: "nmap_port list \<Rightarrow> int list" where
  "open_ports ps = map np_PortID (filter (\<lambda>p. np_State p = ''open'') ps)"

lemma nmap_port_step_ports:
  "rs_Scanned (nmap_port_step p r) = rs_Scanned r + 1 \<and> rs_Addr (nmap_port_step p r) = rs_Addr r
   \<and> rs_Host (nmap_port_step p r) = rs_Host r
   \<and> mset (map sv_Port (rs_Open (nmap_port_step p r))) + mset (map un_Port (rs_Unidentified (nmap_port_step p r)))
     = mset (map sv_Port (rs_Open r)) + mset (map un_Port (rs_Unidentified r)) + mset (open_ports [p])"
  by (auto simp: nmap_port_step_def Let_def open_ports_def split: option.splits dest: serviceFromNmap_port)

lemma nmap_ports_fold:
  "rs_Scanned (fold nmap_port_step ps r) = rs_Scanned r + int (length ps) \<and> rs_Addr (fold nmap_port_step ps r) = rs_Addr r
   \<and> rs_Host (fold nmap_port_step ps r) = rs_Host r
   \<and> mset (map sv_Port (rs_Open (fold nmap_port_step ps r))) + mset (map un_Port (rs_Unidentified (fold nmap_port_step ps r)))
     = mset (map sv_Port (rs_Open r)) + mset (map un_Port (rs_Unidentified r)) + mset (open_ports ps)"
proof (induction ps arbitrary: r)
  case (Cons p ps)
  have "mset (open_ports (p # ps)) = mset (open_ports [p]) + mset (open_ports ps)" by (simp add: open_ports_def)
  then show ?case using Cons.IH [of "nmap_port_step p r"] nmap_port_step_ports [of p r] by simp
qed (simp add: open_ports_def)

lemma sort_result_ports:
  "mset (map sv_Port (rs_Open (sort_result r))) = mset (map sv_Port (rs_Open r))"
  "mset (map un_Port (rs_Unidentified (sort_result r))) = mset (map un_Port (rs_Unidentified r))"
  "sorted (map sv_Port (rs_Open (sort_result r)))" "sorted (map un_Port (rs_Unidentified (sort_result r)))"
  "set (rs_Open (sort_result r)) = set (rs_Open r)" "rs_Host (sort_result r) = rs_Host r" "rs_Addr (sort_result r) = rs_Addr r"
  "rs_Scanned (sort_result r) = rs_Scanned r"
  by (simp_all add: sort_result_def mset_map)

lemma nmap_result_ports:
  assumes "nmap_result h = Some r"
  shows "rs_Scanned r = int (length (nh_Ports h))"
    "mset (map sv_Port (rs_Open r) @ map un_Port (rs_Unidentified r)) = mset (open_ports (nh_Ports h))"
    "sorted (map sv_Port (rs_Open r))" "sorted (map un_Port (rs_Unidentified r))" "rs_Host r \<noteq> []"
proof -
  obtain res hst where r: "r = sort_result (res\<lparr>rs_Host := hst\<rparr>)" "hst \<noteq> []"
      and f: "\<exists>addr host. res = fold nmap_port_step (nh_Ports h) (empty_result\<lparr>rs_Addr := addr, rs_Host := host\<rparr>)"
    using assms unfolding nmap_result_def Let_def by (fastforce split: if_splits)
  obtain addr host where res: "res = fold nmap_port_step (nh_Ports h) (empty_result\<lparr>rs_Addr := addr, rs_Host := host\<rparr>)"
    using f by blast
  note fold = nmap_ports_fold [of "nh_Ports h" "empty_result\<lparr>rs_Addr := addr, rs_Host := host\<rparr>", folded res]
  show "rs_Scanned r = int (length (nh_Ports h))" using fold r by (simp add: sort_result_ports empty_result_def)
  show "mset (map sv_Port (rs_Open r) @ map un_Port (rs_Unidentified r)) = mset (open_ports (nh_Ports h))"
    using fold r by (simp add: sort_result_def empty_result_def)
  show "sorted (map sv_Port (rs_Open r))" "sorted (map un_Port (rs_Unidentified r))" "rs_Host r \<noteq> []"
    using r by (simp_all add: sort_result_ports)
qed

lemma parseNmapXML_from:
  assumes "parseNmapXML unmarshal b = Inr rs" "r \<in> set rs"
  shows "\<exists>hosts. unmarshal b = Inr hosts \<and> (\<exists>h \<in> set hosts. nmap_result h = Some r)"
  using assms by (auto simp: parseNmapXML_def map_filter_mem split: sum.splits)

section \<open>Vendors with and without the cache\<close>

fun reconcile_plain :: "(string \<Rightarrow> string + string list) \<Rightarrow> Service list \<Rightarrow> string + Service list" where
  "reconcile_plain vendors_for [] = Inr []"
| "reconcile_plain vendors_for (s # ss) =
     (if sv_Product s = [] then map_sum id (\<lambda>out. s # out) (reconcile_plain vendors_for ss)
      else
        (case vendors_for (sv_Product s) of
           Inl e \<Rightarrow> Inl e
         | Inr vs \<Rightarrow> map_sum id (\<lambda>out. settle_vendor vs s # out) (reconcile_plain vendors_for ss)))"

lemma reconcile_cached:
  "(\<And>p vs. cache p = Some vs \<Longrightarrow> vendors_for p = Inr vs)
     \<Longrightarrow> reconcile_open vendors_for cache ss = reconcile_plain vendors_for ss"
proof (induction ss arbitrary: cache)
  case (Cons s ss)
  show ?case
  proof (cases "sv_Product s = []")
    case True
    then show ?thesis using Cons.IH [of cache] Cons.prems by simp
  next
    case False
    have ask: "(case cache (sv_Product s) of Some vs \<Rightarrow> Inr vs | None \<Rightarrow> vendors_for (sv_Product s)) = vendors_for (sv_Product s)"
      using Cons.prems by (auto split: option.splits)
    show ?thesis
    proof (cases "vendors_for (sv_Product s)")
      case (Inl e)
      then show ?thesis using False ask by simp
    next
      case (Inr vs)
      then have "reconcile_open vendors_for (cache(sv_Product s \<mapsto> vs)) ss = reconcile_plain vendors_for ss"
        using Cons.prems by (intro Cons.IH) (auto split: if_splits)
      then show ?thesis using False ask Inr by simp
    qed
  qed
qed simp

definition vendor_settled :: "(string \<Rightarrow> string + string list) \<Rightarrow> Service \<Rightarrow> Service \<Rightarrow> bool" where
  "vendor_settled vendors_for s t \<longleftrightarrow>
     sv_Port t = sv_Port s \<and> sv_Product t = sv_Product s \<and> sv_Version t = sv_Version s \<and> sv_Raw t = sv_Raw s \<and> sv_TLS t = sv_TLS s
     \<and> (if sv_Product s = [] then t = s
        else (case vendors_for (sv_Product s) of
                Inl e \<Rightarrow> False
              | Inr vs \<Rightarrow> if vs = [] \<or> sv_Vendor s \<in> set vs then t = s
                          else sv_Vendor t = hd vs \<and> (sv_Vendor s = [] \<or> sv_VendorNote t = vendor_note (sv_Vendor s) (hd vs) (sv_Product s))))"

lemma settle_vendor_settled:
  "vendors_for (sv_Product s) = Inr vs \<Longrightarrow> sv_Product s \<noteq> [] \<Longrightarrow> vendor_settled vendors_for s (settle_vendor vs s)"
  by (auto simp: vendor_settled_def settle_vendor_def list_ex_iff Let_def)

lemma reconcile_plain_settled:
  "reconcile_plain vendors_for ss = Inr out \<Longrightarrow> list_all2 (vendor_settled vendors_for) ss out"
proof (induction ss arbitrary: out)
  case (Cons s ss)
  show ?case
  proof (cases "sv_Product s = []")
    case True
    then obtain o' where o: "reconcile_plain vendors_for ss = Inr o'" "out = s # o'"
      using Cons.prems by (cases "reconcile_plain vendors_for ss") auto
    have "vendor_settled vendors_for s s" using True by (simp add: vendor_settled_def)
    then show ?thesis using Cons.IH [OF o(1)] o(2) by simp
  next
    case False
    then obtain vs o' where o: "vendors_for (sv_Product s) = Inr vs" "reconcile_plain vendors_for ss = Inr o'"
        "out = settle_vendor vs s # o'"
      using Cons.prems by (cases "vendors_for (sv_Product s)"; cases "reconcile_plain vendors_for ss") auto
    then show ?thesis using Cons.IH [OF o(2)] settle_vendor_settled [of vendors_for s vs, OF o(1) False] by simp
  qed
qed simp

lemma reconcileVendors_settled:
  assumes "reconcileVendors (Some vendors_for) r = Inr r'"
  shows "r' = r\<lparr>rs_Open := rs_Open r'\<rparr> \<and> list_all2 (vendor_settled vendors_for) (rs_Open r) (rs_Open r')"
proof -
  obtain out where o: "reconcile_open vendors_for Map.empty (rs_Open r) = Inr out" "r' = r\<lparr>rs_Open := out\<rparr>"
    using assms by (cases "reconcile_open vendors_for Map.empty (rs_Open r)") (auto simp: reconcileVendors_def)
  then have "reconcile_plain vendors_for (rs_Open r) = Inr out" using reconcile_cached [of Map.empty vendors_for] by simp
  then show ?thesis using reconcile_plain_settled o(2) by simp
qed

section \<open>Ports of an address\<close>

definition ports_of :: "(string \<times> int list) list \<Rightarrow> string \<Rightarrow> int list" where
  "ports_of found ip = (case map_of found ip of Some ps \<Rightarrow> ps | None \<Rightarrow> [])"

definition found_ok :: "(string \<times> int list) list \<Rightarrow> bool" where
  "found_ok found \<longleftrightarrow> distinct (map fst found) \<and> list_all (\<lambda>(ip, ps). ip \<noteq> [] \<and> ps \<noteq> [] \<and> distinct ps) found"

lemma add_port_ips: "set (map fst (add_port ip p seen)) = insert ip (set (map fst seen))"
  by (induction ip p seen rule: add_port.induct) auto

lemma add_port_ok:
  assumes "ip \<noteq> []" "found_ok seen"
  shows "found_ok (add_port ip p seen)"
  using assms
proof (induction ip p seen rule: add_port.induct)
  case (2 ip p q ps seen)
  show ?case
  proof (cases "q = ip")
    case False
    then show ?thesis using 2 add_port_ips [of ip p seen] by (auto simp: found_ok_def)
  qed (use 2 in \<open>auto simp: found_ok_def List.insert_def\<close>)
qed (simp add: found_ok_def)

lemma ports_of_simps [simp]:
  "ports_of [] ip = []" "ports_of ((q, ps) # seen) ip = (if q = ip then ps else ports_of seen ip)"
  by (simp_all add: ports_of_def)

lemma add_port_ports: "set (ports_of (add_port ip p seen) q) = set (ports_of seen q) \<union> (if q = ip then {p} else {})"
proof (induction ip p seen rule: add_port.induct)
  case (2 ip p r ps seen)
  show ?case
  proof (cases "r = ip")
    case False
    then show ?thesis using "2.IH" [OF False] by (cases "r = q") simp_all
  qed simp
qed simp

lemma masscan_host_step_props:
  "found_ok seen \<Longrightarrow> found_ok (masscan_host_step h seen)"
  "set (ports_of (masscan_host_step h seen) ip)
     = set (ports_of seen ip) \<union> (if ip \<noteq> [] \<and> mh_IP h = ip then mp_Port ` {p \<in> set (mh_Ports h). open_tcp p} else {})"
proof -
  let ?f = "\<lambda>p acc. if \<not> open_tcp p then acc else add_port (mh_IP h) (mp_Port p) acc"
  have ok: "found_ok seen \<Longrightarrow> found_ok (fold ?f ps seen)" if "mh_IP h \<noteq> []" for ps
    using that by (induction ps arbitrary: seen) (auto simp: add_port_ok)
  have ports: "set (ports_of (fold ?f ps seen) ip)
      = set (ports_of seen ip) \<union> (if mh_IP h = ip then mp_Port ` {p \<in> set ps. open_tcp p} else {})" for ps
    by (induction ps arbitrary: seen) (auto simp: add_port_ports)
  show "found_ok seen \<Longrightarrow> found_ok (masscan_host_step h seen)" using ok by (simp add: masscan_host_step_def)
  show "set (ports_of (masscan_host_step h seen) ip)
     = set (ports_of seen ip) \<union> (if ip \<noteq> [] \<and> mh_IP h = ip then mp_Port ` {p \<in> set (mh_Ports h). open_tcp p} else {})"
    unfolding masscan_host_step_def using ports by auto
qed

lemma masscan_fold_props:
  "found_ok seen \<Longrightarrow> found_ok (fold masscan_host_step hosts seen)"
  "p \<in> set (ports_of (fold masscan_host_step hosts seen) ip) \<longleftrightarrow> p \<in> set (ports_of seen ip)
     \<or> ip \<noteq> [] \<and> (\<exists>h \<in> set hosts. mh_IP h = ip \<and> (\<exists>q \<in> set (mh_Ports h). open_tcp q \<and> mp_Port q = p))"
proof -
  show "found_ok seen \<Longrightarrow> found_ok (fold masscan_host_step hosts seen)"
    by (induction hosts arbitrary: seen) (simp_all add: masscan_host_step_props)
  show "p \<in> set (ports_of (fold masscan_host_step hosts seen) ip) \<longleftrightarrow> p \<in> set (ports_of seen ip)
     \<or> ip \<noteq> [] \<and> (\<exists>h \<in> set hosts. mh_IP h = ip \<and> (\<exists>q \<in> set (mh_Ports h). open_tcp q \<and> mp_Port q = p))"
  proof (induction hosts arbitrary: seen)
    case (Cons h hosts)
    show ?case using Cons.IH [of "masscan_host_step h seen"] by (auto simp: masscan_host_step_props)
  qed simp
qed

lemma ports_of_map: "ports_of (map (\<lambda>(ip, ps). (ip, sort ps)) found) ip = sort (ports_of found ip)"
  by (simp add: ports_of_def map_of_map option.map_comp split: option.split)

lemma parseMasscanHosts_props:
  assumes "parseMasscanHosts unmarshal b = Inr found" "trim_space b \<noteq> []"
  obtains hosts where "unmarshal (trim_space b) = Inr hosts" "found_ok found" "sorted (ports_of found ip)"
    "set (ports_of found ip) = {p. ip \<noteq> [] \<and> (\<exists>h \<in> set hosts. mh_IP h = ip \<and> (\<exists>q \<in> set (mh_Ports h). open_tcp q \<and> mp_Port q = p))}"
proof -
  obtain hosts where h: "unmarshal (trim_space b) = Inr hosts"
      "found = map (\<lambda>(ip, ports). (ip, sort ports)) (fold masscan_host_step hosts [])"
    using assms by (auto simp: parseMasscanHosts_def Let_def split: sum.splits)
  have nil: "found_ok []" by (simp add: found_ok_def)
  have ne: "sort ps \<noteq> []" if "ps \<noteq> []" for ps :: "int list" using that by (metis set_empty set_sort)
  have "found_ok found"
    using masscan_fold_props(1) [OF nil, of hosts] h(2) ne by (auto simp: found_ok_def list_all_iff comp_def case_prod_unfold)
  moreover have "sorted (ports_of found ip)" by (simp add: h(2) ports_of_map)
  moreover have "set (ports_of found ip)
      = {p. ip \<noteq> [] \<and> (\<exists>h \<in> set hosts. mh_IP h = ip \<and> (\<exists>q \<in> set (mh_Ports h). open_tcp q \<and> mp_Port q = p))}"
    using masscan_fold_props(2) [of _ hosts "[]" ip] by (auto simp: h(2) ports_of_map)
  ultimately show ?thesis using that h(1) by blast
qed

section \<open>The cut of the output into writes\<close>

definition feed :: "string \<Rightarrow> 'f progress_watcher \<Rightarrow> 'f progress_watcher" where
  "feed p w = w\<lparr>pw_buf := pw_buf w @ p, pw_partial := pw_partial w @ p\<rparr>"

lemma watch_line_feed:
  "watch_line parse_float hundredths settable l (feed q w) = feed q (watch_line parse_float hundredths settable l w)"
  by (cases w) (simp add: watch_line_def feed_def split: option.splits)

lemma drain_done:
  "dropWhile (\<lambda>c. \<not> line_break c) (pw_partial w) = [] \<Longrightarrow> drain parse_float hundredths settable w = w"
  by (subst drain.simps) (simp only: list.case)

lemma drain_feed:
  "drain parse_float hundredths settable (feed q (drain parse_float hundredths settable w))
     = drain parse_float hundredths settable (feed q w)"
proof (induction parse_float hundredths settable w rule: drain.induct)
  case (1 parse_float hundredths settable w)
  let ?stop = "\<lambda>c. \<not> line_break c"
  show ?case
  proof (cases "dropWhile ?stop (pw_partial w)")
    case Nil
    then have "drain parse_float hundredths settable w = w" by (rule drain_done)
    then show ?thesis by simp
  next
    case (Cons c rest)
    let ?l = "takeWhile ?stop (pw_partial w)"
    let ?w = "watch_line parse_float hundredths settable ?l (w\<lparr>pw_partial := rest\<rparr>)"
    have p: "pw_partial w = ?l @ c # rest" using Cons by (metis takeWhile_dropWhile_id)
    have c: "line_break c" using Cons hd_dropWhile_not [of ?stop "pw_partial w"] by simp
    have d: "dropWhile ?stop (pw_partial w @ q) = c # rest @ q" "takeWhile ?stop (pw_partial w @ q) = ?l"
      using Cons c by (simp_all add: dropWhile_append takeWhile_append dropWhile_eq_Nil_conv) 
        (metis Cons dropWhile_eq_Nil_conv list.discI)+
    have step: "drain parse_float hundredths settable w = drain parse_float hundredths settable ?w"
      using Cons by (subst drain.simps) simp
    have "(feed q w)\<lparr>pw_partial := rest @ q\<rparr> = feed q (w\<lparr>pw_partial := rest\<rparr>)" by (cases w) (simp add: feed_def)
    then have "drain parse_float hundredths settable (feed q w)
        = drain parse_float hundredths settable (watch_line parse_float hundredths settable ?l (feed q (w\<lparr>pw_partial := rest\<rparr>)))"
      using d by (subst drain.simps) (simp add: feed_def)
    then have "drain parse_float hundredths settable (feed q w) = drain parse_float hundredths settable (feed q ?w)"
      by (simp only: watch_line_feed)
    then show ?thesis unfolding step using "1.IH" [OF Cons] by simp
  qed
qed

lemma watcher_Write_append:
  "watcher_Write parse_float hundredths settable q (watcher_Write parse_float hundredths settable p w)
     = watcher_Write parse_float hundredths settable (p @ q) w"
proof -
  have w: "watcher_Write parse_float hundredths settable p w = drain parse_float hundredths settable (feed p w)" for p w
    by (simp add: watcher_Write_def feed_def)
  have "feed q (feed p w) = feed (p @ q) w" by (simp add: feed_def)
  then show ?thesis unfolding w using drain_feed [of parse_float hundredths settable q "feed p w"] by simp
qed

lemma drain_partial: "list_all (\<lambda>c. \<not> line_break c) (pw_partial (drain parse_float hundredths settable w))"
proof (induction parse_float hundredths settable w rule: drain.induct)
  case (1 parse_float hundredths settable w)
  show ?case
  proof (cases "dropWhile (\<lambda>c. \<not> line_break c) (pw_partial w)")
    case Nil
    then have "drain parse_float hundredths settable w = w" by (rule drain_done)
    then show ?thesis using Nil by (simp add: list_all_iff dropWhile_eq_Nil_conv)
  next
    case (Cons c rest)
    then show ?thesis using "1.IH" [OF Cons] by (subst drain.simps) simp
  qed
qed

section \<open>Why a tool stopped\<close>

lemma toolFailure_props:
  "toolFailure stderr = [] \<longleftrightarrow> list_all (\<lambda>l. trim_space l = []) (split CHR 0x0A stderr)"
  "toolFailure stderr \<noteq> [] \<Longrightarrow> toolFailure stderr \<in> trim_space ` set (split CHR 0x0A stderr)"
  "l \<in> set (split CHR 0x0A stderr) \<Longrightarrow> names_failure (trim_space l) \<Longrightarrow> names_failure (toolFailure stderr)"
proof -
  let ?ls = "filter (\<lambda>t. t \<noteq> []) (map trim_space (split CHR 0x0A stderr))"
  have mem: "toolFailure stderr \<in> set ?ls" if ne: "?ls \<noteq> []"
  proof (cases "List.find names_failure ?ls")
    case None
    then have "toolFailure stderr = last ?ls" using ne unfolding toolFailure_def Let_def by simp
    then show ?thesis using last_in_set [OF ne] by simp
  next
    case (Some l)
    then have "toolFailure stderr = l" using ne unfolding toolFailure_def Let_def by simp
    moreover have "l \<in> set ?ls" using Some unfolding find_Some_iff by (metis nth_mem)
    ultimately show ?thesis by simp
  qed
  have nil: "?ls = [] \<longleftrightarrow> list_all (\<lambda>l. trim_space l = []) (split CHR 0x0A stderr)"
    by (auto simp: filter_empty_conv list_all_iff)
  have "toolFailure stderr = []" if "?ls = []" using that unfolding toolFailure_def Let_def by simp
  then show "toolFailure stderr = [] \<longleftrightarrow> list_all (\<lambda>l. trim_space l = []) (split CHR 0x0A stderr)"
    using mem nil by fastforce
  show "toolFailure stderr \<noteq> [] \<Longrightarrow> toolFailure stderr \<in> trim_space ` set (split CHR 0x0A stderr)"
    using mem \<open>?ls = [] \<Longrightarrow> toolFailure stderr = []\<close> by fastforce
  have empty: "\<not> names_failure []" by code_simp
  show "names_failure (toolFailure stderr)" if l: "l \<in> set (split CHR 0x0A stderr)" "names_failure (trim_space l)"
  proof -
    have m: "trim_space l \<in> set ?ls" using l empty by auto
    then obtain k where k: "List.find names_failure ?ls = Some k" "names_failure k"
      using l(2) by (cases "List.find names_failure ?ls") (auto simp: find_None_iff find_Some_iff)
    have "?ls \<noteq> []" using m by force
    then have "toolFailure stderr = k" using k(1) unfolding toolFailure_def Let_def by simp
    then show ?thesis using k(2) by simp
  qed
qed

end
