(* ===== verification/Workers.thy ===== *)
theory Workers
  imports Main "HOL-Library.Multiset"
begin

text \<open>
  \<open>workers\<close> of \<open>internal/netscan/sweep.go\<close>: a producer hands jobs to a fixed pool of goroutines over an unbuffered
  channel and stops when the context is done. The interleaving of the goroutines is a step relation: the producer
  hands a job to a goroutine that is free, a goroutine finishes its job, or the producer sees the context done and
  returns. Shown: the pool never works on more jobs than it has goroutines, no job is lost or run twice, the jobs
  handed out are a prefix of what the producer yields, every run ends, and it ends with every job done unless it
  was cancelled.
\<close>

record 'j pool =
  todo :: "'j list"
  busy :: "'j list"
  finished :: "'j list"
  stopped :: bool

definition slots :: "int \<Rightarrow> nat" where
  "slots n = (if n < 1 then 1 else nat n)"

definition pool_start :: "'j list \<Rightarrow> 'j pool" where
  "pool_start jobs = \<lparr>todo = jobs, busy = [], finished = [], stopped = False\<rparr>"

inductive pool_step :: "int \<Rightarrow> 'j pool \<Rightarrow> 'j pool \<Rightarrow> bool" where
  hand: "todo s = j # js \<Longrightarrow> \<not> stopped s \<Longrightarrow> length (busy s) < slots n
     \<Longrightarrow> pool_step n s (s\<lparr>todo := js, busy := busy s @ [j]\<rparr>)"
| finish: "busy s = xs @ j # ys \<Longrightarrow> pool_step n s (s\<lparr>busy := xs @ ys, finished := finished s @ [j]\<rparr>)"
| cancel: "todo s \<noteq> [] \<Longrightarrow> \<not> stopped s \<Longrightarrow> pool_step n s (s\<lparr>stopped := True\<rparr>)"

inductive_cases pool_stepE: "pool_step n s t"

inductive pool_reach :: "int \<Rightarrow> 'j list \<Rightarrow> 'j pool \<Rightarrow> bool" where
  start: "pool_reach n jobs (pool_start jobs)"
| more: "pool_reach n jobs s \<Longrightarrow> pool_step n s t \<Longrightarrow> pool_reach n jobs t"

text \<open>\<open>workers\<close> returns when the producer has returned and every goroutine is done.\<close>

definition pool_done :: "'j pool \<Rightarrow> bool" where
  "pool_done s \<longleftrightarrow> (todo s = [] \<or> stopped s) \<and> busy s = []"

definition pool_inv :: "int \<Rightarrow> 'j list \<Rightarrow> 'j pool \<Rightarrow> bool" where
  "pool_inv n jobs s \<longleftrightarrow> length (busy s) \<le> slots n
     \<and> (\<exists>handed. jobs = handed @ todo s \<and> mset handed = mset (busy s) + mset (finished s))"

lemma pool_step_inv: "pool_step n s t \<Longrightarrow> pool_inv n jobs s \<Longrightarrow> pool_inv n jobs t"
proof (induction rule: pool_step.induct)
  case (hand s j js n)
  then obtain handed where "jobs = handed @ j # js" "mset handed = mset (busy s) + mset (finished s)"
    by (auto simp: pool_inv_def)
  then show ?case using hand by (auto simp: pool_inv_def intro!: exI [of _ "handed @ [j]"])
next
  case (finish s xs j ys n)
  then show ?case by (auto simp: pool_inv_def)
next
  case (cancel s n)
  then show ?case by (auto simp: pool_inv_def)
qed

lemma pool_reach_inv: "pool_reach n jobs s \<Longrightarrow> pool_inv n jobs s"
proof (induction rule: pool_reach.induct)
  case (start n jobs)
  then show ?case by (simp add: pool_inv_def pool_start_def)
next
  case (more n jobs s t)
  then show ?case using pool_step_inv by blast
qed

lemma pool_reach_stopped: "pool_reach n jobs s \<Longrightarrow> stopped s \<Longrightarrow> todo s \<noteq> []"
  by (induction rule: pool_reach.induct) (auto simp: pool_start_def elim!: pool_stepE)

section \<open>Every run ends\<close>

definition pool_work :: "'j pool \<Rightarrow> nat" where
  "pool_work s = 2 * length (todo s) + length (busy s) + (if stopped s then 0 else 1)"

lemma pool_step_work: "pool_step n s t \<Longrightarrow> pool_work t < pool_work s"
  by (induction rule: pool_step.induct) (auto simp: pool_work_def)

lemma pool_step_wf: "wfp (\<lambda>t s. pool_step n s t)"
  by (rule wfp_if_convertible_to_nat [of _ pool_work]) (rule pool_step_work)

lemma pool_progress: "\<not> pool_done s \<Longrightarrow> length (busy s) \<le> slots n \<Longrightarrow> \<exists>t. pool_step n s t"
proof -
  assume nd: "\<not> pool_done s" and b: "length (busy s) \<le> slots n"
  show ?thesis
  proof (cases "busy s")
    case Nil
    then obtain j js where j: "todo s = j # js" "\<not> stopped s" using nd by (cases "todo s") (auto simp: pool_done_def)
    moreover have "length (busy s) < slots n" using Nil by (simp add: slots_def)
    ultimately show ?thesis using pool_step.hand [of s j js n] by auto
  next
    case (Cons j ys)
    then show ?thesis using pool_step.finish [of s "[]" j ys n] by auto
  qed
qed

lemma pool_done_all:
  assumes "pool_reach n jobs s" "pool_done s" "\<not> stopped s"
  shows "mset (finished s) = mset jobs"
proof -
  obtain handed where "jobs = handed @ todo s" "mset handed = mset (busy s) + mset (finished s)"
    using pool_reach_inv [OF assms(1)] by (auto simp: pool_inv_def)
  then show ?thesis using assms(2,3) by (simp add: pool_done_def)
qed

text \<open>From every state a run leads to the end, and no run goes on for ever.\<close>

lemma pool_finishes:
  assumes "pool_reach n jobs s"
  shows "\<exists>t. pool_reach n jobs t \<and> (pool_step n)\<^sup>*\<^sup>* s t \<and> pool_done t"
  using assms
proof (induction "pool_work s" arbitrary: s rule: less_induct)
  case less
  show ?case
  proof (cases "pool_done s")
    case False
    have "length (busy s) \<le> slots n" using pool_reach_inv [OF less.prems] by (simp add: pool_inv_def)
    then obtain t where t: "pool_step n s t" using pool_progress [OF False] by blast
    have "\<exists>u. pool_reach n jobs u \<and> (pool_step n)\<^sup>*\<^sup>* t u \<and> pool_done u"
      using pool_step_work [OF t] pool_reach.more [OF less.prems t] by (rule less.hyps)
    then show ?thesis using t by (meson converse_rtranclp_into_rtranclp)
  qed (use less.prems in blast)
qed

text \<open>A run of one goroutine does the jobs in the order the producer yields them.\<close>

lemma pool_sequential: "\<exists>s. pool_reach n jobs s \<and> pool_done s \<and> \<not> stopped s \<and> finished s = jobs"
proof -
  have "\<exists>s. pool_reach n jobs s \<and> todo s = ys \<and> busy s = [] \<and> \<not> stopped s \<and> finished s = xs" if "jobs = xs @ ys" for xs ys
    using that
  proof (induction xs arbitrary: ys rule: rev_induct)
    case Nil
    then show ?case using pool_reach.start [of n jobs] by (auto simp: pool_start_def)
  next
    case (snoc j xs)
    then obtain s where s: "pool_reach n jobs s" "todo s = j # ys" "busy s = []" "\<not> stopped s" "finished s = xs" by auto
    let ?t = "s\<lparr>todo := ys, busy := busy s @ [j]\<rparr>"
    have "pool_reach n jobs ?t"
      using s by (intro pool_reach.more [OF s(1)] pool_step.hand) (simp_all add: slots_def)
    then have "pool_reach n jobs (?t\<lparr>busy := [] @ [], finished := finished ?t @ [j]\<rparr>)"
      by (rule pool_reach.more) (rule pool_step.finish, simp add: s(3))
    then show ?case using s by auto
  qed
  from this [of jobs "[]"] show ?thesis by (auto simp: pool_done_def)
qed

end
