(* ===== verification/Probe.thy ===== *)
theory Probe
  imports Scan_Results Workers "HOL-Library.List_Lexorder"
begin

text \<open>
  The built-in prober of \<open>internal/netscan\<close> (\<open>probe.go\<close>) and the walk over a range with it (\<open>sweep.go\<close>). A connection
  is what it delivers: for each phase the blocks its reads return, a failed read or a passed deadline being the end
  of them. Dialling, the TLS handshake and name resolution are arguments. \<open>Scan\<close> and \<open>sweepBuiltin\<close> fold their
  callback over the jobs in the order the pool of the theory \<open>Workers\<close> finishes them. Shown: a response is bounded
  and one fixed request is all that is ever sent, only services that state a version become components, every port
  that answers is reported, and the hosts a sweep reports do not depend on the order in which they were probed.
\<close>

section \<open>Conversations\<close>

definition maxRead :: nat where
  "maxRead = 8 * 2 ^ 10"

text \<open>The loop of \<open>readSome\<close>: \<open>n\<close> bytes are in the buffer; a block with the flag set came with an error.\<close>

fun read_loop :: "nat \<Rightarrow> (string \<times> bool) list \<Rightarrow> string" where
  "read_loop n [] = []"
| "read_loop n ((block, failed) # blocks) =
     (if n < maxRead then
        (let got = take (maxRead - n) block in
         got @ (if failed then [] else read_loop (n + length got) blocks))
      else [])"

definition readSome :: "(string \<times> bool) list \<Rightarrow> string" where
  "readSome blocks = read_loop 0 blocks"

record conversation =
  cv_greeting :: "(string \<times> bool) list"
  cv_writable :: bool
  cv_answer :: "(string \<times> bool) list"

text \<open>\<open>net.JoinHostPort\<close>: a host with a colon is bracketed.\<close>

definition joinHostPort :: "string \<Rightarrow> string \<Rightarrow> string" where
  "joinHostPort host port =
     (if CHR '':'' \<in> set host then ''['' @ host @ '']:'' @ port else host @ '':'' @ port)"

definition crlf :: string where
  "crlf = [CHR 0x0D, CHR 0x0A]"

definition http_request :: "string \<Rightarrow> int \<Rightarrow> string" where
  "http_request host port =
     ''GET / HTTP/1.1'' @ crlf @ ''Host: '' @ joinHostPort host (Itoa port) @ crlf @ ''User-Agent: cvefeed-netscan/1'' @ crlf
       @ ''Accept: */*'' @ crlf @ ''Connection: close'' @ crlf @ crlf"

text \<open>\<open>converse\<close> answers with the banner and what it sent.\<close>

definition converse :: "conversation \<Rightarrow> string \<Rightarrow> int \<Rightarrow> string \<times> string" where
  "converse conn host port =
     (let b = readSome (cv_greeting conn) in
      if b \<noteq> [] then (b, [])
      else if \<not> cv_writable conn then ([], [])
      else (readSome (cv_answer conn), http_request host port))"

section \<open>Probing a port\<close>

text \<open>An error of the network carries the operation that failed, where it is a \<open>net.OpError\<close>.\<close>

datatype probe_error = OpError string | OtherError

definition isConnectFailure :: "probe_error \<Rightarrow> bool" where
  "isConnectFailure err = (case err of OpError op \<Rightarrow> op = ''dial'' | OtherError \<Rightarrow> False)"

definition tlsFirst :: "int \<Rightarrow> bool" where
  "tlsFirst p \<longleftrightarrow> p \<in> {443, 465, 636, 989, 990, 993, 995, 1443, 2376, 4443, 5986, 8443, 9443, 10443}"

text \<open>What a dial in the clear, and a dial with a handshake, come to: the connection, and the subject of the certificate.\<close>

record endpoint =
  ep_plain :: "probe_error + conversation"
  ep_tls :: "probe_error + conversation \<times> string"

definition probePlain :: "endpoint \<Rightarrow> string \<Rightarrow> int \<Rightarrow> probe_error + string \<times> string" where
  "probePlain e host port = map_sum id (\<lambda>conn. (fst (converse conn host port), [])) (ep_plain e)"

definition probeTLS :: "endpoint \<Rightarrow> string \<Rightarrow> int \<Rightarrow> probe_error + string \<times> string" where
  "probeTLS e host port = map_sum id (\<lambda>(conn, subject). (fst (converse conn host port), subject)) (ep_tls e)"

definition probe :: "endpoint \<Rightarrow> string \<Rightarrow> int \<Rightarrow> probe_error + string \<times> string" where
  "probe e host port =
     (if tlsFirst port then
        (case probeTLS e host port of
           Inr (banner, subject) \<Rightarrow> Inr (banner, subject)
         | Inl err \<Rightarrow> if \<not> isConnectFailure err then probePlain e host port else Inl err)
      else
        (case probePlain e host port of
           Inl err \<Rightarrow> Inl err
         | Inr (banner, _) \<Rightarrow>
             if Identify port banner \<noteq> None then Inr (banner, [])
             else
               (case probeTLS e host port of
                  Inl _ \<Rightarrow> Inr (banner, [])
                | Inr (tlsBanner, subject) \<Rightarrow>
                    if tlsBanner \<noteq> [] \<or> subject \<noteq> [] then
                      (if tlsBanner = [] then Inr (banner, subject) else Inr (tlsBanner, subject))
                    else Inr (banner, []))))"

section \<open>Scanning a host\<close>

definition tls_mark :: string where
  "tls_mark = [CHR '' '', CHR 0xC2, CHR 0xB7] @ '' tls: ''"

definition silent_reason :: string where
  "silent_reason = ''the port is open but nothing in its response names known software''"

text \<open>The callback of \<open>Scan\<close> on one port, given what the probe came to.\<close>

definition scan_port :: "int \<Rightarrow> probe_error + string \<times> string \<Rightarrow> Result \<Rightarrow> Result" where
  "scan_port port outcome res =
     (case outcome of
        Inl _ \<Rightarrow> res
      | Inr (banner, tlsSubject) \<Rightarrow>
          (let svcs = IdentifyAll port banner in
           if svcs \<noteq> [] then res\<lparr>rs_Open := rs_Open res @ map (\<lambda>svc. svc\<lparr>sv_TLS := tlsSubject\<rparr>) svcs\<rparr>
           else
             (case IdentifyTLS port tlsSubject of
                Some svc \<Rightarrow> res\<lparr>rs_Open := rs_Open res @ [svc]\<rparr>
              | None \<Rightarrow>
                  (let shown = (if tlsSubject \<noteq> [] then trim_space (truncateBanner banner @ tls_mark @ tlsSubject)
                                else truncateBanner banner)
                   in res\<lparr>rs_Unidentified := rs_Unidentified res
                        @ [\<lparr>un_Port = port, un_Banner = shown, un_Reason = silent_reason\<rparr>]\<rparr>))))"

text \<open>\<open>done\<close> are the ports in the order the pool finished them, \<open>lookup\<close> the first address of the host.\<close>

definition scan_host :: "(int \<Rightarrow> endpoint) \<Rightarrow> string option \<Rightarrow> string \<Rightarrow> int list \<Rightarrow> int list \<Rightarrow> Result" where
  "scan_host net addr host ports finished_ports =
     (let res = empty_result\<lparr>rs_Host := host, rs_Addr := (case addr of Some a \<Rightarrow> a | None \<Rightarrow> []), rs_Scanned := int (length ports)\<rparr> in
      sort_result (fold (\<lambda>port. scan_port port (probe (net port) host port)) finished_ports res))"

definition Scan :: "string option \<Rightarrow> (int \<Rightarrow> endpoint) \<Rightarrow> string option \<Rightarrow> string \<Rightarrow> int list \<Rightarrow> int list \<Rightarrow> string + Result" where
  "Scan cancelled net addr host ports finished_ports =
     (case cancelled of Some err \<Rightarrow> Inl err | None \<Rightarrow> Inr (scan_host net addr host ports finished_ports))"

section \<open>Inventory\<close>

definition service_component :: "string \<Rightarrow> Service \<Rightarrow> Component" where
  "service_component origin s =
     \<lparr>c_Name = sv_Product s, c_Version = sv_Version s, c_Vendor = sv_Vendor s, c_Ecosystem = [], c_PURL = [],
      c_CPE = service_CPE (Some s), c_Origin = origin\<rparr>"

definition result_Components :: "Result \<Rightarrow> Component list" where
  "result_Components r =
     map (\<lambda>s. service_component (''netscan:'' @ Itoa (sv_Port s)) s) (filter (\<lambda>s. Scannable (Some s)) (rs_Open r))"

text \<open>
  \<open>itoa\<close>: the loop writes the digits from the end of a buffer of eight bytes on, \<open>i\<close> of them still free; \<open>None\<close> is
  the panic of a ninth digit. A number below zero is written as nothing.
\<close>

fun itoa_loop :: "nat \<Rightarrow> int \<Rightarrow> string \<Rightarrow> string option" where
  "itoa_loop 0 n b = (if n > 0 then None else Some b)"
| "itoa_loop (Suc i) n b = (if n > 0 then itoa_loop i (n div 10) (digit_char (nat (n mod 10)) # b) else Some b)"

definition itoa :: "int \<Rightarrow> string option" where
  "itoa n = (if n = 0 then Some ''0'' else itoa_loop 8 n [])"

definition host_name :: "Result \<Rightarrow> string" where
  "host_name h = (if rs_Addr h = [] then rs_Host h else rs_Addr h)"

record Plan =
  pl_Discovery :: string
  pl_Identification :: string
  pl_Note :: string

record Sweep =
  sw_Target :: string
  sw_HostsTotal :: int
  sw_HostsUp :: int
  sw_Ports :: int
  sw_Hosts :: "Result list"
  sw_Plan :: Plan
  sw_Declined :: bool

definition sweep_component :: "Result \<Rightarrow> Service \<Rightarrow> Component option" where
  "sweep_component h svc =
     map_option (\<lambda>port. service_component (''netscan:'' @ host_name h @ '':'' @ port) svc) (itoa (sv_Port svc))"

definition sweep_Components :: "Sweep \<Rightarrow> Component list option" where
  "sweep_Components s =
     those (concat (map (\<lambda>h. map (sweep_component h) (filter (\<lambda>svc. Scannable (Some svc)) (rs_Open h))) (sw_Hosts s)))"

section \<open>Sweeping a range\<close>

definition sortHosts :: "Result list \<Rightarrow> Result list" where
  "sortHosts hosts = sort_key host_name hosts"

text \<open>The callback of \<open>sweepBuiltin\<close>: the first failure is kept, a host where nothing answered is not.\<close>

definition sweep_step :: "('j \<Rightarrow> string + Result) \<Rightarrow> 'j \<Rightarrow> string option \<times> Result list \<Rightarrow> string option \<times> Result list" where
  "sweep_step scan ip st =
     (case scan ip of
        Inl err \<Rightarrow> (case fst st of None \<Rightarrow> (Some err, snd st) | Some _ \<Rightarrow> st)
      | Inr res \<Rightarrow> if rs_Open res = [] \<and> rs_Unidentified res = [] then st else (fst st, snd st @ [res]))"

definition sweep_collect :: "string option \<Rightarrow> ('j \<Rightarrow> string + Result) \<Rightarrow> 'j list \<Rightarrow> string + Result list" where
  "sweep_collect cancelled scan finished_jobs =
     (case fold (sweep_step scan) finished_jobs (None, []) of (fail, hosts) \<Rightarrow>
        (case cancelled of
           Some err \<Rightarrow> Inl err
         | None \<Rightarrow> (case fail of Some err \<Rightarrow> Inl err | None \<Rightarrow> Inr (sortHosts hosts))))"

definition hostConcurrency :: "int \<Rightarrow> int" where
  "hostConcurrency opt = (if opt > 0 then opt else 16)"

section \<open>What is read and sent\<close>

lemma read_loop_props:
  "length (read_loop n blocks) \<le> maxRead - n" "\<exists>rest. concat (map fst blocks) = read_loop n blocks @ rest"
proof -
  have full: "read_loop n blocks = []" if "maxRead \<le> n" for n blocks using that by (cases blocks) auto
  show "length (read_loop n blocks) \<le> maxRead - n"
  proof (induction n blocks rule: read_loop.induct)
    case (2 n block failed blocks)
    let ?got = "take (maxRead - n) block"
    have got: "length ?got \<le> maxRead - n" by simp
    show ?case
    proof (cases "n < maxRead \<and> \<not> failed")
      case True
      then have "length (read_loop (n + length ?got) blocks) \<le> maxRead - (n + length ?got)"
        using "2.IH" [OF _ refl] by blast
      then have "length ?got + length (read_loop (n + length ?got) blocks) \<le> maxRead - n" using got True by linarith
      then show ?thesis using True unfolding read_loop.simps Let_def by simp
    next
      case False
      then show ?thesis using got by (auto simp: Let_def)
    qed
  qed simp
  show "\<exists>rest. concat (map fst blocks) = read_loop n blocks @ rest"
  proof (induction n blocks rule: read_loop.induct)
    case (2 n block failed blocks)
    let ?got = "take (maxRead - n) block"
    have b: "block = ?got @ drop (maxRead - n) block" by simp
    show ?case
    proof (cases "n < maxRead \<and> \<not> failed")
      case True
      then obtain rest where r: "concat (map fst blocks) = read_loop (n + length ?got) blocks @ rest"
        using "2.IH" [OF _ refl] by auto
      show ?thesis
      proof (cases "length block \<le> maxRead - n")
        case True
        then show ?thesis using r \<open>n < maxRead \<and> \<not> failed\<close> by (auto simp: Let_def)
      next
        case False
        then have "read_loop (n + length ?got) blocks = []" by (intro full) auto
        then have "read_loop n ((block, failed) # blocks) = ?got" using True by (simp add: Let_def)
        moreover have "concat (map fst ((block, failed) # blocks)) = ?got @ drop (maxRead - n) block @ concat (map fst blocks)"
          using b by (metis append.assoc concat.simps(2) fst_conv list.simps(9))
        ultimately show ?thesis by metis
      qed
    next
      case False
      then have "read_loop n ((block, failed) # blocks) = (if n < maxRead then ?got else [])" by (auto simp: Let_def)
      moreover have "concat (map fst ((block, failed) # blocks)) = ?got @ drop (maxRead - n) block @ concat (map fst blocks)"
        using b by (metis append.assoc concat.simps(2) fst_conv list.simps(9))
      ultimately show ?thesis by (metis append_Nil)
    qed
  qed simp
qed

lemma readSome_props: "length (readSome blocks) \<le> maxRead" "\<exists>rest. concat (map fst blocks) = readSome blocks @ rest"
  using read_loop_props [where n = 0] by (simp_all add: readSome_def)

lemma converse_props:
  "length (fst (converse conn host port)) \<le> maxRead"
  "snd (converse conn host port) = [] \<or> snd (converse conn host port) = http_request host port \<and> readSome (cv_greeting conn) = []"
  by (auto simp: converse_def Let_def readSome_props)

lemma probe_answers:
  assumes "ep_plain e = Inr conn" "\<And>err. ep_tls e = Inl err \<Longrightarrow> \<not> isConnectFailure err"
  shows "\<exists>banner subject. probe e host port = Inr (banner, subject)"
  using assms by (cases "ep_tls e") (auto simp: probe_def probePlain_def probeTLS_def Let_def split: prod.splits)

lemma probe_silent:
  assumes "ep_plain e = Inl err" "ep_tls e = Inl err'"
  shows "\<exists>err. probe e host port = Inl err"
  using assms by (auto simp: probe_def probePlain_def probeTLS_def)

section \<open>Every answer is reported\<close>

lemma IdentifyAll_port: "s \<in> set (IdentifyAll port banner) \<Longrightarrow> sv_Port s = port"
  by (erule IdentifyAll_from) (simp add: rule_service_def new_service_def)

definition result_ports :: "Result \<Rightarrow> int set" where
  "result_ports r = sv_Port ` set (rs_Open r) \<union> un_Port ` set (rs_Unidentified r)"

lemma scan_port_ports:
  "result_ports (scan_port port outcome res) = result_ports res \<union> (case outcome of Inl _ \<Rightarrow> {} | Inr _ \<Rightarrow> {port})"
proof (cases outcome)
  case (Inl e)
  then show ?thesis by (simp add: scan_port_def)
next
  case (Inr out)
  obtain banner subject where o: "out = (banner, subject)" by (cases out)
  show ?thesis
  proof (cases "IdentifyAll port banner = []")
    case False
    then have "sv_Port ` set (IdentifyAll port banner) = {port}"
      using IdentifyAll_port [of _ port banner] by (cases "IdentifyAll port banner") force+
    then have "sv_Port ` (\<lambda>svc. svc\<lparr>sv_TLS := subject\<rparr>) ` set (IdentifyAll port banner) = {port}"
      by (simp add: image_image)
    then show ?thesis using False Inr o by (simp add: scan_port_def Let_def result_ports_def image_Un Un_ac)
  next
    case True
    show ?thesis
    proof (cases "IdentifyTLS port subject")
      case None
      then show ?thesis using True Inr o by (simp add: scan_port_def Let_def result_ports_def)
    next
      case (Some svc)
      then have "sv_Port svc = port" by (rule IdentifyTLS_names)
      then show ?thesis using True Some Inr o by (simp add: scan_port_def Let_def result_ports_def)
    qed
  qed
qed

lemma scan_fold_ports:
  "result_ports (fold (\<lambda>port. scan_port port (outcome port)) ps res)
     = result_ports res \<union> {p \<in> set ps. \<exists>out. outcome p = Inr out}"
proof (induction ps arbitrary: res)
  case (Cons p ps)
  show ?case using Cons.IH [of "scan_port p (outcome p) res"] by (cases "outcome p") (auto simp: scan_port_ports)
qed simp

lemma scan_host_ports:
  "result_ports (scan_host net addr host ports finished_ports)
     = {p \<in> set finished_ports. \<exists>out. probe (net p) host p = Inr out}"
proof -
  have "result_ports (sort_result r) = result_ports r" for r by (simp add: result_ports_def sort_result_def)
  then show ?thesis by (simp add: scan_host_def Let_def scan_fold_ports) (simp add: result_ports_def empty_result_def)
qed

lemma scan_port_host: "rs_Host (scan_port port out r) = rs_Host r" "rs_Addr (scan_port port out r) = rs_Addr r"
  by (simp_all add: scan_port_def Let_def split: sum.splits prod.splits option.splits)

lemma scan_fold_host:
  "rs_Host (fold (\<lambda>p. scan_port p (outcome p)) ps r) = rs_Host r" "rs_Addr (fold (\<lambda>p. scan_port p (outcome p)) ps r) = rs_Addr r"
  by (induction ps arbitrary: r) (simp_all add: scan_port_host)

lemma scan_host_name: "host_name (scan_host net addr host ports finished_ports) = (case addr of None \<Rightarrow> host | Some a \<Rightarrow> if a = [] then host else a)"
  by (simp add: scan_host_def Let_def host_name_def sort_result_ports scan_fold_host empty_result_def split: option.splits)

section \<open>Components\<close>

definition open_from :: "(int \<Rightarrow> probe_error + string \<times> string) \<Rightarrow> Service \<Rightarrow> bool" where
  "open_from outcome s \<longleftrightarrow> (\<exists>banner subject. outcome (sv_Port s) = Inr (banner, subject)
     \<and> ((\<exists>t \<in> set (IdentifyAll (sv_Port s) banner). s = t\<lparr>sv_TLS := subject\<rparr>) \<or> IdentifyTLS (sv_Port s) subject = Some s))"

lemma scan_port_open:
  assumes "s \<in> set (rs_Open (scan_port port (outcome port) res))"
  shows "s \<in> set (rs_Open res) \<or> open_from outcome s"
proof (cases "s \<in> set (rs_Open res)")
  case False
  then obtain banner subject where o: "outcome port = Inr (banner, subject)"
    using assms by (cases "outcome port") (auto simp: scan_port_def)
  consider t where "t \<in> set (IdentifyAll port banner)" "s = t\<lparr>sv_TLS := subject\<rparr>" | "IdentifyTLS port subject = Some s"
    using assms o False by (auto simp: scan_port_def Let_def split: if_splits option.splits)
  then show ?thesis
  proof cases
    case 1
    then have "sv_Port s = port" using IdentifyAll_port by simp
    then show ?thesis using 1 o by (auto simp: open_from_def)
  next
    case 2
    then have "sv_Port s = port" by (rule IdentifyTLS_names)
    then show ?thesis using 2 o by (auto simp: open_from_def)
  qed
qed simp

lemma scan_fold_open:
  "s \<in> set (rs_Open (fold (\<lambda>port. scan_port port (outcome port)) ps res)) \<Longrightarrow> s \<in> set (rs_Open res) \<or> open_from outcome s"
proof (induction ps arbitrary: res)
  case (Cons p ps)
  then show ?case using scan_port_open [of s p outcome res] by (metis fold_simps(2))
qed simp

lemma scan_host_open:
  assumes "s \<in> set (rs_Open (scan_host net addr host ports finished_ports))"
  shows "open_from (\<lambda>p. probe (net p) host p) s"
proof -
  let ?f = "\<lambda>port. scan_port port (probe (net port) host port)"
  let ?res = "empty_result\<lparr>rs_Host := host, rs_Addr := (case addr of Some a \<Rightarrow> a | None \<Rightarrow> []), rs_Scanned := int (length ports)\<rparr>"
  have "scan_host net addr host ports finished_ports = sort_result (fold ?f finished_ports ?res)"
    unfolding scan_host_def Let_def by (rule refl)
  then have "s \<in> set (rs_Open (fold ?f finished_ports ?res))" using assms by (simp only: sort_result_ports)
  moreover have "rs_Open ?res = []" by (simp add: empty_result_def)
  ultimately show ?thesis using scan_fold_open [of s "\<lambda>p. probe (net p) host p" finished_ports ?res] by simp
qed

lemma rule_names: "r \<in> set banner_rules \<Longrightarrow> trim_space (br_vendor r) \<noteq> [] \<and> trim_space (br_product r) \<noteq> []"
proof -
  have "list_all (\<lambda>r. trim_space (br_vendor r) \<noteq> [] \<and> trim_space (br_product r) \<noteq> []) banner_rules"
    unfolding banner_rules_def rule_def by simp code_simp
  then show "r \<in> set banner_rules \<Longrightarrow> trim_space (br_vendor r) \<noteq> [] \<and> trim_space (br_product r) \<noteq> []"
    by (simp add: list_all_iff)
qed

lemma stated_trim: "looksLikeVersion v \<Longrightarrow> trim_space v \<noteq> []"
proof -
  assume v: "looksLikeVersion v"
  then obtain c w where c: "v = c # w" "CHR ''0'' \<le> c" "c \<le> CHR ''9''"
    by (cases v) (auto simp: looksLikeVersion_def split: if_splits)
  then have "\<not> is_space c" by (auto simp: is_space_def less_eq_char_def)
  then have "trim_left v = v" using c by (simp add: trim_left_def)
  moreover have "trim_right v \<noteq> []"
    using \<open>\<not> is_space c\<close> c by (auto simp: trim_right_def dropWhile_eq_Nil_conv)
  ultimately show ?thesis by (simp add: trim_space_def)
qed

text \<open>What a service of a scan that states a version rests on.\<close>

definition evidenced :: "(int \<Rightarrow> probe_error + string \<times> string) \<Rightarrow> Component \<Rightarrow> bool" where
  "evidenced outcome c \<longleftrightarrow> (\<exists>port banner subject. outcome port = Inr (banner, subject) \<and> c_Origin c = ''netscan:'' @ Itoa port
     \<and> piece_of (c_Version c) banner \<and> looksLikeVersion (c_Version c)
     \<and> parseCPE (c_CPE c) = Some (service_attrs ((new_service port)\<lparr>sv_Vendor := c_Vendor c, sv_Product := c_Name c, sv_Version := c_Version c\<rparr>)))"

lemma open_evidenced:
  assumes "open_from outcome s" "Scannable (Some s)"
  shows "evidenced outcome (service_component (''netscan:'' @ Itoa (sv_Port s)) s)"
proof -
  have v: "sv_Version s \<noteq> []" using assms(2) by (simp add: Scannable_def)
  obtain banner subject where o: "outcome (sv_Port s) = Inr (banner, subject)"
    and c: "(\<exists>t \<in> set (IdentifyAll (sv_Port s) banner). s = t\<lparr>sv_TLS := subject\<rparr>) \<or> IdentifyTLS (sv_Port s) subject = Some s"
    using assms(1) by (auto simp: open_from_def)
  have "IdentifyTLS (sv_Port s) subject \<noteq> Some s" using v IdentifyTLS_names by metis
  then obtain t where t: "t \<in> set (IdentifyAll (sv_Port s) banner)" "s = t\<lparr>sv_TLS := subject\<rparr>" using c by blast
  have tv: "piece_of (sv_Version s) banner" "looksLikeVersion (sv_Version s)"
    using IdentifyAll_version [OF t(1)] v t(2) by simp_all
  obtain r m where r: "r \<in> set banner_rules" "t = rule_service (sv_Port s) (trim_space banner) r m"
    using IdentifyAll_from [OF t(1)] by metis
  have "sv_Vendor t = br_vendor r" "sv_Product t = br_product r" unfolding r(2) by (simp_all add: rule_service_def)
  moreover have "sv_Vendor s = sv_Vendor t" "sv_Product s = sv_Product t" unfolding t(2) by simp_all
  ultimately have "sv_Vendor s = br_vendor r" "sv_Product s = br_product r" by simp_all
  then have "trim_space (sv_Vendor s) \<noteq> []" "trim_space (sv_Product s) \<noteq> []" using rule_names [OF r(1)] by simp_all
  then have "parseCPE (service_CPE (Some s)) = Some (service_attrs s)" using stated_trim [OF tv(2)] by (intro service_CPE_read)
  moreover have "service_attrs s = service_attrs ((new_service (sv_Port s))\<lparr>sv_Vendor := sv_Vendor s, sv_Product := sv_Product s, sv_Version := sv_Version s\<rparr>)"
    by (simp add: service_attrs_def)
  ultimately show ?thesis using o tv unfolding evidenced_def service_component_def by auto
qed

lemma scan_host_components:
  assumes "c \<in> set (result_Components (scan_host net addr host ports finished_ports))"
  shows "evidenced (\<lambda>p. probe (net p) host p) c"
  using assms open_evidenced scan_host_open by (auto simp: result_Components_def)

section \<open>The digits of a port\<close>

lemma itoa_loop_digits: "0 \<le> n \<Longrightarrow> n < 10 ^ i \<Longrightarrow> itoa_loop i n b = Some ((if n = 0 then [] else digits_of (nat n)) @ b)"
proof (induction i n b rule: itoa_loop.induct)
  case (2 i n b)
  show ?case
  proof (cases "n > 0")
    case True
    have ih: "itoa_loop i (n div 10) (digit_char (nat (n mod 10)) # b)
        = Some ((if n div 10 = 0 then [] else digits_of (nat (n div 10))) @ digit_char (nat (n mod 10)) # b)"
      using True 2(3) by (intro "2.IH") (auto simp: int_one_le_iff_zero_less div_less_iff_less_mult mult.commute)
    show ?thesis
    proof (cases "n < 10")
      case True
      then have "n div 10 = 0" "nat (n mod 10) = nat n" "nat n < 10" using \<open>n > 0\<close> by simp_all
      then show ?thesis using ih \<open>n > 0\<close> by (simp add: digits_of.simps [of "nat n"])
    next
      case False
      then have "n div 10 \<noteq> 0" "nat (n div 10) = nat n div 10" "nat (n mod 10) = nat n mod 10" "\<not> nat n < 10"
        by (auto simp: nat_div_distrib nat_mod_distrib)
      then show ?thesis using ih \<open>n > 0\<close> by (simp add: digits_of.simps [of "nat n"])
    qed
  qed (use 2(2) in simp)
qed simp

lemma itoa_Itoa: "0 \<le> n \<Longrightarrow> n < 10 ^ 8 \<Longrightarrow> itoa n = Some (Itoa n)"
proof (cases "n = 0")
  case True
  have "itoa 0 = Some (Itoa 0)" by code_simp
  then show ?thesis using True by simp
next
  case False
  assume "0 \<le> n" "n < 10 ^ 8"
  then show ?thesis using itoa_loop_digits [of n 8 "[]"] False by (simp add: itoa_def Itoa_def)
qed

section \<open>The order of the hosts\<close>

definition kept_result :: "string + Result \<Rightarrow> Result option" where
  "kept_result r =
     (case r of Inl _ \<Rightarrow> None | Inr res \<Rightarrow> if rs_Open res = [] \<and> rs_Unidentified res = [] then None else Some res)"

lemma kept_result_same: "kept_result (Inr r) = Some r' \<Longrightarrow> r' = r"
  by (simp add: kept_result_def split: if_splits)

lemma sweep_fold:
  "snd (fold (sweep_step scan) jobs st) = snd st @ List.map_filter (\<lambda>j. kept_result (scan j)) jobs"
  "fst (fold (sweep_step scan) jobs st) = None \<longleftrightarrow> fst st = None \<and> list_all (\<lambda>j. \<not> isl (scan j)) jobs"
proof -
  show "snd (fold (sweep_step scan) jobs st) = snd st @ List.map_filter (\<lambda>j. kept_result (scan j)) jobs"
    by (induction jobs arbitrary: st) (auto simp: sweep_step_def kept_result_def List.map_filter_simps split: sum.splits option.splits)
  show "fst (fold (sweep_step scan) jobs st) = None \<longleftrightarrow> fst st = None \<and> list_all (\<lambda>j. \<not> isl (scan j)) jobs"
    by (induction jobs arbitrary: st) (auto simp: sweep_step_def split: sum.splits option.splits)
qed

lemma map_filter_mset: "mset xs = mset ys \<Longrightarrow> mset (List.map_filter f xs) = mset (List.map_filter f ys)"
proof -
  assume m: "mset xs = mset ys"
  have "mset (List.map_filter f zs) = image_mset (\<lambda>x. the (f x)) (filter_mset (\<lambda>x. f x \<noteq> None) (mset zs))" for zs
    by (induction zs) (auto simp: List.map_filter_simps split: option.splits)
  then show ?thesis using m by simp
qed

lemma sweep_collect_order:
  assumes "mset jobs = mset order" "inj_on host_name (set (List.map_filter (\<lambda>j. kept_result (scan j)) jobs))"
    and "list_all (\<lambda>j. \<not> isl (scan j)) jobs"
  shows "sweep_collect None scan order = Inr (sortHosts (List.map_filter (\<lambda>j. kept_result (scan j)) jobs))"
proof -
  let ?h = "\<lambda>js. List.map_filter (\<lambda>j. kept_result (scan j)) js"
  have ok: "list_all (\<lambda>j. \<not> isl (scan j)) order" using assms(1,3) mset_eq_setD [OF assms(1)] by (simp add: list_all_iff)
  have m: "mset (?h order) = mset (?h jobs)" by (rule map_filter_mset [OF assms(1) [symmetric]])
  have "sort_key host_name (?h order) = sort_key host_name (?h jobs)"
  proof (rule sort_key_inj_key_eq)
    show "mset (?h order) = mset (sort_key host_name (?h jobs))" using m by simp
    have "set (?h order) = set (?h jobs)" by (rule mset_eq_setD [OF m])
    then show "inj_on host_name (set (?h order))" using assms(2) by simp
  qed simp
  then show ?thesis using ok sweep_fold [of scan order "(None, [])"]
    unfolding sweep_collect_def sortHosts_def by (auto split: prod.splits)
qed

end
