(* ===== verification/Scan_Plan.thy ===== *)
theory Scan_Plan
  imports Probe Targets
begin

text \<open>
  \<open>internal/netscan/strategy.go\<close>: the decisions of a scan. Which engine finds the ports, which names the software,
  what happens when one is missing, fails or reports nothing, and when the scan declines. The world a scanner asks
  is a record: which tools are installed, what running one comes to, what a port answers, the corpus and the
  ranking of ports. Progress reports are not modelled, and the context is cancelled for the whole scan or not at
  all. Shown: a target declined is not touched, the prober used as a fallback stays within its bound, an engine
  asked for by name is used or the scan fails, the report counts the hosts it lists and lists them in order, and a
  pass has between five minutes and six hours, except where the masscan estimate overflows.
\<close>

section \<open>Budgets\<close>

definition probeCount :: "int \<Rightarrow> int \<Rightarrow> int" where
  "probeCount hosts ports =
     (if hosts \<le> 0 \<or> ports \<le> 0 then 0
      else if hosts > maxInt div ports then maxInt
      else hosts * ports)"

definition maxBuiltinProbes :: int where
  "maxBuiltinProbes = 2 ^ 20"

definition accurateRate :: int where
  "accurateRate = 1000"

definition budget_limit :: int where
  "budget_limit = 6 * 3600 * second"

definition capBudget :: "int \<Rightarrow> int" where
  "capBudget seconds = (if seconds > budget_limit div second then budget_limit else int64 (seconds * second))"

definition nmapBudget :: "int \<Rightarrow> int \<Rightarrow> int" where
  "nmapBudget hosts ports = capBudget (int64 (probeCount hosts ports div 20 + 300))"

definition masscanBudget :: "targets \<Rightarrow> int \<Rightarrow> int \<Rightarrow> int" where
  "masscanBudget tg ports rate = capBudget (int64 (probeCount (Len tg) ports div max rate 1 + 60))"

section \<open>The world\<close>

record world =
  wd_hasNmap :: bool
  wd_hasMasscan :: bool
  wd_exec :: "string \<Rightarrow> string list \<Rightarrow> int \<Rightarrow> string \<times> string \<times> string option"
  wd_xml :: "string \<Rightarrow> string + nmap_host list"
  wd_json :: "string \<Rightarrow> string + masscan_host list"
  wd_net :: "string \<Rightarrow> int \<Rightarrow> endpoint"
  wd_lookup :: "string \<Rightarrow> string option"
  wd_cancelled :: "string option"
  wd_resolver :: "(string \<Rightarrow> string + string list) option"
  wd_ranked :: "int list"
  wd_addr :: "bool \<Rightarrow> nat \<Rightarrow> string"

record options =
  op_Engine :: string
  op_Rate :: int

definition ValidEngine :: "string \<Rightarrow> bool" where
  "ValidEngine e \<longleftrightarrow> e \<in> {''auto'', ''builtin'', ''nmap'', ''masscan''}"

text \<open>\<open>runTool\<close>: an execution comes to the standard output, the standard error and the error, if any.\<close>

definition runTool :: "world \<Rightarrow> string \<Rightarrow> string list \<Rightarrow> int \<Rightarrow> string + string" where
  "runTool w name args limit =
     (case wd_exec w name args limit of (out, stderr, failed) \<Rightarrow>
        (case failed of
           None \<Rightarrow> Inr out
         | Some err \<Rightarrow>
             (let msg = toolFailure stderr; shown = (if msg = [] then err else msg)
              in Inl (''netscan: '' @ name @ '': '' @ shown))))"

definition raw_sockets_note :: string where
  "raw_sockets_note = '': masscan needs raw sockets (run it with CAP_NET_RAW, e.g. docker run --cap-add=NET_RAW, or as root)''"

definition masscan_args :: "targets \<Rightarrow> int list \<Rightarrow> int \<Rightarrow> string list" where
  "masscan_args tg ports rate = [''-p'', portList ports, ''--rate'', Itoa rate, ''-oJ'', ''-'', ''--wait'', ''3'', tg_spec tg]"

definition effective_rate :: "options \<Rightarrow> int" where
  "effective_rate opt = (if op_Rate opt \<le> 0 then accurateRate else op_Rate opt)"

definition masscanSweep :: "world \<Rightarrow> options \<Rightarrow> targets \<Rightarrow> int list \<Rightarrow> string + (string \<times> int list) list" where
  "masscanSweep w opt tg ports =
     (let rate = effective_rate opt in
      case runTool w ''masscan'' (masscan_args tg ports rate) (masscanBudget tg (int (length ports)) rate) of
        Inl err \<Rightarrow> if has_text (to_lower err) ''permission denied'' then Inl (err @ raw_sockets_note) else Inl err
      | Inr out \<Rightarrow> parseMasscanHosts (wd_json w) out)"

definition nmap_args :: "string \<Rightarrow> int list \<Rightarrow> string list" where
  "nmap_args target ports = [''-sV'', ''-Pn'', ''-n'', ''-p'', portList ports, ''--open'', ''-oX'', ''-'', target]"

definition nmapRun :: "world \<Rightarrow> string \<Rightarrow> int \<Rightarrow> int list \<Rightarrow> string + Result list" where
  "nmapRun w target hosts ports =
     (case runTool w ''nmap'' (nmap_args target ports) (nmapBudget hosts (int (length ports))) of
        Inl err \<Rightarrow> Inl err
      | Inr out \<Rightarrow> parseNmapXML (wd_xml w) out)"

section \<open>Passes over a target\<close>

definition nmap_step :: "('j \<Rightarrow> string + Result list) \<Rightarrow> 'j \<Rightarrow> string option \<times> Result list \<Rightarrow> string option \<times> Result list" where
  "nmap_step pass f st =
     (case pass f of
        Inl err \<Rightarrow> (case fst st of None \<Rightarrow> (Some err, snd st) | Some _ \<Rightarrow> st)
      | Inr rs \<Rightarrow> (fst st, snd st @ rs))"

definition nmapSweep :: "world \<Rightarrow> targets \<Rightarrow> int list \<Rightarrow> (string \<times> int list) list \<Rightarrow> string + Result list" where
  "nmapSweep w tg ports found =
     (if found = [] then nmapRun w (tg_spec tg) (Len tg) ports
      else
        (case fold (nmap_step (\<lambda>(ip, ps). nmapRun w ip 1 ps)) found (None, []) of (fail, hosts) \<Rightarrow>
           (case wd_cancelled w of
              Some err \<Rightarrow> Inl err
            | None \<Rightarrow> (case fail of Some err \<Rightarrow> Inl err | None \<Rightarrow> Inr hosts))))"

definition scan_ip :: "world \<Rightarrow> string \<Rightarrow> int list \<Rightarrow> string + Result" where
  "scan_ip w ip ports = Scan (wd_cancelled w) (wd_net w ip) (wd_lookup w ip) ip ports ports"

definition sweepBuiltin :: "world \<Rightarrow> targets \<Rightarrow> int list \<Rightarrow> string + Result list" where
  "sweepBuiltin w tg ports = sweep_collect (wd_cancelled w) (\<lambda>ip. scan_ip w ip ports) (each (wd_addr w) tg)"

definition builtinFrom :: "world \<Rightarrow> targets \<Rightarrow> int list \<Rightarrow> (string \<times> int list) list \<Rightarrow> string + Result list" where
  "builtinFrom w tg ports found =
     (if found = [] then sweepBuiltin w tg ports
      else sweep_collect (wd_cancelled w) (\<lambda>(ip, ps). scan_ip w ip ps) found)"

text \<open>\<open>enrichUnidentified\<close>: one port of one host, then one host.\<close>

definition enrich_one :: "world \<Rightarrow> string \<Rightarrow> Unidentified \<Rightarrow> Service list \<times> Unidentified list \<Rightarrow> Service list \<times> Unidentified list" where
  "enrich_one w host u st =
     (case probeTLS (wd_net w host (un_Port u)) host (un_Port u) of
        Inl _ \<Rightarrow> (fst st, snd st @ [u])
      | Inr (_, subject) \<Rightarrow>
          if subject = [] then (fst st, snd st @ [u])
          else
            (case IdentifyTLS (un_Port u) subject of
               Some svc \<Rightarrow> (fst st @ [svc], snd st)
             | None \<Rightarrow> (fst st, snd st @ [u\<lparr>un_Banner := trim_space (un_Banner u @ tls_mark @ subject)\<rparr>])))"

definition enrich_host :: "world \<Rightarrow> Result \<Rightarrow> Result" where
  "enrich_host w h =
     (let host = host_name h in
      if host = [] then h
      else
        (case fold (enrich_one w host) (rs_Unidentified h) (rs_Open h, []) of (opened, kept) \<Rightarrow>
           h\<lparr>rs_Unidentified := kept, rs_Open := sort_key sv_Port opened\<rparr>))"

fun reconcileAll :: "(string \<Rightarrow> string + string list) option \<Rightarrow> Result list \<Rightarrow> string + Result list" where
  "reconcileAll resolver [] = Inr []"
| "reconcileAll resolver (h # hs) =
     (case reconcileVendors resolver h of
        Inl err \<Rightarrow> Inl err
      | Inr h' \<Rightarrow> map_sum id (\<lambda>out. h' # out) (reconcileAll resolver hs))"

definition confirmEmpty :: "world \<Rightarrow> targets \<Rightarrow> int list \<Rightarrow> string + Result list \<times> string \<times> nat" where
  "confirmEmpty w tg ports =
     (let sample = sampleHosts (wd_addr w) tg confirmHosts;
          found = map (\<lambda>ip. (ip, ports)) sample;
          fallback = map_sum id (\<lambda>hosts. (hosts, ''builtin'', length sample)) (builtinFrom w tg ports found)
      in if wd_hasNmap w then
           (case nmapSweep w tg ports found of
              Inr hosts \<Rightarrow> Inr (hosts, ''nmap -sV'', length sample)
            | Inl err \<Rightarrow> if wd_cancelled w \<noteq> None then Inl err else fallback)
         else fallback)"

section \<open>Notes\<close>

definition appendNote :: "string \<Rightarrow> string \<Rightarrow> string" where
  "appendNote a b = (if a = [] then b else a @ ''; '' @ b)"

definition add_note :: "string \<Rightarrow> Plan \<Rightarrow> Plan" where
  "add_note b plan = plan\<lparr>pl_Note := appendNote (pl_Note plan) b\<rparr>"

definition sampleNote :: "int \<Rightarrow> int \<Rightarrow> string" where
  "sampleNote sampled all_of =
     (if all_of \<le> 1 then ''it''
      else if sampled \<ge> all_of then ''all '' @ Itoa all_of @ '' addresses''
      else Itoa sampled @ '' of its '' @ Itoa all_of @ '' addresses'')"

definition masscanCaveat :: string where
  "masscanCaveat = ''discovery was a stateless sweep: it is fast enough to cross this range '' @
     ''but it drops replies, so an address listed as silent is not proven to be empty. '' @
     ''Re-run a narrower range with -engine nmap to be sure of one.''"

definition failed_masscan_note :: "string \<Rightarrow> string" where
  "failed_masscan_note err = ''masscan was available but failed ('' @ err @ ''); every address was examined directly instead''"

definition rate_note :: "int \<Rightarrow> string" where
  "rate_note rate = ''at '' @ Itoa rate @ '' packets per second rather than '' @ Itoa accurateRate
     @ '', and masscan loses ports as it speeds up: measured on one host, 23 ports found at '' @ Itoa accurateRate @ '' and 7 at 20000''"

definition also_nothing_note :: "string \<Rightarrow> string" where
  "also_nothing_note part = ''a direct check of the most common ports on '' @ part @ '' also found nothing''"

definition instead_note :: "string \<Rightarrow> string" where
  "instead_note part = ''the sweep found nothing and was wrong: a direct check of the same ports on '' @ part
     @ '' found services, so those are reported instead''"

definition set_aside_note :: "string \<Rightarrow> string" where
  "set_aside_note part = ''the sweep found nothing and was wrong: a direct check of the most common ports on '' @ part
     @ '' found services, so its answer was set aside and the whole target is examined directly instead''"

definition no_masscan_note :: string where
  "no_masscan_note = ''masscan is not installed, so only the ports named were looked at rather than '' @
     ''every port something is listening on; install it, or pass -ports all''"

definition failed_nmap_note :: "string \<Rightarrow> string" where
  "failed_nmap_note err = ''nmap was available but failed ('' @ err
     @ ''); the built-in prober was used instead, which reads only what a service volunteers''"

definition declined_note :: "targets \<Rightarrow> int \<Rightarrow> int \<Rightarrow> string \<Rightarrow> string" where
  "declined_note tg ports work examined =
     ''the built-in prober was the only engine left, and '' @ targets_String tg @ '' at '' @ Itoa ports @ '' ports is '' @ Itoa work
       @ '' connections, more than the '' @ Itoa maxBuiltinProbes @ '' it takes on as a fallback; '' @ examined
       @ ''. Install nmap or masscan, narrow the range or the port list, or pass -engine builtin to run it regardless''"

section \<open>The scan\<close>

datatype run_error = BadTarget target_error | EngineMissing string | ToolError string

definition finish_sweep :: "Sweep \<Rightarrow> Result list \<Rightarrow> Sweep" where
  "finish_sweep s hosts = s\<lparr>sw_Hosts := sortHosts hosts, sw_HostsUp := int (length hosts)\<rparr>"

text \<open>Every way out of the scan reconciles the vendors and fills in the counts.\<close>

definition deliver :: "world \<Rightarrow> Sweep \<Rightarrow> Result list \<Rightarrow> run_error + Sweep" where
  "deliver w sweep hosts =
     (case reconcileAll (wd_resolver w) hosts of Inl err \<Rightarrow> Inl (ToolError err) | Inr hs \<Rightarrow> Inr (finish_sweep sweep hs))"

text \<open>What discovery leaves for identification: the plan so far, the ports found and what a positive check covered.\<close>

datatype discovery = Settled "run_error + Sweep" | Found Plan "(string \<times> int list) list" "Result list"

definition empty_plan :: Plan where
  "empty_plan = \<lparr>pl_Discovery = [], pl_Identification = [], pl_Note = []\<rparr>"

text \<open>The branch in which masscan reported nothing at all.\<close>

definition doubt :: "world \<Rightarrow> targets \<Rightarrow> int list \<Rightarrow> Sweep \<Rightarrow> Plan \<Rightarrow> discovery" where
  "doubt w tg ports sweep plan =
     (let confirmPorts = TopPorts (wd_ranked w) defaultTopN in
      case confirmEmpty w tg confirmPorts of
        Inl cerr \<Rightarrow> Settled (Inl (ToolError cerr))
      | Inr (checked, via, n) \<Rightarrow>
          (let part = sampleNote (int n) (Len tg) in
           if checked = [] then
             Settled (Inr (finish_sweep
               (sweep\<lparr>sw_Plan := (add_note (also_nothing_note part) plan)\<lparr>pl_Identification := ''not needed: nothing answered''\<rparr>\<rparr>) []))
           else
             (let plan = plan\<lparr>pl_Discovery := ''masscan (found nothing), then direct''\<rparr> in
              if int n \<ge> Len tg \<and> samePorts confirmPorts ports then
                Settled (deliver w (sweep\<lparr>sw_Plan := (add_note (instead_note part) plan)\<lparr>pl_Identification := via\<rparr>\<rparr>) checked)
              else Found (add_note (set_aside_note part) plan) [] checked)))"

definition discover :: "world \<Rightarrow> options \<Rightarrow> string \<Rightarrow> targets \<Rightarrow> int list \<Rightarrow> Sweep \<Rightarrow> discovery" where
  "discover w opt engine tg ports sweep =
     (if \<not> (wd_hasMasscan w \<and> engine \<noteq> ''nmap'') then Found empty_plan [] []
      else
        (case masscanSweep w opt tg ports of
           Inl err \<Rightarrow>
             if engine = ''masscan'' then Settled (Inl (ToolError err))
             else Found (empty_plan\<lparr>pl_Note := failed_masscan_note err\<rparr>) [] []
         | Inr found \<Rightarrow>
             (let rate = effective_rate opt;
                  plan = add_note masscanCaveat (empty_plan\<lparr>pl_Discovery := ''masscan''\<rparr>);
                  plan = (if rate > accurateRate then add_note (rate_note rate) plan else plan)
              in if found = [] then doubt w tg ports sweep plan else Found plan found [])))"

definition settle_plan :: "world \<Rightarrow> string \<Rightarrow> Plan \<Rightarrow> Plan" where
  "settle_plan w engine plan =
     (if pl_Discovery plan \<noteq> [] then plan
      else
        (let direct = plan\<lparr>pl_Discovery := ''direct''\<rparr> in
         if \<not> wd_hasMasscan w \<and> engine \<noteq> ''nmap'' then add_note no_masscan_note direct else direct))"

text \<open>The last resort, which may decline.\<close>

definition fallback :: "world \<Rightarrow> targets \<Rightarrow> int list \<Rightarrow> Sweep \<Rightarrow> Plan \<Rightarrow> (string \<times> int list) list \<Rightarrow> Result list \<Rightarrow> run_error + Sweep" where
  "fallback w tg ports sweep plan found sampled =
     (let work = probeCount (Len tg) (int (length ports)) in
      if found = [] \<and> work > maxBuiltinProbes then
        (let examined = (if sampled \<noteq> [] then ''nothing beyond the addresses the direct check reached was examined''
                         else ''nothing was examined'')
         in deliver w (sweep\<lparr>sw_Plan := add_note (declined_note tg (int (length ports)) work examined)
                 (plan\<lparr>pl_Identification := ''not attempted''\<rparr>), sw_Declined := True\<rparr>) sampled)
      else
        (case builtinFrom w tg ports found of
           Inl err \<Rightarrow> Inl (ToolError err)
         | Inr hosts \<Rightarrow> deliver w (sweep\<lparr>sw_Plan := plan\<lparr>pl_Identification := ''builtin''\<rparr>\<rparr>) hosts))"

definition identification :: "world \<Rightarrow> string \<Rightarrow> targets \<Rightarrow> int list \<Rightarrow> Sweep \<Rightarrow> Plan \<Rightarrow> (string \<times> int list) list \<Rightarrow> Result list
    \<Rightarrow> run_error + Sweep" where
  "identification w engine tg ports sweep plan found sampled =
     (if wd_hasNmap w then
        (case nmapSweep w tg ports found of
           Inr hosts \<Rightarrow> deliver w (sweep\<lparr>sw_Plan := plan\<lparr>pl_Identification := ''nmap -sV''\<rparr>\<rparr>) (map (enrich_host w) hosts)
         | Inl err \<Rightarrow>
             if engine = ''nmap'' \<or> engine = ''masscan'' then Inl (ToolError err)
             else fallback w tg ports sweep (add_note (failed_nmap_note err) plan) found sampled)
      else fallback w tg ports sweep plan found sampled)"

definition new_sweep :: "targets \<Rightarrow> int list \<Rightarrow> Sweep" where
  "new_sweep tg ports = \<lparr>sw_Target = targets_String tg, sw_HostsTotal = Len tg, sw_HostsUp = 0, sw_Ports = int (length ports),
     sw_Hosts = [], sw_Plan = empty_plan, sw_Declined = False\<rparr>"

definition run_target :: "world \<Rightarrow> options \<Rightarrow> targets \<Rightarrow> int list \<Rightarrow> run_error + Sweep" where
  "run_target w opt tg ports =
     (let engine = (if op_Engine opt = [] then ''auto'' else op_Engine opt);
          sweep = new_sweep tg ports
      in if engine = ''masscan'' \<and> \<not> wd_hasMasscan w then Inl (EngineMissing ''masscan'')
         else if engine = ''nmap'' \<and> \<not> wd_hasNmap w then Inl (EngineMissing ''nmap'')
         else if engine = ''builtin'' then
           (case sweepBuiltin w tg ports of
              Inl err \<Rightarrow> Inl (ToolError err)
            | Inr hosts \<Rightarrow> deliver w (sweep\<lparr>sw_Plan := empty_plan\<lparr>pl_Discovery := ''builtin'', pl_Identification := ''builtin''\<rparr>\<rparr>) hosts)
         else
           (case discover w opt engine tg ports sweep of
              Settled r \<Rightarrow> r
            | Found plan found sampled \<Rightarrow> identification w engine tg ports sweep (settle_plan w engine plan) found sampled))"

definition Run_scan :: "(string \<Rightarrow> target_error + targets) \<Rightarrow> world \<Rightarrow> options \<Rightarrow> string \<Rightarrow> int list \<Rightarrow> run_error + Sweep" where
  "Run_scan parse w opt target ports =
     (case parse target of Inl e \<Rightarrow> Inl (BadTarget e) | Inr tg \<Rightarrow> run_target w opt tg ports)"

section \<open>The bounds of a pass\<close>

lemma probeCount_bounds: "0 \<le> probeCount hosts ports" "probeCount hosts ports \<le> maxInt"
proof -
  have "hosts * ports \<le> maxInt" if "0 < ports" "\<not> hosts > maxInt div ports"
  proof -
    have "hosts * ports \<le> maxInt div ports * ports" using that by (intro mult_right_mono) simp_all
    also have "\<dots> \<le> maxInt" using that(1) by (metis div_mult_mod_eq le_add_same_cancel1 pos_mod_sign)
    finally show ?thesis .
  qed
  then show "0 \<le> probeCount hosts ports" "probeCount hosts ports \<le> maxInt"
    by (auto simp: probeCount_def maxInt_def)
qed

lemma probeCount_saturates: "0 < hosts \<Longrightarrow> 0 < ports \<Longrightarrow> probeCount hosts ports = min (hosts * ports) maxInt"
proof -
  assume h: "0 < hosts" and p: "0 < ports"
  show ?thesis
  proof (cases "hosts > maxInt div ports")
    case True
    have "maxInt < (maxInt div ports + 1) * ports"
    proof -
      have "maxInt div ports * ports + maxInt mod ports = maxInt" by (rule div_mult_mod_eq)
      moreover have "maxInt mod ports < ports" using p by simp
      moreover have "(maxInt div ports + 1) * ports = maxInt div ports * ports + ports" by (simp add: distrib_right)
      ultimately show ?thesis by linarith
    qed
    also have "\<dots> \<le> hosts * ports" using True p by (intro mult_right_mono) simp_all
    finally show ?thesis using True h p by (simp add: probeCount_def)
  next
    case False
    then show ?thesis using h p probeCount_bounds(2) [of hosts ports] by (simp add: probeCount_def)
  qed
qed

lemma capBudget_bounds:
  assumes "0 \<le> seconds"
  shows "min (seconds * second) budget_limit \<le> capBudget seconds" "capBudget seconds \<le> budget_limit"
proof -
  have "int64 (seconds * second) = seconds * second \<and> seconds * second \<le> budget_limit" if "\<not> seconds > budget_limit div second"
    using that assms by (simp add: budget_limit_def second_def int64_def)
  then show "min (seconds * second) budget_limit \<le> capBudget seconds" "capBudget seconds \<le> budget_limit"
    by (auto simp: capBudget_def)
qed

lemma nmapBudget_bounds: "300 * second \<le> nmapBudget hosts ports" "nmapBudget hosts ports \<le> budget_limit"
proof -
  let ?s = "probeCount hosts ports div 20 + 300"
  have b: "0 \<le> probeCount hosts ports" "probeCount hosts ports \<le> maxInt" by (rule probeCount_bounds)+
  then have "300 \<le> ?s" "?s < 2 ^ 63" by (simp_all add: maxInt_def)
  then have "int64 ?s = ?s" "300 \<le> ?s" by (simp_all add: int64_id)
  moreover have "300 * second \<le> budget_limit" by (simp add: second_def budget_limit_def)
  moreover have "300 * second \<le> ?s * second" using \<open>300 \<le> ?s\<close> by (simp add: second_def)
  ultimately show "300 * second \<le> nmapBudget hosts ports" "nmapBudget hosts ports \<le> budget_limit"
    using capBudget_bounds [of ?s] by (simp_all add: nmapBudget_def)
qed

lemma masscanBudget_bounds:
  assumes "rate \<noteq> 1 \<and> 0 < rate \<or> probeCount (Len tg) ports \<le> maxInt - 60"
  shows "60 * second \<le> masscanBudget tg ports rate" "masscanBudget tg ports rate \<le> budget_limit"
proof -
  let ?n = "probeCount (Len tg) ports"
  let ?s = "?n div max rate 1 + 60"
  have b: "0 \<le> ?n" "?n \<le> maxInt" by (rule probeCount_bounds)+
  have "?n div max rate 1 \<le> maxInt - 60"
  proof (cases "rate \<noteq> 1 \<and> 0 < rate")
    case True
    then have "?n div max rate 1 \<le> ?n div 2" using b(1) by (intro zdiv_mono2) auto
    also have "\<dots> \<le> maxInt - 60" using b(2) by (simp add: maxInt_def)
    finally show ?thesis .
  next
    case False
    have "?n div max rate 1 \<le> ?n div 1" using b(1) by (intro zdiv_mono2) auto
    moreover have "?n \<le> maxInt - 60" using False assms by blast
    ultimately show ?thesis by simp
  qed
  moreover have "0 \<le> ?n div max rate 1" using b(1) by (simp add: pos_imp_zdiv_nonneg_iff)
  ultimately have s: "60 \<le> ?s" "int64 ?s = ?s" by (simp_all add: maxInt_def int64_id)
  moreover have "60 * second \<le> budget_limit" by (simp add: second_def budget_limit_def)
  moreover have "60 * second \<le> ?s * second" using s(1) by (simp add: second_def)
  ultimately show "60 * second \<le> masscanBudget tg ports rate" "masscanBudget tg ports rate \<le> budget_limit"
    using capBudget_bounds [of ?s] by (simp_all add: masscanBudget_def)
qed

text \<open>A block of more than forty host bits at a packet a second: the estimate wraps to 59 seconds.\<close>

lemma masscanBudget_overflow: "Len tg = maxInt \<Longrightarrow> masscanBudget tg 1 1 = 59 * second"
  by (simp add: masscanBudget_def probeCount_def capBudget_def int64_def maxInt_def second_def budget_limit_def)

section \<open>Reports\<close>

lemma reconcileAll_hosts: "reconcileAll resolver hs = Inr out \<Longrightarrow> list_all2 (\<lambda>h h'. reconcileVendors resolver h = Inr h') hs out"
proof (induction hs arbitrary: out)
  case (Cons h hs)
  then obtain h' rest where "reconcileVendors resolver h = Inr h'" "reconcileAll resolver hs = Inr rest" "out = h' # rest"
    by (cases "reconcileAll resolver hs") (auto split: sum.splits)
  then show ?case using Cons.IH by simp
qed simp

definition reported :: "targets \<Rightarrow> int list \<Rightarrow> Sweep \<Rightarrow> bool" where
  "reported tg ports s \<longleftrightarrow> sw_Target s = targets_String tg \<and> sw_HostsTotal s = Len tg \<and> sw_Ports s = int (length ports)
     \<and> sw_HostsUp s = int (length (sw_Hosts s)) \<and> sorted (map host_name (sw_Hosts s))"

lemma deliver_props:
  assumes "deliver w sweep hosts = Inr s"
  shows "sw_Plan s = sw_Plan sweep" "sw_Declined s = sw_Declined sweep" "length (sw_Hosts s) = length hosts"
    "sw_Target sweep = targets_String tg \<Longrightarrow> sw_HostsTotal sweep = Len tg \<Longrightarrow> sw_Ports sweep = int (length ports) \<Longrightarrow> reported tg ports s"
proof -
  obtain hs where hs: "reconcileAll (wd_resolver w) hosts = Inr hs" "s = finish_sweep sweep hs"
    using assms by (auto simp: deliver_def split: sum.splits)
  have "length hs = length hosts" using list_all2_lengthD [OF reconcileAll_hosts [OF hs(1)]] by simp
  then show "sw_Plan s = sw_Plan sweep" "sw_Declined s = sw_Declined sweep" "length (sw_Hosts s) = length hosts"
    "sw_Target sweep = targets_String tg \<Longrightarrow> sw_HostsTotal sweep = Len tg \<Longrightarrow> sw_Ports sweep = int (length ports) \<Longrightarrow> reported tg ports s"
    using hs(2) by (simp_all add: finish_sweep_def sortHosts_def reported_def)
qed

text \<open>The ways a scan that succeeds can have gone.\<close>

definition from_pass :: "world \<Rightarrow> Sweep \<Rightarrow> (Sweep \<Rightarrow> bool) \<Rightarrow> Sweep \<Rightarrow> bool" where
  "from_pass w base P s \<longleftrightarrow> (\<exists>sweep hosts. deliver w sweep hosts = Inr s \<and> sw_Target sweep = sw_Target base
     \<and> sw_HostsTotal sweep = sw_HostsTotal base \<and> sw_Ports sweep = sw_Ports base \<and> P sweep)"

lemma from_passI:
  "deliver w sweep hosts = Inr s \<Longrightarrow> sw_Target sweep = sw_Target base \<Longrightarrow> sw_HostsTotal sweep = sw_HostsTotal base
     \<Longrightarrow> sw_Ports sweep = sw_Ports base \<Longrightarrow> P sweep \<Longrightarrow> from_pass w base P s"
  by (auto simp: from_pass_def)

lemma from_pass_props:
  assumes "from_pass w (new_sweep tg ports) P s"
  shows "reported tg ports s" "\<exists>sweep. P sweep \<and> sw_Plan s = sw_Plan sweep \<and> sw_Declined s = sw_Declined sweep"
  using assms deliver_props by (auto simp: from_pass_def new_sweep_def)

definition plan_is :: "bool \<Rightarrow> string \<Rightarrow> string list \<Rightarrow> Sweep \<Rightarrow> bool" where
  "plan_is declined ident found_by sweep \<longleftrightarrow> sw_Declined sweep = declined \<and> pl_Identification (sw_Plan sweep) = ident
     \<and> pl_Discovery (sw_Plan sweep) \<in> set found_by"

lemma add_note_simps [simp]: "pl_Discovery (add_note b p) = pl_Discovery p" "pl_Identification (add_note b p) = pl_Identification p"
  by (simp_all add: add_note_def)

lemma fallback_cases:
  assumes "fallback w tg ports sweep plan found sampled = Inr s" "\<not> sw_Declined sweep"
  shows "(found = [] \<and> probeCount (Len tg) (int (length ports)) > maxBuiltinProbes
        \<and> from_pass w sweep (plan_is True ''not attempted'' [pl_Discovery plan]) s)
    \<or> ((found \<noteq> [] \<or> probeCount (Len tg) (int (length ports)) \<le> maxBuiltinProbes)
        \<and> from_pass w sweep (plan_is False ''builtin'' [pl_Discovery plan]) s)"
proof (cases "found = [] \<and> probeCount (Len tg) (int (length ports)) > maxBuiltinProbes")
  case True
  then obtain sw where "deliver w sw sampled = Inr s" "sw_Target sw = sw_Target sweep" "sw_HostsTotal sw = sw_HostsTotal sweep"
      "sw_Ports sw = sw_Ports sweep" "plan_is True ''not attempted'' [pl_Discovery plan] sw"
    using assms unfolding fallback_def Let_def by (auto simp: plan_is_def intro: that)
  then show ?thesis using True by (auto intro: from_passI)
next
  case False
  then obtain hosts where d: "deliver w (sweep\<lparr>sw_Plan := plan\<lparr>pl_Identification := ''builtin''\<rparr>\<rparr>) hosts = Inr s"
    using assms(1) unfolding fallback_def Let_def by (auto split: sum.splits)
  have "from_pass w sweep (plan_is False ''builtin'' [pl_Discovery plan]) s"
    by (rule from_passI [OF d]) (use assms(2) in \<open>simp_all add: plan_is_def\<close>)
  then show ?thesis using False by auto
qed

lemma identification_cases:
  assumes "identification w engine tg ports sweep plan found sampled = Inr s" "\<not> sw_Declined sweep"
  shows "(wd_hasNmap w \<and> from_pass w sweep (plan_is False ''nmap -sV'' [pl_Discovery plan]) s)
    \<or> (\<not> (wd_hasNmap w \<and> engine \<in> {''nmap'', ''masscan''})
        \<and> ((found = [] \<and> probeCount (Len tg) (int (length ports)) > maxBuiltinProbes
              \<and> from_pass w sweep (plan_is True ''not attempted'' [pl_Discovery plan]) s)
           \<or> ((found \<noteq> [] \<or> probeCount (Len tg) (int (length ports)) \<le> maxBuiltinProbes)
              \<and> from_pass w sweep (plan_is False ''builtin'' [pl_Discovery plan]) s)))"
proof (cases "wd_hasNmap w")
  case False
  then have "fallback w tg ports sweep plan found sampled = Inr s" using assms(1) by (simp add: identification_def)
  from fallback_cases [OF this assms(2)] show ?thesis using False by blast
next
  case True
  show ?thesis
  proof (cases "nmapSweep w tg ports found")
    case (Inl err)
    then have f: "fallback w tg ports sweep (add_note (failed_nmap_note err) plan) found sampled = Inr s" "engine \<notin> {''nmap'', ''masscan''}"
      using assms(1) True by (auto simp: identification_def split: if_splits)
    from fallback_cases [OF f(1) assms(2)] show ?thesis using f(2) unfolding add_note_simps by blast
  next
    case (Inr hosts)
    then have d: "deliver w (sweep\<lparr>sw_Plan := plan\<lparr>pl_Identification := ''nmap -sV''\<rparr>\<rparr>) (map (enrich_host w) hosts) = Inr s"
      using assms(1) True by (simp add: identification_def)
    have "from_pass w sweep (plan_is False ''nmap -sV'' [pl_Discovery plan]) s"
      by (rule from_passI [OF d]) (use assms(2) in \<open>simp_all add: plan_is_def\<close>)
    then show ?thesis using True by blast
  qed
qed

lemma sampleHosts_confirm: "length (sampleHosts addr tg confirmHosts) \<le> 16"
  using sampleHosts_take [of confirmHosts addr tg] by (simp add: confirmHosts_def)

lemma confirmEmpty_via:
  "confirmEmpty w tg ports = Inr (checked, via, n) \<Longrightarrow> via \<in> {''nmap -sV'', ''builtin''} \<and> (via = ''nmap -sV'' \<longrightarrow> wd_hasNmap w) \<and> n \<le> 16"
  unfolding confirmEmpty_def Let_def using sampleHosts_confirm [of "wd_addr w" tg]
  by (cases "builtinFrom w tg ports (map (\<lambda>ip. (ip, ports)) (sampleHosts (wd_addr w) tg confirmHosts))")
    (auto split: if_splits sum.splits)

definition masscan_labels :: "string list" where
  "masscan_labels = [''masscan'', ''masscan (found nothing), then direct'']"

text \<open>What is known of a scan that settled after discovery.\<close>

definition settled_plan :: "world \<Rightarrow> targets \<Rightarrow> int list \<Rightarrow> Sweep \<Rightarrow> bool" where
  "settled_plan w tg ports s \<longleftrightarrow> \<not> sw_Declined s \<and> pl_Discovery (sw_Plan s) \<in> set masscan_labels
     \<and> (pl_Identification (sw_Plan s) = ''nmap -sV'' \<longrightarrow> wd_hasNmap w)
     \<and> pl_Identification (sw_Plan s) \<in> {''nmap -sV'', ''builtin'', ''not needed: nothing answered''}
     \<and> (pl_Identification (sw_Plan s) = ''builtin'' \<longrightarrow> probeCount (Len tg) (int (length ports)) \<le> maxBuiltinProbes)"

lemma small_check:
  assumes "int n \<ge> Len tg" "n \<le> 16" "samePorts (TopPorts ranked defaultTopN) ports"
  shows "probeCount (Len tg) (int (length ports)) \<le> maxBuiltinProbes"
proof -
  have "length ports \<le> 1000" using assms(3) TopPorts_props [of ranked defaultTopN] by (auto simp: samePorts_eq defaultTopN_def)
  moreover have "Len tg \<le> 16" using assms(1,2) by simp
  ultimately have m: "0 < Len tg \<Longrightarrow> Len tg * int (length ports) \<le> 16 * 1000" by (intro mult_mono) auto
  show ?thesis
  proof (cases "0 < Len tg \<and> 0 < int (length ports)")
    case True
    then have "probeCount (Len tg) (int (length ports)) \<le> 16 * 1000" using m probeCount_saturates by simp
    then show ?thesis by (simp add: maxBuiltinProbes_def)
  next
    case False
    then show ?thesis by (auto simp: probeCount_def maxBuiltinProbes_def)
  qed
qed

lemma doubt_cases:
  assumes "pl_Discovery plan = ''masscan''"
  shows "(\<exists>s. doubt w tg ports (new_sweep tg ports) plan = Settled (Inr s)
          \<and> reported tg ports s \<and> settled_plan w tg ports s)
    \<or> (\<exists>e. doubt w tg ports (new_sweep tg ports) plan = Settled (Inl e))
    \<or> (\<exists>p checked. doubt w tg ports (new_sweep tg ports) plan = Found p [] checked \<and> pl_Discovery p \<in> set masscan_labels)"
proof (cases "confirmEmpty w tg (TopPorts (wd_ranked w) defaultTopN)")
  case (Inl e)
  then show ?thesis by (simp add: doubt_def Let_def)
next
  case (Inr c)
  obtain checked via n where c: "c = (checked, via, n)" by (cases c)
  note via = confirmEmpty_via [OF Inr [unfolded c]]
  show ?thesis
  proof (cases "checked = []")
    case True
    let ?s = "finish_sweep ((new_sweep tg ports)\<lparr>sw_Plan := (add_note (also_nothing_note (sampleNote (int n) (Len tg))) plan)
        \<lparr>pl_Identification := ''not needed: nothing answered''\<rparr>\<rparr>) []"
    have "doubt w tg ports (new_sweep tg ports) plan = Settled (Inr ?s)" using Inr c True by (simp add: doubt_def Let_def)
    moreover have "reported tg ports ?s" by (simp add: reported_def finish_sweep_def new_sweep_def sortHosts_def)
    moreover have "settled_plan w tg ports ?s" using assms by (simp add: settled_plan_def finish_sweep_def new_sweep_def masscan_labels_def)
    ultimately show ?thesis by blast
  next
    case False
    let ?p = "plan\<lparr>pl_Discovery := ''masscan (found nothing), then direct''\<rparr>"
    show ?thesis
    proof (cases "int n \<ge> Len tg \<and> samePorts (TopPorts (wd_ranked w) defaultTopN) ports")
      case True
      let ?sw = "(new_sweep tg ports)\<lparr>sw_Plan := (add_note (instead_note (sampleNote (int n) (Len tg))) ?p)\<lparr>pl_Identification := via\<rparr>\<rparr>"
      have d: "doubt w tg ports (new_sweep tg ports) plan = Settled (deliver w ?sw checked)"
        using Inr c True False by (simp add: doubt_def Let_def)
      show ?thesis
      proof (cases "deliver w ?sw checked")
        case (Inr s)
        have "reported tg ports s" using deliver_props(4) [OF Inr, of tg ports] by (simp add: new_sweep_def)
        moreover have "probeCount (Len tg) (int (length ports)) \<le> maxBuiltinProbes" using True via small_check by blast
        then have "settled_plan w tg ports s"
          using via deliver_props(1,2) [OF Inr] by (auto simp: settled_plan_def new_sweep_def masscan_labels_def)
        moreover have "doubt w tg ports (new_sweep tg ports) plan = Settled (Inr s)" unfolding d Inr by (rule refl)
        ultimately show ?thesis by blast
      qed (use d in auto)
    next
      case False
      then have "doubt w tg ports (new_sweep tg ports) plan = Found (add_note (set_aside_note (sampleNote (int n) (Len tg))) ?p) [] checked"
        using Inr c \<open>checked \<noteq> []\<close> by (auto simp: doubt_def Let_def)
      then show ?thesis by (auto simp: masscan_labels_def)
    qed
  qed
qed

lemma discover_cases:
  "(\<exists>s. discover w opt engine tg ports (new_sweep tg ports) = Settled (Inr s)
      \<and> reported tg ports s \<and> settled_plan w tg ports s \<and> wd_hasMasscan w \<and> engine \<noteq> ''nmap'')
   \<or> (\<exists>e. discover w opt engine tg ports (new_sweep tg ports) = Settled (Inl e))
   \<or> (\<exists>p. discover w opt engine tg ports (new_sweep tg ports) = Found p [] []
        \<and> pl_Discovery p = [] \<and> (engine = ''masscan'' \<longrightarrow> \<not> wd_hasMasscan w))
   \<or> (\<exists>p found sampled. discover w opt engine tg ports (new_sweep tg ports) = Found p found sampled
        \<and> pl_Discovery p \<in> set masscan_labels \<and> wd_hasMasscan w \<and> engine \<noteq> ''nmap''
        \<and> (found \<noteq> [] \<longrightarrow> masscanSweep w opt tg ports = Inr found))"
proof (cases "wd_hasMasscan w \<and> engine \<noteq> ''nmap''")
  case False
  then show ?thesis by (auto simp: discover_def empty_plan_def)
next
  case True
  show ?thesis
  proof (cases "masscanSweep w opt tg ports")
    case (Inl err)
    then show ?thesis using True by (auto simp: discover_def empty_plan_def)
  next
    case (Inr found)
    let ?p0 = "add_note masscanCaveat (empty_plan\<lparr>pl_Discovery := ''masscan''\<rparr>)"
    let ?p = "if effective_rate opt > accurateRate then add_note (rate_note (effective_rate opt)) ?p0 else ?p0"
    have dp: "pl_Discovery ?p = ''masscan''" by simp
    have eq: "discover w opt engine tg ports (new_sweep tg ports)
        = (if found = [] then doubt w tg ports (new_sweep tg ports) ?p else Found ?p found [])"
      using True Inr unfolding discover_def Let_def by simp
    show ?thesis
    proof (cases "found = []")
      case False
      then have "discover w opt engine tg ports (new_sweep tg ports) = Found ?p found []" using eq by simp
      moreover have "pl_Discovery ?p \<in> set masscan_labels" using dp by (simp add: masscan_labels_def)
      ultimately show ?thesis using True Inr by blast
    next
      case nothing: True
      then have "discover w opt engine tg ports (new_sweep tg ports) = doubt w tg ports (new_sweep tg ports) ?p" using eq by simp
      then show ?thesis using doubt_cases [OF dp, of w tg ports] True by metis
    qed
  qed
qed

definition accounted :: "world \<Rightarrow> options \<Rightarrow> targets \<Rightarrow> int list \<Rightarrow> Sweep \<Rightarrow> bool" where
  "accounted w opt tg ports s \<longleftrightarrow> reported tg ports s
     \<and> (op_Engine opt = ''nmap'' \<longrightarrow> wd_hasNmap w \<and> pl_Identification (sw_Plan s) = ''nmap -sV'' \<and> \<not> sw_Declined s)
     \<and> (op_Engine opt = ''masscan'' \<longrightarrow> wd_hasMasscan w \<and> pl_Discovery (sw_Plan s) \<in> set masscan_labels)
     \<and> (op_Engine opt = ''builtin'' \<longrightarrow> pl_Identification (sw_Plan s) = ''builtin'' \<and> \<not> sw_Declined s)
     \<and> (pl_Identification (sw_Plan s) = ''nmap -sV'' \<longrightarrow> wd_hasNmap w)
     \<and> (sw_Declined s \<longrightarrow> pl_Identification (sw_Plan s) = ''not attempted''
          \<and> probeCount (Len tg) (int (length ports)) > maxBuiltinProbes)
     \<and> (pl_Identification (sw_Plan s) = ''builtin'' \<and> op_Engine opt \<noteq> ''builtin''
          \<longrightarrow> probeCount (Len tg) (int (length ports)) \<le> maxBuiltinProbes
            \<or> (\<exists>found. found \<noteq> [] \<and> masscanSweep w opt tg ports = Inr found))"

lemma accounted_pass:
  assumes "from_pass w (new_sweep tg ports) (plan_is declined ident found_by) s"
    and "op_Engine opt = ''nmap'' \<longrightarrow> wd_hasNmap w \<and> ident = ''nmap -sV'' \<and> \<not> declined"
    and "op_Engine opt = ''masscan'' \<longrightarrow> wd_hasMasscan w \<and> set found_by \<subseteq> set masscan_labels"
    and "op_Engine opt = ''builtin'' \<longrightarrow> ident = ''builtin'' \<and> \<not> declined"
    and "ident = ''nmap -sV'' \<longrightarrow> wd_hasNmap w"
    and "declined \<longrightarrow> ident = ''not attempted'' \<and> probeCount (Len tg) (int (length ports)) > maxBuiltinProbes"
    and "ident = ''builtin'' \<and> op_Engine opt \<noteq> ''builtin'' \<longrightarrow> probeCount (Len tg) (int (length ports)) \<le> maxBuiltinProbes
            \<or> (\<exists>found. found \<noteq> [] \<and> masscanSweep w opt tg ports = Inr found)"
  shows "accounted w opt tg ports s"
proof -
  obtain sweep where "plan_is declined ident found_by sweep" "sw_Plan s = sw_Plan sweep" "sw_Declined s = sw_Declined sweep"
    using from_pass_props(2) [OF assms(1)] by blast
  then have p: "sw_Declined s = declined" "pl_Identification (sw_Plan s) = ident" "pl_Discovery (sw_Plan s) \<in> set found_by"
    by (simp_all add: plan_is_def)
  have r: "reported tg ports s" by (rule from_pass_props(1) [OF assms(1)])
  show ?thesis unfolding accounted_def p(1,2) using assms(2-) p(3) r by blast
qed

lemma accounted_settled:
  assumes "reported tg ports s" "settled_plan w tg ports s" "wd_hasMasscan w" "op_Engine opt \<noteq> ''nmap''" "op_Engine opt \<noteq> ''builtin''"
  shows "accounted w opt tg ports s"
proof -
  have "pl_Identification (sw_Plan s) = ''builtin'' \<longrightarrow> probeCount (Len tg) (int (length ports)) \<le> maxBuiltinProbes"
    using assms(2) by (simp add: settled_plan_def)
  then show ?thesis unfolding accounted_def using assms by (auto simp: settled_plan_def)
qed

lemma new_sweep_open: "\<not> sw_Declined (new_sweep tg ports)"
  by (simp add: new_sweep_def)

lemma settle_plan_label:
  "pl_Discovery (settle_plan w engine p) = (if pl_Discovery p = [] then ''direct'' else pl_Discovery p)"
  by (simp add: settle_plan_def Let_def)

lemma run_target_accounted:
  assumes "run_target w opt tg ports = Inr s"
  shows "accounted w opt tg ports s"
proof (cases "op_Engine opt = ''builtin''")
  case True
  then obtain hosts where d: "deliver w ((new_sweep tg ports)\<lparr>sw_Plan := empty_plan\<lparr>pl_Discovery := ''builtin'', pl_Identification := ''builtin''\<rparr>\<rparr>) hosts = Inr s"
    using assms by (auto simp: run_target_def Let_def split: sum.splits)
  have "from_pass w (new_sweep tg ports) (plan_is False ''builtin'' [''builtin'']) s"
    by (rule from_passI [OF d]) (simp_all add: plan_is_def new_sweep_def)
  then show ?thesis by (rule accounted_pass) (simp_all add: True)
next
  case nb: False
  define engine where "engine = (if op_Engine opt = [] then ''auto'' else op_Engine opt)"
  have eng: "engine = ''nmap'' \<longleftrightarrow> op_Engine opt = ''nmap''" "engine = ''masscan'' \<longleftrightarrow> op_Engine opt = ''masscan''" "engine \<noteq> ''builtin''"
    using nb by (auto simp: engine_def)
  have ok: "op_Engine opt = ''masscan'' \<longrightarrow> wd_hasMasscan w" "op_Engine opt = ''nmap'' \<longrightarrow> wd_hasNmap w"
    using assms by (auto simp: run_target_def Let_def split: if_splits)
  have run: "(case discover w opt engine tg ports (new_sweep tg ports) of Settled r \<Rightarrow> r
      | Found plan found sampled \<Rightarrow> identification w engine tg ports (new_sweep tg ports) (settle_plan w engine plan) found sampled) = Inr s"
    using assms eng(3) ok unfolding run_target_def Let_def engine_def [symmetric] eng by (simp split: if_splits)
  have found: "accounted w opt tg ports s"
    if d: "discover w opt engine tg ports (new_sweep tg ports) = Found p found sampled"
      and lab: "op_Engine opt = ''masscan'' \<longrightarrow> pl_Discovery p \<in> set masscan_labels"
      and fnd: "found = [] \<or> masscanSweep w opt tg ports = Inr found" for p found sampled
  proof -
    let ?p = "settle_plan w engine p"
    have label: "op_Engine opt = ''masscan'' \<longrightarrow> wd_hasMasscan w \<and> set [pl_Discovery ?p] \<subseteq> set masscan_labels"
      using lab ok(1) by (auto simp: settle_plan_label masscan_labels_def)
    have "identification w engine tg ports (new_sweep tg ports) ?p found sampled = Inr s" using run d by simp
    from identification_cases [OF this new_sweep_open] show ?thesis
    proof (elim disjE conjE)
      assume "wd_hasNmap w" "from_pass w (new_sweep tg ports) (plan_is False ''nmap -sV'' [pl_Discovery ?p]) s"
      then show ?thesis using label nb by (intro accounted_pass) auto
    next
      assume n: "\<not> (wd_hasNmap w \<and> engine \<in> {''nmap'', ''masscan''})" and "maxBuiltinProbes < probeCount (Len tg) (int (length ports))"
        "from_pass w (new_sweep tg ports) (plan_is True ''not attempted'' [pl_Discovery ?p]) s"
      moreover have "op_Engine opt \<noteq> ''nmap''" using n ok(2) eng(1) by blast
      ultimately show ?thesis using label nb by (intro accounted_pass) auto
    next
      assume n: "\<not> (wd_hasNmap w \<and> engine \<in> {''nmap'', ''masscan''})" and "found \<noteq> []"
        "from_pass w (new_sweep tg ports) (plan_is False ''builtin'' [pl_Discovery ?p]) s"
      moreover have "op_Engine opt \<noteq> ''nmap''" using n ok(2) eng(1) by blast
      ultimately show ?thesis using label nb fnd by (intro accounted_pass) auto
    next
      assume n: "\<not> (wd_hasNmap w \<and> engine \<in> {''nmap'', ''masscan''})" and "probeCount (Len tg) (int (length ports)) \<le> maxBuiltinProbes"
        "from_pass w (new_sweep tg ports) (plan_is False ''builtin'' [pl_Discovery ?p]) s"
      moreover have "op_Engine opt \<noteq> ''nmap''" using n ok(2) eng(1) by blast
      ultimately show ?thesis using label nb by (intro accounted_pass) auto
    qed
  qed
  from discover_cases [of w opt engine tg ports] show ?thesis
  proof (elim disjE exE conjE)
    fix s'
    assume d: "discover w opt engine tg ports (new_sweep tg ports) = Settled (Inr s')"
      and "reported tg ports s'" "settled_plan w tg ports s'" "wd_hasMasscan w" "engine \<noteq> ''nmap''"
    moreover have "s' = s" using run unfolding d by simp
    ultimately show ?thesis using nb eng(1) by (intro accounted_settled) auto
  next
    fix e
    assume d: "discover w opt engine tg ports (new_sweep tg ports) = Settled (Inl e)"
    show ?thesis using run unfolding d by simp
  next
    fix p
    assume "discover w opt engine tg ports (new_sweep tg ports) = Found p [] []"
      "engine = ''masscan'' \<longrightarrow> \<not> wd_hasMasscan w"
    then show ?thesis using ok(1) eng(2) by (intro found) auto
  next
    fix p fnd sampled
    assume "discover w opt engine tg ports (new_sweep tg ports) = Found p fnd sampled" "pl_Discovery p \<in> set masscan_labels"
      "fnd \<noteq> [] \<longrightarrow> masscanSweep w opt tg ports = Inr fnd"
    then show ?thesis using found [of p fnd sampled] by blast
  qed
qed

section \<open>A target that is declined is not touched\<close>

lemma declined_untouched:
  assumes "\<not> wd_hasNmap w" "\<not> wd_hasMasscan w" "op_Engine opt \<notin> {''builtin'', ''nmap'', ''masscan''}"
    and "probeCount (Len tg) (int (length ports)) > maxBuiltinProbes"
  shows "run_target w opt tg ports = Inr
    ((new_sweep tg ports)\<lparr>sw_Plan := \<lparr>pl_Discovery = ''direct'', pl_Identification = ''not attempted'',
        pl_Note = no_masscan_note @ ''; '' @ declined_note tg (int (length ports)) (probeCount (Len tg) (int (length ports))) ''nothing was examined''\<rparr>,
      sw_Declined := True\<rparr>)"
proof -
  let ?e = "if op_Engine opt = [] then ''auto'' else op_Engine opt"
  have e: "?e \<noteq> ''builtin''" "?e \<noteq> ''nmap''" "?e \<noteq> ''masscan''" using assms(3) by auto
  have d: "discover w opt ?e tg ports (new_sweep tg ports) = Found empty_plan [] []" using assms(2) by (simp add: discover_def)
  have p: "settle_plan w ?e empty_plan = \<lparr>pl_Discovery = ''direct'', pl_Identification = [], pl_Note = no_masscan_note\<rparr>"
    using assms(2) e(2) by (simp add: settle_plan_def Let_def empty_plan_def add_note_def appendNote_def)
  have "run_target w opt tg ports = fallback w tg ports (new_sweep tg ports) (settle_plan w ?e empty_plan) [] []"
    using assms(1) e unfolding run_target_def Let_def by (simp add: d identification_def)
  also have "\<dots> = Inr
    ((new_sweep tg ports)\<lparr>sw_Plan := \<lparr>pl_Discovery = ''direct'', pl_Identification = ''not attempted'',
        pl_Note = no_masscan_note @ ''; '' @ declined_note tg (int (length ports)) (probeCount (Len tg) (int (length ports))) ''nothing was examined''\<rparr>,
      sw_Declined := True\<rparr>)"
    unfolding p fallback_def Let_def using assms(4)
    by (simp add: deliver_def finish_sweep_def sortHosts_def new_sweep_def add_note_def appendNote_def no_masscan_note_def)
  finally show ?thesis .
qed

end
