(* ===== verification/Netscan_Examples.thy ===== *)
theory Netscan_Examples
  imports Scan_Plan
begin

text \<open>Concrete scans the results about \<open>internal/netscan\<close> are applied to.\<close>

section \<open>A host with one service\<close>

definition ssh_banner :: string where
  "ssh_banner = ''SSH-2.0-OpenSSH_8.4p1 Debian-5''"

definition ssh_net :: "int \<Rightarrow> endpoint" where
  "ssh_net port =
     (if port = 22 then
        \<lparr>ep_plain = Inr \<lparr>cv_greeting = [(ssh_banner, False)], cv_writable = True, cv_answer = []\<rparr>, ep_tls = Inl OtherError\<rparr>
      else \<lparr>ep_plain = Inl (OpError ''dial''), ep_tls = Inl (OpError ''dial'')\<rparr>)"

definition ssh_component :: Component where
  "ssh_component = \<lparr>c_Name = ''openssh'', c_Version = ''8.4p1'', c_Vendor = ''openbsd'', c_Ecosystem = [], c_PURL = [],
     c_CPE = ''cpe:2.3:a:openbsd:openssh:8.4p1:*:*:*:*:*:*:*'', c_Origin = ''netscan:22''\<rparr>"

lemma ssh_probe: "probe (ssh_net 22) ''db'' 22 = Inr (ssh_banner, [])"
  by code_simp

lemma ssh_scan: "result_Components (scan_host ssh_net None ''db'' [22, 80] [80, 22]) = [ssh_component]"
  by code_simp

section \<open>A pool of two goroutines\<close>

lemma pool_example:
  "pool_reach 2 [''a'', ''b''] \<lparr>todo = [], busy = [], finished = [''b'', ''a''], stopped = False\<rparr>"
proof -
  let ?js = "[''a'', ''b'']"
  note s0 = pool_reach.start [of 2 ?js, unfolded pool_start_def]
  have s1: "pool_reach 2 ?js \<lparr>todo = [''b''], busy = [''a''], finished = [], stopped = False\<rparr>"
    using pool_reach.more [OF s0 hand [of _ "''a''" "[''b'']" 2]] by (simp add: slots_def)
  have s2: "pool_reach 2 ?js \<lparr>todo = [], busy = [''a'', ''b''], finished = [], stopped = False\<rparr>"
    using pool_reach.more [OF s1 hand [of _ "''b''" "[]" 2]] by (simp add: slots_def)
  have s3: "pool_reach 2 ?js \<lparr>todo = [], busy = [''a''], finished = [''b''], stopped = False\<rparr>"
    using pool_reach.more [OF s2 finish [of _ "[''a'']" "''b''" "[]" 2]] by simp
  show ?thesis
    using pool_reach.more [OF s3 finish [of _ "[]" "''a''" "[]" 2]] by simp
qed

section \<open>A scan with nmap\<close>

definition quiet_net :: "string \<Rightarrow> int \<Rightarrow> endpoint" where
  "quiet_net host port = \<lparr>ep_plain = Inl (OpError ''dial''), ep_tls = Inl (OpError ''dial'')\<rparr>"

definition nginx_port :: nmap_port where
  "nginx_port = \<lparr>np_PortID = 80, np_State = ''open'', np_Name = ''http'', np_Product = ''nginx'', np_Version = ''1.18.0'',
     np_ExtraInfo = [], np_CPEs = [''cpe:/a:igor_sysoev:nginx:1.18.0'']\<rparr>"

definition nginx_host :: nmap_host where
  "nginx_host = \<lparr>nh_Addresses = [(''10.0.0.9'', ''ipv4'')], nh_Hostnames = [],
     nh_Ports = [nginx_port, nginx_port\<lparr>np_PortID := 23, np_State := ''closed''\<rparr>]\<rparr>"

definition corpus_vendors :: "string \<Rightarrow> string + string list" where
  "corpus_vendors p = Inr (if p = ''nginx'' then [''f5''] else [])"

definition nmap_world :: world where
  "nmap_world = \<lparr>wd_hasNmap = True, wd_hasMasscan = False, wd_exec = (\<lambda>_ _ _. (''<xml>'', [], None)),
     wd_xml = (\<lambda>_. Inr [nginx_host]), wd_json = (\<lambda>_. Inr []), wd_net = quiet_net, wd_lookup = (\<lambda>_. None), wd_cancelled = None,
     wd_resolver = Some corpus_vendors, wd_ranked = [80], wd_addr = (\<lambda>_ _. [])\<rparr>"

definition bare_world :: world where
  "bare_world = nmap_world\<lparr>wd_hasNmap := False\<rparr>"

definition single_target :: "string \<Rightarrow> target_error + targets" where
  "single_target s = Inr \<lparr>tg_spec = s, tg_prefix = None, tg_single = Some s\<rparr>"

lemma nginx_read:
  "\<exists>r. nmap_result nginx_host = Some r \<and> parseNmapXML (wd_xml nmap_world) ''<xml>'' = Inr [r]
     \<and> map sv_Port (rs_Open r) = [80] \<and> rs_Unidentified r = []"
proof -
  have "case nmap_result nginx_host of None \<Rightarrow> False | Some r \<Rightarrow> map sv_Port (rs_Open r) = [80] \<and> rs_Unidentified r = []"
    by code_simp
  then show ?thesis
    by (auto simp: parseNmapXML_def nmap_world_def List.map_filter_simps split: option.splits)
qed

lemma nginx_scan:
  "\<exists>s. Run_scan single_target nmap_world \<lparr>op_Engine = ''nmap'', op_Rate = 0\<rparr> ''10.0.0.9'' [80, 23] = Inr s
     \<and> map sv_Vendor (concat (map rs_Open (sw_Hosts s))) = [''f5'']"
proof -
  have "case Run_scan single_target nmap_world \<lparr>op_Engine = ''nmap'', op_Rate = 0\<rparr> ''10.0.0.9'' [80, 23] of
      Inl _ \<Rightarrow> False | Inr s \<Rightarrow> map sv_Vendor (concat (map rs_Open (sw_Hosts s))) = [''f5'']"
    by code_simp
  then show ?thesis by (auto split: sum.splits)
qed

text \<open>A block that is too wide for the prober.\<close>

definition wide_target :: targets where
  "wide_target = \<lparr>tg_spec = ''10.0.0.0/16'', tg_prefix = Some \<lparr>ip_is4 = True, ip_value = 167772160, ip_bits = 16\<rparr>, tg_single = None\<rparr>"

lemma wide_Len: "Len wide_target = 65534"
  by (simp add: Len_def wide_target_def host_bits_def bit_len_def maxInt_def Let_def)

lemma wide_work: "probeCount (Len wide_target) (int (length (replicate 1000 (80 :: int)))) > maxBuiltinProbes"
  by (simp add: wide_Len probeCount_def maxBuiltinProbes_def maxInt_def)

end
