(* ===== verification/Rate_Limit.thy ===== *)
theory Rate_Limit
  imports Go_Text
begin

text \<open>
  The rate limiter of \<open>internal/httpx/fetcher.go\<close>. Times are nanoseconds. A call of \<open>wait\<close> polls the limiter under
  its mutex, sleeps what the poll asked for and polls again; the polls of all callers form one sequence, with a clock
  that does not run backwards. Shown: in no stretch of time as long as the window are more requests granted than the
  burst allows, however many callers there are, requests are spaced by the minimum interval where it does not exceed
  the window, and a caller that is alone is granted its request by its third poll.
\<close>

record limiter =
  lm_burst :: int
  lm_window :: int
  lm_minInterval :: int
  lm_recent :: "int list"

definition newLimiter :: "int \<Rightarrow> int \<Rightarrow> int \<Rightarrow> limiter" where
  "newLimiter burst window minInterval =
     \<lparr>lm_burst = (if burst < 1 then 1 else burst), lm_window = (if window \<le> 0 then second else window),
      lm_minInterval = minInterval, lm_recent = []\<rparr>"

definition prune :: "int \<Rightarrow> limiter \<Rightarrow> limiter" where
  "prune now l = l\<lparr>lm_recent := filter (\<lambda>t. t > now - lm_window l) (lm_recent l)\<rparr>"

text \<open>One round of the loop of \<open>wait\<close>: the limiter and, unless the request is granted, how long to sleep.\<close>

definition limiter_poll :: "int \<Rightarrow> limiter \<Rightarrow> limiter \<times> int option" where
  "limiter_poll now l0 =
     (let l = prune now l0; recent = lm_recent l in
      if int (length recent) \<ge> lm_burst l then (l, Some (hd recent + lm_window l - now))
      else if lm_minInterval l > 0 \<and> recent \<noteq> [] \<and> now - last recent < lm_minInterval l
      then (l, Some (lm_minInterval l - (now - last recent)))
      else (l\<lparr>lm_recent := recent @ [now]\<rparr>, None))"

definition millisecond :: int where
  "millisecond = 10 ^ 6"

definition sleep_for :: "int \<Rightarrow> int" where
  "sleep_for d = (if d \<le> 0 then millisecond else d)"

text \<open>
  The loop of \<open>wait\<close> for one caller, with fuel. \<open>slept n\<close> is what its \<open>n\<close>-th sleep from the end comes to: by how much
  it overslept, or the error of a context that is done.
\<close>

fun wait_loop :: "(nat \<Rightarrow> string + nat) \<Rightarrow> nat \<Rightarrow> int \<Rightarrow> limiter \<Rightarrow> (string + int \<times> limiter) option" where
  "wait_loop slept 0 now l = None"
| "wait_loop slept (Suc n) now l =
     (case limiter_poll now l of
        (l', None) \<Rightarrow> Some (Inr (now, l'))
      | (l', Some d) \<Rightarrow>
          (case slept n of
             Inl err \<Rightarrow> Some (Inl err)
           | Inr late \<Rightarrow> wait_loop slept n (now + sleep_for d + int late) l'))"

text \<open>The polls of all callers: the limiter, the requests granted so far and the time of the last poll.\<close>

inductive granted :: "limiter \<Rightarrow> limiter \<Rightarrow> int list \<Rightarrow> int \<Rightarrow> bool" where
  start: "lm_recent l0 = [] \<Longrightarrow> granted l0 l0 [] now"
| grant: "granted l0 l ts now \<Longrightarrow> now \<le> now' \<Longrightarrow> limiter_poll now' l = (l', None) \<Longrightarrow> granted l0 l' (ts @ [now']) now'"
| deny: "granted l0 l ts now \<Longrightarrow> now \<le> now' \<Longrightarrow> limiter_poll now' l = (l', Some d) \<Longrightarrow> granted l0 l' ts now'"

section \<open>The window slides\<close>

lemma limiter_poll_fixed:
  "limiter_poll now l = (l', r) \<Longrightarrow> lm_burst l' = lm_burst l \<and> lm_window l' = lm_window l \<and> lm_minInterval l' = lm_minInterval l"
  by (auto simp: limiter_poll_def Let_def prune_def split: if_splits)

lemma limiter_poll_recent:
  "limiter_poll now l = (l', r) \<Longrightarrow> lm_recent l' = filter (\<lambda>t. t > now - lm_window l) (lm_recent l) @ (if r = None then [now] else [])"
  by (auto simp: limiter_poll_def Let_def prune_def split: if_splits)

lemma limiter_poll_granted:
  assumes "limiter_poll now l = (l', None)"
  shows "int (length (filter (\<lambda>t. t > now - lm_window l) (lm_recent l))) < lm_burst l"
    "lm_minInterval l \<le> 0 \<or> filter (\<lambda>t. t > now - lm_window l) (lm_recent l) = []
       \<or> now - last (filter (\<lambda>t. t > now - lm_window l) (lm_recent l)) \<ge> lm_minInterval l"
  using assms by (auto simp: limiter_poll_def Let_def prune_def split: if_splits)

definition limiter_inv :: "limiter \<Rightarrow> limiter \<Rightarrow> int list \<Rightarrow> int \<Rightarrow> bool" where
  "limiter_inv l0 l ts now \<longleftrightarrow> lm_burst l = lm_burst l0 \<and> lm_window l = lm_window l0 \<and> lm_minInterval l = lm_minInterval l0
     \<and> sorted ts \<and> (\<forall>t \<in> set ts. t \<le> now)
     \<and> (\<exists>cut \<le> now - lm_window l0. lm_recent l = filter (\<lambda>t. t > cut) ts)
     \<and> int (length (lm_recent l)) \<le> lm_burst l0"

lemma refilter:
  fixes ts :: "int list"
  shows "c \<le> d \<Longrightarrow> filter (\<lambda>t. t > d) (filter (\<lambda>t. t > c) ts) = filter (\<lambda>t. t > d) ts"
  by (induction ts) auto

lemma limiter_inv_poll:
  assumes inv: "limiter_inv l0 l ts now" and later: "now \<le> now'" and poll: "limiter_poll now' l = (l', r)" and w: "0 < lm_window l0"
  shows "limiter_inv l0 l' (ts @ (if r = None then [now'] else [])) now'"
    "filter (\<lambda>t. t > now' - lm_window l) (lm_recent l) = filter (\<lambda>t. t > now' - lm_window l0) ts"
proof -
  obtain cut where cut: "cut \<le> now - lm_window l0" "lm_recent l = filter (\<lambda>t. t > cut) ts"
    and len: "int (length (lm_recent l)) \<le> lm_burst l0"
    and fixed: "lm_burst l = lm_burst l0" "lm_window l = lm_window l0" "lm_minInterval l = lm_minInterval l0"
    and ts: "sorted ts" "\<forall>t \<in> set ts. t \<le> now"
    using inv by (auto simp: limiter_inv_def)
  show f: "filter (\<lambda>t. t > now' - lm_window l) (lm_recent l) = filter (\<lambda>t. t > now' - lm_window l0) ts"
    unfolding cut(2) fixed(2) using cut(1) later by (intro refilter) simp
  have rec: "lm_recent l' = filter (\<lambda>t. t > now' - lm_window l0) (ts @ (if r = None then [now'] else []))"
    using limiter_poll_recent [OF poll] f w by simp
  have "int (length (lm_recent l')) \<le> lm_burst l0"
  proof (cases r)
    case None
    then show ?thesis using limiter_poll_granted(1) [of now' l l'] poll limiter_poll_recent [OF poll] fixed(1) by simp
  next
    case (Some d)
    then have "length (lm_recent l') \<le> length (lm_recent l)" using limiter_poll_recent [OF poll] by simp
    then show ?thesis using len by simp
  qed
  then show "limiter_inv l0 l' (ts @ (if r = None then [now'] else [])) now'"
    unfolding limiter_inv_def using limiter_poll_fixed [OF poll] fixed ts later rec
    by (auto simp: sorted_append intro!: exI [of _ "now' - lm_window l0"])
qed

lemma granted_inv: "granted l0 l ts now \<Longrightarrow> 0 < lm_window l0 \<Longrightarrow> 0 \<le> lm_burst l0 \<Longrightarrow> limiter_inv l0 l ts now"
proof (induction rule: granted.induct)
  case (start l0 now)
  then show ?case by (auto simp: limiter_inv_def)
next
  case (grant l0 l ts now now' l')
  then show ?case using limiter_inv_poll(1) [of l0 l ts now now' l' None] by simp
next
  case (deny l0 l ts now now' l' d)
  then show ?case using limiter_inv_poll(1) [of l0 l ts now now' l' "Some d"] by simp
qed

definition in_window :: "int \<Rightarrow> int \<Rightarrow> int list \<Rightarrow> int list" where
  "in_window x w ts = filter (\<lambda>t. x < t \<and> t \<le> x + w) ts"

lemma granted_window:
  "granted l0 l ts now \<Longrightarrow> 0 < lm_window l0 \<Longrightarrow> 0 \<le> lm_burst l0 \<Longrightarrow> int (length (in_window x (lm_window l0) ts)) \<le> lm_burst l0"
proof (induction arbitrary: x rule: granted.induct)
  case (start l0 now)
  then show ?case by (simp add: in_window_def)
next
  case (grant l0 l ts now now' l')
  show ?case
  proof (cases "x < now' \<and> now' \<le> x + lm_window l0")
    case False
    then show ?thesis using grant by (auto simp: in_window_def)
  next
    case True
    note inv = granted_inv [OF grant.hyps(1) grant.prems]
    have fixed: "lm_burst l = lm_burst l0" using inv by (simp add: limiter_inv_def)
    have "filter (\<lambda>t. x < t \<and> t \<le> x + lm_window l0) ts = filter (\<lambda>t. x < t) ts"
    proof (rule filter_cong [OF refl])
      fix t assume "t \<in> set ts"
      then have "t \<le> now" using inv by (simp add: limiter_inv_def)
      then show "(x < t \<and> t \<le> x + lm_window l0) = (x < t)" using True grant.hyps(2) by auto
    qed
    also have "\<dots> = filter (\<lambda>t. x < t) (filter (\<lambda>t. t > now' - lm_window l0) ts)"
      using True by (subst refilter) simp_all
    finally have "length (in_window x (lm_window l0) ts) \<le> length (filter (\<lambda>t. t > now' - lm_window l0) ts)"
      unfolding in_window_def by (metis length_filter_le)
    moreover have "int (length (filter (\<lambda>t. t > now' - lm_window l0) ts)) < lm_burst l0"
      using limiter_poll_granted(1) [OF grant.hyps(3)] limiter_inv_poll(2) [OF inv grant.hyps(2,3) grant.prems(1)] fixed by simp
    ultimately show ?thesis using True by (simp add: in_window_def)
  qed
next
  case (deny l0 l ts now now' l' d)
  then show ?case by blast
qed

section \<open>Requests are spaced\<close>

lemma last_filter_sorted:
  fixes ts :: "int list"
  shows "sorted ts \<Longrightarrow> filter (\<lambda>t. t > c) ts \<noteq> [] \<Longrightarrow> last (filter (\<lambda>t. t > c) ts) = last ts"
proof (induction ts rule: rev_induct)
  case (snoc t ts)
  show ?case
  proof (cases "t > c")
    case False
    have "s \<le> c" if "s \<in> set ts" for s using snoc.prems(1) that False by (fastforce simp: sorted_append)
    then have "filter (\<lambda>t. t > c) (ts @ [t]) = []" using False by (fastforce simp: filter_empty_conv)
    then show ?thesis using snoc.prems(2) by simp
  qed simp
qed simp

lemma granted_spaced:
  "granted l0 l ts now \<Longrightarrow> 0 < lm_window l0 \<Longrightarrow> 0 \<le> lm_burst l0 \<Longrightarrow> lm_minInterval l0 \<le> lm_window l0
     \<Longrightarrow> sorted_wrt (\<lambda>a b. b - a \<ge> lm_minInterval l0) ts"
proof (induction rule: granted.induct)
  case (grant l0 l ts now now' l')
  note inv = granted_inv [OF grant.hyps(1) grant.prems(1,2)]
  have fixed: "lm_minInterval l = lm_minInterval l0" and ts: "sorted ts" "\<forall>t \<in> set ts. t \<le> now"
    using inv by (simp_all add: limiter_inv_def)
  let ?recent = "filter (\<lambda>t. t > now' - lm_window l0) ts"
  have "now' - a \<ge> lm_minInterval l0" if a: "a \<in> set ts" for a
  proof -
    have "a \<le> last ts" using ts(1) a by (cases ts rule: rev_cases) (auto simp: sorted_append)
    consider "lm_minInterval l0 \<le> 0" | "?recent = []" | "?recent \<noteq> []" "now' - last ?recent \<ge> lm_minInterval l0"
      using limiter_poll_granted(2) [OF grant.hyps(3)] limiter_inv_poll(2) [OF inv grant.hyps(2,3) grant.prems(1)] fixed by auto
    then show ?thesis
    proof cases
      case 1
      then show ?thesis using ts(2) a grant.hyps(2) by fastforce
    next
      case 2
      then have "a \<le> now' - lm_window l0" using a by (fastforce simp: filter_empty_conv)
      then show ?thesis using grant.prems(3) by simp
    next
      case 3
      then show ?thesis using last_filter_sorted [OF ts(1) 3(1)] \<open>a \<le> last ts\<close> by simp
    qed
  qed
  then show ?case using grant by (simp add: sorted_wrt_append)
qed simp_all

section \<open>A caller that is alone\<close>

text \<open>A limiter between two polls: no more requests than the burst, oldest first, none in the future.\<close>

definition limiter_ok :: "int \<Rightarrow> limiter \<Rightarrow> bool" where
  "limiter_ok now l \<longleftrightarrow> 1 \<le> lm_burst l \<and> 0 < lm_window l \<and> sorted (lm_recent l) \<and> (\<forall>t \<in> set (lm_recent l). t \<le> now)
     \<and> int (length (lm_recent l)) \<le> lm_burst l"

lemma newLimiter_ok: "limiter_ok now (newLimiter burst window minInterval)"
  by (simp add: limiter_ok_def newLimiter_def second_def)

lemma poll_ok:
  assumes "limiter_ok now l" "now \<le> now'" "limiter_poll now' l = (l', r)"
  shows "limiter_ok now' l'"
proof -
  have rec: "lm_recent l' = filter (\<lambda>t. t > now' - lm_window l) (lm_recent l) @ (if r = None then [now'] else [])"
    by (rule limiter_poll_recent [OF assms(3)])
  have "int (length (lm_recent l')) \<le> lm_burst l"
  proof (cases r)
    case None
    then show ?thesis using limiter_poll_granted(1) [of now' l l'] assms(3) rec by simp
  next
    case (Some d)
    then have "length (lm_recent l') \<le> length (lm_recent l)" unfolding rec by simp
    then show ?thesis using assms(1) by (simp add: limiter_ok_def)
  qed
  moreover have "sorted (lm_recent l')" "\<forall>t \<in> set (lm_recent l'). t \<le> now'"
    using rec assms(1,2) by (auto simp: limiter_ok_def sorted_append sorted_filter [where f = id, simplified])
  ultimately show ?thesis using limiter_poll_fixed [OF assms(3)] assms(1) by (simp add: limiter_ok_def)
qed

text \<open>A poll below the burst that comes the minimum interval after the last request is granted.\<close>

lemma poll_room:
  assumes "int (length (filter (\<lambda>t. t > now - lm_window l) (lm_recent l))) < lm_burst l"
    and "\<And>t. t \<in> set (lm_recent l) \<Longrightarrow> now - t \<ge> lm_minInterval l"
  shows "snd (limiter_poll now l) = None"
proof -
  let ?r = "filter (\<lambda>t. t > now - lm_window l) (lm_recent l)"
  have "now - last ?r \<ge> lm_minInterval l" if "?r \<noteq> []" using assms(2) last_in_set [OF that] by auto
  then show ?thesis using assms(1) by (auto simp: limiter_poll_def Let_def prune_def)
qed

lemma poll_denied:
  assumes "limiter_poll now l = (l', Some d)"
  shows "(int (length (lm_recent l')) \<ge> lm_burst l' \<and> d = hd (lm_recent l') + lm_window l' - now)
    \<or> (int (length (lm_recent l')) < lm_burst l' \<and> lm_recent l' \<noteq> [] \<and> d = lm_minInterval l' - (now - last (lm_recent l')))"
  using assms by (auto simp: limiter_poll_def Let_def prune_def split: if_splits)

lemma sorted_last_ge: "sorted (xs :: int list) \<Longrightarrow> t \<in> set xs \<Longrightarrow> t \<le> last xs"
  by (cases xs rule: rev_cases) (auto simp: sorted_append)

lemma sleep_for_ge: "d \<le> sleep_for d" "0 < sleep_for d"
  by (simp_all add: sleep_for_def millisecond_def)

text \<open>After a sleep for the minimum interval the poll is granted.\<close>

lemma spaced_next:
  assumes ok: "limiter_ok now l'" and room: "int (length (lm_recent l')) < lm_burst l'" "lm_recent l' \<noteq> []"
    and d: "d = lm_minInterval l' - (now - last (lm_recent l'))" and later: "now + sleep_for d \<le> now'"
  shows "snd (limiter_poll now' l') = None"
proof (rule poll_room)
  have "length (filter (\<lambda>t. t > now' - lm_window l') (lm_recent l')) \<le> length (lm_recent l')" by simp
  then show "int (length (filter (\<lambda>t. t > now' - lm_window l') (lm_recent l'))) < lm_burst l'" using room(1) by linarith
  fix t assume "t \<in> set (lm_recent l')"
  then have "t \<le> last (lm_recent l')" using ok by (intro sorted_last_ge) (simp_all add: limiter_ok_def)
  then show "lm_minInterval l' \<le> now' - t" using d later sleep_for_ge(1) [of d] by linarith
qed

text \<open>After a sleep for the window a place is free.\<close>

lemma window_next:
  assumes ok: "limiter_ok now l'" and full: "int (length (lm_recent l')) \<ge> lm_burst l'"
    and d: "d = hd (lm_recent l') + lm_window l' - now" and later: "now + sleep_for d \<le> now'"
    and poll: "limiter_poll now' l' = (l'', Some d')"
  shows "int (length (lm_recent l'')) < lm_burst l''" "lm_recent l'' \<noteq> []" "d' = lm_minInterval l'' - (now' - last (lm_recent l''))"
proof -
  have b: "1 \<le> lm_burst l'" "int (length (lm_recent l')) \<le> lm_burst l'" using ok by (simp_all add: limiter_ok_def)
  then obtain t ts where t: "lm_recent l' = t # ts" using full by (cases "lm_recent l'") auto
  have rec: "lm_recent l'' = filter (\<lambda>t. t > now' - lm_window l') (lm_recent l')" using limiter_poll_recent [OF poll] by simp
  have "\<not> t > now' - lm_window l'" using d t later sleep_for_ge(1) [of d] by simp
  then have "lm_recent l'' = filter (\<lambda>t. t > now' - lm_window l') ts" using rec t by simp
  then have "length (lm_recent l'') < length (lm_recent l')" using t by (simp add: le_imp_less_Suc)
  then have "int (length (lm_recent l'')) < lm_burst l''" using b(2) limiter_poll_fixed [OF poll] by linarith
  then show "int (length (lm_recent l'')) < lm_burst l''" "lm_recent l'' \<noteq> []" "d' = lm_minInterval l'' - (now' - last (lm_recent l''))"
    using poll_denied [OF poll] by auto
qed

lemma wait_alone:
  assumes ok: "limiter_ok now l" and alive: "\<And>n. \<exists>late. slept n = Inr late"
  shows "\<exists>now' l'. wait_loop slept 3 now l = Some (Inr (now', l')) \<and> now \<le> now'"
proof -
  have three: "(3 :: nat) = Suc (Suc (Suc 0))" by simp
  obtain l1 r1 where p1: "limiter_poll now l = (l1, r1)" by (cases "limiter_poll now l")
  show ?thesis
  proof (cases r1)
    case None
    then show ?thesis using p1 by (simp add: three)
  next
    case (Some d1)
    obtain late1 where s1: "slept (Suc (Suc 0)) = Inr late1" using alive by blast
    let ?now1 = "now + sleep_for d1 + int late1"
    have le1: "now \<le> ?now1" using sleep_for_ge(2) [of d1] by linarith
    have ok1: "limiter_ok now l1" using poll_ok [OF ok order_refl p1] .
    obtain l2 r2 where p2: "limiter_poll ?now1 l1 = (l2, r2)" by (cases "limiter_poll ?now1 l1")
    have step1: "wait_loop slept 3 now l = wait_loop slept (Suc (Suc 0)) ?now1 l1" using p1 Some s1 by (simp add: three)
    show ?thesis
    proof (cases r2)
      case None
      then have "wait_loop slept (Suc (Suc 0)) ?now1 l1 = Some (Inr (?now1, l2))" using p2 by simp
      then show ?thesis using step1 le1 by simp
    next
      case (Some d2)
      note p1' = p1 [unfolded \<open>r1 = Some d1\<close>] and p2' = p2 [unfolded Some]
      have full: "int (length (lm_recent l1)) \<ge> lm_burst l1 \<and> d1 = hd (lm_recent l1) + lm_window l1 - now"
      proof (rule ccontr)
        assume "\<not> ?thesis"
        then have "snd (limiter_poll ?now1 l1) = None" using poll_denied [OF p1'] by (intro spaced_next [OF ok1]) auto
        then show False using p2' by simp
      qed
      have room: "int (length (lm_recent l2)) < lm_burst l2" "lm_recent l2 \<noteq> []" "d2 = lm_minInterval l2 - (?now1 - last (lm_recent l2))"
        using window_next [OF ok1 _ _ _ p2'] full by auto
      obtain late2 where s2: "slept (Suc 0) = Inr late2" using alive by blast
      let ?now2 = "?now1 + sleep_for d2 + int late2"
      have ok2: "limiter_ok ?now1 l2" by (rule poll_ok [OF ok1 le1 p2])
      have "snd (limiter_poll ?now2 l2) = None" by (rule spaced_next [OF ok2 room]) simp
      then obtain l3 where p3: "limiter_poll ?now2 l2 = (l3, None)" by (cases "limiter_poll ?now2 l2") auto
      have "wait_loop slept (Suc (Suc 0)) ?now1 l1 = Some (Inr (?now2, l3))" using p2' s2 p3 by simp
      then show ?thesis using step1 le1 sleep_for_ge(2) [of d2] by auto
    qed
  qed
qed

lemma granted_ok: "granted l0 l ts now \<Longrightarrow> 1 \<le> lm_burst l0 \<Longrightarrow> 0 < lm_window l0 \<Longrightarrow> limiter_ok now l"
proof (induction rule: granted.induct)
  case (start l0 now)
  then show ?case by (simp add: limiter_ok_def)
next
  case (grant l0 l ts now now' l')
  then show ?case using poll_ok by blast
next
  case (deny l0 l ts now now' l' d)
  then show ?case using poll_ok by blast
qed

lemma wait_loop_granted: "wait_loop slept n now l = Some (Inr (now', l')) \<Longrightarrow> lm_recent l' \<noteq> [] \<and> last (lm_recent l') = now'"
proof (induction slept n now l rule: wait_loop.induct)
  case (2 slept n now l)
  obtain l1 r where p: "limiter_poll now l = (l1, r)" by (cases "limiter_poll now l")
  show ?case
  proof (cases r)
    case None
    then show ?thesis using 2(2) p limiter_poll_recent [OF p] by simp
  next
    case (Some d)
    then obtain late where "slept n = Inr late" using 2(2) p by (cases "slept n") auto
    then show ?thesis using 2 p Some by simp
  qed
qed simp

end
