(* ===== verification/Fetch.thy ===== *)
theory Fetch
  imports Rate_Limit Ports "HOL-Library.AList"
begin

text \<open>
  The client of \<open>internal/httpx/fetcher.go\<close>: its settings, the headers of a request, what an answer means, the retry
  loop and the text of an error. The transport, the parsers of \<open>net/url\<close> and \<open>net/http\<close> and the waits are arguments: an
  attempt is what it came to. Shown: a request is tried at most once more than the retries allow, only after a
  transient failure, and answered by the first attempt that succeeds; between two attempts it waits what the server
  asked for, else the backoff, which doubles up to a minute and, from the thirty-fifth attempt on, is negative or
  nothing; an error text is short and free of tags.
\<close>

section \<open>Settings\<close>

record rateSpec =
  rt_burst :: int
  rt_window :: int
  rt_minInterval :: int

type_synonym headers = "(string \<times> string) list"

record client =
  cl_idleTimeout :: int
  cl_userAgent :: string
  cl_retries :: int
  cl_limiters :: "string \<rightharpoonup> limiter"
  cl_rates :: "string \<rightharpoonup> rateSpec"
  cl_hostHeaders :: "string \<rightharpoonup> headers"

definition rate_spec :: "int \<Rightarrow> int \<Rightarrow> int \<Rightarrow> rateSpec" where
  "rate_spec burst window minInterval = \<lparr>rt_burst = burst, rt_window = window, rt_minInterval = minInterval\<rparr>"

definition default_rates :: "(string \<times> rateSpec) list" where
  "default_rates =
     [(''services.nvd.nist.gov'', rate_spec 4 (30 * second) (6 * second)),
      (''api.github.com'', rate_spec 55 (3600 * second) 0),
      (''api.first.org'', rate_spec 10 (10 * second) 0),
      (''euvdservices.enisa.europa.eu'', rate_spec 5 (10 * second) 0),
      (''api.osv.dev'', rate_spec 20 (10 * second) 0),
      (''vulnerability.circl.lu'', rate_spec 10 (60 * second) (5 * second))]"

record client_options =
  co_IdleTimeout :: int
  co_UserAgent :: string
  co_MaxRetries :: int

definition NewClient :: "client_options \<Rightarrow> client" where
  "NewClient opt =
     \<lparr>cl_idleTimeout = (if co_IdleTimeout opt \<le> 0 then 300 * second else co_IdleTimeout opt), cl_userAgent = co_UserAgent opt,
      cl_retries = (if co_MaxRetries opt < 0 then 0 else co_MaxRetries opt), cl_limiters = Map.empty,
      cl_rates = map_of default_rates, cl_hostHeaders = Map.empty\<rparr>"

definition SetHostRateInterval :: "string \<Rightarrow> int \<Rightarrow> int \<Rightarrow> int \<Rightarrow> client \<Rightarrow> client" where
  "SetHostRateInterval host burst window minInterval c =
     c\<lparr>cl_rates := (cl_rates c)(host \<mapsto> rate_spec burst window minInterval), cl_limiters := (cl_limiters c)(host := None)\<rparr>"

definition SetHostRate :: "string \<Rightarrow> int \<Rightarrow> int \<Rightarrow> client \<Rightarrow> client" where
  "SetHostRate host burst window c = SetHostRateInterval host burst window 0 c"

definition limiterFor :: "string \<Rightarrow> client \<Rightarrow> limiter \<times> client" where
  "limiterFor host c =
     (case cl_limiters c host of
        Some l \<Rightarrow> (l, c)
      | None \<Rightarrow>
          (let spec = (case cl_rates c host of Some s \<Rightarrow> s | None \<Rightarrow> rate_spec 10 second 0);
               l = newLimiter (rt_burst spec) (rt_window spec) (rt_minInterval spec)
           in (l, c\<lparr>cl_limiters := (cl_limiters c)(host \<mapsto> l)\<rparr>)))"

section \<open>Headers\<close>

text \<open>\<open>Header.Set\<close>; a header is the list of its canonical keys with their values, one for a key.\<close>

definition set_header :: "(string \<Rightarrow> string) \<Rightarrow> string \<times> string \<Rightarrow> headers \<Rightarrow> headers" where
  "set_header canonical kv h = AList.update (canonical (fst kv)) (snd kv) h"

definition SetHostHeader :: "(string \<Rightarrow> string) \<Rightarrow> string \<Rightarrow> string \<Rightarrow> string \<Rightarrow> client \<Rightarrow> client" where
  "SetHostHeader canonical host key val c =
     (let h = (case cl_hostHeaders c host of Some h \<Rightarrow> h | None \<Rightarrow> [])
      in c\<lparr>cl_hostHeaders := (cl_hostHeaders c)(host \<mapsto> set_header canonical (key, val) h)\<rparr>)"

record Request =
  rq_URL :: string
  rq_Header :: headers
  rq_IfNoneMatch :: string
  rq_IfModifiedSince :: string
  rq_AcceptNotFound :: bool
  rq_NoCache :: bool

text \<open>The headers set by \<open>do\<close>, in its order; the entries of a header of the client or the request as it iterates them.\<close>

definition header_sets :: "client \<Rightarrow> string \<Rightarrow> Request \<Rightarrow> headers" where
  "header_sets c host req =
     [(''User-Agent'', cl_userAgent c)] @ (case cl_hostHeaders c host of Some h \<Rightarrow> h | None \<Rightarrow> []) @ rq_Header req
       @ (if rq_IfNoneMatch req \<noteq> [] then [(''If-None-Match'', rq_IfNoneMatch req)] else [])
       @ (if rq_IfModifiedSince req \<noteq> [] then [(''If-Modified-Since'', rq_IfModifiedSince req)] else [])
       @ (if rq_NoCache req then [(''Cache-Control'', ''no-cache''), (''Pragma'', ''no-cache'')] else [])"

definition request_headers :: "(string \<Rightarrow> string) \<Rightarrow> client \<Rightarrow> string \<Rightarrow> Request \<Rightarrow> headers" where
  "request_headers canonical c host req = fold (set_header canonical) (header_sets c host req) []"

section \<open>The text of an error\<close>

definition skip_element :: "string \<Rightarrow> string \<Rightarrow> string" where
  "skip_element tag rest =
     (let past = (\<lambda>skip. case before_text (''</'' @ skip) (to_lower rest) of Some b \<Rightarrow> drop (length b) rest | None \<Rightarrow> [])
      in if has_prefix tag ''script'' then past ''script''
         else if has_prefix tag ''style'' then past ''style''
         else rest)"

function stripTags :: "string \<Rightarrow> string" where
  "stripTags [] = []"
| "stripTags (c # s) =
     (if c \<noteq> CHR ''<'' then c # stripTags s
      else
        (case split_first CHR ''>'' s of
           None \<Rightarrow> []
         | Some (tag, rest) \<Rightarrow> CHR '' '' # stripTags (skip_element (to_lower tag) rest)))"
  by pat_completeness auto
termination
proof (relation "measure length", simp, simp)
  fix c :: char and s x tag rest
  assume "\<not> c \<noteq> CHR ''<''" "split_first CHR ''>'' s = Some x" "(tag, rest) = x"
  then have "split_first CHR ''>'' s = Some (tag, rest)" by simp
  then have "length rest < Suc (length s)" by (auto dest: split_first_Some)
  moreover have "length (skip_element (to_lower tag) rest) \<le> length rest"
    by (auto simp: skip_element_def Let_def split: option.splits)
  ultimately show "(skip_element (to_lower tag) rest, c # s) \<in> measure length" by simp
qed

definition errorBodyLimit :: nat where
  "errorBodyLimit = 200"

definition errorBody :: "string \<Rightarrow> string \<Rightarrow> string" where
  "errorBody contentType body =
     (let trimmed = trim_space body;
          visible = (if has_text (to_lower contentType) ''html'' \<or> has_prefix trimmed ''<'' then stripTags trimmed else trimmed);
          t = join '' '' (string_fields visible)
      in if length t > errorBodyLimit then take (rune_cut t errorBodyLimit) t @ ellipsis else t)"

definition prefixed :: "string \<Rightarrow> string \<Rightarrow> string" where
  "prefixed sep s = (if s = [] then [] else sep @ s)"

section \<open>What an answer means\<close>

text \<open>An answer of the transport: the status, \<open>Header.Get\<close>, and the body.\<close>

record http_answer =
  ha_Status :: int
  ha_Get :: "string \<Rightarrow> string"
  ha_Body :: string

record Response =
  re_URL :: string
  re_Status :: int
  re_Body :: string
  re_NotModified :: bool
  re_ETag :: string
  re_LastModified :: string

datatype failure = NotFound | ContextDone string | Permanent string | Transient string

datatype attempt = Answered Response | Failed failure int

definition rateLimitBackoff :: int where
  "rateLimitBackoff = 30 * second"

text \<open>\<open>parse_time\<close> is \<open>http.ParseTime\<close> and \<open>now\<close> the clock \<open>time.Until\<close> reads.\<close>

definition parseRetryAfter :: "(string \<Rightarrow> int option) \<Rightarrow> int \<Rightarrow> string \<Rightarrow> int \<times> bool" where
  "parseRetryAfter parse_time now v =
     (if trim_space v = [] then (0, False)
      else
        (case (case Atoi (trim_space v) of Some secs \<Rightarrow> if secs \<ge> 0 then Some secs else None | None \<Rightarrow> None) of
           Some secs \<Rightarrow> (int64 (secs * second), True)
         | None \<Rightarrow>
             (case parse_time v of
                Some t \<Rightarrow> if t - now > 0 then (t - now, True) else (0, True)
              | None \<Rightarrow> (0, False))))"

definition quoted_body :: "http_answer \<Rightarrow> string" where
  "quoted_body a = errorBody (ha_Get a ''Content-Type'') (take 2048 (ha_Body a))"

definition do_answer :: "(string \<Rightarrow> int option) \<Rightarrow> int \<Rightarrow> Request \<Rightarrow> http_answer \<Rightarrow> attempt" where
  "do_answer parse_time now req a =
     (if ha_Status a = 304 then
        Answered \<lparr>re_URL = rq_URL req, re_Status = 304, re_Body = [], re_NotModified = True,
                  re_ETag = ha_Get a ''ETag'', re_LastModified = ha_Get a ''Last-Modified''\<rparr>
      else if ha_Status a = 404 \<and> rq_AcceptNotFound req then Failed NotFound 0
      else if ha_Status a = 403 \<or> ha_Status a = 429 \<or> ha_Status a \<ge> 500 then
        (case parseRetryAfter parse_time now (ha_Get a ''Retry-After'') of (ra0, stated) \<Rightarrow>
           (let ra = (if \<not> stated \<and> ha_Status a < 500 then rateLimitBackoff else ra0)
            in Failed (Transient (''httpx: '' @ rq_URL req @ '': status '' @ Itoa (ha_Status a)
                 @ prefixed '': '' (ha_Get a ''message'') @ prefixed '' '' (quoted_body a))) ra))
      else if ha_Status a \<ge> 400 then
        Failed (Permanent (''httpx: '' @ rq_URL req @ '': status '' @ Itoa (ha_Status a) @ '': '' @ quoted_body a)) 0
      else
        Answered \<lparr>re_URL = rq_URL req, re_Status = ha_Status a, re_Body = ha_Body a, re_NotModified = False,
                  re_ETag = ha_Get a ''ETag'', re_LastModified = ha_Get a ''Last-Modified''\<rparr>)"

text \<open>What the transport came to: no request could be built, it failed, the context was done, or an answer.\<close>

datatype transport = Unbuildable string | Broken string | Done string | Arrived http_answer

definition do_request :: "(string \<Rightarrow> int option) \<Rightarrow> int \<Rightarrow> Request \<Rightarrow> transport \<Rightarrow> attempt" where
  "do_request parse_time now req t =
     (case t of
        Unbuildable err \<Rightarrow> Failed (Permanent err) 0
      | Broken err \<Rightarrow> Failed (Transient err) 0
      | Done err \<Rightarrow> Failed (ContextDone err) 0
      | Arrived a \<Rightarrow> do_answer parse_time now req a)"

section \<open>The retry loop\<close>

definition backoff :: "nat \<Rightarrow> int" where
  "backoff attempt =
     (let d = int64 (int64 (2 ^ (attempt - 1)) * second) in if d > 60 * second then 60 * second else d)"

datatype fetched = Fetched Response | Refused failure | Interrupted string | GaveUp nat failure

definition retryable :: "failure \<Rightarrow> bool" where
  "retryable f = (case f of Transient _ \<Rightarrow> True | _ \<Rightarrow> False)"

text \<open>
  The loop from attempt \<open>k\<close> on, with \<open>n\<close> attempts left; \<open>slept k\<close> and \<open>limited k\<close> are the errors, if any, of the sleep
  and of the limiter before attempt \<open>k\<close>. The result comes with the delays asked for.
\<close>

fun attempts :: "(nat \<Rightarrow> string option) \<Rightarrow> (nat \<Rightarrow> string option) \<Rightarrow> (nat \<Rightarrow> attempt) \<Rightarrow> nat \<Rightarrow> nat \<Rightarrow> int \<Rightarrow> failure \<Rightarrow> fetched \<times> int list" where
  "attempts slept limited tried k 0 delay lastErr = (GaveUp k lastErr, [])"
| "attempts slept limited tried k (Suc n) delay lastErr =
     (let asked = (if k > 0 then [delay] else []);
          woken = (if k > 0 then slept k else None)
      in case woken of
           Some err \<Rightarrow> (Interrupted err, asked)
         | None \<Rightarrow>
             (case limited k of
                Some err \<Rightarrow> (Interrupted err, asked)
              | None \<Rightarrow>
                  (case tried k of
                     Answered r \<Rightarrow> (Fetched r, asked)
                   | Failed f retryAfter \<Rightarrow>
                       if \<not> retryable f then (Refused f, asked)
                       else
                         (case attempts slept limited tried (Suc k) n
                             (if retryAfter > 0 then retryAfter else backoff (Suc k)) f of
                            (r, ds) \<Rightarrow> (r, asked @ ds)))))"

definition Fetch_loop :: "(nat \<Rightarrow> string option) \<Rightarrow> (nat \<Rightarrow> string option) \<Rightarrow> (nat \<Rightarrow> attempt) \<Rightarrow> int \<Rightarrow> fetched \<times> int list" where
  "Fetch_loop slept limited tried retries = attempts slept limited tried 0 (nat (retries + 1)) 0 (Transient [])"

definition ReadAllLimit :: "int \<Rightarrow> string \<Rightarrow> string" where
  "ReadAllLimit limit body = take (nat (if limit \<le> 0 then 512 * 2 ^ 20 else limit)) body"

section \<open>Attempts and delays\<close>

definition transient :: "attempt \<Rightarrow> bool" where
  "transient a \<longleftrightarrow> (case a of Failed f _ \<Rightarrow> retryable f | Answered _ \<Rightarrow> False)"

definition delay_after :: "attempt \<Rightarrow> nat \<Rightarrow> int" where
  "delay_after a k = (case a of Failed _ ra \<Rightarrow> if ra > 0 then ra else backoff k | Answered _ \<Rightarrow> 0)"

text \<open>How the loop ended, with \<open>j\<close> the last attempt it began and \<open>last\<close> the last it may make.\<close>

definition ended :: "(nat \<Rightarrow> string option) \<Rightarrow> (nat \<Rightarrow> string option) \<Rightarrow> (nat \<Rightarrow> attempt) \<Rightarrow> nat \<Rightarrow> nat \<Rightarrow> fetched \<Rightarrow> bool" where
  "ended slept limited tried j limit r \<longleftrightarrow>
     (case r of
        Fetched x \<Rightarrow> tried j = Answered x
      | Refused f \<Rightarrow> (\<exists>ra. tried j = Failed f ra) \<and> \<not> retryable f
      | Interrupted err \<Rightarrow> (j > 0 \<and> slept j = Some err) \<or> limited j = Some err
      | GaveUp k f \<Rightarrow> k = limit \<and> Suc j = limit \<and> (\<exists>ra. tried j = Failed f ra) \<and> retryable f)"

lemma attempts_course:
  assumes "attempts slept limited tried k n delay e = (r, ds)" "n > 0"
  shows "\<exists>j. k \<le> j \<and> j < k + n \<and> list_all (\<lambda>i. transient (tried i)) [k..<j]
    \<and> ds = (if k > 0 then [delay] else []) @ map (\<lambda>i. delay_after (tried i) (Suc i)) [k..<j]
    \<and> ended slept limited tried j (k + n) r"
  using assms
proof (induction n arbitrary: k delay e r ds)
  case (Suc n)
  let ?asked = "if k > 0 then [delay] else []"
  show ?case
  proof (cases "(if k > 0 then slept k else None) = None \<and> limited k = None \<and> transient (tried k)")
    case False
    then have "ds = ?asked \<and> ended slept limited tried k (k + Suc n) r"
      using Suc.prems(1)
      by (auto simp: Let_def ended_def transient_def split: option.splits attempt.splits if_splits)
    then show ?thesis by (intro exI [of _ k]) simp
  next
    case True
    then obtain f ra where f: "tried k = Failed f ra" "retryable f" by (auto simp: transient_def split: attempt.splits)
    let ?d = "if ra > 0 then ra else backoff (Suc k)"
    obtain r' es where rest: "attempts slept limited tried (Suc k) n ?d f = (r', es)"
      by (cases "attempts slept limited tried (Suc k) n ?d f")
    have eq: "ds = ?asked @ es" "r = r'"
      using Suc.prems(1) True f rest by (auto simp: Let_def split: if_splits)
    show ?thesis
    proof (cases "n = 0")
      case True
      then have "es = []" "r = GaveUp (Suc k) f" using rest eq(2) by simp_all
      then have "ended slept limited tried k (k + Suc n) r" using True f by (simp add: ended_def)
      then show ?thesis using eq(1) \<open>es = []\<close> by (intro exI [of _ k]) simp
    next
      case False
      then obtain j where j: "Suc k \<le> j" "j < Suc k + n" "list_all (\<lambda>i. transient (tried i)) [Suc k..<j]"
          "es = [?d] @ map (\<lambda>i. delay_after (tried i) (Suc i)) [Suc k..<j]" "ended slept limited tried j (Suc k + n) r'"
        using Suc.IH [OF rest] by auto
      have up: "[k..<j] = k # [Suc k..<j]" using j(1) by (simp add: upt_conv_Cons)
      have "delay_after (tried k) (Suc k) = ?d" using f(1) by (simp add: delay_after_def)
      then have "ds = ?asked @ map (\<lambda>i. delay_after (tried i) (Suc i)) [k..<j]" using eq(1) j(4) up by simp
      moreover have "list_all (\<lambda>i. transient (tried i)) [k..<j]" using j(3) up \<open>_ \<and> _ \<and> transient (tried k)\<close> by simp
      ultimately show ?thesis using j(1,2,5) eq(2) by (intro exI [of _ j]) simp
    qed
  qed
qed simp

lemma Fetch_loop_course:
  assumes "Fetch_loop slept limited tried retries = (r, ds)" "0 \<le> retries"
  shows "\<exists>j. int j \<le> retries \<and> list_all (\<lambda>i. transient (tried i)) [0..<j]
    \<and> ds = map (\<lambda>i. delay_after (tried i) (Suc i)) [0..<j] \<and> ended slept limited tried j (nat (retries + 1)) r"
proof -
  have "0 < nat (retries + 1)" using assms(2) by simp
  from attempts_course [OF assms(1) [unfolded Fetch_loop_def] this]
  obtain j where "j < nat (retries + 1)" "list_all (\<lambda>i. transient (tried i)) [0..<j]"
      "ds = map (\<lambda>i. delay_after (tried i) (Suc i)) [0..<j]" "ended slept limited tried j (nat (retries + 1)) r" by auto
  then show ?thesis using assms(2) by (intro exI [of _ j]) auto
qed

section \<open>The backoff\<close>

lemma backoff_doubles:
  assumes "1 \<le> k" "k \<le> 34"
  shows "backoff k = min (2 ^ (k - 1)) 60 * second"
proof -
  define d :: int where "d = 2 ^ (k - 1)"
  have "(2 :: int) ^ (k - 1) \<le> 2 ^ 33" using assms by (intro power_increasing) auto
  then have p: "d \<le> 8589934592" "1 \<le> d" by (simp_all add: d_def)
  then have "int64 d = d" "int64 (d * second) = d * second" by (intro int64_id; simp add: second_def)+
  then show ?thesis unfolding backoff_def Let_def d_def [symmetric] by (auto simp: second_def min_def)
qed

lemma backoff_overflows: "backoff 35 < 0"
  by (simp add: backoff_def int64_def second_def Let_def)

lemma backoff_vanishes:
  assumes "65 \<le> k"
  shows "backoff k = 0"
proof -
  define j where "j = k - 65"
  have j: "k - 1 = 64 + j" using assms by (simp add: j_def)
  have "int64 (2 ^ 64 * m) = 0" for m :: int
    unfolding int64_def by (subst mult.commute, subst add.commute, subst mod_mult_self1) simp
  moreover have "(2 :: int) ^ (k - 1) = 2 ^ 64 * 2 ^ j" by (simp only: j power_add)
  ultimately have "int64 (2 ^ (k - 1)) = 0" by (simp only:)
  then show ?thesis by (simp only: backoff_def Let_def) (simp add: int64_def second_def)
qed

section \<open>Error texts\<close>

lemma skip_element_sub: "set (skip_element tag rest) \<subseteq> set rest" "length (skip_element tag rest) \<le> length rest"
  by (auto simp: skip_element_def Let_def split: option.splits dest: in_set_dropD)

lemma stripTags_plain: "CHR ''<'' \<notin> set (stripTags s)"
  by (induction s rule: stripTags.induct) (auto split: option.splits prod.splits)

lemma stripTags_length: "length (stripTags s) \<le> length s"
proof (induction s rule: stripTags.induct)
  case (2 c s)
  show ?case
  proof (cases "c \<noteq> CHR ''<''")
    case True
    then show ?thesis using 2(1) by simp
  next
    case False
    show ?thesis
    proof (cases "split_first CHR ''>'' s")
      case None
      then show ?thesis using False by simp
    next
      case (Some p)
      obtain tag rest where p: "p = (tag, rest)" by (cases p)
      have "length (stripTags (skip_element (to_lower tag) rest)) \<le> length (skip_element (to_lower tag) rest)"
        by (rule 2(2) [OF False Some p [symmetric]])
      moreover have "length rest < length s" using Some p by (auto dest: split_first_Some)
      ultimately show ?thesis using False Some p skip_element_sub(2) [of "to_lower tag" rest] by simp
    qed
  qed
qed simp

lemma errorBody_length: "length (errorBody contentType body) \<le> errorBodyLimit + 3"
proof -
  have "length (take (rune_cut t errorBodyLimit) t) \<le> errorBodyLimit" for t
    using rune_cut_le [of t errorBodyLimit] by simp
  then show ?thesis by (auto simp: errorBody_def Let_def ellipsis_def)
qed

lemma join_fields_chars: "c \<in> set (join '' '' (string_fields t)) \<Longrightarrow> c = CHR '' '' \<or> c \<in> set t"
proof -
  have f: "p \<in> set (fields_from w s) \<Longrightarrow> set p \<subseteq> set w \<union> set s" for p w s
    by (induction w s rule: fields_from.induct) (auto split: if_splits)
  assume "c \<in> set (join '' '' (string_fields t))"
  from join_chars [OF this] show ?thesis using f [of _ "[]" t] by (auto simp: string_fields_def)
qed

lemma errorBody_no_tags:
  assumes "has_text (to_lower contentType) ''html'' \<or> has_prefix (trim_space body) ''<''"
  shows "CHR ''<'' \<notin> set (errorBody contentType body)"
proof -
  let ?t = "join '' '' (string_fields (stripTags (trim_space body)))"
  have "CHR ''<'' \<notin> set ?t" using join_fields_chars [of "CHR ''<''"] stripTags_plain by auto
  then have "CHR ''<'' \<notin> set (take n ?t)" for n using in_set_takeD by metis
  then show ?thesis using assms \<open>CHR ''<'' \<notin> set ?t\<close> by (simp add: errorBody_def Let_def ellipsis_def)
qed

section \<open>Settings\<close>

lemma default_rates_spaced: "list_all (\<lambda>(_, s). rt_minInterval s \<le> rt_window s \<and> 1 \<le> rt_burst s) default_rates"
  by (simp add: default_rates_def rate_spec_def second_def)

lemma limiterFor_same:
  "limiterFor host c = (l, c') \<Longrightarrow> limiterFor host c' = (l, c') \<and> cl_rates c' = cl_rates c"
  by (auto simp: limiterFor_def Let_def split: option.splits)

end
