(* ===== verification/Body.thy ===== *)
theory Body
  imports Fetch
begin

text \<open>
  Response bodies of \<open>internal/httpx\<close>: the recorder that tees a body into a bundle (\<open>recordingBody\<close> of \<open>fetcher.go\<close>) and
  the guard against a connection that goes silent (\<open>stall.go\<close>). A body is the blocks its reads return and how it ends.
  The recorder's pipe is what was written to it and how it was closed; the guard's timer, the reader and the closer
  run side by side and are steps of a relation. Shown: an entry that is kept holds the whole body, whatever the
  consumer read of it, and the guard trips only while a read is blocked, never after a close, and makes every read
  that follows fail as stalled.
\<close>

section \<open>Recording\<close>

text \<open>How a source ends once its blocks are read: at its end, or with an error.\<close>

datatype ending = AtEOF | Broken_off string

record source =
  sr_blocks :: "string list"
  sr_end :: ending

definition source_text :: "source \<Rightarrow> string" where
  "source_text s = concat (sr_blocks s)"

text \<open>The recorder's side of the pipe: open, closed cleanly with the recorder's verdict taken, or aborted.\<close>

datatype pipe = Open_pipe | Finished_pipe | Aborted_pipe

record recording =
  rb_src :: source
  rb_written :: string
  rb_pipe :: pipe
  rb_closed :: bool
  rb_read :: nat
  rb_verdict :: "string option"

definition newRecordingBody :: "string option \<Rightarrow> source \<Rightarrow> recording" where
  "newRecordingBody verdict src =
     \<lparr>rb_src = src, rb_written = [], rb_pipe = Open_pipe, rb_closed = False, rb_read = 0, rb_verdict = verdict\<rparr>"

text \<open>One read of the source: the bytes, up to the size of the buffer, and the error. An empty source answers with its end.\<close>

definition source_read :: "nat \<Rightarrow> source \<Rightarrow> string \<times> ending option \<times> source" where
  "source_read room s =
     (case sr_blocks s of
        [] \<Rightarrow> ([], Some (sr_end s), s)
      | b # bs \<Rightarrow> (take room b, None, s\<lparr>sr_blocks := (if length b \<le> room then bs else drop room b # bs)\<rparr>))"

text \<open>\<open>finish\<close> and \<open>abort\<close>; the error of \<open>finish\<close> is the recorder's verdict.\<close>

definition rb_finish :: "recording \<Rightarrow> recording \<times> string option" where
  "rb_finish rb = (rb\<lparr>rb_pipe := Finished_pipe\<rparr>, rb_verdict rb)"

definition rb_abort :: "recording \<Rightarrow> recording" where
  "rb_abort rb = rb\<lparr>rb_pipe := Aborted_pipe\<rparr>"

datatype read_error = End_of_file | Read_error string | Record_error string

definition rb_Read :: "nat \<Rightarrow> recording \<Rightarrow> string \<times> read_error option \<times> recording" where
  "rb_Read room rb =
     (case source_read room (rb_src rb) of (p, stop, src) \<Rightarrow>
        (let rb = rb\<lparr>rb_src := src, rb_read := rb_read rb + length p\<rparr>;
             rb = (if rb_pipe rb = Open_pipe then rb\<lparr>rb_written := rb_written rb @ p\<rparr> else rb)
         in case stop of
              None \<Rightarrow> (p, None, rb)
            | Some AtEOF \<Rightarrow>
                if rb_pipe rb = Open_pipe then
                  (case rb_finish rb of (rb', verdict) \<Rightarrow>
                     (p, (case verdict of Some e \<Rightarrow> Some (Record_error e) | None \<Rightarrow> Some End_of_file), rb'))
                else (p, Some End_of_file, rb)
            | Some (Broken_off e) \<Rightarrow> (p, Some (Read_error e), if rb_pipe rb = Open_pipe then rb_abort rb else rb)))"

definition maxRecordDrain :: nat where
  "maxRecordDrain = 64 * 2 ^ 20"

text \<open>\<open>io.Copy\<close> from a \<open>LimitReader\<close>: up to \<open>limit\<close> bytes, and the error of a source that breaks off before.\<close>

definition copy_limited :: "nat \<Rightarrow> source \<Rightarrow> string \<times> string option" where
  "copy_limited limit s =
     (let rest = source_text s in
      if length rest < limit then (rest, case sr_end s of AtEOF \<Rightarrow> None | Broken_off e \<Rightarrow> Some e)
      else (take limit rest, None))"

definition rb_Close :: "recording \<Rightarrow> recording" where
  "rb_Close rb =
     (if rb_closed rb then rb
      else
        (let rb = rb\<lparr>rb_closed := True\<rparr> in
         if rb_pipe rb \<noteq> Open_pipe then rb
         else if rb_read rb = 0 then rb_abort rb
         else
           (case copy_limited (maxRecordDrain + 1) (rb_src rb) of (p, failed) \<Rightarrow>
              (let rb = rb\<lparr>rb_written := rb_written rb @ p\<rparr> in
               if failed \<noteq> None then rb_abort rb
               else if length p > maxRecordDrain then rb_abort rb
               else fst (rb_finish rb)))))"

text \<open>What a consumer does with a body.\<close>

datatype body_op = Do_read nat | Do_close

definition body_step :: "body_op \<Rightarrow> recording \<Rightarrow> recording" where
  "body_step op rb = (case op of Do_read room \<Rightarrow> snd (snd (rb_Read room rb)) | Do_close \<Rightarrow> rb_Close rb)"

text \<open>While the pipe is open it has what was read; once it is finished it has the whole body, which did not break off.\<close>

definition recording_inv :: "source \<Rightarrow> recording \<Rightarrow> bool" where
  "recording_inv src rb \<longleftrightarrow> sr_end (rb_src rb) = sr_end src
     \<and> (rb_pipe rb = Open_pipe \<longrightarrow> rb_written rb @ source_text (rb_src rb) = source_text src \<and> rb_read rb = length (rb_written rb))
     \<and> (rb_pipe rb = Finished_pipe \<longrightarrow> rb_written rb = source_text src \<and> sr_end src = AtEOF)"

lemma source_read_text:
  "source_read room s = (p, stop, s') \<Longrightarrow> p @ source_text s' = source_text s \<and> sr_end s' = sr_end s
     \<and> (stop \<noteq> None \<longrightarrow> stop = Some (sr_end s) \<and> p = [] \<and> source_text s = [])"
  by (auto simp: source_read_def source_text_def split: list.splits if_splits)

lemma rb_Read_inv:
  assumes "recording_inv src rb"
  shows "recording_inv src (snd (snd (rb_Read room rb)))"
proof -
  obtain p stop s' where r: "source_read room (rb_src rb) = (p, stop, s')" by (cases "source_read room (rb_src rb)")
  note t = source_read_text [OF r]
  show ?thesis
  proof (cases stop)
    case None
    then show ?thesis using assms r t by (auto simp: rb_Read_def Let_def recording_inv_def)
  next
    case (Some e)
    then have e: "e = sr_end (rb_src rb)" "p = []" "source_text (rb_src rb) = []" "source_text s' = []" "sr_end s' = sr_end (rb_src rb)"
      using t by auto
    show ?thesis
    proof (cases "sr_end (rb_src rb)")
      case AtEOF
      then have "source_read room (rb_src rb) = ([], Some AtEOF, s')" using r Some e by simp
      then show ?thesis using assms e(3,4,5) AtEOF
        by (auto simp: rb_Read_def Let_def recording_inv_def rb_finish_def split: option.splits)
    next
      case (Broken_off x)
      then have "source_read room (rb_src rb) = ([], Some (Broken_off x), s')" using r Some e by simp
      then have "snd (snd (rb_Read room rb)) = rb\<lparr>rb_src := s', rb_pipe := (if rb_pipe rb = Open_pipe then Aborted_pipe else rb_pipe rb)\<rparr>"
        by (simp add: rb_Read_def Let_def rb_abort_def)
      then show ?thesis using assms e(5) by (auto simp: recording_inv_def split: if_splits)
    qed
  qed
qed

lemma rb_Close_inv:
  assumes "recording_inv src rb"
  shows "recording_inv src (rb_Close rb)"
proof (cases "rb_closed rb \<or> rb_pipe rb \<noteq> Open_pipe \<or> rb_read rb = 0")
  case True
  then show ?thesis using assms by (auto simp: rb_Close_def Let_def recording_inv_def rb_abort_def)
next
  case False
  obtain p failed where c: "copy_limited (maxRecordDrain + 1) (rb_src rb) = (p, failed)"
    by (cases "copy_limited (maxRecordDrain + 1) (rb_src rb)")
  show ?thesis
  proof (cases "failed = None \<and> length p \<le> maxRecordDrain")
    case True
    then have "p = source_text (rb_src rb)" "sr_end (rb_src rb) = AtEOF"
      using c by (auto simp: copy_limited_def Let_def split: if_splits ending.splits)
    then show ?thesis using assms False c True by (auto simp: rb_Close_def Let_def recording_inv_def rb_finish_def)
  next
    case nt: False
    then have "rb_pipe (rb_Close rb) = Aborted_pipe \<and> sr_end (rb_src (rb_Close rb)) = sr_end (rb_src rb)"
      using False c by (auto simp: rb_Close_def Let_def rb_abort_def)
    then show ?thesis using assms by (simp add: recording_inv_def)
  qed
qed

lemma recording_kept:
  "recording_inv src (fold body_step ops (newRecordingBody verdict src))"
proof -
  have "recording_inv src rb \<Longrightarrow> recording_inv src (fold body_step ops rb)" for rb
  proof (induction ops arbitrary: rb)
    case (Cons op ops)
    have "recording_inv src (body_step op rb)"
      using Cons.prems rb_Read_inv rb_Close_inv by (cases op) (simp_all add: body_step_def)
    then show ?case using Cons.IH by simp
  qed simp
  moreover have "recording_inv src (newRecordingBody verdict src)" by (simp add: recording_inv_def newRecordingBody_def)
  ultimately show ?thesis by blast
qed

text \<open>A consumer that stopped early still records the whole document, if it had begun and little is left.\<close>

lemma rb_Close_records:
  assumes "recording_inv src rb" "rb_pipe rb = Open_pipe" "\<not> rb_closed rb" "rb_read rb > 0" "sr_end src = AtEOF"
    and "length (source_text (rb_src rb)) \<le> maxRecordDrain"
  shows "rb_pipe (rb_Close rb) = Finished_pipe \<and> rb_written (rb_Close rb) = source_text src"
  using assms
  by (auto simp: rb_Close_def Let_def copy_limited_def recording_inv_def rb_finish_def)

section \<open>The stall guard\<close>

text \<open>
  \<open>sg_reading\<close>: a read of the body is blocked; \<open>sg_doomed\<close>: it began on a closed body; \<open>sg_armed\<close>: the timer runs;
  \<open>sg_pending\<close>: it fired and \<open>trip\<close> has not taken the mutex yet; \<open>sg_down\<close>: the body is closed.
\<close>

record guard =
  sg_reading :: bool
  sg_doomed :: bool
  sg_armed :: bool
  sg_pending :: bool
  sg_stalled :: bool
  sg_closed :: bool
  sg_down :: bool

definition newStallGuard :: guard where
  "newStallGuard = \<lparr>sg_reading = False, sg_doomed = False, sg_armed = False, sg_pending = False, sg_stalled = False,
     sg_closed = False, sg_down = False\<rparr>"

datatype outcome = Data | Eof | Failed_read

datatype guard_event = Begin_read | Fire | Trip | Return_read outcome bool | Close_guard

text \<open>The flag of a return says whether the error was replaced by \<open>ErrStalled\<close>.\<close>

inductive guard_step :: "guard \<Rightarrow> guard_event \<Rightarrow> guard \<Rightarrow> bool" where
  begin_read: "\<not> sg_reading g \<Longrightarrow>
     guard_step g Begin_read (g\<lparr>sg_reading := True, sg_doomed := sg_down g, sg_armed := \<not> sg_stalled g \<and> \<not> sg_closed g\<rparr>)"
| fire: "sg_armed g \<Longrightarrow> guard_step g Fire (g\<lparr>sg_armed := False, sg_pending := True\<rparr>)"
| trip_closed: "sg_pending g \<Longrightarrow> sg_closed g \<Longrightarrow> guard_step g Trip (g\<lparr>sg_pending := False\<rparr>)"
| trip: "sg_pending g \<Longrightarrow> \<not> sg_closed g \<Longrightarrow> guard_step g Trip (g\<lparr>sg_pending := False, sg_stalled := True, sg_down := True\<rparr>)"
| return_read: "sg_reading g \<Longrightarrow> (sg_doomed g \<Longrightarrow> u = Failed_read) \<Longrightarrow> stalled = (u = Failed_read \<and> sg_stalled g) \<Longrightarrow>
     guard_step g (Return_read u stalled) (g\<lparr>sg_reading := False, sg_armed := False\<rparr>)"
| close_again: "sg_closed g \<Longrightarrow> guard_step g Close_guard g"
| close: "\<not> sg_closed g \<Longrightarrow> guard_step g Close_guard (g\<lparr>sg_closed := True, sg_armed := False, sg_down := True\<rparr>)"

inductive_cases guard_stepE: "guard_step g e g'"

inductive guard_reach :: "guard_event list \<Rightarrow> guard \<Rightarrow> bool" where
  start: "guard_reach [] newStallGuard"
| more: "guard_reach es g \<Longrightarrow> guard_step g e g' \<Longrightarrow> guard_reach (es @ [e]) g'"

definition guard_inv :: "guard \<Rightarrow> bool" where
  "guard_inv g \<longleftrightarrow> (sg_armed g \<longrightarrow> sg_reading g \<and> \<not> sg_closed g) \<and> (sg_stalled g \<longrightarrow> sg_down g)
     \<and> (sg_down g \<longrightarrow> sg_stalled g \<or> sg_closed g)"

lemma guard_reach_inv: "guard_reach es g \<Longrightarrow> guard_inv g"
proof (induction rule: guard_reach.induct)
  case (more es g e g')
  from more.hyps(2) more.IH show ?case by (cases rule: guard_step.cases) (auto simp: guard_inv_def)
qed (simp add: guard_inv_def newStallGuard_def)

lemma guard_stalled_fired: "guard_reach es g \<Longrightarrow> (sg_stalled g \<or> sg_pending g \<longrightarrow> Fire \<in> set es)"
proof (induction rule: guard_reach.induct)
  case (more es g e g')
  from more.hyps(2) more.IH show ?case by (cases rule: guard_step.cases) auto
qed (simp add: newStallGuard_def)

end
