(* ===== verification/Dotenv.thy ===== *)
theory Dotenv
  imports Package_Url Inventory Go_Text
begin

text \<open>
  \<open>internal/config/dotenv.go\<close>: the .env file the command shares with docker compose, and the DSN composed from it. An
  environment is a partial map; opening a file and the directory above another are arguments. What \<open>net/url\<close> does to
  write a URL is modelled from its source. Shown: a quoted value is read back literally and an unquoted one without
  its comment, a variable that is set wins over the file, and a composed DSN is aimed at this machine and holds the
  user and the password the file states, whatever characters they are made of.
\<close>

type_synonym environment = "string \<rightharpoonup> string"

section \<open>Values\<close>

text \<open>\<open>strings.ReplaceAll\<close> of two dollars by one.\<close>

fun undoubleDollar :: "string \<Rightarrow> string" where
  "undoubleDollar (c # d # s) =
     (if c = CHR ''$'' \<and> d = CHR ''$'' then CHR ''$'' # undoubleDollar s else c # undoubleDollar (d # s))"
| "undoubleDollar s = s"

definition blank :: "char \<Rightarrow> bool" where
  "blank c \<longleftrightarrow> c = CHR '' '' \<or> c = CHR 0x09"

text \<open>The loop over the positions from one on: the text before the first hash behind a blank.\<close>

fun before_comment :: "string \<Rightarrow> string option" where
  "before_comment (c # d # s) =
     (if d = CHR ''#'' \<and> blank c then Some [c] else map_option (\<lambda>b. c # b) (before_comment (d # s)))"
| "before_comment s = None"

definition quoted_value :: "string \<Rightarrow> string option" where
  "quoted_value val =
     (case val of
        q # rest \<Rightarrow>
          if rest \<noteq> [] \<and> (q = CHR 0x22 \<or> q = CHR 0x27) then
            (case split_first q rest of
               Some (inner, _) \<Rightarrow> Some (if q = CHR 0x27 then inner else undoubleDollar inner)
             | None \<Rightarrow> None)
          else None
      | [] \<Rightarrow> None)"

definition dotenvValue :: "string \<Rightarrow> string" where
  "dotenvValue val =
     (case quoted_value val of
        Some v \<Rightarrow> v
      | None \<Rightarrow>
          (case before_comment val of
             Some b \<Rightarrow> undoubleDollar (trim_space b)
           | None \<Rightarrow> if has_prefix val ''#'' then [] else undoubleDollar val))"

section \<open>The file\<close>

text \<open>\<open>bufio.Scanner\<close> with its default buffer stops at a line that does not fit.\<close>

definition maxScanLine :: nat where
  "maxScanLine = 64 * 2 ^ 10"

definition dotenv_lines :: "string \<Rightarrow> string list" where
  "dotenv_lines doc = map drop_cr (takeWhile (\<lambda>l. length l < maxScanLine) (raw_lines doc))"

definition dotenv_setting :: "string \<Rightarrow> (string \<times> string) option" where
  "dotenv_setting line0 =
     (let line = trim_space line0 in
      if line = [] \<or> has_prefix line ''#'' then None
      else
        (case cut CHR ''='' (trim_prefix line ''export '') of (key0, val, ok) \<Rightarrow>
           (let key = trim_space key0 in
            if \<not> ok then None
            else if key = [] \<or> list_ex blank key then None
            else Some (key, dotenvValue (trim_space val)))))"

definition put_setting :: "string \<Rightarrow> environment \<Rightarrow> environment" where
  "put_setting line out = (case dotenv_setting line of None \<Rightarrow> out | Some (k, v) \<Rightarrow> out(k \<mapsto> v))"

definition parseDotenv :: "string \<Rightarrow> environment" where
  "parseDotenv doc = fold put_setting (dotenv_lines doc) Map.empty"

definition dotenvSearchDepth :: nat where
  "dotenvSearchDepth = 4"

text \<open>The search upwards, with \<open>n\<close> directories left to look in; \<open>opened\<close> is the .env file of a directory, if it opens.\<close>

fun search_up :: "(string \<Rightarrow> string option) \<Rightarrow> (string \<Rightarrow> string) \<Rightarrow> nat \<Rightarrow> string \<Rightarrow> environment option" where
  "search_up opened parent 0 dir = None"
| "search_up opened parent (Suc n) dir =
     (case opened dir of
        Some doc \<Rightarrow> Some (parseDotenv doc)
      | None \<Rightarrow> if parent dir = dir then None else search_up opened parent n (parent dir))"

definition loadDotenv :: "(string \<Rightarrow> string option) \<Rightarrow> (string \<Rightarrow> string) \<Rightarrow> string \<Rightarrow> environment option" where
  "loadDotenv opened parent dir = search_up opened parent (dotenvSearchDepth + 1) dir"

definition applyDotenv :: "environment \<Rightarrow> environment \<Rightarrow> environment" where
  "applyDotenv env penv = (\<lambda>k. case penv k of Some v \<Rightarrow> Some v | None \<Rightarrow> env k)"

section \<open>The DSN\<close>

definition lookup_or_empty :: "environment \<Rightarrow> string \<Rightarrow> string" where
  "lookup_or_empty env k = (case env k of Some v \<Rightarrow> v | None \<Rightarrow> [])"

fun first_nonempty :: "string list \<Rightarrow> string" where
  "first_nonempty [] = []"
| "first_nonempty (v # vs) = (if v \<noteq> [] then v else first_nonempty vs)"

definition dsnHostPort :: "string \<Rightarrow> string" where
  "dsnHostPort dsn =
     (case split_last CHR ''@'' dsn of
        None \<Rightarrow> []
      | Some (_, rest) \<Rightarrow> takeWhile (\<lambda>c. c \<noteq> CHR ''/'' \<and> c \<noteq> CHR ''?'') rest)"

definition dsnHost :: "string \<Rightarrow> string" where
  "dsnHost dsn = (case split_first CHR '':'' (dsnHostPort dsn) of Some (h, _) \<Rightarrow> h | None \<Rightarrow> dsnHostPort dsn)"

definition dsnPortSuffix :: "string \<Rightarrow> string" where
  "dsnPortSuffix dsn = (case split_first CHR '':'' (dsnHostPort dsn) of Some (_, port) \<Rightarrow> '':'' @ port | None \<Rightarrow> [])"

definition isComposeServiceName :: "string \<Rightarrow> bool" where
  "isComposeServiceName h \<longleftrightarrow> h \<in> {''postgres'', ''db'', ''database''}"

text \<open>\<open>strings.Replace\<close> of the first occurrence.\<close>

definition replace_first :: "string \<Rightarrow> string \<Rightarrow> string \<Rightarrow> string" where
  "replace_first s old_text new_text =
     (case before_text old_text s of None \<Rightarrow> s | Some b \<Rightarrow> b @ new_text @ drop (length b + length old_text) s)"

text \<open>The escaping of \<open>net/url\<close> for the parts of a URL.\<close>

definition alphanumeric :: "char \<Rightarrow> bool" where
  "alphanumeric c \<longleftrightarrow> ascii_upper c \<or> ascii_lower c \<or> (CHR ''0'' \<le> c \<and> c \<le> CHR ''9'')"

definition unreserved :: "char \<Rightarrow> bool" where
  "unreserved c \<longleftrightarrow> alphanumeric c \<or> c \<in> set ''-_.~''"

definition user_safe :: "char \<Rightarrow> bool" where
  "user_safe c \<longleftrightarrow> unreserved c \<or> c \<in> set ''$&+,;=''"

definition path_safe :: "char \<Rightarrow> bool" where
  "path_safe c \<longleftrightarrow> unreserved c \<or> c \<in> set ''$&+,/:;=@''"

definition host_safe :: "char \<Rightarrow> bool" where
  "host_safe c \<longleftrightarrow> unreserved c \<or> c \<in> set ''!$&()*+,;=:[]<>'' \<or> c = CHR 0x27 \<or> c = CHR 0x22"

definition escape_one :: "(char \<Rightarrow> bool) \<Rightarrow> char \<Rightarrow> string" where
  "escape_one safe c = (if safe c then [c] else [CHR ''%'', hex_digit (of_char c div 16), hex_digit (of_char c mod 16)])"

definition url_escape :: "(char \<Rightarrow> bool) \<Rightarrow> string \<Rightarrow> string" where
  "url_escape safe s = concat (map (escape_one safe) s)"

text \<open>\<open>URL.String\<close> for the URL the code builds.\<close>

definition postgres_url :: "string \<Rightarrow> string \<Rightarrow> string \<Rightarrow> string \<Rightarrow> string" where
  "postgres_url user pass port db =
     ''postgres://'' @ url_escape user_safe user @ '':'' @ url_escape user_safe pass @ ''@'' @ url_escape host_safe (''localhost:'' @ port)
       @ url_escape path_safe (''/'' @ db) @ ''?sslmode=disable''"

definition dsnFromDotenv :: "environment option \<Rightarrow> string" where
  "dsnFromDotenv env0 =
     (case env0 of
        None \<Rightarrow> []
      | Some env \<Rightarrow>
          (let dsn = lookup_or_empty env ''CVEFEED_DATABASE_URL'';
               redirected = replace_first dsn (''@'' @ dsnHostPort dsn) (''@localhost'' @ dsnPortSuffix dsn);
               pass = lookup_or_empty env ''POSTGRES_PASSWORD''
           in if dsn \<noteq> [] \<and> \<not> isComposeServiceName (dsnHost dsn) then dsn
              else if dsn \<noteq> [] \<and> redirected \<noteq> dsn then redirected
              else if pass = [] then []
              else postgres_url (first_nonempty [lookup_or_empty env ''POSTGRES_USER'', ''cvefeed'']) pass
                     (first_nonempty [lookup_or_empty env ''POSTGRES_PORT'', ''5432''])
                     (first_nonempty [lookup_or_empty env ''POSTGRES_DB'', ''cvefeed''])))"

section \<open>Values are read back\<close>

lemma undouble_none: "CHR ''$'' \<notin> set s \<Longrightarrow> undoubleDollar s = s"
  by (induction s rule: undoubleDollar.induct) auto

text \<open>What compose asks for: every dollar doubled.\<close>

definition double_dollar :: "string \<Rightarrow> string" where
  "double_dollar s = concat (map (\<lambda>c. if c = CHR ''$'' then ''$$'' else [c]) s)"

lemma double_dollar_hd: "double_dollar s = c # t \<Longrightarrow> c \<noteq> CHR ''$'' \<Longrightarrow> \<exists>u. s = c # u"
  by (cases s) (auto simp: double_dollar_def split: if_splits)

lemma undouble_double: "undoubleDollar (double_dollar s) = s"
proof (induction s)
  case (Cons c s)
  show ?case
  proof (cases "c = CHR ''$''")
    case True
    then show ?thesis using Cons by (simp add: double_dollar_def)
  next
    case False
    have "undoubleDollar (c # t) = c # undoubleDollar t" for t using False by (cases t) simp_all
    then show ?thesis using Cons False by (simp add: double_dollar_def)
  qed
qed (simp add: double_dollar_def)

lemma dotenvValue_single:
  assumes "CHR 0x27 \<notin> set v"
  shows "dotenvValue (CHR 0x27 # v @ CHR 0x27 # rest) = v"
  using assms split_first_append [of "CHR 0x27" v rest] by (simp add: dotenvValue_def quoted_value_def)

lemma dotenvValue_double:
  assumes "CHR 0x22 \<notin> set v"
  shows "dotenvValue (CHR 0x22 # double_dollar v @ CHR 0x22 # rest) = v"
proof -
  have "CHR 0x22 \<notin> set (double_dollar v)" using assms by (auto simp: double_dollar_def)
  then show ?thesis using split_first_append [of "CHR 0x22" "double_dollar v" rest]
    by (simp add: dotenvValue_def quoted_value_def undouble_double)
qed

text \<open>An unquoted value: no hash behind a blank, no blank at its ends, and not started by a quote or a hash.\<close>

lemma before_comment_None:
  "before_comment s = None \<longleftrightarrow> (\<nexists>a c b. s = a @ c # CHR ''#'' # b \<and> blank c)"
proof (induction s rule: before_comment.induct)
  case (1 c d s)
  show ?case
  proof (cases "d = CHR ''#'' \<and> blank c")
    case True
    then have "c # d # s = [] @ c # CHR ''#'' # s \<and> blank c" by simp
    then show ?thesis using True by (metis before_comment.simps(1) option.distinct(1))
  next
    case False
    have "(\<exists>a x b. c # d # s = a @ x # CHR ''#'' # b \<and> blank x) \<longleftrightarrow> (\<exists>a x b. d # s = a @ x # CHR ''#'' # b \<and> blank x)"
    proof
      assume "\<exists>a x b. c # d # s = a @ x # CHR ''#'' # b \<and> blank x"
      then obtain a x b where "c # d # s = a @ x # CHR ''#'' # b" "blank x" by blast
      then show "\<exists>a x b. d # s = a @ x # CHR ''#'' # b \<and> blank x" using False by (cases a) auto
    next
      assume "\<exists>a x b. d # s = a @ x # CHR ''#'' # b \<and> blank x"
      then show "\<exists>a x b. c # d # s = a @ x # CHR ''#'' # b \<and> blank x" by (metis append_Cons)
    qed
    then show ?thesis using 1 False by auto
  qed
qed (auto simp: Cons_eq_append_conv append_eq_Cons_conv)

lemma dotenvValue_bare:
  assumes "before_comment (double_dollar v) = None" "\<not> has_prefix v ''#''" "\<not> has_prefix v [CHR 0x22]" "\<not> has_prefix v [CHR 0x27]"
  shows "dotenvValue (double_dollar v) = v"
proof (cases v)
  case Nil
  then show ?thesis by (simp add: dotenvValue_def quoted_value_def double_dollar_def has_prefix_def)
next
  case (Cons c w)
  then have "c \<noteq> CHR ''#''" "c \<noteq> CHR 0x22" "c \<noteq> CHR 0x27" using assms(2-4) by (auto simp: has_prefix_def)
  then obtain d t where d: "double_dollar v = d # t" "d \<noteq> CHR ''#''" "d \<noteq> CHR 0x22" "d \<noteq> CHR 0x27"
    using Cons by (cases "c = CHR ''$''") (auto simp: double_dollar_def)
  then have "quoted_value (double_dollar v) = None" "\<not> has_prefix (double_dollar v) ''#''"
    by (simp_all add: quoted_value_def has_prefix_def)
  then show ?thesis using assms(1) by (simp add: dotenvValue_def undouble_double)
qed

section \<open>The composed DSN\<close>

lemma below_sixteen: "n < 16 \<Longrightarrow> n \<in> {0, 1, 2, 3, 4, 5, 6, 7, 8, 9, 10, 11, 12, 13, 14, 15 :: nat}"
  by (simp only: insert_iff empty_iff) arith

lemma hex_digit_cases: "n < 16 \<Longrightarrow> hex_digit n = ''0123456789ABCDEF'' ! n"
  by (drule below_sixteen) (elim insertE emptyE, simp_all add: hex_digit_def char_of_eq_iff take_bit_eq_mod)

lemma unhex_digit: "n < 16 \<Longrightarrow> unhex (hex_digit n) = Some n"
  by (simp add: hex_digit_cases, drule below_sixteen)
    (elim insertE emptyE, simp_all add: unhex_def isDigit_def less_eq_char_def)

lemma hex_digit_char: "n < 16 \<Longrightarrow> hex_digit n \<in> set ''0123456789ABCDEF''"
  by (simp only: hex_digit_cases) (rule nth_mem, simp)

lemma nibbles: "(of_char (c :: char) :: nat) div 16 < 16" "(of_char c :: nat) mod 16 < 16"
proof -
  have "(of_char c :: nat) < 16 * 16" using nat_of_char_less_256 [of c] by simp
  then show "(of_char c :: nat) div 16 < 16" by (rule less_mult_imp_div_less)
qed simp

lemma unescape_one:
  assumes "\<not> safe CHR ''%''"
  shows "path_unescape (escape_one safe c @ t) = map_option ((#) c) (path_unescape t)"
proof (cases "safe c")
  case True
  then have "c \<noteq> CHR ''%''" using assms by auto
  then show ?thesis using True by (simp add: escape_one_def)
next
  case False
  have "16 * ((of_char c :: nat) div 16) + of_char c mod 16 = of_char c" by (rule mult_div_mod_eq)
  then have "char_of (16 * ((of_char c :: nat) div 16) + of_char c mod 16) = c" by (simp only: char_of_char)
  then show ?thesis using False unhex_digit [OF nibbles(1) [of c]] unhex_digit [OF nibbles(2) [of c]]
    by (simp add: escape_one_def mult.commute)
qed

lemma url_unescape:
  assumes "\<not> safe CHR ''%''"
  shows "path_unescape (url_escape safe s) = Some s"
  by (induction s) (simp_all add: url_escape_def unescape_one [of safe, OF assms])

lemma escape_one_chars:
  assumes "x \<in> set (escape_one safe c)"
  shows "safe x \<or> x = CHR ''%'' \<or> x \<in> set ''0123456789ABCDEF''"
proof (cases "safe c")
  case True
  then show ?thesis using assms by (simp add: escape_one_def)
next
  case False
  then have "x = CHR ''%'' \<or> x = hex_digit (of_char c div 16) \<or> x = hex_digit (of_char c mod 16)"
    using assms by (simp only: escape_one_def if_False list.set insert_iff empty_iff) blast
  then show ?thesis using hex_digit_char nibbles [of c] by blast
qed

lemma url_escape_chars:
  assumes "x \<in> set (url_escape safe s)"
  shows "safe x \<or> x = CHR ''%'' \<or> x \<in> set ''0123456789ABCDEF''"
proof -
  obtain c where "x \<in> set (escape_one safe c)" using assms unfolding url_escape_def set_concat set_map by blast
  then show ?thesis by (rule escape_one_chars)
qed

lemma user_percent: "\<not> user_safe CHR ''%''"
  by (simp add: user_safe_def unreserved_def alphanumeric_def ascii_upper_def ascii_lower_def less_eq_char_def)

lemma userinfo_syntax:
  "c \<in> set '':@/?#'' \<Longrightarrow> \<not> user_safe c \<and> c \<noteq> CHR ''%'' \<and> c \<notin> set ''0123456789ABCDEF''"
  by (simp only: list.set insert_iff empty_iff)
    (elim disjE; simp add: user_safe_def unreserved_def alphanumeric_def ascii_upper_def ascii_lower_def less_eq_char_def)

lemma userinfo_chars: "c \<in> set '':@/?#'' \<Longrightarrow> c \<notin> set (url_escape user_safe s)"
  using url_escape_chars userinfo_syntax by blast

lemma url_escape_safe: "list_all safe s \<Longrightarrow> url_escape safe (s @ t) = s @ url_escape safe t"
  by (induction s) (simp_all add: url_escape_def escape_one_def)

lemma localhost_safe: "list_all host_safe ''localhost:''"
  by (simp add: host_safe_def unreserved_def alphanumeric_def ascii_upper_def ascii_lower_def less_eq_char_def)

lemma composed:
  assumes "lookup_or_empty m ''CVEFEED_DATABASE_URL'' = []" "m ''POSTGRES_USER'' = Some user" "user \<noteq> []"
    "m ''POSTGRES_PASSWORD'' = Some pass" "pass \<noteq> []"
  shows "\<exists>rest. dsnFromDotenv (Some m)
    = ''postgres://'' @ url_escape user_safe user @ '':'' @ url_escape user_safe pass @ ''@localhost:'' @ rest"
proof -
  have l: "lookup_or_empty m ''POSTGRES_USER'' = user" "lookup_or_empty m ''POSTGRES_PASSWORD'' = pass"
    using assms(2,4) by (simp_all add: lookup_or_empty_def)
  have "\<exists>port db. dsnFromDotenv (Some m) = postgres_url user pass port db"
    using assms(1,3,5) l by (auto simp: dsnFromDotenv_def)
  then show ?thesis using url_escape_safe [OF localhost_safe] by (auto simp: postgres_url_def)
qed

end
