(* ===== verification/Document.thy ===== *)
theory Document
  imports Records "HOL-Library.AList"
begin

text \<open>
  The stored form of a vulnerability in \<open>internal/store/store.go\<close> and the merge of an upstream record into it. The
  map of contributions is an association list with each key once; its order is not the code's. The digest of a
  statement, \<open>affectedFingerprint\<close>, is over an argument for SHA-256 and one for the JSON of ranges, and the merge
  takes it as a function \<open>fp\<close> on statements. Times are of a linear order.
\<close>

record 't Fetched = "'t Vulnerability" +
  v_FetchedAt :: 't
  v_Raw :: string

record 't Contribution =
  ct_Modified :: "'t option"
  ct_Severities :: "string list"
  ct_References :: "string list"
  ct_Affected :: "string list"

record 't Document = "'t Fetched" +
  d_Contributions :: "(string \<times> 't Contribution) list"
  d_WithdrawnBy :: string
  d_WithdrawnSource :: string

section \<open>Precedence\<close>

definition sourceRank :: "(string \<times> int) list" where
  "sourceRank =
    [(''cvelist'', 0), (''vulnrichment'', 1), (''nvd'', 2), (''fkie'', 3), (''csaf'', 4), (''euvd'', 5), (''gcve'', 6),
     (''ghsa'', 7), (''osv'', 8)]"

definition rankOf :: "string \<Rightarrow> int" where
  "rankOf s = (case map_of sourceRank s of Some r \<Rightarrow> r | None \<Rightarrow> 100)"

definition severityTypeRank :: "string \<Rightarrow> int" where
  "severityTypeRank t =
     (if t = ''CVSS_V4_0'' then 0
      else if t = ''CVSS_V3_1'' then 1
      else if t = ''CVSS_V3_0'' then 2
      else if t = ''CVSS_V2'' then 3
      else if t = ''OTHER'' then 4
      else 5)"

text \<open>One round of the loop of \<open>PickPrimarySeverity\<close>.\<close>

definition primary_step :: "Severity \<Rightarrow> Severity option \<Rightarrow> Severity option" where
  "primary_step s best0 =
     (if sv_Score s \<le> 0 \<and> sv_Vector s = [] then best0
      else
        (case best0 of
           None \<Rightarrow> Some s
         | Some best \<Rightarrow>
             (let bScored = sv_Score best > 0; cScored = sv_Score s > 0;
                  bi = severityTypeRank (sv_Type best); ci = severityTypeRank (sv_Type s) in
              if bScored \<noteq> cScored then (if cScored then Some s else Some best)
              else if ci < bi then Some s
              else if ci = bi \<and> rankOf (sv_Source s) < rankOf (sv_Source best) then Some s
              else Some best)))"

definition PickPrimarySeverity :: "Severity list \<Rightarrow> Severity option" where
  "PickPrimarySeverity sevs = fold primary_step sevs None"

section \<open>Keys\<close>

definition NUL :: char where
  "NUL = CHR 0x00"

definition contributionKey :: "('t, 'z) Vulnerability_scheme \<Rightarrow> string" where
  "contributionKey v = v_Source v @ NUL # (if v_SourceRecordID v = [] then v_ID v else v_SourceRecordID v)"

definition sourceOnlyKey :: "string \<Rightarrow> string" where
  "sourceOnlyKey source = source @ [NUL]"

definition keySource :: "string \<Rightarrow> string" where
  "keySource key = (case split_first NUL key of Some (a, _) \<Rightarrow> a | None \<Rightarrow> key)"

definition recordMatchesKey :: "string \<Rightarrow> ('t, 'z) Vulnerability_scheme \<Rightarrow> bool" where
  "recordMatchesKey key r \<longleftrightarrow>
     key \<noteq> [] \<and> v_Source r \<noteq> [] \<and>
     (key = contributionKey r \<or> (key = sourceOnlyKey (keySource key) \<and> v_Source r = keySource key))"

definition severityKey :: "Severity \<Rightarrow> string" where
  "severityKey s = sv_Type s @ ''|'' @ sv_Provider s @ ''|'' @ sv_Source s"

definition referenceKey :: "Reference \<Rightarrow> string" where
  "referenceKey r = rf_URL r @ ''|'' @ rf_Source r"

definition affectedFingerprint :: "(string \<Rightarrow> string) \<Rightarrow> (VersionRange list \<Rightarrow> string) \<Rightarrow> AffectedRow \<Rightarrow> string" where
  "affectedFingerprint digest marshal a =
     digest (to_lower (join ''|''
       [af_Source a, af_Vendor a, af_Product a, af_Ecosystem a, af_PURL a, af_Status a, af_DefaultState a,
        join '','' (af_CPEs a), join '','' (af_Versions a), if af_Ranges a \<noteq> [] then marshal (af_Ranges a) else []]))"

definition no_contribution :: "'t Contribution" where
  "no_contribution = \<lparr>ct_Modified = None, ct_Severities = [], ct_References = [], ct_Affected = []\<rparr>"

definition contributionOf :: "(AffectedRow \<Rightarrow> string) \<Rightarrow> ('t, 'z) Vulnerability_scheme \<Rightarrow> 't Contribution" where
  "contributionOf fp v =
     \<lparr>ct_Modified = None, ct_Severities = map severityKey (v_Severities v), ct_References = map referenceKey (v_References v),
      ct_Affected = map fp (v_Affected v)\<rparr>"

section \<open>Lists with one element to a key\<close>

text \<open>The element takes the place of the one with its key, or the end of the list.\<close>

fun put_keyed :: "('a \<Rightarrow> string) \<Rightarrow> 'a \<Rightarrow> 'a list \<Rightarrow> 'a list" where
  "put_keyed key x [] = [x]"
| "put_keyed key x (y # ys) = (if key y = key x then x # ys else y # put_keyed key x ys)"

definition merge_keyed :: "('a \<Rightarrow> string) \<Rightarrow> 'a list \<Rightarrow> 'a list \<Rightarrow> 'a list" where
  "merge_keyed key a b = fold (put_keyed key) (a @ b) []"

definition mergeSeverities :: "Severity list \<Rightarrow> Severity list \<Rightarrow> Severity list" where
  "mergeSeverities a b = sort_key (\<lambda>s. rankOf (sv_Source s)) (merge_keyed severityKey a b)"

definition mergeReferences :: "Reference list \<Rightarrow> Reference list \<Rightarrow> Reference list" where
  "mergeReferences a b = merge_keyed referenceKey a b"

definition mergeAffected :: "(AffectedRow \<Rightarrow> string) \<Rightarrow> AffectedRow list \<Rightarrow> AffectedRow list \<Rightarrow> AffectedRow list" where
  "mergeAffected fp a b = merge_keyed fp a b"

definition dedupeBy :: "('a \<Rightarrow> string) \<Rightarrow> 'a list \<Rightarrow> 'a list" where
  "dedupeBy key xs = (if length xs < 2 then xs else fold (put_keyed key) xs [])"

definition normalizeIDs :: "string list \<Rightarrow> string list" where
  "normalizeIDs ids = DedupeStrings (map NormalizeID ids)"

definition removeString :: "string list \<Rightarrow> string \<Rightarrow> string list" where
  "removeString xs drop_it = filter (\<lambda>s. s \<noteq> drop_it) xs"

section \<open>Contributions\<close>

definition setContribution :: "string \<Rightarrow> 't Contribution \<Rightarrow> ('t, 'z) Document_scheme \<Rightarrow> ('t, 'z) Document_scheme" where
  "setContribution key c d = d\<lparr>d_Contributions := AList.update key c (d_Contributions d)\<rparr>"

definition later_of :: "'t::linorder option \<Rightarrow> 't option \<Rightarrow> 't option" where
  "later_of a b = (case b of None \<Rightarrow> a | Some t \<Rightarrow> (case a of None \<Rightarrow> b | Some u \<Rightarrow> if t > u then b else a))"

definition earlier_of :: "'t::linorder option \<Rightarrow> 't option \<Rightarrow> 't option" where
  "earlier_of a b = (case b of None \<Rightarrow> a | Some t \<Rightarrow> (case a of None \<Rightarrow> b | Some u \<Rightarrow> if t < u then b else a))"

definition unionContribution :: "'t::linorder Contribution \<Rightarrow> 't Contribution \<Rightarrow> 't Contribution" where
  "unionContribution a b =
     \<lparr>ct_Modified = later_of (ct_Modified a) (ct_Modified b),
      ct_Severities = DedupeStrings (ct_Severities a @ ct_Severities b),
      ct_References = DedupeStrings (ct_References a @ ct_References b),
      ct_Affected = DedupeStrings (ct_Affected a @ ct_Affected b)\<rparr>"

definition contribution :: "('t, 'z) Document_scheme \<Rightarrow> string \<Rightarrow> 't Contribution" where
  "contribution d key = (case map_of (d_Contributions d) key of Some c \<Rightarrow> c | None \<Rightarrow> no_contribution)"

definition noteRecord :: "(AffectedRow \<Rightarrow> string) \<Rightarrow> ('t, 'z) Document_scheme \<Rightarrow> 't Document \<Rightarrow> 't Document" where
  "noteRecord fp r d =
     (if v_Source r = [] then d
      else setContribution (contributionKey r) ((contributionOf fp r)\<lparr>ct_Modified := v_Modified r\<rparr>) d)"

definition claimed_by :: "'t Contribution \<Rightarrow> string list" where
  "claimed_by c = ct_Severities c @ ct_References c @ ct_Affected c"

definition claimedExcept :: "string \<Rightarrow> ('t, 'z) Document_scheme \<Rightarrow> string \<Rightarrow> bool" where
  "claimedExcept key d k \<longleftrightarrow> list_ex (\<lambda>(other, c). other \<noteq> key \<and> k \<in> set (claimed_by c)) (d_Contributions d)"

definition withdrawnKeyOf :: "('t, 'z) Document_scheme \<Rightarrow> bool \<Rightarrow> string" where
  "withdrawnKeyOf r as_fold =
     (if d_WithdrawnBy r \<noteq> [] then d_WithdrawnBy r
      else if as_fold then (if d_WithdrawnSource r \<noteq> [] then sourceOnlyKey (d_WithdrawnSource r) else sourceOnlyKey (v_Source r))
      else contributionKey r)"

section \<open>Documents from before contributions were kept\<close>

definition adoptLegacyWithdrawal :: "'t Document \<Rightarrow> 't Document" where
  "adoptLegacyWithdrawal d =
     (let src = (if d_WithdrawnSource d = [] then v_Source d else d_WithdrawnSource d) in
      (if v_Withdrawn d \<noteq> None \<and> d_WithdrawnBy d = [] \<and> src \<noteq> [] then d\<lparr>d_WithdrawnBy := sourceOnlyKey src\<rparr> else d)
        \<lparr>d_WithdrawnSource := []\<rparr>)"

definition adopted :: "(AffectedRow \<Rightarrow> string) \<Rightarrow> ('t, 'z) Document_scheme \<Rightarrow> 't Document \<Rightarrow> 't Contribution" where
  "adopted fp r d =
     (let free = (\<lambda>k. \<not> claimedExcept (contributionKey r) d k) in
      \<lparr>ct_Modified = (if v_Source r = v_Source d then v_Modified d else None),
       ct_Severities = filter free (map severityKey (filter (\<lambda>s. sv_Source s = v_Source r) (v_Severities d))),
       ct_References = filter free (map referenceKey (filter (\<lambda>x. rf_Source x = v_Source r) (v_References d))),
       ct_Affected = filter free (map fp (filter (\<lambda>a. af_Source a = v_Source r) (v_Affected d)))\<rparr>)"

definition adoptLegacyRecord :: "(AffectedRow \<Rightarrow> string) \<Rightarrow> ('t, 'z) Document_scheme \<Rightarrow> 't Document \<Rightarrow> 't Document" where
  "adoptLegacyRecord fp r d =
     (if v_Source r = [] then d
      else if map_of (d_Contributions d) (contributionKey r) \<noteq> None then d
      else if list_ex (\<lambda>(other, c). keySource other = v_Source r) (d_Contributions d) then d
      else setContribution (contributionKey r) (adopted fp r d) d)"

section \<open>Merging\<close>

definition kept_of :: "('t, 'z) Document_scheme \<Rightarrow> string \<Rightarrow> string list \<Rightarrow> ('a \<Rightarrow> string) \<Rightarrow> 'a list \<Rightarrow> 'a list" where
  "kept_of d key keys k xs = filter (\<lambda>x. \<not> (k x \<in> set keys \<and> \<not> claimedExcept key d (k x))) xs"

definition retire :: "(AffectedRow \<Rightarrow> string) \<Rightarrow> ('t, 'z) Document_scheme \<Rightarrow> 't Document \<Rightarrow> 't Document" where
  "retire fp r d =
     (case map_of (d_Contributions d) (contributionKey r) of
        None \<Rightarrow> d
      | Some prev \<Rightarrow>
          d\<lparr>v_Severities := kept_of d (contributionKey r) (ct_Severities prev) severityKey (v_Severities d),
            v_References := kept_of d (contributionKey r) (ct_References prev) referenceKey (v_References d),
            v_Affected := kept_of d (contributionKey r) (ct_Affected prev) fp (v_Affected d)\<rparr>)"

definition stale :: "'t::linorder Document \<Rightarrow> 't Document \<Rightarrow> bool" where
  "stale r d \<longleftrightarrow> v_Source r \<noteq> [] \<and>
     (case v_Modified r of
        None \<Rightarrow> False
      | Some t \<Rightarrow>
          (case map_of (d_Contributions d) (contributionKey r) of
             None \<Rightarrow> False
           | Some prev \<Rightarrow> (case ct_Modified prev of None \<Rightarrow> False | Some u \<Rightarrow> t < u)))"

text \<open>What every arrival adds, a stale one included.\<close>

definition touch :: "'t::linorder Document \<Rightarrow> 't Document \<Rightarrow> 't Document" where
  "touch r d = d\<lparr>v_Aliases := normalizeIDs (v_Aliases d @ v_Aliases r), v_Related := normalizeIDs (v_Related d @ v_Related r),
     v_FetchedAt := (if v_FetchedAt r > v_FetchedAt d then v_FetchedAt r else v_FetchedAt d)\<rparr>"

definition take_text :: "bool \<Rightarrow> string \<Rightarrow> string \<Rightarrow> string" where
  "take_text outranks incoming held = (if incoming \<noteq> [] \<and> (held = [] \<or> outranks) then incoming else held)"

definition settle_withdrawn :: "bool \<Rightarrow> 't Document \<Rightarrow> 't Document \<Rightarrow> 't option \<times> string" where
  "settle_withdrawn as_fold r d =
     (let by = withdrawnKeyOf r as_fold in
      case v_Withdrawn r of
        Some t \<Rightarrow>
          if v_Withdrawn d = None \<or> rankOf (keySource by) \<le> rankOf (keySource (d_WithdrawnBy d)) then (Some t, by)
          else (v_Withdrawn d, d_WithdrawnBy d)
      | None \<Rightarrow>
          if \<not> as_fold \<and> v_Withdrawn d \<noteq> None \<and> recordMatchesKey (d_WithdrawnBy d) r then (None, [])
          else (v_Withdrawn d, d_WithdrawnBy d))"

text \<open>The assignments of a merge that is not stale, to the document \<open>d\<close> behind \<open>retire\<close>.\<close>

definition absorb :: "(AffectedRow \<Rightarrow> string) \<Rightarrow> bool \<Rightarrow> 't::linorder Document \<Rightarrow> 't Document \<Rightarrow> 't Document" where
  "absorb fp as_fold r d0 =
     (let d = touch r d0; outranks = rankOf (v_Source r) \<le> rankOf (v_Source d);
          promoted = v_Source r \<noteq> [] \<and> rankOf (v_Source r) < rankOf (v_Source d);
          w = settle_withdrawn as_fold r d in
      d\<lparr>v_Title := take_text outranks (v_Title r) (v_Title d),
        v_Description := take_text outranks (v_Description r) (v_Description d),
        v_AssignerShortName := take_text outranks (v_AssignerShortName r) (v_AssignerShortName d),
        v_State := take_text outranks (v_State r) (v_State d),
        v_Source := (if promoted then v_Source r else v_Source d),
        v_SourceRecordID := (if promoted then v_SourceRecordID r else v_SourceRecordID d),
        v_Published := earlier_of (v_Published d) (v_Published r),
        v_Modified := later_of (v_Modified d) (v_Modified r),
        v_Withdrawn := fst w, d_WithdrawnBy := snd w,
        v_CWEs := DedupeStrings (v_CWEs d @ v_CWEs r),
        v_Tags := DedupeStrings (v_Tags d @ v_Tags r),
        v_EnrichmentStatus := (if v_EnrichmentStatus r \<noteq> [] then v_EnrichmentStatus r else v_EnrichmentStatus d),
        v_Severities := mergeSeverities (v_Severities d) (v_Severities r),
        v_References := mergeReferences (v_References d) (v_References r),
        v_Affected := mergeAffected fp (v_Affected d) (v_Affected r),
        v_SSVC := (if v_SSVC r \<noteq> None \<and> (v_SSVC d = None \<or> outranks) then v_SSVC r else v_SSVC d),
        v_Raw := (if v_Raw r \<noteq> [] \<and> outranks then v_Raw r else v_Raw d)\<rparr>)"

definition union_contributions :: "'t::linorder Document \<Rightarrow> 't Document \<Rightarrow> 't Document" where
  "union_contributions r d =
     fold (\<lambda>(key, c) d. setContribution key (unionContribution (contribution d key) c) d) (d_Contributions r) d"

definition born :: "(AffectedRow \<Rightarrow> string) \<Rightarrow> bool \<Rightarrow> 't Document \<Rightarrow> 't Document" where
  "born fp as_fold r =
     (let d = r\<lparr>v_Aliases := normalizeIDs (v_Aliases r), v_Related := normalizeIDs (v_Related r),
                d_WithdrawnBy := (if v_Withdrawn r \<noteq> None \<and> d_WithdrawnBy r = [] then withdrawnKeyOf r as_fold else d_WithdrawnBy r),
                d_WithdrawnSource := []\<rparr> in
      if as_fold then d else noteRecord fp r d)"

definition merge_into :: "(AffectedRow \<Rightarrow> string) \<Rightarrow> bool \<Rightarrow> 't::linorder Document \<Rightarrow> 't Document \<Rightarrow> 't Document" where
  "merge_into fp as_fold r existing =
     (let d1 = adoptLegacyWithdrawal existing; d2 = (if as_fold then d1 else adoptLegacyRecord fp r d1) in
      if \<not> as_fold \<and> stale r d2 then touch r d2
      else
        (let d3 = (if as_fold then d2 else retire fp r d2); d4 = union_contributions r (absorb fp as_fold r d3) in
         if as_fold then d4 else noteRecord fp r d4))"

definition merge_docs :: "(AffectedRow \<Rightarrow> string) \<Rightarrow> 't::linorder Document option \<Rightarrow> 't Document \<Rightarrow> bool \<Rightarrow> 't Document" where
  "merge_docs fp existing r as_fold = (case existing of None \<Rightarrow> born fp as_fold r | Some d \<Rightarrow> merge_into fp as_fold r d)"

definition fresh_document :: "'t Fetched \<Rightarrow> 't Document" where
  "fresh_document v = Fetched.extend v \<lparr>d_Contributions = [], d_WithdrawnBy = [], d_WithdrawnSource = []\<rparr>"

definition Merge :: "(AffectedRow \<Rightarrow> string) \<Rightarrow> 't::linorder Document option \<Rightarrow> 't Fetched \<Rightarrow> 't Document" where
  "Merge fp existing v = merge_docs fp existing (fresh_document v) False"

definition mergeAll :: "(AffectedRow \<Rightarrow> string) \<Rightarrow> 't::linorder Document list \<Rightarrow> string \<Rightarrow> 't Document option" where
  "mergeAll fp docs canonical =
     (case sort_key (\<lambda>d. rankOf (v_Source d)) docs of
        [] \<Rightarrow> None
      | d # ds \<Rightarrow>
          (let out = fold (merge_into fp True) ds (born fp True d) in
           Some (out\<lparr>v_Aliases := normalizeIDs (v_Aliases out @ filter (\<lambda>i. i \<noteq> []) (map v_ID (d # ds))), v_ID := canonical\<rparr>)))"

definition collectSources :: "'t Document \<Rightarrow> string list" where
  "collectSources d = DedupeStrings (v_Source d # filter (\<lambda>s. s \<noteq> []) (map (keySource \<circ> fst) (d_Contributions d))
     @ map sv_Source (v_Severities d) @ map rf_Source (v_References d) @ map af_Source (v_Affected d))"

end
