(* ===== verification/Upsert.thy ===== *)
theory Upsert
  imports Document
begin

text \<open>
  \<open>UpsertVulnerability\<close> of \<open>internal/store/store.go\<close> on the two tables that carry identity: the rows of
  \<open>vulnerabilities\<close> with the document and its checksum, and \<open>vuln_aliases\<close>. A call is one transaction, and the locks it
  takes make calls that share an identifier follow one another, so the store is a sequence of calls. The checksum of a
  document without its fetch time is an argument. The child tables, the columns derived from the document and the
  history are left out.
\<close>

record 't Row =
  rw_doc :: "'t Document option"
  rw_sum :: "string option"

record 't Store =
  st_rows :: "string \<rightharpoonup> 't Row"
  st_aliases :: "string \<rightharpoonup> string"

definition empty_store :: "'t Store" where
  "empty_store = \<lparr>st_rows = Map.empty, st_aliases = Map.empty\<rparr>"

text \<open>The record an identifier resolves to.\<close>

definition resolveExisting :: "'t Store \<Rightarrow> string list \<Rightarrow> string list" where
  "resolveExisting st ids =
     sort (remdups (List.map_filter (st_aliases st) ids @ filter (\<lambda>i. st_rows st i \<noteq> None) ids))"

definition loadDoc :: "'t Store \<Rightarrow> string \<Rightarrow> 't Document option" where
  "loadDoc st i = (case st_rows st i of None \<Rightarrow> None | Some row \<Rightarrow> rw_doc row)"

definition loadDocs :: "'t Store \<Rightarrow> string list \<Rightarrow> 't Document list" where
  "loadDocs st ids = List.map_filter (loadDoc st) ids"

definition foldRecords :: "string list \<Rightarrow> string \<Rightarrow> 't Store \<Rightarrow> 't Store" where
  "foldRecords existing canonical st =
     (let losers = filter (\<lambda>i. i \<noteq> canonical) existing in
      if losers = [] then st
      else
        \<lparr>st_rows = (\<lambda>i. if i \<in> set losers then None
                      else if i = canonical \<and> st_rows st i = None then Some \<lparr>rw_doc = None, rw_sum = None\<rparr>
                      else st_rows st i),
         st_aliases = (\<lambda>a. if a \<in> set losers then Some canonical
                         else (case st_aliases st a of
                                 Some i \<Rightarrow> Some (if i \<in> set losers then canonical else i)
                               | None \<Rightarrow> None))\<rparr>)"

definition writeVuln :: "('t Document \<Rightarrow> string) \<Rightarrow> 't Document \<Rightarrow> 't Store \<Rightarrow> 't Store" where
  "writeVuln checksum d st =
     (let unchanged = (case st_rows st (v_ID d) of None \<Rightarrow> False | Some row \<Rightarrow> rw_sum row = Some (checksum d)) in
      \<lparr>st_rows = (if unchanged then st_rows st
                 else (st_rows st)(v_ID d \<mapsto> \<lparr>rw_doc = Some d, rw_sum = Some (checksum d)\<rparr>)),
       st_aliases = (\<lambda>a. if a = v_ID d \<or> a \<in> set (v_Aliases d) then Some (v_ID d) else st_aliases st a)\<rparr>)"

definition upserted ::
  "(AffectedRow \<Rightarrow> string) \<Rightarrow> 't::linorder Store \<Rightarrow> 't Fetched \<Rightarrow> string list \<Rightarrow> string list \<Rightarrow> string \<Rightarrow> 't Document" where
  "upserted fp st v ids existing canonical =
     (let merged = Merge fp (mergeAll fp (loadDocs st existing) canonical) v in
      merged\<lparr>v_ID := canonical, v_Aliases := removeString (normalizeIDs (v_Aliases merged @ ids)) canonical\<rparr>)"

definition UpsertVulnerability ::
  "(AffectedRow \<Rightarrow> string) \<Rightarrow> ('t::linorder Document \<Rightarrow> string) \<Rightarrow> 't Fetched \<Rightarrow> 't Store \<Rightarrow> (string \<times> 't Store) option" where
  "UpsertVulnerability fp checksum v st =
     (let ids = AllIdentifiers (v_ID v) (v_Aliases v); existing = resolveExisting st ids;
          picked = PickCanonicalID (ids @ existing); canonical = (if picked = [] then hd ids else picked) in
      if ids = [] then None
      else
        Some (canonical,
              writeVuln checksum (upserted fp st v ids existing canonical)
                (if existing \<noteq> [] then foldRecords existing canonical st else st)))"

text \<open>The calls that succeed, one after the other.\<close>

inductive reached :: "(AffectedRow \<Rightarrow> string) \<Rightarrow> ('t::linorder Document \<Rightarrow> string) \<Rightarrow> 't Store \<Rightarrow> bool"
  for fp :: "AffectedRow \<Rightarrow> string" and checksum :: "'t::linorder Document \<Rightarrow> string" where
  empty: "reached fp checksum empty_store"
| upsert: "reached fp checksum st \<Longrightarrow> UpsertVulnerability fp checksum v st = Some (c, st') \<Longrightarrow> reached fp checksum st'"

end
