(* ===== verification/Child_Tables.thy ===== *)
theory Child_Tables
  imports Upsert Candidates
begin

text \<open>
  The child tables of \<open>internal/store/store.go\<close>: \<open>vuln_severity\<close>, \<open>vuln_reference\<close> and \<open>vuln_affected\<close>, which are derived
  from the document by \<open>writeChildren\<close>, carried over by \<open>foldRecords\<close>, and written by a call only when the document
  changed. A table gives, for an identifier and the rest of its primary key, the row. A NULL column is the empty value
  it is read back as. The scan reads \<open>vuln_affected\<close>.
\<close>

section \<open>Text the database takes\<close>

definition cleanText :: "string \<Rightarrow> string" where
  "cleanText s = filter (\<lambda>c. c \<noteq> NUL) s"

definition cleanTexts :: "string list \<Rightarrow> string list" where
  "cleanTexts xs = map cleanText xs"

text \<open>\<open>cleanJSON\<close> on the encoding of a row: every string of the row loses its NUL bytes.\<close>

definition clean_severity :: "Severity \<Rightarrow> Severity" where
  "clean_severity s =
     \<lparr>sv_Type = cleanText (sv_Type s), sv_Score = sv_Score s, sv_Vector = cleanText (sv_Vector s),
      sv_Rating = cleanText (sv_Rating s), sv_Provider = cleanText (sv_Provider s), sv_Source = cleanText (sv_Source s)\<rparr>"

definition clean_reference :: "Reference \<Rightarrow> Reference" where
  "clean_reference r =
     \<lparr>rf_URL = cleanText (rf_URL r), rf_Name = cleanText (rf_Name r), rf_Tags = cleanTexts (rf_Tags r),
      rf_Source = cleanText (rf_Source r)\<rparr>"

definition clean_range :: "VersionRange \<Rightarrow> VersionRange" where
  "clean_range r =
     \<lparr>Introduced = cleanText (Introduced r), Fixed = cleanText (Fixed r), LastAffected = cleanText (LastAffected r),
      RangeType = cleanText (RangeType r), RangeCPE = cleanText (RangeCPE r), Limit = cleanText (Limit r),
      Repo = cleanText (Repo r)\<rparr>"

definition clean_affected :: "AffectedRow \<Rightarrow> AffectedRow" where
  "clean_affected a =
     \<lparr>af_Vendor = cleanText (af_Vendor a), af_Product = cleanText (af_Product a), af_Ecosystem = cleanText (af_Ecosystem a),
      af_PURL = cleanText (af_PURL a), af_CPEs = cleanTexts (af_CPEs a), af_Versions = cleanTexts (af_Versions a),
      af_Ranges = map clean_range (af_Ranges a), af_DefaultState = cleanText (af_DefaultState a),
      af_Status = cleanText (af_Status a), af_Source = cleanText (af_Source a)\<rparr>"

section \<open>One table\<close>

type_synonym ('p, 'a) rows = "'p \<rightharpoonup> 'a"

text \<open>\<open>DELETE ... WHERE key NOT IN keep\<close>, the key being an expression over the primary key.\<close>

definition delete_stale :: "('p \<Rightarrow> string) \<Rightarrow> string list \<Rightarrow> ('p, 'a) rows \<Rightarrow> ('p, 'a) rows" where
  "delete_stale expr keep t = (\<lambda>p. if expr p \<in> set keep then t p else None)"

text \<open>\<open>INSERT ... ON CONFLICT DO UPDATE\<close>: the statement fails when it has two rows of one primary key.\<close>

definition insert_batch :: "('p \<times> 'a) list \<Rightarrow> ('p, 'a) rows \<Rightarrow> ('p, 'a) rows option" where
  "insert_batch rs t = (if distinct (map fst rs) then Some (t ++ map_of rs) else None)"

definition batch_of :: "('a \<Rightarrow> string) \<Rightarrow> ('a \<Rightarrow> 'p) \<Rightarrow> ('a \<Rightarrow> 'a) \<Rightarrow> 'a list \<Rightarrow> ('p \<times> 'a) list" where
  "batch_of key pk scrub xs = map (\<lambda>x. (pk x, scrub x)) (dedupeBy key xs)"

definition reconcile ::
  "('a \<Rightarrow> string) \<Rightarrow> ('a \<Rightarrow> 'p) \<Rightarrow> ('p \<Rightarrow> string) \<Rightarrow> ('a \<Rightarrow> 'a) \<Rightarrow> 'a list \<Rightarrow> ('p, 'a) rows \<Rightarrow> ('p, 'a) rows option" where
  "reconcile key pk expr scrub xs t = insert_batch (batch_of key pk scrub xs) (delete_stale expr (cleanTexts (map key xs)) t)"

text \<open>
  The copies of \<open>foldRecords\<close>: a row the canonical record has stays, one row of each other key comes over. \<open>DISTINCT ON\<close>
  does not say which loser's; here it is the first one's.
\<close>

definition fold_rows :: "string list \<Rightarrow> string \<Rightarrow> (string \<Rightarrow> ('p, 'a) rows) \<Rightarrow> string \<Rightarrow> ('p, 'a) rows" where
  "fold_rows losers canonical t =
     (\<lambda>i. if i \<in> set losers then Map.empty
          else if i = canonical then foldr (\<lambda>l m. m ++ t l) losers Map.empty ++ t canonical
          else t i)"

section \<open>The three tables\<close>

record Children =
  ch_severity :: "string \<Rightarrow> (string \<times> string \<times> string, Severity) rows"
  ch_reference :: "string \<Rightarrow> (string \<times> string, Reference) rows"
  ch_affected :: "string \<Rightarrow> (string, AffectedRow) rows"

definition no_children :: Children where
  "no_children = \<lparr>ch_severity = (\<lambda>_. Map.empty), ch_reference = (\<lambda>_. Map.empty), ch_affected = (\<lambda>_. Map.empty)\<rparr>"

definition severity_pk :: "Severity \<Rightarrow> string \<times> string \<times> string" where
  "severity_pk s = (cleanText (sv_Type s), cleanText (sv_Provider s), cleanText (sv_Source s))"

fun severity_expr :: "string \<times> string \<times> string \<Rightarrow> string" where
  "severity_expr (t, p, s) = t @ ''|'' @ p @ ''|'' @ s"

definition reference_pk :: "Reference \<Rightarrow> string \<times> string" where
  "reference_pk r = (cleanText (rf_URL r), cleanText (rf_Source r))"

fun reference_expr :: "string \<times> string \<Rightarrow> string" where
  "reference_expr (u, s) = u @ ''|'' @ s"

definition affected_pk :: "(AffectedRow \<Rightarrow> string) \<Rightarrow> AffectedRow \<Rightarrow> string" where
  "affected_pk fp a = cleanText (fp a)"

definition writeChildren :: "(AffectedRow \<Rightarrow> string) \<Rightarrow> 't Document \<Rightarrow> Children \<Rightarrow> Children option" where
  "writeChildren fp d ch =
     (let i = v_ID d in
      case (reconcile severityKey severity_pk severity_expr clean_severity (v_Severities d) (ch_severity ch i),
            reconcile referenceKey reference_pk reference_expr clean_reference (v_References d) (ch_reference ch i),
            reconcile fp (affected_pk fp) (\<lambda>p. p) clean_affected (v_Affected d) (ch_affected ch i)) of
        (Some s, Some r, Some a) \<Rightarrow>
          Some \<lparr>ch_severity = (ch_severity ch)(i := s), ch_reference = (ch_reference ch)(i := r),
                ch_affected = (ch_affected ch)(i := a)\<rparr>
      | _ \<Rightarrow> None)"

definition fold_children :: "string list \<Rightarrow> string \<Rightarrow> Children \<Rightarrow> Children" where
  "fold_children existing canonical ch =
     (let losers = filter (\<lambda>i. i \<noteq> canonical) existing in
      \<lparr>ch_severity = fold_rows losers canonical (ch_severity ch), ch_reference = fold_rows losers canonical (ch_reference ch),
       ch_affected = fold_rows losers canonical (ch_affected ch)\<rparr>)"

section \<open>A call on all tables\<close>

text \<open>The transaction commits when the identity tables and the child tables are written.\<close>

definition UpsertTables ::
  "(AffectedRow \<Rightarrow> string) \<Rightarrow> ('t::linorder Document \<Rightarrow> string) \<Rightarrow> 't Fetched \<Rightarrow> 't Store \<times> Children
    \<Rightarrow> (string \<times> 't Store \<times> Children) option" where
  "UpsertTables fp checksum v stch =
     (let (st, ch) = stch;
          ids = AllIdentifiers (v_ID v) (v_Aliases v); existing = resolveExisting st ids in
      case UpsertVulnerability fp checksum v st of
        None \<Rightarrow> None
      | Some (canonical, st') \<Rightarrow>
          (let d = upserted fp st v ids existing canonical;
               folded = (if existing \<noteq> [] then foldRecords existing canonical st else st);
               ch1 = fold_children existing canonical ch;
               changed = (case st_rows folded canonical of None \<Rightarrow> True | Some row \<Rightarrow> rw_sum row \<noteq> Some (checksum d)) in
           if changed then map_option (\<lambda>ch2. (canonical, st', ch2)) (writeChildren fp d ch1)
           else Some (canonical, st', ch1)))"

inductive stored :: "(AffectedRow \<Rightarrow> string) \<Rightarrow> ('t::linorder Document \<Rightarrow> string) \<Rightarrow> 't Store \<Rightarrow> Children \<Rightarrow> bool"
  for fp :: "AffectedRow \<Rightarrow> string" and checksum :: "'t::linorder Document \<Rightarrow> string" where
  empty: "stored fp checksum empty_store no_children"
| upsert: "stored fp checksum st ch \<Longrightarrow> UpsertTables fp checksum v (st, ch) = Some (c, st', ch') \<Longrightarrow> stored fp checksum st' ch'"

text \<open>A row of \<open>vuln_affected\<close> as the candidate lookup reads it.\<close>

definition statement_row :: "string \<Rightarrow> string \<Rightarrow> AffectedRow \<Rightarrow> AffectedStatement" where
  "statement_row i p a =
     \<lparr>st_VulnID = i, st_Vendor = af_Vendor a, st_Product = af_Product a, st_Ecosystem = af_Ecosystem a, st_PURL = af_PURL a,
      st_CPEs = af_CPEs a, st_Versions = af_Versions a, st_Ranges = af_Ranges a, st_DefaultState = af_DefaultState a,
      st_Status = af_Status a, st_Source = af_Source a, st_Fingerprint = p\<rparr>"

definition affected_table :: "Children \<Rightarrow> AffectedStatement set" where
  "affected_table ch = {statement_row i p a | i p a. ch_affected ch i p = Some a}"

end
