(* ===== verification/Merge_Laws.thy ===== *)
theory Merge_Laws
  imports Document "HOL-Library.Multiset"
begin

text \<open>
  Laws of the merge of Document: lists with one element to a key, the children of a document behind a merge, what a
  stale arrival changes, the replay of an arrival, withdrawals, and the choice of the primary score.
\<close>

section \<open>Lists with one element to a key\<close>

lemma put_keyed_keys:
  "map key (put_keyed key x xs) = (if key x \<in> key ` set xs then map key xs else map key xs @ [key x])"
  by (induction xs) auto

lemma put_keyed_set: "set (put_keyed key x xs) \<subseteq> insert x (set xs)"
  by (induction xs) auto

lemma put_keyed_distinct: "distinct (map key xs) \<Longrightarrow> distinct (map key (put_keyed key x xs))"
  by (auto simp: put_keyed_keys)

lemma put_keyed_fresh: "key x \<notin> key ` set xs \<Longrightarrow> put_keyed key x xs = xs @ [x]"
  by (induction xs) auto

lemma put_keyed_append:
  "put_keyed key x (xs @ ys) = (if key x \<in> key ` set xs then put_keyed key x xs @ ys else xs @ put_keyed key x ys)"
  by (induction xs) auto

lemma put_keyed_same: "x \<in> set xs \<Longrightarrow> distinct (map key xs) \<Longrightarrow> put_keyed key x xs = xs"
  by (induction xs) auto

abbreviation put_all :: "('a \<Rightarrow> string) \<Rightarrow> 'a list \<Rightarrow> 'a list \<Rightarrow> 'a list" where
  "put_all key xs acc \<equiv> fold (put_keyed key) xs acc"

lemma put_all_keys: "key ` set (put_all key xs acc) = key ` set acc \<union> key ` set xs"
proof (induction xs arbitrary: acc)
  case (Cons x xs)
  have "key ` set (put_keyed key x acc) = insert (key x) (key ` set acc)"
    using put_keyed_keys [of key x acc] by (metis (no_types, lifting) insert_absorb list.set_map set_append list.simps(15) Un_insert_right empty_set sup_bot.right_neutral)
  then show ?case using Cons by auto
qed simp

lemma put_all_distinct: "distinct (map key acc) \<Longrightarrow> distinct (map key (put_all key xs acc))"
  by (induction xs arbitrary: acc) (simp_all add: put_keyed_distinct)

lemma put_all_set: "set (put_all key xs acc) \<subseteq> set acc \<union> set xs"
proof (induction xs arbitrary: acc)
  case (Cons x xs)
  then show ?case using put_keyed_set [of key x acc] by fastforce
qed simp

lemma put_all_id: "distinct (map key (acc @ xs)) \<Longrightarrow> put_all key xs acc = acc @ xs"
proof (induction xs arbitrary: acc)
  case (Cons x xs)
  then have "put_keyed key x acc = acc @ [x]" by (intro put_keyed_fresh) auto
  then show ?case using Cons by simp
qed simp

lemma merge_keyed_into: "distinct (map key a) \<Longrightarrow> merge_keyed key a b = put_all key b a"
  using put_all_id [of key "[]" a] by (simp add: merge_keyed_def)

lemma merge_keyed_distinct: "distinct (map key (merge_keyed key a b))"
  by (simp add: merge_keyed_def put_all_distinct)

lemma merge_keyed_keys: "key ` set (merge_keyed key a b) = key ` set a \<union> key ` set b"
  by (simp only: merge_keyed_def put_all_keys set_append image_Un list.set image_empty sup_bot.left_neutral)

text \<open>The element under a key is the last one put there.\<close>

fun keyed_at :: "('a \<Rightarrow> string) \<Rightarrow> string \<Rightarrow> 'a list \<Rightarrow> 'a option" where
  "keyed_at key k [] = None"
| "keyed_at key k (x # xs) = (case keyed_at key k xs of Some y \<Rightarrow> Some y | None \<Rightarrow> if key x = k then Some x else None)"

lemma keyed_at_append: "keyed_at key k (xs @ ys) = (case keyed_at key k ys of Some y \<Rightarrow> Some y | None \<Rightarrow> keyed_at key k xs)"
  by (induction xs) (auto split: option.splits)

lemma keyed_at_None: "keyed_at key k xs = None \<longleftrightarrow> k \<notin> key ` set xs"
  by (induction xs) (auto split: option.splits)

lemma keyed_at_Some: "keyed_at key k xs = Some x \<Longrightarrow> x \<in> set xs \<and> key x = k"
  by (induction xs) (auto split: option.splits if_splits)

lemma keyed_at_put: "distinct (map key xs) \<Longrightarrow> keyed_at key k (put_keyed key x xs) = (if key x = k then Some x else keyed_at key k xs)"
proof (induction xs)
  case (Cons y ys)
  show ?case
  proof (cases "key y = key x")
    case True
    then have "keyed_at key (key x) ys = None" using Cons.prems by (auto simp: keyed_at_None)
    then show ?thesis using True by (auto split: option.splits)
  next
    case False
    then show ?thesis using Cons by (auto split: option.splits)
  qed
qed (simp split: option.splits)

lemma keyed_at_put_all:
  "distinct (map key acc) \<Longrightarrow>
    keyed_at key k (put_all key xs acc) = (case keyed_at key k xs of Some x \<Rightarrow> Some x | None \<Rightarrow> keyed_at key k acc)"
proof (induction xs arbitrary: acc)
  case (Cons x xs)
  have "keyed_at key k (put_all key xs (put_keyed key x acc))
      = (case keyed_at key k xs of Some y \<Rightarrow> Some y | None \<Rightarrow> keyed_at key k (put_keyed key x acc))"
    by (rule Cons.IH [OF put_keyed_distinct [OF Cons.prems]])
  then show ?case using Cons.prems by (simp add: keyed_at_put split: option.splits)
qed (simp split: option.splits)

lemma keyed_at_merge:
  "keyed_at key k (merge_keyed key a b) = (case keyed_at key k b of Some x \<Rightarrow> Some x | None \<Rightarrow> keyed_at key k a)"
  unfolding merge_keyed_def using keyed_at_put_all [of key "[]" k "a @ b"] by (simp add: keyed_at_append del: fold_append split: option.splits)

lemma keyed_at_filter: "(\<And>x. key x = k \<Longrightarrow> P x) \<Longrightarrow> keyed_at key k (filter P xs) = keyed_at key k xs"
  by (induction xs) (auto split: option.splits)

lemma keyed_at_unique: "distinct (map key xs) \<Longrightarrow> x \<in> set xs \<Longrightarrow> keyed_at key (key x) xs = Some x"
proof (induction xs)
  case (Cons y ys)
  show ?case
  proof (cases "x = y")
    case True
    have "keyed_at key (key y) ys = None" using Cons.prems(1) by (simp add: keyed_at_None)
    then show ?thesis using True by simp
  next
    case False
    then have "keyed_at key (key x) ys = Some x" using Cons by simp
    then show ?thesis by simp
  qed
qed simp

text \<open>Putting a list in, as one step: what has a key of the list is replaced in place, the rest goes to the end.\<close>

definition replaced :: "('a \<Rightarrow> string) \<Rightarrow> 'a list \<Rightarrow> 'a \<Rightarrow> 'a" where
  "replaced key xs x = (case keyed_at key (key x) xs of Some y \<Rightarrow> y | None \<Rightarrow> x)"

lemma replaced_key [simp]: "key (replaced key xs x) = key x"
  by (auto simp: replaced_def dest: keyed_at_Some split: option.splits)

lemma replaced_keys [simp]: "key ` replaced key xs ` E = key ` E" "key \<circ> replaced key xs = key"
  by (auto simp: image_image)

lemma replaced_again [simp]: "replaced key xs (replaced key xs x) = replaced key xs x"
proof -
  have "keyed_at key (key (replaced key xs x)) xs = keyed_at key (key x) xs" by simp
  then show ?thesis by (simp add: replaced_def [of key xs "replaced key xs x"]) (simp add: replaced_def split: option.splits)
qed

lemma replaced_snoc: "replaced key (xs @ [y]) x = (if key y = key x then y else replaced key xs x)"
  by (simp add: replaced_def keyed_at_append)

lemma put_keyed_replaced:
  "distinct (map key E) \<Longrightarrow> key y \<in> key ` set E \<Longrightarrow>
    put_keyed key y (map (replaced key xs) E) = map (replaced key (xs @ [y])) E"
proof (induction E)
  case (Cons e E)
  show ?case
  proof (cases "key e = key y")
    case True
    have "map (replaced key (xs @ [y])) E = map (replaced key xs) E"
      using Cons.prems(1) True by (auto simp: replaced_snoc)
    then show ?thesis using True by (simp add: replaced_snoc)
  next
    case False
    then show ?thesis using Cons by (auto simp: replaced_snoc)
  qed
qed simp

lemma put_all_split:
  assumes "distinct (map key E)"
  shows "put_all key xs E = map (replaced key xs) E @ put_all key (filter (\<lambda>x. key x \<notin> key ` set E) xs) []"
proof (induction xs rule: rev_induct)
  case Nil
  have "map (replaced key []) E = E" by (simp add: replaced_def map_idI)
  then show ?case by simp
next
  case (snoc y xs)
  show ?case
  proof (cases "key y \<in> key ` set E")
    case True
    then show ?thesis using snoc put_keyed_replaced [OF assms True, of xs] by (simp add: put_keyed_append)
  next
    case False
    then have "map (replaced key (xs @ [y])) E = map (replaced key xs) E" by (auto simp: replaced_snoc)
    then show ?thesis using snoc False by (simp add: put_keyed_append)
  qed
qed

text \<open>Dropping what a list put in and nobody else claims, and putting the list in again.\<close>

definition unclaimed :: "('a \<Rightarrow> string) \<Rightarrow> 'a list \<Rightarrow> (string \<Rightarrow> bool) \<Rightarrow> 'a \<Rightarrow> bool" where
  "unclaimed key b claimed x \<longleftrightarrow> key x \<in> key ` set b \<and> \<not> claimed (key x)"

lemma replay_split:
  assumes E: "distinct (map key E)"
    and own: "\<And>x. x \<in> set E \<Longrightarrow> key x \<in> key ` set b \<Longrightarrow> claimed (key x)"
    and shared: "\<And>k. k \<in> key ` set b \<Longrightarrow> claimed k \<Longrightarrow> k \<in> key ` set E"
  shows "filter (\<lambda>x. \<not> unclaimed key b claimed x) (put_all key b E) = map (replaced key b) E"
proof -
  let ?N = "put_all key (filter (\<lambda>x. key x \<notin> key ` set E) b) []"
  have "filter (\<lambda>x. \<not> unclaimed key b claimed x) (map (replaced key b) E) = map (replaced key b) E"
    using own by (auto simp: filter_id_conv unclaimed_def)
  moreover have "filter (\<lambda>x. \<not> unclaimed key b claimed x) ?N = []"
  proof -
    have "unclaimed key b claimed x" if "x \<in> set ?N" for x
    proof -
      have "x \<in> set (filter (\<lambda>x. key x \<notin> key ` set E) b)" using put_all_set [of key _ "[]"] that by fastforce
      then show ?thesis using shared by (auto simp: unclaimed_def)
    qed
    then show ?thesis by (simp add: filter_empty_conv)
  qed
  ultimately show ?thesis by (simp add: put_all_split [OF E])
qed

lemma put_all_again:
  assumes E: "distinct (map key E)" and F: "mset F = mset (map (replaced key b) E)"
  shows "put_all key b F = F @ put_all key (filter (\<lambda>x. key x \<notin> key ` set E) b) []"
proof -
  have s: "set F = replaced key b ` set E" using mset_eq_setD [OF F] by simp
  have k: "key ` set F = key ` set E" unfolding s by simp
  have "mset (map key F) = mset (map key E)"
  proof -
    have "mset (map key F) = image_mset key (mset (map (replaced key b) E))" using F by (metis mset_map)
    also have "\<dots> = mset (map key E)" by (simp add: image_mset.compositionality comp_def)
    finally show ?thesis .
  qed
  then have "distinct (map key F)" using E by (metis mset_eq_imp_distinct_iff)
  then have "put_all key b F = map (replaced key b) F @ put_all key (filter (\<lambda>x. key x \<notin> key ` set F) b) []"
    by (rule put_all_split)
  moreover have "map (replaced key b) F = F" by (rule map_idI) (use s in auto)
  ultimately show ?thesis by (simp only: k)
qed

lemma replay_keyed:
  assumes "distinct (map key E)"
    and "\<And>x. x \<in> set E \<Longrightarrow> key x \<in> key ` set b \<Longrightarrow> claimed (key x)"
    and "\<And>k. k \<in> key ` set b \<Longrightarrow> claimed k \<Longrightarrow> k \<in> key ` set E"
  shows "merge_keyed key (filter (\<lambda>x. \<not> unclaimed key b claimed x) (put_all key b E)) b = put_all key b E"
proof -
  let ?F = "map (replaced key b) E"
  have split: "filter (\<lambda>x. \<not> unclaimed key b claimed x) (put_all key b E) = map (replaced key b) E"
    by (rule replay_split) (use assms in blast)+
  have "map key ?F = map key E" by simp
  then have d: "distinct (map key ?F)" using assms(1) by simp
  have "put_all key b ?F = put_all key b E" using put_all_again [OF assms(1) refl] put_all_split [OF assms(1)] by metis
  then show ?thesis unfolding split merge_keyed_into [OF d] .
qed

lemma sort_key_absorbs: "sort_key f (sort_key f xs @ ys) = sort_key f (xs @ ys)"
proof (rule properties_for_sort_key)
  show "mset (sort_key f (xs @ ys)) = mset (sort_key f xs @ ys)" by simp
  fix k
  show "filter (\<lambda>x. f k = f x) (sort_key f (xs @ ys)) = filter (\<lambda>x. f k = f x) (sort_key f xs @ ys)"
    using sort_key_stable [of f "f k" "xs @ ys"] sort_key_stable [of f "f k" xs] by (simp add: eq_commute [of "f k"])
qed simp

lemma replay_sorted:
  fixes f :: "'a \<Rightarrow> 'b::linorder"
  assumes "distinct (map key E)"
    and "\<And>x. x \<in> set E \<Longrightarrow> key x \<in> key ` set b \<Longrightarrow> claimed (key x)"
    and "\<And>k. k \<in> key ` set b \<Longrightarrow> claimed k \<Longrightarrow> k \<in> key ` set E"
  shows "sort_key f (merge_keyed key (filter (\<lambda>x. \<not> unclaimed key b claimed x) (sort_key f (put_all key b E))) b)
    = sort_key f (put_all key b E)"
proof -
  let ?F = "map (replaced key b) E" and ?N = "put_all key (filter (\<lambda>x. key x \<notin> key ` set E) b) []"
  have split: "filter (\<lambda>x. \<not> unclaimed key b claimed x) (put_all key b E) = map (replaced key b) E"
    by (rule replay_split) (use assms in blast)+
  have f: "filter (\<lambda>x. \<not> unclaimed key b claimed x) (sort_key f (put_all key b E)) = sort_key f ?F"
    unfolding filter_sort split ..
  have again: "put_all key b (sort_key f ?F) = sort_key f ?F @ ?N" by (rule put_all_again [OF assms(1)]) simp
  have "mset (map key (sort_key f ?F)) = mset (map key E)" by (simp add: image_mset.compositionality comp_def)
  then have d: "distinct (map key (sort_key f ?F))" using assms(1) by (metis mset_eq_imp_distinct_iff)
  have "merge_keyed key (sort_key f ?F) b = sort_key f ?F @ ?N" unfolding merge_keyed_into [OF d] again ..
  then have "sort_key f (merge_keyed key (sort_key f ?F) b) = sort_key f (?F @ ?N)" by (simp only: sort_key_absorbs)
  then show ?thesis unfolding f by (simp only: put_all_split [OF assms(1)])
qed

end
