(* ===== verification/Merge_Replay.thy ===== *)
theory Merge_Replay
  imports Merge_Laws
begin

text \<open>
  The merge of a record into a document: what is left of the document's statements, what a stale arrival changes, why
  a record that comes round again changes nothing, and who may take a withdrawal back.
\<close>

section \<open>Records\<close>

text \<open>A document that is a record and nothing more.\<close>

definition plain :: "'t Document \<Rightarrow> bool" where
  "plain r \<longleftrightarrow> d_Contributions r = [] \<and> d_WithdrawnBy r = [] \<and> d_WithdrawnSource r = []"

lemma fresh_plain [simp]: "plain (fresh_document v)"
  by (simp add: plain_def fresh_document_def Fetched.defs)

lemma fresh_fields [simp]:
  "v_ID (fresh_document v) = v_ID v" "v_Source (fresh_document v) = v_Source v" "v_Modified (fresh_document v) = v_Modified v"
  "v_SourceRecordID (fresh_document v) = v_SourceRecordID v" "v_Aliases (fresh_document v) = v_Aliases v"
  "v_Severities (fresh_document v) = v_Severities v" "v_References (fresh_document v) = v_References v"
  "v_Affected (fresh_document v) = v_Affected v" "v_Withdrawn (fresh_document v) = v_Withdrawn v"
  "v_Title (fresh_document v) = v_Title v" "v_Published (fresh_document v) = v_Published v"
  "contributionKey (fresh_document v) = contributionKey v"
  by (simp_all add: fresh_document_def Fetched.defs contributionKey_def)

lemma contributionKey_nonempty [simp]: "contributionKey r \<noteq> []"
  by (simp add: contributionKey_def)

lemma plain_key: "plain r \<Longrightarrow> withdrawnKeyOf r False = contributionKey r"
  by (simp add: plain_def withdrawnKeyOf_def)

lemma plain_union: "plain r \<Longrightarrow> union_contributions r d = d"
  by (simp add: plain_def union_contributions_def)

text \<open>The document a record is merged into, once what older versions of the code left out has been put in.\<close>

definition current :: "(AffectedRow \<Rightarrow> string) \<Rightarrow> 't Document \<Rightarrow> 't Document \<Rightarrow> 't Document" where
  "current fp r d = adoptLegacyRecord fp r (adoptLegacyWithdrawal d)"

lemma merge_record:
  assumes "plain r"
  shows "merge_into fp False r d =
    (if stale r (current fp r d) then touch r (current fp r d)
     else noteRecord fp r (absorb fp False r (retire fp r (current fp r d))))"
  using plain_union [OF assms] by (simp add: merge_into_def current_def Let_def)

lemma Merge_Some: "Merge fp (Some d) v = merge_into fp False (fresh_document v) d"
  by (simp add: Merge_def merge_docs_def)

section \<open>Fields\<close>

lemma setContribution_fields [simp]:
  "v_ID (setContribution k c d) = v_ID d" "v_Title (setContribution k c d) = v_Title d"
  "v_Description (setContribution k c d) = v_Description d" "v_State (setContribution k c d) = v_State d"
  "v_Published (setContribution k c d) = v_Published d" "v_Modified (setContribution k c d) = v_Modified d"
  "v_Withdrawn (setContribution k c d) = v_Withdrawn d" "v_Aliases (setContribution k c d) = v_Aliases d"
  "v_Related (setContribution k c d) = v_Related d" "v_CWEs (setContribution k c d) = v_CWEs d"
  "v_Severities (setContribution k c d) = v_Severities d" "v_References (setContribution k c d) = v_References d"
  "v_Affected (setContribution k c d) = v_Affected d" "v_SSVC (setContribution k c d) = v_SSVC d"
  "v_AssignerShortName (setContribution k c d) = v_AssignerShortName d"
  "v_EnrichmentStatus (setContribution k c d) = v_EnrichmentStatus d" "v_Tags (setContribution k c d) = v_Tags d"
  "v_Source (setContribution k c d) = v_Source d" "v_SourceRecordID (setContribution k c d) = v_SourceRecordID d"
  "v_FetchedAt (setContribution k c d) = v_FetchedAt d" "v_Raw (setContribution k c d) = v_Raw d"
  "d_Contributions (setContribution k c d) = AList.update k c (d_Contributions d)"
  "d_WithdrawnBy (setContribution k c d) = d_WithdrawnBy d" "d_WithdrawnSource (setContribution k c d) = d_WithdrawnSource d"
  by (simp_all add: setContribution_def)

lemma claimedExcept_update [simp]:
  "claimedExcept k (setContribution k c d) = claimedExcept k d"
proof
  fix x
  have "list_ex (\<lambda>(other, c). other \<noteq> k \<and> x \<in> set (claimed_by c)) (AList.update k c al)
      = list_ex (\<lambda>(other, c). other \<noteq> k \<and> x \<in> set (claimed_by c)) al" for al
    by (induction al) auto
  then show "claimedExcept k (setContribution k c d) x = claimedExcept k d x" by (simp add: claimedExcept_def)
qed

lemma claimedExcept_cong: "d_Contributions d = d_Contributions d' \<Longrightarrow> claimedExcept k d = claimedExcept k d'"
  by (simp add: claimedExcept_def fun_eq_iff)

lemma retire_fields [simp]:
  "v_ID (retire fp r d) = v_ID d" "v_Title (retire fp r d) = v_Title d"
  "v_Description (retire fp r d) = v_Description d" "v_State (retire fp r d) = v_State d"
  "v_Published (retire fp r d) = v_Published d" "v_Modified (retire fp r d) = v_Modified d"
  "v_Withdrawn (retire fp r d) = v_Withdrawn d" "v_Aliases (retire fp r d) = v_Aliases d"
  "v_Related (retire fp r d) = v_Related d" "v_CWEs (retire fp r d) = v_CWEs d"
  "v_SSVC (retire fp r d) = v_SSVC d" "v_AssignerShortName (retire fp r d) = v_AssignerShortName d"
  "v_EnrichmentStatus (retire fp r d) = v_EnrichmentStatus d" "v_Tags (retire fp r d) = v_Tags d"
  "v_Source (retire fp r d) = v_Source d" "v_SourceRecordID (retire fp r d) = v_SourceRecordID d"
  "v_FetchedAt (retire fp r d) = v_FetchedAt d" "v_Raw (retire fp r d) = v_Raw d"
  "d_Contributions (retire fp r d) = d_Contributions d"
  "d_WithdrawnBy (retire fp r d) = d_WithdrawnBy d" "d_WithdrawnSource (retire fp r d) = d_WithdrawnSource d"
  by (simp_all add: retire_def split: option.splits)

text \<open>What the previous contribution of a record makes of the statements of a document.\<close>

definition retired :: "string \<Rightarrow> string list \<Rightarrow> 't Document \<Rightarrow> string \<Rightarrow> bool" where
  "retired key prev d k \<longleftrightarrow> k \<in> set prev \<and> \<not> claimedExcept key d k"

lemma retire_children:
  "v_Severities (retire fp r d) = filter (\<lambda>x. \<not> retired (contributionKey r) (ct_Severities (contribution d (contributionKey r))) d (severityKey x)) (v_Severities d)"
  "v_References (retire fp r d) = filter (\<lambda>x. \<not> retired (contributionKey r) (ct_References (contribution d (contributionKey r))) d (referenceKey x)) (v_References d)"
  "v_Affected (retire fp r d) = filter (\<lambda>x. \<not> retired (contributionKey r) (ct_Affected (contribution d (contributionKey r))) d (fp x)) (v_Affected d)"
  by (simp_all add: retire_def kept_of_def retired_def contribution_def no_contribution_def split: option.splits)

definition outranks :: "'t Document \<Rightarrow> 't Document \<Rightarrow> bool" where
  "outranks r d \<longleftrightarrow> rankOf (v_Source r) \<le> rankOf (v_Source d)"

definition promoted :: "'t Document \<Rightarrow> 't Document \<Rightarrow> bool" where
  "promoted r d \<longleftrightarrow> v_Source r \<noteq> [] \<and> rankOf (v_Source r) < rankOf (v_Source d)"

lemma touch_fields [simp]:
  "v_ID (touch r d) = v_ID d" "v_Title (touch r d) = v_Title d" "v_Description (touch r d) = v_Description d"
  "v_State (touch r d) = v_State d" "v_Published (touch r d) = v_Published d" "v_Modified (touch r d) = v_Modified d"
  "v_Withdrawn (touch r d) = v_Withdrawn d" "v_CWEs (touch r d) = v_CWEs d" "v_Severities (touch r d) = v_Severities d"
  "v_References (touch r d) = v_References d" "v_Affected (touch r d) = v_Affected d" "v_SSVC (touch r d) = v_SSVC d"
  "v_AssignerShortName (touch r d) = v_AssignerShortName d" "v_EnrichmentStatus (touch r d) = v_EnrichmentStatus d" "v_Tags (touch r d) = v_Tags d"
  "v_Source (touch r d) = v_Source d" "v_SourceRecordID (touch r d) = v_SourceRecordID d" "v_Raw (touch r d) = v_Raw d"
  "d_Contributions (touch r d) = d_Contributions d" "d_WithdrawnBy (touch r d) = d_WithdrawnBy d" "d_WithdrawnSource (touch r d) = d_WithdrawnSource d"
  "v_Aliases (touch r d) = normalizeIDs (v_Aliases d @ v_Aliases r)" "v_Related (touch r d) = normalizeIDs (v_Related d @ v_Related r)"
  "v_FetchedAt (touch r d) = (if v_FetchedAt r > v_FetchedAt d then v_FetchedAt r else v_FetchedAt d)"
  by (simp_all add: touch_def)

lemma settle_touch [simp]: "settle_withdrawn as_fold r (touch q d) = settle_withdrawn as_fold r d"
  by (simp only: settle_withdrawn_def touch_fields)

lemma absorb_fields:
  "v_ID (absorb fp as_fold r d) = v_ID d"
  "v_Title (absorb fp as_fold r d) = take_text (outranks r d) (v_Title r) (v_Title d)"
  "v_Description (absorb fp as_fold r d) = take_text (outranks r d) (v_Description r) (v_Description d)"
  "v_AssignerShortName (absorb fp as_fold r d) = take_text (outranks r d) (v_AssignerShortName r) (v_AssignerShortName d)"
  "v_State (absorb fp as_fold r d) = take_text (outranks r d) (v_State r) (v_State d)"
  "v_Source (absorb fp as_fold r d) = (if promoted r d then v_Source r else v_Source d)"
  "v_SourceRecordID (absorb fp as_fold r d) = (if promoted r d then v_SourceRecordID r else v_SourceRecordID d)"
  "v_Published (absorb fp as_fold r d) = earlier_of (v_Published d) (v_Published r)"
  "v_Modified (absorb fp as_fold r d) = later_of (v_Modified d) (v_Modified r)"
  "v_Withdrawn (absorb fp as_fold r d) = fst (settle_withdrawn as_fold r d)"
  "d_WithdrawnBy (absorb fp as_fold r d) = snd (settle_withdrawn as_fold r d)"
  "d_WithdrawnSource (absorb fp as_fold r d) = d_WithdrawnSource d"
  "v_CWEs (absorb fp as_fold r d) = DedupeStrings (v_CWEs d @ v_CWEs r)"
  "v_Tags (absorb fp as_fold r d) = DedupeStrings (v_Tags d @ v_Tags r)"
  "v_EnrichmentStatus (absorb fp as_fold r d) = (if v_EnrichmentStatus r \<noteq> [] then v_EnrichmentStatus r else v_EnrichmentStatus d)"
  "v_Severities (absorb fp as_fold r d) = mergeSeverities (v_Severities d) (v_Severities r)"
  "v_References (absorb fp as_fold r d) = mergeReferences (v_References d) (v_References r)"
  "v_Affected (absorb fp as_fold r d) = mergeAffected fp (v_Affected d) (v_Affected r)"
  "v_SSVC (absorb fp as_fold r d) = (if v_SSVC r \<noteq> None \<and> (v_SSVC d = None \<or> outranks r d) then v_SSVC r else v_SSVC d)"
  "v_Raw (absorb fp as_fold r d) = (if v_Raw r \<noteq> [] \<and> outranks r d then v_Raw r else v_Raw d)"
  "v_Aliases (absorb fp as_fold r d) = normalizeIDs (v_Aliases d @ v_Aliases r)"
  "v_Related (absorb fp as_fold r d) = normalizeIDs (v_Related d @ v_Related r)"
  "v_FetchedAt (absorb fp as_fold r d) = (if v_FetchedAt r > v_FetchedAt d then v_FetchedAt r else v_FetchedAt d)"
  "d_Contributions (absorb fp as_fold r d) = d_Contributions d"
  by (simp_all add: absorb_def Let_def outranks_def promoted_def)

lemma noteRecord_fields [simp]:
  "v_Severities (noteRecord fp r d) = v_Severities d" "v_References (noteRecord fp r d) = v_References d"
  "v_Affected (noteRecord fp r d) = v_Affected d" "v_Source (noteRecord fp r d) = v_Source d"
  "v_Aliases (noteRecord fp r d) = v_Aliases d" "v_ID (noteRecord fp r d) = v_ID d"
  "v_Published (noteRecord fp r d) = v_Published d" "v_Modified (noteRecord fp r d) = v_Modified d"
  "v_Withdrawn (noteRecord fp r d) = v_Withdrawn d" "d_WithdrawnBy (noteRecord fp r d) = d_WithdrawnBy d"
  by (simp_all add: noteRecord_def)

lemma current_fields [simp]:
  "v_Severities (current fp r d) = v_Severities d" "v_References (current fp r d) = v_References d"
  "v_Affected (current fp r d) = v_Affected d" "v_Source (current fp r d) = v_Source d"
  "v_Aliases (current fp r d) = v_Aliases d" "v_ID (current fp r d) = v_ID d" "v_Title (current fp r d) = v_Title d"
  "v_Published (current fp r d) = v_Published d" "v_Modified (current fp r d) = v_Modified d"
  "v_Withdrawn (current fp r d) = v_Withdrawn d"
  by (simp_all add: current_def adoptLegacyRecord_def adoptLegacyWithdrawal_def Let_def)

section \<open>What is left of the statements\<close>

lemma keyed_at_same:
  assumes "distinct (map key xs)" "mset ys = mset xs"
  shows "keyed_at key k ys = keyed_at key k xs"
proof -
  have d: "distinct (map key ys)" using assms by (metis mset_eq_imp_distinct_iff mset_map)
  have s: "set ys = set xs" using assms(2) by (metis set_mset_mset)
  show ?thesis
  proof (cases "keyed_at key k xs")
    case None
    then have "keyed_at key k ys = None" using s keyed_at_None [of key k xs] by (simp add: keyed_at_None)
    then show ?thesis using None by simp
  next
    case (Some x)
    then have "x \<in> set ys" "key x = k" using s keyed_at_Some by metis+
    then show ?thesis using keyed_at_unique [OF d] Some by metis
  qed
qed

text \<open>The statement under a key: the record's, else the document's unless the record made it before and nobody else does.\<close>

definition last_word :: "('a \<Rightarrow> string) \<Rightarrow> (string \<Rightarrow> bool) \<Rightarrow> 'a list \<Rightarrow> 'a list \<Rightarrow> string \<Rightarrow> 'a option" where
  "last_word key gone held stated_now k =
     (case keyed_at key k stated_now of Some x \<Rightarrow> Some x | None \<Rightarrow> if gone k then None else keyed_at key k held)"

lemma last_word_merge:
  "keyed_at key k (merge_keyed key (filter (\<lambda>x. \<not> gone (key x)) held) b) = last_word key gone held b k"
proof -
  have "keyed_at key k (filter (\<lambda>x. \<not> gone (key x)) held) = (if gone k then None else keyed_at key k held)"
  proof (cases "gone k")
    case True
    then show ?thesis by (auto simp: keyed_at_None)
  next
    case False
    then show ?thesis by (simp add: keyed_at_filter)
  qed
  then show ?thesis by (cases "gone k") (simp_all add: keyed_at_merge last_word_def split: option.splits)
qed

lemma merged_children:
  fixes r d :: "'t::linorder Document"
  assumes "plain r" "\<not> stale r (current fp r d)"
  defines "c \<equiv> contribution (current fp r d) (contributionKey r)" and "out \<equiv> merge_into fp False r d"
  shows "keyed_at severityKey k (v_Severities out)
      = last_word severityKey (retired (contributionKey r) (ct_Severities c) (current fp r d)) (v_Severities d) (v_Severities r) k"
    "keyed_at referenceKey k (v_References out)
      = last_word referenceKey (retired (contributionKey r) (ct_References c) (current fp r d)) (v_References d) (v_References r) k"
    "keyed_at fp k (v_Affected out)
      = last_word fp (retired (contributionKey r) (ct_Affected c) (current fp r d)) (v_Affected d) (v_Affected r) k"
proof -
  have out: "out = noteRecord fp r (absorb fp False r (retire fp r (current fp r d)))"
    using assms(2) merge_record [OF assms(1)] by (simp add: out_def)
  have sorted_same: "keyed_at severityKey k (sort_key f (merge_keyed severityKey a b)) = keyed_at severityKey k (merge_keyed severityKey a b)"
    for a b and f :: "Severity \<Rightarrow> int"
    by (rule keyed_at_same [OF merge_keyed_distinct]) simp
  show "keyed_at severityKey k (v_Severities out)
      = last_word severityKey (retired (contributionKey r) (ct_Severities c) (current fp r d)) (v_Severities d) (v_Severities r) k"
    unfolding out noteRecord_fields absorb_fields mergeSeverities_def sorted_same retire_children c_def current_fields
    by (rule last_word_merge)
  show "keyed_at referenceKey k (v_References out)
      = last_word referenceKey (retired (contributionKey r) (ct_References c) (current fp r d)) (v_References d) (v_References r) k"
    unfolding out noteRecord_fields absorb_fields mergeReferences_def retire_children c_def current_fields
    by (rule last_word_merge)
  show "keyed_at fp k (v_Affected out)
      = last_word fp (retired (contributionKey r) (ct_Affected c) (current fp r d)) (v_Affected d) (v_Affected r) k"
    unfolding out noteRecord_fields absorb_fields mergeAffected_def retire_children c_def current_fields
    by (rule last_word_merge)
qed

section \<open>A record that comes round again\<close>

text \<open>
  Every statement of the document that the record makes too is claimed by the record's last contribution or by another
  record, and what another record claims the document holds.
\<close>

definition accounted_kind :: "('a \<Rightarrow> string) \<Rightarrow> string list \<Rightarrow> (string \<Rightarrow> bool) \<Rightarrow> 'a list \<Rightarrow> 'a list \<Rightarrow> bool" where
  "accounted_kind key prev claimed held b \<longleftrightarrow>
     list_all (\<lambda>x. key x \<in> key ` set b \<longrightarrow> claimed (key x) \<or> key x \<in> set prev) held \<and>
     list_all (\<lambda>y. claimed (key y) \<longrightarrow> key y \<in> key ` set held) b"

definition accounted_for :: "(AffectedRow \<Rightarrow> string) \<Rightarrow> 't Document \<Rightarrow> 't Document \<Rightarrow> bool" where
  "accounted_for fp r d \<longleftrightarrow>
     (let ck = contributionKey r; c = contribution d ck in
      accounted_kind severityKey (ct_Severities c) (claimedExcept ck d) (v_Severities d) (v_Severities r) \<and>
      accounted_kind referenceKey (ct_References c) (claimedExcept ck d) (v_References d) (v_References r) \<and>
      accounted_kind fp (ct_Affected c) (claimedExcept ck d) (v_Affected d) (v_Affected r))"

lemma accounted_left:
  assumes "accounted_kind key prev claimed held b"
  defines "E \<equiv> put_all key (filter (\<lambda>x. \<not> (key x \<in> set prev \<and> \<not> claimed (key x))) held) []"
  shows "distinct (map key E)" "\<And>x. x \<in> set E \<Longrightarrow> key x \<in> key ` set b \<Longrightarrow> claimed (key x)"
    "\<And>k. k \<in> key ` set b \<Longrightarrow> claimed k \<Longrightarrow> k \<in> key ` set E"
    "merge_keyed key (filter (\<lambda>x. \<not> (key x \<in> set prev \<and> \<not> claimed (key x))) held) b = put_all key b E"
proof -
  show "distinct (map key E)" unfolding E_def by (rule put_all_distinct) simp
  show "claimed (key x)" if "x \<in> set E" "key x \<in> key ` set b" for x
  proof -
    have "x \<in> set held" "\<not> (key x \<in> set prev \<and> \<not> claimed (key x))"
      using that(1) put_all_set [of key _ "[]"] unfolding E_def by fastforce+
    then show ?thesis using assms(1) that(2) by (auto simp: accounted_kind_def list_all_iff)
  qed
  show "k \<in> key ` set E" if "k \<in> key ` set b" "claimed k" for k
    using that assms(1) unfolding E_def put_all_keys by (auto simp: accounted_kind_def list_all_iff)
  show "merge_keyed key (filter (\<lambda>x. \<not> (key x \<in> set prev \<and> \<not> claimed (key x))) held) b = put_all key b E"
    by (simp add: merge_keyed_def E_def)
qed

lemma gone_unclaimed: "retired ck (map key b) d (key x) \<longleftrightarrow> unclaimed key b (claimedExcept ck d) x"
  by (auto simp: retired_def unclaimed_def)

lemma replay_children:
  assumes "accounted_kind key prev (claimedExcept ck d) held b" "claimedExcept ck d' = claimedExcept ck d"
  defines "X \<equiv> merge_keyed key (filter (\<lambda>x. \<not> retired ck prev d (key x)) held) b"
  shows "merge_keyed key (filter (\<lambda>x. \<not> retired ck (map key b) d' (key x)) X) b = X"
    "sort_key f (merge_keyed key (filter (\<lambda>x. \<not> retired ck (map key b) d' (key x)) (sort_key f X)) b) = sort_key f X"
proof -
  let ?E = "put_all key (filter (\<lambda>x. \<not> (key x \<in> set prev \<and> \<not> claimedExcept ck d (key x))) held) []"
  note E = accounted_left [OF assms(1)]
  have X: "X = put_all key b ?E" using E(4) by (simp add: X_def retired_def)
  have g: "retired ck (map key b) d' (key x) = unclaimed key b (claimedExcept ck d) x" for x
    using assms(2) by (auto simp: retired_def unclaimed_def)
  show "merge_keyed key (filter (\<lambda>x. \<not> retired ck (map key b) d' (key x)) X) b = X"
    unfolding X g by (rule replay_keyed) (use E in blast)+
  show "sort_key f (merge_keyed key (filter (\<lambda>x. \<not> retired ck (map key b) d' (key x)) (sort_key f X)) b) = sort_key f X"
    unfolding X g by (rule replay_sorted) (use E in blast)+
qed

lemma idempotent_image:
  assumes "\<And>x. f (f x) = f x"
  shows "f ` ((f ` (A \<union> B) - {e}) \<union> B) - {e} = f ` (A \<union> B) - {e}"
proof (intro set_eqI iffI)
  fix y assume "y \<in> f ` ((f ` (A \<union> B) - {e}) \<union> B) - {e}"
  then obtain x where "y = f x" "y \<noteq> e" "x \<in> f ` (A \<union> B) \<or> x \<in> B" by blast
  then show "y \<in> f ` (A \<union> B) - {e}" using assms by auto
next
  fix y assume "y \<in> f ` (A \<union> B) - {e}"
  then show "y \<in> f ` ((f ` (A \<union> B) - {e}) \<union> B) - {e}" using assms by (auto intro: image_eqI [of _ _ "f x" for x])
qed

lemma trim_NormalizeID [simp]: "trim_space (NormalizeID i) = NormalizeID i"
  by (rule trim_space_case [OF NormalizeID_fold]) simp

lemma set_normalizeIDs: "set (normalizeIDs xs) = NormalizeID ` set xs - {[]}"
  using DedupeStrings_props [of "map NormalizeID xs"] by (simp add: normalizeIDs_def image_image)

lemma dedupe_again: "DedupeStrings (DedupeStrings (a @ b) @ b) = DedupeStrings (a @ b)"
proof (rule sorted_distinct_set_unique)
  show "set (DedupeStrings (DedupeStrings (a @ b) @ b)) = set (DedupeStrings (a @ b))"
    using DedupeStrings_props [of "DedupeStrings (a @ b) @ b"] DedupeStrings_props [of "a @ b"]
      idempotent_image [OF trim_space_idem, of "set a" "set b" "[]"] by simp
qed (use DedupeStrings_props in blast)+

lemma normalize_again: "normalizeIDs (normalizeIDs (a @ b) @ b) = normalizeIDs (a @ b)"
proof (rule sorted_distinct_set_unique)
  show "set (normalizeIDs (normalizeIDs (a @ b) @ b)) = set (normalizeIDs (a @ b))"
    using idempotent_image [OF NormalizeID_idem, of "set a" "set b" "[]"] by (simp add: set_normalizeIDs)
qed (use DedupeStrings_props in \<open>simp_all add: normalizeIDs_def\<close>)

lemma touch_again: "touch r (touch r d) = touch r d"
  by (simp add: touch_def normalize_again)

lemma take_text_again [simp]: "take_text o1 i (take_text o1 i h) = take_text o1 i h"
  by (simp add: take_text_def)

lemma earlier_again [simp]: "earlier_of (earlier_of a b) b = earlier_of a b"
  by (simp add: earlier_of_def split: option.splits)

lemma later_again [simp]: "later_of (later_of a b) b = later_of a b"
  by (simp add: later_of_def split: option.splits)

lemma settle_again:
  assumes "plain r" "settle_withdrawn False r d = (w, by_key)" "v_Withdrawn d' = w" "d_WithdrawnBy d' = by_key"
  shows "settle_withdrawn False r d' = (w, by_key)"
proof (cases "v_Withdrawn r")
  case None
  then show ?thesis using assms(2) unfolding settle_withdrawn_def Let_def assms(3,4) by (auto split: if_splits)
next
  case (Some t)
  show ?thesis using assms(2) plain_key [OF assms(1)] unfolding settle_withdrawn_def Let_def assms(3,4) Some
    by (auto split: if_splits)
qed

lemma current_again:
  assumes "d_WithdrawnSource d = []" "v_Withdrawn d \<noteq> None \<Longrightarrow> d_WithdrawnBy d \<noteq> []" "map_of (d_Contributions d) (contributionKey r) \<noteq> None"
  shows "current fp r d = d"
proof -
  have "adoptLegacyWithdrawal d = d\<lparr>d_WithdrawnSource := []\<rparr>" using assms(2) by (auto simp: adoptLegacyWithdrawal_def Let_def)
  also have "\<dots> = d" using assms(1) by simp
  finally show ?thesis using assms(3) by (simp add: current_def adoptLegacyRecord_def)
qed

lemma current_withdrawal:
  fixes d :: "'a Document"
  assumes "v_Source d \<noteq> []"
  shows "d_WithdrawnSource (current fp r d) = []" "v_Withdrawn (current fp r d) \<noteq> None \<Longrightarrow> d_WithdrawnBy (current fp r d) \<noteq> []"
proof -
  have r: "d_WithdrawnSource (adoptLegacyRecord fp r e) = d_WithdrawnSource e" "d_WithdrawnBy (adoptLegacyRecord fp r e) = d_WithdrawnBy e"
    "v_Withdrawn (adoptLegacyRecord fp r e) = v_Withdrawn e" for e :: "'a Document"
    by (simp_all add: adoptLegacyRecord_def)
  show "d_WithdrawnSource (current fp r d) = []" by (simp add: current_def r adoptLegacyWithdrawal_def Let_def)
  show "d_WithdrawnBy (current fp r d) \<noteq> []" if "v_Withdrawn (current fp r d) \<noteq> None"
  proof -
    have "v_Withdrawn d \<noteq> None" using that by (simp only: current_fields not_False_eq_True)
    then show ?thesis using assms by (simp add: current_def r adoptLegacyWithdrawal_def Let_def sourceOnlyKey_def)
  qed
qed

lemma settled_withdrawal:
  assumes "plain r" "v_Withdrawn d \<noteq> None \<Longrightarrow> d_WithdrawnBy d \<noteq> []" "fst (settle_withdrawn False r d) \<noteq> None"
  shows "snd (settle_withdrawn False r d) \<noteq> []"
proof (cases "v_Withdrawn r")
  case None
  then show ?thesis using assms(2,3) unfolding settle_withdrawn_def Let_def by (auto split: if_splits)
next
  case (Some t)
  show ?thesis using assms(2,3) plain_key [OF assms(1)] unfolding settle_withdrawn_def Let_def Some by (auto split: if_splits)
qed

lemma retire_withdrawn [simp]: "settle_withdrawn as_fold r (retire fp q d) = settle_withdrawn as_fold r d"
  by (simp only: settle_withdrawn_def retire_fields)

lemma contribution_noted:
  "v_Source r \<noteq> [] \<Longrightarrow> contribution (noteRecord fp r d) (contributionKey r) = (contributionOf fp r)\<lparr>ct_Modified := v_Modified r\<rparr>"
  "v_Source r \<noteq> [] \<Longrightarrow> map_of (d_Contributions (noteRecord fp r d)) (contributionKey r) = Some ((contributionOf fp r)\<lparr>ct_Modified := v_Modified r\<rparr>)"
  by (simp_all add: noteRecord_def contribution_def update_conv')

lemma claimedExcept_noted: "claimedExcept (contributionKey r) (noteRecord fp r d) = claimedExcept (contributionKey r) d"
  by (simp add: noteRecord_def)

text \<open>The children of a document into which a record was merged once, merged with it once more.\<close>

lemma children_again:
  fixes fp r and c :: "'t::linorder Document"
  assumes "accounted_for fp r c" "v_Source r \<noteq> []"
  defines "d1 \<equiv> noteRecord fp r (absorb fp False r (retire fp r c))"
  shows "mergeSeverities (v_Severities (retire fp r d1)) (v_Severities r) = v_Severities d1"
    "mergeReferences (v_References (retire fp r d1)) (v_References r) = v_References d1"
    "mergeAffected fp (v_Affected (retire fp r d1)) (v_Affected r) = v_Affected d1"
proof -
  let ?ck = "contributionKey r"
  have a: "accounted_kind severityKey (ct_Severities (contribution c ?ck)) (claimedExcept ?ck c) (v_Severities c) (v_Severities r)"
    "accounted_kind referenceKey (ct_References (contribution c ?ck)) (claimedExcept ?ck c) (v_References c) (v_References r)"
    "accounted_kind fp (ct_Affected (contribution c ?ck)) (claimedExcept ?ck c) (v_Affected c) (v_Affected r)"
    using assms(1) by (simp_all add: accounted_for_def Let_def)
  have claims: "claimedExcept ?ck d1 = claimedExcept ?ck c"
    unfolding d1_def claimedExcept_noted by (rule claimedExcept_cong) (simp add: absorb_fields)
  have prev: "ct_Severities (contribution d1 ?ck) = map severityKey (v_Severities r)"
    "ct_References (contribution d1 ?ck) = map referenceKey (v_References r)"
    "ct_Affected (contribution d1 ?ck) = map fp (v_Affected r)"
    using contribution_noted(1) [OF assms(2)] by (simp_all add: d1_def contributionOf_def)
  have d1: "v_Severities d1 = mergeSeverities (v_Severities (retire fp r c)) (v_Severities r)"
    "v_References d1 = mergeReferences (v_References (retire fp r c)) (v_References r)"
    "v_Affected d1 = mergeAffected fp (v_Affected (retire fp r c)) (v_Affected r)"
    by (simp_all add: d1_def absorb_fields)
  show "mergeSeverities (v_Severities (retire fp r d1)) (v_Severities r) = v_Severities d1"
    unfolding retire_children(1) [of fp r d1] prev d1 mergeSeverities_def retire_children(1) [of fp r c]
    by (rule replay_children(2) [OF a(1) claims])
  show "mergeReferences (v_References (retire fp r d1)) (v_References r) = v_References d1"
    unfolding retire_children(2) [of fp r d1] prev d1 mergeReferences_def retire_children(2) [of fp r c]
    by (rule replay_children(1) [OF a(2) claims])
  show "mergeAffected fp (v_Affected (retire fp r d1)) (v_Affected r) = v_Affected d1"
    unfolding retire_children(3) [of fp r d1] prev d1 mergeAffected_def retire_children(3) [of fp r c]
    by (rule replay_children(1) [OF a(3) claims])
qed

lemma rank_again:
  assumes "v_Source d1 = (if promoted r c then v_Source r else v_Source c)"
  shows "outranks r d1 = outranks r c" "\<not> promoted r d1"
  using assms by (auto simp: outranks_def promoted_def split: if_splits)

lemma not_stale_again:
  assumes "v_Source r \<noteq> []"
  shows "\<not> stale r (noteRecord fp r d)"
  using contribution_noted(2) [OF assms, of fp d] by (auto simp: stale_def split: option.splits)

lemma absorb_again:
  fixes fp r and c :: "'t::linorder Document"
  assumes "plain r" "v_Source r \<noteq> []" "accounted_for fp r c"
  defines "d1 \<equiv> noteRecord fp r (absorb fp False r (retire fp r c))"
  shows "absorb fp False r (retire fp r d1) = d1"
proof -
  let ?a = "absorb fp False r (retire fp r c)"
  have same: "f d1 = f ?a" if "\<And>k x (e :: 't Document). f (setContribution k x e) = f e" for f :: "'t Document \<Rightarrow> 'z"
    using that assms(2) by (simp add: d1_def noteRecord_def)
  have r0: "outranks r (retire fp r e) = outranks r e" "promoted r (retire fp r e) = promoted r e" for e
    by (simp_all add: outranks_def promoted_def)
  have "v_Source d1 = (if promoted r c then v_Source r else v_Source c)" by (simp add: same absorb_fields r0)
  note rank = rank_again [OF this]
  note kids = children_again [OF assms(3,2), folded d1_def]
  have w: "settle_withdrawn False r d1 = settle_withdrawn False r c"
  proof -
    obtain w k where wk: "settle_withdrawn False r c = (w, k)" by (cases "settle_withdrawn False r c")
    have "v_Withdrawn d1 = w" "d_WithdrawnBy d1 = k" using wk by (simp_all add: same absorb_fields)
    then show ?thesis using settle_again [OF assms(1) wk] wk by simp
  qed
  show ?thesis
  proof (rule Document.equality)
    show "v_FetchedAt (absorb fp False r (retire fp r d1)) = v_FetchedAt d1" by (simp add: absorb_fields same)
  qed (simp_all add: absorb_fields r0 rank w kids, simp_all add: same absorb_fields r0 dedupe_again normalize_again, auto)
qed

lemma replay_record:
  fixes d :: "'t::linorder Document"
  assumes "plain r" "v_Source r \<noteq> []" "v_Source d \<noteq> []" "accounted_for fp r (current fp r d)"
  shows "merge_into fp False r (merge_into fp False r d) = merge_into fp False r d"
proof -
  let ?c = "current fp r d"
  show ?thesis
  proof (cases "stale r ?c")
    case True
    then have known: "map_of (d_Contributions ?c) (contributionKey r) \<noteq> None" by (auto simp: stale_def split: option.splits)
    have out: "merge_into fp False r d = touch r ?c" using True merge_record [OF assms(1)] by simp
    have "current fp r (touch r ?c) = touch r ?c"
      by (rule current_again) (use current_withdrawal [OF assms(3), of fp r] known in auto)
    moreover have "stale r (touch r ?c)" using True by (simp only: stale_def touch_fields simp_thms)
    ultimately show ?thesis using out merge_record [OF assms(1)] by (simp add: touch_again)
  next
    case False
    let ?d1 = "noteRecord fp r (absorb fp False r (retire fp r ?c))"
    have out: "merge_into fp False r d = ?d1" using False merge_record [OF assms(1)] by simp
    have "current fp r ?d1 = ?d1"
    proof (rule current_again)
      show "d_WithdrawnSource ?d1 = []" using current_withdrawal(1) [OF assms(3), of fp r] by (simp add: noteRecord_def absorb_fields)
      have "v_Withdrawn ?c \<noteq> None \<Longrightarrow> d_WithdrawnBy ?c \<noteq> []" by (rule current_withdrawal(2) [OF assms(3)])
      then show "v_Withdrawn ?d1 \<noteq> None \<Longrightarrow> d_WithdrawnBy ?d1 \<noteq> []"
        using settled_withdrawal [OF assms(1), of ?c] by (simp add: absorb_fields)
      show "map_of (d_Contributions ?d1) (contributionKey r) \<noteq> None" using contribution_noted(2) [OF assms(2)] by simp
    qed
    moreover have "noteRecord fp r ?d1 = ?d1" using assms(2) by (simp add: noteRecord_def setContribution_def)
    ultimately show ?thesis
      unfolding out using merge_record [OF assms(1), of fp ?d1] not_stale_again [OF assms(2)] absorb_again [OF assms(1,2,4)] by simp
  qed
qed

end
