(* ===== verification/Merge_Order.thy ===== *)
theory Merge_Order
  imports Merge_Replay
begin

text \<open>
  Laws of a whole ingest: whatever order the records of a vulnerability arrive in, the document's source is one of the
  most authoritative and its modification time the latest; who can take a withdrawal back; and which score is the
  primary one.
\<close>

section \<open>Keys of records\<close>

lemma keySource_key: "NUL \<notin> set (v_Source r) \<Longrightarrow> keySource (contributionKey r) = v_Source r"
  using split_first_append [of NUL "v_Source r"] by (simp add: keySource_def contributionKey_def)

lemma keySource_only: "NUL \<notin> set s \<Longrightarrow> keySource (sourceOnlyKey s) = s"
  using split_first_append [of NUL s "[]"] by (simp add: keySource_def sourceOnlyKey_def)

text \<open>Only the record itself matches the key of a record that has an identifier.\<close>

lemma matches_itself_only:
  assumes "recordMatchesKey (contributionKey q) r" "NUL \<notin> set (v_Source q)"
    "v_SourceRecordID q \<noteq> [] \<or> v_ID q \<noteq> []"
  shows "contributionKey q = contributionKey r"
proof -
  have "contributionKey q \<noteq> sourceOnlyKey (keySource (contributionKey q))"
    using assms(3) unfolding keySource_key [OF assms(2)] by (auto simp: sourceOnlyKey_def contributionKey_def)
  then show ?thesis using assms(1) by (simp add: recordMatchesKey_def)
qed

section \<open>Withdrawals\<close>

lemma settle_cases:
  assumes "plain r" "v_Withdrawn d = Some t"
  shows "settle_withdrawn False r d = (Some t, d_WithdrawnBy d)
    \<or> (v_Withdrawn r \<noteq> None \<and> settle_withdrawn False r d = (v_Withdrawn r, contributionKey r)
        \<and> rankOf (keySource (contributionKey r)) \<le> rankOf (keySource (d_WithdrawnBy d)))
    \<or> (v_Withdrawn r = None \<and> settle_withdrawn False r d = (None, []) \<and> recordMatchesKey (d_WithdrawnBy d) r)"
  using assms(2) plain_key [OF assms(1)] by (cases "v_Withdrawn r") (auto simp: settle_withdrawn_def Let_def)

lemma withdrawal_stands:
  fixes d :: "'t::linorder Document" and fp :: "AffectedRow \<Rightarrow> string"
  assumes "plain r" "v_Withdrawn d = Some t" "d_WithdrawnBy d = key" "key \<noteq> []"
  defines "out \<equiv> merge_into fp False r d"
  shows "(v_Withdrawn out, d_WithdrawnBy out) = (Some t, key)
    \<or> (v_Withdrawn r \<noteq> None \<and> (v_Withdrawn out, d_WithdrawnBy out) = (v_Withdrawn r, contributionKey r)
        \<and> rankOf (keySource (contributionKey r)) \<le> rankOf (keySource key))
    \<or> (v_Withdrawn r = None \<and> (v_Withdrawn out, d_WithdrawnBy out) = (None, []) \<and> recordMatchesKey key r)"
proof -
  have b: "d_WithdrawnBy (current fp r d) = key"
    using assms(3,4) by (simp add: current_def adoptLegacyRecord_def adoptLegacyWithdrawal_def Let_def)
  have t: "v_Withdrawn (current fp r d) = Some t" using assms(2) by simp
  show ?thesis
  proof (cases "stale r (current fp r d)")
    case True
    then have "out = touch r (current fp r d)" using merge_record [OF assms(1)] by (simp add: out_def)
    then show ?thesis using b t by simp
  next
    case False
    then have "out = noteRecord fp r (absorb fp False r (retire fp r (current fp r d)))"
      using merge_record [OF assms(1)] by (simp add: out_def)
    then have "(v_Withdrawn out, d_WithdrawnBy out) = settle_withdrawn False r (current fp r d)" by (simp add: absorb_fields)
    then show ?thesis using settle_cases [OF assms(1) t] b by (simp only: t b)
  qed
qed

section \<open>Ingests\<close>

definition ingest :: "(AffectedRow \<Rightarrow> string) \<Rightarrow> 't::linorder Fetched list \<Rightarrow> 't Document option" where
  "ingest fp rs = fold (\<lambda>v d. Some (Merge fp d v)) rs None"

lemma ingest_snoc: "ingest fp (rs @ [v]) = Some (Merge fp (ingest fp rs) v)"
  by (simp add: ingest_def)

lemma ingest_None: "ingest fp rs = None \<longleftrightarrow> rs = []"
  by (cases rs rule: rev_cases) (simp_all add: ingest_def)

text \<open>The books of a document: no contribution is of a better source or of a later time than the document's own.\<close>

definition at_least :: "'t::linorder option \<Rightarrow> 't option \<Rightarrow> bool" where
  "at_least b a \<longleftrightarrow> (case a of None \<Rightarrow> True | Some t \<Rightarrow> (case b of None \<Rightarrow> False | Some u \<Rightarrow> t \<le> u))"

lemma at_least_refl [simp]: "at_least a a" by (simp add: at_least_def split: option.splits)

lemma at_least_trans: "at_least c b \<Longrightarrow> at_least b a \<Longrightarrow> at_least c a"
  by (auto simp: at_least_def split: option.splits)

lemma at_least_later: "at_least (later_of a b) a" "at_least (later_of a b) b"
  by (auto simp: at_least_def later_of_def split: option.splits)

lemma later_of_cases: "later_of a b = a \<or> later_of a b = b"
  by (auto simp: later_of_def split: option.splits)

definition books :: "'t::linorder Document \<Rightarrow> bool" where
  "books d \<longleftrightarrow> (\<forall>(k, c) \<in> set (d_Contributions d).
     rankOf (v_Source d) \<le> rankOf (keySource k) \<and> at_least (v_Modified d) (ct_Modified c))"

lemma books_update:
  assumes "\<forall>(k, c) \<in> set al. P k c" "P key c"
  shows "\<forall>(k, c) \<in> set (AList.update key c al). P k c"
  using assms by (induction al) (auto split: if_splits)

lemma books_born:
  assumes "NUL \<notin> set (v_Source v)"
  shows "books (born fp False (fresh_document v))" "v_Source (born fp False (fresh_document v)) = v_Source v"
    "v_Modified (born fp False (fresh_document v)) = v_Modified v"
proof -
  have c: "d_Contributions (fresh_document v) = []" using fresh_plain [of v] by (simp add: plain_def)
  show "books (born fp False (fresh_document v))"
    using keySource_key [of "fresh_document v"] assms
    by (simp add: born_def Let_def noteRecord_def books_def c contributionOf_def)
qed (simp_all add: born_def Let_def noteRecord_def)

lemma books_current:
  assumes "books d" "NUL \<notin> set (v_Source r)"
  shows "\<forall>(k, c) \<in> set (d_Contributions (current fp r d)).
    (rankOf (v_Source d) \<le> rankOf (keySource k) \<or> k = contributionKey r) \<and> at_least (v_Modified d) (ct_Modified c)"
    "stale r (current fp r d) \<Longrightarrow> rankOf (v_Source d) \<le> rankOf (v_Source r) \<and> at_least (v_Modified d) (v_Modified r)"
proof -
  let ?d = "adoptLegacyWithdrawal d"
  have f: "d_Contributions ?d = d_Contributions d" "v_Source ?d = v_Source d" "v_Modified ?d = v_Modified d"
    by (simp_all add: adoptLegacyWithdrawal_def Let_def)
  have old: "\<forall>(k, c) \<in> set (d_Contributions d). rankOf (v_Source d) \<le> rankOf (keySource k) \<and> at_least (v_Modified d) (ct_Modified c)"
    using assms(1) by (simp add: books_def)
  have own: "ct_Modified (adopted fp r ?d) = (if v_Source r = v_Source d then v_Modified d else None)"
    by (simp add: adopted_def Let_def f)
  have new: "at_least (v_Modified d) (ct_Modified (adopted fp r ?d))" unfolding own by (cases "v_Source r = v_Source d") (simp_all, simp add: at_least_def)
  show "\<forall>(k, c) \<in> set (d_Contributions (current fp r d)).
    (rankOf (v_Source d) \<le> rankOf (keySource k) \<or> k = contributionKey r) \<and> at_least (v_Modified d) (ct_Modified c)"
  proof (cases "current fp r d = ?d")
    case True
    then show ?thesis using old f by auto
  next
    case False
    then have "d_Contributions (current fp r d) = AList.update (contributionKey r) (adopted fp r ?d) (d_Contributions d)"
      by (auto simp: current_def adoptLegacyRecord_def f split: if_splits)
    then show ?thesis using new old
      by (simp only:) (rule books_update, auto)
  qed
  assume st: "stale r (current fp r d)"
  then obtain t prev u where p: "v_Modified r = Some t" "map_of (d_Contributions (current fp r d)) (contributionKey r) = Some prev"
      "ct_Modified prev = Some u" "t < u"
    by (auto simp: stale_def split: option.splits)
  have "rankOf (v_Source d) \<le> rankOf (v_Source r) \<and> at_least (v_Modified d) (ct_Modified prev)"
  proof (cases "map_of (d_Contributions d) (contributionKey r)")
    case None
    then have "d_Contributions (current fp r d) = d_Contributions d
        \<or> d_Contributions (current fp r d) = AList.update (contributionKey r) (adopted fp r ?d) (d_Contributions d)"
      by (auto simp: current_def adoptLegacyRecord_def f)
    then have "prev = adopted fp r ?d" using p(2) None by (auto simp: update_conv')
    then show ?thesis using p(3) own new by (auto split: if_splits)
  next
    case (Some c)
    then have "d_Contributions (current fp r d) = d_Contributions d" by (simp add: current_def adoptLegacyRecord_def f)
    then have "(contributionKey r, prev) \<in> set (d_Contributions d)" using p(2) map_of_SomeD by metis
    then show ?thesis using old keySource_key [OF assms(2)] by auto
  qed
  then show "rankOf (v_Source d) \<le> rankOf (v_Source r) \<and> at_least (v_Modified d) (v_Modified r)"
    using p(1,3,4) by (auto simp: at_least_def split: option.splits)
qed

lemma rankOf_known: "rankOf s \<le> 100"
proof -
  have "list_all (\<lambda>(s, r). r \<le> 100) sourceRank" by (simp add: sourceRank_def)
  then show ?thesis by (auto simp: rankOf_def list_all_iff dest!: map_of_SomeD split: option.splits)
qed

lemma rankOf_none [simp]: "rankOf [] = 100"
  by (simp add: rankOf_def sourceRank_def)

lemma books_merge:
  fixes d :: "'t::linorder Document" and fp :: "AffectedRow \<Rightarrow> string"
  assumes "books d" "plain r" "NUL \<notin> set (v_Source r)"
  defines "out \<equiv> merge_into fp False r d"
  shows "books out" "rankOf (v_Source out) = min (rankOf (v_Source d)) (rankOf (v_Source r))" "v_Source out = v_Source d \<or> v_Source out = v_Source r"
    "at_least (v_Modified out) (v_Modified d)" "at_least (v_Modified out) (v_Modified r)"
    "v_Modified out = v_Modified d \<or> v_Modified out = v_Modified r"
proof -
  let ?c = "current fp r d"
  note bc = books_current [OF assms(1,3), of fp]
  have all: "books out \<and> rankOf (v_Source out) = min (rankOf (v_Source d)) (rankOf (v_Source r)) \<and> (v_Source out = v_Source d \<or> v_Source out = v_Source r)
    \<and> at_least (v_Modified out) (v_Modified d) \<and> at_least (v_Modified out) (v_Modified r)
    \<and> (v_Modified out = v_Modified d \<or> v_Modified out = v_Modified r)"
  proof (cases "stale r ?c")
    case True
    then have out: "out = touch r ?c" using merge_record [OF assms(2)] by (simp add: out_def)
    have "books out" using bc(1) bc(2) [OF True] keySource_key [OF assms(3)] by (auto simp: books_def out)
    then show ?thesis using bc(2) [OF True] by (simp add: out)
  next
    case False
    then have out: "out = noteRecord fp r (absorb fp False r (retire fp r ?c))" using merge_record [OF assms(2)] by (simp add: out_def)
    have src: "v_Source out = (if promoted r d then v_Source r else v_Source d)"
      by (simp add: out absorb_fields promoted_def)
    have rank: "rankOf (v_Source out) = min (rankOf (v_Source d)) (rankOf (v_Source r))"
      using rankOf_known [of "v_Source d"] by (auto simp: src promoted_def min_def)
    have mod: "v_Modified out = later_of (v_Modified d) (v_Modified r)" by (simp add: out absorb_fields)
    have every: "\<forall>(k, c) \<in> set (d_Contributions ?c). rankOf (v_Source out) \<le> rankOf (keySource k) \<and> at_least (v_Modified out) (ct_Modified c)"
    proof (intro ballI, clarify)
      fix k c assume "(k, c) \<in> set (d_Contributions ?c)"
      then have "rankOf (v_Source d) \<le> rankOf (keySource k) \<or> k = contributionKey r" "at_least (v_Modified d) (ct_Modified c)"
        using bc(1) by auto
      then show "rankOf (v_Source out) \<le> rankOf (keySource k) \<and> at_least (v_Modified out) (ct_Modified c)"
        using keySource_key [OF assms(3)] at_least_trans [OF at_least_later(1)] by (auto simp: rank mod)
    qed
    have "\<forall>(k, c) \<in> set (d_Contributions out). rankOf (v_Source out) \<le> rankOf (keySource k) \<and> at_least (v_Modified out) (ct_Modified c)"
    proof (cases "v_Source r = []")
      case True
      then have "d_Contributions out = d_Contributions ?c" by (simp add: out noteRecord_def absorb_fields)
      then show ?thesis using every by simp
    next
      case False
      then have "d_Contributions out = AList.update (contributionKey r) ((contributionOf fp r)\<lparr>ct_Modified := v_Modified r\<rparr>) (d_Contributions ?c)"
        by (simp add: out noteRecord_def absorb_fields)
      moreover have "rankOf (v_Source out) \<le> rankOf (keySource (contributionKey r))" "at_least (v_Modified out) (v_Modified r)"
        using keySource_key [OF assms(3)] at_least_later(2) by (simp_all add: rank mod)
      ultimately show ?thesis using every
        by (simp only:) (rule books_update, simp_all)
    qed
    then have "books out" by (simp add: books_def)
    moreover have "v_Source out = v_Source d \<or> v_Source out = v_Source r" by (simp add: src)
    moreover have "at_least (v_Modified out) (v_Modified d)" "at_least (v_Modified out) (v_Modified r)"
      using at_least_later by (simp_all add: mod)
    moreover have "v_Modified out = v_Modified d \<or> v_Modified out = v_Modified r" unfolding mod by (rule later_of_cases)
    ultimately show ?thesis using rank by blast
  qed
  then show "books out" "rankOf (v_Source out) = min (rankOf (v_Source d)) (rankOf (v_Source r))" "v_Source out = v_Source d \<or> v_Source out = v_Source r"
    "at_least (v_Modified out) (v_Modified d)" "at_least (v_Modified out) (v_Modified r)"
    "v_Modified out = v_Modified d \<or> v_Modified out = v_Modified r" by blast+
qed

text \<open>The source and the time of a document, whatever the order of its records.\<close>

lemma ingest_books:
  fixes rs :: "'t::linorder Fetched list"
  assumes "rs \<noteq> []" "\<And>v. v \<in> set rs \<Longrightarrow> NUL \<notin> set (v_Source v)"
  shows "\<exists>d. ingest fp rs = Some d \<and> books d
    \<and> rankOf (v_Source d) = Min (rankOf ` v_Source ` set rs) \<and> v_Source d \<in> v_Source ` set rs
    \<and> (\<forall>v \<in> set rs. at_least (v_Modified d) (v_Modified v)) \<and> v_Modified d \<in> v_Modified ` set rs"
  using assms
proof (induction rs rule: rev_induct)
  case (snoc v rs)
  show ?case
  proof (cases "rs = []")
    case True
    then show ?thesis using books_born [of v fp] snoc.prems(2) by (simp add: ingest_def Merge_def merge_docs_def)
  next
    case False
    obtain d where d: "ingest fp rs = Some d" "books d" "rankOf (v_Source d) = Min (rankOf ` v_Source ` set rs)" "v_Source d \<in> v_Source ` set rs"
        "\<forall>v \<in> set rs. at_least (v_Modified d) (v_Modified v)" "v_Modified d \<in> v_Modified ` set rs"
      using snoc.IH [OF False] snoc.prems(2) by auto
    let ?d' = "merge_into fp False (fresh_document v) d"
    have n: "NUL \<notin> set (v_Source (fresh_document v))" using snoc.prems(2) by simp
    note m = books_merge [OF d(2) fresh_plain n, of fp]
    have "ingest fp (rs @ [v]) = Some ?d'" by (simp add: ingest_snoc d(1) Merge_Some)
    moreover have "rankOf (v_Source ?d') = Min (rankOf ` v_Source ` set (rs @ [v]))"
      using m(2) d(3) False by (simp add: min.commute)
    moreover have "v_Source ?d' \<in> v_Source ` set (rs @ [v])" using m(3) d(4) by auto
    moreover have "\<forall>x \<in> set (rs @ [v]). at_least (v_Modified ?d') (v_Modified x)"
      using m(4,5) d(5) at_least_trans by auto
    moreover have "v_Modified ?d' \<in> v_Modified ` set (rs @ [v])" using m(6) d(6) by auto
    ultimately show ?thesis using m(1) by blast
  qed
qed simp

section \<open>The primary score\<close>

definition usable_score :: "Severity \<Rightarrow> bool" where
  "usable_score s \<longleftrightarrow> sv_Score s > 0 \<or> sv_Vector s \<noteq> []"

text \<open>A scored statement before an unscored one, a newer CVSS version before an older, a better source before a worse.\<close>

definition severity_weight :: "Severity \<Rightarrow> int" where
  "severity_weight s = (if sv_Score s > 0 then 0 else 6000) + 1000 * severityTypeRank (sv_Type s) + rankOf (sv_Source s)"

lemma severityTypeRank_range: "0 \<le> severityTypeRank t" "severityTypeRank t \<le> 5"
  by (simp_all add: severityTypeRank_def)

lemma rankOf_nonneg: "0 \<le> rankOf s"
proof -
  have "list_all (\<lambda>(s, r). 0 \<le> r) sourceRank" by (simp add: sourceRank_def)
  then show ?thesis by (auto simp: rankOf_def list_all_iff dest!: map_of_SomeD split: option.splits)
qed

lemma primary_step_weight:
  "primary_step s best =
     (if \<not> usable_score s then best
      else (case best of None \<Rightarrow> Some s | Some b \<Rightarrow> if severity_weight s < severity_weight b then Some s else Some b))"
proof (cases best)
  case None
  then show ?thesis by (auto simp: primary_step_def usable_score_def)
next
  case (Some b)
  note r = severityTypeRank_range [of "sv_Type s"] severityTypeRank_range [of "sv_Type b"]
    rankOf_known [of "sv_Source s"] rankOf_known [of "sv_Source b"] rankOf_nonneg [of "sv_Source s"] rankOf_nonneg [of "sv_Source b"]
  show ?thesis
  proof (cases "(sv_Score s > 0) = (sv_Score b > 0)")
    case True
    then have "severity_weight s < severity_weight b \<longleftrightarrow>
        severityTypeRank (sv_Type s) < severityTypeRank (sv_Type b)
        \<or> (severityTypeRank (sv_Type s) = severityTypeRank (sv_Type b) \<and> rankOf (sv_Source s) < rankOf (sv_Source b))"
      using r by (auto simp: severity_weight_def)
    then show ?thesis using Some True by (auto simp: primary_step_def usable_score_def)
  next
    case False
    then have "severity_weight s < severity_weight b \<longleftrightarrow> sv_Score s > 0" using r by (auto simp: severity_weight_def)
    then show ?thesis using Some False by (auto simp: primary_step_def usable_score_def)
  qed
qed

text \<open>The first of the statements of least weight.\<close>

definition first_least :: "('a \<Rightarrow> int) \<Rightarrow> 'a list \<Rightarrow> 'a \<Rightarrow> bool" where
  "first_least w xs x \<longleftrightarrow> (\<exists>a b. xs = a @ x # b \<and> (\<forall>y \<in> set a. w x < w y) \<and> (\<forall>y \<in> set b. w x \<le> w y))"

lemma first_least_snoc:
  assumes "first_least w xs x"
  shows "first_least w (xs @ [y]) (if w y < w x then y else x)"
proof -
  obtain a b where ab: "xs = a @ x # b" "\<forall>z \<in> set a. w x < w z" "\<forall>z \<in> set b. w x \<le> w z"
    using assms by (auto simp: first_least_def)
  show ?thesis
  proof (cases "w y < w x")
    case True
    then have "\<forall>z \<in> set xs. w y < w z" using ab by force
    then have "first_least w (xs @ [y]) y" unfolding first_least_def by (intro exI [of _ xs] exI [of _ "[]"]) simp
    then show ?thesis using True by simp
  next
    case False
    then have "first_least w (xs @ [y]) x" unfolding first_least_def using ab by (intro exI [of _ a] exI [of _ "b @ [y]"]) auto
    then show ?thesis using False by simp
  qed
qed

lemma PickPrimary_least:
  "case PickPrimarySeverity sevs of
     None \<Rightarrow> filter usable_score sevs = []
   | Some s \<Rightarrow> first_least severity_weight (filter usable_score sevs) s"
proof (induction sevs rule: rev_induct)
  case (snoc s sevs)
  have step: "PickPrimarySeverity (sevs @ [s]) = primary_step s (PickPrimarySeverity sevs)" by (simp add: PickPrimarySeverity_def)
  show ?case
  proof (cases "PickPrimarySeverity sevs")
    case None
    have "first_least severity_weight [s] s" unfolding first_least_def by (intro exI [of _ "[]"]) simp
    then show ?thesis using snoc None by (simp add: step primary_step_weight)
  next
    case (Some b)
    then show ?thesis using snoc first_least_snoc [of severity_weight "filter usable_score sevs" b s]
      by (auto simp: step primary_step_weight)
  qed
qed (simp add: PickPrimarySeverity_def)

end
