(* ===== verification/Upsert_Laws.thy ===== *)
theory Upsert_Laws
  imports Upsert Merge_Order
begin

text \<open>
  Laws of Upsert: which identifiers the merged document lists, the invariant of the two tables in every reachable store,
  and the refinement of a partition of identifiers, in which a call joins the classes of what its record names.
\<close>

section \<open>The identifiers of a merged document\<close>

lemma union_contributions_fields [simp]:
  "v_Aliases (union_contributions r d) = v_Aliases d" "v_ID (union_contributions r d) = v_ID d"
proof -
  have "v_Aliases (fold (\<lambda>(key, c) d. setContribution key (unionContribution (contribution d key) c) d) cs d) = v_Aliases d
      \<and> v_ID (fold (\<lambda>(key, c) d. setContribution key (unionContribution (contribution d key) c) d) cs d) = v_ID d" for cs
    by (induction cs arbitrary: d) auto
  then show "v_Aliases (union_contributions r d) = v_Aliases d" "v_ID (union_contributions r d) = v_ID d"
    by (simp_all add: union_contributions_def)
qed

lemma adopted_aliases [simp]: "v_Aliases (adoptLegacyWithdrawal d) = v_Aliases d" "v_Aliases (adoptLegacyRecord fp r d) = v_Aliases d"
  by (simp_all add: adoptLegacyWithdrawal_def adoptLegacyRecord_def Let_def)

lemma merge_into_aliases: "v_Aliases (merge_into fp as_fold r d) = normalizeIDs (v_Aliases d @ v_Aliases r)"
  by (simp add: merge_into_def Let_def absorb_fields)

lemma born_aliases: "v_Aliases (born fp as_fold r) = normalizeIDs (v_Aliases r)"
  by (simp add: born_def Let_def)

definition canonical_ids :: "string set \<Rightarrow> string set" where
  "canonical_ids A = NormalizeID ` A - {[]}"

lemma canonical_ids_union: "canonical_ids (A \<union> B) = canonical_ids A \<union> canonical_ids B"
  by (auto simp: canonical_ids_def)

lemma canonical_ids_idem: "canonical_ids (canonical_ids A) = canonical_ids A"
  using idempotent_image [of NormalizeID A "{}" "[]", OF NormalizeID_idem] by (simp add: canonical_ids_def)

lemma canonical_ids_again: "canonical_ids (canonical_ids A \<union> B) = canonical_ids (A \<union> B)"
  by (simp only: canonical_ids_union canonical_ids_idem)

lemma canonical_ids_mono: "A \<subseteq> B \<Longrightarrow> canonical_ids A \<subseteq> canonical_ids B"
  by (auto simp: canonical_ids_def)

lemma fold_merge_aliases:
  "canonical_ids (set (v_Aliases (fold (merge_into fp True) ds d))) = canonical_ids (set (v_Aliases d) \<union> (\<Union>e \<in> set ds. set (v_Aliases e)))"
proof (induction ds arbitrary: d)
  case (Cons e ds)
  let ?d = "merge_into fp True e d"
  have "set (v_Aliases ?d) = canonical_ids (set (v_Aliases d) \<union> set (v_Aliases e))"
    by (simp add: merge_into_aliases set_normalizeIDs canonical_ids_def)
  then show ?case using Cons [of ?d] by (simp add: canonical_ids_again Un_assoc)
qed simp

lemma mergeAll_ids:
  assumes "mergeAll fp docs canonical = Some d"
  shows "set (v_Aliases d) = canonical_ids (\<Union>e \<in> set docs. insert (v_ID e) (set (v_Aliases e)))"
proof -
  let ?o = "sort_key (\<lambda>d. rankOf (v_Source d)) docs"
  obtain e es where o: "?o = e # es" using assms by (cases ?o) (simp_all add: mergeAll_def)
  have docs: "set docs = insert e (set es)" using o by (metis list.simps(15) set_sort)
  let ?out = "fold (merge_into fp True) es (born fp True e)"
  have d: "d = ?out\<lparr>v_Aliases := normalizeIDs (v_Aliases ?out @ filter (\<lambda>i. i \<noteq> []) (map v_ID (e # es))), v_ID := canonical\<rparr>"
    using assms by (simp add: mergeAll_def o Let_def)
  have b: "set (v_Aliases (born fp True e)) = canonical_ids (set (v_Aliases e))"
    by (simp add: born_aliases set_normalizeIDs canonical_ids_def)
  have out: "canonical_ids (set (v_Aliases ?out)) = canonical_ids (\<Union>x \<in> set (e # es). set (v_Aliases x))"
    using fold_merge_aliases [of fp es "born fp True e"] canonical_ids_again [of "set (v_Aliases e)"] unfolding b by simp
  have "NormalizeID [] = []" by (simp add: NormalizeID_def trim_space_def trim_left_def trim_right_def)
  then have nil: "canonical_ids (A - {[]}) = canonical_ids A" for A by (auto simp: canonical_ids_def)
  have ids: "set (filter (\<lambda>i. i \<noteq> []) (map v_ID (e # es))) = v_ID ` set (e # es) - {[]}" by auto
  have "set (v_Aliases d) = canonical_ids (set (v_Aliases ?out) \<union> (v_ID ` set (e # es) - {[]}))"
    unfolding ids [symmetric] by (simp add: d set_normalizeIDs canonical_ids_def)
  also have "\<dots> = canonical_ids (set (v_Aliases ?out)) \<union> canonical_ids (v_ID ` set (e # es))"
    unfolding canonical_ids_union nil ..
  also have "\<dots> = canonical_ids (\<Union>x \<in> set docs. insert (v_ID x) (set (v_Aliases x)))"
    unfolding out docs by (auto simp: canonical_ids_def)
  finally show ?thesis .
qed

lemma upserted_ids:
  assumes ids: "ids = AllIdentifiers (v_ID v) (v_Aliases v)"
  shows "set (v_Aliases (upserted fp st v ids existing c))
    = canonical_ids (set ids \<union> (\<Union>e \<in> set (loadDocs st existing). insert (v_ID e) (set (v_Aliases e)))) - {c}"
    and "v_ID (upserted fp st v ids existing c) = c"
proof -
  let ?D = "\<Union>e \<in> set (loadDocs st existing). insert (v_ID e) (set (v_Aliases e))"
  let ?m = "Merge fp (mergeAll fp (loadDocs st existing) c) v"
  have i: "set ids = canonical_ids (insert (v_ID v) (set (v_Aliases v)))"
    using AllIdentifiers_props [of "v_ID v" "v_Aliases v"] by (simp add: ids canonical_candidates_def canonical_ids_def)
  have own: "canonical_ids (set (v_Aliases v)) \<subseteq> set ids" unfolding i by (auto simp: canonical_ids_def)
  have m: "set (v_Aliases ?m) = canonical_ids (?D \<union> set (v_Aliases v))"
  proof (cases "mergeAll fp (loadDocs st existing) c")
    case None
    then have "sort_key (\<lambda>d. rankOf (v_Source d)) (loadDocs st existing) = []"
      by (simp add: mergeAll_def Let_def split: list.splits)
    then have "loadDocs st existing = []" by (metis length_0_conv length_sort)
    then show ?thesis
      using None by (simp add: Merge_def merge_docs_def born_aliases set_normalizeIDs canonical_ids_def)
  next
    case (Some d)
    have "set (v_Aliases ?m) = canonical_ids (set (v_Aliases d) \<union> set (v_Aliases v))"
      by (simp add: Some Merge_Some merge_into_aliases set_normalizeIDs canonical_ids_def)
    then show ?thesis unfolding mergeAll_ids [OF Some] by (simp only: canonical_ids_again)
  qed
  have "set (v_Aliases (upserted fp st v ids existing c)) = canonical_ids (set (v_Aliases ?m) \<union> set ids) - {c}"
    by (auto simp: upserted_def Let_def removeString_def set_normalizeIDs canonical_ids_def)
  also have "canonical_ids (set (v_Aliases ?m) \<union> set ids) = canonical_ids (?D \<union> set (v_Aliases v) \<union> set ids)"
    unfolding m by (rule canonical_ids_again)
  also have "\<dots> = canonical_ids (set ids \<union> ?D)"
  proof -
    have "canonical_ids (set (v_Aliases v)) \<subseteq> canonical_ids (set ids)"
      using canonical_ids_mono [OF own] unfolding canonical_ids_idem .
    then show ?thesis unfolding canonical_ids_union by blast
  qed
  finally show "set (v_Aliases (upserted fp st v ids existing c)) = canonical_ids (set ids \<union> ?D) - {c}" .
  show "v_ID (upserted fp st v ids existing c) = c" by (simp add: upserted_def Let_def)
qed

section \<open>The invariant of the tables\<close>

text \<open>
  An alias points at a row with a document, a row is its own alias, and the aliases of a document resolve to it.
\<close>

definition holds :: "'t Store \<Rightarrow> string \<Rightarrow> 't Document \<Rightarrow> bool" where
  "holds st i d \<longleftrightarrow> loadDoc st i = Some d \<and> v_ID d = i \<and> st_aliases st i = Some i \<and> NormalizeID i = i \<and> i \<noteq> [] \<and>
     i \<notin> set (v_Aliases d) \<and> (\<forall>a \<in> set (v_Aliases d). st_aliases st a = Some i \<and> NormalizeID a = a \<and> a \<noteq> [])"

definition consistent :: "'t Store \<Rightarrow> bool" where
  "consistent st \<longleftrightarrow>
     (\<forall>a i. st_aliases st a = Some i \<longrightarrow> st_rows st i \<noteq> None) \<and> (\<forall>i. st_rows st i \<noteq> None \<longrightarrow> (\<exists>d. holds st i d))"

lemma consistent_empty: "consistent empty_store"
  by (simp add: consistent_def empty_store_def)

lemma consistent_row: "consistent st \<Longrightarrow> st_aliases st a = Some i \<Longrightarrow> \<exists>d. holds st i d"
  unfolding consistent_def by blast

lemma set_map_filter: "set (List.map_filter f xs) = {y. \<exists>x \<in> set xs. f x = Some y}"
  by (induction xs) (auto simp: List.map_filter_simps split: option.splits)

lemma set_resolveExisting:
  assumes "consistent st"
  shows "set (resolveExisting st ids) = {i. \<exists>a \<in> set ids. st_aliases st a = Some i}"
proof -
  have "set (List.map_filter (st_aliases st) ids) = {i. \<exists>a \<in> set ids. st_aliases st a = Some i}"
    by (rule set_map_filter)
  moreover have "st_aliases st i = Some i" if "st_rows st i \<noteq> None" for i using assms that unfolding consistent_def holds_def by blast
  then have "set (filter (\<lambda>i. st_rows st i \<noteq> None) ids) \<subseteq> {i. \<exists>a \<in> set ids. st_aliases st a = Some i}" by fastforce
  ultimately show ?thesis by (simp only: resolveExisting_def set_sort set_remdups set_append) blast
qed

text \<open>The identifiers a call brings together: what the record names, and all that resolved to a record it names.\<close>

definition joined :: "'t Store \<Rightarrow> string list \<Rightarrow> string set" where
  "joined st ids = set ids \<union> {a. \<exists>b \<in> set ids. \<exists>i. st_aliases st a = Some i \<and> st_aliases st b = Some i}"

lemma ids_canonical: "i \<in> set (AllIdentifiers x al) \<Longrightarrow> NormalizeID i = i \<and> i \<noteq> []"
  using AllIdentifiers_props [of x al] NormalizeID_idem by (auto simp: canonical_candidates_def)

lemma call_canonical:
  assumes "consistent st" "ids = AllIdentifiers x al" "ids \<noteq> []" "existing = resolveExisting st ids"
  shows "PickCanonicalID (ids @ existing) \<in> set ids \<union> set existing" "PickCanonicalID (ids @ existing) \<noteq> []"
proof -
  have n: "NormalizeID i = i \<and> i \<noteq> []" if i: "i \<in> set (ids @ existing)" for i
  proof (cases "i \<in> set ids")
    case True
    then show ?thesis using ids_canonical assms(2) by blast
  next
    case False
    then obtain a where "st_aliases st a = Some i" using i set_resolveExisting [OF assms(1), of ids] assms(4) by auto
    then show ?thesis using consistent_row [OF assms(1)] unfolding holds_def by blast
  qed
  then have "canonical_candidates (ids @ existing) = set (ids @ existing)" by (force simp: canonical_candidates_def)
  moreover have "set (ids @ existing) \<noteq> {}" using assms(3) by simp
  ultimately have "PickCanonicalID (ids @ existing) \<in> set (ids @ existing)"
    using PickCanonicalID_least(1) [of "ids @ existing"] by simp
  then show "PickCanonicalID (ids @ existing) \<in> set ids \<union> set existing" "PickCanonicalID (ids @ existing) \<noteq> []" using n by auto
qed

text \<open>The aliases of the merged document are what the call joins, but for its own identifier.\<close>

lemma upserted_joined:
  assumes con: "consistent st" and ids: "ids = AllIdentifiers (v_ID v) (v_Aliases v)" and ex: "existing = resolveExisting st ids"
    and full: "\<And>i d. loadDoc st i = Some d \<Longrightarrow> insert i (set (v_Aliases d)) = {a. st_aliases st a = Some i}"
  shows "set (v_Aliases (upserted fp st v ids existing c)) = joined st ids - {c}"
proof -
  have e: "set existing = {i. \<exists>a \<in> set ids. st_aliases st a = Some i}" unfolding ex by (rule set_resolveExisting [OF con])
  have docs: "set (loadDocs st existing) = {d. \<exists>i \<in> set existing. loadDoc st i = Some d}"
    by (simp add: loadDocs_def set_map_filter)
  have one: "\<exists>d. loadDoc st i = Some d \<and> v_ID d = i" if "i \<in> set existing" for i
    using that e consistent_row [OF con] unfolding holds_def by blast
  have own: "v_ID d = i" if "loadDoc st i = Some d" "i \<in> set existing" for i d
    using one [OF that(2)] that(1) by auto
  have "(\<Union>d \<in> set (loadDocs st existing). insert (v_ID d) (set (v_Aliases d))) = {a. \<exists>i \<in> set existing. st_aliases st a = Some i}"
  proof (intro set_eqI iffI)
    fix x assume "x \<in> (\<Union>d \<in> set (loadDocs st existing). insert (v_ID d) (set (v_Aliases d)))"
    then obtain d i where d: "i \<in> set existing" "loadDoc st i = Some d" "x \<in> insert (v_ID d) (set (v_Aliases d))"
      unfolding docs by blast
    then have "st_aliases st x = Some i" using full [OF d(2)] own [OF d(2,1)] by blast
    then show "x \<in> {a. \<exists>i \<in> set existing. st_aliases st a = Some i}" using d(1) by blast
  next
    fix x assume "x \<in> {a. \<exists>i \<in> set existing. st_aliases st a = Some i}"
    then obtain i where i: "i \<in> set existing" "st_aliases st x = Some i" by blast
    then obtain d where d: "loadDoc st i = Some d" using one by blast
    then have "x \<in> insert (v_ID d) (set (v_Aliases d))" using full [OF d] own [OF d i(1)] i(2) by simp
    then show "x \<in> (\<Union>d \<in> set (loadDocs st existing). insert (v_ID d) (set (v_Aliases d)))" using d i(1) unfolding docs by blast
  qed
  moreover have "canonical_ids (set ids \<union> {a. \<exists>i \<in> set existing. st_aliases st a = Some i}) = joined st ids"
  proof -
    have "NormalizeID a = a \<and> a \<noteq> []" if "a \<in> joined st ids" for a
    proof (cases "a \<in> set ids")
      case True
      then show ?thesis using ids_canonical ids by blast
    next
      case False
      then have "st_aliases st a \<noteq> None" using that unfolding joined_def by blast
      then obtain i where i: "st_aliases st a = Some i" by blast
      then obtain d where d: "holds st i d" using consistent_row [OF con] by blast
      then have "a \<in> insert i (set (v_Aliases d))" using full [of i d] i by (simp add: holds_def)
      then show ?thesis using d unfolding holds_def by blast
    qed
    moreover have "set ids \<union> {a. \<exists>i \<in> set existing. st_aliases st a = Some i} = joined st ids"
      unfolding e joined_def by force
    ultimately show ?thesis by (force simp: canonical_ids_def)
  qed
  ultimately show ?thesis using upserted_ids(1) [OF ids, of fp st existing c] by simp
qed

section \<open>A call\<close>

text \<open>A row's document lists exactly what resolves to the row, and its checksum is the row's.\<close>

definition listed :: "('t Document \<Rightarrow> string) \<Rightarrow> 't Store \<Rightarrow> bool" where
  "listed checksum st \<longleftrightarrow> consistent st
     \<and> (\<forall>i d. loadDoc st i = Some d \<longrightarrow> insert i (set (v_Aliases d)) = {a. st_aliases st a = Some i})
     \<and> (\<forall>i row d. st_rows st i = Some row \<longrightarrow> rw_doc row = Some d \<longrightarrow> rw_sum row = Some (checksum d))"

lemma foldRecords_none [simp]: "foldRecords [] c st = st"
  by (simp add: foldRecords_def)

lemma foldRecords_aliases:
  "st_aliases (foldRecords existing c st) a =
     (if a \<in> set existing \<and> a \<noteq> c then Some c
      else (case st_aliases st a of Some i \<Rightarrow> Some (if i \<in> set existing \<and> i \<noteq> c then c else i) | None \<Rightarrow> None))"
  by (auto simp: foldRecords_def Let_def filter_empty_conv split: option.splits)

lemma foldRecords_rows:
  "i \<noteq> c \<Longrightarrow> st_rows (foldRecords existing c st) i = (if i \<in> set existing then None else st_rows st i)"
  "st_rows (foldRecords existing c st) c = Some row \<Longrightarrow> st_rows st c = Some row \<or> row = \<lparr>rw_doc = None, rw_sum = None\<rparr>"
  by (auto simp: foldRecords_def Let_def filter_empty_conv split: if_splits)

lemma writeVuln_row:
  assumes "\<And>row. st_rows st (v_ID d) = Some row \<Longrightarrow> rw_sum row = Some (checksum d) \<Longrightarrow> \<exists>e. rw_doc row = Some e \<and> P e \<and> checksum e = checksum d"
    and "P d"
  shows "\<exists>row e. st_rows (writeVuln checksum d st) (v_ID d) = Some row \<and> rw_doc row = Some e \<and> P e \<and> rw_sum row = Some (checksum e)"
proof (cases "\<exists>row. st_rows st (v_ID d) = Some row \<and> rw_sum row = Some (checksum d)")
  case True
  then obtain row where row: "st_rows st (v_ID d) = Some row" "rw_sum row = Some (checksum d)" by blast
  then obtain e where "rw_doc row = Some e" "P e" "checksum e = checksum d" using assms(1) by blast
  then show ?thesis using row by (simp add: writeVuln_def Let_def)
next
  case False
  then have "st_rows (writeVuln checksum d st) (v_ID d) = Some \<lparr>rw_doc = Some d, rw_sum = Some (checksum d)\<rparr>"
    by (auto simp: writeVuln_def Let_def split: option.splits)
  then show ?thesis using assms(2) by simp
qed

lemma upsert_step:
  fixes st :: "'t::linorder Store"
  assumes call: "UpsertVulnerability fp checksum v st = Some (c, st')" and l: "listed checksum st"
    and sums: "\<And>d e. checksum d = checksum e \<Longrightarrow> v_Aliases d = v_Aliases e"
  defines "J \<equiv> joined st (AllIdentifiers (v_ID v) (v_Aliases v))"
  shows "c \<in> J" "\<And>a. st_aliases st' a = (if a \<in> J then Some c else st_aliases st a)" "listed checksum st'"
    "\<And>a. st_aliases st a = Some c \<Longrightarrow> a \<in> J"
proof -
  let ?ids = "AllIdentifiers (v_ID v) (v_Aliases v)"
  let ?ex = "resolveExisting st ?ids"
  have con: "consistent st" and full: "\<And>i d. loadDoc st i = Some d \<Longrightarrow> insert i (set (v_Aliases d)) = {a. st_aliases st a = Some i}"
    and sum: "\<And>i row d. st_rows st i = Some row \<Longrightarrow> rw_doc row = Some d \<Longrightarrow> rw_sum row = Some (checksum d)"
    using l unfolding listed_def by blast+
  have some: "?ids \<noteq> []" using call by (auto simp: UpsertVulnerability_def Let_def)
  note pick = call_canonical [OF con refl some refl]
  have c: "c = PickCanonicalID (?ids @ ?ex)" using call pick(2) some by (simp add: UpsertVulnerability_def Let_def)
  let ?d = "upserted fp st v ?ids ?ex c"
  have st': "st' = writeVuln checksum ?d (foldRecords ?ex c st)"
    using call pick(2) some unfolding c by (cases "?ex = []") (simp_all add: UpsertVulnerability_def Let_def)
  have e: "set ?ex = {i. \<exists>a \<in> set ?ids. st_aliases st a = Some i}" by (rule set_resolveExisting [OF con])
  have self: "st_aliases st i = Some i" if "i \<in> set ?ex" for i using that e consistent_row [OF con] unfolding holds_def by blast
  have J: "a \<in> J \<longleftrightarrow> a \<in> set ?ids \<or> (\<exists>i \<in> set ?ex. st_aliases st a = Some i)" for a
    unfolding J_def joined_def e by blast
  have exJ: "i \<in> J" if "i \<in> set ?ex" for i using self [OF that] that J by blast
  show cJ: "c \<in> J" using pick(1) exJ J unfolding c [symmetric] by blast
  have ids: "v_ID ?d = c" "set (v_Aliases ?d) = J - {c}"
    using upserted_ids(2) [OF refl] upserted_joined [OF con refl refl full] unfolding J_def by auto
  show al: "st_aliases st' a = (if a \<in> J then Some c else st_aliases st a)" for a
  proof (cases "a \<in> J")
    case True
    then show ?thesis using ids by (auto simp: st' writeVuln_def Let_def)
  next
    case False
    then have "a \<noteq> c" "a \<notin> set ?ex" "\<And>i. st_aliases st a = Some i \<Longrightarrow> i \<notin> set ?ex" using cJ exJ J by auto
    then show ?thesis using False ids by (auto simp: st' writeVuln_def Let_def foldRecords_aliases split: option.splits)
  qed
  have target: "a \<in> J \<Longrightarrow> st_aliases st a = Some i \<Longrightarrow> i \<in> set ?ex" for a i unfolding J e by auto
  have "\<exists>row e. st_rows st' (v_ID ?d) = Some row \<and> rw_doc row = Some e \<and> (v_ID e = c \<and> set (v_Aliases e) = J - {c}) \<and> rw_sum row = Some (checksum e)"
    unfolding st'
  proof (rule writeVuln_row)
    show "v_ID ?d = c \<and> set (v_Aliases ?d) = J - {c}" using ids by blast
    fix row assume row: "st_rows (foldRecords ?ex c st) (v_ID ?d) = Some row" "rw_sum row = Some (checksum ?d)"
    then have r: "st_rows st c = Some row" using foldRecords_rows(2) [of ?ex c st row] ids(1) by auto
    then obtain e where "holds st c e" using con unfolding consistent_def by blast
    then have h: "rw_doc row = Some e" "v_ID e = c" using r by (simp_all add: holds_def loadDoc_def)
    have "checksum e = checksum ?d" using sum [OF r h(1)] row(2) by simp
    then show "\<exists>e. rw_doc row = Some e \<and> (v_ID e = c \<and> set (v_Aliases e) = J - {c}) \<and> checksum e = checksum ?d"
      using h ids(2) sums [of e ?d] by auto
  qed
  then obtain row dc where rc: "st_rows st' c = Some row" "rw_doc row = Some dc" "v_ID dc = c" "set (v_Aliases dc) = J - {c}"
      "rw_sum row = Some (checksum dc)" unfolding ids(1) by blast
  show onto: "a \<in> J" if "st_aliases st a = Some c" for a
  proof -
    have "st_aliases st c = Some c" using consistent_row [OF con that] by (auto simp: holds_def)
    then have "c \<in> set ?ex" using pick(1) e unfolding c [symmetric] by blast
    then show ?thesis using that J by blast
  qed
  have other: "st_rows st' i = (if i \<in> set ?ex then None else st_rows st i)" if "i \<noteq> c" for i
    using that foldRecords_rows(1) [OF that, of ?ex st] by (simp add: st' writeVuln_def Let_def ids(1))
  have norm: "NormalizeID a = a \<and> a \<noteq> []" if "a \<in> J" for a
  proof (cases "a \<in> set ?ids")
    case True
    then show ?thesis by (rule ids_canonical)
  next
    case False
    then obtain i where i: "st_aliases st a = Some i" using \<open>a \<in> J\<close> J by blast
    then obtain d where d: "holds st i d" using consistent_row [OF con] by blast
    then have "a \<in> insert i (set (v_Aliases d))" using full [of i d] i by (simp add: holds_def)
    then show ?thesis using d unfolding holds_def by blast
  qed
  have hc: "holds st' c dc"
    using rc norm cJ by (auto simp: holds_def loadDoc_def al)
  have ho: "holds st' i d" if "i \<noteq> c" "i \<notin> set ?ex" "holds st i d" for i d
  proof -
    have "a \<notin> J" if "a = i \<or> a \<in> set (v_Aliases d)" for a
      using that target [of a i] \<open>i \<notin> set ?ex\<close> \<open>holds st i d\<close> unfolding holds_def by blast
    then show ?thesis using that other [OF that(1)] by (auto simp: holds_def loadDoc_def al)
  qed
  have "consistent st'" unfolding consistent_def
  proof (intro conjI allI impI)
    fix a i assume "st_aliases st' a = Some i"
    then have "i = c \<or> (a \<notin> J \<and> st_aliases st a = Some i)" unfolding al by (simp split: if_splits)
    then have "i = c \<or> (i \<notin> set ?ex \<and> st_rows st i \<noteq> None)" using J con unfolding consistent_def by blast
    then show "st_rows st' i \<noteq> None" using rc(1) other [of i] by (cases "i = c") simp_all
  next
    fix i assume "st_rows st' i \<noteq> None"
    then show "\<exists>d. holds st' i d"
    proof (cases "i = c")
      case False
      then have "i \<notin> set ?ex" "st_rows st i \<noteq> None" using \<open>st_rows st' i \<noteq> None\<close> other [of i] by (simp_all split: if_splits)
      then show ?thesis using ho [OF False] con unfolding consistent_def by blast
    qed (use hc in blast)
  qed
  moreover have "insert i (set (v_Aliases d)) = {a. st_aliases st' a = Some i}" if "loadDoc st' i = Some d" for i d
  proof (cases "i = c")
    case True
    have "{a. st_aliases st' a = Some c} = J" using onto by (auto simp: al)
    then show ?thesis using True that rc cJ by (auto simp: loadDoc_def)
  next
    case False
    then have i: "i \<notin> set ?ex" "loadDoc st i = Some d" using that other [OF False] by (auto simp: loadDoc_def split: if_splits)
    have "{a. st_aliases st' a = Some i} = {a. st_aliases st a = Some i}" using False i(1) target by (auto simp: al)
    then show ?thesis using full [OF i(2)] by simp
  qed
  moreover have "rw_sum row = Some (checksum d)" if "st_rows st' i = Some row" "rw_doc row = Some d" for i row d
    using that rc other [of i] sum [of i row d] by (cases "i = c") (auto split: if_splits)
  ultimately show "listed checksum st'" unfolding listed_def by blast
qed

section \<open>The partition\<close>

text \<open>Identifiers that resolve, to one record.\<close>

definition together :: "'t Store \<Rightarrow> (string \<times> string) set" where
  "together st = {(a, b). \<exists>i. st_aliases st a = Some i \<and> st_aliases st b = Some i}"

lemma together_joined:
  "J = joined st ids \<longleftrightarrow> J = set ids \<union> {a. \<exists>b \<in> set ids. (a, b) \<in> together st}"
  by (simp add: joined_def together_def)

lemma upsert_together:
  assumes "UpsertVulnerability fp checksum v st = Some (c, st')" "listed checksum st"
    and "\<And>d e. checksum d = checksum e \<Longrightarrow> v_Aliases d = v_Aliases e"
  defines "J \<equiv> joined st (AllIdentifiers (v_ID v) (v_Aliases v))"
  shows "together st' = together st \<union> J \<times> J"
proof -
  have s: "c \<in> J" "\<And>a. st_aliases st' a = (if a \<in> J then Some c else st_aliases st a)" "\<And>a. st_aliases st a = Some c \<Longrightarrow> a \<in> J"
    using upsert_step [OF assms(1-3)] by (simp_all add: J_def)
  have closed: "b \<in> J" if "a \<in> J" "(a, b) \<in> together st" for a b
    using that by (auto simp: J_def joined_def together_def)
  have sym: "(a, b) \<in> together st \<longleftrightarrow> (b, a) \<in> together st" for a b by (auto simp: together_def)
  have "(a, b) \<in> together st' \<longleftrightarrow> (a, b) \<in> together st \<union> J \<times> J" for a b
  proof (cases "a \<in> J")
    case True
    then have "(a, b) \<in> together st' \<longleftrightarrow> b \<in> J" using s(2,3) by (auto simp: together_def split: if_splits)
    then show ?thesis using True closed by blast
  next
    case False
    then have "b \<in> J \<Longrightarrow> (a, b) \<notin> together st" using closed sym by blast
    moreover have "(a, b) \<in> together st' \<longleftrightarrow> b \<notin> J \<and> (a, b) \<in> together st"
      using False s(2,3) by (auto simp: together_def split: if_splits)
    ultimately show ?thesis using False by blast
  qed
  then show ?thesis by (intro set_eqI) (metis surj_pair)
qed

lemma reached_listed:
  assumes "reached fp checksum st" "\<And>d e. checksum d = checksum e \<Longrightarrow> v_Aliases d = v_Aliases e"
  shows "listed checksum st"
  using assms(1)
proof (induction rule: reached.induct)
  case empty
  show ?case using consistent_empty by (simp add: listed_def empty_store_def loadDoc_def)
next
  case (upsert st v c st')
  then show ?case using upsert_step(3) assms(2) by blast
qed

end
