(* ===== verification/Child_Laws.thy ===== *)
theory Child_Laws
  imports Child_Tables Upsert_Laws
begin

text \<open>
  Laws of Child_Tables. The locale \<open>child_table\<close> is what a table owes its reconciliation, that the text of a key can be
  read off the primary key; \<open>exact_table\<close> adds that the text determines the primary key, and then a reconciled table
  holds the document's statements and nothing else, whatever it held before. All three tables are instances of the
  first, \<open>vuln_affected\<close> of both. Then the invariant of the stored tables.
\<close>

section \<open>Text\<close>

lemma cleanText_append [simp]: "cleanText (s @ t) = cleanText s @ cleanText t"
  by (simp add: cleanText_def)

lemma cleanText_bar [simp]: "cleanText (CHR ''|'' # s) = CHR ''|'' # cleanText s"
  by (simp add: cleanText_def NUL_def)

lemma cleanText_NUL: "NUL \<notin> set (cleanText s)"
  by (simp add: cleanText_def)

lemma cleanText_id [simp]: "NUL \<notin> set s \<Longrightarrow> cleanText s = s"
  by (induction s) (auto simp: cleanText_def)

section \<open>One table\<close>

lemma dedupeBy_short:
  assumes "length xs < 2"
  shows "dedupeBy key xs = xs" "distinct (map key xs)"
  using assms by (cases xs; simp add: dedupeBy_def)+

lemma dedupeBy_props:
  "set (dedupeBy key xs) \<subseteq> set xs" "key ` set (dedupeBy key xs) = key ` set xs" "distinct (map key (dedupeBy key xs))"
  "keyed_at key k (dedupeBy key xs) = keyed_at key k xs"
proof -
  have d: "dedupeBy key xs = put_all key xs []"
  proof (cases "length xs < 2")
    case True
    then show ?thesis using put_all_id [of key "[]" xs] dedupeBy_short [of xs key] by simp
  qed (simp add: dedupeBy_def)
  show "set (dedupeBy key xs) \<subseteq> set xs" using put_all_set [of key xs "[]"] by (simp add: d)
  show "key ` set (dedupeBy key xs) = key ` set xs" using put_all_keys [of key xs "[]"] by (simp add: d)
  show "distinct (map key (dedupeBy key xs))" using put_all_distinct [of key "[]" xs] by (simp add: d)
  show "keyed_at key k (dedupeBy key xs) = keyed_at key k xs"
    using keyed_at_put_all [of key "[]" k xs] by (simp add: d split: option.splits)
qed

lemma map_of_batch:
  "distinct (map fst (batch_of key pk scrub xs)) \<Longrightarrow>
   map_of (batch_of key pk scrub xs) p = Some y \<longleftrightarrow> (\<exists>x \<in> set (dedupeBy key xs). pk x = p \<and> scrub x = y)"
  by (auto simp: batch_of_def)

locale child_table =
  fixes key :: "'a \<Rightarrow> string" and pk :: "'a \<Rightarrow> 'p" and expr :: "'p \<Rightarrow> string" and scrub :: "'a \<Rightarrow> 'a"
  assumes expr_pk: "expr (pk x) = cleanText (key x)"
begin

lemma batch_written:
  assumes "reconcile key pk expr scrub xs t = Some t'" "x \<in> set (dedupeBy key xs)"
  shows "t' (pk x) = Some (scrub x)"
proof -
  have d: "distinct (map fst (batch_of key pk scrub xs))" and t': "t' = delete_stale expr (cleanTexts (map key xs)) t ++ map_of (batch_of key pk scrub xs)"
    using assms(1) by (simp_all add: reconcile_def insert_batch_def split: if_splits)
  have "map_of (batch_of key pk scrub xs) (pk x) = Some (scrub x)" using map_of_batch [OF d] assms(2) by blast
  then show ?thesis by (simp add: t')
qed

lemma row_has_key_of_document:
  assumes "reconcile key pk expr scrub xs t = Some t'" "t' p \<noteq> None"
  shows "\<exists>x \<in> set (dedupeBy key xs). expr p = cleanText (key x)"
proof -
  have d: "distinct (map fst (batch_of key pk scrub xs))" and t': "t' = delete_stale expr (cleanTexts (map key xs)) t ++ map_of (batch_of key pk scrub xs)"
    using assms(1) by (simp_all add: reconcile_def insert_batch_def split: if_splits)
  show ?thesis
  proof (cases "map_of (batch_of key pk scrub xs) p")
    case None
    then have "expr p \<in> set (cleanTexts (map key xs))" using assms(2) by (simp add: t' map_add_def delete_stale_def split: if_splits)
    then obtain x where x: "x \<in> set xs" "expr p = cleanText (key x)" by (auto simp: cleanTexts_def)
    then have "key x \<in> key ` set (dedupeBy key xs)" by (simp add: dedupeBy_props(2))
    then obtain y where "y \<in> set (dedupeBy key xs)" "key y = key x" by (metis imageE)
    then show ?thesis using x(2) by (intro bexI [of _ y]) simp_all
  next
    case (Some y)
    then have "\<exists>x \<in> set (dedupeBy key xs). pk x = p \<and> scrub x = y" using map_of_batch [OF d, of p y] by simp
    then show ?thesis using expr_pk by auto
  qed
qed

end

locale exact_table = child_table +
  assumes expr_inj: "expr p = expr q \<Longrightarrow> p = q"
begin

lemma pk_key: "cleanText (key x) = cleanText (key y) \<Longrightarrow> pk x = pk y"
  using expr_inj expr_pk by metis

lemma reconciled:
  assumes "reconcile key pk expr scrub xs t = Some t'"
  shows "t' p = Some y \<longleftrightarrow> (\<exists>x \<in> set (dedupeBy key xs). pk x = p \<and> scrub x = y)"
proof
  assume y: "t' p = Some y"
  then obtain x where x: "x \<in> set (dedupeBy key xs)" "expr p = cleanText (key x)" using row_has_key_of_document [OF assms] by auto
  then have "p = pk x" using expr_inj expr_pk by metis
  then show "\<exists>x \<in> set (dedupeBy key xs). pk x = p \<and> scrub x = y" using batch_written [OF assms x(1)] x(1) y by auto
next
  assume "\<exists>x \<in> set (dedupeBy key xs). pk x = p \<and> scrub x = y"
  then show "t' p = Some y" using batch_written [OF assms] by blast
qed

lemma reconcile_forgets:
  assumes "reconcile key pk expr scrub xs t = Some t1" "reconcile key pk expr scrub xs u = Some t2"
  shows "t1 = t2"
proof
  fix p show "t1 p = t2 p" using reconciled [OF assms(1)] reconciled [OF assms(2)] by (metis not_None_eq)
qed

end

interpretation severity_table: child_table severityKey severity_pk severity_expr clean_severity
  by unfold_locales (simp add: severityKey_def severity_pk_def)

interpretation reference_table: child_table referenceKey reference_pk reference_expr clean_reference
  by unfold_locales (simp add: referenceKey_def reference_pk_def)

interpretation statement_table: exact_table fp "affected_pk fp" "\<lambda>p. p" clean_affected for fp
  by unfold_locales (simp_all add: affected_pk_def)

section \<open>The tables of a store\<close>

text \<open>An identifier has the rows of its document's statements, and none without a document.\<close>

definition derived :: "(AffectedRow \<Rightarrow> string) \<Rightarrow> 't Store \<Rightarrow> Children \<Rightarrow> bool" where
  "derived fp st ch \<longleftrightarrow>
     (\<forall>i p y. ch_affected ch i p = Some y \<longleftrightarrow>
        (\<exists>d. loadDoc st i = Some d \<and> (\<exists>x \<in> set (dedupeBy fp (v_Affected d)). affected_pk fp x = p \<and> clean_affected x = y)))"

lemma upsert_written:
  assumes "UpsertVulnerability fp checksum v st = Some (c, st')"
  defines "ids \<equiv> AllIdentifiers (v_ID v) (v_Aliases v)"
  shows "ids \<noteq> []"
    "st' = writeVuln checksum (upserted fp st v ids (resolveExisting st ids) c) (foldRecords (resolveExisting st ids) c st)"
  using assms(1) unfolding ids_def
  by (cases "resolveExisting st (AllIdentifiers (v_ID v) (v_Aliases v)) = []";
      auto simp: UpsertVulnerability_def Let_def split: if_splits)+

lemma foldRecords_other:
  "i \<noteq> c \<Longrightarrow> st_rows (foldRecords ex c st) i = (if i \<in> set ex then None else st_rows st i)"
  by (rule foldRecords_rows(1))

lemma fold_children_affected:
  "ch_affected (fold_children ex c ch) i =
     (if i \<in> set ex \<and> i \<noteq> c then Map.empty
      else if i = c \<and> filter (\<lambda>l. l \<noteq> c) ex \<noteq> [] then ch_affected (fold_children ex c ch) c else ch_affected ch i)"
  by (auto simp: fold_children_def fold_rows_def Let_def)

text \<open>A call that folds a record changes the canonical document: the document did not list the folded name.\<close>

lemma fold_changes:
  assumes l: "listed checksum st" and sums: "\<And>d e. checksum d = checksum e \<Longrightarrow> v_Aliases d = v_Aliases e"
    and ids: "ids = AllIdentifiers (v_ID v) (v_Aliases v)" and ex: "ex = resolveExisting st ids"
    and row: "st_rows (foldRecords ex c st) c = Some row" "rw_sum row = Some (checksum (upserted fp st v ids ex c))"
  shows "filter (\<lambda>i. i \<noteq> c) ex = []"
proof (rule ccontr)
  assume "filter (\<lambda>i. i \<noteq> c) ex \<noteq> []"
  then obtain i where i: "i \<in> set ex" "i \<noteq> c" by (auto simp: filter_empty_conv)
  have con: "consistent st" and full: "\<And>i d. loadDoc st i = Some d \<Longrightarrow> insert i (set (v_Aliases d)) = {a. st_aliases st a = Some i}"
    and sum: "\<And>i row d. st_rows st i = Some row \<Longrightarrow> rw_doc row = Some d \<Longrightarrow> rw_sum row = Some (checksum d)"
    using l unfolding listed_def by blast+
  obtain a where a: "a \<in> set ids" "st_aliases st a = Some i" using i(1) set_resolveExisting [OF con, of ids] ex by auto
  then obtain di where di: "holds st i di" using consistent_row [OF con] by blast
  then have "i \<in> joined st ids" using a by (auto simp: joined_def holds_def)
  then have "i \<in> set (v_Aliases (upserted fp st v ids ex c))" using upserted_joined [OF con ids ex full] i(2) by simp
  moreover have r: "st_rows st c = Some row" using foldRecords_rows(2) [of ex c st row] row by auto
  then obtain e where e: "holds st c e" using con unfolding consistent_def by blast
  then have "rw_doc row = Some e" using r by (simp add: holds_def loadDoc_def)
  then have "checksum e = checksum (upserted fp st v ids ex c)" using sum [OF r] row(2) by simp
  then have "v_Aliases e = v_Aliases (upserted fp st v ids ex c)" by (rule sums)
  ultimately have "st_aliases st i = Some c" using e unfolding holds_def by simp
  then show False using di i(2) by (simp add: holds_def)
qed

lemma writeChildren_affected:
  assumes "writeChildren fp d ch = Some ch'"
  shows "ch_affected ch' i p = Some y \<longleftrightarrow>
    (if i = v_ID d then \<exists>x \<in> set (dedupeBy fp (v_Affected d)). affected_pk fp x = p \<and> clean_affected x = y
     else ch_affected ch i p = Some y)"
proof -
  obtain a where a: "reconcile fp (affected_pk fp) (\<lambda>p. p) clean_affected (v_Affected d) (ch_affected ch (v_ID d)) = Some a"
    "ch_affected ch' = (ch_affected ch)(v_ID d := a)"
    using assms by (auto simp: writeChildren_def Let_def split: option.splits)
  then show ?thesis using statement_table.reconciled [OF a(1)] by simp
qed

lemma derived_step:
  assumes call: "UpsertTables fp checksum v (st, ch) = Some (c, st', ch')" and l: "listed checksum st"
    and sums: "\<And>d e. checksum d = checksum e \<Longrightarrow> v_Aliases d = v_Aliases e" and der: "derived fp st ch"
  shows "derived fp st' ch'"
proof -
  let ?ids = "AllIdentifiers (v_ID v) (v_Aliases v)"
  let ?ex = "resolveExisting st ?ids"
  let ?folded = "foldRecords ?ex c st" and ?d = "upserted fp st v ?ids ?ex c" and ?ch1 = "fold_children ?ex c ch"
  let ?same = "\<exists>row. st_rows ?folded c = Some row \<and> rw_sum row = Some (checksum ?d)"
  have up: "UpsertVulnerability fp checksum v st = Some (c, st')"
    using call by (auto simp: UpsertTables_def Let_def split: option.splits if_splits)
  note st' = upsert_written(2) [OF up]
  have id: "v_ID ?d = c" using upserted_ids(2) [OF refl] .
  have ch': "if ?same then ch' = ?ch1 else writeChildren fp ?d ?ch1 = Some ch'"
    using call by (cases "?ex = []") (auto simp: UpsertTables_def Let_def up split: option.splits if_splits)
  have doc: "loadDoc st' i = (if i \<in> set ?ex then None else loadDoc st i)" if "i \<noteq> c" for i
    using that foldRecords_other [OF that, of ?ex st] by (simp add: st' writeVuln_def Let_def id loadDoc_def)
  have one: "ch_affected ?ch1 i = (if i \<in> set ?ex then Map.empty else ch_affected ch i)" if "i \<noteq> c" for i
    using that by (subst fold_children_affected) simp
  have derived_at: "ch_affected ch i p = Some y \<longleftrightarrow>
      (\<exists>d. loadDoc st i = Some d \<and> (\<exists>x \<in> set (dedupeBy fp (v_Affected d)). affected_pk fp x = p \<and> clean_affected x = y))" for i p y
    using der unfolding derived_def by blast
  show ?thesis
  proof (cases ?same)
    case True
    then obtain row where row: "st_rows ?folded c = Some row" "rw_sum row = Some (checksum ?d)" by blast
    note none = fold_changes [OF l sums refl refl row]
    have "st_rows st' c = st_rows ?folded c" using row by (simp add: st' writeVuln_def Let_def id)
    moreover have "?folded = st" using none by (simp add: foldRecords_def)
    ultimately have c: "loadDoc st' c = loadDoc st c" by (simp add: loadDoc_def)
    have cc: "ch_affected ?ch1 c = ch_affected ch c" using none by (simp add: fold_children_def fold_rows_def)
    show ?thesis unfolding derived_def
    proof (intro allI)
      fix i p y
      show "ch_affected ch' i p = Some y \<longleftrightarrow>
        (\<exists>d. loadDoc st' i = Some d \<and> (\<exists>x \<in> set (dedupeBy fp (v_Affected d)). affected_pk fp x = p \<and> clean_affected x = y))"
        using derived_at [of i p y] True ch' doc [of i] one [of i] c cc by (cases "i = c") simp_all
    qed
  next
    case False
    then have w: "writeChildren fp ?d ?ch1 = Some ch'" using ch' by simp
    have "st_rows st' c = Some \<lparr>rw_doc = Some ?d, rw_sum = Some (checksum ?d)\<rparr>"
      using False by (auto simp: st' writeVuln_def Let_def id split: option.splits)
    then have c: "loadDoc st' c = Some ?d" by (simp add: loadDoc_def)
    show ?thesis unfolding derived_def
    proof (intro allI)
      fix i p y
      show "ch_affected ch' i p = Some y \<longleftrightarrow>
        (\<exists>d. loadDoc st' i = Some d \<and> (\<exists>x \<in> set (dedupeBy fp (v_Affected d)). affected_pk fp x = p \<and> clean_affected x = y))"
        using derived_at [of i p y] writeChildren_affected [OF w, of i p y] doc [of i] one [of i] c id by (cases "i = c") simp_all
    qed
  qed
qed

lemma stored_derived:
  assumes "stored fp checksum st ch" "\<And>d e. checksum d = checksum e \<Longrightarrow> v_Aliases d = v_Aliases e"
  shows "reached fp checksum st \<and> listed checksum st \<and> derived fp st ch"
  using assms(1)
proof (induction rule: stored.induct)
  case empty
  show ?case using reached.empty reached_listed [OF reached.empty assms(2)]
    by (simp add: derived_def no_children_def empty_store_def loadDoc_def)
next
  case (upsert st ch v c st' ch')
  then have up: "UpsertVulnerability fp checksum v st = Some (c, st')"
    by (auto simp: UpsertTables_def Let_def split: option.splits if_splits)
  have "reached fp checksum st'" using upsert.IH up reached.upsert by blast
  then show ?case
    using reached_listed [OF _ assms(2)] derived_step [OF upsert.hyps(2) _ assms(2)] upsert.IH by blast
qed

section \<open>What a scan reads\<close>

lemma affected_table_documents:
  assumes "derived fp st ch"
  shows "affected_table ch = {statement_row i (affected_pk fp x) (clean_affected x) | i d x.
    loadDoc st i = Some d \<and> x \<in> set (dedupeBy fp (v_Affected d))}"
  using assms unfolding derived_def affected_table_def by fastforce

lemma statement_key_row: "statement_key (statement_row i p a) = i @ NUL # p"
  by (simp add: statement_key_def statement_row_def NUL_def)

text \<open>A fingerprint has no NUL, so the key the lookup deduplicates by tells two rows apart.\<close>

lemma statement_key_inj:
  assumes "derived fp st ch"
  shows "inj_on statement_key (affected_table ch)"
proof (rule inj_onI)
  fix s t assume st: "s \<in> affected_table ch" "t \<in> affected_table ch" and k: "statement_key s = statement_key t"
  obtain i p a where s: "s = statement_row i p a" "ch_affected ch i p = Some a" using st(1) unfolding affected_table_def by blast
  obtain j q b where t: "t = statement_row j q b" "ch_affected ch j q = Some b" using st(2) unfolding affected_table_def by blast
  have free: "NUL \<notin> set p" "NUL \<notin> set q"
    using assms s(2) t(2) cleanText_NUL unfolding derived_def affected_pk_def by metis+
  have "i @ NUL # p = j @ NUL # q" using k unfolding s(1) t(1) statement_key_row .
  then have "split_last NUL (i @ NUL # p) = split_last NUL (j @ NUL # q)" by simp
  then have "i = j \<and> p = q" using split_last_append free by simp
  then show "s = t" using s t by simp
qed

text \<open>The document of a call makes the record's statements, unless the record is stale.\<close>

lemma published_document:
  assumes "UpsertVulnerability fp checksum v st = Some (c, st')" and l: "listed checksum st"
    and sums: "\<And>d e. checksum d = checksum e \<Longrightarrow> v_Aliases d = v_Aliases e \<and> v_Affected d = v_Affected e"
    and x: "keyed_at fp (fp x) (v_Affected v) = Some x"
    and fresh: "\<And>d. mergeAll fp (loadDocs st (resolveExisting st (AllIdentifiers (v_ID v) (v_Aliases v)))) c = Some d \<Longrightarrow>
      \<not> stale (fresh_document v) (current fp (fresh_document v) d)"
  shows "\<exists>d. loadDoc st' c = Some d \<and> x \<in> set (dedupeBy fp (v_Affected d))"
proof -
  let ?ids = "AllIdentifiers (v_ID v) (v_Aliases v)"
  let ?ex = "resolveExisting st ?ids"
  let ?d = "upserted fp st v ?ids ?ex c" and ?folded = "foldRecords ?ex c st"
  have st': "st' = writeVuln checksum ?d ?folded" by (rule upsert_written(2) [OF assms(1)])
  have id: "v_ID ?d = c" using upserted_ids(2) [OF refl] .
  have "keyed_at fp (fp x) (v_Affected (Merge fp (mergeAll fp (loadDocs st ?ex) c) v)) = Some x"
  proof (cases "mergeAll fp (loadDocs st ?ex) c")
    case None
    then show ?thesis using x by (simp add: Merge_def merge_docs_def born_def Let_def)
  next
    case (Some d)
    have "plain (fresh_document v)" by simp
    from merged_children(3) [OF this fresh [OF Some], of "fp x"] show ?thesis
      using x by (simp add: Some Merge_Some last_word_def)
  qed
  then have x': "keyed_at fp (fp x) (v_Affected ?d) = Some x" by (simp add: upserted_def Let_def)
  have "\<exists>row e. st_rows st' (v_ID ?d) = Some row \<and> rw_doc row = Some e \<and> v_Affected e = v_Affected ?d \<and> rw_sum row = Some (checksum e)"
    unfolding st'
  proof (rule writeVuln_row)
    fix row assume row: "st_rows ?folded (v_ID ?d) = Some row" "rw_sum row = Some (checksum ?d)"
    then have r: "st_rows st c = Some row" using foldRecords_rows(2) [of ?ex c st row] id by auto
    then obtain e where "holds st c e" using l unfolding listed_def consistent_def by blast
    then have e: "rw_doc row = Some e" using r by (simp add: holds_def loadDoc_def)
    then have "checksum e = checksum ?d" using l r row(2) unfolding listed_def by (metis option.inject)
    then show "\<exists>e. rw_doc row = Some e \<and> v_Affected e = v_Affected ?d \<and> checksum e = checksum ?d" using e sums by blast
  qed simp
  then obtain e where e: "loadDoc st' c = Some e" "v_Affected e = v_Affected ?d" by (auto simp: id loadDoc_def)
  have "keyed_at fp (fp x) (dedupeBy fp (v_Affected e)) = Some x" using x' e(2) by (simp add: dedupeBy_props(4))
  then show ?thesis using e(1) keyed_at_Some by metis
qed

lemma stored_statement_found:
  assumes "stored fp checksum st ch" "\<And>d e. checksum d = checksum e \<Longrightarrow> v_Aliases d = v_Aliases e"
    and doc: "loadDoc st c = Some d" "x \<in> set (dedupeBy fp (v_Affected d))"
    and table: "set table = affected_table ch" and row: "row = statement_row c (affected_pk fp x) (clean_affected x)"
    and keys: "\<And>qs. keys_of qs (keys qs)"
    and scan: "Scan (store_lookup limit table keys) summarise orders cs opt = Inr r"
    and orders: "\<And>found i. store_lookup limit table keys (map query_of cs) = Inr found \<Longrightarrow> i < length cs \<Longrightarrow>
      iteration_order (orders i)
        (best (component_scan (cs ! i) (cs_Statements found i) (floor_of opt) (o_IncludeUndecidable opt)))"
    and ids: "\<And>xs sm i vs. summarise xs = Inr sm \<Longrightarrow> sm i = Some vs \<Longrightarrow> vs_ID vs = i"
    and st: "i < length cs" "shares_key (query_of (cs ! i)) row" "componentLabel (cs ! i) \<notin> set (r_Truncated r)"
      "fst (Evaluate (cs ! i) (toAffected row)) = Match" "finding_rank (finding_of (cs ! i) row) \<le> confidenceRank (floor_of opt)"
  shows "\<exists>f \<in> set (r_Findings r) \<union> set (r_Suppressed r). f_id f = c"
proof -
  have d: "derived fp st ch" using stored_derived [OF assms(1,2)] by blast
  have m: "row \<in> set table" using doc unfolding table affected_table_documents [OF d] row by blast
  have u: "inj_on statement_key (set table)" unfolding table by (rule statement_key_inj [OF d])
  have "\<exists>f \<in> set (r_Findings r) \<union> set (r_Suppressed r). f_id f = st_VulnID row"
    by (rule Scan_recall [OF keys scan orders _ u st(1) m st(2-5)]) (assumption | erule ids)+
  then show ?thesis by (simp add: row statement_row_def)
qed

end
