(* ===== verification/Store_Examples.thy ===== *)
theory Store_Examples
  imports Child_Laws Examples
begin

text \<open>Concrete upstream records, documents and stores the results on the store are applied to.\<close>

definition upstream :: "string \<Rightarrow> string \<Rightarrow> string list \<Rightarrow> nat \<Rightarrow> string \<Rightarrow> string list \<Rightarrow> nat Fetched" where
  "upstream src vid aliases t title products =
     \<lparr>v_ID = vid, v_Title = title, v_Description = [], v_State = [], v_Published = None, v_Modified = Some t, v_Withdrawn = None,
      v_Aliases = aliases, v_Related = [], v_CWEs = [], v_Severities = [], v_References = [],
      v_Affected = map (\<lambda>p. no_row\<lparr>af_Product := p, af_Source := src\<rparr>) products,
      v_SSVC = None, v_AssignerShortName = [], v_EnrichmentStatus = [], v_Tags = [], v_Source = src, v_SourceRecordID = vid,
      v_FetchedAt = t, v_Raw = []\<rparr>"

text \<open>A digest that keeps the text of a statement, and a checksum that keeps the aliases.\<close>

definition text_digest :: "AffectedRow \<Rightarrow> string" where
  "text_digest = affectedFingerprint (\<lambda>s. s) (\<lambda>_. [])"

fun framed :: "string \<Rightarrow> string" where
  "framed [] = [NUL]"
| "framed (c # s) = CHR ''x'' # c # framed s"

definition alias_sum :: "'t Document \<Rightarrow> string" where
  "alias_sum d = concat (map framed (v_Aliases d))"

lemma framed_append: "framed a @ r = framed b @ s \<Longrightarrow> a = b \<and> r = s"
  by (induction a arbitrary: b) (case_tac b; simp add: NUL_def)+

lemma framed_nonempty [simp]: "framed a \<noteq> []"
  by (cases a) simp_all

lemma framed_concat: "concat (map framed xs) = concat (map framed ys) \<Longrightarrow> xs = ys"
proof (induction xs arbitrary: ys)
  case (Cons x xs)
  then obtain y zs where y: "ys = y # zs" by (cases ys) auto
  then show ?case using Cons framed_append [of x "concat (map framed xs)" y "concat (map framed zs)"] by simp
next
  case Nil
  then show ?case by (cases ys) auto
qed

lemma alias_sum_same: "alias_sum d = alias_sum e \<Longrightarrow> v_Aliases d = v_Aliases e"
  by (simp add: alias_sum_def framed_concat)

definition nvd_wide :: "nat Fetched" where
  "nvd_wide = upstream ''nvd'' ''CVE-2024-1234'' [] 5 ''wide'' [''alpha'', ''beta'']"

definition nvd_narrow :: "nat Fetched" where
  "nvd_narrow = upstream ''nvd'' ''CVE-2024-1234'' [] 7 ''narrow'' [''alpha'']"

definition cna_first :: "nat Fetched" where
  "cna_first = upstream ''cvelist'' ''CVE-2024-1234'' [] 3 [] [''gamma'']"

definition osv_titled :: "nat Fetched" where
  "osv_titled = upstream ''osv'' ''CVE-2024-1234'' [] 4 ''from osv'' []"

definition pysec_live :: "nat Fetched" where
  "pysec_live = upstream ''osv'' ''PYSEC-2024-7'' [''CVE-2024-1234''] 9 [] []"

definition ghsa_gone :: "nat Fetched" where
  "ghsa_gone = (upstream ''osv'' ''GHSA-aaaa-bbbb-cccc'' [''CVE-2024-1234''] 8 [] [])\<lparr>v_Withdrawn := Some 8\<rparr>"

lemmas upstream_examples =
  nvd_wide_def nvd_narrow_def cna_first_def osv_titled_def pysec_live_def ghsa_gone_def

text \<open>A title from a source that outranks the one that set it is not taken, when a better source without a title came first.\<close>

lemma title_follows_order:
  "map_option v_Title (ingest text_digest [cna_first, osv_titled, nvd_wide]) = Some ''from osv''"
  "map_option v_Title (ingest text_digest [cna_first, nvd_wide, osv_titled]) = Some ''wide''"
  by code_simp+

text \<open>The first copy of a record is kept as it is, its second copy without the duplicates.\<close>

definition twice :: "nat Fetched" where
  "twice = upstream ''nvd'' ''CVE-2024-1234'' [] 5 [] [''alpha'', ''alpha'']"

lemma birth_keeps_duplicates:
  "map_option (\<lambda>d. length (v_Affected d)) (ingest text_digest [twice]) = Some 2"
  "map_option (\<lambda>d. length (v_Affected d)) (ingest text_digest [twice, twice]) = Some 1"
  by code_simp+

section \<open>A feed that is read and scanned\<close>

text \<open>A checksum that keeps the aliases and the statements.\<close>

definition texts :: "string list \<Rightarrow> string" where
  "texts xs = concat (map framed xs)"

lemma texts_inj [simp]: "texts xs = texts ys \<longleftrightarrow> xs = ys"
  using framed_concat by (auto simp: texts_def)

definition range_text :: "VersionRange \<Rightarrow> string" where
  "range_text r = texts [Introduced r, Fixed r, LastAffected r, RangeType r, RangeCPE r, Limit r, Repo r]"

lemma range_text_inj: "inj range_text"
  by (rule injI) (simp add: range_text_def)

definition row_text :: "AffectedRow \<Rightarrow> string" where
  "row_text a = texts [af_Vendor a, af_Product a, af_Ecosystem a, af_PURL a, texts (af_CPEs a), texts (af_Versions a),
     texts (map range_text (af_Ranges a)), af_DefaultState a, af_Status a, af_Source a]"

lemma row_text_inj: "inj row_text"
  by (rule injI) (simp add: row_text_def inj_map_eq_map [OF range_text_inj])

definition doc_sum :: "'t Document \<Rightarrow> string" where
  "doc_sum d = texts [texts (v_Aliases d), texts (map row_text (v_Affected d))]"

lemma doc_sum_same: "doc_sum d = doc_sum e \<Longrightarrow> v_Aliases d = v_Aliases e \<and> v_Affected d = v_Affected e"
  by (simp add: doc_sum_def inj_map_eq_map [OF row_text_inj])

definition openssl_statement :: AffectedRow where
  "openssl_statement = no_row\<lparr>af_Product := ''openssl'', af_Ecosystem := ''Debian:12'',
     af_Ranges := [window ''0'' ''3.0.13-1'' ''ECOSYSTEM''], af_Source := ''osv''\<rparr>"

definition openssl_feed :: "nat Fetched" where
  "openssl_feed = (upstream ''osv'' ''CVE-2024-1'' [] 4 [] [])\<lparr>v_Affected := [openssl_statement]\<rparr>"

definition one_digest :: "AffectedRow \<Rightarrow> string" where
  "one_digest a = ''CVE-2024-1/openssl''"

lemma openssl_statement_row:
  "statement_row ''CVE-2024-1'' (affected_pk one_digest openssl_statement) (clean_affected openssl_statement) = affected_row"
  by code_simp

definition openssl_document :: "nat Document" where
  "openssl_document = upserted one_digest empty_store openssl_feed [''CVE-2024-1''] [] ''CVE-2024-1''"

definition openssl_rows :: "nat Store" where
  "openssl_rows = writeVuln doc_sum openssl_document empty_store"

definition openssl_children :: Children where
  "openssl_children = no_children\<lparr>ch_affected := (\<lambda>_. Map.empty)(''CVE-2024-1'' := [''CVE-2024-1/openssl'' \<mapsto> openssl_statement])\<rparr>"

lemma openssl_ids:
  "AllIdentifiers (v_ID openssl_feed) (v_Aliases openssl_feed) = [''CVE-2024-1'']" "PickCanonicalID [''CVE-2024-1''] = ''CVE-2024-1''"
  "v_ID openssl_document = ''CVE-2024-1''" "v_Severities openssl_document = []" "v_References openssl_document = []"
  "v_Affected openssl_document = [openssl_statement]" "affected_pk one_digest openssl_statement = ''CVE-2024-1/openssl''"
  "clean_affected openssl_statement = openssl_statement" "keyed_at one_digest (one_digest openssl_statement) (v_Affected openssl_feed) = Some openssl_statement"
  by code_simp+

lemma nothing_resolves [simp]: "resolveExisting empty_store ids = []"
  by (simp add: resolveExisting_def empty_store_def List.map_filter_def)

lemma openssl_upsert: "UpsertVulnerability one_digest doc_sum openssl_feed empty_store = Some (''CVE-2024-1'', openssl_rows)"
  by (simp add: UpsertVulnerability_def openssl_ids Let_def openssl_rows_def openssl_document_def)

lemma openssl_written: "writeChildren one_digest openssl_document no_children = Some openssl_children"
  by (simp add: writeChildren_def Let_def openssl_ids reconcile_def insert_batch_def batch_of_def dedupeBy_def no_children_def
      openssl_children_def delete_stale_def cleanTexts_def fun_eq_iff)

lemma openssl_stored: "UpsertTables one_digest doc_sum openssl_feed (empty_store, no_children) = Some (''CVE-2024-1'', openssl_rows, openssl_children)"
proof -
  have "fold_children [] ''CVE-2024-1'' no_children = no_children"
    by (simp add: fold_children_def fold_rows_def no_children_def fun_eq_iff)
  then show ?thesis
    by (simp add: UpsertTables_def openssl_upsert openssl_ids Let_def openssl_written flip: openssl_document_def)
      (simp add: empty_store_def)
qed

lemma openssl_table: "affected_table openssl_children = {affected_row}"
proof -
  have "affected_table openssl_children = {statement_row ''CVE-2024-1'' ''CVE-2024-1/openssl'' openssl_statement}"
    by (auto simp: affected_table_def openssl_children_def no_children_def split: if_splits)
  then show ?thesis using openssl_statement_row openssl_ids by simp
qed

end
