(* ===== verification/Csaf_Tree.thy ===== *)
theory Csaf_Tree
  imports Records Purl Python_Order
begin

text \<open>
  \<open>internal/collect/csaf_product.go\<close>: the product tree of a CSAF advisory, from the value its JSON decodes to, and the
  identity each product id stands for. A map is a partial map. Shown: what a package URL and an RPM reference
  \<open>name-epoch:version-release.arch\<close> are read as, and that a relationship takes the identity of the component it names.
\<close>

record csafProduct =
  cp_Name :: string
  cp_Vendor :: string
  cp_Product :: string
  cp_Version :: string
  cp_PURL :: string
  cp_CPE :: string

record productLeaf =
  pl_ProductID :: string
  pl_Name :: string
  pl_Helper :: "(string \<times> string) option"

datatype productBranch = Branch (pb_Category: string) (pb_Name: string) (pb_Product: "productLeaf option") (pb_Branches: "productBranch list")

record productRelation =
  pr_FullProductName :: productLeaf
  pr_ProductRef :: string

record productTreeDoc =
  pt_Branches :: "productBranch list"
  pt_Relationships :: "productRelation list"
  pt_FullProducts :: "productLeaf list"

type_synonym products = "string \<rightharpoonup> csafProduct"

definition blank_product :: csafProduct where
  "blank_product = \<lparr>cp_Name = [], cp_Vendor = [], cp_Product = [], cp_Version = [], cp_PURL = [], cp_CPE = []\<rparr>"

definition or_empty :: "string option \<Rightarrow> string" where
  "or_empty x = (case x of None \<Rightarrow> [] | Some s \<Rightarrow> s)"

section \<open>Reading an identity\<close>

definition splitPURL :: "string \<Rightarrow> (string \<times> string) option" where
  "splitPURL raw =
     (if \<not> has_prefix raw ''pkg:'' then None
      else
        (case split_last CHR ''@'' (takeWhile (\<lambda>c. c \<noteq> CHR ''?'' \<and> c \<noteq> CHR ''#'') (trim_prefix raw ''pkg:'')) of
           None \<Rightarrow> None
         | Some (path, rest) \<Rightarrow>
             (case split_last CHR ''/'' path of
                None \<Rightarrow> None
              | Some (_, last_part) \<Rightarrow>
                  (let name = unescape last_part; version = unescape rest in
                   if name = [] \<or> version = [] then None else Some (name, version)))))"

text \<open>\<open>^(.+)-(\d+):([^-\s]+)-(.+)\.([a-z0-9_]+)$\<close>\<close>

definition any_but_newline :: "char \<Rightarrow> bool" where
  "any_but_newline c \<longleftrightarrow> c \<noteq> CHR 0x0A"

definition version_char :: "char \<Rightarrow> bool" where
  "version_char c \<longleftrightarrow> c \<notin> {CHR ''-'', CHR 0x09, CHR 0x0A, CHR 0x0C, CHR 0x0D, CHR '' ''}"

definition arch_char :: "char \<Rightarrow> bool" where
  "arch_char c \<longleftrightarrow> ascii_lower c \<or> isDigit c \<or> c = CHR ''_''"

definition one_char :: "char \<Rightarrow> regexp" where
  "one_char c = Cls (\<lambda>d. d = c)"

definition some_of :: "(char \<Rightarrow> bool) \<Rightarrow> regexp" where
  "some_of p = Plus (Cls p)"

definition nevra :: regexp where
  "nevra = Seqs [Group ''1'' (some_of any_but_newline), one_char CHR ''-'', Group ''2'' (some_of isDigit), one_char CHR '':'',
     Group ''3'' (some_of version_char), one_char CHR ''-'', Group ''4'' (some_of any_but_newline), one_char CHR ''.'',
     Group ''5'' (some_of arch_char)]"

definition splitNEVRA :: "string \<Rightarrow> (string \<times> string) option" where
  "splitNEVRA s =
     (case find_submatch nevra (trim_space s) of
        None \<Rightarrow> None
      | Some m \<Rightarrow> Some (group_text m ''1'', group_text m ''3'' @ ''-'' @ group_text m ''4''))"

section \<open>The tree\<close>

definition leafFrom :: "productLeaf \<Rightarrow> (string \<rightharpoonup> string) \<Rightarrow> csafProduct" where
  "leafFrom leaf path =
     (let (purl, cpe) = (case pl_Helper leaf of None \<Rightarrow> ([], []) | Some h \<Rightarrow> h);
          p = blank_product\<lparr>cp_Name := pl_Name leaf, cp_Vendor := or_empty (path ''vendor''),
                cp_Version := or_empty (path ''product_version''), cp_PURL := purl, cp_CPE := cpe\<rparr> in
      case splitPURL purl of
        Some (name, version) \<Rightarrow> p\<lparr>cp_Product := name, cp_Version := version\<rparr>
      | None \<Rightarrow>
          (case List.map_filter splitNEVRA [pl_Name leaf, or_empty (path ''product_version'')] of
             (name, version) # _ \<Rightarrow> p\<lparr>cp_Product := name, cp_Version := version\<rparr>
           | [] \<Rightarrow> p\<lparr>cp_Product := (if pl_Name leaf \<noteq> [] then pl_Name leaf else or_empty (path ''product_name''))\<rparr>))"

fun walk :: "productBranch list \<Rightarrow> (string \<rightharpoonup> string) \<Rightarrow> products \<Rightarrow> products" where
  "walk [] path out = out"
| "walk (Branch category name prd branches # rest) path out =
     (let nxt = (if category \<noteq> [] then path(category \<mapsto> name) else path);
          out1 = (case prd of
                    Some leaf \<Rightarrow> if pl_ProductID leaf \<noteq> [] then out(pl_ProductID leaf \<mapsto> leafFrom leaf nxt) else out
                  | None \<Rightarrow> out)
      in walk rest path (walk branches nxt out1))"

definition full_step :: "productLeaf \<Rightarrow> products \<Rightarrow> products" where
  "full_step p out = (if pl_ProductID p \<noteq> [] then out(pl_ProductID p \<mapsto> leafFrom p Map.empty) else out)"

text \<open>The component with the prose of the relationship as its name.\<close>

definition named :: "string \<Rightarrow> csafProduct \<Rightarrow> csafProduct" where
  "named prose p = (if prose \<noteq> [] then p\<lparr>cp_Name := prose\<rparr> else p)"

definition related :: "productRelation \<Rightarrow> products \<Rightarrow> csafProduct" where
  "related rel out =
     (let prose = pl_Name (pr_FullProductName rel); p = blank_product\<lparr>cp_Name := prose\<rparr> in
      case out (pr_ProductRef rel) of
        Some component \<Rightarrow>
          if cp_PURL component \<noteq> [] then named prose component
          else
            (case splitNEVRA (pr_ProductRef rel) of
               Some (name, version) \<Rightarrow>
                 p\<lparr>cp_Product := name, cp_Version := version, cp_Vendor := cp_Vendor component, cp_CPE := cp_CPE component\<rparr>
             | None \<Rightarrow> named prose component)
      | None \<Rightarrow>
          (case splitNEVRA (pr_ProductRef rel) of
             Some (name, version) \<Rightarrow> p\<lparr>cp_Product := name, cp_Version := version\<rparr>
           | None \<Rightarrow> p\<lparr>cp_Product := pr_ProductRef rel\<rparr>))"

definition relation_step :: "productRelation \<Rightarrow> products \<Rightarrow> products" where
  "relation_step rel out =
     (let i = pl_ProductID (pr_FullProductName rel) in
      if i = [] then out
      else (let p = related rel out in out(i \<mapsto> if cp_Product p = [] then p\<lparr>cp_Product := i\<rparr> else p)))"

definition parseProductTree :: "productTreeDoc option \<Rightarrow> products" where
  "parseProductTree decoded =
     (case decoded of
        None \<Rightarrow> Map.empty
      | Some d \<Rightarrow> fold relation_step (pt_Relationships d) (fold full_step (pt_FullProducts d) (walk (pt_Branches d) Map.empty Map.empty)))"

section \<open>What is read\<close>

lemma takeWhile_free: "list_all P s \<Longrightarrow> takeWhile P (s @ t) = s @ takeWhile P t"
  by (induction s) simp_all

definition purl_plain :: "string \<Rightarrow> bool" where
  "purl_plain s \<longleftrightarrow> s \<noteq> [] \<and> list_all (\<lambda>c. c \<notin> {CHR ''%'', CHR ''@'', CHR ''/'', CHR ''?'', CHR ''#''}) s"

lemma unescape_plain: "list_all (\<lambda>c. c \<noteq> CHR ''%'') s \<Longrightarrow> unescape s = s"
proof -
  have "list_all (\<lambda>c. c \<noteq> CHR ''%'') s \<Longrightarrow> path_unescape s = Some s" by (induction s) simp_all
  then show "list_all (\<lambda>c. c \<noteq> CHR ''%'') s \<Longrightarrow> unescape s = s" by (simp add: unescape_def)
qed

lemma splitPURL_reads:
  assumes "list_all (\<lambda>c. c \<notin> {CHR ''?'', CHR ''#''}) t" "purl_plain n" "purl_plain v" "q = [] \<or> hd q \<in> {CHR ''?'', CHR ''#''}"
  shows "splitPURL (''pkg:'' @ t @ ''/'' @ n @ ''@'' @ v @ q) = Some (n, v)"
proof -
  let ?P = "\<lambda>c. c \<noteq> CHR ''?'' \<and> c \<noteq> CHR ''#''"
  have free: "list_all ?P t" "list_all ?P n" "list_all ?P v" using assms(1-3) by (auto simp: purl_plain_def list_all_iff)
  have "takeWhile ?P q = []" using assms(4) by (cases q) auto
  then have b: "takeWhile ?P (t @ ''/'' @ n @ ''@'' @ v @ q) = (t @ CHR ''/'' # n) @ CHR ''@'' # v"
    using free by (simp add: takeWhile_free)
  have at: "CHR ''@'' \<notin> set v" "CHR ''/'' \<notin> set n" using assms(2,3) by (auto simp: purl_plain_def list_all_iff)
  have u: "unescape n = n" "unescape v = v" using unescape_plain assms(2,3) by (fastforce simp: purl_plain_def list_all_iff)+
  have ne: "n \<noteq> []" "v \<noteq> []" using assms(2,3) by (simp_all add: purl_plain_def)
  show ?thesis
    using split_last_append [OF at(1), of "t @ CHR ''/'' # n"] split_last_append [OF at(2), of t] b u ne
    by (simp add: splitPURL_def has_prefix_def trim_prefix_def Let_def)
qed

lemma rmatches_some_of: "rmatches (some_of p) w g \<longleftrightarrow> w \<noteq> [] \<and> list_all p w \<and> g = []"
proof
  assume "rmatches (some_of p) w g"
  then obtain d u where u: "w = d # u" "p d" "rmatches (Star (Cls p)) u g" by (auto simp: some_of_def Plus_def rmatches_Seq_Cls)
  have "R = Star (Cls p) \<Longrightarrow> rmatches R u g \<Longrightarrow> g = []" for R u g
    by (rotate_tac, induction rule: rmatches.induct) auto
  then show "w \<noteq> [] \<and> list_all p w \<and> g = []" using u rmatches_Star_Cls [OF u(3) refl] by simp
next
  assume "w \<noteq> [] \<and> list_all p w \<and> g = []"
  then show "rmatches (some_of p) w g"
    by (cases w) (auto simp: some_of_def Plus_def rmatches_Seq_Cls intro: rmatches_Star_Cls_intro)
qed

definition nevra_text :: "string \<Rightarrow> string \<Rightarrow> string \<Rightarrow> string \<Rightarrow> string \<Rightarrow> string" where
  "nevra_text n e v r a = n @ ''-'' @ e @ '':'' @ v @ ''-'' @ r @ ''.'' @ a"

definition nevra_parts :: "string \<Rightarrow> string \<Rightarrow> string \<Rightarrow> string \<Rightarrow> string \<Rightarrow> bool" where
  "nevra_parts n e v r a \<longleftrightarrow> n \<noteq> [] \<and> list_all any_but_newline n \<and> e \<noteq> [] \<and> list_all isDigit e \<and> v \<noteq> [] \<and> list_all version_char v
     \<and> r \<noteq> [] \<and> list_all any_but_newline r \<and> a \<noteq> [] \<and> list_all arch_char a"

lemma rmatches_Seq_group:
  "rmatches (Seq (Group n (some_of p)) b) w g \<longleftrightarrow>
    (\<exists>x u h. w = x @ u \<and> x \<noteq> [] \<and> list_all p x \<and> rmatches b u h \<and> g = h @ [(n, x)])"
  unfolding rmatches_Seq by (simp add: rmatches_some_of) blast

lemma rmatches_Seq_char: "rmatches (Seq (one_char c) b) w g \<longleftrightarrow> (\<exists>u. w = c # u \<and> rmatches b u g)"
  by (auto simp: one_char_def rmatches_Seq_Cls)

lemma rmatches_nevra:
  "rmatches nevra w g \<longleftrightarrow>
    (\<exists>n e v r a. w = nevra_text n e v r a \<and> nevra_parts n e v r a \<and> g = [(''5'', a), (''4'', r), (''3'', v), (''2'', e), (''1'', n)])"
  (is "_ \<longleftrightarrow> ?parts")
proof
  assume "rmatches nevra w g"
  then show ?parts
    unfolding nevra_def Seqs_def foldr_Cons foldr_Nil comp_apply id_apply rmatches_Seq_group rmatches_Seq_char rmatches_simps
      nevra_text_def nevra_parts_def
    by (elim exE conjE) (intro exI conjI; (assumption | simp))
next
  assume ?parts
  then show "rmatches nevra w g"
    unfolding nevra_def Seqs_def foldr_Cons foldr_Nil comp_apply id_apply rmatches_Seq_group rmatches_Seq_char rmatches_simps
      nevra_text_def nevra_parts_def
    by (elim exE conjE) (intro exI conjI; (assumption | simp))
qed

lemma split_at_unique:
  fixes c :: char
  assumes "h @ c # t = h' @ c # t'" "(c \<notin> set h \<and> c \<notin> set h') \<or> (c \<notin> set t \<and> c \<notin> set t')"
  shows "h = h' \<and> t = t'"
  using assms(2)
proof
  assume n: "c \<notin> set h \<and> c \<notin> set h'"
  have "Some (h, t) = Some (h', t')"
    unfolding split_first_append [OF conjunct1 [OF n], symmetric] split_first_append [OF conjunct2 [OF n], symmetric] assms(1) ..
  then show ?thesis by simp
next
  assume n: "c \<notin> set t \<and> c \<notin> set t'"
  have "Some (h, t) = Some (h', t')"
    unfolding split_last_append [OF conjunct1 [OF n], symmetric] split_last_append [OF conjunct2 [OF n], symmetric] assms(1) ..
  then show ?thesis by simp
qed

text \<open>An RPM reference without a colon of its own is read in one way.\<close>

definition rpm_text :: "string \<Rightarrow> bool" where
  "rpm_text s \<longleftrightarrow> list_all (\<lambda>c. c \<noteq> CHR '':'' \<and> \<not> is_space c) s"

lemma space_low: "is_space c \<Longrightarrow> c \<le> CHR '' ''"
  unfolding is_space_def
proof (elim disjE conjE)
  assume "c \<le> CHR 0x0D"
  moreover have "CHR 0x0D \<le> CHR '' ''" by (simp add: less_eq_char_def)
  ultimately show "c \<le> CHR '' ''" by (rule order_trans)
qed simp

lemma high_no_space: "CHR ''-'' \<le> c \<Longrightarrow> \<not> is_space c"
proof
  assume "CHR ''-'' \<le> c" "is_space c"
  then have "CHR ''-'' \<le> CHR '' ''" using space_low order_trans by blast
  then show False by (simp add: less_eq_char_def)
qed

lemma nevra_chars:
  "isDigit c \<Longrightarrow> c \<noteq> CHR ''-'' \<and> c \<noteq> CHR '':'' \<and> \<not> is_space c"
  "arch_char c \<Longrightarrow> c \<noteq> CHR ''.'' \<and> c \<noteq> CHR '':'' \<and> \<not> is_space c"
proof -
  have low: "CHR ''-'' \<le> CHR ''0''" "CHR ''-'' \<le> CHR ''a''" "CHR ''-'' \<le> CHR ''_''" by (simp_all add: less_eq_char_def)
  have d: "\<not> is_space c" if "isDigit c" using that order_trans [OF low(1)] high_no_space by (simp add: isDigit_def)
  have l: "\<not> is_space c" if "ascii_lower c" using that order_trans [OF low(2)] high_no_space by (simp add: ascii_lower_def)
  have u: "\<not> is_space c" if "c = CHR ''_''" using that low(3) high_no_space by simp
  show "isDigit c \<Longrightarrow> c \<noteq> CHR ''-'' \<and> c \<noteq> CHR '':'' \<and> \<not> is_space c"
    using d by (auto simp: isDigit_def less_eq_char_def)
  have "arch_char c \<Longrightarrow> \<not> is_space c" using d l u unfolding arch_char_def by blast
  moreover have "arch_char c \<Longrightarrow> c \<noteq> CHR ''.'' \<and> c \<noteq> CHR '':''"
    by (auto simp: arch_char_def isDigit_def ascii_lower_def less_eq_char_def)
  ultimately show "arch_char c \<Longrightarrow> c \<noteq> CHR ''.'' \<and> c \<noteq> CHR '':'' \<and> \<not> is_space c" by blast
qed

lemma nevra_no_colon:
  assumes "nevra_parts n e v r a"
  shows "CHR ''-'' \<notin> set e" "CHR '':'' \<notin> set e" "CHR ''-'' \<notin> set v" "CHR ''.'' \<notin> set a" "CHR '':'' \<notin> set a"
    "\<And>c. c \<in> set e \<union> set a \<Longrightarrow> \<not> is_space c"
proof -
  have d: "\<And>c. c \<in> set e \<Longrightarrow> isDigit c" "\<And>c. c \<in> set a \<Longrightarrow> arch_char c" "\<And>c. c \<in> set v \<Longrightarrow> version_char c"
    using assms by (simp_all add: nevra_parts_def list_all_iff)
  show "CHR ''-'' \<notin> set e" "CHR '':'' \<notin> set e" "CHR ''.'' \<notin> set a" "CHR '':'' \<notin> set a"
    "\<And>c. c \<in> set e \<union> set a \<Longrightarrow> \<not> is_space c"
    using d(1,2) nevra_chars by blast+
  show "CHR ''-'' \<notin> set v" using d(3) by (auto simp: version_char_def)
qed

lemma rpm_text_chars: "rpm_text s \<Longrightarrow> c \<in> set s \<Longrightarrow> \<not> is_space c"
  by (simp add: rpm_text_def list_all_iff)

lemma nevra_unique:
  assumes "nevra_text n e v r a = nevra_text n' e' v' r' a'" "nevra_parts n e v r a" "nevra_parts n' e' v' r' a'"
    and free: "rpm_text n" "rpm_text v" "rpm_text r"
  shows "n' = n \<and> v' = v \<and> r' = r"
proof -
  note p = nevra_no_colon [OF assms(2)] and q = nevra_no_colon [OF assms(3)]
  let ?l = "n @ ''-'' @ e" and ?r = "v @ ''-'' @ r @ ''.'' @ a" and ?l' = "n' @ ''-'' @ e'" and ?r' = "v' @ ''-'' @ r' @ ''.'' @ a'"
  have w: "?l @ CHR '':'' # ?r = ?l' @ CHR '':'' # ?r'" using assms(1) by (simp add: nevra_text_def)
  have c: "CHR '':'' \<notin> set ?l" "CHR '':'' \<notin> set ?r" using free p(2,5) by (auto simp: rpm_text_def list_all_iff)
  have "CHR '':'' \<notin> set ?l'"
  proof
    assume "CHR '':'' \<in> set ?l'"
    then obtain x y where x: "?l' = x @ CHR '':'' # y" "CHR '':'' \<notin> set x" using split_list_first by metis
    then have "?l @ CHR '':'' # ?r = x @ CHR '':'' # (y @ CHR '':'' # ?r')" using w by simp
    then have "?r = y @ CHR '':'' # ?r'" using split_at_unique [of ?l "CHR '':''" ?r x] c(1) x(2) by blast
    then show False using c(2) by (metis in_set_conv_decomp)
  qed
  then have s: "?l = ?l'" "?r = ?r'" using split_at_unique [OF w] c by blast+
  have "n @ CHR ''-'' # e = n' @ CHR ''-'' # e'" using s(1) by simp
  then have 1: "n = n'" using split_at_unique p(1) q(1) by blast
  have "v @ CHR ''-'' # (r @ ''.'' @ a) = v' @ CHR ''-'' # (r' @ ''.'' @ a')" using s(2) by simp
  then have 2: "v = v' \<and> r @ ''.'' @ a = r' @ ''.'' @ a'" using split_at_unique p(3) q(3) by blast
  then have "r @ CHR ''.'' # a = r' @ CHR ''.'' # a'" by simp
  then have "r = r'" using split_at_unique p(4) q(4) by blast
  then show ?thesis using 1 2 by simp
qed

lemma splitNEVRA_reads:
  assumes "nevra_parts n e v r a" "rpm_text n" "rpm_text v" "rpm_text r"
  shows "splitNEVRA (nevra_text n e v r a) = Some (n, v @ ''-'' @ r)"
proof -
  let ?w = "nevra_text n e v r a"
  have sep: "\<not> is_space (CHR ''-'')" "\<not> is_space (CHR '':'')" "\<not> is_space (CHR ''.'')" by (simp_all add: is_space_def less_eq_char_def)
  have own: "\<not> is_space c" if "c \<in> set n \<union> set v \<union> set r" for c
    using that rpm_text_chars assms(2-4) by (elim UnE) simp_all
  have "\<not> is_space c" if "c \<in> set ?w" for c
  proof -
    consider "c \<in> set e \<union> set a" | "c \<in> set n \<union> set v \<union> set r" | "c = CHR ''-''" | "c = CHR '':''" | "c = CHR ''.''"
      using \<open>c \<in> set ?w\<close> unfolding nevra_text_def set_append list.set by blast
    then show ?thesis by cases (use nevra_no_colon(6) [OF assms(1), of c] own [of c] sep in blast)+
  qed
  moreover have "?w \<noteq> []" by (simp add: nevra_text_def)
  ultimately have t: "trim_space ?w = ?w" by (intro trim_space_plain) simp_all
  have "rmatches nevra ?w [(''5'', a), (''4'', r), (''3'', v), (''2'', e), (''1'', n)]"
    unfolding rmatches_nevra using assms(1) by blast
  then obtain m where m: "find_submatch nevra ?w = Some m" using find_submatch_None [of nevra ?w] by (cases "find_submatch nevra ?w") auto
  obtain n' e' v' r' a' where p: "?w = nevra_text n' e' v' r' a'" "nevra_parts n' e' v' r' a'"
    "m = [(''5'', a'), (''4'', r'), (''3'', v'), (''2'', e'), (''1'', n')]"
    using find_submatch_rmatches [OF m] unfolding rmatches_nevra by blast
  then have "n' = n \<and> v' = v \<and> r' = r" using nevra_unique [OF p(1) assms(1) p(2) assms(2-4)] by simp
  then show ?thesis by (simp add: splitNEVRA_def t m p(3) group_text_def)
qed

text \<open>The leaves in the order they are met, each under the names on its own path only; a later one of an id wins.\<close>

fun leaves :: "productBranch list \<Rightarrow> (string \<rightharpoonup> string) \<Rightarrow> (string \<times> csafProduct) list" where
  "leaves [] path = []"
| "leaves (Branch category name prd branches # rest) path =
     (let nxt = (if category \<noteq> [] then path(category \<mapsto> name) else path) in
      (case prd of Some leaf \<Rightarrow> if pl_ProductID leaf \<noteq> [] then [(pl_ProductID leaf, leafFrom leaf nxt)] else [] | None \<Rightarrow> [])
        @ leaves branches nxt @ leaves rest path)"

lemma walk_leaves: "walk bs path out = fold (\<lambda>(i, p) m. m(i \<mapsto> p)) (leaves bs path) out"
proof (induction bs path out rule: walk.induct)
  case (2 category name prd branches rest path out)
  then show ?case by (cases prd) (simp_all add: Let_def)
qed simp

lemma relation_inherits:
  assumes "out (pr_ProductRef rel) = Some p" "cp_PURL p \<noteq> []" "pl_ProductID (pr_FullProductName rel) = i" "i \<noteq> []" "cp_Product p \<noteq> []"
  shows "\<exists>q. relation_step rel out i = Some q \<and> cp_PURL q = cp_PURL p \<and> cp_Product q = cp_Product p \<and> cp_Version q = cp_Version p
    \<and> cp_CPE q = cp_CPE p \<and> cp_Vendor q = cp_Vendor p"
  using assms by (simp add: relation_step_def related_def named_def Let_def)

end
