(* ===== verification/Csaf_Laws.thy ===== *)
theory Csaf_Laws
  imports Csaf
begin

text \<open>
  Laws of Csaf: a stably sorted list is determined by its elements of each weight, so the statements of a record do not
  depend on the order the map of statuses is iterated in, and every product of every status is one row.
\<close>

section \<open>Sorted lists with the same elements of each weight\<close>

context strict_weak_order
begin

definition level :: "'a \<Rightarrow> 'a \<Rightarrow> bool" where
  "level x y \<longleftrightarrow> \<not> lt x y \<and> \<not> lt y x"

lemma level_refl [simp]: "level x x"
  using asym by (auto simp: level_def)

lemma level_pair: "level k x \<Longrightarrow> level k y \<Longrightarrow> \<not> lt x y"
  using neg_trans by (auto simp: level_def)

lemma in_order_unique:
  "in_order xs \<Longrightarrow> in_order ys \<Longrightarrow> (\<And>k. filter (level k) xs = filter (level k) ys) \<Longrightarrow> xs = ys"
proof (induction xs arbitrary: ys)
  case Nil
  show ?case
  proof (cases ys)
    case (Cons y zs)
    then have "filter (level y) ys \<noteq> []" by simp
    then show ?thesis using Nil(3) [of y] by simp
  qed simp
next
  case (Cons x xs)
  note fs = Cons.prems(3)
  have x: "x \<in> set (filter (level x) ys)" unfolding fs [of x, symmetric] by simp
  then obtain y zs where ys: "ys = y # zs" by (cases ys) auto
  have y: "y \<in> set (filter (level y) (x # xs))" using fs [of y] ys by simp
  have "y \<in> set (x # xs)" "x \<in> set (y # zs)" using x y unfolding ys by (metis filter_is_subset subsetD)+
  then have "\<not> lt y x" "\<not> lt x y" using Cons.prems(1,2) asym unfolding ys by (auto simp: in_order_def)
  then have l: "level x y" by (simp add: level_def)
  have "x # filter (level x) xs = y # filter (level x) zs" 
    using fs [of x] l unfolding ys by (simp only: filter.simps level_refl if_True)
  then have e: "x = y" by simp
  have "filter (level k) xs = filter (level k) zs" for k using fs [of k] unfolding ys e by (cases "level k y") simp_all
  then have "xs = zs" using Cons.IH [of zs] Cons.prems(1,2) unfolding ys by (simp add: in_order_def)
  then show ?case using e ys by simp
qed

lemma sort_stable_cong:
  assumes "\<And>k. filter (level k) xs = filter (level k) ys"
  shows "sort_stable lt xs = sort_stable lt ys"
proof (rule in_order_unique [OF sort_stable_in_order sort_stable_in_order])
  fix k
  have "filter (level k) (sort_stable lt zs) = filter (level k) zs" for zs
    using sort_stable_filter [of "level k" zs] level_pair by blast
  then show "filter (level k) (sort_stable lt xs) = filter (level k) (sort_stable lt ys)" using assms by simp
qed

end

interpretation vex_order: strict_weak_order vex_less
  by unfold_locales (auto simp: vex_less_def split: if_splits)

section \<open>The rows of a record\<close>

definition vex_statuses :: "Status set" where
  "vex_statuses = {StatusAffected, StatusFixed, StatusNotAffected, StatusUnderInvestigation}"

lemma status_text_inj: "status_text s = status_text t \<longleftrightarrow> s = t"
  by (cases s; cases t) (simp_all add: status_text_def)

lemma product_status [simp]: "af_Status (affectedFromProduct found pid publisher status source) = status"
  by (simp add: affectedFromProduct_def Let_def)

lemma product_named: "pid \<noteq> [] \<Longrightarrow> af_Product (affectedFromProduct found pid publisher status source) \<noteq> []"
  by (simp add: affectedFromProduct_def Let_def)

lemma vex_level_status: "vex_order.level a b \<Longrightarrow> af_Status a = af_Status b"
  by (auto simp: vex_order.level_def vex_less_def split: if_splits)

lemma concat_one:
  "distinct xs \<Longrightarrow> (\<And>x. x \<in> set xs \<Longrightarrow> x \<noteq> s \<Longrightarrow> f x = []) \<Longrightarrow> concat (map f xs) = (if s \<in> set xs then f s else [])"
proof (induction xs)
  case (Cons x xs)
  then show ?case by (cases "x = s") auto
qed simp

lemma vex_rows_level:
  assumes "distinct order"
  shows "filter (vex_order.level k) (vex_rows names publisher source order ps) =
    concat (map (\<lambda>st. if status_text st = af_Status k \<and> st \<in> set order
      then filter (vex_order.level k) (map (\<lambda>pid. affectedFromProduct (names pid) pid publisher (status_text st) source) (status_ids ps st))
      else []) Statuses)"
proof -
  let ?f = "\<lambda>st. filter (vex_order.level k) (map (\<lambda>pid. affectedFromProduct (names pid) pid publisher (status_text st) source) (status_ids ps st))"
  have off: "?f st = []" if "status_text st \<noteq> af_Status k" for st
    using that vex_level_status [of k] by (auto simp: filter_empty_conv)
  have d: "distinct Statuses" by (simp add: Statuses_def)
  have all: "st \<in> set Statuses" for st by (cases st) (simp_all add: Statuses_def)
  have l: "filter (vex_order.level k) (vex_rows names publisher source order ps) = concat (map ?f order)"
    by (simp add: vex_rows_def filter_concat comp_def)
  show ?thesis
  proof (cases "\<exists>st. status_text st = af_Status k")
    case False
    then show ?thesis unfolding l using off by (simp add: map_replicate_const)
  next
    case True
    then obtain s where s: "status_text s = af_Status k" by blast
    then have "status_text st \<noteq> af_Status k" if "st \<noteq> s" for st using that status_text_inj [of st s] by simp
    then show ?thesis
      unfolding l using concat_one [OF assms, of s ?f] off
        concat_one [OF d, of s "\<lambda>st. if status_text st = af_Status k \<and> st \<in> set order then ?f st else []"] all s
      by simp
  qed
qed

lemma vex_rows_order_free:
  assumes "distinct order" "distinct order'" "set order = set order'"
  shows "sort_stable vex_less (vex_rows names publisher source order ps) = sort_stable vex_less (vex_rows names publisher source order' ps)"
  by (rule vex_order.sort_stable_cong) (simp only: vex_rows_level assms(1,2) assms(3))

lemma vex_rows_set:
  "row \<in> set (vex_rows names publisher source order ps) \<longleftrightarrow>
    (\<exists>st \<in> set order. \<exists>pid \<in> set (status_ids ps st). row = affectedFromProduct (names pid) pid publisher (status_text st) source)"
  by (auto simp: vex_rows_def)

lemma csaf_record_order_free:
  assumes "distinct order" "distinct order'" "set order = set order'"
  shows "csaf_record tp order source publisher doc i cv = csaf_record tp order' source publisher doc i cv"
  using vex_rows_order_free [OF assms] by (simp add: csaf_record_def)

lemma csaf_rows:
  "set (v_Affected (csaf_record tp order source publisher doc i cv)) =
     set (vex_rows (parseProductTree (cd_ProductTree doc)) publisher source order (cv_ProductStatus cv))"
  "sorted_wrt (\<lambda>a b. \<not> vex_less b a) (v_Affected (csaf_record tp order source publisher doc i cv))"
  "length (v_Affected (csaf_record tp order source publisher doc i cv)) =
     length (vex_rows (parseProductTree (cd_ProductTree doc)) publisher source order (cv_ProductStatus cv))"
proof -
  let ?rows = "vex_rows (parseProductTree (cd_ProductTree doc)) publisher source order (cv_ProductStatus cv)"
  have a: "v_Affected (csaf_record tp order source publisher doc i cv) = sort_stable vex_less ?rows" by (simp add: csaf_record_def Let_def)
  show "set (v_Affected (csaf_record tp order source publisher doc i cv)) = set ?rows"
    unfolding a by (metis vex_order.sort_stable_mset set_mset_mset)
  show "length (v_Affected (csaf_record tp order source publisher doc i cv)) = length ?rows"
    unfolding a by (metis vex_order.sort_stable_mset size_mset)
  show "sorted_wrt (\<lambda>a b. \<not> vex_less b a) (v_Affected (csaf_record tp order source publisher doc i cv))"
    unfolding a using vex_order.sort_stable_in_order [of ?rows] by (simp add: vex_order.in_order_def)
qed

end
