(* ===== verification/Csaf_Walk.thy ===== *)
theory Csaf_Walk
  imports Csaf
begin

text \<open>
  The walk of \<open>CSAFCollector\<close> over a provider's advisories (\<open>internal/collect/eu_sources.go\<close>): the two kinds of listing, the
  integrity check, and the loop that fetches what is pending, oldest first, and moves the provider's cursor. What the
  network answers, the resolution of URLs and SHA-256 are arguments. A zero time is \<open>None\<close>. Advisories of one time are in
  any order, which the code leaves to an unstable sort.
\<close>

section \<open>Listings\<close>

fun pick_href :: "string \<Rightarrow> (string \<times> string) list \<Rightarrow> string" where
  "pick_href href [] = href"
| "pick_href href ((rel, h) # ls) = (if rel = ''self'' then h else pick_href (if href = [] then h else href) ls)"

definition is_json :: "string \<Rightarrow> bool" where
  "is_json path \<longleftrightarrow> has_suffix (to_lower path) ''.json''"

type_synonym 't listing = "string \<rightharpoonup> 't option"

definition rolie_step :: "(string \<Rightarrow> string \<Rightarrow> 't option) \<Rightarrow> (string \<Rightarrow> string) \<Rightarrow> string \<times> (string \<times> string) list \<Rightarrow> 't listing \<Rightarrow> 't listing" where
  "rolie_step time_parse resolve entry out =
     (let (updated, links) = entry; href = pick_href [] links in
      if href = [] \<or> \<not> is_json href then out else out(resolve href \<mapsto> ParseTime time_parse updated))"

definition rolieEntries ::
  "(string \<Rightarrow> string \<Rightarrow> 't option) \<Rightarrow> (string \<Rightarrow> string) \<Rightarrow> (string \<times> (string \<times> string) list) list \<Rightarrow> 't listing" where
  "rolieEntries time_parse resolve entries = fold (rolie_step time_parse resolve) entries Map.empty"

definition trim_quotes :: "string \<Rightarrow> string" where
  "trim_quotes s = rev (dropWhile (\<lambda>c. c = CHR 0x22) (rev (dropWhile (\<lambda>c. c = CHR 0x22) s)))"

definition trim_slashes :: "string \<Rightarrow> string" where
  "trim_slashes s = rev (dropWhile (\<lambda>c. c = CHR ''/'') (rev s))"

definition newer :: "'t::linorder option \<Rightarrow> 't option \<Rightarrow> bool" where
  "newer since tm \<longleftrightarrow> (case (since, tm) of (Some s, Some t) \<Rightarrow> s < t | _ \<Rightarrow> True)"

definition changes_step ::
  "(string \<Rightarrow> string \<Rightarrow> 't::linorder option) \<Rightarrow> string \<Rightarrow> 't option \<Rightarrow> string \<Rightarrow> nat \<times> 't listing \<Rightarrow> nat \<times> 't listing" where
  "changes_step time_parse base since line acc =
     (let (rows, out) = acc in
      case split_first CHR '','' (trim_space line) of
        None \<Rightarrow> acc
      | Some (a, b) \<Rightarrow>
          (let path = trim_quotes (trim_space a); stamp = trim_quotes (trim_space b) in
           if \<not> is_json path then acc
           else
             (let tm = ParseTime time_parse stamp in
              (rows + 1, if newer since tm then out(base @ trim_prefix path ''/'' \<mapsto> tm) else out))))"

definition index_step :: "string \<Rightarrow> string \<Rightarrow> 't listing \<Rightarrow> 't listing" where
  "index_step base line out =
     (let path = trim_space line in
      if path = [] \<or> \<not> is_json path then out else out(base @ trim_prefix path ''/'' \<mapsto> None))"

text \<open>\<open>fetch\<close> answers with a body or fails.\<close>

definition directoryEntries ::
  "(string \<Rightarrow> string \<Rightarrow> 't::linorder option) \<Rightarrow> (string \<Rightarrow> string option) \<Rightarrow> string \<Rightarrow> 't option \<Rightarrow> 't listing option" where
  "directoryEntries time_parse fetch dirURL since =
     (let base = trim_slashes dirURL @ ''/'';
          from_index = map_option (\<lambda>body. fold (index_step base) (split CHR 0x0A body) Map.empty) (fetch (base @ ''index.txt'')) in
      case fetch (base @ ''changes.csv'') of
        None \<Rightarrow> from_index
      | Some body \<Rightarrow>
          (let (rows, out) = fold (changes_step time_parse base since) (split CHR 0x0A body) (0, Map.empty) in
           if rows > 0 then Some out else from_index))"

definition verifySHA256 :: "(string \<Rightarrow> string) \<Rightarrow> (string \<Rightarrow> string option) \<Rightarrow> string \<Rightarrow> string \<Rightarrow> bool" where
  "verifySHA256 sha fetch advisoryURL data =
     (case fetch (advisoryURL @ ''.sha256'') of
        None \<Rightarrow> True
      | Some body \<Rightarrow>
          (let w = trim_space body; first = takeWhile (\<lambda>c. c \<noteq> CHR '' '' \<and> c \<noteq> CHR 0x09) w;
               want = to_lower (if first \<noteq> [] then first else w) in
           length want \<noteq> 64 \<or> sha data = want))"

section \<open>A provider\<close>

text \<open>The feeds that could be read, then what only the directories list.\<close>

definition gather :: "'t listing list \<Rightarrow> 't listing list \<Rightarrow> 't listing" where
  "gather feeds directories = fold (\<lambda>found docs. found ++ docs) directories (fold (\<lambda>found docs. docs ++ found) feeds Map.empty)"

definition before :: "'t::linorder option \<Rightarrow> 't option \<Rightarrow> bool" where
  "before a b \<longleftrightarrow> (case (a, b) of (None, Some _) \<Rightarrow> True | (Some s, Some t) \<Rightarrow> s < t | _ \<Rightarrow> False)"

definition is_pending :: "'t::linorder listing \<Rightarrow> 't option \<Rightarrow> (string \<times> 't option) list \<Rightarrow> bool" where
  "is_pending docs since pending \<longleftrightarrow> distinct (map fst pending)
     \<and> set pending = {(u, tm). docs u = Some tm \<and> newer since tm} \<and> sorted_wrt (\<lambda>a b. \<not> before (snd b) (snd a)) pending"

datatype fate = Unfetched | Tampered | Ingested | SinkRefused

record 't walk =
  wk_done :: "string list"
  wk_lastGood :: "'t option"
  wk_failures :: nat
  wk_refused :: bool

text \<open>The loop; a record the sink refuses ends the run of the provider before the cursor is set.\<close>

fun walk_pending :: "(string \<Rightarrow> fate) \<Rightarrow> (string \<times> 't option) list \<Rightarrow> 't walk \<Rightarrow> 't walk" where
  "walk_pending fate [] w = w"
| "walk_pending fate ((u, tm) # rest) w =
     (case fate u of
        Ingested \<Rightarrow>
          walk_pending fate rest
            (w\<lparr>wk_done := wk_done w @ [u], wk_lastGood := (if tm \<noteq> None then tm else wk_lastGood w)\<rparr>)
      | SinkRefused \<Rightarrow> w\<lparr>wk_refused := True\<rparr>
      | _ \<Rightarrow> w\<lparr>wk_failures := wk_failures w + 1\<rparr>)"

text \<open>The cursor of the provider and whether the run reports an error.\<close>

definition runProvider :: "(string \<Rightarrow> fate) \<Rightarrow> 't::linorder \<Rightarrow> 't option \<Rightarrow> (string \<times> 't option) list \<Rightarrow> string list \<times> 't option \<times> bool" where
  "runProvider fate startedAt since pending =
     (let w = walk_pending fate pending \<lparr>wk_done = [], wk_lastGood = None, wk_failures = 0, wk_refused = False\<rparr> in
      (wk_done w,
       (if wk_refused w then since
        else (case wk_lastGood w of None \<Rightarrow> since | Some t \<Rightarrow> Some (if startedAt < t then startedAt else t))),
       wk_refused w \<or> wk_failures w > 0))"

section \<open>The cursor\<close>

lemma walk_split:
  "\<exists>p q. pending = p @ q \<and> wk_done (walk_pending fate pending w) = wk_done w @ map fst p \<and> (\<forall>x \<in> set p. fate (fst x) = Ingested)
    \<and> (q = [] \<or> fate (fst (hd q)) \<noteq> Ingested)
    \<and> (wk_lastGood (walk_pending fate pending w) = wk_lastGood w \<or> wk_lastGood (walk_pending fate pending w) \<in> set (map snd p) - {None})"
proof (induction pending arbitrary: w)
  case (Cons a pending)
  obtain u tm where a: "a = (u, tm)" by (cases a)
  show ?case
  proof (cases "fate u = Ingested")
    case True
    let ?w = "w\<lparr>wk_done := wk_done w @ [u], wk_lastGood := (if tm \<noteq> None then tm else wk_lastGood w)\<rparr>"
    obtain p q where pq: "pending = p @ q" "wk_done (walk_pending fate pending ?w) = wk_done ?w @ map fst p"
      "\<forall>x \<in> set p. fate (fst x) = Ingested" "q = [] \<or> fate (fst (hd q)) \<noteq> Ingested"
      "wk_lastGood (walk_pending fate pending ?w) = wk_lastGood ?w \<or> wk_lastGood (walk_pending fate pending ?w) \<in> set (map snd p) - {None}"
      using Cons.IH [of ?w] by blast
    have s: "walk_pending fate (a # pending) w = walk_pending fate pending ?w" by (simp add: a True)
    show ?thesis
    proof (rule exI [of _ "a # p"], rule exI [of _ q], intro conjI)
      show "wk_lastGood (walk_pending fate (a # pending) w) = wk_lastGood w
          \<or> wk_lastGood (walk_pending fate (a # pending) w) \<in> set (map snd (a # p)) - {None}"
        using pq(5) unfolding s by (cases tm) (auto simp: a)
    qed (use pq True s in \<open>simp_all add: a\<close>)
  next
    case False
    then have "wk_done (walk_pending fate (a # pending) w) = wk_done w" "wk_lastGood (walk_pending fate (a # pending) w) = wk_lastGood w"
      by (cases "fate u"; simp add: a)+
    then show ?thesis using False a by - (rule exI [of _ "[]"], rule exI [of _ "a # pending"], simp)
  qed
qed simp

lemma older_than_cursor: "newer since (Some t) \<Longrightarrow> since = Some c \<Longrightarrow> t < c \<Longrightarrow> False"
  by (auto simp: newer_def)

lemma provider_cursor:
  assumes "is_pending docs since pending" "runProvider fate startedAt since pending = (ingested, cursor, failed)"
    and "docs u = Some (Some t)" "cursor = Some c" "t < c"
  shows "(u \<in> set ingested \<and> fate u = Ingested) \<or> \<not> newer since (Some t)"
proof (cases "newer since (Some t)")
  case True
  let ?w = "walk_pending fate pending \<lparr>wk_done = [], wk_lastGood = None, wk_failures = 0, wk_refused = False\<rparr>"
  have u: "(u, Some t) \<in> set pending" using True assms(1,3) unfolding is_pending_def by blast
  have d: "ingested = wk_done ?w" using assms(2) by (simp add: runProvider_def Let_def)
  have cur: "cursor = (if wk_refused ?w then since else (case wk_lastGood ?w of None \<Rightarrow> since | Some t \<Rightarrow> Some (if startedAt < t then startedAt else t)))"
    using assms(2) by (simp add: runProvider_def Let_def)
  have "cursor \<noteq> since" using older_than_cursor [OF True _ assms(5)] assms(4) by blast
  then obtain g where g: "wk_lastGood ?w = Some g" "cursor = Some (if startedAt < g then startedAt else g)"
    using cur by (cases "wk_lastGood ?w") (auto split: if_splits)
  then have "c \<le> g" using assms(4) by (auto split: if_splits)
  then have "t < g" using assms(5) by simp
  obtain p q where pq: "pending = p @ q" "wk_done ?w = map fst p" "\<forall>x \<in> set p. fate (fst x) = Ingested" "Some g \<in> set (map snd p)"
    using walk_split [of pending fate "\<lparr>wk_done = [], wk_lastGood = None, wk_failures = 0, wk_refused = False\<rparr>"] g(1) by auto
  obtain x where x: "(x, Some g) \<in> set p" using pq(4) by auto
  have "\<not> before (snd b) (snd a)" if "a \<in> set p" "b \<in> set q" for a b
    using assms(1) that unfolding is_pending_def pq(1) by (simp add: sorted_wrt_append)
  then have "(u, Some t) \<notin> set q" using x \<open>t < g\<close> by (fastforce simp: before_def)
  then have "(u, Some t) \<in> set p" using u pq(1) by simp
  then show ?thesis using pq(2,3) d by force
qed simp

text \<open>
  An advisory with the time of the last one ingested is not behind the cursor in this sense, and the next run takes it
  for read: with two advisories of one time, a fetch that fails for the second loses it.
\<close>

lemma equal_time_lost:
  fixes t :: nat
  assumes "docs = [''a.json'' \<mapsto> Some 5, ''b.json'' \<mapsto> Some 5]" "fate = (\<lambda>u. if u = ''a.json'' then Ingested else Unfetched)"
  shows "is_pending docs None [(''a.json'', Some 5), (''b.json'', Some (5::nat))]"
    "runProvider fate 9 None [(''a.json'', Some 5), (''b.json'', Some (5::nat))] = ([''a.json''], Some 5, True)"
    "is_pending docs (Some (5::nat)) pending \<Longrightarrow> pending = []"
proof -
  show "is_pending docs None [(''a.json'', Some 5), (''b.json'', Some (5::nat))]"
    by (auto simp: is_pending_def assms(1) newer_def before_def split: if_splits)
  show "runProvider fate 9 None [(''a.json'', Some 5), (''b.json'', Some (5::nat))] = ([''a.json''], Some 5, True)"
    by (simp add: runProvider_def assms(2))
  assume "is_pending docs (Some (5::nat)) pending"
  then have "set pending = {}" unfolding is_pending_def assms(1) newer_def by (auto split: if_splits)
  then show "pending = []" by simp
qed

end
