(* ===== verification/Ingest.thy ===== *)
theory Ingest
  imports Document "HOL-Library.Multiset"
begin

text \<open>
  \<open>internal/collect/collect.go\<close>: the sink that hands records to a pool of workers over a bounded queue, what a worker
  does to persist one, and the runner that keeps a source's cursor. The goroutines are a step relation: each step is one
  critical section, channel operation or database call, and the database answers each call as it likes. A digest stands
  for the SHA-256 of a raw document. Logs, the enrichment sync and the ranking of vendors behind a run are left out.
\<close>

section \<open>The sink\<close>

record sink_config =
  sc_Workers :: int
  sc_QueueDepth :: int
  sc_SkipUnchanged :: bool

definition sink_workers :: "sink_config \<Rightarrow> nat" where
  "sink_workers cfg = (if sc_Workers cfg \<le> 0 then 8 else nat (sc_Workers cfg))"

definition sink_depth :: "sink_config \<Rightarrow> nat" where
  "sink_depth cfg = (if sc_QueueDepth cfg \<le> 0 then 2048 else nat (sc_QueueDepth cfg))"

definition persistAttempts :: nat where
  "persistAttempts = 4"

text \<open>Where a worker is in \<open>persist\<close>: before the comparison of hashes, before an attempt to merge, before \<open>SaveRaw\<close>.\<close>

datatype phase = Comparing | Merging nat | Saving

datatype outcome = Unchanged | Written | Persist_Failed

type_synonym 't job = "phase \<times> 't Fetched"

record 't sink =
  sk_closed :: bool
  sk_started :: bool
  sk_queueClosed :: bool
  sk_inflight :: nat
  sk_senders :: "'t Fetched list"
  sk_queue :: "'t Fetched list"
  sk_working :: "'t job list"
  sk_finished :: "('t Fetched \<times> outcome) list"
  sk_withdrawn :: "'t Fetched list"
  sk_Failed :: nat

text \<open>The two tables it writes: the hash of the last raw document, and every record whose merge was committed.\<close>

record 't disk =
  dk_raw :: "string \<times> string \<rightharpoonup> string"
  dk_merged :: "'t Fetched list"

definition raw_key :: "'t Fetched \<Rightarrow> string \<times> string" where
  "raw_key v = (v_Source v, v_SourceRecordID v)"

definition RawChanged :: "(string \<Rightarrow> string) \<Rightarrow> 't disk \<Rightarrow> 't Fetched \<Rightarrow> bool" where
  "RawChanged digest d v \<longleftrightarrow> dk_raw d (raw_key v) \<noteq> Some (digest (v_Raw v))"

definition SaveRaw :: "(string \<Rightarrow> string) \<Rightarrow> 't Fetched \<Rightarrow> 't disk \<Rightarrow> 't disk" where
  "SaveRaw digest v d = d\<lparr>dk_raw := (dk_raw d)(raw_key v \<mapsto> digest (v_Raw v))\<rparr>"

definition new_sink :: "'t sink" where
  "new_sink = \<lparr>sk_closed = False, sk_started = False, sk_queueClosed = False, sk_inflight = 0, sk_senders = [], sk_queue = [],
     sk_working = [], sk_finished = [], sk_withdrawn = [], sk_Failed = 0\<rparr>"

text \<open>A worker puts a record down: \<open>inflight.Done\<close> after \<open>persist\<close> returned.\<close>

definition put_down :: "'t Fetched \<Rightarrow> outcome \<Rightarrow> 't job list \<Rightarrow> 't sink \<Rightarrow> 't sink" where
  "put_down v out rest s =
     s\<lparr>sk_working := rest, sk_finished := sk_finished s @ [(v, out)], sk_inflight := sk_inflight s - 1,
       sk_Failed := sk_Failed s + (if out = Persist_Failed then 1 else 0)\<rparr>"

inductive sink_step :: "(string \<Rightarrow> string) \<Rightarrow> sink_config \<Rightarrow> 't sink \<times> 't disk \<Rightarrow> 't sink \<times> 't disk \<Rightarrow> bool"
  for digest :: "string \<Rightarrow> string" and cfg :: sink_config where
  accept: "\<not> sk_closed s \<Longrightarrow>
    sink_step digest cfg (s, d) (s\<lparr>sk_started := True, sk_inflight := sk_inflight s + 1, sk_senders := sk_senders s @ [v]\<rparr>, d)"
| send: "sk_senders s = xs @ v # ys \<Longrightarrow> \<not> sk_queueClosed s \<Longrightarrow> length (sk_queue s) < sink_depth cfg \<Longrightarrow>
    sink_step digest cfg (s, d) (s\<lparr>sk_senders := xs @ ys, sk_queue := sk_queue s @ [v]\<rparr>, d)"
| give_up: "sk_senders s = xs @ v # ys \<Longrightarrow>
    sink_step digest cfg (s, d)
      (s\<lparr>sk_senders := xs @ ys, sk_withdrawn := sk_withdrawn s @ [v], sk_inflight := sk_inflight s - 1\<rparr>, d)"
| take: "sk_queue s = v # q \<Longrightarrow> length (sk_working s) < sink_workers cfg \<Longrightarrow>
    sink_step digest cfg (s, d) (s\<lparr>sk_queue := q, sk_working := sk_working s @ [(Comparing, v)]\<rparr>, d)"
| compare_fails: "sk_working s = xs @ (Comparing, v) # ys \<Longrightarrow> v_Raw v \<noteq> [] \<Longrightarrow> sc_SkipUnchanged cfg \<Longrightarrow>
    sink_step digest cfg (s, d) (put_down v Persist_Failed (xs @ ys) s, d)"
| compare_same: "sk_working s = xs @ (Comparing, v) # ys \<Longrightarrow> v_Raw v \<noteq> [] \<Longrightarrow> sc_SkipUnchanged cfg \<Longrightarrow> \<not> RawChanged digest d v \<Longrightarrow>
    sink_step digest cfg (s, d) (put_down v Unchanged (xs @ ys) s, d)"
| compare_goes: "sk_working s = xs @ (Comparing, v) # ys \<Longrightarrow> v_Raw v = [] \<or> \<not> sc_SkipUnchanged cfg \<or> RawChanged digest d v \<Longrightarrow>
    sink_step digest cfg (s, d) (s\<lparr>sk_working := xs @ (Merging 1, v) # ys\<rparr>, d)"
| merge_locked: "sk_working s = xs @ (Merging n, v) # ys \<Longrightarrow> n < persistAttempts \<Longrightarrow>
    sink_step digest cfg (s, d) (s\<lparr>sk_working := xs @ (Merging (n + 1), v) # ys\<rparr>, d)"
| merge_fails: "sk_working s = xs @ (Merging n, v) # ys \<Longrightarrow>
    sink_step digest cfg (s, d) (put_down v Persist_Failed (xs @ ys) s, d)"
| merge_commits: "sk_working s = xs @ (Merging n, v) # ys \<Longrightarrow> v_Raw v \<noteq> [] \<Longrightarrow>
    sink_step digest cfg (s, d) (s\<lparr>sk_working := xs @ (Saving, v) # ys\<rparr>, d\<lparr>dk_merged := dk_merged d @ [v]\<rparr>)"
| merge_commits_bare: "sk_working s = xs @ (Merging n, v) # ys \<Longrightarrow> v_Raw v = [] \<Longrightarrow>
    sink_step digest cfg (s, d) (put_down v Written (xs @ ys) s, d\<lparr>dk_merged := dk_merged d @ [v]\<rparr>)"
| save: "sk_working s = xs @ (Saving, v) # ys \<Longrightarrow>
    sink_step digest cfg (s, d) (put_down v Written (xs @ ys) s, SaveRaw digest v d)"
| save_fails: "sk_working s = xs @ (Saving, v) # ys \<Longrightarrow>
    sink_step digest cfg (s, d) (put_down v Written (xs @ ys) s, d)"
| close_flag: "\<not> sk_closed s \<Longrightarrow> sink_step digest cfg (s, d) (s\<lparr>sk_closed := True\<rparr>, d)"
| close_queue: "sk_closed s \<Longrightarrow> sk_started s \<Longrightarrow> sk_inflight s = 0 \<Longrightarrow>
    sink_step digest cfg (s, d) (s\<lparr>sk_queueClosed := True\<rparr>, d)"

inductive sink_run :: "(string \<Rightarrow> string) \<Rightarrow> sink_config \<Rightarrow> 't sink \<times> 't disk \<Rightarrow> 't sink \<times> 't disk \<Rightarrow> bool"
  for digest :: "string \<Rightarrow> string" and cfg :: sink_config where
  rest: "sink_run digest cfg c c"
| more: "sink_run digest cfg c c' \<Longrightarrow> sink_step digest cfg c' c'' \<Longrightarrow> sink_run digest cfg c c''"

text \<open>What the sink was handed and did not hand back: waiting, queued, in a worker's hands or finished.\<close>

definition held :: "'t sink \<Rightarrow> 't Fetched multiset" where
  "held s = mset (sk_senders s) + mset (sk_queue s) + mset (map snd (sk_working s)) + mset (map fst (sk_finished s))"

text \<open>\<open>Drain\<close> returns when nothing is in flight.\<close>

definition drained :: "'t sink \<Rightarrow> bool" where
  "drained s \<longleftrightarrow> sk_started s \<longrightarrow> sk_inflight s = 0"

text \<open>A record the disk accounts for: it, or one of its key with the same raw document, was merged.\<close>

definition covered :: "(string \<Rightarrow> string) \<Rightarrow> 't disk \<Rightarrow> 't Fetched \<Rightarrow> bool" where
  "covered digest d v \<longleftrightarrow> v \<in> set (dk_merged d) \<or>
     (\<exists>w \<in> set (dk_merged d). raw_key w = raw_key v \<and> digest (v_Raw w) = digest (v_Raw v))"

section \<open>Timestamps and the runner\<close>

text \<open>\<open>limit\<close> is a day past the fetch.\<close>

definition dropFutureTimestamps :: "'t::linorder \<Rightarrow> 't Fetched \<Rightarrow> 't Fetched" where
  "dropFutureTimestamps limit v =
     (let keep = (\<lambda>tm. case tm of Some t \<Rightarrow> if t > limit then None else Some t | None \<Rightarrow> None) in
      v\<lparr>v_Modified := keep (v_Modified v), v_Published := keep (v_Published v), v_Withdrawn := keep (v_Withdrawn v)\<rparr>)"

text \<open>What \<open>Emit\<close> hands to the sink.\<close>

definition Emit :: "'t::linorder \<Rightarrow> 't Fetched \<Rightarrow> 't Fetched option" where
  "Emit limit v = (if v_ID v = [] then None else Some (dropFutureTimestamps limit v))"

type_synonym cursor = "string \<rightharpoonup> string"

definition vlClearResume :: "cursor \<Rightarrow> cursor" where
  "vlClearResume c = c(''vl_since'' := None, ''vl_page'' := None, ''vl_started'' := None)"

text \<open>\<open>is_time\<close> is what \<open>time.Parse\<close> accepts under RFC 3339, \<open>stamp\<close> the text of the instant.\<close>

definition replayCursor :: "(string \<Rightarrow> bool) \<Rightarrow> string \<Rightarrow> cursor \<Rightarrow> cursor" where
  "replayCursor is_time stamp c =
     vlClearResume ((\<lambda>k. if has_prefix k ''etag'' then None
        else (case c k of Some v \<Rightarrow> Some (if is_time v then stamp else v) | None \<Rightarrow> None))(''catalog_version'' := None))"

text \<open>
  \<open>RunOne\<close>: the stored text decodes to a cursor or the run starts clean; \<open>collector\<close> is what the adapter leaves in the
  cursor and its error, \<open>lost\<close> the records that failed between the start of the run and the end of \<open>Drain\<close>.
\<close>

definition start_cursor :: "(string \<Rightarrow> bool) \<Rightarrow> cursor option \<Rightarrow> string option \<Rightarrow> cursor" where
  "start_cursor is_time stored replay =
     (let c = (case stored of Some c \<Rightarrow> c | None \<Rightarrow> Map.empty) in
      case replay of Some stamp \<Rightarrow> replayCursor is_time stamp c | None \<Rightarrow> c)"

definition RunOne :: "cursor \<Rightarrow> (cursor \<Rightarrow> cursor \<times> string option) \<Rightarrow> nat \<Rightarrow> nat \<Rightarrow> cursor \<times> bool" where
  "RunOne start collector failedBefore failedAfter =
     (let (c, err) = collector start; persistenceFailures = int failedAfter - int failedBefore in
      (if persistenceFailures > 0 then start else c, err \<noteq> None \<or> persistenceFailures > 0))"

text \<open>\<open>RunAll\<close>: every source in turn, whatever became of the one before.\<close>

fun RunAll :: "(string \<Rightarrow> 's \<Rightarrow> 's \<times> string option) \<Rightarrow> string list \<Rightarrow> 's \<Rightarrow> 's \<times> (string \<times> string) list" where
  "RunAll run [] s = (s, [])"
| "RunAll run (n # ns) s =
     (let (s', e) = run n s; (s'', es) = RunAll run ns s' in
      (s'', (case e of None \<Rightarrow> es | Some m \<Rightarrow> (n, m) # es)))"

end
