(* ===== verification/Eu_Feeds.thy ===== *)
theory Eu_Feeds
  imports Csaf Cve5 Ingest
begin

text \<open>
  The EUVD and GCVE collectors of \<open>internal/collect/eu_sources.go\<close> on what their JSON decodes to: the conversion of a record,
  the paging of a window and the state a walk is resumed from. The network and the \<open>time\<close> package are arguments.
\<close>

section \<open>EUVD\<close>

record euvdProduct =
  ep_Name :: string
  ep_Vendor :: string
  ep_Version :: string

record euvdItem =
  eu_ID :: string
  eu_Description :: string
  eu_DatePublished :: string
  eu_DateUpdated :: string
  eu_BaseScore :: rat
  eu_BaseScoreVersion :: string
  eu_BaseScoreVector :: string
  eu_References :: string
  eu_Aliases :: string
  eu_Assigner :: string
  eu_ExploitedSince :: string
  eu_Products :: "euvdProduct list"
  eu_Vendors :: "string list"

record 't KEV =
  kv_CVEID :: string
  kv_DateAdded :: "'t option"
  kv_Sources :: "string list"
  kv_Source :: string

definition splitLines :: "string \<Rightarrow> string list" where
  "splitLines s = filter (\<lambda>p. p \<noteq> []) (map trim_space (split CHR 0x0A s))"

definition euvd_severity :: "euvdItem \<Rightarrow> Severity list" where
  "euvd_severity item =
     (if eu_BaseScoreVector item \<noteq> [] \<or> eu_BaseScore item > 0 then
        (let typ0 = CVSSTypeFromVector (eu_BaseScoreVector item); ver = eu_BaseScoreVersion item;
             typ = (if typ0 = ''OTHER'' then
                      (if ver = ''4.0'' then ''CVSS_V4_0'' else if ver = ''3.1'' then ''CVSS_V3_1''
                       else if ver = ''3.0'' then ''CVSS_V3_0'' else if ver = ''2.0'' then ''CVSS_V2'' else typ0)
                    else typ0) in
         [\<lparr>sv_Type = typ, sv_Score = eu_BaseScore item, sv_Vector = eu_BaseScoreVector item,
           sv_Rating = (if eu_BaseScore item > 0 then RatingFromScore (eu_BaseScore item) else []),
           sv_Provider = ''enisa'', sv_Source = ''euvd''\<rparr>])
      else [])"

definition euvd_row :: "string \<Rightarrow> euvdProduct \<Rightarrow> AffectedRow" where
  "euvd_row fallbackVendor p =
     no_row\<lparr>af_Vendor := (if ep_Vendor p \<noteq> [] then ep_Vendor p else fallbackVendor), af_Product := ep_Name p, af_Source := ''euvd'',
       af_Versions := (if ep_Version p \<noteq> [] then [ep_Version p] else [])\<rparr>"

definition euvd_toModel :: "(string \<Rightarrow> string \<Rightarrow> 't option) \<Rightarrow> euvdItem option \<Rightarrow> ('t Vulnerability \<times> 't KEV option) option" where
  "euvd_toModel time_parse decoded =
     (case decoded of
        None \<Rightarrow> None
      | Some item \<Rightarrow>
          (let vid = NormalizeID (eu_ID item); aliases = DedupeStrings (splitLines (eu_Aliases item)) in
           if vid = [] then None
           else
             Some (no_vulnerability\<lparr>v_ID := vid, v_Description := eu_Description item, v_State := ''PUBLISHED'',
                     v_Published := ParseTime time_parse (eu_DatePublished item),
                     v_Modified := ParseTime time_parse (eu_DateUpdated item), v_AssignerShortName := eu_Assigner item,
                     v_Source := ''euvd'', v_SourceRecordID := vid, v_Aliases := aliases,
                     v_References := map (\<lambda>u. \<lparr>rf_URL = u, rf_Name = [], rf_Tags = [], rf_Source = ''euvd''\<rparr>) (splitLines (eu_References item)),
                     v_Severities := euvd_severity item,
                     v_Affected := map (euvd_row (case eu_Vendors item of [] \<Rightarrow> [] | n # _ \<Rightarrow> n)) (eu_Products item)\<rparr>,
                   if trim_space (eu_ExploitedSince item) \<noteq> [] then
                     Some \<lparr>kv_CVEID = (case List.find IsCVE aliases of Some a \<Rightarrow> a | None \<Rightarrow> vid),
                       kv_DateAdded = ParseTime time_parse (eu_ExploitedSince item), kv_Sources = [''eu_exploited''], kv_Source = ''euvd''\<rparr>
                   else None)))"

record euvdPage =
  pg_Items :: "euvdItem option list"
  pg_Total :: int

definition euvdPageSize :: int where
  "euvdPageSize = 100"

datatype search_error = SearchFailed nat | CutShort nat | TooManyPages

definition page_records :: "(string \<Rightarrow> string \<Rightarrow> 't option) \<Rightarrow> euvdPage \<Rightarrow> ('t Vulnerability \<times> 't KEV option) list" where
  "page_records time_parse p = List.map_filter (euvd_toModel time_parse) (pg_Items p)"

text \<open>The walk over the pages of a window, with the records read so far; the bound of the code on pages ends it.\<close>

function searchWindow ::
  "(string \<Rightarrow> string \<Rightarrow> 't option) \<Rightarrow> (nat \<Rightarrow> euvdPage option) \<Rightarrow> nat \<Rightarrow> ('t Vulnerability \<times> 't KEV option) list
    \<Rightarrow> search_error + ('t Vulnerability \<times> 't KEV option) list" where
  "searchWindow time_parse fetch page got =
     (case fetch page of
        None \<Rightarrow> Inl (SearchFailed page)
      | Some resp \<Rightarrow>
          if pg_Items resp = [] then
            (if pg_Total resp > 0 \<and> int (length got) < pg_Total resp then Inl (CutShort page) else Inr got)
          else if int (page + 1) * euvdPageSize \<ge> pg_Total resp then Inr (got @ page_records time_parse resp)
          else if page + 1 > 20000 then Inl TooManyPages
          else searchWindow time_parse fetch (page + 1) (got @ page_records time_parse resp))"
  by pat_completeness auto
termination by (relation "measure (\<lambda>(_, _, page, _). 20001 - page)") auto

declare searchWindow.simps [simp del]

section \<open>GCVE\<close>

record gcveProbe =
  gp_ID :: string
  gp_GCVEID :: string
  gp_Aliases :: "string list"
  gp_Title :: string
  gp_Summary :: string
  gp_Description :: string
  gp_Published :: string
  gp_Modified :: string

definition probeGeneric :: "(string \<Rightarrow> string \<Rightarrow> 't option) \<Rightarrow> gcveProbe option \<Rightarrow> 't Vulnerability option" where
  "probeGeneric time_parse decoded =
     (case decoded of
        None \<Rightarrow> None
      | Some probe \<Rightarrow>
          (let vid = NormalizeID (if gp_GCVEID probe = [] then gp_ID probe else gp_GCVEID probe) in
           if vid = [] then None
           else Some (no_vulnerability\<lparr>v_ID := vid, v_Title := firstNonEmpty [gp_Title probe, gp_Summary probe],
                  v_Description := firstNonEmpty [gp_Description probe, gp_Summary probe], v_State := ''PUBLISHED'',
                  v_Published := ParseTime time_parse (gp_Published probe), v_Modified := ParseTime time_parse (gp_Modified probe),
                  v_Aliases := gp_Aliases probe, v_Source := ''gcve'', v_SourceRecordID := vid\<rparr>)))"

definition withGCVEAlias :: "'t Vulnerability \<Rightarrow> 't Vulnerability" where
  "withGCVEAlias v =
     v\<lparr>v_Source := ''gcve'',
       v_Aliases := DedupeStrings (v_Aliases v @
         (if has_prefix (to_upper (v_ID v)) ''GCVE-0-'' then [''CVE-'' @ trim_prefix (to_upper (v_ID v)) ''GCVE-0-''] else []))\<rparr>"

text \<open>What a raw record decodes to under each of the schemas that are tried.\<close>

record gcveRaw =
  gr_shape :: "(bool \<times> bool \<times> bool \<times> string) option"
  gr_cve5 :: "string + CVE5"
  gr_csaf :: "csafDocument option"
  gr_osv :: "string + OSV"
  gr_probe :: "gcveProbe option"

definition gcve_toModel ::
  "(string \<Rightarrow> string \<Rightarrow> 't option) \<Rightarrow> (string \<Rightarrow> rat option) \<Rightarrow> (nat \<Rightarrow> Status list) \<Rightarrow> gcveRaw \<Rightarrow> 't Vulnerability option" where
  "gcve_toModel time_parse parse_float orders raw =
     (case gr_shape raw of
        None \<Rightarrow> None
      | Some (has_cveMetadata, has_document, has_affected, sid) \<Rightarrow>
          (let generic = map_option withGCVEAlias (probeGeneric time_parse (gr_probe raw)) in
           if has_cveMetadata then
             (case CVE5ToModel time_parse (gr_cve5 raw) ''gcve'' of Inr v \<Rightarrow> Some (withGCVEAlias v) | Inl _ \<Rightarrow> generic)
           else if has_document then
             (case parseCSAF time_parse orders (gr_csaf raw) ''gcve'' [] of v # _ \<Rightarrow> Some (withGCVEAlias v) | [] \<Rightarrow> None)
           else if sid \<noteq> [] \<and> has_affected then
             (case OSVToModel time_parse parse_float (gr_osv raw) ''gcve'' of Inr v \<Rightarrow> Some (withGCVEAlias v) | Inl _ \<Rightarrow> generic)
           else generic))"

definition gnaIndex :: "(int \<times> string \<times> string) list \<Rightarrow> string \<rightharpoonup> string" where
  "gnaIndex gnas = fold (\<lambda>(i, short, full) m. m(Itoa i \<mapsto> (if short = [] then full else short))) gnas Map.empty"

section \<open>Resuming a walk\<close>

text \<open>
  \<open>date_text\<close> and \<open>stamp_text\<close> are the formats \<open>2006-01-02\<close> and RFC 3339, the parsers their readings.
\<close>

definition cursorTime :: "(string \<Rightarrow> 't option) \<Rightarrow> cursor \<Rightarrow> string \<Rightarrow> 't option" where
  "cursorTime stamp_parse c key = (case c key of None \<Rightarrow> None | Some raw \<Rightarrow> if raw = [] then None else stamp_parse raw)"

definition setCursorTime :: "('t \<Rightarrow> string) \<Rightarrow> cursor \<Rightarrow> string \<Rightarrow> 't \<Rightarrow> cursor" where
  "setCursorTime stamp_text c key t = c(key \<mapsto> stamp_text t)"

definition vlSetResume :: "('t \<Rightarrow> string) \<Rightarrow> ('t \<Rightarrow> string) \<Rightarrow> cursor \<Rightarrow> 't \<Rightarrow> nat \<Rightarrow> 't \<Rightarrow> cursor" where
  "vlSetResume date_text stamp_text c since page walkStart =
     setCursorTime stamp_text (c(''vl_since'' \<mapsto> date_text since, ''vl_page'' \<mapsto> Itoa (int page))) ''vl_started'' walkStart"

definition vlResume :: "(string \<Rightarrow> 't option) \<Rightarrow> (string \<Rightarrow> 't option) \<Rightarrow> cursor \<Rightarrow> ('t \<times> nat \<times> 't) option" where
  "vlResume date_parse stamp_parse c =
     (case date_parse (or_empty (c ''vl_since'')) of
        None \<Rightarrow> None
      | Some s \<Rightarrow>
          (case Atoi (or_empty (c ''vl_page'')) of
             None \<Rightarrow> None
           | Some p \<Rightarrow> if p < 1 then None else (case cursorTime stamp_parse c ''vl_started'' of None \<Rightarrow> None | Some w \<Rightarrow> Some (s, nat p, w))))"

definition vlPageSize :: nat where
  "vlPageSize = 25"

definition vlMaxPages :: nat where
  "vlMaxPages = 40"

datatype walk_end = Complete | PageFailed | Ceiling

text \<open>The loop over pages: \<open>fetch\<close> gives how many records of a page were read and whether reading it failed.\<close>

fun vl_walk :: "(nat \<Rightarrow> nat \<times> bool) \<Rightarrow> nat \<Rightarrow> nat \<Rightarrow> nat \<times> walk_end" where
  "vl_walk fetch 0 page = (page, Ceiling)"
| "vl_walk fetch (Suc reads) page =
     (case fetch page of (n_read, failed) \<Rightarrow>
        if failed then (page, PageFailed) else if n_read < vlPageSize then (page, Complete) else vl_walk fetch reads (page + 1))"

text \<open>\<open>Run\<close> from the choice of the window on; \<open>dflt\<close> is three months back. The registry's two entries
  of the cursor are left out.\<close>

definition vl_run ::
  "('t \<Rightarrow> string) \<Rightarrow> ('t \<Rightarrow> string) \<Rightarrow> (string \<Rightarrow> 't option) \<Rightarrow> (string \<Rightarrow> 't option) \<Rightarrow> bool \<Rightarrow> 't \<Rightarrow> 't \<Rightarrow> (nat \<Rightarrow> nat \<times> bool)
    \<Rightarrow> cursor \<Rightarrow> cursor \<times> bool" where
  "vl_run date_text stamp_text date_parse stamp_parse backfill startedAt dflt fetch c =
     (let since0 = (case cursorTime stamp_parse c ''last_run'' of None \<Rightarrow> dflt | Some t \<Rightarrow> if backfill then dflt else t);
          (since, page, walkStart) =
            (if backfill then (since0, 1, startedAt)
             else (case vlResume date_parse stamp_parse c of Some r \<Rightarrow> r | None \<Rightarrow> (since0, 1, startedAt)));
          c1 = vlSetResume date_text stamp_text c since page walkStart;
          (stop, ending) = vl_walk fetch vlMaxPages page;
          c2 = c1(''vl_page'' \<mapsto> Itoa (int stop)) in
      if ending = Complete then (setCursorTime stamp_text (vlClearResume c2) ''last_run'' walkStart, False)
      else (c2, ending = PageFailed))"

section \<open>What a walk covers\<close>

text \<open>A window that is read without an error was read to its end.\<close>

definition page_got :: "(string \<Rightarrow> string \<Rightarrow> 't option) \<Rightarrow> (nat \<Rightarrow> euvdPage option) \<Rightarrow> nat \<Rightarrow> ('t Vulnerability \<times> 't KEV option) list" where
  "page_got time_parse fetch n = (case fetch n of None \<Rightarrow> [] | Some p \<Rightarrow> page_records time_parse p)"

lemma searchWindow_reads:
  assumes "searchWindow tp fetch page got = Inr all"
  shows "\<exists>n \<ge> page. all = got @ concat (map (page_got tp fetch) [page..<n]) \<and> (\<forall>i \<in> {page..<n}. fetch i \<noteq> None)
    \<and> ((\<exists>p. fetch n = Some p \<and> pg_Items p = [] \<and> (pg_Total p \<le> 0 \<or> pg_Total p \<le> int (length all)))
      \<or> (\<exists>p. n > page \<and> fetch (n - 1) = Some p \<and> pg_Total p \<le> int n * euvdPageSize))"
  using assms
proof (induction tp fetch page got rule: searchWindow.induct)
  case (1 tp fetch page got)
  obtain resp where r: "fetch page = Some resp"
    using "1.prems" by (subst (asm) searchWindow.simps) (auto split: option.splits)
  show ?case
  proof (cases "pg_Items resp = []")
    case True
    then have "got = all" "\<not> (pg_Total resp > 0 \<and> int (length got) < pg_Total resp)"
      using "1.prems" r by (subst (asm) searchWindow.simps, auto split: if_splits)+
    then show ?thesis using r True by (intro exI [of _ page]) auto
  next
    case False
    show ?thesis
    proof (cases "int (page + 1) * euvdPageSize \<ge> pg_Total resp")
      case True
      then have "all = got @ page_records tp resp" using "1.prems" r False by (subst (asm) searchWindow.simps) simp
      then show ?thesis using r True by (intro exI [of _ "page + 1"]) (simp add: page_got_def)
    next
      case more: False
      have fewer: "\<not> page + 1 > 20000" using "1.prems" r False more by (subst (asm) searchWindow.simps) (auto split: if_splits)
      then have "searchWindow tp fetch (page + 1) (got @ page_records tp resp) = Inr all"
        using "1.prems" r False more by (subst (asm) searchWindow.simps) simp
      then obtain n where n: "n \<ge> page + 1" "all = (got @ page_records tp resp) @ concat (map (page_got tp fetch) [page + 1..<n])"
        "\<forall>i \<in> {page + 1..<n}. fetch i \<noteq> None"
        "(\<exists>p. fetch n = Some p \<and> pg_Items p = [] \<and> (pg_Total p \<le> 0 \<or> pg_Total p \<le> int (length all)))
         \<or> (\<exists>p. n > page + 1 \<and> fetch (n - 1) = Some p \<and> pg_Total p \<le> int n * euvdPageSize)"
        using "1.IH" [OF r False more fewer] by blast
      have "[page..<n] = page # [page + 1..<n]" using n(1) by (simp add: upt_conv_Cons)
      moreover have "fetch i \<noteq> None" if "i \<in> {page..<n}" for i using that n(3) r by (cases "i = page") auto
      moreover have "page_got tp fetch page = page_records tp resp" by (simp add: page_got_def r)
      ultimately show ?thesis using n by (intro exI [of _ n]) auto
    qed
  qed
qed

lemma vl_walk_reads:
  "vl_walk fetch reads page = (stop, ending) \<Longrightarrow>
    page \<le> stop \<and> stop \<le> page + reads \<and> (\<forall>i \<in> {page..<stop}. vlPageSize \<le> fst (fetch i) \<and> \<not> snd (fetch i))
    \<and> (ending = Complete \<longrightarrow> fst (fetch stop) < vlPageSize \<and> \<not> snd (fetch stop)) \<and> (ending = Ceiling \<longrightarrow> stop = page + reads)"
proof (induction reads arbitrary: page)
  case (Suc reads)
  obtain n failed where f: "fetch page = (n, failed)" by (cases "fetch page")
  show ?case
  proof (cases "failed \<or> n < vlPageSize")
    case True
    then show ?thesis using Suc.prems f by (auto split: if_splits)
  next
    case False
    then have "vl_walk fetch reads (page + 1) = (stop, ending)" using Suc.prems f by simp
    then have ih: "page + 1 \<le> stop \<and> stop \<le> page + 1 + reads \<and> (\<forall>i \<in> {page + 1..<stop}. vlPageSize \<le> fst (fetch i) \<and> \<not> snd (fetch i))
      \<and> (ending = Complete \<longrightarrow> fst (fetch stop) < vlPageSize \<and> \<not> snd (fetch stop)) \<and> (ending = Ceiling \<longrightarrow> stop = page + 1 + reads)"
      by (rule Suc.IH)
    have "vlPageSize \<le> fst (fetch i) \<and> \<not> snd (fetch i)" if "i \<in> {page..<stop}" for i
      using that ih f False by (cases "i = page") auto
    then show ?thesis using ih by auto
  qed
qed simp

lemma resume_set:
  assumes "\<And>t. stamp_parse (stamp_text t) = Some t" "\<And>t. stamp_text t \<noteq> []" "date_parse (date_text since) = Some day" "1 \<le> page" "int page < 2 ^ 63"
  shows "vlResume date_parse stamp_parse ((vlSetResume date_text stamp_text c since p walkStart)(''vl_page'' \<mapsto> Itoa (int page))) = Some (day, page, walkStart)"
  using assms Atoi_Itoa [of "int page"] by (simp add: vlResume_def vlSetResume_def setCursorTime_def cursorTime_def or_empty_def)

end
