(* ===== verification/Ingest_Laws.thy ===== *)
theory Ingest_Laws
  imports Ingest
begin

text \<open>
  Laws of Ingest: the counter of the sink counts what is in flight, so a closed queue is never sent to; the hash of a raw
  document is stored only behind a committed merge, so a record that is skipped as unchanged was merged; and a cursor
  moves only when every record handed over since the start of the run is accounted for.
\<close>

section \<open>The counter\<close>

definition sink_inv :: "sink_config \<Rightarrow> 't sink \<Rightarrow> bool" where
  "sink_inv cfg s \<longleftrightarrow> sk_inflight s = length (sk_senders s) + length (sk_queue s) + length (sk_working s)
     \<and> (sk_queueClosed s \<longrightarrow> sk_closed s \<and> sk_inflight s = 0) \<and> length (sk_working s) \<le> sink_workers cfg
     \<and> length (sk_queue s) \<le> sink_depth cfg \<and> (\<not> sk_started s \<longrightarrow> sk_inflight s = 0)"

lemma sink_step_inv:
  assumes "sink_step digest cfg c c'" "sink_inv cfg (fst c)"
  shows "sink_inv cfg (fst c')"
  using assms by (induction rule: sink_step.induct) (auto simp: sink_inv_def put_down_def)

section \<open>The disk\<close>

definition raw_ok :: "(string \<Rightarrow> string) \<Rightarrow> 't disk \<Rightarrow> bool" where
  "raw_ok digest d \<longleftrightarrow> (\<forall>k h. dk_raw d k = Some h \<longrightarrow> (\<exists>w \<in> set (dk_merged d). raw_key w = k \<and> digest (v_Raw w) = h))"

definition jobs_ok :: "(string \<Rightarrow> string) \<Rightarrow> 't sink \<Rightarrow> 't disk \<Rightarrow> bool" where
  "jobs_ok digest s d \<longleftrightarrow> raw_ok digest d \<and> (\<forall>v. (Saving, v) \<in> set (sk_working s) \<longrightarrow> v \<in> set (dk_merged d))
     \<and> (\<forall>v out. (v, out) \<in> set (sk_finished s) \<longrightarrow> out \<noteq> Persist_Failed \<longrightarrow> covered digest d v)"

lemma covered_mono: "set (dk_merged d) \<subseteq> set (dk_merged d') \<Longrightarrow> covered digest d v \<Longrightarrow> covered digest d' v"
  unfolding covered_def by blast

lemma covered_same: "raw_ok digest d \<Longrightarrow> \<not> RawChanged digest d v \<Longrightarrow> covered digest d v"
  unfolding raw_ok_def RawChanged_def covered_def by blast

lemma covered_merged: "v \<in> set (dk_merged d) \<Longrightarrow> covered digest d v"
  by (simp add: covered_def)

lemma jobs_mono:
  assumes "jobs_ok digest s d" "dk_raw d' = dk_raw d" "set (dk_merged d) \<subseteq> set (dk_merged d')"
  shows "jobs_ok digest s d'"
proof -
  have "raw_ok digest d'" using assms(1,3) unfolding jobs_ok_def raw_ok_def assms(2) by blast
  moreover have "v \<in> set (dk_merged d')" if "(Saving, v) \<in> set (sk_working s)" for v using assms(1,3) that unfolding jobs_ok_def by blast
  moreover have "covered digest d' v" if "(v, out) \<in> set (sk_finished s)" "out \<noteq> Persist_Failed" for v out
    using assms(1) that covered_mono [OF assms(3)] unfolding jobs_ok_def by blast
  ultimately show ?thesis unfolding jobs_ok_def by blast
qed

lemma jobs_save:
  assumes "jobs_ok digest s d" "v \<in> set (dk_merged d)"
  shows "jobs_ok digest s (SaveRaw digest v d)"
  using assms by (auto simp: jobs_ok_def raw_ok_def SaveRaw_def covered_def split: if_splits)

lemma jobs_put_down:
  assumes "jobs_ok digest s d" "sk_working s = xs @ j # ys" "out \<noteq> Persist_Failed \<Longrightarrow> covered digest d v"
  shows "jobs_ok digest (put_down v out (xs @ ys) s) d"
  using assms by (auto simp: jobs_ok_def put_down_def)

lemma jobs_working:
  assumes "jobs_ok digest s d" "\<And>v. (Saving, v) \<in> set (sk_working s') \<Longrightarrow> (Saving, v) \<in> set (sk_working s) \<or> v \<in> set (dk_merged d)"
    "sk_finished s' = sk_finished s"
  shows "jobs_ok digest s' d"
  using assms by (auto simp: jobs_ok_def)

lemma sink_step_jobs:
  assumes "sink_step digest cfg c c'" "jobs_ok digest (fst c) (snd c)"
  shows "jobs_ok digest (fst c') (snd c')"
  using assms
proof (induction rule: sink_step.induct)
  case (compare_same s xs v ys d)
  have "raw_ok digest d" using compare_same.prems by (simp add: jobs_ok_def)
  then have c: "covered digest d v" using compare_same.hyps(4) by (rule covered_same)
  show ?case unfolding fst_conv snd_conv by (rule jobs_put_down [OF _ compare_same.hyps(1)]) (use compare_same.prems c in simp_all)
next
  case (compare_fails s xs v ys d)
  show ?case unfolding fst_conv snd_conv by (rule jobs_put_down [OF _ compare_fails.hyps(1)]) (use compare_fails.prems in simp_all)
next
  case (merge_fails s xs n v ys d)
  show ?case unfolding fst_conv snd_conv by (rule jobs_put_down [OF _ merge_fails.hyps(1)]) (use merge_fails.prems in simp_all)
next
  case (merge_commits s xs n v ys d)
  have "jobs_ok digest s (d\<lparr>dk_merged := dk_merged d @ [v]\<rparr>)" by (rule jobs_mono) (use merge_commits.prems in auto)
  then show ?case unfolding fst_conv snd_conv by (rule jobs_working) (use merge_commits.hyps in auto)
next
  case (merge_commits_bare s xs n v ys d)
  have "jobs_ok digest s (d\<lparr>dk_merged := dk_merged d @ [v]\<rparr>)" by (rule jobs_mono) (use merge_commits_bare.prems in auto)
  then show ?case
    unfolding fst_conv snd_conv by (rule jobs_put_down [OF _ merge_commits_bare.hyps(1)]) (simp add: covered_merged)
next
  case (save s xs v ys d)
  then have m: "v \<in> set (dk_merged d)" by (auto simp: jobs_ok_def)
  have "jobs_ok digest s (SaveRaw digest v d)" using jobs_save m save.prems by simp
  moreover have "covered digest (SaveRaw digest v d) v" using m by (simp add: covered_def SaveRaw_def)
  ultimately show ?case unfolding fst_conv snd_conv by (rule jobs_put_down [OF _ save.hyps])
next
  case (save_fails s xs v ys d)
  then have "v \<in> set (dk_merged d)" by (auto simp: jobs_ok_def)
  then show ?case
    unfolding fst_conv snd_conv by (intro jobs_put_down [OF _ save_fails.hyps]) (use save_fails.prems in \<open>simp_all add: covered_merged\<close>)
qed (auto intro: jobs_working)

section \<open>What a run leaves\<close>

text \<open>The records finished since, and how many of them failed.\<close>

definition finished_since :: "'t sink \<Rightarrow> 't sink \<Rightarrow> ('t Fetched \<times> outcome) list \<Rightarrow> bool" where
  "finished_since s s' new \<longleftrightarrow> sk_finished s' = sk_finished s @ new \<and> sk_Failed s' = sk_Failed s + length (filter (\<lambda>(v, out). out = Persist_Failed) new)"

lemma since_refl: "finished_since s s []"
  by (simp add: finished_since_def)

lemma since_put_down: "finished_since s s' new \<Longrightarrow> finished_since s (put_down v out rest s') (new @ [(v, out)])"
  by (simp add: finished_since_def put_down_def)

lemma since_step:
  assumes "sink_step digest cfg c c'" "finished_since s (fst c) new"
  shows "\<exists>new'. finished_since s (fst c') new'"
  using assms
  by (induction rule: sink_step.induct; unfold fst_conv)
    (blast intro: since_put_down | (rule exI [of _ new], simp add: finished_since_def))+

lemma run_laws:
  assumes "sink_run digest cfg c c'" "sink_inv cfg (fst c)" "jobs_ok digest (fst c) (snd c)"
  shows "sink_inv cfg (fst c') \<and> jobs_ok digest (fst c') (snd c') \<and> (\<exists>new. finished_since (fst c) (fst c') new)"
  using assms
proof (induction rule: sink_run.induct)
  case (rest c)
  then show ?case using since_refl by blast
next
  case (more c c' c'')
  then show ?case using sink_step_inv sink_step_jobs since_step by metis
qed

lemma drained_empty:
  assumes "sink_inv cfg s" "drained s"
  shows "sk_senders s = []" "sk_queue s = []" "sk_working s = []" "held s = mset (map fst (sk_finished s))"
proof -
  have "sk_inflight s = 0" using assms by (auto simp: sink_inv_def drained_def)
  then show e: "sk_senders s = []" "sk_queue s = []" "sk_working s = []" using assms(1) by (auto simp: sink_inv_def)
  show "held s = mset (map fst (sk_finished s))" by (simp add: held_def e)
qed

lemma run_covers:
  assumes "sink_run digest cfg (s, d) (s', d')" "sink_inv cfg s" "jobs_ok digest s d" "drained s" "drained s'" "sk_Failed s' \<le> sk_Failed s"
    and "v \<in># held s' - held s"
  shows "covered digest d' v"
proof -
  obtain new where inv: "sink_inv cfg s'" and jobs: "jobs_ok digest s' d'" and new: "finished_since s s' new"
    using run_laws [OF assms(1)] assms(2,3) by auto
  have "held s' - held s = mset (map fst new)"
    using drained_empty(4) [OF inv assms(5)] drained_empty(4) [OF assms(2,4)] new by (simp add: finished_since_def)
  then obtain out where out: "(v, out) \<in> set new" using assms(7) by auto
  have "filter (\<lambda>(v, out). out = Persist_Failed) new = []" using new assms(6) by (simp add: finished_since_def)
  then have "out \<noteq> Persist_Failed" using out by (auto simp: filter_empty_conv)
  moreover have "(v, out) \<in> set (sk_finished s')" using out new by (simp add: finished_since_def)
  ultimately show ?thesis using jobs unfolding jobs_ok_def by blast
qed

text \<open>Handing a record over adds it to what the sink holds, handing it back takes it away, nothing else changes it.\<close>

lemma held_step:
  assumes "sink_step digest cfg (s, d) (s', d')"
  shows "held s' = held s \<or> (\<exists>v. held s' = add_mset v (held s)) \<or> (\<exists>v. held s = add_mset v (held s') \<and> sk_withdrawn s' = sk_withdrawn s @ [v])"
  using assms by cases (auto simp: held_def put_down_def)

section \<open>Closing\<close>

lemma queue_never_sent_when_closed:
  assumes "sink_run digest cfg c c'" "sink_inv cfg (fst c)" "sk_queueClosed (fst c')"
  shows "sk_senders (fst c') = [] \<and> sk_queue (fst c') = []"
proof -
  have "sink_inv cfg (fst c')" using assms(1,2) by (induction rule: sink_run.induct) (auto intro: sink_step_inv)
  then show ?thesis using assms(3) by (auto simp: sink_inv_def)
qed

section \<open>Draining ends\<close>

text \<open>
  Steps that are neither a new record nor the closing of the sink each do some work of a sink whose jobs are within their
  attempts, so a sink nobody hands anything to comes to rest, and it rests only when nothing is in flight.
\<close>

definition job_work :: "'t job \<Rightarrow> nat" where
  "job_work j = (case fst j of Comparing \<Rightarrow> persistAttempts + 2 | Merging n \<Rightarrow> persistAttempts + 2 - n | Saving \<Rightarrow> 1)"

definition sink_work :: "'t sink \<Rightarrow> nat" where
  "sink_work s = (persistAttempts + 4) * length (sk_senders s) + (persistAttempts + 3) * length (sk_queue s)
     + sum_list (map job_work (sk_working s))"

definition merging_ok :: "'t sink \<Rightarrow> bool" where
  "merging_ok s \<longleftrightarrow> list_all (\<lambda>(p, v). case p of Merging n \<Rightarrow> 1 \<le> n \<and> n \<le> persistAttempts | _ \<Rightarrow> True) (sk_working s)"

definition same_intake :: "'t sink \<Rightarrow> 't sink \<Rightarrow> bool" where
  "same_intake s s' \<longleftrightarrow> size (held s') + length (sk_withdrawn s') = size (held s) + length (sk_withdrawn s)
     \<and> sk_closed s' = sk_closed s \<and> sk_queueClosed s' = sk_queueClosed s"

lemma merging_step: "sink_step digest cfg c c' \<Longrightarrow> merging_ok (fst c) \<Longrightarrow> merging_ok (fst c')"
  by (induction rule: sink_step.induct) (auto simp: merging_ok_def put_down_def persistAttempts_def)

lemma draining_work:
  assumes "sink_step digest cfg c c'" "merging_ok (fst c)" "same_intake (fst c) (fst c')"
  shows "sink_work (fst c') < sink_work (fst c) \<or> c' = c"
  using assms
  by (induction rule: sink_step.induct)
    (auto simp: same_intake_def held_def put_down_def sink_work_def job_work_def merging_ok_def persistAttempts_def)

lemma draining_progress:
  assumes "sink_inv cfg s" "merging_ok s" "\<not> drained s"
  shows "\<exists>s' d'. sink_step digest cfg (s, d) (s', d') \<and> same_intake s s' \<and> sink_work s' < sink_work s"
proof -
  have fl: "sk_working s \<noteq> [] \<or> sk_queue s \<noteq> [] \<or> sk_senders s \<noteq> []" and open_queue: "\<not> sk_queueClosed s"
    using assms(1,3) by (auto simp: sink_inv_def drained_def)
  have w: "0 < sink_workers cfg" "0 < sink_depth cfg" by (auto simp: sink_workers_def sink_depth_def)
  show ?thesis
  proof (cases "sk_working s")
    case (Cons j ys)
    obtain p v where j: "j = (p, v)" by (cases j)
    show ?thesis
    proof (cases p)
      case Comparing
      let ?s = "s\<lparr>sk_working := [] @ (Merging 1, v) # ys\<rparr>"
      show ?thesis
      proof (cases "v_Raw v = [] \<or> \<not> sc_SkipUnchanged cfg \<or> RawChanged digest d v")
        case True
        then have "sink_step digest cfg (s, d) (?s, d)" using compare_goes [of s "[]" v ys] Cons j Comparing by simp
        then show ?thesis using Cons j Comparing
          by (intro exI [of _ ?s] exI [of _ d]) (simp add: same_intake_def held_def sink_work_def job_work_def)
      next
        case False
        then have "sink_step digest cfg (s, d) (put_down v Unchanged ([] @ ys) s, d)"
          using compare_same [of s "[]" v ys] Cons j Comparing by simp
        then show ?thesis using Cons j Comparing
          by (intro exI [of _ "put_down v Unchanged ([] @ ys) s"] exI [of _ d])
            (simp add: same_intake_def held_def sink_work_def job_work_def put_down_def)
      qed
    next
      case (Merging n)
      then have "sink_step digest cfg (s, d) (put_down v Persist_Failed ([] @ ys) s, d)" using merge_fails [of s "[]" n v ys] Cons j by simp
      moreover have "n \<le> persistAttempts" using assms(2) Cons j Merging by (auto simp: merging_ok_def)
      ultimately show ?thesis using Cons j Merging
        by (intro exI [of _ "put_down v Persist_Failed ([] @ ys) s"] exI [of _ d])
          (simp add: same_intake_def held_def sink_work_def job_work_def put_down_def)
    next
      case Saving
      then have "sink_step digest cfg (s, d) (put_down v Written ([] @ ys) s, d)" using save_fails [of s "[]" v ys] Cons j by simp
      then show ?thesis using Cons j Saving
        by (intro exI [of _ "put_down v Written ([] @ ys) s"] exI [of _ d])
          (simp add: same_intake_def held_def sink_work_def job_work_def put_down_def)
    qed
  next
    case Nil
    show ?thesis
    proof (cases "sk_queue s")
      case (Cons v q)
      then have "sink_step digest cfg (s, d) (s\<lparr>sk_queue := q, sk_working := sk_working s @ [(Comparing, v)]\<rparr>, d)"
        using take [of s v q] Nil w by simp
      then show ?thesis using Cons Nil
        by (intro exI [of _ "s\<lparr>sk_queue := q, sk_working := sk_working s @ [(Comparing, v)]\<rparr>"] exI [of _ d])
          (simp add: same_intake_def held_def sink_work_def job_work_def)
    next
      case q: Nil
      then obtain v xs where v: "sk_senders s = [] @ v # xs" using fl Nil by (cases "sk_senders s") auto
      then have "sink_step digest cfg (s, d) (s\<lparr>sk_senders := [] @ xs, sk_queue := sk_queue s @ [v]\<rparr>, d)"
        using send [OF v open_queue] q w by simp
      then show ?thesis using v q
        by (intro exI [of _ "s\<lparr>sk_senders := [] @ xs, sk_queue := sk_queue s @ [v]\<rparr>"] exI [of _ d])
          (simp add: same_intake_def held_def sink_work_def)
    qed
  qed
qed

lemma drain_ends:
  assumes "sink_inv cfg (fst c)" "merging_ok (fst c)"
  shows "\<exists>c'. sink_run digest cfg c c' \<and> drained (fst c') \<and> same_intake (fst c) (fst c')"
  using assms
proof (induction "sink_work (fst c)" arbitrary: c rule: less_induct)
  case less
  obtain s d where c: "c = (s, d)" by (cases c)
  show ?case
  proof (cases "drained s")
    case True
    then show ?thesis using sink_run.rest by (fastforce simp: c same_intake_def)
  next
    case False
    then obtain s' d' where s: "sink_step digest cfg (s, d) (s', d')" "same_intake s s'" "sink_work s' < sink_work s"
      using draining_progress less.prems unfolding c by fastforce
    have "sink_inv cfg s'" "merging_ok s'" using sink_step_inv [OF s(1)] merging_step [OF s(1)] less.prems unfolding c by simp_all
    then obtain c' where r: "sink_run digest cfg (s', d') c'" "drained (fst c')" "same_intake s' (fst c')"
      using less.hyps [of "(s', d')"] s(3) unfolding c by auto
    have "sink_run digest cfg (s, d) c'" using r(1) s(1)
      by (induction "(s', d')" c' rule: sink_run.induct) (auto intro: sink_run.intros)
    then show ?thesis using r(2,3) s(2) unfolding c by (intro exI [of _ c']) (simp add: same_intake_def)
  qed
qed

end
