(* ===== verification/Collect_Examples.thy ===== *)
theory Collect_Examples
  imports Csaf_Laws Csaf_Walk Eu_Feeds Ingest_Laws Store_Examples
begin

text \<open>Concrete advisories, walks and runs the results on the collectors are applied to.\<close>

section \<open>Two revisions of an advisory\<close>

definition vex_order_of :: "nat \<Rightarrow> Status list" where
  "vex_order_of i = [StatusAffected, StatusFixed, StatusNotAffected, StatusUnderInvestigation]"

definition vex_other_order :: "nat \<Rightarrow> Status list" where
  "vex_other_order i = [StatusUnderInvestigation, StatusNotAffected, StatusAffected, StatusFixed]"

definition glibc_leaf :: productLeaf where
  "glibc_leaf = \<lparr>pl_ProductID = ''P'', pl_Name = ''glibc'', pl_Helper = Some (''pkg:rpm/redhat/glibc@2.34-28.el9'', [])\<rparr>"

definition no_status :: csafStatus where
  "no_status = \<lparr>ps_KnownAffected = [], ps_KnownNotAffected = [], ps_Fixed = [], ps_FirstFixed = [], ps_UnderInvestigation = []\<rparr>"

definition revision :: "string \<Rightarrow> csafStatus \<Rightarrow> csafDocument" where
  "revision version st =
     \<lparr>cd_Title = ''glibc'', cd_TrackingID = ''RHSA-2024:1'', cd_TrackingVersion = version, cd_InitialReleaseDate = [],
      cd_CurrentReleaseDate = [], cd_Status = ''final'', cd_Publisher = ''Red Hat'', cd_Notes = [],
      cd_ProductTree = Some \<lparr>pt_Branches = [Branch ''vendor'' ''Red Hat'' (Some glibc_leaf) []], pt_Relationships = [], pt_FullProducts = []\<rparr>,
      cd_Vulnerabilities = [\<lparr>cv_CVE = ''CVE-2024-1234'', cv_Title = [], cv_IDs = [], cv_Notes = [], cv_CWE = [], cv_Scores = [],
        cv_ProductStatus = st, cv_References = []\<rparr>]\<rparr>"

definition first_revision :: csafDocument where
  "first_revision = revision ''1'' (no_status\<lparr>ps_KnownAffected := [''P'']\<rparr>)"

definition second_revision :: csafDocument where
  "second_revision = revision ''2'' (no_status\<lparr>ps_KnownNotAffected := [''P'']\<rparr>)"

definition no_time :: "string \<Rightarrow> string \<Rightarrow> nat option" where
  "no_time layout s = None"

definition fetched_at :: "nat \<Rightarrow> nat Vulnerability \<Rightarrow> nat Fetched" where
  "fetched_at t v = Vulnerability.extend v (Fetched.fields t [])"

definition records_of :: "csafDocument \<Rightarrow> nat Fetched list" where
  "records_of doc = map (fetched_at 9) (parseCSAF no_time vex_order_of (Some doc) ''csaf'' [])"

text \<open>
  The revised advisory says that the product is not affected. The document keeps the statement of the first revision: the
  record id holds the revision, so the second revision is another record and cannot take back what the first one said.
\<close>

lemma revision_keeps_predecessor:
  "map_option (\<lambda>d. map (\<lambda>a. (af_Product a, af_Status a)) (v_Affected d)) (ingest text_digest (records_of first_revision @ records_of second_revision))
    = Some [(''glibc'', ''affected''), (''glibc'', ''not_affected'')]"
  by code_simp

text \<open>The same change under an unrevised record id is taken back.\<close>

lemma same_revision_replaces:
  "map_option (\<lambda>d. map (\<lambda>a. (af_Product a, af_Status a)) (v_Affected d))
      (ingest text_digest (records_of first_revision @ records_of (second_revision\<lparr>cd_TrackingVersion := ''1''\<rparr>)))
    = Some [(''glibc'', ''not_affected'')]"
  by code_simp

section \<open>A run of the sink\<close>

definition small_pool :: sink_config where
  "small_pool = \<lparr>sc_Workers = 1, sc_QueueDepth = 1, sc_SkipUnchanged = True\<rparr>"

definition raw_record :: "nat Fetched" where
  "raw_record = nvd_wide\<lparr>v_Raw := ''{}''\<rparr>"

definition empty_disk :: "nat disk" where
  "empty_disk = \<lparr>dk_raw = Map.empty, dk_merged = []\<rparr>"

definition plain_digest :: "string \<Rightarrow> string" where
  "plain_digest s = s"

definition sink_after :: "nat sink" where
  "sink_after = new_sink\<lparr>sk_started := True, sk_finished := [(raw_record, Written)]\<rparr>"

definition disk_after :: "nat disk" where
  "disk_after = SaveRaw plain_digest raw_record (empty_disk\<lparr>dk_merged := [raw_record]\<rparr>)"

lemma raw_record_raw [simp]: "v_Raw raw_record = ''{}''"
  by (simp add: raw_record_def)

lemma one_record: "sink_run plain_digest small_pool (new_sink, empty_disk) (sink_after, disk_after)"
proof -
  let ?run = "sink_run plain_digest small_pool (new_sink, empty_disk)"
  let ?v = raw_record and ?d = "empty_disk\<lparr>dk_merged := [raw_record]\<rparr>"
  let ?s = "\<lambda>n snd q w. new_sink\<lparr>sk_started := True, sk_inflight := n, sk_senders := snd, sk_queue := q, sk_working := w\<rparr>"
  have depth: "sink_depth small_pool = 1" "sink_workers small_pool = 1" by (simp_all add: small_pool_def sink_depth_def sink_workers_def)
  have 1: "?run (?s 1 [?v] [] [], empty_disk)"
    using sink_run.more [OF sink_run.rest accept [of new_sink _ _ empty_disk ?v]] by (simp add: new_sink_def)
  have 2: "?run (?s 1 [] [?v] [], empty_disk)"
    using sink_run.more [OF 1 send [of _ "[]" ?v "[]"]] depth by (simp add: new_sink_def)
  have 3: "?run (?s 1 [] [] [(Comparing, ?v)], empty_disk)"
    using sink_run.more [OF 2 take [of _ ?v "[]"]] depth by (simp add: new_sink_def)
  have 4: "?run (?s 1 [] [] [(Merging 1, ?v)], empty_disk)"
    using sink_run.more [OF 3 compare_goes [of _ "[]" ?v "[]"]] by (simp add: new_sink_def RawChanged_def empty_disk_def)
  have 5: "?run (?s 1 [] [] [(Saving, ?v)], ?d)"
    using sink_run.more [OF 4 merge_commits [of _ "[]" 1 ?v "[]"]] by (simp add: new_sink_def empty_disk_def)
  show ?thesis
    using sink_run.more [OF 5 save [of _ "[]" ?v "[]"]] by (simp add: new_sink_def sink_after_def disk_after_def put_down_def)
qed

lemma new_sink_ok [simp]: "sink_inv cfg new_sink" "jobs_ok digest new_sink d \<longleftrightarrow> raw_ok digest d" "merging_ok new_sink" "drained new_sink"
  by (simp_all add: sink_inv_def new_sink_def jobs_ok_def merging_ok_def drained_def)

section \<open>A listing\<close>

definition two_advisories :: "nat listing" where
  "two_advisories = [''a.json'' \<mapsto> Some 5, ''b.json'' \<mapsto> Some 7]"

lemma two_pending: "is_pending two_advisories None [(''a.json'', Some 5), (''b.json'', Some (7::nat))]"
  by (auto simp: is_pending_def two_advisories_def newer_def before_def split: if_splits)

end
