(* ===== verification/Further_Results.thy ===== *)
theory Further_Results
  imports Examples Feed_Examples Inventory_Examples Netscan_Examples Body Config Store_Examples Collect_Examples
begin

text \<open>
  Results beside the properties of the root theory: laws of single operations that the properties do not rest on, each
  with the concrete input it is applied to where it has a hypothesis.
\<close>

text \<open>
  From every state a sink reaches, the workers can finish everything that is in flight without a new record, and each step they take on the way does some of a bounded amount of work; and once the queue is closed nobody is left to send to it.
\<close>

theorem draining_ends:
  assumes "raw_ok digest d0" "sink_run digest cfg (new_sink, d0) c" "merging_ok (fst c)"
  shows "(\<exists>c'. sink_run digest cfg c c' \<and> drained (fst c') \<and> same_intake (fst c) (fst c'))
    \<and> (\<forall>c'. sink_step digest cfg c c' \<and> same_intake (fst c) (fst c') \<longrightarrow> sink_work (fst c') < sink_work (fst c) \<or> c' = c)
    \<and> (sk_queueClosed (fst c) \<longrightarrow> sk_senders (fst c) = [])"
proof -
  have i: "sink_inv cfg (fst c)" using run_laws [OF assms(2)] assms(1) by simp
  show ?thesis
    using drain_ends [OF i assms(3)] draining_work [OF _ assms(3)] queue_never_sent_when_closed [OF assms(2)] by fastforce
qed

lemma draining_ends_witness:
  "\<exists>c'. sink_run plain_digest small_pool (sink_after, disk_after) c' \<and> drained (fst c')"
proof -
  have "raw_ok plain_digest empty_disk" by (simp add: raw_ok_def empty_disk_def)
  moreover have "merging_ok (fst (sink_after, disk_after))" by (simp add: merging_ok_def sink_after_def new_sink_def)
  ultimately show ?thesis using draining_ends [OF _ one_record] by blast
qed

text \<open>
  The name and the version of a package URL in plain characters are read back whatever its type, namespace, qualifiers and subpath are.
\<close>

theorem purl_identity_read:
  assumes "list_all (\<lambda>c. c \<notin> {CHR ''?'', CHR ''#''}) t" "purl_plain n" "purl_plain v" "q = [] \<or> hd q \<in> {CHR ''?'', CHR ''#''}"
  shows "splitPURL (''pkg:'' @ t @ ''/'' @ n @ ''@'' @ v @ q) = Some (n, v)"
  using assms by (rule splitPURL_reads)

lemma purl_identity_read_witness: "splitPURL ''pkg:rpm/redhat/glibc@2.34-28.el9?arch=s390x'' = Some (''glibc'', ''2.34-28.el9'')"
proof -
  have "list_all (\<lambda>c. c \<notin> {CHR ''?'', CHR ''#''}) ''rpm/redhat''" "purl_plain ''glibc''" "purl_plain ''2.34-28.el9''"
    "''?arch=s390x'' = [] \<or> hd ''?arch=s390x'' \<in> {CHR ''?'', CHR ''#''}" by code_simp+
  from purl_identity_read [OF this] show ?thesis by simp
qed

text \<open>
  A search window of the EUVD that ends without an error was read from its first page to the page its total ends on, or to an empty page by which the total was read; the records are those of these pages in their order.
\<close>

theorem euvd_window_read_whole:
  assumes "searchWindow tp fetch 0 [] = Inr all"
  shows "\<exists>n. all = concat (map (page_got tp fetch) [0..<n]) \<and> (\<forall>i < n. fetch i \<noteq> None)
    \<and> ((\<exists>p. fetch n = Some p \<and> pg_Items p = [] \<and> (pg_Total p \<le> 0 \<or> pg_Total p \<le> int (length all)))
      \<or> (\<exists>p. n > 0 \<and> fetch (n - 1) = Some p \<and> pg_Total p \<le> int n * 100))"
  using searchWindow_reads [OF assms] by (auto simp: euvdPageSize_def)

lemma euvd_window_read_whole_witness:
  "\<exists>n. (\<forall>i < n. (\<lambda>i :: nat. Some \<lparr>pg_Items = [None], pg_Total = 1\<rparr>) i \<noteq> None) \<and> 0 < n"
proof -
  let ?fetch = "\<lambda>i :: nat. Some \<lparr>pg_Items = [None], pg_Total = 1\<rparr>"
  have "searchWindow no_time ?fetch 0 [] = Inr []"
    by (subst searchWindow.simps) (simp add: euvdPageSize_def page_records_def List.map_filter_def euvd_toModel_def)
  from euvd_window_read_whole [OF this] show ?thesis by auto
qed

text \<open>
  However many records are merged into a document, its modification time is not past the limit up to which the collectors let upstream times through, so no record poisons it against later ones.
\<close>

theorem future_never_poisons:
  fixes rs :: "'t::linorder Fetched list"
  assumes "rs \<noteq> []" "\<And>v. v \<in> set rs \<Longrightarrow> NUL \<notin> set (v_Source v)" "\<And>v. v \<in> set rs \<Longrightarrow> \<exists>raw. Emit limit raw = Some v"
    and "fold (\<lambda>v d. Some (Merge fp d v)) rs None = Some d" "v_Modified d = Some t"
  shows "t \<le> limit"
proof -
  obtain d' where "fold (\<lambda>v d. Some (Merge fp d v)) rs None = Some d'" "v_Modified d' \<in> v_Modified ` set rs"
    using ingest_books [OF assms(1,2), of fp] unfolding ingest_def by blast
  then obtain v where v: "v \<in> set rs" "v_Modified v = Some t" using assms(4,5) by auto
  then obtain raw where "Emit limit raw = Some v" using assms(3) by blast
  then show ?thesis using v(2) by (auto simp: Emit_def dropFutureTimestamps_def Let_def split: if_splits option.splits)
qed

lemma future_never_poisons_witness:
  "v_Modified (Merge text_digest None (dropFutureTimestamps 8 (nvd_narrow\<lparr>v_Modified := Some 90\<rparr>))) = None"
proof (rule ccontr)
  let ?raw = "nvd_narrow\<lparr>v_Modified := Some 90\<rparr>"
  let ?v = "dropFutureTimestamps 8 ?raw"
  assume "v_Modified (Merge text_digest None ?v) \<noteq> None"
  then obtain t where t: "v_Modified (Merge text_digest None ?v) = Some t" by blast
  have s: "NUL \<notin> set (v_Source ?v)" by code_simp
  have e: "Emit 8 ?raw = Some ?v" by (simp add: Emit_def nvd_narrow_def upstream_def)
  have "t \<le> 8" by (rule future_never_poisons [of "[?v]" 8 text_digest, OF _ _ _ _ t]) (use s e in auto)
  moreover have "v_Modified (Merge text_digest None ?v) = None" by code_simp
  ultimately show False using t by simp
qed

text \<open>
  The process may talk to the network only if the switch that keeps it offline is unset or states a false that can be read and no bundle serves its fetches; a switch that states anything else than a boolean stops the configuration from loading.
\<close>

theorem network_needs_consent:
  assumes "setting = env (applied dotenv penv) ''CVEFEED_OFFLINE_ONLY'' []"
  shows "(\<forall>c. Load pd names dotenv penv = Inr c \<longrightarrow>
            (AllowNetwork c \<longleftrightarrow> (setting = [] \<or> ParseBool setting = Some False) \<and> env (applied dotenv penv) ''CVEFEED_BUNDLE_PATH'' [] = []))
    \<and> (setting \<noteq> [] \<and> ParseBool setting = None \<longrightarrow> (\<exists>e. Load pd names dotenv penv = Inl e))"
proof (intro conjI allI impI)
  fix c assume "Load pd names dotenv penv = Inr c"
  then show "AllowNetwork c \<longleftrightarrow> (setting = [] \<or> ParseBool setting = Some False) \<and> env (applied dotenv penv) ''CVEFEED_BUNDLE_PATH'' [] = []"
    using Load_network [of pd names dotenv penv c] assms by (cases "cf_OfflineOnly c") (auto simp: AllowNetwork_def stated_or_def split: if_splits)
next
  assume s: "setting \<noteq> [] \<and> ParseBool setting = None"
  show "\<exists>e. Load pd names dotenv penv = Inl e"
  proof (cases "Load pd names dotenv penv")
    case (Inr c)
    then show ?thesis using s Load_network(1) [OF Inr] assms by (simp add: stated_or_def)
  qed simp
qed

lemma network_needs_consent_witness:
  "\<exists>e. Load pd names (Some [''CVEFEED_OFFLINE_ONLY'' \<mapsto> ''ture'']) Map.empty = Inl e"
proof -
  have e: "env (applied (Some [''CVEFEED_OFFLINE_ONLY'' \<mapsto> ''ture'']) Map.empty) ''CVEFEED_OFFLINE_ONLY'' [] = ''ture''"
    by (simp add: env_def applied_def applyDotenv_def) code_simp
  have "ParseBool ''ture'' = None" by (simp add: ParseBool_def)
  then show ?thesis using network_needs_consent [OF e [symmetric], of pd names] by blast
qed

text \<open>
  A value of the shared file reads back as compose reads it: a single-quoted one literally, a double-quoted one up to its quote and a bare one up to its comment, both with two dollars as one; and a variable that is set already, even to nothing, keeps its value.
\<close>

theorem file_yields_to_environment:
  assumes "CHR 0x27 \<notin> set v" "CHR 0x22 \<notin> set w"
    "before_comment (double_dollar b) = None" "\<not> has_prefix b ''#''" "\<not> has_prefix b [CHR 0x22]" "\<not> has_prefix b [CHR 0x27]"
    "dotenv k = Some (double_dollar b)"
  shows "dotenvValue (CHR 0x27 # v @ CHR 0x27 # rest) = v
    \<and> dotenvValue (CHR 0x22 # double_dollar w @ CHR 0x22 # rest) = w
    \<and> dotenvValue (double_dollar b) = b
    \<and> applyDotenv dotenv penv k = (case penv k of Some set_value \<Rightarrow> Some set_value | None \<Rightarrow> dotenv k)"
  using dotenvValue_single [OF assms(1)] dotenvValue_double [OF assms(2)] dotenvValue_bare [OF assms(3-6)]
  by (simp add: applyDotenv_def)

lemma file_yields_to_environment_witness: "dotenvValue ''pa$$ss#1'' = ''pa$ss#1''"
proof -
  have d: "double_dollar ''pa$ss#1'' = ''pa$$ss#1''" by (simp add: double_dollar_def)
  have b: "before_comment (double_dollar ''pa$ss#1'') = None" by (simp add: d blank_def)
  show ?thesis
    using file_yields_to_environment [of "[]" "[]" "''pa$ss#1''" "[''K'' \<mapsto> ''pa$$ss#1'']" "''K''"] b
    by (simp add: d has_prefix_def)
qed

text \<open>
  The connection string composed from the file is aimed at this machine whatever the password is: the user and the password are written without any character that ends them, and read back from it as the file states them.
\<close>

theorem composed_dsn_holds:
  assumes "lookup_or_empty m ''CVEFEED_DATABASE_URL'' = []" "m ''POSTGRES_USER'' = Some user" "user \<noteq> []"
    "m ''POSTGRES_PASSWORD'' = Some pass" "pass \<noteq> []"
  shows "\<exists>u p rest. dsnFromDotenv (Some m) = ''postgres://'' @ u @ '':'' @ p @ ''@localhost:'' @ rest
    \<and> set (u @ p) \<inter> set '':@/?#'' = {} \<and> path_unescape u = Some user \<and> path_unescape p = Some pass"
proof -
  let ?u = "url_escape user_safe user" and ?p = "url_escape user_safe pass"
  obtain rest where "dsnFromDotenv (Some m) = ''postgres://'' @ ?u @ '':'' @ ?p @ ''@localhost:'' @ rest"
    using composed [OF assms] by blast
  moreover have "set (?u @ ?p) \<inter> set '':@/?#'' = {}" using userinfo_chars by auto
  moreover have "path_unescape ?u = Some user" "path_unescape ?p = Some pass" using url_unescape [of user_safe, OF user_percent] by auto
  ultimately show ?thesis by blast
qed

lemma composed_dsn_holds_witness:
  "\<exists>u p rest. dsnFromDotenv (Some [''POSTGRES_USER'' \<mapsto> ''alice'', ''POSTGRES_PASSWORD'' \<mapsto> ''p@ss/word?#''])
      = ''postgres://'' @ u @ '':'' @ p @ ''@localhost:'' @ rest \<and> path_unescape p = Some ''p@ss/word?#''"
proof -
  let ?m = "[''POSTGRES_USER'' \<mapsto> ''alice'', ''POSTGRES_PASSWORD'' \<mapsto> ''p@ss/word?#'']"
  have "lookup_or_empty ?m ''CVEFEED_DATABASE_URL'' = []" by (simp add: lookup_or_empty_def)
  from composed_dsn_holds [OF this, of "''alice''" "''p@ss/word?#''"] show ?thesis by simp blast
qed

text \<open>
  A confirmed finding rests on an exact identity with nothing unproven and on the scheme's own ordering, and is not a distribution tracker's open-ended claim.
\<close>

theorem confirmed_means:
  assumes "ev_Confidence (snd (Evaluate c a)) = Some Confirmed" "fst (Evaluate c a) = Match"
  shows "id_grade (identify c a) = idExact \<and> id_unproven (identify c a) = []
    \<and> e_grade (versionTest c a (identify c a)) = vgOrdered
    \<and> \<not> (id_rowFamily (identify c a) \<in> set distroFamilies \<and> openEndedClaim a)"
  using Evaluate_Confirmed [OF assms] by blast

lemma confirmed_means_witness:
  "id_grade (identify openssl (toAffected affected_row)) = idExact
    \<and> e_grade (versionTest openssl (toAffected affected_row) (identify openssl (toAffected affected_row))) = vgOrdered"
  using confirmed_means [of openssl "toAffected affected_row"] by (simp add: openssl_matches)

text \<open>
  Between two versions an RPM window contains lie only versions it contains.
\<close>

theorem rpm_window_convex:
  assumes "no_sentinel r" "bounded r" "window_operands r u" "window_operands r v" "window_operands r w"
    and "e_verdict (evalRange RPM u r) = vInRange" "e_verdict (evalRange RPM w r) = vInRange"
    and "rpm_cmp (clean u) (clean v) \<le> 0" "rpm_cmp (clean v) (clean w) \<le> 0"
  shows "e_verdict (evalRange RPM v r) = vInRange"
  using assms by (rule rpm_windows.window_convex)

lemma rpm_window_convex_witness:
  "e_verdict (evalRange RPM ''1.2-1'' (window ''1.0'' ''1.9'' [])) = vInRange"
  by (rule rpm_window_convex [of _ "''1.1-1''" _ "''1.3-1''"]) code_simp+

text \<open>
  A window under a scheme that defines no ordering is never decided, whatever its bounds.
\<close>

theorem opaque_never_decides: "e_verdict (evalRange Opaque v r) = vUndecided"
  by (rule evalRange_Opaque)

text \<open>
  A statement is decided against only where every element decided against it and the source does not leave unlisted versions unknown.
\<close>

theorem version_test_negative:
  "e_verdict (versionTest c a i) = vNotInRange
     \<longleftrightarrow> snd (version_elements c a i) \<noteq> []
       \<and> list_all (\<lambda>e. e_verdict e = vNotInRange) (snd (version_elements c a i)) \<and> \<not> unknownByDefault a"
  using versionTest_out_of_range [of c a i] by (simp add: list_all_iff)

text \<open>
  Under dpkg and rpm a tilde behind a version sorts below it, and under rpm a caret sorts above it, whatever follows.
\<close>

theorem tilde_below:
  "verrevcmp (s @ CHR ''~'' # t) s = -1 \<and> rpmvercmp (s @ CHR ''~'' # t) s = -1 \<and> rpmvercmp (s @ CHR ''^'' # t) s = 1"
  using verrevcmp_tilde rpmvercmp_tilde rpmvercmp_caret by blast

text \<open>
  Every scheme that orders anything gives two dotted numbers of different value the order of the numbers.
\<close>

theorem schemes_agree_on_numbers:
  assumes "Ordered s" "ds \<noteq> []" "es \<noteq> []" "list_all clause2 ds" "list_all clause2 es"
    and "core_cmp ds es \<noteq> 0" "\<not> LooksLikeCommit (join ''.'' ds)" "\<not> LooksLikeCommit (join ''.'' es)"
  shows "\<exists>c. CompareCertain s (join ''.'' ds) (join ''.'' es) = Inr (core_cmp ds es, c)"
  using assms by (rule schemes_agree)

lemma schemes_agree_on_numbers_witness: "\<exists>c. CompareCertain Maven ''1.9'' ''1.10'' = Inr (-1, c)"
proof -
  have "core_cmp [''1'', ''9''] [''1'', ''10''] = -1" "Ordered Maven" "list_all clause2 [''1'', ''9'']"
    "list_all clause2 [''1'', ''10'']" "\<not> LooksLikeCommit (join ''.'' [''1'', ''9''])"
    "\<not> LooksLikeCommit (join ''.'' [''1'', ''10''])" "join ''.'' [''1'', ''9''] = ''1.9''"
    "join ''.'' [''1'', ''10''] = ''1.10''"
    by code_simp+
  then show ?thesis using schemes_agree_on_numbers [of Maven "[''1'', ''9'']" "[''1'', ''10'']"] by simp
qed

text \<open>
  Under every scheme swapping the operands swaps the answer and keeps its grade.
\<close>

theorem comparison_swaps: "CompareCertain s b a = Inr (- n, c) \<longleftrightarrow> CompareCertain s a b = Inr (n, c)"
  using CompareCertain_swap [of s a b n c] CompareCertain_swap [of s b a "- n" c] by auto

text \<open>
  Where the generic comparison answers on plain operands whose numeric cores differ, dpkg and rpm give the same answer.
\<close>

theorem generic_is_proven:
  assumes "compareGeneric a b = Some (n, c)"
    and "stripV a = a" "stripV b = b" "plain_tail (core_tail a)" "plain_tail (core_tail b)"
    and "core_cmp (numeric_core a) (numeric_core b) \<noteq> 0"
  shows "debian_cmp a b = n \<and> rpm_cmp a b = n"
  using compareGeneric_core_agrees(2,3) [OF assms] by (rule conjI)

lemma generic_is_proven_witness: "debian_cmp ''1.2-3'' ''1.10'' = -1 \<and> rpm_cmp ''1.2-3'' ''1.10'' = -1"
  by (rule generic_is_proven [of _ _ _ Exact]) code_simp+

text \<open>
  compareNumericText orders digit strings of any length by their value, so no version number overflows.
\<close>

theorem numbers_compare_by_value:
  assumes "isAllDigits a" "isAllDigits b"
  shows "compareNumericText a b = sgn (numval a - numval b)"
  using assms by (rule compareNumericText_numval)

lemma numbers_compare_by_value_witness:
  "compareNumericText ''99999999999999999999'' ''100000000000000000000'' = sgn (numval ''99999999999999999999'' - numval ''100000000000000000000'')"
  by (rule numbers_compare_by_value) code_simp+

text \<open>
  Printing a strict semantic version and parsing it gives the same parts, at the exact grade.
\<close>

theorem semver_round_trip:
  assumes "strict_semver p"
  shows "parseSemver (semver_text p) = Some (p, Exact)"
  using assms by (rule parse_semver_text)

lemma semver_round_trip_witness:
  "parseSemver (semver_text \<lparr>semverParts.release = [''1'', ''2'', ''3''], semverParts.pre = [''rc'', ''1'']\<rparr>)
     = Some (\<lparr>semverParts.release = [''1'', ''2'', ''3''], semverParts.pre = [''rc'', ''1'']\<rparr>, Exact)"
  by (rule semver_round_trip) code_simp

text \<open>
  Of two PEP 440 versions with one epoch and one release number, the order is dev release below pre-release below final below post-release.
\<close>

theorem pep440_kinds:
  assumes "parsePEP440 s = Some a" "parsePEP440 t = Some b" "compareNumericText (epoch a) (epoch b) = 0"
    and "core_cmp (Python_Order.release a) (Python_Order.release b) = 0" "release_kind a < release_kind b"
  shows "comparePEP440 a b = -1"
  by (rule release_kind_order [OF parsePEP440_wf [OF assms(1)] parsePEP440_wf [OF assms(2)] assms(3-5)])

lemma pep440_kinds_witness:
  "comparePEP440 (the (parsePEP440 ''1.0.dev3'')) (the (parsePEP440 ''1.0.0a1'')) = -1"
proof -
  have "parsePEP440 ''1.0.dev3'' \<noteq> None" "parsePEP440 ''1.0.0a1'' \<noteq> None"
    "compareNumericText (epoch (the (parsePEP440 ''1.0.dev3''))) (epoch (the (parsePEP440 ''1.0.0a1''))) = 0"
    "core_cmp (Python_Order.release (the (parsePEP440 ''1.0.dev3''))) (Python_Order.release (the (parsePEP440 ''1.0.0a1''))) = 0"
    "release_kind (the (parsePEP440 ''1.0.dev3'')) < release_kind (the (parsePEP440 ''1.0.0a1''))"
    by code_simp+
  then show ?thesis by (intro pep440_kinds [of "''1.0.dev3''" _ "''1.0.0a1''"]) simp_all
qed

text \<open>
  parsePEP440 accepts a string exactly when the cleaned, lower-cased string is in the language of the PyPA pattern.
\<close>

theorem pep440_accepts:
  "parsePEP440 s \<noteq> None \<longleftrightarrow> (\<exists>e. rmatches pep440Pattern (to_lower (clean s)) e)"
  using find_submatch_None [of pep440Pattern "to_lower (clean s)"] by (auto simp: parsePEP440_def)

text \<open>
  Among versions apk's grammar accepts, the answers of compareAlpine are transitive.
\<close>

theorem alpine_transitive:
  assumes "parseAlpine a = Some va" "parseAlpine b = Some vb" "parseAlpine c = Some vc"
    and "compareAlpine a b = Some (n, Exact)" "n \<le> 0" "compareAlpine b c = Some (m, Exact)" "m \<le> 0"
  shows "\<exists>k \<le> 0. compareAlpine a c = Some (k, Exact)"
proof -
  note wf = parseAlpine_wf [OF assms(1)] parseAlpine_wf [OF assms(2)] parseAlpine_wf [OF assms(3)]
  have "alpine_order va vb \<le> 0" "alpine_order vb vc \<le> 0"
    using assms by (simp_all add: compareAlpine_def alpine_answer_order wf)
  then have "alpine_order va vc \<le> 0" by (rule alpine.cmp_trans)
  then show ?thesis using assms(1,3) by (simp add: compareAlpine_def alpine_answer_order wf)
qed

lemma alpine_transitive_witness: "\<exists>k \<le> 0. compareAlpine ''1.0_rc1'' ''1.0-r1'' = Some (k, Exact)"
proof -
  have p: "parseAlpine ''1.0_rc1'' \<noteq> None" "parseAlpine ''1.0'' \<noteq> None" "parseAlpine ''1.0-r1'' \<noteq> None"
    by code_simp+
  have c: "compareAlpine ''1.0_rc1'' ''1.0'' = Some (-1, Exact)" "compareAlpine ''1.0'' ''1.0-r1'' = Some (-1, Exact)"
    by code_simp+
  from p obtain x y z where "parseAlpine ''1.0_rc1'' = Some x" "parseAlpine ''1.0'' = Some y" "parseAlpine ''1.0-r1'' = Some z"
    by blast
  then show ?thesis by (rule alpine_transitive [OF _ _ _ c(1) _ c(2)]) simp_all
qed

text \<open>
  Normalising an identifier twice is normalising it once.
\<close>

theorem normalize_id_idempotent: "NormalizeID (NormalizeID i) = NormalizeID i"
  by (rule NormalizeID_idem)

text \<open>
  A version, qualifiers and a subpath behind a package URL do not change the identity it parses to.
\<close>

theorem purl_identity_ignores_rest:
  assumes "trim_space b = b" "4 \<le> length b"
    and "CHR ''#'' \<notin> set b" "CHR ''?'' \<notin> set b" "CHR ''@'' \<notin> set b"
    and "set v \<inter> {CHR ''#'', CHR ''?'', CHR ''@'', CHR ''/''} = {}" "CHR ''#'' \<notin> set q"
    and "trim_space (b @ ''@'' @ v @ ''?'' @ q @ ''#'' @ sub) = b @ ''@'' @ v @ ''?'' @ q @ ''#'' @ sub"
  shows "map_option p_Canonical (parsePURL (b @ ''@'' @ v @ ''?'' @ q @ ''#'' @ sub))
    = map_option p_Canonical (parsePURL b)"
  using assms by (rule parsePURL_canonical)

lemma purl_identity_ignores_rest_witness:
  "map_option p_Canonical (parsePURL (''pkg:pypi/Foo_Bar'' @ ''@'' @ ''1.0'' @ ''?'' @ ''arch=x'' @ ''#'' @ ''src''))
    = map_option p_Canonical (parsePURL ''pkg:pypi/Foo_Bar'')"
  by (rule purl_identity_ignores_rest) code_simp+

text \<open>
  A CPE 2.3 formatted string of well-formed attributes parses back to them.
\<close>

theorem cpe_round_trip:
  assumes "well_formed_cpe a"
  shows "parseCPE (format_cpe a) = Some a"
  using assms by (rule parseCPE_format)

lemma cpe_round_trip_witness:
  "\<exists>a. cpe_product a = ''log4j'' \<and> parseCPE (format_cpe a) = Some a"
proof -
  let ?a = "\<lparr>cpe_part = ''a'', cpe_vendor = ''apache'', cpe_product = ''log4j'', cpe_version = ''2.14.1'',
    cpe_update = ''*'', cpe_edition = ''*'', cpe_language = ''*'', cpe_swEdition = ''*'', cpe_targetSW = ''*'',
    cpe_targetHW = ''*'', cpe_other = ''*''\<rparr>"
  have "well_formed_cpe ?a" by code_simp
  from cpe_round_trip [OF this] have "cpe_product ?a = ''log4j'' \<and> parseCPE (format_cpe ?a) = Some ?a" by simp
  then show ?thesis by (rule exI)
qed

text \<open>
  A component's CPE satisfies a statement exactly when one row names its part, vendor and product and no further attribute of that row contradicts it; it is ruled out when a row decides against it; otherwise nothing is proven.
\<close>

theorem cpe_verdict:
  assumes "parseCPE c = Some inst"
  shows "ch_relation (matchCPEs c rows) =
    (if \<exists>raw \<in> set rows. cpe_admits inst raw then cpeSatisfied
     else if \<exists>raw \<in> set rows. cpe_names inst raw \<or> cpe_rules_out inst raw then cpeDisjoint
     else cpeUnproven)"
  using assms by (rule matchCPEs_relation)

lemma cpe_verdict_witness:
  "ch_relation (matchCPEs ''cpe:2.3:a:apache:log4j:2.14.1:*:*:*:*:*:*:*'' []) = cpeUnproven"
proof -
  obtain inst where "parseCPE ''cpe:2.3:a:apache:log4j:2.14.1:*:*:*:*:*:*:*'' = Some inst"
  proof -
    have "parseCPE ''cpe:2.3:a:apache:log4j:2.14.1:*:*:*:*:*:*:*'' \<noteq> None" by code_simp
    then show thesis using that by blast
  qed
  from cpe_verdict [OF this, of "[]"] show ?thesis by simp
qed

text \<open>
  A pattern that is plain text and a trailing asterisk matches exactly the values with that prefix, case ignored.
\<close>

theorem glob_prefix:
  assumes "plain_text p"
  shows "globMatch (p @ ''*'') v = has_prefix (to_lower v) (to_lower p)"
  using assms by (rule globMatch_prefix)

lemma glob_prefix_witness: "globMatch (''2.4'' @ ''*'') ''2.4.1'' = has_prefix (to_lower ''2.4.1'') (to_lower ''2.4'')"
  by (rule glob_prefix) code_simp

text \<open>
  An exact identity carries no unproven condition and comes from a package URL, a CPE or a name within one ecosystem.
\<close>

theorem exact_identity:
  assumes "id_grade (identify c a) = idExact"
  shows "id_unproven (identify c a) = [] \<and> id_channel (identify c a) \<in> {''purl'', ''cpe'', ''ecosystem_name''}"
  using identify_exact [OF assms] by (rule conjI)

lemma exact_identity_witness: "id_unproven (identify openssl (toAffected affected_row)) = []"
proof -
  have "id_grade (identify openssl (toAffected affected_row)) = idExact" by code_simp
  then show ?thesis using exact_identity by blast
qed

text \<open>
  sortFindings returns the same findings, none after a finding that should follow it: exploited first, then confidence, EPSS, score, identifier and name.
\<close>

theorem report_sorted:
  "sorted_wrt (\<lambda>f g. \<not> finding_less g f) (sortFindings fs) \<and> mset (sortFindings fs) = mset fs"
  using report_order.sort_stable_in_order [of fs] report_order.sort_stable_mset [of fs]
  by (simp add: sortFindings_def report_order.in_order_def)

text \<open>
  The loop of wait ends: a caller that is alone at a limiter and whose sleeps end is granted its request by its third poll, whatever the calls before it left there and however much each sleep overruns.
\<close>

theorem limiter_lets_through:
  assumes "granted (newLimiter burst win minInterval) l ts now" "\<And>n. \<exists>late. slept n = Inr late"
  shows "\<exists>now' l'. wait_loop slept 3 now l = Some (Inr (now', l')) \<and> now \<le> now' \<and> lm_recent l' \<noteq> [] \<and> last (lm_recent l') = now'"
proof -
  have "limiter_ok now l" by (rule granted_ok [OF assms(1)]) (auto simp: newLimiter_def second_def)
  then obtain now' l' where w: "wait_loop slept 3 now l = Some (Inr (now', l'))" "now \<le> now'"
    using wait_alone [of now l slept, OF _ assms(2)] by blast
  then show ?thesis using wait_loop_granted [OF w(1)] by blast
qed

lemma limiter_lets_through_witness:
  "\<exists>now' l'. wait_loop (\<lambda>_. Inr 0) 3 0 (newLimiter 1 30 6) = Some (Inr (now', l')) \<and> last (lm_recent l') = now'"
proof -
  have "granted (newLimiter 1 30 6) (newLimiter 1 30 6) [] 0" by (rule granted.start) (simp add: newLimiter_def)
  from limiter_lets_through [OF this, of "\<lambda>_. Inr 0"] show ?thesis by blast
qed

text \<open>
  A fetch makes at most one attempt more than its retries allow, goes on only after a transient failure, answers with the first attempt that succeeds or is refused for good, and before each attempt but the first waits what the last answer asked for, else the backoff.
\<close>

theorem retries_bounded:
  assumes "Fetch_loop slept limited tried retries = (r, ds)" "0 \<le> retries"
  shows "\<exists>j. int j \<le> retries \<and> list_all (\<lambda>i. transient (tried i)) [0..<j]
    \<and> ds = map (\<lambda>i. delay_after (tried i) (Suc i)) [0..<j]
    \<and> (case r of
         Fetched x \<Rightarrow> tried j = Answered x
       | Refused f \<Rightarrow> (\<exists>ra. tried j = Failed f ra) \<and> \<not> retryable f
       | Interrupted err \<Rightarrow> (j > 0 \<and> slept j = Some err) \<or> limited j = Some err
       | GaveUp k f \<Rightarrow> int k = retries + 1 \<and> int j = retries \<and> (\<exists>ra. tried j = Failed f ra) \<and> retryable f)"
proof -
  obtain j where j: "int j \<le> retries" "list_all (\<lambda>i. transient (tried i)) [0..<j]"
      "ds = map (\<lambda>i. delay_after (tried i) (Suc i)) [0..<j]" "ended slept limited tried j (nat (retries + 1)) r"
    using Fetch_loop_course [OF assms] by blast
  then show ?thesis using assms(2) by (intro exI [of _ j]) (auto simp: ended_def split: fetched.splits)
qed

lemma retries_bounded_witness:
  "\<exists>r ds. Fetch_loop (\<lambda>_. None) (\<lambda>_. None) (\<lambda>k. if k < 2 then Failed (Transient []) 0 else Failed (Permanent []) 0) 5 = (r, ds)
     \<and> ds = [1 * second, 2 * second]"
proof -
  let ?t = "\<lambda>k. if k < 2 then Failed (Transient []) 0 else Failed (Permanent []) 0"
  have f: "Fetch_loop (\<lambda>_. None) (\<lambda>_. None) ?t 5 = (Refused (Permanent []), [1 * second, 2 * second])" by code_simp
  have "\<exists>j. [1 * second, 2 * second] = map (\<lambda>i. delay_after (?t i) (Suc i)) [0..<j]" using retries_bounded [OF f zero_le_numeral] by (elim exE conjE) (rule exI, assumption)
  then show ?thesis using f by blast
qed

text \<open>
  The wait between two attempts doubles from a second up to a minute for the first thirty-four attempts; before the thirty-fifth it overflows to a negative wait, and from the sixty-fifth on it is nothing.
\<close>

theorem backoff_bounds:
  assumes "1 \<le> k" "k \<le> 34" "65 \<le> m"
  shows "backoff k = min (2 ^ (k - 1)) 60 * second \<and> backoff 35 < 0 \<and> backoff m = 0"
  using backoff_doubles [OF assms(1,2)] backoff_overflows backoff_vanishes [OF assms(3)] by simp

lemma backoff_bounds_witness: "backoff 7 = 60 * second \<and> backoff 70 = 0"
  using backoff_bounds [of 7 70] by simp

text \<open>
  The timer of the stall guard fires only while a read is blocked and the body is not closed, a body counts as stalled only after it fired, and every read begun on a stalled body fails as stalled.
\<close>

theorem stall_guard_fires_on_silence:
  assumes "guard_reach es g" "guard_step g e g'"
  shows "(e = Fire \<longrightarrow> sg_reading g \<and> \<not> sg_closed g) \<and> (sg_stalled g' \<longrightarrow> Fire \<in> set (es @ [e]))
    \<and> (\<forall>u stalled. e = Return_read u stalled \<longrightarrow> sg_doomed g \<longrightarrow> u = Failed_read \<and> (stalled \<longleftrightarrow> sg_stalled g))
    \<and> (e = Begin_read \<longrightarrow> sg_stalled g \<longrightarrow> sg_doomed g')"
proof -
  have inv: "guard_inv g" by (rule guard_reach_inv [OF assms(1)])
  have f: "sg_stalled g' \<longrightarrow> Fire \<in> set (es @ [e])" using guard_stalled_fired [OF guard_reach.more [OF assms]] by simp
  show ?thesis using assms(2) inv f by (cases rule: guard_step.cases) (auto simp: guard_inv_def)
qed

lemma stall_guard_fires_on_silence_witness: "\<exists>g g'. guard_step g Fire g' \<and> sg_reading g"
proof -
  let ?g = "newStallGuard\<lparr>sg_reading := True, sg_doomed := sg_down newStallGuard, sg_armed := \<not> sg_stalled newStallGuard \<and> \<not> sg_closed newStallGuard\<rparr>"
  have b: "guard_step newStallGuard Begin_read ?g" by (rule guard_step.begin_read) (simp add: newStallGuard_def)
  have r: "guard_reach ([] @ [Begin_read]) ?g" by (rule guard_reach.more [OF guard_reach.start b])
  have f: "guard_step ?g Fire (?g\<lparr>sg_armed := False, sg_pending := True\<rparr>)"
    by (rule guard_step.fire) (simp add: newStallGuard_def)
  show ?thesis using stall_guard_fires_on_silence [OF r f] f by blast
qed

text \<open>
  What a failed request quotes of the answer is at most 200 bytes and an ellipsis, and where the answer is HTML it holds no tag.
\<close>

theorem error_text_short:
  assumes "has_text (to_lower contentType) ''html'' \<or> has_prefix (trim_space body) ''<''"
  shows "length (errorBody contentType body) \<le> 203 \<and> CHR ''<'' \<notin> set (errorBody contentType body)"
  using errorBody_length [of contentType body] errorBody_no_tags [OF assms] by (simp add: errorBodyLimit_def)

lemma error_text_short_witness: "CHR ''<'' \<notin> set (errorBody [] ''<h1>503</h1>'')"
proof -
  have "has_prefix (trim_space ''<h1>503</h1>'') ''<''" by code_simp
  then show ?thesis using error_text_short [of "[]" "''<h1>503</h1>''"] by blast
qed

text \<open>
  The normal form of a package URL parses to the same package, is its own normal form, and starts with the lower-cased scheme and type.
\<close>

theorem normal_form_same_package:
  assumes "parsePackage s = Some p"
  shows "parsePackage (normalisePackage s) = Some p
    \<and> normalisePackage (normalisePackage s) = normalisePackage s
    \<and> has_prefix (normalisePackage s) (''pkg:'' @ k_Type p @ ''/'')"
  using assms by (rule normalise_shape)

lemma normal_form_same_package_witness:
  "\<exists>p. parsePackage ''PKG://NPM/@babel/core#lib/x'' = Some p
     \<and> parsePackage (normalisePackage ''PKG://NPM/@babel/core#lib/x'') = Some p"
proof -
  have "parsePackage ''PKG://NPM/@babel/core#lib/x'' \<noteq> None" by code_simp
  then obtain p where "parsePackage ''PKG://NPM/@babel/core#lib/x'' = Some p" by blast
  then show ?thesis using normal_form_same_package by blast
qed

text \<open>
  Every component of a CycloneDX document that can be read, nested up to 64 levels deep, is in the inventory under its identity.
\<close>

theorem cyclonedx_contained:
  assumes "ParseCycloneDX doc = Inr cs" "raw \<in> set (fst (raws_field ''components'' doc))" "contained raw n node"
    "n \<le> maxNesting" "k \<in> set (own_component node)"
  shows "\<exists>c \<in> set cs. dedupe_key c = dedupe_key k"
  using assms by (rule cyclonedx_complete)

lemma cyclonedx_contained_witness:
  "\<exists>cs. ParseCycloneDX bom_json = Inr cs \<and> (\<exists>c \<in> set cs. dedupe_key c = dedupe_key inner_component)"
proof -
  obtain cs where cs: "ParseCycloneDX bom_json = Inr cs" using bom_parses by blast
  have "1 \<le> maxNesting" "inner_component \<in> set (own_component library_json)"
    by (simp_all add: maxNesting_def library_component)
  from cyclonedx_contained [OF cs bom_holds wrapper_contains this] cs show ?thesis by blast
qed

text \<open>
  When a list of package URLs is accepted, every entry is either among the components, under its identity, or reported as skipped with its line.
\<close>

theorem purl_entries_accounted:
  assumes "purlComponents entries = Inr (comps, skips)" "(n, t) \<in> set entries"
  shows "(\<exists>p c. parsePackage t = Some p \<and> c \<in> set comps
      \<and> dedupe_key c = dedupe_key (componentFromPURL p (normalisePackage t) ''purl-list''))
    \<or> (parsePackage t = None \<and> (\<exists>s \<in> set skips. sk_Line s = n \<and> sk_Text s = t))"
  using assms by (rule purl_entries_kept)

lemma purl_entries_accounted_witness:
  "\<exists>skips. purlComponents [(7, ''nonsense'')] = Inr ([], skips) \<and> (\<exists>s \<in> set skips. sk_Line s = 7)"
proof -
  have no: "parsePackage ''nonsense'' = None" by code_simp
  then have "purlComponents [(7, ''nonsense'')] = Inr ([], [\<lparr>sk_Line = 7, sk_Text = ''nonsense'', sk_Reason = ''not a package URL''\<rparr>])"
    by (simp add: purlComponents_def bad_step_def dedupe_components_def)
  from purl_entries_accounted [OF this, of 7 "''nonsense''"] this no show ?thesis by auto
qed

text \<open>
  A CPE 2.2 URI rebound by the inventory is a 2.3 string from which the matcher reads the attributes it reads from the URI itself, lower-cased.
\<close>

theorem cpe_uri_rebound:
  assumes "has_prefix (to_lower s) ''cpe:/''" "trim_space s = s" "list_all solid (uri_attrs (drop 5 s))"
  shows "\<exists>a u. parseCPE (cpe23 s) = Some a \<and> parseCPE s = Some u
    \<and> map unquoteCPE (cpe_fields a) = map to_lower (cpe_fields u)"
  using assms by (rule rebound_read)

lemma cpe_uri_rebound_witness:
  "\<exists>a u. parseCPE (cpe23 ''cpe:/a:acme:gizmo:1.0%2bx::~~~wordpress~~'') = Some a
     \<and> parseCPE ''cpe:/a:acme:gizmo:1.0%2bx::~~~wordpress~~'' = Some u
     \<and> map unquoteCPE (cpe_fields a) = map to_lower (cpe_fields u)"
proof -
  let ?s = "''cpe:/a:acme:gizmo:1.0%2bx::~~~wordpress~~''"
  have "has_prefix (to_lower ?s) ''cpe:/''" by code_simp
  moreover have "trim_space ?s = ?s" by code_simp
  moreover have "list_all solid (uri_attrs (drop 5 ?s))" by code_simp
  ultimately show ?thesis by (rule cpe_uri_rebound)
qed

text \<open>
  A component read from the dpkg status file comes from a stanza whose Status field ends in installed or one of the two trigger states.
\<close>

theorem removed_package_absent:
  assumes "c \<in> set (parseDpkgStatus content host)"
  shows "\<exists>stanza \<in> set (splitStanzas content). c \<in> set (dpkg_stanza host stanza)
    \<and> string_fields (get_field (stanzaFields stanza) ''Status'') ! 2 \<in> {''installed'', ''triggers-awaited'', ''triggers-pending''}"
proof -
  obtain stanza where st: "stanza \<in> set (splitStanzas content)" "c \<in> set (dpkg_stanza host stanza)"
    using assms by (auto simp: parseDpkgStatus_def)
  then have "dpkg_stanza host stanza \<noteq> []" by auto
  from dpkg_stanza_installed [OF this] st show ?thesis unfolding dpkgStatusInstalled_def by blast
qed

lemma removed_package_absent_witness:
  "\<exists>c stanza. c \<in> set (parseDpkgStatus dpkg_database bookworm) \<and> stanza \<in> set (splitStanzas dpkg_database)
     \<and> c \<in> set (dpkg_stanza bookworm stanza)"
proof -
  obtain c where "c \<in> set (parseDpkgStatus dpkg_database bookworm)"
    using dpkg_database_read by (cases "parseDpkgStatus dpkg_database bookworm") auto
  then show ?thesis using removed_package_absent by blast
qed

text \<open>
  The loop that picks the primary score picks, of the statements with a score or a vector, the first of least weight: scored before unscored, then the newer CVSS version, then the better source; with no such statement it picks none.
\<close>

theorem primary_score_is_first_least:
  "case PickPrimarySeverity sevs of
     None \<Rightarrow> filter usable_score sevs = []
   | Some s \<Rightarrow> (\<exists>a b. filter usable_score sevs = a @ s # b
       \<and> list_all (\<lambda>y. severity_weight s < severity_weight y) a \<and> list_all (\<lambda>y. severity_weight s \<le> severity_weight y) b)"
  using PickPrimary_least [of sevs] by (auto simp: first_least_def list_all_iff split: option.splits)

text \<open>
  Every port specification ParsePorts accepts, with whichever ranking the machine has, gives a strictly ascending list of port numbers from 1 to 65535.
\<close>

theorem ports_accepted:
  assumes "ParsePorts (fst (loadRanking parse_float disk files)) spec = Inr ps"
  shows "sorted ps \<and> distinct ps \<and> list_all (\<lambda>p. 1 \<le> p \<and> p \<le> 65535) ps"
  using ParsePorts_props [OF assms] loadRanking_ok [of parse_float disk files] unfolding port_set_def by blast

lemma ports_accepted_witness: "sorted [22, 80, 81 :: int] \<and> distinct [22, 80, 81 :: int]"
  using ports_accepted [OF ParsePorts_example] by blast

text \<open>
  The port list rendered for an external scanner reads back as the same set of ports.
\<close>

theorem ports_round_trip:
  assumes "ports \<noteq> []" "port_set ports"
  shows "ParsePorts ranked (portList ports) = Inr (sort (remdups ports))"
  using assms by (rule ParsePorts_portList)

lemma ports_round_trip_witness: "ParsePorts [] (portList [80, 22, 81]) = Inr [22, 80, 81]"
  using ports_round_trip [of "[80, 22, 81]" "[]"] by (simp add: port_set_def)

text \<open>
  A target validateTarget accepts holds no shell metacharacter, comma or space, does not start with a dash, and is an address or has only letters, digits, dots, hyphens and underscores with a letter among them.
\<close>

theorem target_not_an_option:
  assumes "validateTarget is_ip t = None"
  shows "trim_space t \<noteq> [] \<and> hd (trim_space t) \<noteq> CHR ''-'' \<and> set (trim_space t) \<inter> set shell_chars = {}
    \<and> (is_ip (trim_space t)
       \<or> (list_all (\<lambda>c. label_char c \<or> c = CHR ''.'') (trim_space t) \<and> list_ex letter_char (trim_space t)))"
  using assms by (rule validateTarget_accepts)

lemma target_not_an_option_witness: "set ''db-1.example.com'' \<inter> set shell_chars = {}"
proof -
  have "validateTarget (\<lambda>_. False) ''db-1.example.com'' = None" by code_simp
  moreover have "trim_space ''db-1.example.com'' = ''db-1.example.com''" by code_simp
  ultimately show ?thesis using target_not_an_option [of "\<lambda>_. False" "''db-1.example.com''"] by simp
qed

text \<open>
  The walk over a CIDR block of up to 40 host bits calls back on exactly Len different addresses, all inside the block, and on neither the network nor the broadcast address of an IPv4 block wider than a /31.
\<close>

theorem walk_visits_what_it_announces:
  assumes "ParseTargets parse_prefix parse_addr is_ip spec = Inr t" "tg_prefix t = Some p" "host_bits p \<le> 40"
    and "\<And>s q. parse_prefix s = Some q \<Longrightarrow> ip_bits q \<le> bit_len (ip_is4 q) \<and> ip_value q < 2 ^ bit_len (ip_is4 q)"
  shows "each addr_string t = map (addr_string (ip_is4 p)) (visited p)
    \<and> int (length (visited p)) = Len t \<and> distinct (visited p) \<and> list_all (contains p) (visited p)
    \<and> (skip_edges p \<longrightarrow> ip_value p \<notin> set (visited p) \<and> list_all (\<lambda>v. \<not> isBroadcast p v) (visited p))"
proof -
  obtain q where "parse_prefix (trim_space spec) = Some q" "p = masked q"
    using assms(1,2) by (auto simp: ParseTargets_def Let_def split: if_splits option.splits)
  then have "proper_prefix p" using assms(4) masked_proper by blast
  then show ?thesis using length_visited [OF _ assms(3,2)] visited_block assms(2) by (simp add: each_def)
qed

lemma walk_visits_what_it_announces_witness:
  "int (length (visited (masked quad))) = 2 \<and> distinct (visited (masked quad))"
proof -
  have t: "ParseTargets quad_prefix (\<lambda>_. None) (\<lambda>_. False) ''192.168.1.3/30''
      = Inr \<lparr>tg_spec = ''192.168.1.3/30'', tg_prefix = Some (masked quad), tg_single = None\<rparr>"
    by (rule quad_target)
  have bits: "ip_bits q \<le> bit_len (ip_is4 q) \<and> ip_value q < 2 ^ bit_len (ip_is4 q)" if "quad_prefix s = Some q" for s q
    using that by (rule quad_prefix_fits)
  have "int (length (visited (masked quad))) = Len \<lparr>tg_spec = ''192.168.1.3/30'', tg_prefix = Some (masked quad), tg_single = None\<rparr>
     \<and> distinct (visited (masked quad))"
    using walk_visits_what_it_announces [OF t _ _ bits, of "masked quad"] quad_bits by simp
  then show ?thesis using quad_Len by simp
qed

text \<open>
  The windows osvRanges builds hold every event of a one-member-per-event stream, in order: reading the events back off the windows gives the stream.
\<close>

theorem osv_events_read_back:
  assumes "list_all one_member evs"
  shows "concat (map window_events (osvRanges ty repo evs)) = orderedEvents evs"
  using assms by (rule osvRanges_back)

lemma osv_events_read_back_witness:
  "concat (map window_events (osvRanges ''SEMVER'' [] [fixed_at ''2'', introduced_at ''1'']))
     = [introduced_at ''1'', fixed_at ''2'']"
proof -
  have "list_all one_member [fixed_at ''2'', introduced_at ''1'']" by code_simp
  moreover have "orderedEvents [fixed_at ''2'', introduced_at ''1''] = [introduced_at ''1'', fixed_at ''2'']" by code_simp
  ultimately show ?thesis using osv_events_read_back by metis
qed

text \<open>
  An OSV record becomes a vulnerability under its normalised identifier that loses none of the other identifiers the record names, and whose aliases name at most one CVE and come from the record's own aliases.
\<close>

theorem osv_record_identity:
  assumes "OSVToModel time_parse parse_float (Inr doc) source = Inr v"
  shows "v_ID v = NormalizeID (osv_ID doc) \<and> countCVEs (v_Aliases v) \<le> 1
    \<and> set (v_Aliases v) \<union> set (v_Related v) = named_others (v_ID v) doc
    \<and> set (v_Aliases v) \<subseteq> trim_space ` set (osv_Aliases doc)"
  using assms by (rule OSVToModel_identity)

lemma osv_record_identity_witness:
  "\<exists>v :: nat Vulnerability. OSVToModel (\<lambda>_ _. None) (\<lambda>_. None) (Inr bundle_record) ''osv'' = Inr v
     \<and> countCVEs (v_Aliases v) \<le> 1 \<and> ''CVE-2024-2'' \<in> set (v_Aliases v) \<union> set (v_Related v)"
proof -
  obtain v :: "nat Vulnerability" where v: "OSVToModel (\<lambda>_ _. None) (\<lambda>_. None) (Inr bundle_record) ''osv'' = Inr v"
    using bundle_parses by blast
  have "v_ID v = ''GHSA-1''" using osv_record_identity [OF v] bundle_id by simp
  then show ?thesis using v osv_record_identity [OF v] bundle_named by auto
qed

text \<open>
  A base score computed from a CVSS vector is a whole number of tenths between 0 and 10.
\<close>

theorem cvss_score_range:
  assumes "cvssBaseScore vec = Some x"
  shows "\<exists>n \<le> 100 :: nat. x = of_nat n / 10"
  using cvssBaseScore_tenths [OF assms] unfolding tenths_def .

lemma cvss_score_range_witness:
  "\<exists>n \<le> 100 :: nat. (98 / 10 :: rat) = of_nat n / 10"
  by (rule cvss_score_range [OF scope_missing(1)])

text \<open>
  The CPE applicability rows of an NVD record are one for each product its live match criteria name, in the sorted order, each with the criteria of that product and its bounded windows and nothing else.
\<close>

theorem nvd_rows:
  assumes "r \<in> set (cpeAffected configs source)"
  shows "set (map row_key (cpeAffected configs source)) = key_of ` set (live_matches configs)
    \<and> distinct (map row_key (cpeAffected configs source))
    \<and> sorted_wrt key_less (map row_key (cpeAffected configs source))
    \<and> set (af_CPEs r) = trim_space ` cm_Criteria ` set (of_key (row_key r) (live_matches configs)) - {[]}
    \<and> set (af_Ranges r) = {w \<in> match_range ` set (of_key (row_key r) (live_matches configs)). states_bound w}"
  using cpeAffected_keys cpeAffected_criteria [OF assms] cpeAffected_ranges [OF assms] by blast

lemma nvd_rows_witness:
  "\<exists>r. cpeAffected [one_config] ''nvd'' = [r] \<and> set (af_CPEs r) = {''cpe:2.3:a:acme:gizmo:*:*:*:*:*:*:*:*''}"
proof -
  obtain r where r: "cpeAffected [one_config] ''nvd'' = [r]" using one_config_row by blast
  then have "set (af_CPEs r) = trim_space ` cm_Criteria ` set (of_key (row_key r) (live_matches [one_config])) - {[]}"
    using nvd_rows [of r "[one_config]" "''nvd''"] by simp
  moreover have "of_key (row_key r) (live_matches [one_config]) = [one_match]"
    using one_config_key r by simp
  moreover have "trim_space (cm_Criteria one_match) = ''cpe:2.3:a:acme:gizmo:*:*:*:*:*:*:*:*''" by code_simp
  ultimately show ?thesis using r by simp
qed

text \<open>
  The rows of one product of a CVE 5 container carry pairwise different statuses, in the order of the status vocabulary.
\<close>

theorem cve5_rows_by_status:
  "\<exists>sts. map af_Status (cve5_affected source a) = map status_text sts \<and> distinct sts
     \<and> sts = filter (\<lambda>st. st \<in> set sts) Statuses"
  by (rule cve5_affected_statuses)

text \<open>
  A banner is reported as exactly the products of the rules that match it, each once, whatever rules name the same product.
\<close>

theorem banner_names_each_product_once:
  assumes "trim_space banner \<noteq> []"
  shows "distinct (map (\<lambda>s. (sv_Vendor s, sv_Product s)) (IdentifyAll port banner))
    \<and> set (map (\<lambda>s. (sv_Vendor s, sv_Product s)) (IdentifyAll port banner))
        = (\<lambda>r. (br_vendor r, br_product r)) ` {r \<in> set banner_rules. \<exists>u t hs. trim_space banner = u @ t \<and> reads (br_re r) (rev u) t [] [] hs}"
  using IdentifyAll_keys(1) [of port banner] IdentifyAll_keys(2) [OF assms, of port] search_matches
  unfolding rule_key_def by simp

lemma banner_names_each_product_once_witness: "distinct (map (\<lambda>s. (sv_Vendor s, sv_Product s)) (IdentifyAll 22 ssh_banner))"
proof -
  have "trim_space ssh_banner \<noteq> []" by code_simp
  then show ?thesis using banner_names_each_product_once by blast
qed

text \<open>
  In every reachable state the pool works on no more jobs than it has goroutines, and the jobs handed out are a prefix of what the producer yields, each either running or finished and none twice.
\<close>

theorem pool_bounded:
  assumes "pool_reach n jobs s"
  shows "length (busy s) \<le> slots n
    \<and> (\<exists>handed. jobs = handed @ todo s \<and> mset handed = mset (busy s) + mset (finished s))"
  using pool_reach_inv [OF assms] by (simp add: pool_inv_def)

lemma pool_bounded_witness: "\<exists>handed. [''a'', ''b''] = handed @ [] \<and> mset handed = mset [''b'', ''a'']"
  using pool_bounded [OF pool_example] by simp

text \<open>
  A scan that succeeds reports how it was done: an engine asked for by name was installed and used, nmap is named only where it ran, a scan declines only a target above the bound and says so, and the prober taken as a fallback stays within the bound or within what masscan found; the report counts the hosts it lists, in order.
\<close>

theorem scan_reports_how:
  assumes "Run_scan parse w opt target ports = Inr s"
  shows "\<exists>tg. parse target = Inr tg \<and> sw_HostsTotal s = Len tg \<and> sw_HostsUp s = int (length (sw_Hosts s))
    \<and> sorted (map host_name (sw_Hosts s))
    \<and> (op_Engine opt = ''nmap'' \<longrightarrow> wd_hasNmap w \<and> pl_Identification (sw_Plan s) = ''nmap -sV'' \<and> \<not> sw_Declined s)
    \<and> (op_Engine opt = ''masscan'' \<longrightarrow> wd_hasMasscan w \<and> pl_Discovery (sw_Plan s) \<in> set masscan_labels)
    \<and> (op_Engine opt = ''builtin'' \<longrightarrow> pl_Identification (sw_Plan s) = ''builtin'' \<and> \<not> sw_Declined s)
    \<and> (pl_Identification (sw_Plan s) = ''nmap -sV'' \<longrightarrow> wd_hasNmap w)
    \<and> (sw_Declined s \<longrightarrow> pl_Identification (sw_Plan s) = ''not attempted''
         \<and> probeCount (Len tg) (int (length ports)) > maxBuiltinProbes)
    \<and> (pl_Identification (sw_Plan s) = ''builtin'' \<and> op_Engine opt \<noteq> ''builtin''
         \<longrightarrow> probeCount (Len tg) (int (length ports)) \<le> maxBuiltinProbes
           \<or> (\<exists>found. found \<noteq> [] \<and> masscanSweep w opt tg ports = Inr found))"
proof -
  obtain tg where tg: "parse target = Inr tg" "run_target w opt tg ports = Inr s"
    using assms by (auto simp: Run_scan_def split: sum.splits)
  show ?thesis using run_target_accounted [OF tg(2)] tg(1) unfolding accounted_def Scan_Plan.reported_def by auto
qed

lemma scan_reports_how_witness:
  "\<exists>s. Run_scan single_target nmap_world \<lparr>op_Engine = ''nmap'', op_Rate = 0\<rparr> ''10.0.0.9'' [80, 23] = Inr s
     \<and> pl_Identification (sw_Plan s) = ''nmap -sV''"
proof -
  obtain s where "Run_scan single_target nmap_world \<lparr>op_Engine = ''nmap'', op_Rate = 0\<rparr> ''10.0.0.9'' [80, 23] = Inr s"
    using nginx_scan by blast
  with scan_reports_how [OF this] show ?thesis by auto
qed

text \<open>
  With no tool installed, a target that needs more connections than the prober takes on unasked is declined with no host in the report, and not one of its ports is asked anything: the outcome is the same whatever the network would have answered.
\<close>

theorem declined_target_not_touched:
  assumes "\<not> wd_hasNmap w" "\<not> wd_hasMasscan w" "op_Engine opt \<notin> {''builtin'', ''nmap'', ''masscan''}"
    and "probeCount (Len tg) (int (length ports)) > maxBuiltinProbes"
  shows "\<exists>s. sw_Declined s \<and> sw_Hosts s = [] \<and> pl_Identification (sw_Plan s) = ''not attempted''
    \<and> (\<forall>net. run_target (w\<lparr>wd_net := net\<rparr>) opt tg ports = Inr s)"
proof -
  let ?s = "(new_sweep tg ports)\<lparr>sw_Plan := \<lparr>pl_Discovery = ''direct'', pl_Identification = ''not attempted'',
        pl_Note = no_masscan_note @ ''; '' @ declined_note tg (int (length ports)) (probeCount (Len tg) (int (length ports))) ''nothing was examined''\<rparr>,
      sw_Declined := True\<rparr>"
  have "run_target (w\<lparr>wd_net := net\<rparr>) opt tg ports = Inr ?s" for net
    using assms by (intro declined_untouched) simp_all
  then show ?thesis by (intro exI [of _ ?s]) (simp add: new_sweep_def)
qed

lemma declined_target_not_touched_witness:
  "\<exists>s. sw_Declined s \<and> run_target bare_world \<lparr>op_Engine = ''auto'', op_Rate = 0\<rparr> wide_target (replicate 1000 80) = Inr s"
proof -
  let ?o = "\<lparr>op_Engine = ''auto'', op_Rate = 0\<rparr>"
  have "\<not> wd_hasNmap bare_world" "\<not> wd_hasMasscan bare_world" "op_Engine ?o \<notin> {''builtin'', ''nmap'', ''masscan''}"
    by (simp_all add: bare_world_def nmap_world_def)
  from declined_target_not_touched [OF this wide_work]
  obtain s where s: "sw_Declined s" "\<forall>net. run_target (bare_world\<lparr>wd_net := net\<rparr>) ?o wide_target (replicate 1000 80) = Inr s" by blast
  have "bare_world\<lparr>wd_net := wd_net bare_world\<rparr> = bare_world" by simp
  then show ?thesis using s by metis
qed

text \<open>
  A host read from an nmap run counts every port nmap lists and reports every open one exactly once, as a service or as an unidentified port, both in the order of the ports; closed and filtered ports appear nowhere.
\<close>

theorem nmap_ports_accounted:
  assumes "parseNmapXML unmarshal b = Inr rs" "r \<in> set rs"
  shows "\<exists>hosts h. unmarshal b = Inr hosts \<and> h \<in> set hosts \<and> rs_Scanned r = int (length (nh_Ports h)) \<and> rs_Host r \<noteq> []
    \<and> mset (map sv_Port (rs_Open r) @ map un_Port (rs_Unidentified r))
        = mset (map np_PortID (filter (\<lambda>p. np_State p = ''open'') (nh_Ports h)))
    \<and> sorted (map sv_Port (rs_Open r)) \<and> sorted (map un_Port (rs_Unidentified r))"
proof -
  obtain hosts h where h: "unmarshal b = Inr hosts" "h \<in> set hosts" "nmap_result h = Some r"
    using parseNmapXML_from [OF assms] by blast
  show ?thesis using nmap_result_ports [OF h(3)] h(1,2) unfolding open_ports_def by blast
qed

lemma nmap_ports_accounted_witness: "\<exists>r :: Scan_Results.Result. mset (map sv_Port (rs_Open r) @ map un_Port (rs_Unidentified r)) = mset [80]"
proof -
  obtain r where r: "parseNmapXML (wd_xml nmap_world) ''<xml>'' = Inr [r]" using nginx_read by blast
  from nmap_ports_accounted [OF r, of r]
  obtain hosts h where "wd_xml nmap_world ''<xml>'' = Inr hosts" "h \<in> set hosts"
      "mset (map sv_Port (rs_Open r) @ map un_Port (rs_Unidentified r)) = mset (map np_PortID (filter (\<lambda>p. np_State p = ''open'') (nh_Ports h)))"
    by auto
  moreover have "h = nginx_host" using calculation(1,2) by (auto simp: nmap_world_def)
  moreover have "mset (map np_PortID (filter (\<lambda>p. np_State p = ''open'') (nh_Ports nginx_host))) = mset [80]"
    by (simp add: nginx_host_def nginx_port_def)
  ultimately have "mset (map sv_Port (rs_Open r) @ map un_Port (rs_Unidentified r)) = mset [80]" by simp
  then show ?thesis by blast
qed

text \<open>
  A service read from nmap carries a version only where nmap stated one: the version of its first application CPE name, or, without any, the version attribute when that is a single word starting with a digit.
\<close>

theorem nmap_version_stated:
  assumes "serviceFromNmap port prd version cpes name extra = Some s" "sv_Version s \<noteq> []"
  shows "(\<exists>raw \<in> set cpes. splitCPE22 raw = Some (sv_Vendor s, sv_Product s, sv_Version s))
    \<or> (list_all (\<lambda>raw. splitCPE22 raw = None) cpes \<and> sv_Version s = trim_space version \<and> looksLikeVersion (sv_Version s))"
proof (cases "first_app cpes")
  case None
  then have v: "sv_Version s = (if looksLikeVersion (trim_space version) then trim_space version else [])"
    using serviceFromNmap_version [OF assms(1)] by simp
  then have "looksLikeVersion (trim_space version)" using assms(2) by (cases "looksLikeVersion (trim_space version)") simp_all
  then show ?thesis using v None first_app_None by simp
next
  case (Some a)
  then show ?thesis using serviceFromNmap_version [OF assms(1)] first_app_from [OF Some] by simp
qed

lemma nmap_version_stated_witness:
  "\<exists>s. serviceFromNmap 5432 ''PostgreSQL DB'' ''9.6.0 or later'' [''cpe:/a:postgresql:postgresql:16.15''] [] [] = Some s \<and> sv_Version s = ''16.15''"
proof -
  have "case serviceFromNmap 5432 ''PostgreSQL DB'' ''9.6.0 or later'' [''cpe:/a:postgresql:postgresql:16.15''] [] [] of None \<Rightarrow> False
    | Some s \<Rightarrow> sv_Version s \<noteq> []" by code_simp
  then obtain s where s: "serviceFromNmap 5432 ''PostgreSQL DB'' ''9.6.0 or later'' [''cpe:/a:postgresql:postgresql:16.15''] [] [] = Some s" "sv_Version s \<noteq> []"
    by (auto split: option.splits)
  have "splitCPE22 ''cpe:/a:postgresql:postgresql:16.15'' = Some (''postgresql'', ''postgresql'', ''16.15'')" by code_simp
  then show ?thesis using nmap_version_stated [OF s] s by auto
qed

text \<open>
  Reconciling the vendors with the cache gives what asking the corpus for every service gives, and each service keeps its port, product and version and changes its vendor exactly where the corpus knows the product only under others, with a note when a reported vendor was replaced.
\<close>

theorem vendors_settled:
  "reconcile_open vendors_for Map.empty ss = reconcile_plain vendors_for ss
   \<and> (case reconcile_open vendors_for Map.empty ss of Inl _ \<Rightarrow> True | Inr out \<Rightarrow> list_all2 (vendor_settled vendors_for) ss out)"
proof -
  have "reconcile_open vendors_for Map.empty ss = reconcile_plain vendors_for ss" by (rule reconcile_cached) simp
  then show ?thesis using reconcile_plain_settled [of vendors_for ss] by (simp split: sum.splits)
qed

text \<open>
  However the output of a tool is cut into writes, the watcher ends in the state one write of the whole would leave it in, with the same progress reported and only an unfinished line kept.
\<close>

theorem progress_any_cut:
  "fold (watcher_Write parse_float hundredths settable) (p # ps) w = watcher_Write parse_float hundredths settable (concat (p # ps)) w
   \<and> list_all (\<lambda>c. \<not> line_break c) (pw_partial (watcher_Write parse_float hundredths settable p w))"
proof -
  have "fold (watcher_Write parse_float hundredths settable) ps (watcher_Write parse_float hundredths settable p w)
      = watcher_Write parse_float hundredths settable (p @ concat ps) w" for p
  proof (induction ps arbitrary: p)
    case (Cons q ps)
    show ?case using Cons.IH [of "p @ q"] by (simp add: watcher_Write_append)
  qed simp
  then show ?thesis using drain_partial by (simp add: watcher_Write_def)
qed

text \<open>
  The ports discovery hands on for an address are exactly the open TCP ports masscan reported for it, in ascending order, and no address appears twice or with nothing open.
\<close>

theorem masscan_ports_exact:
  assumes "parseMasscanHosts unmarshal b = Inr found" "trim_space b \<noteq> []"
  shows "\<exists>hosts. unmarshal (trim_space b) = Inr hosts \<and> distinct (map fst found) \<and> list_all (\<lambda>(ip, ps). ip \<noteq> [] \<and> ps \<noteq> []) found
    \<and> sorted (ports_of found ip)
    \<and> set (ports_of found ip) = {p. ip \<noteq> [] \<and> (\<exists>h \<in> set hosts. mh_IP h = ip \<and> (\<exists>q \<in> set (mh_Ports h). open_tcp q \<and> mp_Port q = p))}"
proof -
  obtain hosts where "unmarshal (trim_space b) = Inr hosts" "found_ok found" "sorted (ports_of found ip)"
      "set (ports_of found ip) = {p. ip \<noteq> [] \<and> (\<exists>h \<in> set hosts. mh_IP h = ip \<and> (\<exists>q \<in> set (mh_Ports h). open_tcp q \<and> mp_Port q = p))}"
    using parseMasscanHosts_props [OF assms, of ip] by blast
  then show ?thesis unfolding found_ok_def by (auto simp: list_all_iff)
qed

lemma masscan_ports_exact_witness:
  "\<exists>found. parseMasscanHosts (\<lambda>_. Inr [\<lparr>mh_IP = ''10.0.0.1'', mh_Ports = [\<lparr>mp_Port = 80, mp_Proto = ''tcp'', mp_Status = ''open''\<rparr>]\<rparr>]) ''x'' = Inr found
     \<and> sorted (ports_of found ''10.0.0.1'')"
proof -
  let ?h = "[\<lparr>mh_IP = ''10.0.0.1'', mh_Ports = [\<lparr>mp_Port = 80, mp_Proto = ''tcp'', mp_Status = ''open''\<rparr>]\<rparr>]"
  have t: "trim_space ''x'' \<noteq> []" by code_simp
  then obtain found where f: "parseMasscanHosts (\<lambda>_. Inr ?h) ''x'' = Inr found" by (simp add: parseMasscanHosts_def Let_def)
  show ?thesis using masscan_ports_exact [OF f t, of "''10.0.0.1''"] f by blast
qed

text \<open>
  A scanned host reports every port that answered, as a service or as an unidentified port, and no port that did not; the text it carries of a banner is bounded and holds no control character.
\<close>

theorem answering_ports_reported:
  "sv_Port ` set (rs_Open (scan_host net addr host ports finished_ports))
     \<union> un_Port ` set (rs_Unidentified (scan_host net addr host ports finished_ports))
   = {p \<in> set finished_ports. \<exists>out. probe (net p) host p = Inr out}
   \<and> list_all Fingerprint.printable (truncateBanner b) \<and> length (truncateBanner b) \<le> maxBannerBytes + 3"
  using scan_host_ports [of net addr host ports finished_ports] truncateBanner_props [of b] by (simp add: result_ports_def)

text \<open>
  What the lookup returns for a component is a row of the table that shares a lookup key with it, and no two rows returned for it are one statement.
\<close>

theorem lookup_returns_asked:
  assumes "keys_of qs keys" "FindAffectedCandidates limit (\<lambda>_. Inr table) keys qs = Inr found"
  shows "set (cs_Statements found i) \<subseteq> {st \<in> set table. i < length qs \<and> shares_key (qs ! i) st}
    \<and> distinct (map statement_key (cs_Statements found i))"
proof
  show "set (cs_Statements found i) \<subseteq> {st \<in> set table. i < length qs \<and> shares_key (qs ! i) st}"
    using Find_sound [OF assms] by blast
  obtain raw where "cs_Statements found i = dedupeStatements raw" using Find_result [OF assms, of i] by blast
  then show "distinct (map statement_key (cs_Statements found i))" by (simp add: dedupe_props(3))
qed

lemma lookup_returns_asked_witness:
  "\<exists>found. store_lookup maxCandidatesPerQuery [affected_row] each_key_once [query_of openssl] = Inr found
     \<and> distinct (map statement_key (cs_Statements found 0))"
  using openssl_lookup lookup_returns_asked [OF each_key_once_ok] unfolding store_lookup_def by blast

text \<open>
  A component is reported truncated exactly when one of its lookup keys has more rows in the table than the limit.
\<close>

theorem truncation_reported:
  assumes "keys_of qs keys" "FindAffectedCandidates limit (\<lambda>_. Inr table) keys qs = Inr found"
  shows "cs_Truncated found i =
    (i < length qs \<and> list_ex (\<lambda>k. limit < length (filter (\<lambda>st. row_has_key st k) table)) (query_keys (qs ! i)))"
  using Find_truncated [OF assms] unfolding matching_def .

lemma truncation_reported_witness:
  "\<exists>found. store_lookup 0 [affected_row] each_key_once [query_of openssl] = Inr found \<and> cs_Truncated found 0"
proof -
  obtain found where f: "store_lookup 0 [affected_row] each_key_once [query_of openssl] = Inr found"
    using Find_defined unfolding store_lookup_def by blast
  have "list_ex (\<lambda>k. 0 < length (filter (\<lambda>st. row_has_key st k) [affected_row])) (query_keys (query_of openssl))"
    by code_simp
  then show ?thesis
    using f truncation_reported [OF each_key_once_ok f [unfolded store_lookup_def], of 0] by simp
qed

text \<open>
  The Go function that derives a package URL's lookup key and the SQL expression the index is built on give the same key for every string.
\<close>

theorem purl_key_sql_agrees: "normalisePURL p = purlKeyExpr p"
  by (rule purl_keys_agree)

text \<open>
  A query of the lookup that fails fails the whole lookup; no partial answer is returned.
\<close>

theorem failed_query_fails_lookup:
  assumes "qs \<noteq> []" "list_ex (\<lambda>k. kind_of k = kind) keys" "db kind = Inl e"
  shows "isl (FindAffectedCandidates limit db keys qs)"
  using assms by (rule Find_error)

lemma failed_query_fails_lookup_witness:
  "isl (FindAffectedCandidates 2000 (\<lambda>k. if k = NameKind then Inl ''gone'' else Inr [affected_row])
     (query_keys (query_of openssl)) [query_of openssl])"
  by (rule failed_query_fails_lookup [of _ NameKind]) (simp, code_simp, simp)

text \<open>
  A component and a statement the matcher calls a confirmed match, because PyPI names are folded, share no lookup key, so the scan never compares them.
\<close>

theorem folded_names_missed:
  "fst (Evaluate flask_component (toAffected folded_row)) = Match
   \<and> ev_Confidence (snd (Evaluate flask_component (toAffected folded_row))) = Some Confirmed
   \<and> \<not> shares_key (query_of flask_component) folded_row"
  using folded_row_missed by blast

end
