(* ===== verification/Spec2Isabelle.thy ===== *)
theory Spec2Isabelle
  imports Further_Results
begin

text \<open>
  Verification of the decision core of cvefeed (\<open>src/\<close>): the part that says whether a vulnerability
  statement applies to an installed component, and what a scan reports.

  \<^bold>\<open>The program.\<close> Feed records are parsed into vulnerabilities with applicability rows (\<open>internal/parse\<close>).
  A scan asks the store for the rows that could describe each component of an inventory (\<open>internal/scan\<close>,
  \<open>internal/store/scan.go\<close>), tests each against the component (\<open>internal/match\<close>), which ties the two together
  by an identity channel (purl, CPE, ecosystem and name, vendor and product, name) and then tests the version
  against windows, lists and patterns, every comparison being made by a version ordering (\<open>internal/version\<close>)
  picked from the declared range type and the ecosystem. Identifiers, status words and ratings are normalised
  in \<open>internal/model\<close>. An inventory is read from an SBOM, a list of package URLs or the package databases of the
  host (\<open>internal/inventory\<close>), or comes from a network scan (\<open>internal/netscan\<close>), which probes the ports of a target
  with an external tool or a pool of goroutines of its own and reads products off the banners. The feeds are
  fetched by an HTTP client with a rate limit, retries and a recorder (\<open>internal/httpx\<close>), and all of it is configured
  from the environment and a .env file (\<open>internal/config\<close>). What the feeds say of one vulnerability the store merges into one
  document, filed under one identifier with every other name as an alias (\<open>internal/store/store.go\<close>). A collector walks one
  feed from a cursor and hands its records to a sink, whose workers merge them; the runner keeps the cursor of a
  source where it was as long as one of its records was not merged (\<open>internal/collect\<close>).

  \<^bold>\<open>Theories.\<close>
  \<^item> Prelude: the Go string functions the program calls, on \<open>char list\<close>, one \<open>char\<close> a byte.
  \<^item> Three_Way: the locale of a three-way comparator (range, antisymmetry, transitivity) and the ways the
    code builds one: a chain of keys, a list padded with a default, a lexicographic list.
  \<^item> Tokens, Sentinel: \<open>tokens.go\<close>, \<open>sentinel.go\<close> and the operand tests of \<open>version.go\<close>.
  \<^item> Debian_Order, Rpm_Order, Generic_Order, Semver_Order, Alpine_Order, Python_Order, Maven_Order: one
    ordering each (\<open>debian.go\<close>, \<open>rpm.go\<close>, \<open>generic.go\<close>, \<open>semver.go\<close> with \<open>gomod.go\<close>, \<open>alpine.go\<close>,
    \<open>python.go\<close>, \<open>maven.go\<close>). An answer is \<open>Some (sign, certainty)\<close>, a refusal \<open>None\<close>. Loops over indices are
    recursions on the suffixes the indices point at, with measures where they are not structural.
  \<^item> Regexp: Go's backtracking-priority regular expressions with named groups, executable by the list of
    all matches in priority order, for \<open>pep440Pattern\<close> and the identifier patterns.
  \<^item> Scheme_Table, Compare, Agreement: \<open>scheme.go\<close>, \<open>CompareCertain\<close>, and what all schemes agree on.
  \<^item> Model, Purl, Ecosystem, Cpe: \<open>model.go\<close>, \<open>purl.go\<close>, \<open>ecosystem.go\<close>, \<open>cpe.go\<close>.
  \<^item> Grades, Identity, Ranges, Window_Laws, Evaluate: \<open>identity.go\<close>, \<open>versions.go\<close>, \<open>match.go\<close>. The locale
    \<open>ordered_scheme\<close> of Window_Laws is the interface of an ordering to the windows, and is interpreted on
    the Debian and the RPM ordering.
  \<^item> Stable_Sort: the locale \<open>strict_weak_order\<close>, what a comparator owes a stable sort; interpreted on the
    comparators of \<open>sortFindings\<close>, of the NVD rows and of the port ranking.
  \<^item> Scan, Report: \<open>scan/scan.go\<close>. Candidates: \<open>store/scan.go\<close>, the lookup a scan's candidates come from.
  \<^item> Osv_Ranges, Osv, Cvss, Nvd, Cve5: \<open>parse/osv.go\<close>, \<open>cvss.go\<close>, \<open>nvd.go\<close>, \<open>cve5.go\<close>; Records: the record they fill.
  \<^item> Decimal, Ports, Targets: \<open>strconv\<close>'s decimal numbers; \<open>netscan/ports.go\<close>, \<open>topports.go\<close>, \<open>targets.go\<close> and the
    functions of \<open>nmap.go\<close> and \<open>strategy.go\<close> on ports and targets.
  \<^item> Distro, Package_Url, Cpe_Uri, Json, Inventory, Sbom, Local_Packages: \<open>inventory/distro.go\<close>, \<open>purl.go\<close>, \<open>cpe.go\<close>;
    JSON values and the decoding into structs; \<open>purllist.go\<close>, \<open>cyclonedx.go\<close> with \<open>spdx.go\<close>, \<open>local.go\<close>.
  \<^item> Go_Text, Banner_Regexp, Fingerprint, Scan_Results: strings cut at runes and searched; the banner patterns of
    \<open>netscan/fingerprint.go\<close> and what a banner or a certificate names; the output of nmap and masscan.
  \<^item> Workers: the pool of goroutines of \<open>sweep.go\<close> and \<open>probe.go\<close> as an inductive step relation, with its reachable
    states, its bound, its termination and the order-freeness of what it collects. Probe: one port, one host, a sweep.
  \<^item> Scan_Plan: \<open>strategy.go\<close>, the choice of an engine with its fallbacks, budgets and notes, over an oracle for tools.
  \<^item> Rate_Limit, Fetch, Body: \<open>httpx/fetcher.go\<close> and \<open>stall.go\<close>: the sliding-window limiter, requests and retries,
    the recorder of a body and the stall guard as step relations.
  \<^item> Dotenv, Config: \<open>config/dotenv.go\<close>, \<open>config/config.go\<close>.
  \<^item> Document: \<open>Merge\<close> of \<open>store.go\<close>, a function of the document and the record. Merge_Laws, Merge_Replay, Merge_Order: what a
    key holds behind a merge, that a replay changes nothing, what does not depend on the order of arrival. Upsert, Upsert_Laws: \<open>UpsertVulnerability\<close> on the tables
    \<open>vulnerabilities\<close> and \<open>vuln_aliases\<close>, and the partition of identifiers it implements. Child_Tables,
    Child_Laws: the tables of statements, as the calls write them; the locale \<open>child_table\<close> is what a table owes its
    reconciliation, \<open>exact_table\<close> what \<open>vuln_affected\<close> has beyond that, so that a scan reads the documents' statements.
  \<^item> Csaf_Tree, Csaf, Csaf_Laws, Csaf_Walk: CSAF advisories (\<open>collect/csaf_product.go\<close> and \<open>parseCSAF\<close>), what their records hold
    and the walk over a provider. Eu_Feeds: the records of EUVD and GCVE, and the resumption of a walk over pages
    (\<open>collect/eu_sources.go\<close>). Ingest, Ingest_Laws: the sink with its workers as a step relation, the runner and the
    cursor (\<open>collect/collect.go\<close>).
  \<^item> Divergences: inputs on which code and comments, or two parts of the code, disagree.
  \<^item> Examples, Feed_Examples, Inventory_Examples, Netscan_Examples, Store_Examples, Collect_Examples: concrete inputs the results below are applied to.
  \<^item> Further_Results: laws of single operations beside the properties below.

  \<^bold>\<open>Representation.\<close> Strings are byte lists; the code's case folding and trimming are modelled on ASCII, where
  Go's \<open>ToLower\<close>, \<open>EqualFold\<close> and \<open>TrimSpace\<close> are byte-wise, so a claim about folding is about ASCII input.
  Go's \<open>int\<close> is \<open>int\<close> or \<open>nat\<close>: what is computed are lengths, ranks, ports, address counts (with the saturation the
  code writes out) and differences of bytes or lengths, which cannot overflow. Scores and frequencies are
  rationals, so the rounding of \<open>float64\<close> is not modelled. Maps that are only looked up are association lists
  or partial maps; where a map is iterated the order is an argument. Human-readable reasons are left out;
  the machine-readable part of an evidence (tag, caps, demotions, notes) is kept.

  \<^bold>\<open>Termination.\<close> Every definition is a total function or an inductive relation. Fuel stands in one place: the loop of
  \<open>wait\<close> in Rate_Limit, of which a lemma shows that three rounds are enough for a caller that is alone. The loops over
  retries and directories are bounded in the code itself. That every run of the pool ends is a theorem, and that the
  sink can always be drained. The search of EUVD ends by the bound of the code on pages.

  \<^bold>\<open>Not modelled.\<close> The collectors of the other feeds (their parsers are modelled), the archive, the API and the command line, and the store apart from the candidate
  lookup, the merge and the identity of records (no derived columns, history or migrations). Sockets, processes, files and clocks: what they answer is an argument. Progress reports of a scan and a
  cancellation halfway through one. The order of equal ports, which the code leaves to an unstable sort. Code the
  repository only calls is an argument where the modelled code depends on it: the decoding of JSON and XML,
  \<open>time.Parse\<close>, \<open>time.ParseDuration\<close>, \<open>strconv.ParseFloat\<close>, the parsers of \<open>net/netip\<close>, and the database, which
  answers a query with the rows of its table or an error.
\<close>

text \<open>
  C1. Every finding of a report is a Match of a statement the store returned for that component, with that match's evidence, at the confidence floor or above.
\<close>

theorem report_sound:
  assumes "Report.Scan lookup summarise orders cs opt = Inr r" "f \<in> set (r_Findings r)"
  shows "\<exists>found i st. lookup (map query_of cs) = Inr found \<and> i < length cs \<and> st \<in> set (cs_Statements found i)
    \<and> f_Component f = cs ! i \<and> fst (Evaluate (cs ! i) (toAffected st)) = Match
    \<and> f_Evidence f = snd (Evaluate (cs ! i) (toAffected st)) \<and> finding_rank f \<le> confidenceRank (floor_of opt)"
  using assms by (rule Scan_sound)

lemma report_sound_witness:
  "\<exists>found i st. answered (map query_of [openssl]) = Inr found \<and> i < length [openssl] \<and> st \<in> set (cs_Statements found i)
    \<and> f_Component the_finding = [openssl] ! i \<and> fst (Evaluate ([openssl] ! i) (toAffected st)) = Match
    \<and> f_Evidence the_finding = snd (Evaluate ([openssl] ! i) (toAffected st))
    \<and> finding_rank the_finding \<le> confidenceRank (floor_of defaults)"
proof -
  obtain r where r: "Report.Scan answered no_summaries one_order [openssl] defaults = Inr r" "r_Findings r = [the_finding]"
    by (rule openssl_report)
  show ?thesis by (rule report_sound [OF r(1)]) (simp add: r(2))
qed

text \<open>
  C2. Every Match at the floor or above among the store's candidates leaves its vulnerability among the findings or the retired findings of the report.
\<close>

theorem report_complete:
  assumes "Report.Scan lookup summarise orders cs opt = Inr r" "lookup (map query_of cs) = Inr found"
    and "\<And>i. i < length cs \<Longrightarrow> iteration_order (orders i)
      (best (component_scan (cs ! i) (cs_Statements found i) (floor_of opt) (o_IncludeUndecidable opt)))"
    and "\<And>xs sm i vs. summarise xs = Inr sm \<Longrightarrow> sm i = Some vs \<Longrightarrow> vs_ID vs = i"
    and "i < length cs" "st \<in> set (cs_Statements found i)" "fst (Evaluate (cs ! i) (toAffected st)) = Match"
    and "finding_rank (finding_of (cs ! i) st) \<le> confidenceRank (floor_of opt)"
  shows "\<exists>f \<in> set (r_Findings r) \<union> set (r_Suppressed r). f_id f = st_VulnID st"
  using assms by (rule Scan_complete)

lemma report_complete_witness:
  "\<exists>r. Report.Scan answered no_summaries one_order [openssl] defaults = Inr r
     \<and> (\<exists>f \<in> set (r_Findings r) \<union> set (r_Suppressed r). f_id f = ''CVE-2024-1'')"
proof -
  obtain r where r: "Report.Scan answered no_summaries one_order [openssl] defaults = Inr r"
    by (rule openssl_report)
  let ?found = "\<lparr>cs_Statements = candidates, cs_Truncated = (\<lambda>_. False)\<rparr>"
  have "\<exists>f \<in> set (r_Findings r) \<union> set (r_Suppressed r). f_id f = st_VulnID affected_row"
    by (rule report_complete [OF r, of ?found 0])
      (auto simp: answered_def no_summaries_def candidates_def one_order_def floor_of_def defaults_def
        DefaultMinConfidence_def openssl_order openssl_matches finding_rank_def confidenceRank_def)
  with r show ?thesis by auto
qed



text \<open>
  C4. In every store the calls reach, the table the scan reads holds exactly the statements of the stored documents, one row to a fingerprint: what a record takes back is gone from it, what a fold brings over is reconciled, and a call that is skipped because the document did not change leaves nothing behind.
\<close>

theorem statement_table_is_documents:
  assumes "stored fp checksum st ch" "\<And>d e. checksum d = checksum e \<Longrightarrow> v_Aliases d = v_Aliases e"
  shows "affected_table ch = {statement_row i (affected_pk fp x) (clean_affected x) | i d x.
    loadDoc st i = Some d \<and> x \<in> set (dedupeBy fp (v_Affected d))}"
  using affected_table_documents stored_derived [OF assms] by blast

lemma statement_table_is_documents_witness:
  "\<exists>i d x. loadDoc openssl_rows i = Some d \<and> x \<in> set (v_Affected d) \<and> statement_row i (affected_pk one_digest x) (clean_affected x) = affected_row"
proof -
  have s: "stored one_digest doc_sum openssl_rows openssl_children" by (rule stored.upsert [OF stored.empty openssl_stored])
  have sums: "doc_sum d = doc_sum e \<Longrightarrow> v_Aliases d = v_Aliases e" for d e :: "nat Document" using doc_sum_same by blast
  have e: "{affected_row} = {statement_row i (affected_pk one_digest x) (clean_affected x) | i d x.
      loadDoc openssl_rows i = Some d \<and> x \<in> set (dedupeBy one_digest (v_Affected d))}"
    using statement_table_is_documents [OF s sums] by (simp only: openssl_table)
  note equalityD1 [OF e, THEN subsetD, OF singletonI]
  then show ?thesis using dedupeBy_props(1) [of one_digest] by (simp only: mem_Collect_eq) (metis subsetD)
qed



text \<open>
  C6. A finding reported for a component is a strongest positive of its vulnerability, and every negative statement about that vulnerability rests on weaker evidence.
\<close>

theorem veto:
  assumes "iteration_order order (best (component_scan c sts m u))"
    and "f \<in> set (matched (evaluateComponent order c sts m u))"
  shows "f \<in> set (positives c m sts)
      \<and> (\<forall>g \<in> set (positives c m sts). f_id g = f_id f \<longrightarrow> finding_rank f \<le> finding_rank g)
      \<and> (\<forall>v \<in> set (negatives c sts). f_id v = f_id f \<longrightarrow> finding_rank f < finding_rank v)"
  using assms by (rule evaluateComponent_matched)

lemma veto_witness: "the_finding \<in> set (positives openssl Probable [affected_row])"
  using veto [OF openssl_order [where u = False], of the_finding] by (simp add: openssl_verdicts)

text \<open>
  C7. The vulnerabilities reported and the ones retired partition those with a positive at the floor or above: none is lost and none is in both lists.
\<close>

theorem reported_or_retired_once:
  assumes "iteration_order order (best (component_scan c sts m u))"
  shows "f_id ` set (matched (evaluateComponent order c sts m u)) \<union> f_id ` set (suppressed (evaluateComponent order c sts m u))
      = f_id ` set (positives c m sts)
    \<and> f_id ` set (matched (evaluateComponent order c sts m u)) \<inter> f_id ` set (suppressed (evaluateComponent order c sts m u)) = {}"
  using evaluateComponent_partition [OF assms] by (rule conjI)

lemma reported_or_retired_once_witness:
  "f_id ` set (matched (evaluateComponent [''CVE-2024-1''] openssl [affected_row] Probable False))
      \<union> f_id ` set (suppressed (evaluateComponent [''CVE-2024-1''] openssl [affected_row] Probable False))
      = f_id ` set (positives openssl Probable [affected_row])"
  using reported_or_retired_once [OF openssl_order] by (rule conjunct1)

text \<open>
  C8. Evaluate answers Match exactly when an identity was accepted, the inventory states a version, the statement claims affectedness, the version test says in range, and the match is not a bare name on a distribution package.
\<close>

theorem match_means:
  "fst (Evaluate c a) = Match \<longleftrightarrow>
     id_grade (identify c a) \<noteq> idNone \<and> statedVersion (c_Version c)
     \<and> normalizeStatus (a_Status a) = StatusAffected
     \<and> e_verdict (versionTest c a (identify c a)) = vInRange
     \<and> \<not> (id_grade (identify c a) = idWeak \<and> id_componentFamily (identify c a) \<in> set distroFamilies)"
  by (rule Evaluate_Match)

text \<open>
  C9. On usable operands that agree on stating an epoch, a bounded window under the Debian scheme is always decided and is the interval of the dpkg order its bounds state: inclusive or exclusive below, exclusive at the fix, inclusive at the last affected version.
\<close>

theorem debian_window:
  assumes "no_sentinel r" "bounded r" "window_operands r v"
  shows "e_verdict (evalRange Debian v r) = (if Window_Laws.in_window debian_cmp r v then vInRange else vNotInRange)"
  using assms by (rule debian_windows.window_spec)

lemma debian_window_witness:
  "e_verdict (evalRange Debian ''1:2.3-1'' (window ''1:2.0-1'' ''1:2.3-2'' [])) = vInRange
   \<and> Window_Laws.in_window debian_cmp (window ''1:2.0-1'' ''1:2.3-2'' []) ''1:2.3-1''"
proof -
  have "no_sentinel (window ''1:2.0-1'' ''1:2.3-2'' [])" "bounded (window ''1:2.0-1'' ''1:2.3-2'' [])"
    "window_operands (window ''1:2.0-1'' ''1:2.3-2'' []) ''1:2.3-1''"
    "Window_Laws.in_window debian_cmp (window ''1:2.0-1'' ''1:2.3-2'' []) ''1:2.3-1''"
    by code_simp+
  then show ?thesis using debian_window by simp
qed



text \<open>
  C11. confidenceFor gives Confirmed exactly for an exact identity and an ordered comparison with no unproven condition, no heuristic and no elided epoch.
\<close>

theorem confidence_confirmed_iff:
  "fst (confidenceFor i vt) = Confirmed \<longleftrightarrow>
     id_grade i = idExact \<and> e_grade vt = vgOrdered \<and> id_unproven i = [] \<and> e_unproven vt = []
     \<and> \<not> e_heuristic vt \<and> \<not> e_epochElided vt"
  by (rule confidenceFor_Confirmed)



text \<open>
  C13. dpkg's in-place comparison of two strings is the lexicographic order of a key: the weights of the non-digits, then the value of the digit run, and so on, padded with zeros.
\<close>

theorem verrevcmp_refines_key: "verrevcmp a b = lexpad int_cmp 0 (deb_key a) (deb_key b)"
  by (rule verrevcmp_key)

text \<open>
  C14. rpm's in-place comparison is the lexicographic order of the token lists of the two strings, with tilde below the end and the end below a caret, a word and a number.
\<close>

theorem rpmvercmp_refines_tokens: "rpmvercmp a b = lexpad rpm_tok_cmp REnd (rpm_toks a) (rpm_toks b)"
  by (rule rpmvercmp_toks)



text \<open>
  C16. The canonical identifier of a record depends only on which identifiers it names, not on their order, repetition or spelling.
\<close>

theorem canonical_id_order_free:
  assumes "canonical_candidates ids = canonical_candidates ids'"
  shows "PickCanonicalID ids = PickCanonicalID ids'"
  using assms by (rule PickCanonicalID_cong)

lemma canonical_id_order_free_witness:
  "PickCanonicalID [''ghsa-2345-6789-cfgh'', ''cve-2024-0001''] = PickCanonicalID [''CVE-2024-0001'', '' GHSA-2345-6789-cfgh'']"
proof -
  have "NormalizeID ''ghsa-2345-6789-cfgh'' = ''GHSA-2345-6789-cfgh''" "NormalizeID ''cve-2024-0001'' = ''CVE-2024-0001''"
    "NormalizeID ''CVE-2024-0001'' = ''CVE-2024-0001''" "NormalizeID '' GHSA-2345-6789-cfgh'' = ''GHSA-2345-6789-cfgh''"
    by code_simp+
  then show ?thesis by (intro canonical_id_order_free) (auto simp: canonical_candidates_def)
qed

text \<open>
  C17. The alias table implements a partition of identifiers: in every store the calls reach, a call joins the classes of everything its record names into one, filed under one of them, and leaves every other class and what it is filed under alone.
\<close>

theorem identities_joined:
  fixes st :: "'t::linorder Store"
  assumes "reached fp checksum st" "UpsertVulnerability fp checksum v st = Some (c, st')"
    "\<And>d e. checksum d = checksum e \<Longrightarrow> v_Aliases d = v_Aliases e"
    "ids = set (AllIdentifiers (v_ID v) (v_Aliases v))" "J = ids \<union> {a. \<exists>b \<in> ids. (a, b) \<in> together st}"
  shows "together st' = together st \<union> J \<times> J \<and> c \<in> J \<and> (\<forall>a \<in> J. st_aliases st' a = Some c) \<and> (\<forall>a. a \<notin> J \<longrightarrow> st_aliases st' a = st_aliases st a)"
proof -
  have J: "J = joined st (AllIdentifiers (v_ID v) (v_Aliases v))" using assms(4,5) together_joined by blast
  have l: "listed checksum st" by (rule reached_listed [OF assms(1,3)])
  show ?thesis
    using upsert_together [OF assms(2) l assms(3)] upsert_step(1,2) [OF assms(2) l assms(3)] by (simp add: J)
qed

lemma identities_joined_witness:
  "\<exists>c st'. UpsertVulnerability text_digest alias_sum pysec_live empty_store = Some (c, st')
     \<and> st_aliases st' ''CVE-2024-1234'' = Some c \<and> st_aliases st' ''PYSEC-2024-7'' = Some c"
proof -
  have ids: "AllIdentifiers (v_ID pysec_live) (v_Aliases pysec_live) = [''CVE-2024-1234'', ''PYSEC-2024-7'']" by code_simp
  then obtain c st' where u: "UpsertVulnerability text_digest alias_sum pysec_live empty_store = Some (c, st')"
    by (simp add: UpsertVulnerability_def Let_def)
  show ?thesis
    using identities_joined [OF reached.empty u alias_sum_same refl refl] u unfolding ids by simp
qed

text \<open>
  C18. In every store the calls reach, an identifier that resolves resolves to a row with a document, and the identifier and the aliases of a document are exactly the identifiers that resolve to it, each in normal form: none dangles, none is lost in a fold, and no two documents share one.
\<close>

theorem documents_list_what_resolves:
  fixes st :: "'t::linorder Store"
  assumes "reached fp checksum st" "\<And>d e. checksum d = checksum e \<Longrightarrow> v_Aliases d = v_Aliases e" "st_aliases st a = Some i"
  shows "\<exists>d. loadDoc st i = Some d \<and> v_ID d = i \<and> i \<notin> set (v_Aliases d) \<and> NormalizeID a = a
    \<and> insert i (set (v_Aliases d)) = {b. st_aliases st b = Some i}"
proof -
  have l: "listed checksum st" by (rule reached_listed [OF assms(1,2)])
  then have "consistent st" by (simp add: listed_def)
  then obtain d where d: "holds st i d" using consistent_row assms(3) by blast
  then have e: "insert i (set (v_Aliases d)) = {b. st_aliases st b = Some i}" using l unfolding listed_def holds_def by blast
  then have "a \<in> insert i (set (v_Aliases d))" using assms(3) by blast
  then show ?thesis using d e unfolding holds_def by blast
qed

lemma documents_list_what_resolves_witness:
  "\<exists>(st :: nat Store) i d. reached text_digest alias_sum st \<and> st_aliases st ''PYSEC-2024-7'' = Some i \<and> loadDoc st i = Some d
     \<and> insert i (set (v_Aliases d)) = {b. st_aliases st b = Some i}"
proof -
  have ids: "AllIdentifiers (v_ID pysec_live) (v_Aliases pysec_live) = [''CVE-2024-1234'', ''PYSEC-2024-7'']" by code_simp
  then obtain c st' where u: "UpsertVulnerability text_digest alias_sum pysec_live empty_store = Some (c, st')"
    by (simp add: UpsertVulnerability_def Let_def)
  have r: "reached text_digest alias_sum st'" by (rule reached.upsert [OF reached.empty u])
  have "listed alias_sum (empty_store :: nat Store)" by (rule reached_listed [OF reached.empty alias_sum_same])
  then have "st_aliases st' ''PYSEC-2024-7'' = Some c"
    using upsert_step(2) [OF u _ alias_sum_same] unfolding ids by (simp only: joined_def list.set insert_iff Un_iff simp_thms if_True)
  note a = this
  obtain d where d: "loadDoc st' c = Some d" "insert c (set (v_Aliases d)) = {b. st_aliases st' b = Some c}"
    using documents_list_what_resolves [OF r alias_sum_same a] by blast
  show ?thesis by (rule exI [of _ st'], rule exI [of _ c], rule exI [of _ d], intro conjI) (rule r a d)+
qed



text \<open>
  C20. Merging a record that was just merged changes nothing, whether it was stale or not: no text, no statement, no order, no book-keeping. It rests on the document accounting for the statements it shares with the record.
\<close>

theorem replayed_record_changes_nothing:
  assumes "v_Source v \<noteq> []" "v_Source d \<noteq> []" "accounted_for fp (fresh_document v) (current fp (fresh_document v) d)"
  shows "Merge fp (Some (Merge fp (Some d) v)) v = Merge fp (Some d) v"
  using replay_record [of "fresh_document v" d fp] assms by (simp add: Merge_Some)

lemma replayed_record_changes_nothing_witness:
  "ingest text_digest [nvd_wide, cna_first, nvd_narrow, nvd_narrow] = ingest text_digest [nvd_wide, cna_first, nvd_narrow]"
proof -
  let ?d = "Merge text_digest (Some (Merge text_digest None nvd_wide)) cna_first"
  have "accounted_for text_digest (fresh_document nvd_narrow) (current text_digest (fresh_document nvd_narrow) ?d)" by code_simp
  moreover have "v_Source nvd_narrow \<noteq> []" "v_Source ?d \<noteq> []" by code_simp+
  ultimately show ?thesis using replayed_record_changes_nothing [of nvd_narrow ?d text_digest] by (simp add: ingest_def)
qed

text \<open>
  C21. In whatever order the records of a vulnerability arrive, and however stale some of them are, the document is filed under a source of the best rank among theirs and carries the latest modification time among theirs.
\<close>

theorem source_and_time_order_free:
  fixes rs :: "'t::linorder Fetched list"
  assumes "rs \<noteq> []" "\<And>v. v \<in> set rs \<Longrightarrow> NUL \<notin> set (v_Source v)"
  shows "\<exists>d. fold (\<lambda>v d. Some (Merge fp d v)) rs None = Some d
    \<and> rankOf (v_Source d) = Min (rankOf ` v_Source ` set rs) \<and> v_Source d \<in> v_Source ` set rs
    \<and> (\<forall>v \<in> set rs. at_least (v_Modified d) (v_Modified v)) \<and> v_Modified d \<in> v_Modified ` set rs"
  using ingest_books [OF assms, of fp] unfolding ingest_def by blast

lemma source_and_time_order_free_witness:
  "\<exists>d. ingest text_digest [nvd_narrow, cna_first, nvd_wide] = Some d \<and> v_Modified d = Some 7"
proof -
  have n: "NUL \<notin> set (v_Source v)" if "v \<in> set [nvd_narrow, cna_first, nvd_wide]" for v
  proof -
    have "list_all (\<lambda>v. NUL \<notin> set (v_Source v)) [nvd_narrow, cna_first, nvd_wide]" by code_simp
    then show ?thesis using that unfolding list_all_iff by blast
  qed
  obtain d where d: "fold (\<lambda>v d. Some (Merge text_digest d v)) [nvd_narrow, cna_first, nvd_wide] None = Some d"
      "v_Modified d \<in> v_Modified ` set [nvd_narrow, cna_first, nvd_wide]"
      "\<forall>v \<in> set [nvd_narrow, cna_first, nvd_wide]. at_least (v_Modified d) (v_Modified v)"
    using source_and_time_order_free [of "[nvd_narrow, cna_first, nvd_wide]" text_digest, OF _ n] by blast
  have "v_Modified nvd_narrow = Some 7" "v_Modified cna_first = Some 3" "v_Modified nvd_wide = Some 5" by code_simp+
  then have "v_Modified d = Some 7" using d(2,3) by (auto simp: at_least_def)
  then show ?thesis using d(1) unfolding ingest_def by blast
qed

text \<open>
  C22. Whatever record is merged into a withdrawn document, the withdrawal stays as it is, or is replaced by that of a record whose source ranks at least as high, or is taken back by the very record that set it, coming round without one.
\<close>

theorem withdrawal_kept_to_its_record:
  assumes "v_Withdrawn d = Some t" "d_WithdrawnBy d = contributionKey q" "NUL \<notin> set (v_Source q)"
    "v_SourceRecordID q \<noteq> [] \<or> v_ID q \<noteq> []" "NUL \<notin> set (v_Source v)" "out = Merge fp (Some d) v"
  shows "(v_Withdrawn out = Some t \<and> d_WithdrawnBy out = contributionKey q)
    \<or> (v_Withdrawn v \<noteq> None \<and> v_Withdrawn out = v_Withdrawn v \<and> d_WithdrawnBy out = contributionKey v
        \<and> rankOf (v_Source v) \<le> rankOf (v_Source q))
    \<or> (v_Withdrawn v = None \<and> v_Withdrawn out = None \<and> contributionKey v = contributionKey q)"
proof -
  have k: "keySource (contributionKey v) = v_Source v" "keySource (contributionKey q) = v_Source q"
    using keySource_key assms(3,5) by blast+
  have "contributionKey q = contributionKey v" if "recordMatchesKey (contributionKey q) (fresh_document v)"
    using matches_itself_only [OF that assms(3,4)] by simp
  then show ?thesis
    using withdrawal_stands [of "fresh_document v" d t "contributionKey q" fp] assms(1,2) k
    by (auto simp: assms(6) Merge_Some)
qed

lemma withdrawal_kept_to_its_record_witness:
  "map_option v_Withdrawn (ingest text_digest [ghsa_gone, pysec_live]) = Some (Some 8)"
proof -
  let ?d = "Merge text_digest None ghsa_gone"
  have d: "v_Withdrawn ?d = Some 8" "d_WithdrawnBy ?d = contributionKey ghsa_gone" "contributionKey pysec_live \<noteq> contributionKey ghsa_gone"
    "NUL \<notin> set (v_Source ghsa_gone)" "v_SourceRecordID ghsa_gone \<noteq> [] \<or> v_ID ghsa_gone \<noteq> []" "NUL \<notin> set (v_Source pysec_live)"
    "v_Withdrawn pysec_live = None"
    by code_simp+
  then show ?thesis
    using withdrawal_kept_to_its_record [OF d(1,2,4,5,6) refl, of text_digest] by (simp add: ingest_def)
qed

text \<open>
  C23. Whatever the workers, the queue and the database do, in whatever order: when a run of a source moves its cursor, every record the sink took from it and did not hand back was merged, or is byte for byte one of its source and id that was. No record is skipped as unchanged whose merge failed, and none is passed that was lost.
\<close>

theorem cursor_passes_only_merged_records:
  assumes "raw_ok digest d0" "sink_run digest cfg (new_sink, d0) (s, d)" "drained s" "sink_run digest cfg (s, d) (s', d')" "drained s'"
    and "RunOne start collector (sk_Failed s) (sk_Failed s') = (c, failed)" "c \<noteq> start" "v \<in># held s' - held s"
  shows "covered digest d' v"
proof -
  have "sink_inv cfg s" "jobs_ok digest s d" using run_laws [OF assms(2)] assms(1) by simp_all
  moreover have "sk_Failed s' \<le> sk_Failed s" using assms(6,7) by (auto simp: RunOne_def Let_def split: prod.splits if_splits)
  ultimately show ?thesis using run_covers [OF assms(4) _ _ assms(3,5)] assms(8) by blast
qed

lemma cursor_passes_only_merged_records_witness: "covered plain_digest disk_after raw_record"
proof (rule cursor_passes_only_merged_records [OF _ sink_run.rest new_sink_ok(4) one_record])
  show "raw_ok plain_digest empty_disk" by (simp add: raw_ok_def empty_disk_def)
  show "drained sink_after" by (simp add: drained_def sink_after_def new_sink_def)
  show "RunOne Map.empty (\<lambda>_. ([''since'' \<mapsto> ''1''], None)) (sk_Failed (new_sink :: nat sink)) (sk_Failed sink_after) = ([''since'' \<mapsto> ''1''], False)"
    by (simp add: RunOne_def sink_after_def new_sink_def)
  show "[''since'' \<mapsto> ''1''] \<noteq> (Map.empty :: cursor)" using map_upd_nonempty [of Map.empty] by simp
  show "raw_record \<in># held sink_after - held new_sink" by (simp add: held_def sink_after_def new_sink_def)
qed







text \<open>
  C27. An RPM reference name-epoch:version-release.arch is read back as its name and version-release, however many hyphens and dots the name and the release hold.
\<close>

theorem nevra_read_back:
  assumes "nevra_parts n e v r a" "rpm_text n" "rpm_text v" "rpm_text r"
  shows "splitNEVRA (n @ ''-'' @ e @ '':'' @ v @ ''-'' @ r @ ''.'' @ a) = Some (n, v @ ''-'' @ r)"
  using splitNEVRA_reads [OF assms] by (simp add: nevra_text_def)

lemma nevra_read_back_witness:
  "splitNEVRA ''glibc-langpack-kok-0:2.34-28.el9_0.6.s390x'' = Some (''glibc-langpack-kok'', ''2.34-28.el9_0.6'')"
proof -
  have "nevra_parts ''glibc-langpack-kok'' ''0'' ''2.34'' ''28.el9_0.6'' ''s390x''" "rpm_text ''glibc-langpack-kok''" "rpm_text ''2.34''"
    "rpm_text ''28.el9_0.6''" by code_simp+
  from nevra_read_back [OF this] show ?thesis by simp
qed

text \<open>
  C28. Every run of the pool ends: no run goes on for ever, a state that is not the end has a next one, and from every reachable state the end is reached, with every job finished unless the scan was cancelled.
\<close>

theorem pool_ends:
  assumes "pool_reach n jobs s"
  shows "wfp (\<lambda>t s. pool_step n s t) \<and> (pool_done s \<or> (\<exists>t. pool_step n s t))
    \<and> (\<exists>t. (pool_step n)\<^sup>*\<^sup>* s t \<and> pool_done t \<and> (stopped t \<or> mset (finished t) = mset jobs))"
proof -
  have "length (busy s) \<le> slots n" using pool_reach_inv [OF assms] by (simp add: pool_inv_def)
  moreover obtain t where "pool_reach n jobs t" "(pool_step n)\<^sup>*\<^sup>* s t" "pool_done t" using pool_finishes [OF assms] by blast
  ultimately show ?thesis using pool_step_wf [of n] pool_progress [of s n] pool_done_all [of n jobs t] by blast
qed

lemma pool_ends_witness: "\<exists>t. (pool_step 2)\<^sup>*\<^sup>* (pool_start [''a'', ''b'']) t \<and> pool_done t"
  using pool_ends [OF pool_reach.start [of 2 "[''a'', ''b'']"]] by blast

text \<open>
  C29. However the goroutines of the pool interleave, a sweep that no host failed reports the same hosts in the same order as one that probes the addresses one after the other.
\<close>

theorem sweep_order_free:
  assumes "pool_reach n jobs s" "pool_done s" "\<not> stopped s" "list_all (\<lambda>j. \<not> isl (scan j)) jobs"
    and "inj_on host_name (set (List.map_filter (\<lambda>j. kept_result (scan j)) jobs))"
  shows "sweep_collect None scan (finished s) = sweep_collect None scan jobs"
proof -
  have "mset jobs = mset (finished s)" using pool_done_all [OF assms(1-3)] by simp
  from sweep_collect_order [OF this assms(5,4)] sweep_collect_order [OF refl assms(5,4)] show ?thesis by simp
qed

lemma sweep_order_free_witness:
  "sweep_collect None (\<lambda>ip. Probe.Scan None ssh_net None ip [22] [22]) [''b'', ''a'']
     = sweep_collect None (\<lambda>ip. Probe.Scan None ssh_net None ip [22] [22]) [''a'', ''b'']"
proof -
  let ?scan = "\<lambda>ip. Probe.Scan None ssh_net None ip [22] [22]"
  have k: "host_name r = ip" if "kept_result (?scan ip) = Some r" for ip r
  proof -
    have "?scan ip = Inr (scan_host ssh_net None ip [22] [22])" unfolding Probe.Scan_def by (rule option.case)
    then have "r = scan_host ssh_net None ip [22] [22]" using that kept_result_same by metis
    then show ?thesis by (simp only: scan_host_name option.case)
  qed
  have "inj_on host_name (set (List.map_filter (\<lambda>j. kept_result (?scan j)) [''a'', ''b'']))"
  proof (rule inj_onI)
    fix x y
    assume "x \<in> set (List.map_filter (\<lambda>j. kept_result (?scan j)) [''a'', ''b''])" "y \<in> set (List.map_filter (\<lambda>j. kept_result (?scan j)) [''a'', ''b''])"
      and eq: "host_name x = host_name y"
    then obtain i j where ij: "kept_result (?scan i) = Some x" "kept_result (?scan j) = Some y" unfolding map_filter_mem by blast
    then have "i = j" using k [OF ij(1)] k [OF ij(2)] eq by simp
    then have "Some x = Some y" using ij by (simp only:)
    then show "x = y" by (rule option.inject [THEN iffD1])
  qed
  moreover have "list_all (\<lambda>j. \<not> isl (?scan j)) [''a'', ''b'']" by (simp add: Probe.Scan_def)
  ultimately show ?thesis using sweep_order_free [OF pool_example, of ?scan] by (simp add: pool_done_def)
qed

text \<open>
  C30. Every component the inventory of a scanned host holds rests on the banner of one of its ports: the version is a piece of what that port answered and starts with a digit, and the CPE name is read back by the matcher as the vendor, product and version of the component.
\<close>

theorem scan_inventory_evidenced:
  assumes "c \<in> set (result_Components (scan_host net addr host ports finished_ports))"
  shows "\<exists>port banner subject a. probe (net port) host port = Inr (banner, subject)
    \<and> c_Origin c = ''netscan:'' @ Itoa port \<and> piece_of (c_Version c) banner \<and> looksLikeVersion (c_Version c)
    \<and> parseCPE (c_CPE c) = Some a \<and> cpe_vendor a = cpeAttr (c_Vendor c) \<and> cpe_product a = cpeAttr (c_Name c)
    \<and> cpe_version a = cpeAttr (c_Version c)"
  using scan_host_components [OF assms] unfolding evidenced_def service_attrs_def by fastforce

lemma scan_inventory_evidenced_witness:
  "\<exists>port banner subject. probe (ssh_net port) ''db'' port = Inr (banner, subject) \<and> piece_of ''8.4p1'' banner"
proof -
  have c: "ssh_component \<in> set (result_Components (scan_host ssh_net None ''db'' [22, 80] [80, 22]))" by (simp add: ssh_scan)
  show ?thesis using scan_inventory_evidenced [OF c] by (auto simp: ssh_component_def)
qed

text \<open>
  C31. However many callers share a limiter, in no stretch of time as long as its window are more requests granted than its burst, and with a minimum interval no longer than the window any two requests are at least that far apart.
\<close>

theorem rate_window_slides:
  assumes "granted (newLimiter burst win minInterval) l ts now" "0 < win" "minInterval \<le> win"
  shows "int (length (filter (\<lambda>t. x < t \<and> t \<le> x + win) ts)) \<le> max burst 1
    \<and> sorted_wrt (\<lambda>a b. b - a \<ge> minInterval) ts"
proof -
  let ?l = "newLimiter burst win minInterval"
  have l: "lm_window ?l = win" "lm_burst ?l = max burst 1" "lm_minInterval ?l = minInterval"
    using assms(2) by (auto simp: newLimiter_def)
  show ?thesis
    using granted_window [OF assms(1), of x] granted_spaced [OF assms(1)] assms(2,3) unfolding l Rate_Limit.in_window_def by simp
qed

lemma rate_window_slides_witness: "sorted_wrt (\<lambda>a b. b - a \<ge> 6) [0, 7 :: int]"
proof -
  let ?l = "newLimiter 4 30 6"
  have "granted ?l ?l [] 0" by (rule granted.start) (simp add: newLimiter_def)
  then have "granted ?l (?l\<lparr>lm_recent := [0]\<rparr>) ([] @ [0]) 0"
    by (rule granted.grant) (simp_all add: newLimiter_def limiter_poll_def prune_def Let_def)
  then have "granted ?l (?l\<lparr>lm_recent := [0, 7]\<rparr>) (([] @ [0]) @ [7]) 7"
    by (rule granted.grant) (simp_all add: newLimiter_def limiter_poll_def prune_def Let_def)
  from rate_window_slides [OF this] show ?thesis by simp
qed






text \<open>
  C35. The package URL an installed dpkg or rpm package is given reads back, with the matcher's own parser, as the distribution, the name, the version, the release tag and the epoch the package database states.
\<close>

theorem installed_package_read:
  assumes "plain_host host" "text_ok (to_lower (rpmNamespace (os_ID host)))"
    and "name \<noteq> []" "text_ok name" "text_ok version" "text_ok arch" "text_ok ep"
  shows "\<exists>p q. parsePURL (debPURL host name version arch) = Some p \<and> parsePURL (rpmPURL host name version arch ep) = Some q
    \<and> p_Type p = ''deb'' \<and> p_Namespace p = to_lower (os_ID host) \<and> p_Name p = to_lower name \<and> p_Version p = version
    \<and> p_Distro p = distroTag host
    \<and> p_Type q = ''rpm'' \<and> p_Namespace q = to_lower (rpmNamespace (os_ID host)) \<and> p_Name q = to_lower name
    \<and> p_Version q = version \<and> p_Distro q = numericDistroTag host \<and> p_Epoch q = (if ep = ''0'' then [] else ep)"
  using deb_purl_read [OF assms(1,3-6)] rpm_purl_read [OF assms] by blast

lemma installed_package_read_witness:
  "\<exists>p. parsePURL (debPURL bookworm ''libssl3'' ''3.0.11-1~deb12u2'' ''amd64'') = Some p
     \<and> p_Version p = ''3.0.11-1~deb12u2'' \<and> p_Distro p = ''debian-bookworm''"
proof -
  have "text_ok (to_lower (rpmNamespace (os_ID bookworm)))" "text_ok ''libssl3''" "text_ok ''3.0.11-1~deb12u2''" "text_ok ''amd64''"
    "text_ok []" "distroTag bookworm = ''debian-bookworm''"
    by code_simp+
  then show ?thesis
    using installed_package_read [OF bookworm_plain, of "''libssl3''" "''3.0.11-1~deb12u2''" "''amd64''" "[]"] by auto
qed

text \<open>
  C36. A package URL that buildPURL prints parses back, with the inventory's parser, to the type, namespace, name, version and qualifiers it was printed from.
\<close>

theorem package_url_round_trip:
  assumes "Package_Url.printable ty namespace name version qs"
  shows "parsePackage (buildPURL ty namespace name version qs) =
    Some \<lparr>k_Type = to_lower ty, k_Namespace = to_lower namespace, k_Name = name, k_Version = version,
      k_Qualifiers = map_of (filter (\<lambda>(k, v). v \<noteq> []) qs), k_Subpath = []\<rparr>"
  using assms by (rule parse_build)

lemma package_url_round_trip_witness:
  "\<exists>p. parsePackage (buildPURL ''npm'' ''@acme/ui'' ''a b'' ''1.0#x'' [(''arch'', ''any'')]) = Some p
     \<and> k_Namespace p = ''@acme/ui'' \<and> k_Name p = ''a b'' \<and> k_Version p = ''1.0#x''"
proof -
  have "Package_Url.printable ''npm'' ''@acme/ui'' ''a b'' ''1.0#x'' [(''arch'', ''any'')]" by code_simp
  moreover have "to_lower ''@acme/ui'' = ''@acme/ui''" by code_simp
  ultimately show ?thesis using package_url_round_trip [of "''npm''"] by simp
qed

text \<open>
  C37. A configuration that Load accepts is well formed: a positive timeout, batches of one at least, and a positive interval for each registered source and for nothing else, each the value its variable states where there is one; and the order in which the intervals are visited does not show.
\<close>

theorem accepted_configuration:
  assumes "Load pd names dotenv penv = Inr c" "set names = dom DefaultIntervals"
  shows "0 < cf_HTTPTimeout c \<and> 1 \<le> cf_IngestBatchSize c \<and> dom (cf_Intervals c) = set AllSources
    \<and> (\<forall>n d. cf_Intervals c n = Some d \<longrightarrow>
          0 < d \<and> stated_or pd (applied dotenv penv) (interval_key n) (the (DefaultIntervals n)) d)
    \<and> (\<forall>names'. set names' = set names \<longrightarrow> Load pd names' dotenv penv = Inr c)"
proof -
  let ?r = "applied dotenv penv"
  have i: "\<And>n. n \<in> set names \<Longrightarrow> cf_Intervals c n = interval_in pd ?r n (DefaultIntervals n)"
    "\<And>n. n \<notin> set names \<Longrightarrow> cf_Intervals c n = DefaultIntervals n"
    "\<And>n. n \<in> set names \<Longrightarrow> \<exists>x. interval_for pd ?r n = Inr x"
    using Load_bounds(3) [OF assms(1)] by (simp_all add: read_intervals_Inr)
  have same: "Load pd names' dotenv penv = Inr c" if "set names' = set names" for names'
    using assms(1) that unfolding Load_Inr read_intervals_Inr by simp
  have one: "\<exists>d. cf_Intervals c n = Some d \<and> 0 < d \<and> stated_or pd ?r (interval_key n) (the (DefaultIntervals n)) d"
    if "n \<in> dom DefaultIntervals" for n
    using interval_settled [OF _ that, of pd ?r] i(1,3) [of n] that assms(2) by auto
  have none: "cf_Intervals c n = None" if "n \<notin> dom DefaultIntervals" for n
    using i(2) [of n] that assms(2) by (simp add: domIff)
  have "dom (cf_Intervals c) = dom DefaultIntervals" using one none by (metis domIff option.distinct(1) subsetI subset_antisym)
  then have d: "dom (cf_Intervals c) = set AllSources" by (simp only: default_intervals_dom)
  have "\<forall>n d. cf_Intervals c n = Some d \<longrightarrow> 0 < d \<and> stated_or pd ?r (interval_key n) (the (DefaultIntervals n)) d"
  proof (intro allI impI)
    fix n d assume "cf_Intervals c n = Some d"
    then show "0 < d \<and> stated_or pd ?r (interval_key n) (the (DefaultIntervals n)) d"
      using one [of n] none [of n] by (cases "n \<in> dom DefaultIntervals") auto
  qed
  then show ?thesis using Load_bounds(1,2) [OF assms(1)] same d by blast
qed

lemma accepted_configuration_witness:
  "\<exists>c. Load (\<lambda>s. if s = ''30m'' then Some (1800 * second) else None) AllSources
          (Some [''CVEFEED_INTERVAL_NVD'' \<mapsto> ''30m'']) Map.empty = Inr c \<and> cf_Intervals c ''nvd'' = Some (1800 * second)"
proof -
  let ?pd = "\<lambda>s. if s = ''30m'' then Some (1800 * second) else None"
  let ?m = "[''CVEFEED_INTERVAL_NVD'' \<mapsto> ''30m'']"
  obtain c where c: "Load ?pd AllSources (Some ?m) Map.empty = Inr c" using half_hourly by blast
  have "cf_Intervals c ''nvd'' \<noteq> None"
    using accepted_configuration [OF c default_intervals_dom [symmetric]] by (auto simp: AllSources_def dom_def)
  then obtain d where d: "cf_Intervals c ''nvd'' = Some d" by blast
  then have "stated_or ?pd (applied (Some ?m) Map.empty) (interval_key ''nvd'') (the (DefaultIntervals ''nvd'')) d"
    using accepted_configuration [OF c default_intervals_dom [symmetric]] by blast
  then have "d = 1800 * second" by (simp only: stated_or_def half_hourly_nvd) simp
  then show ?thesis using c d by blast
qed



text \<open>
  C39. The dpkg, rpm, semver, PEP 440 and numeric comparators answer -1, 0 or 1, swap their answer with their operands and are transitive.
\<close>

theorem three_way_orders:
  "three_way verrevcmp \<and> three_way debian_cmp \<and> three_way rpmvercmp \<and> three_way rpm_cmp
   \<and> three_way compareSemverParts \<and> three_way comparePEP440 \<and> three_way compareNumericText"
  using three_way_verrevcmp three_way_debian_cmp three_way_rpmvercmp three_way_rpm_cmp
    three_way_compareSemverParts three_way_comparePEP440 three_way_compareNumericText by blast


end
